(* ===== verification/Knp_Prelude.thy ===== *)
theory Knp_Prelude
  imports Main "HOL-Library.Word" "HOL-Library.Monad_Syntax" "HOL-Library.Sublist"
begin

text \<open>
  Shared vocabulary of the KNP development: C strings as byte lists, the string functions of the
  C library that the sources call, index loops, two-dimensional arrays and partial operations.

  A C string is the list of its bytes without the terminating NUL (\<^typ>\<open>string\<close>, one
  \<^typ>\<open>char\<close> per byte); the sources are built with their default encoding, UTF-8, in which a
  Japanese character usually takes three bytes (\<open>BYTES4CHAR\<close>, \<open>src/system/const.h\<close>).
  An operation whose C counterpart may read through a null pointer, outside an array or through a
  pointer cast to the wrong structure has an \<open>option\<close> result in which \<^const>\<open>None\<close> is that
  undefined behaviour.
\<close>

unbundle bit_operations_syntax

section \<open>Collections of facts\<close>

named_theorems lit \<open>the byte lists behind the string literals of the sources\<close>
named_theorems cstring \<open>rewrite rules for the C string functions\<close>
named_theorems matrix \<open>rewrite rules for loops that write a matrix\<close>

section \<open>C strings\<close>

text \<open>\<^verbatim>\<open>!strncmp(s, p, strlen(p))\<close>: the string \<open>s\<close> starts with \<open>p\<close>.\<close>

definition starts :: "string \<Rightarrow> string \<Rightarrow> bool" where
  "starts s p \<longleftrightarrow> take (length p) s = p"

text \<open>\<^verbatim>\<open>s[i]\<close>: the byte after the last one is NUL, a byte further is not part of the string.\<close>

definition char_at :: "string \<Rightarrow> nat \<Rightarrow> char option" where
  "char_at s i =
     (if i < length s then Some (s ! i) else if i = length s then Some (CHR 0x00) else None)"

text \<open>\<^verbatim>\<open>strchr\<close>, as the suffix it points to.\<close>

fun c_strchr :: "string \<Rightarrow> char \<Rightarrow> string option" where
  "c_strchr [] c = None"
| "c_strchr (x # xs) c = (if x = c then Some (x # xs) else c_strchr xs c)"

text \<open>\<^verbatim>\<open>strstr\<close>.\<close>

fun c_strstr :: "string \<Rightarrow> string \<Rightarrow> string option" where
  "c_strstr [] p = (if p = [] then Some [] else None)"
| "c_strstr (x # xs) p = (if starts (x # xs) p then Some (x # xs) else c_strstr xs p)"

definition is_digit :: "char \<Rightarrow> bool" where
  "is_digit c \<longleftrightarrow> 48 \<le> (of_char c :: nat) \<and> (of_char c :: nat) \<le> 57"

definition is_blank :: "char \<Rightarrow> bool" where
  "is_blank c \<longleftrightarrow> (of_char c :: nat) \<in> {9, 10, 11, 12, 13, 32}"

fun digits_value :: "int \<Rightarrow> string \<Rightarrow> int" where
  "digits_value acc [] = acc"
| "digits_value acc (c # cs) =
     (if is_digit c then digits_value (acc * 10 + (of_char c - 48)) cs else acc)"

text \<open>\<^verbatim>\<open>atoi\<close>: white space, an optional sign, the longest run of digits (0 for none).\<close>

definition c_atoi :: "string \<Rightarrow> int" where
  "c_atoi s =
     (case dropWhile is_blank s of
        [] \<Rightarrow> 0
      | c # cs \<Rightarrow>
          if c = CHR ''-'' then - digits_value 0 cs
          else if c = CHR ''+'' then digits_value 0 cs
          else digits_value 0 (c # cs))"

text \<open>
  One \<^verbatim>\<open>%d\<close> of \<^verbatim>\<open>sscanf\<close>: the value and the rest of the input, or \<^const>\<open>None\<close>
  when no digit can be read.
\<close>

definition scan_int :: "string \<Rightarrow> (int \<times> string) option" where
  "scan_int s =
     (let t = dropWhile is_blank s;
          neg = (t \<noteq> [] \<and> hd t = CHR ''-'');
          u = (if t \<noteq> [] \<and> (hd t = CHR ''-'' \<or> hd t = CHR ''+'') then tl t else t)
      in if u \<noteq> [] \<and> is_digit (hd u)
         then Some (if neg then - digits_value 0 u else digits_value 0 u, dropWhile is_digit u)
         else None)"

text \<open>
  One \<^verbatim>\<open>%[^c]\<close> of \<^verbatim>\<open>sscanf\<close>: the longest non-empty prefix without the byte
  \<open>c\<close>, and the rest.
\<close>

definition scan_until :: "char \<Rightarrow> string \<Rightarrow> (string \<times> string) option" where
  "scan_until c s =
     (let p = takeWhile (\<lambda>x. x \<noteq> c) s
      in if p = [] then None else Some (p, dropWhile (\<lambda>x. x \<noteq> c) s))"

text \<open>\<^verbatim>\<open>%d\<close> of \<^verbatim>\<open>sprintf\<close>, for a number that is not negative.\<close>

fun decimal :: "nat \<Rightarrow> string" where
  "decimal n =
     (if n < 10 then [char_of (48 + n)] else decimal (n div 10) @ [char_of (48 + n mod 10)])"

declare decimal.simps [simp del]

lemma starts_prefix [cstring]: "starts s p \<longleftrightarrow> prefix p s"
  by (auto simp: starts_def prefix_def) (metis append_take_drop_id)

lemma starts_append [simp]: "starts (p @ s) p"
  by (simp add: starts_def)

lemma starts_refl [simp]: "starts s s"
  by (simp add: starts_def)

lemma starts_Nil [simp]: "starts s []"
  by (simp add: starts_def)

lemma starts_lengthD: "starts s p \<Longrightarrow> length p \<le> length s"
  by (metis length_take min.absorb_iff2 nat_le_linear starts_def take_all)

lemma starts_drop: "starts s p \<Longrightarrow> s = p @ drop (length p) s"
  by (metis append_take_drop_id starts_def)

lemma char_at_append [simp]: "char_at (p @ c # s) (length p) = Some c"
  by (simp add: char_at_def)

lemma c_strchr_None [simp]: "c_strchr s c = None \<longleftrightarrow> c \<notin> set s"
  by (induction s) auto

lemma c_strchr_Some:
  "c_strchr s c = Some t \<longleftrightarrow> (\<exists>p. s = p @ t \<and> c \<notin> set p \<and> t \<noteq> [] \<and> hd t = c)"
  by (induction s) (auto simp: Cons_eq_append_conv)

section \<open>Index loops and matrices\<close>

text \<open>
  \<^verbatim>\<open>for (i = a; i < b; i++) body\<close> is a fold over \<open>[a..<b]\<close>. The global arrays of
  the sources (\<^verbatim>\<open>Dpnd_matrix[BNST_MAX][BNST_MAX]\<close> and the like) are functions of their
  indices.
\<close>

type_synonym 'a matrix = "nat \<Rightarrow> nat \<Rightarrow> 'a"

definition for_upt :: "nat \<Rightarrow> nat \<Rightarrow> (nat \<Rightarrow> 's \<Rightarrow> 's) \<Rightarrow> 's \<Rightarrow> 's" where
  "for_upt a b body s = fold body [a..<b] s"

definition set_cell :: "nat \<Rightarrow> nat \<Rightarrow> 'a \<Rightarrow> 'a matrix \<Rightarrow> 'a matrix" where
  "set_cell i j v m = m(i := (m i)(j := v))"

text \<open>The rectangle loop of the sources: write \<open>v\<close> in rows \<open>[a..<b]\<close>, columns \<open>[c..<d]\<close>.\<close>

definition fill_rect :: "nat \<Rightarrow> nat \<Rightarrow> nat \<Rightarrow> nat \<Rightarrow> 'a \<Rightarrow> 'a matrix \<Rightarrow> 'a matrix" where
  "fill_rect a b c d v m = for_upt a b (\<lambda>i. for_upt c d (\<lambda>j. set_cell i j v)) m"

lemma for_upt_Nil [simp]: "b \<le> a \<Longrightarrow> for_upt a b f s = s"
  by (simp add: for_upt_def)

lemma for_upt_Suc: "a \<le> b \<Longrightarrow> for_upt a (Suc b) f s = f b (for_upt a b f s)"
  by (simp add: for_upt_def)

lemma for_upt_rec: "a < b \<Longrightarrow> for_upt a b f s = for_upt (Suc a) b f (f a s)"
  by (simp add: for_upt_def upt_conv_Cons)

text \<open>Invariant rule for an index loop.\<close>

lemma for_upt_invariant:
  assumes "P a s" and "\<And>i t. a \<le> i \<Longrightarrow> i < b \<Longrightarrow> P i t \<Longrightarrow> P (Suc i) (f i t)" and "a \<le> b"
  shows "P b (for_upt a b f s)"
  using assms(3) assms(2)
proof (induction b rule: dec_induct)
  case base
  then show ?case using assms(1) by simp
next
  case (step n)
  then show ?case by (simp add: for_upt_Suc)
qed

lemma for_upt_keeps:
  assumes "P s" and "\<And>i t. a \<le> i \<Longrightarrow> i < b \<Longrightarrow> P t \<Longrightarrow> P (f i t)"
  shows "P (for_upt a b f s)"
proof (cases "a \<le> b")
  case True
  then show ?thesis using for_upt_invariant [of "\<lambda>_. P"] assms by blast
next
  case False
  then show ?thesis using assms(1) by simp
qed

lemma set_cell_apply [matrix]: "set_cell i j v m x y = (if x = i \<and> y = j then v else m x y)"
  by (simp add: set_cell_def)

lemma for_upt_row [matrix]:
  "for_upt c d (\<lambda>j. set_cell i j v) m x y = (if x = i \<and> c \<le> y \<and> y < d then v else m x y)"
proof (cases "c \<le> d")
  case True
  then show ?thesis
    by (induction d rule: dec_induct) (auto simp: for_upt_Suc set_cell_apply less_Suc_eq)
qed auto

text \<open>Loops whose body writes one value in the cells of a set, or leaves the matrix alone.\<close>

lemma fold_cell:
  "(\<And>k m. k \<in> set ks \<Longrightarrow> f k m x y = (if B k then v else m x y)) \<Longrightarrow>
   fold f ks m x y = (if \<exists>k \<in> set ks. B k then v else m x y)"
  by (induction ks arbitrary: m) auto

lemma for_upt_cell:
  "(\<And>l m. a \<le> l \<Longrightarrow> l < b \<Longrightarrow> f l m x y = (if B l then v else m x y)) \<Longrightarrow>
   for_upt a b f m x y = (if \<exists>l \<in> {a..<b}. B l then v else m x y)"
  unfolding for_upt_def by (subst fold_cell [where B = B and v = v]) auto

text \<open>What the rectangle loop leaves in each cell.\<close>

lemma fill_rect_apply [matrix]:
  "fill_rect a b c d v m x y =
     (if a \<le> x \<and> x < b \<and> c \<le> y \<and> y < d then v else m x y)"
proof (cases "a \<le> b")
  case True
  then show ?thesis
    unfolding fill_rect_def
    by (induction b rule: dec_induct) (auto simp: for_upt_Suc for_upt_row less_Suc_eq)
qed (auto simp: fill_rect_def)

section \<open>Lists\<close>

text \<open>A loop whose body may be undefined.\<close>

fun fold_option :: "('a \<Rightarrow> 's \<Rightarrow> 's option) \<Rightarrow> 'a list \<Rightarrow> 's \<Rightarrow> 's option" where
  "fold_option f [] s = Some s"
| "fold_option f (x # xs) s = Option.bind (f x s) (fold_option f xs)"

lemma fold_option_invariant:
  assumes "fold_option f xs s = Some t" and "P s"
    and "\<And>x s t. x \<in> set xs \<Longrightarrow> f x s = Some t \<Longrightarrow> P s \<Longrightarrow> P t"
  shows "P t"
  using assms by (induction xs arbitrary: s) (auto simp: bind_eq_Some_conv)

lemma fold_option_append: "fold_option f (xs @ ys) s = Option.bind (fold_option f xs s) (fold_option f ys)"
  by (induction xs arbitrary: s) (auto split: bind_split)

lemma fold_option_cong: "(\<And>x. x \<in> set xs \<Longrightarrow> f x = g x) \<Longrightarrow> fold_option f xs = fold_option g xs"
proof (induction xs)
  case (Cons x xs)
  then have "fold_option f xs = fold_option g xs" "f x = g x" by simp_all
  then show ?case by (intro ext) simp
qed (simp add: fun_eq_iff)

text \<open>\<^verbatim>\<open>xs[i]\<close> where an index outside the array is undefined behaviour.\<close>

definition at :: "'a list \<Rightarrow> nat \<Rightarrow> 'a option" where
  "at xs i = (if i < length xs then Some (xs ! i) else None)"

lemma at_Some [simp]: "at xs i = Some x \<longleftrightarrow> i < length xs \<and> xs ! i = x"
  by (auto simp: at_def)

lemma at_None [simp]: "at xs i = None \<longleftrightarrow> length xs \<le> i"
  by (auto simp: at_def)

lemma at_Cons_0 [simp]: "at (x # xs) 0 = Some x"
  by (simp add: at_def)

lemma find_append:
  "find P (xs @ ys) = (case find P xs of Some x \<Rightarrow> Some x | None \<Rightarrow> find P ys)"
  by (induction xs) auto

section \<open>Searches with a handler\<close>

text \<open>
  A search passes what it finds to a handler, whose state it threads next to a state of its own. It enumerates when
  running the handler during the search is folding it over the list of what is found; \<open>collect\<close> gives that list.
\<close>

definition collect :: "'d \<Rightarrow> 'd list \<Rightarrow> 'd list option" where
  "collect d ds = Some (ds @ [d])"

definition enumerates ::
  "('d \<Rightarrow> 's \<Rightarrow> 's option) \<Rightarrow> ('c \<times> 's \<Rightarrow> ('c \<times> 's) option) \<Rightarrow>
   ('c \<Rightarrow> ('c \<times> 'd list) option) \<Rightarrow> bool" where
  "enumerates ev run gen \<longleftrightarrow>
     (\<forall>t. run t = Option.bind (gen (fst t)) (\<lambda>(st, ds). map_option (Pair st) (fold_option ev ds (snd t))))"

lemma enumeratesD:
  "enumerates ev run gen \<Longrightarrow>
   run t = Option.bind (gen (fst t)) (\<lambda>(st, ds). map_option (Pair st) (fold_option ev ds (snd t)))"
  unfolding enumerates_def by (rule spec)

lemma fold_option_collect: "fold_option collect ds acc = Some (acc @ ds)"
  by (induction ds arbitrary: acc) (auto simp: collect_def)

lemma enumerates_collect:
  assumes "enumerates collect (\<lambda>t. run t) gen"
  shows "run (st, acc) = map_option (\<lambda>(st, ds). (st, acc @ ds)) (gen st)"
  using assms by (auto simp: enumerates_def fold_option_collect split: bind_splits)

lemma enumerates_fold:
  assumes "\<And>i. enumerates ev (F i) (\<lambda>st. G i (st, []))" and "\<And>i. enumerates collect (G i) (\<lambda>st. G i (st, []))"
  shows "enumerates ev (fold_option F js) (\<lambda>st. fold_option G js (st, []))"
    and "enumerates collect (fold_option G js) (\<lambda>st. fold_option G js (st, []))"
proof -
  have G: "G i (st, acc) = map_option (\<lambda>(st, ds). (st, acc @ ds)) (G i (st, []))" for i st acc
    using enumerates_collect [OF assms(2)] .
  have acc: "fold_option G js (st, acc) = map_option (\<lambda>(st, ds). (st, acc @ ds)) (fold_option G js (st, []))"
    for js st acc
  proof (induction js arbitrary: st acc)
    case (Cons i js)
    show ?case
    proof (cases "G i (st, [])")
      case (Some r)
      obtain a b where r: "r = (a, b)" by (cases r)
      show ?thesis
        using Some Cons.IH [of a "acc @ b"] Cons.IH [of a b]
        by (simp add: G [of i st acc] r map_option.compositionality comp_def split_beta)
    qed (simp add: G [of i st acc])
  qed simp
  show "enumerates collect (fold_option G js) (\<lambda>st. fold_option G js (st, []))"
    unfolding enumerates_def
  proof
    fix t :: "_ \<times> _ list"
    show "fold_option G js t = Option.bind (fold_option G js (fst t, []))
        (\<lambda>(st, ds). map_option (Pair st) (fold_option collect ds (snd t)))"
      using acc [of js "fst t" "snd t"]
      by (cases "fold_option G js (fst t, [])") (auto simp: fold_option_collect)
  qed
  show "enumerates ev (fold_option F js) (\<lambda>st. fold_option G js (st, []))"
  proof (induction js)
    case (Cons i js)
    show ?case unfolding enumerates_def
    proof
      fix t
      show "fold_option F (i # js) t = Option.bind (fold_option G (i # js) (fst t, []))
          (\<lambda>(st, ds). map_option (Pair st) (fold_option ev ds (snd t)))"
      proof (cases "G i (fst t, [])")
        case None
        then show ?thesis using enumeratesD [OF assms(1), of i t] by simp
      next
        case (Some r)
        obtain a b where r: "r = (a, b)" by (cases r)
        have "F i t = map_option (Pair a) (fold_option ev b (snd t))"
          using enumeratesD [OF assms(1), of i t] Some r by simp
        then show ?thesis using enumeratesD [OF Cons.IH] Some r acc [of js a b]
          by (cases "fold_option G js (a, [])"; cases "fold_option ev b (snd t)")
            (auto simp: split_beta fold_option_append)
      qed
    qed
  qed (simp add: enumerates_def)
qed

end
