(* ===== verification/Knp_Literals.thy ===== *)
theory Knp_Literals
  imports Knp_Prelude
begin

text \<open>
  The Japanese string literals of the sources as byte lists in UTF-8, the encoding of the source
  files and of the default build. The comment before each one gives its Unicode code points (or the
  ASCII text around them); the name is its reading in Latin letters. Every definition is a member
  of the collection \<open>lit\<close>, so \<open>simp add: lit\<close> evaluates comparisons of literals.
\<close>

text \<open>U+FF34\<close>

definition s_T_zen :: string where [lit]:
  "s_T_zen =
     [CHR 0xEF, CHR 0xBC, CHR 0xB4]"

text \<open>U+FF1C\<close>

definition s_zen_lt :: string where [lit]:
  "s_zen_lt =
     [CHR 0xEF, CHR 0xBC, CHR 0x9C]"

text \<open>U+FF1E\<close>

definition s_zen_gt :: string where [lit]:
  "s_zen_gt =
     [CHR 0xEF, CHR 0xBC, CHR 0x9E]"

text \<open>U+4EEE U+4ED8 U+4E0E\<close>

definition s_karifuyo :: string where [lit]:
  "s_karifuyo =
     [CHR 0xE4, CHR 0xBB, CHR 0xAE, CHR 0xE4, CHR 0xBB, CHR 0x98, CHR 0xE4, CHR 0xB8,
      CHR 0x8E]"

text \<open>U+4EEE U+4ED8 U+4E0E :\<close>

definition s_karifuyo_c :: string where [lit]:
  "s_karifuyo_c =
     [CHR 0xE4, CHR 0xBB, CHR 0xAE, CHR 0xE4, CHR 0xBB, CHR 0x98, CHR 0xE4, CHR 0xB8,
      CHR 0x8E, CHR 0x3A]"

text \<open>U+7528 U+8A00\<close>

definition s_yougen :: string where [lit]:
  "s_yougen =
     [CHR 0xE7, CHR 0x94, CHR 0xA8, CHR 0xE8, CHR 0xA8, CHR 0x80]"

text \<open>U+4F53 U+8A00\<close>

definition s_taigen :: string where [lit]:
  "s_taigen =
     [CHR 0xE4, CHR 0xBD, CHR 0x93, CHR 0xE8, CHR 0xA8, CHR 0x80]"

text \<open>U+683C U+89E3 U+6790 U+7D50 U+679C\<close>

definition s_kakukaiseki :: string where [lit]:
  "s_kakukaiseki =
     [CHR 0xE6, CHR 0xA0, CHR 0xBC, CHR 0xE8, CHR 0xA7, CHR 0xA3, CHR 0xE6, CHR 0x9E,
      CHR 0x90, CHR 0xE7, CHR 0xB5, CHR 0x90, CHR 0xE6, CHR 0x9E, CHR 0x9C]"

text \<open>U+8FF0 U+8A9E U+9805 U+69CB U+9020\<close>

definition s_jutsugokou :: string where [lit]:
  "s_jutsugokou =
     [CHR 0xE8, CHR 0xBF, CHR 0xB0, CHR 0xE8, CHR 0xAA, CHR 0x9E, CHR 0xE9, CHR 0xA0,
      CHR 0x85, CHR 0xE6, CHR 0xA7, CHR 0x8B, CHR 0xE9, CHR 0x80, CHR 0xA0]"

text \<open>W i k i p e d i a U+30A8 U+30F3 U+30C8 U+30EA\<close>

definition s_wikipedia_entry :: string where [lit]:
  "s_wikipedia_entry =
     [CHR 0x57, CHR 0x69, CHR 0x6B, CHR 0x69, CHR 0x70, CHR 0x65, CHR 0x64, CHR 0x69,
      CHR 0x61, CHR 0xE3, CHR 0x82, CHR 0xA8, CHR 0xE3, CHR 0x83, CHR 0xB3, CHR 0xE3,
      CHR 0x83, CHR 0x88, CHR 0xE3, CHR 0x83, CHR 0xAA]"

text \<open>N E U+5185\<close>

definition s_ne_nai :: string where [lit]:
  "s_ne_nai =
     [CHR 0x4E, CHR 0x45, CHR 0xE5, CHR 0x86, CHR 0x85]"

text \<open>U+30AB U+30C6 U+30B4 U+30EA\<close>

definition s_category :: string where [lit]:
  "s_category =
     [CHR 0xE3, CHR 0x82, CHR 0xAB, CHR 0xE3, CHR 0x83, CHR 0x86, CHR 0xE3, CHR 0x82,
      CHR 0xB4, CHR 0xE3, CHR 0x83, CHR 0xAA]"

text \<open>U+54C1 U+66D6 -\<close>

definition s_hin_ai :: string where [lit]:
  "s_hin_ai =
     [CHR 0xE5, CHR 0x93, CHR 0x81, CHR 0xE6, CHR 0x9B, CHR 0x96, CHR 0x2D]"

text \<open>& U+8A18 U+82F1 U+6570 U+30AB\<close>

definition s_f_kieisuuka :: string where [lit]:
  "s_f_kieisuuka =
     [CHR 0x26, CHR 0xE8, CHR 0xA8, CHR 0x98, CHR 0xE8, CHR 0x8B, CHR 0xB1, CHR 0xE6,
      CHR 0x95, CHR 0xB0, CHR 0xE3, CHR 0x82, CHR 0xAB]"

text \<open>& U+6F22 U+5B57\<close>

definition s_f_kanji :: string where [lit]:
  "s_f_kanji =
     [CHR 0x26, CHR 0xE6, CHR 0xBC, CHR 0xA2, CHR 0xE5, CHR 0xAD, CHR 0x97]"

text \<open>U+304B\<close>

definition s_ka_hira :: string where [lit]:
  "s_ka_hira =
     [CHR 0xE3, CHR 0x81, CHR 0x8B]"

text \<open>U+30AB\<close>

definition s_ka_kata :: string where [lit]:
  "s_ka_kata =
     [CHR 0xE3, CHR 0x82, CHR 0xAB]"

text \<open>U+30F6\<close>

definition s_ka_small :: string where [lit]:
  "s_ka_small =
     [CHR 0xE3, CHR 0x83, CHR 0xB6]"

text \<open>& U+304B U+306A U+6F22 U+5B57\<close>

definition s_f_kanakanji :: string where [lit]:
  "s_f_kanakanji =
     [CHR 0x26, CHR 0xE3, CHR 0x81, CHR 0x8B, CHR 0xE3, CHR 0x81, CHR 0xAA, CHR 0xE6,
      CHR 0xBC, CHR 0xA2, CHR 0xE5, CHR 0xAD, CHR 0x97]"

text \<open>& U+3072 U+3089 U+304C U+306A\<close>

definition s_f_hiragana :: string where [lit]:
  "s_f_hiragana =
     [CHR 0x26, CHR 0xE3, CHR 0x81, CHR 0xB2, CHR 0xE3, CHR 0x82, CHR 0x89, CHR 0xE3,
      CHR 0x81, CHR 0x8C, CHR 0xE3, CHR 0x81, CHR 0xAA]"

text \<open>& U+672B U+5C3E U+3072 U+3089 U+304C U+306A\<close>

definition s_f_matsubi_hiragana :: string where [lit]:
  "s_f_matsubi_hiragana =
     [CHR 0x26, CHR 0xE6, CHR 0x9C, CHR 0xAB, CHR 0xE5, CHR 0xB0, CHR 0xBE, CHR 0xE3,
      CHR 0x81, CHR 0xB2, CHR 0xE3, CHR 0x82, CHR 0x89, CHR 0xE3, CHR 0x81, CHR 0x8C,
      CHR 0xE3, CHR 0x81, CHR 0xAA]"

text \<open>& U+672B U+5C3E U+6587 U+5B57 U+5217 :\<close>

definition s_f_matsubi_mojiretsu :: string where [lit]:
  "s_f_matsubi_mojiretsu =
     [CHR 0x26, CHR 0xE6, CHR 0x9C, CHR 0xAB, CHR 0xE5, CHR 0xB0, CHR 0xBE, CHR 0xE6,
      CHR 0x96, CHR 0x87, CHR 0xE5, CHR 0xAD, CHR 0x97, CHR 0xE5, CHR 0x88, CHR 0x97,
      CHR 0x3A]"

text \<open>& U+30AB U+30BF U+30AB U+30CA\<close>

definition s_f_katakana :: string where [lit]:
  "s_f_katakana =
     [CHR 0x26, CHR 0xE3, CHR 0x82, CHR 0xAB, CHR 0xE3, CHR 0x82, CHR 0xBF, CHR 0xE3,
      CHR 0x82, CHR 0xAB, CHR 0xE3, CHR 0x83, CHR 0x8A]"

text \<open>& U+6570 U+5B57\<close>

definition s_f_suuji :: string where [lit]:
  "s_f_suuji =
     [CHR 0x26, CHR 0xE6, CHR 0x95, CHR 0xB0, CHR 0xE5, CHR 0xAD, CHR 0x97]"

text \<open>& U+82F1 U+8A18 U+53F7\<close>

definition s_f_eikigou :: string where [lit]:
  "s_f_eikigou =
     [CHR 0x26, CHR 0xE8, CHR 0x8B, CHR 0xB1, CHR 0xE8, CHR 0xA8, CHR 0x98, CHR 0xE5,
      CHR 0x8F, CHR 0xB7]"

text \<open>& U+8A18 U+53F7\<close>

definition s_f_kigou :: string where [lit]:
  "s_f_kigou =
     [CHR 0x26, CHR 0xE8, CHR 0xA8, CHR 0x98, CHR 0xE5, CHR 0x8F, CHR 0xB7]"

text \<open>& U+6DF7 U+5408\<close>

definition s_f_kongou :: string where [lit]:
  "s_f_kongou =
     [CHR 0x26, CHR 0xE6, CHR 0xB7, CHR 0xB7, CHR 0xE5, CHR 0x90, CHR 0x88]"

text \<open>& U+4E00 U+6587 U+5B57\<close>

definition s_f_ichimoji :: string where [lit]:
  "s_f_ichimoji =
     [CHR 0x26, CHR 0xE4, CHR 0xB8, CHR 0x80, CHR 0xE6, CHR 0x96, CHR 0x87, CHR 0xE5,
      CHR 0xAD, CHR 0x97]"

text \<open>& U+30AB U+30C6 U+30B4 U+30EA :\<close>

definition s_f_category :: string where [lit]:
  "s_f_category =
     [CHR 0x26, CHR 0xE3, CHR 0x82, CHR 0xAB, CHR 0xE3, CHR 0x83, CHR 0x86, CHR 0xE3,
      CHR 0x82, CHR 0xB4, CHR 0xE3, CHR 0x83, CHR 0xAA, CHR 0x3A]"

text \<open>U+6642 U+9593\<close>

definition s_jikan :: string where [lit]:
  "s_jikan =
     [CHR 0xE6, CHR 0x99, CHR 0x82, CHR 0xE9, CHR 0x96, CHR 0x93]"

text \<open>& U+610F U+5473 U+7D20 :\<close>

definition s_f_imiso :: string where [lit]:
  "s_f_imiso =
     [CHR 0x26, CHR 0xE6, CHR 0x84, CHR 0x8F, CHR 0xE5, CHR 0x91, CHR 0xB3, CHR 0xE7,
      CHR 0xB4, CHR 0xA0, CHR 0x3A]"

text \<open>& U+6587 U+7BC0 U+610F U+5473 U+7D20 :\<close>

definition s_f_bunsetsu_imiso :: string where [lit]:
  "s_f_bunsetsu_imiso =
     [CHR 0x26, CHR 0xE6, CHR 0x96, CHR 0x87, CHR 0xE7, CHR 0xAF, CHR 0x80, CHR 0xE6,
      CHR 0x84, CHR 0x8F, CHR 0xE5, CHR 0x91, CHR 0xB3, CHR 0xE7, CHR 0xB4, CHR 0xA0,
      CHR 0x3A]"

text \<open>& U+6587 U+7BC0 U+5168 U+610F U+5473 U+7D20 :\<close>

definition s_f_bunsetsu_zenimiso :: string where [lit]:
  "s_f_bunsetsu_zenimiso =
     [CHR 0x26, CHR 0xE6, CHR 0x96, CHR 0x87, CHR 0xE7, CHR 0xAF, CHR 0x80, CHR 0xE5,
      CHR 0x85, CHR 0xA8, CHR 0xE6, CHR 0x84, CHR 0x8F, CHR 0xE5, CHR 0x91, CHR 0xB3,
      CHR 0xE7, CHR 0xB4, CHR 0xA0, CHR 0x3A]"

text \<open>& U+5F62 U+614B U+7D20 U+9577 :\<close>

definition s_f_keitaiso_chou :: string where [lit]:
  "s_f_keitaiso_chou =
     [CHR 0x26, CHR 0xE5, CHR 0xBD, CHR 0xA2, CHR 0xE6, CHR 0x85, CHR 0x8B, CHR 0xE7,
      CHR 0xB4, CHR 0xA0, CHR 0xE9, CHR 0x95, CHR 0xB7, CHR 0x3A]"

text \<open>& U+6570 U+5B57 U+9577 :\<close>

definition s_f_suuji_chou :: string where [lit]:
  "s_f_suuji_chou =
     [CHR 0x26, CHR 0xE6, CHR 0x95, CHR 0xB0, CHR 0xE5, CHR 0xAD, CHR 0x97, CHR 0xE9,
      CHR 0x95, CHR 0xB7, CHR 0x3A]"

text \<open>& U+5F62 U+614B U+7D20 U+672B U+5C3E :\<close>

definition s_f_keitaiso_matsubi :: string where [lit]:
  "s_f_keitaiso_matsubi =
     [CHR 0x26, CHR 0xE5, CHR 0xBD, CHR 0xA2, CHR 0xE6, CHR 0x85, CHR 0x8B, CHR 0xE7,
      CHR 0xB4, CHR 0xA0, CHR 0xE6, CHR 0x9C, CHR 0xAB, CHR 0xE5, CHR 0xB0, CHR 0xBE,
      CHR 0x3A]"

text \<open>& U+8868 U+5C64 :\<close>

definition s_f_hyousou :: string where [lit]:
  "s_f_hyousou =
     [CHR 0x26, CHR 0xE8, CHR 0xA1, CHR 0xA8, CHR 0xE5, CHR 0xB1, CHR 0xA4, CHR 0x3A]"

text \<open>U+7167 U+5408\<close>

definition s_shougou :: string where [lit]:
  "s_shougou =
     [CHR 0xE7, CHR 0x85, CHR 0xA7, CHR 0xE5, CHR 0x90, CHR 0x88]"

text \<open>U+4FC2\<close>

definition s_kakari :: string where [lit]:
  "s_kakari =
     [CHR 0xE4, CHR 0xBF, CHR 0x82]"

text \<open>U+4FC2 :\<close>

definition s_kakari_c :: string where [lit]:
  "s_kakari_c =
     [CHR 0xE4, CHR 0xBF, CHR 0x82, CHR 0x3A]"

text \<open>& U+30EC U+30D9 U+30EB : U+5F37\<close>

definition s_f_level_kyou :: string where [lit]:
  "s_f_level_kyou =
     [CHR 0x26, CHR 0xE3, CHR 0x83, CHR 0xAC, CHR 0xE3, CHR 0x83, CHR 0x99, CHR 0xE3,
      CHR 0x83, CHR 0xAB, CHR 0x3A, CHR 0xE5, CHR 0xBC, CHR 0xB7]"

text \<open>& U+30EC U+30D9 U+30EB :\<close>

definition s_f_level :: string where [lit]:
  "s_f_level =
     [CHR 0x26, CHR 0xE3, CHR 0x83, CHR 0xAC, CHR 0xE3, CHR 0x83, CHR 0x99, CHR 0xE3,
      CHR 0x83, CHR 0xAB, CHR 0x3A]"

text \<open>U+30EC U+30D9 U+30EB\<close>

definition s_level :: string where [lit]:
  "s_level =
     [CHR 0xE3, CHR 0x83, CHR 0xAC, CHR 0xE3, CHR 0x83, CHR 0x99, CHR 0xE3, CHR 0x83,
      CHR 0xAB]"

text \<open>U+30EC U+30D9 U+30EB :\<close>

definition s_level_c :: string where [lit]:
  "s_level_c =
     [CHR 0xE3, CHR 0x83, CHR 0xAC, CHR 0xE3, CHR 0x83, CHR 0x99, CHR 0xE3, CHR 0x83,
      CHR 0xAB, CHR 0x3A]"

text \<open>& U+4FC2 U+5074 :\<close>

definition s_f_kakarigawa :: string where [lit]:
  "s_f_kakarigawa =
     [CHR 0x26, CHR 0xE4, CHR 0xBF, CHR 0x82, CHR 0xE5, CHR 0x81, CHR 0xB4, CHR 0x3A]"

text \<open>& U+4FC2 U+5074 U+30C1 U+30A7 U+30C3 U+30AF :\<close>

definition s_f_kakarigawa_check :: string where [lit]:
  "s_f_kakarigawa_check =
     [CHR 0x26, CHR 0xE4, CHR 0xBF, CHR 0x82, CHR 0xE5, CHR 0x81, CHR 0xB4, CHR 0xE3,
      CHR 0x83, CHR 0x81, CHR 0xE3, CHR 0x82, CHR 0xA7, CHR 0xE3, CHR 0x83, CHR 0x83,
      CHR 0xE3, CHR 0x82, CHR 0xAF, CHR 0x3A]"

text \<open>& U+53D7 U+5074 U+30C1 U+30A7 U+30C3 U+30AF :\<close>

definition s_f_ukegawa_check :: string where [lit]:
  "s_f_ukegawa_check =
     [CHR 0x26, CHR 0xE5, CHR 0x8F, CHR 0x97, CHR 0xE5, CHR 0x81, CHR 0xB4, CHR 0xE3,
      CHR 0x83, CHR 0x81, CHR 0xE3, CHR 0x82, CHR 0xA7, CHR 0xE3, CHR 0x83, CHR 0x83,
      CHR 0xE3, CHR 0x82, CHR 0xAF, CHR 0x3A]"

text \<open>& U+81EA U+7ACB U+8A9E U+4E00 U+81F4\<close>

definition s_f_jiritsugo_icchi :: string where [lit]:
  "s_f_jiritsugo_icchi =
     [CHR 0x26, CHR 0xE8, CHR 0x87, CHR 0xAA, CHR 0xE7, CHR 0xAB, CHR 0x8B, CHR 0xE8,
      CHR 0xAA, CHR 0x9E, CHR 0xE4, CHR 0xB8, CHR 0x80, CHR 0xE8, CHR 0x87, CHR 0xB4]"

text \<open>& U+6587 U+5B57 U+5217 U+7167 U+5408 :\<close>

definition s_f_mojiretsu_shougou :: string where [lit]:
  "s_f_mojiretsu_shougou =
     [CHR 0x26, CHR 0xE6, CHR 0x96, CHR 0x87, CHR 0xE5, CHR 0xAD, CHR 0x97, CHR 0xE5,
      CHR 0x88, CHR 0x97, CHR 0xE7, CHR 0x85, CHR 0xA7, CHR 0xE5, CHR 0x90, CHR 0x88,
      CHR 0x3A]"

text \<open>& U+614B :\<close>

definition s_f_tai :: string where [lit]:
  "s_f_tai =
     [CHR 0x26, CHR 0xE6, CHR 0x85, CHR 0x8B, CHR 0x3A]"

text \<open>U+80FD U+52D5\<close>

definition s_noudou :: string where [lit]:
  "s_noudou =
     [CHR 0xE8, CHR 0x83, CHR 0xBD, CHR 0xE5, CHR 0x8B, CHR 0x95]"

text \<open>U+53D7 U+52D5\<close>

definition s_judou :: string where [lit]:
  "s_judou =
     [CHR 0xE5, CHR 0x8F, CHR 0x97, CHR 0xE5, CHR 0x8B, CHR 0x95]"

text \<open>U+4F7F U+5F79\<close>

definition s_shieki :: string where [lit]:
  "s_shieki =
     [CHR 0xE4, CHR 0xBD, CHR 0xBF, CHR 0xE5, CHR 0xBD, CHR 0xB9]"

text \<open>& U+8A18 U+61B6\<close>

definition s_f_kioku :: string where [lit]:
  "s_f_kioku =
     [CHR 0x26, CHR 0xE8, CHR 0xA8, CHR 0x98, CHR 0xE6, CHR 0x86, CHR 0xB6]"

text \<open>& U+540D U+52D5 U+76F8 U+4E92 U+60C5 U+5831 U+91CF :\<close>

definition s_f_meidou :: string where [lit]:
  "s_f_meidou =
     [CHR 0x26, CHR 0xE5, CHR 0x90, CHR 0x8D, CHR 0xE5, CHR 0x8B, CHR 0x95, CHR 0xE7,
      CHR 0x9B, CHR 0xB8, CHR 0xE4, CHR 0xBA, CHR 0x92, CHR 0xE6, CHR 0x83, CHR 0x85,
      CHR 0xE5, CHR 0xA0, CHR 0xB1, CHR 0xE9, CHR 0x87, CHR 0x8F, CHR 0x3A]"

text \<open>U+30AC U+683C\<close>

definition s_ga :: string where [lit]:
  "s_ga =
     [CHR 0xE3, CHR 0x82, CHR 0xAC, CHR 0xE6, CHR 0xA0, CHR 0xBC]"

text \<open>U+30F2 U+683C\<close>

definition s_wo :: string where [lit]:
  "s_wo =
     [CHR 0xE3, CHR 0x83, CHR 0xB2, CHR 0xE6, CHR 0xA0, CHR 0xBC]"

text \<open>U+30CB U+683C\<close>

definition s_ni :: string where [lit]:
  "s_ni =
     [CHR 0xE3, CHR 0x83, CHR 0x8B, CHR 0xE6, CHR 0xA0, CHR 0xBC]"

text \<open>U+30C7 U+683C\<close>

definition s_de :: string where [lit]:
  "s_de =
     [CHR 0xE3, CHR 0x83, CHR 0x87, CHR 0xE6, CHR 0xA0, CHR 0xBC]"

text \<open>U+30AB U+30E9 U+683C\<close>

definition s_kara :: string where [lit]:
  "s_kara =
     [CHR 0xE3, CHR 0x82, CHR 0xAB, CHR 0xE3, CHR 0x83, CHR 0xA9, CHR 0xE6, CHR 0xA0,
      CHR 0xBC]"

text \<open>U+30C8 U+683C\<close>

definition s_to :: string where [lit]:
  "s_to =
     [CHR 0xE3, CHR 0x83, CHR 0x88, CHR 0xE6, CHR 0xA0, CHR 0xBC]"

text \<open>U+30E8 U+30EA U+683C\<close>

definition s_yori :: string where [lit]:
  "s_yori =
     [CHR 0xE3, CHR 0x83, CHR 0xA8, CHR 0xE3, CHR 0x83, CHR 0xAA, CHR 0xE6, CHR 0xA0,
      CHR 0xBC]"

text \<open>U+30D8 U+683C\<close>

definition s_he :: string where [lit]:
  "s_he =
     [CHR 0xE3, CHR 0x83, CHR 0x98, CHR 0xE6, CHR 0xA0, CHR 0xBC]"

text \<open>U+30DE U+30C7 U+683C\<close>

definition s_made :: string where [lit]:
  "s_made =
     [CHR 0xE3, CHR 0x83, CHR 0x9E, CHR 0xE3, CHR 0x83, CHR 0x87, CHR 0xE6, CHR 0xA0,
      CHR 0xBC]"

text \<open>U+30CE U+683C\<close>

definition s_no :: string where [lit]:
  "s_no =
     [CHR 0xE3, CHR 0x83, CHR 0x8E, CHR 0xE6, CHR 0xA0, CHR 0xBC]"

text \<open>U+30AC U+FF12\<close>

definition s_ga2 :: string where [lit]:
  "s_ga2 =
     [CHR 0xE3, CHR 0x82, CHR 0xAC, CHR 0xEF, CHR 0xBC, CHR 0x92]"

text \<open>U+62EC U+5F27 U+59CB\<close>

definition s_kakko_shi :: string where [lit]:
  "s_kakko_shi =
     [CHR 0xE6, CHR 0x8B, CHR 0xAC, CHR 0xE5, CHR 0xBC, CHR 0xA7, CHR 0xE5, CHR 0xA7,
      CHR 0x8B]"

text \<open>U+62EC U+5F27 U+59CB U+FF12\<close>

definition s_kakko_shi2 :: string where [lit]:
  "s_kakko_shi2 =
     [CHR 0xE6, CHR 0x8B, CHR 0xAC, CHR 0xE5, CHR 0xBC, CHR 0xA7, CHR 0xE5, CHR 0xA7,
      CHR 0x8B, CHR 0xEF, CHR 0xBC, CHR 0x92]"

text \<open>U+62EC U+5F27 U+7D42\<close>

definition s_kakko_shuu :: string where [lit]:
  "s_kakko_shuu =
     [CHR 0xE6, CHR 0x8B, CHR 0xAC, CHR 0xE5, CHR 0xBC, CHR 0xA7, CHR 0xE7, CHR 0xB5,
      CHR 0x82]"

text \<open>U+62EC U+5F27 U+7D42 U+FF12\<close>

definition s_kakko_shuu2 :: string where [lit]:
  "s_kakko_shuu2 =
     [CHR 0xE6, CHR 0x8B, CHR 0xAC, CHR 0xE5, CHR 0xBC, CHR 0xA7, CHR 0xE7, CHR 0xB5,
      CHR 0x82, CHR 0xEF, CHR 0xBC, CHR 0x92]"

text \<open>U+4FC2 : U+9023 U+683C\<close>

definition s_k_renkaku :: string where [lit]:
  "s_k_renkaku =
     [CHR 0xE4, CHR 0xBF, CHR 0x82, CHR 0x3A, CHR 0xE9, CHR 0x80, CHR 0xA3, CHR 0xE6,
      CHR 0xA0, CHR 0xBC]"

text \<open>U+4FC2 : U+9023 U+4F53\<close>

definition s_k_rentai :: string where [lit]:
  "s_k_rentai =
     [CHR 0xE4, CHR 0xBF, CHR 0x82, CHR 0x3A, CHR 0xE9, CHR 0x80, CHR 0xA3, CHR 0xE4,
      CHR 0xBD, CHR 0x93]"

text \<open>U+4FC2 : U+30CE U+683C\<close>

definition s_k_nokaku :: string where [lit]:
  "s_k_nokaku =
     [CHR 0xE4, CHR 0xBF, CHR 0x82, CHR 0x3A, CHR 0xE3, CHR 0x83, CHR 0x8E, CHR 0xE6,
      CHR 0xA0, CHR 0xBC]"

text \<open>U+4FC2 : U+540C U+683C U+9023 U+4F53\<close>

definition s_k_doukaku_rentai :: string where [lit]:
  "s_k_doukaku_rentai =
     [CHR 0xE4, CHR 0xBF, CHR 0x82, CHR 0x3A, CHR 0xE5, CHR 0x90, CHR 0x8C, CHR 0xE6,
      CHR 0xA0, CHR 0xBC, CHR 0xE9, CHR 0x80, CHR 0xA3, CHR 0xE4, CHR 0xBD, CHR 0x93]"

text \<open>U+4FC2 : U+62EC U+5F27 U+4E26 U+5217\<close>

definition s_k_kakko_heiretsu :: string where [lit]:
  "s_k_kakko_heiretsu =
     [CHR 0xE4, CHR 0xBF, CHR 0x82, CHR 0x3A, CHR 0xE6, CHR 0x8B, CHR 0xAC, CHR 0xE5,
      CHR 0xBC, CHR 0xA7, CHR 0xE4, CHR 0xB8, CHR 0xA6, CHR 0xE5, CHR 0x88, CHR 0x97]"

text \<open>U+4FC2 : U+6587 U+672B\<close>

definition s_k_bunmatsu :: string where [lit]:
  "s_k_bunmatsu =
     [CHR 0xE4, CHR 0xBF, CHR 0x82, CHR 0x3A, CHR 0xE6, CHR 0x96, CHR 0x87, CHR 0xE6,
      CHR 0x9C, CHR 0xAB]"

text \<open>U+FF08\<close>

definition s_paren_b :: string where [lit]:
  "s_paren_b =
     [CHR 0xEF, CHR 0xBC, CHR 0x88]"

text \<open>U+FF09\<close>

definition s_paren_e :: string where [lit]:
  "s_paren_e =
     [CHR 0xEF, CHR 0xBC, CHR 0x89]"

text \<open>U+62EC U+5F27 U+59CB : U+FF08   U+62EC U+5F27 U+7D42 : U+FF09   U+62EC U+5F27 U+4F4D U+7F6E :\<close>

definition s_paren_comment :: string where [lit]:
  "s_paren_comment =
     [CHR 0xE6, CHR 0x8B, CHR 0xAC, CHR 0xE5, CHR 0xBC, CHR 0xA7, CHR 0xE5, CHR 0xA7,
      CHR 0x8B, CHR 0x3A, CHR 0xEF, CHR 0xBC, CHR 0x88, CHR 0x20, CHR 0xE6, CHR 0x8B,
      CHR 0xAC, CHR 0xE5, CHR 0xBC, CHR 0xA7, CHR 0xE7, CHR 0xB5, CHR 0x82, CHR 0x3A,
      CHR 0xEF, CHR 0xBC, CHR 0x89, CHR 0x20, CHR 0xE6, CHR 0x8B, CHR 0xAC, CHR 0xE5,
      CHR 0xBC, CHR 0xA7, CHR 0xE4, CHR 0xBD, CHR 0x8D, CHR 0xE7, CHR 0xBD, CHR 0xAE,
      CHR 0x3A]"

text \<open>U+62EC U+5F27 U+524A U+9664\<close>

definition s_kakko_sakujo :: string where [lit]:
  "s_kakko_sakujo =
     [CHR 0xE6, CHR 0x8B, CHR 0xAC, CHR 0xE5, CHR 0xBC, CHR 0xA7, CHR 0xE5, CHR 0x89,
      CHR 0x8A, CHR 0xE9, CHR 0x99, CHR 0xA4]"

text \<open>U+6587 U+672B\<close>

definition s_bunmatsu :: string where [lit]:
  "s_bunmatsu =
     [CHR 0xE6, CHR 0x96, CHR 0x87, CHR 0xE6, CHR 0x9C, CHR 0xAB]"

text \<open>U+63D0 U+984C\<close>

definition s_teidai :: string where [lit]:
  "s_teidai =
     [CHR 0xE6, CHR 0x8F, CHR 0x90, CHR 0xE9, CHR 0xA1, CHR 0x8C]"

text \<open>U+8AAD U+70B9\<close>

definition s_touten :: string where [lit]:
  "s_touten =
     [CHR 0xE8, CHR 0xAA, CHR 0xAD, CHR 0xE7, CHR 0x82, CHR 0xB9]"

text \<open>U+6E96 U+7528 U+8A00\<close>

definition s_jun_yougen :: string where [lit]:
  "s_jun_yougen =
     [CHR 0xE6, CHR 0xBA, CHR 0x96, CHR 0xE7, CHR 0x94, CHR 0xA8, CHR 0xE8, CHR 0xA8,
      CHR 0x80]"

text \<open>U+4FC2 : U+672A U+683C\<close>

definition s_k_mikaku :: string where [lit]:
  "s_k_mikaku =
     [CHR 0xE4, CHR 0xBF, CHR 0x82, CHR 0x3A, CHR 0xE6, CHR 0x9C, CHR 0xAA, CHR 0xE6,
      CHR 0xA0, CHR 0xBC]"

text \<open>U+63D0 U+984C U+53D7\<close>

definition s_teidai_uke :: string where [lit]:
  "s_teidai_uke =
     [CHR 0xE6, CHR 0x8F, CHR 0x90, CHR 0xE9, CHR 0xA1, CHR 0x8C, CHR 0xE5, CHR 0x8F,
      CHR 0x97]"

text \<open>U+6570 U+91CF\<close>

definition s_suuryou :: string where [lit]:
  "s_suuryou =
     [CHR 0xE6, CHR 0x95, CHR 0xB0, CHR 0xE9, CHR 0x87, CHR 0x8F]"

text \<open>U+4FC2 : U+30AC U+683C\<close>

definition s_k_gakaku :: string where [lit]:
  "s_k_gakaku =
     [CHR 0xE4, CHR 0xBF, CHR 0x82, CHR 0x3A, CHR 0xE3, CHR 0x82, CHR 0xAC, CHR 0xE6,
      CHR 0xA0, CHR 0xBC]"

text \<open>U+7528 U+8A00 : U+5224\<close>

definition s_yougen_han :: string where [lit]:
  "s_yougen_han =
     [CHR 0xE7, CHR 0x94, CHR 0xA8, CHR 0xE8, CHR 0xA8, CHR 0x80, CHR 0x3A, CHR 0xE5,
      CHR 0x88, CHR 0xA4]"

text \<open>U+7528 U+8A00 : U+52D5\<close>

definition s_yougen_dou :: string where [lit]:
  "s_yougen_dou =
     [CHR 0xE7, CHR 0x94, CHR 0xA8, CHR 0xE8, CHR 0xA8, CHR 0x80, CHR 0x3A, CHR 0xE5,
      CHR 0x8B, CHR 0x95]"

text \<open>U+5916 U+306E U+95A2 U+4FC2\<close>

definition s_soto :: string where [lit]:
  "s_soto =
     [CHR 0xE5, CHR 0xA4, CHR 0x96, CHR 0xE3, CHR 0x81, CHR 0xAE, CHR 0xE9, CHR 0x96,
      CHR 0xA2, CHR 0xE4, CHR 0xBF, CHR 0x82]"

text \<open>U+30EB U+30FC U+30EB U+5916 U+306E U+95A2 U+4FC2\<close>

definition s_rule_soto :: string where [lit]:
  "s_rule_soto =
     [CHR 0xE3, CHR 0x83, CHR 0xAB, CHR 0xE3, CHR 0x83, CHR 0xBC, CHR 0xE3, CHR 0x83,
      CHR 0xAB, CHR 0xE5, CHR 0xA4, CHR 0x96, CHR 0xE3, CHR 0x81, CHR 0xAE, CHR 0xE9,
      CHR 0x96, CHR 0xA2, CHR 0xE4, CHR 0xBF, CHR 0x82]"

text \<open>U+4FC2 : U+7121 U+683C U+5F93 U+5C5E\<close>

definition s_k_mukaku_juuzoku :: string where [lit]:
  "s_k_mukaku_juuzoku =
     [CHR 0xE4, CHR 0xBF, CHR 0x82, CHR 0x3A, CHR 0xE7, CHR 0x84, CHR 0xA1, CHR 0xE6,
      CHR 0xA0, CHR 0xBC, CHR 0xE5, CHR 0xBE, CHR 0x93, CHR 0xE5, CHR 0xB1, CHR 0x9E]"

text \<open>U+4ED8 U+5C5E\<close>

definition s_fuzoku :: string where [lit]:
  "s_fuzoku =
     [CHR 0xE4, CHR 0xBB, CHR 0x98, CHR 0xE5, CHR 0xB1, CHR 0x9E]"

text \<open>U+683C U+8981 U+7D20\<close>

definition s_kaku_youso :: string where [lit]:
  "s_kaku_youso =
     [CHR 0xE6, CHR 0xA0, CHR 0xBC, CHR 0xE8, CHR 0xA6, CHR 0x81, CHR 0xE7, CHR 0xB4,
      CHR 0xA0]"

text \<open>U+540D U+4E26 U+59CB U+70B9\<close>

definition s_nahei_shiten :: string where [lit]:
  "s_nahei_shiten =
     [CHR 0xE5, CHR 0x90, CHR 0x8D, CHR 0xE4, CHR 0xB8, CHR 0xA6, CHR 0xE5, CHR 0xA7,
      CHR 0x8B, CHR 0xE7, CHR 0x82, CHR 0xB9]"

text \<open>U+8FF0 U+4E26 U+59CB U+70B9\<close>

definition s_juhei_shiten :: string where [lit]:
  "s_juhei_shiten =
     [CHR 0xE8, CHR 0xBF, CHR 0xB0, CHR 0xE4, CHR 0xB8, CHR 0xA6, CHR 0xE5, CHR 0xA7,
      CHR 0x8B, CHR 0xE7, CHR 0x82, CHR 0xB9]"

text \<open>U+4FC2 : U+30C8 U+683C\<close>

definition s_k_tokaku :: string where [lit]:
  "s_k_tokaku =
     [CHR 0xE4, CHR 0xBF, CHR 0x82, CHR 0x3A, CHR 0xE3, CHR 0x83, CHR 0x88, CHR 0xE6,
      CHR 0xA0, CHR 0xBC]"

text \<open>U+FF34 U+540D U+4E26 U+7D42 U+70B9 U+301C U+3068 U+301C U+3068\<close>

definition s_T_nahei_shuuten_toto :: string where [lit]:
  "s_T_nahei_shuuten_toto =
     [CHR 0xEF, CHR 0xBC, CHR 0xB4, CHR 0xE5, CHR 0x90, CHR 0x8D, CHR 0xE4, CHR 0xB8,
      CHR 0xA6, CHR 0xE7, CHR 0xB5, CHR 0x82, CHR 0xE7, CHR 0x82, CHR 0xB9, CHR 0xE3,
      CHR 0x80, CHR 0x9C, CHR 0xE3, CHR 0x81, CHR 0xA8, CHR 0xE3, CHR 0x80, CHR 0x9C,
      CHR 0xE3, CHR 0x81, CHR 0xA8]"

text \<open>U+FF34 U+540D U+4E26 U+7D42 U+70B9\<close>

definition s_T_nahei_shuuten :: string where [lit]:
  "s_T_nahei_shuuten =
     [CHR 0xEF, CHR 0xBC, CHR 0xB4, CHR 0xE5, CHR 0x90, CHR 0x8D, CHR 0xE4, CHR 0xB8,
      CHR 0xA6, CHR 0xE7, CHR 0xB5, CHR 0x82, CHR 0xE7, CHR 0x82, CHR 0xB9]"

text \<open>U+FF34 U+8FF0 U+4E26 U+7D42 U+70B9\<close>

definition s_T_juhei_shuuten :: string where [lit]:
  "s_T_juhei_shuuten =
     [CHR 0xEF, CHR 0xBC, CHR 0xB4, CHR 0xE8, CHR 0xBF, CHR 0xB0, CHR 0xE4, CHR 0xB8,
      CHR 0xA6, CHR 0xE7, CHR 0xB5, CHR 0x82, CHR 0xE7, CHR 0x82, CHR 0xB9]"

text \<open>U+6307 U+793A U+8A5E\<close>

definition s_shijishi :: string where [lit]:
  "s_shijishi =
     [CHR 0xE6, CHR 0x8C, CHR 0x87, CHR 0xE7, CHR 0xA4, CHR 0xBA, CHR 0xE8, CHR 0xA9,
      CHR 0x9E]"

text \<open>U+4E26 U+30AD\<close>

definition s_heiki :: string where [lit]:
  "s_heiki =
     [CHR 0xE4, CHR 0xB8, CHR 0xA6, CHR 0xE3, CHR 0x82, CHR 0xAD]"

text \<open>U+4E26 U+30AD :\<close>

definition s_heiki_c :: string where [lit]:
  "s_heiki_c =
     [CHR 0xE4, CHR 0xB8, CHR 0xA6, CHR 0xE3, CHR 0x82, CHR 0xAD, CHR 0x3A]"

text \<open>U+540D\<close>

definition s_mei :: string where [lit]:
  "s_mei =
     [CHR 0xE5, CHR 0x90, CHR 0x8D]"

text \<open>U+8FF0\<close>

definition s_jutsu :: string where [lit]:
  "s_jutsu =
     [CHR 0xE8, CHR 0xBF, CHR 0xB0]"

text \<open>U+FF1F\<close>

definition s_zen_q :: string where [lit]:
  "s_zen_q =
     [CHR 0xEF, CHR 0xBC, CHR 0x9F]"

text \<open>U+533A U+5207\<close>

definition s_kugiri :: string where [lit]:
  "s_kugiri =
     [CHR 0xE5, CHR 0x8C, CHR 0xBA, CHR 0xE5, CHR 0x88, CHR 0x87]"

text \<open>U+4FC2 : U+30C7 U+683C\<close>

definition s_k_dekaku :: string where [lit]:
  "s_k_dekaku =
     [CHR 0xE4, CHR 0xBF, CHR 0x82, CHR 0x3A, CHR 0xE3, CHR 0x83, CHR 0x87, CHR 0xE6,
      CHR 0xA0, CHR 0xBC]"

text \<open>U+30CF\<close>

definition s_ha :: string where [lit]:
  "s_ha =
     [CHR 0xE3, CHR 0x83, CHR 0x8F]"

text \<open>U+4FC2 : U+9023 U+7528\<close>

definition s_k_renyou :: string where [lit]:
  "s_k_renyou =
     [CHR 0xE4, CHR 0xBF, CHR 0x82, CHR 0x3A, CHR 0xE9, CHR 0x80, CHR 0xA3, CHR 0xE7,
      CHR 0x94, CHR 0xA8]"

text \<open>U+4E26 U+7D50 U+53E5 U+6570 :\<close>

definition s_heiketsu_ku :: string where [lit]:
  "s_heiketsu_ku =
     [CHR 0xE4, CHR 0xB8, CHR 0xA6, CHR 0xE7, CHR 0xB5, CHR 0x90, CHR 0xE5, CHR 0x8F,
      CHR 0xA5, CHR 0xE6, CHR 0x95, CHR 0xB0, CHR 0x3A]"

text \<open>U+4E26 U+7D50 U+6587 U+7BC0 U+6570 :\<close>

definition s_heiketsu_bunsetsu :: string where [lit]:
  "s_heiketsu_bunsetsu =
     [CHR 0xE4, CHR 0xB8, CHR 0xA6, CHR 0xE7, CHR 0xB5, CHR 0x90, CHR 0xE6, CHR 0x96,
      CHR 0x87, CHR 0xE7, CHR 0xAF, CHR 0x80, CHR 0xE6, CHR 0x95, CHR 0xB0, CHR 0x3A]"

text \<open>U+301C U+3068 U+307F U+3089 U+308C U+308B\<close>

definition s_to_mirareru :: string where [lit]:
  "s_to_mirareru =
     [CHR 0xE3, CHR 0x80, CHR 0x9C, CHR 0xE3, CHR 0x81, CHR 0xA8, CHR 0xE3, CHR 0x81,
      CHR 0xBF, CHR 0xE3, CHR 0x82, CHR 0x89, CHR 0xE3, CHR 0x82, CHR 0x8C, CHR 0xE3,
      CHR 0x82, CHR 0x8B]"

text \<open>U+63D0 U+984C U+53D7 : 3 0\<close>

definition s_teidai_uke_30 :: string where [lit]:
  "s_teidai_uke_30 =
     [CHR 0xE6, CHR 0x8F, CHR 0x90, CHR 0xE9, CHR 0xA1, CHR 0x8C, CHR 0xE5, CHR 0x8F,
      CHR 0x97, CHR 0x3A, CHR 0x33, CHR 0x30]"

text \<open>U+4E26 U+5217 U+985E U+4F3C U+5EA6 :\<close>

definition s_heiretsu_ruiji :: string where [lit]:
  "s_heiretsu_ruiji =
     [CHR 0xE4, CHR 0xB8, CHR 0xA6, CHR 0xE5, CHR 0x88, CHR 0x97, CHR 0xE9, CHR 0xA1,
      CHR 0x9E, CHR 0xE4, CHR 0xBC, CHR 0xBC, CHR 0xE5, CHR 0xBA, CHR 0xA6, CHR 0x3A]"

text \<open>U+6587 U+7BC0 U+59CB\<close>

definition s_bunsetsu_shi :: string where [lit]:
  "s_bunsetsu_shi =
     [CHR 0xE6, CHR 0x96, CHR 0x87, CHR 0xE7, CHR 0xAF, CHR 0x80, CHR 0xE5, CHR 0xA7,
      CHR 0x8B]"

text \<open>U+30BF U+30B0 U+5358 U+4F4D U+59CB\<close>

definition s_tag_shi :: string where [lit]:
  "s_tag_shi =
     [CHR 0xE3, CHR 0x82, CHR 0xBF, CHR 0xE3, CHR 0x82, CHR 0xB0, CHR 0xE5, CHR 0x8D,
      CHR 0x98, CHR 0xE4, CHR 0xBD, CHR 0x8D, CHR 0xE5, CHR 0xA7, CHR 0x8B]"

text \<open>U+63A5 U+982D\<close>

definition s_settou :: string where [lit]:
  "s_settou =
     [CHR 0xE6, CHR 0x8E, CHR 0xA5, CHR 0xE9, CHR 0xA0, CHR 0xAD]"

text \<open>U+5185 U+5BB9 U+8A9E\<close>

definition s_naiyougo :: string where [lit]:
  "s_naiyougo =
     [CHR 0xE5, CHR 0x86, CHR 0x85, CHR 0xE5, CHR 0xAE, CHR 0xB9, CHR 0xE8, CHR 0xAA,
      CHR 0x9E]"

text \<open>U+6E96 U+5185 U+5BB9 U+8A9E\<close>

definition s_jun_naiyougo :: string where [lit]:
  "s_jun_naiyougo =
     [CHR 0xE6, CHR 0xBA, CHR 0x96, CHR 0xE5, CHR 0x86, CHR 0x85, CHR 0xE5, CHR 0xAE,
      CHR 0xB9, CHR 0xE8, CHR 0xAA, CHR 0x9E]"

text \<open>U+7279 U+6B8A U+975E U+898B U+51FA U+8A9E\<close>

definition s_tokushu_himidashi :: string where [lit]:
  "s_tokushu_himidashi =
     [CHR 0xE7, CHR 0x89, CHR 0xB9, CHR 0xE6, CHR 0xAE, CHR 0x8A, CHR 0xE9, CHR 0x9D,
      CHR 0x9E, CHR 0xE8, CHR 0xA6, CHR 0x8B, CHR 0xE5, CHR 0x87, CHR 0xBA, CHR 0xE8,
      CHR 0xAA, CHR 0x9E]"

text \<open>U+6587 U+7BC0 U+4E3B U+8F9E\<close>

definition s_bunsetsu_shuji :: string where [lit]:
  "s_bunsetsu_shuji =
     [CHR 0xE6, CHR 0x96, CHR 0x87, CHR 0xE7, CHR 0xAF, CHR 0x80, CHR 0xE4, CHR 0xB8,
      CHR 0xBB, CHR 0xE8, CHR 0xBE, CHR 0x9E]"

text \<open>U+975E U+72EC U+7ACB U+63A5 U+982D U+8F9E\<close>

definition s_hi_dokuritsu_settou :: string where [lit]:
  "s_hi_dokuritsu_settou =
     [CHR 0xE9, CHR 0x9D, CHR 0x9E, CHR 0xE7, CHR 0x8B, CHR 0xAC, CHR 0xE7, CHR 0xAB,
      CHR 0x8B, CHR 0xE6, CHR 0x8E, CHR 0xA5, CHR 0xE9, CHR 0xA0, CHR 0xAD, CHR 0xE8,
      CHR 0xBE, CHR 0x9E]"

text \<open>U+81EA U+7ACB\<close>

definition s_jiritsu :: string where [lit]:
  "s_jiritsu =
     [CHR 0xE8, CHR 0x87, CHR 0xAA, CHR 0xE7, CHR 0xAB, CHR 0x8B]"

text \<open>U+FF34 U+30DE U+30FC U+30B8 U+2190\<close>

definition s_t_merge :: string where [lit]:
  "s_t_merge =
     [CHR 0xEF, CHR 0xBC, CHR 0xB4, CHR 0xE3, CHR 0x83, CHR 0x9E, CHR 0xE3, CHR 0x83,
      CHR 0xBC, CHR 0xE3, CHR 0x82, CHR 0xB8, CHR 0xE2, CHR 0x86, CHR 0x90]"

text \<open>U+5F8C U+51E6 U+7406 - U+57FA U+672C U+53E5 U+30DE U+30FC U+30B8\<close>

definition s_merged_tag :: string where [lit]:
  "s_merged_tag =
     [CHR 0xE5, CHR 0xBE, CHR 0x8C, CHR 0xE5, CHR 0x87, CHR 0xA6, CHR 0xE7, CHR 0x90,
      CHR 0x86, CHR 0x2D, CHR 0xE5, CHR 0x9F, CHR 0xBA, CHR 0xE6, CHR 0x9C, CHR 0xAC,
      CHR 0xE5, CHR 0x8F, CHR 0xA5, CHR 0xE3, CHR 0x83, CHR 0x9E, CHR 0xE3, CHR 0x83,
      CHR 0xBC, CHR 0xE3, CHR 0x82, CHR 0xB8]"

text \<open>U+30BF U+30B0 U+5358 U+4F4D U+53D7\<close>

definition s_tag_uke :: string where [lit]:
  "s_tag_uke =
     [CHR 0xE3, CHR 0x82, CHR 0xBF, CHR 0xE3, CHR 0x82, CHR 0xB0, CHR 0xE5, CHR 0x8D,
      CHR 0x98, CHR 0xE4, CHR 0xBD, CHR 0x8D, CHR 0xE5, CHR 0x8F, CHR 0x97]"

text \<open>U+76F4 U+524D U+30BF U+30B0 U+53D7\<close>

definition s_chokuzen_tag_uke :: string where [lit]:
  "s_chokuzen_tag_uke =
     [CHR 0xE7, CHR 0x9B, CHR 0xB4, CHR 0xE5, CHR 0x89, CHR 0x8D, CHR 0xE3, CHR 0x82,
      CHR 0xBF, CHR 0xE3, CHR 0x82, CHR 0xB0, CHR 0xE5, CHR 0x8F, CHR 0x97]"

text \<open>U+30BF U+30B0 U+5358 U+4F4D U+53D7 U+7121 U+8996\<close>

definition s_tag_uke_mushi :: string where [lit]:
  "s_tag_uke_mushi =
     [CHR 0xE3, CHR 0x82, CHR 0xBF, CHR 0xE3, CHR 0x82, CHR 0xB0, CHR 0xE5, CHR 0x8D,
      CHR 0x98, CHR 0xE4, CHR 0xBD, CHR 0x8D, CHR 0xE5, CHR 0x8F, CHR 0x97, CHR 0xE7,
      CHR 0x84, CHR 0xA1, CHR 0xE8, CHR 0xA6, CHR 0x96]"

text \<open>U+FF34 U+53E5 U+9593 U+8981 U+7D20\<close>

definition s_t_kukan :: string where [lit]:
  "s_t_kukan =
     [CHR 0xEF, CHR 0xBC, CHR 0xB4, CHR 0xE5, CHR 0x8F, CHR 0xA5, CHR 0xE9, CHR 0x96,
      CHR 0x93, CHR 0xE8, CHR 0xA6, CHR 0x81, CHR 0xE7, CHR 0xB4, CHR 0xA0]"

text \<open>U+FF34 U+53E5 U+5185 U+8981 U+7D20\<close>

definition s_t_kunai :: string where [lit]:
  "s_t_kunai =
     [CHR 0xEF, CHR 0xBC, CHR 0xB4, CHR 0xE5, CHR 0x8F, CHR 0xA5, CHR 0xE5, CHR 0x86,
      CHR 0x85, CHR 0xE8, CHR 0xA6, CHR 0x81, CHR 0xE7, CHR 0xB4, CHR 0xA0]"

text \<open>U+5224 U+5B9A U+8A5E\<close>

definition s_hanteishi :: string where [lit]:
  "s_hanteishi =
     [CHR 0xE5, CHR 0x88, CHR 0xA4, CHR 0xE5, CHR 0xAE, CHR 0x9A, CHR 0xE8, CHR 0xA9,
      CHR 0x9E]"

text \<open>U+7279 U+6B8A\<close>

definition s_tokushu :: string where [lit]:
  "s_tokushu =
     [CHR 0xE7, CHR 0x89, CHR 0xB9, CHR 0xE6, CHR 0xAE, CHR 0x8A]"

text \<open>U+53E5 U+70B9\<close>

definition s_kuten :: string where [lit]:
  "s_kuten =
     [CHR 0xE5, CHR 0x8F, CHR 0xA5, CHR 0xE7, CHR 0x82, CHR 0xB9]"

text \<open>U+9023 U+4F53 U+4FEE U+98FE\<close>

definition s_rentai_shuushoku :: string where [lit]:
  "s_rentai_shuushoku =
     [CHR 0xE9, CHR 0x80, CHR 0xA3, CHR 0xE4, CHR 0xBD, CHR 0x93, CHR 0xE4, CHR 0xBF,
      CHR 0xAE, CHR 0xE9, CHR 0xA3, CHR 0xBE]"

text \<open>U+4FC2 : U+96A3\<close>

definition s_k_tonari :: string where [lit]:
  "s_k_tonari =
     [CHR 0xE4, CHR 0xBF, CHR 0x82, CHR 0x3A, CHR 0xE9, CHR 0x9A, CHR 0xA3]"

text \<open>U+4FC2 : U+6587 U+7BC0 U+5185\<close>

definition s_k_bunsetsunai :: string where [lit]:
  "s_k_bunsetsunai =
     [CHR 0xE4, CHR 0xBF, CHR 0x82, CHR 0x3A, CHR 0xE6, CHR 0x96, CHR 0x87, CHR 0xE7,
      CHR 0xAF, CHR 0x80, CHR 0xE5, CHR 0x86, CHR 0x85]"

text \<open>U+4E26 U+30AD : U+540D\<close>

definition s_heiki_mei :: string where [lit]:
  "s_heiki_mei =
     [CHR 0xE4, CHR 0xB8, CHR 0xA6, CHR 0xE3, CHR 0x82, CHR 0xAD, CHR 0x3A, CHR 0xE5,
      CHR 0x90, CHR 0x8D]"

text \<open>U+30AB U+30A6 U+30F3 U+30BF\<close>

definition s_counter :: string where [lit]:
  "s_counter =
     [CHR 0xE3, CHR 0x82, CHR 0xAB, CHR 0xE3, CHR 0x82, CHR 0xA6, CHR 0xE3, CHR 0x83,
      CHR 0xB3, CHR 0xE3, CHR 0x82, CHR 0xBF]"

text \<open>U+6570 U+5B57\<close>

definition s_suuji :: string where [lit]:
  "s_suuji =
     [CHR 0xE6, CHR 0x95, CHR 0xB0, CHR 0xE5, CHR 0xAD, CHR 0x97]"

text \<open>U+4EE3 U+8868 U+8868 U+8A18 U+5909 U+66F4\<close>

definition s_daihyo_henkou :: string where [lit]:
  "s_daihyo_henkou =
     [CHR 0xE4, CHR 0xBB, CHR 0xA3, CHR 0xE8, CHR 0xA1, CHR 0xA8, CHR 0xE8, CHR 0xA1,
      CHR 0xA8, CHR 0xE8, CHR 0xA8, CHR 0x98, CHR 0xE5, CHR 0xA4, CHR 0x89, CHR 0xE6,
      CHR 0x9B, CHR 0xB4]"

text \<open>U+4EE3 U+8868 U+8868 U+8A18\<close>

definition s_daihyo :: string where [lit]:
  "s_daihyo =
     [CHR 0xE4, CHR 0xBB, CHR 0xA3, CHR 0xE8, CHR 0xA1, CHR 0xA8, CHR 0xE8, CHR 0xA1,
      CHR 0xA8, CHR 0xE8, CHR 0xA8, CHR 0x98]"

text \<open>U+4EE3 U+8868 U+8868 U+8A18 :\<close>

definition s_daihyo_c :: string where [lit]:
  "s_daihyo_c =
     [CHR 0xE4, CHR 0xBB, CHR 0xA3, CHR 0xE8, CHR 0xA1, CHR 0xA8, CHR 0xE8, CHR 0xA1,
      CHR 0xA8, CHR 0xE8, CHR 0xA8, CHR 0x98, CHR 0x3A]"

text \<open>U+4EE3 U+8868 U+8868 U+8A18 U+5909 U+66F4 :\<close>

definition s_daihyo_henkou_c :: string where [lit]:
  "s_daihyo_henkou_c =
     [CHR 0xE4, CHR 0xBB, CHR 0xA3, CHR 0xE8, CHR 0xA1, CHR 0xA8, CHR 0xE8, CHR 0xA1,
      CHR 0xA8, CHR 0xE8, CHR 0xA8, CHR 0x98, CHR 0xE5, CHR 0xA4, CHR 0x89, CHR 0xE6,
      CHR 0x9B, CHR 0xB4, CHR 0x3A]"

text \<open>U+6B63 U+898F U+5316 U+4EE3 U+8868 U+8868 U+8A18\<close>

definition s_seikika :: string where [lit]:
  "s_seikika =
     [CHR 0xE6, CHR 0xAD, CHR 0xA3, CHR 0xE8, CHR 0xA6, CHR 0x8F, CHR 0xE5, CHR 0x8C,
      CHR 0x96, CHR 0xE4, CHR 0xBB, CHR 0xA3, CHR 0xE8, CHR 0xA1, CHR 0xA8, CHR 0xE8,
      CHR 0xA1, CHR 0xA8, CHR 0xE8, CHR 0xA8, CHR 0x98]"

text \<open>U+6B63 U+898F U+5316 U+4EE3 U+8868 U+8868 U+8A18 :\<close>

definition s_seikika_c :: string where [lit]:
  "s_seikika_c =
     [CHR 0xE6, CHR 0xAD, CHR 0xA3, CHR 0xE8, CHR 0xA6, CHR 0x8F, CHR 0xE5, CHR 0x8C,
      CHR 0x96, CHR 0xE4, CHR 0xBB, CHR 0xA3, CHR 0xE8, CHR 0xA1, CHR 0xA8, CHR 0xE8,
      CHR 0xA1, CHR 0xA8, CHR 0xE8, CHR 0xA8, CHR 0x98, CHR 0x3A]"

text \<open>U+4E3B U+8F9E U+2019 U+4EE3 U+8868 U+8868 U+8A18\<close>

definition s_shuji_dash :: string where [lit]:
  "s_shuji_dash =
     [CHR 0xE4, CHR 0xB8, CHR 0xBB, CHR 0xE8, CHR 0xBE, CHR 0x9E, CHR 0xE2, CHR 0x80,
      CHR 0x99, CHR 0xE4, CHR 0xBB, CHR 0xA3, CHR 0xE8, CHR 0xA1, CHR 0xA8, CHR 0xE8,
      CHR 0xA1, CHR 0xA8, CHR 0xE8, CHR 0xA8, CHR 0x98]"

text \<open>U+4E3B U+8F9E U+2019 U+4EE3 U+8868 U+8868 U+8A18 :\<close>

definition s_shuji_dash_c :: string where [lit]:
  "s_shuji_dash_c =
     [CHR 0xE4, CHR 0xB8, CHR 0xBB, CHR 0xE8, CHR 0xBE, CHR 0x9E, CHR 0xE2, CHR 0x80,
      CHR 0x99, CHR 0xE4, CHR 0xBB, CHR 0xA3, CHR 0xE8, CHR 0xA1, CHR 0xA8, CHR 0xE8,
      CHR 0xA1, CHR 0xA8, CHR 0xE8, CHR 0xA8, CHR 0x98, CHR 0x3A]"

text \<open>U+4E3B U+8F9E U+4EE3 U+8868 U+8868 U+8A18\<close>

definition s_shuji_daihyo :: string where [lit]:
  "s_shuji_daihyo =
     [CHR 0xE4, CHR 0xB8, CHR 0xBB, CHR 0xE8, CHR 0xBE, CHR 0x9E, CHR 0xE4, CHR 0xBB,
      CHR 0xA3, CHR 0xE8, CHR 0xA1, CHR 0xA8, CHR 0xE8, CHR 0xA1, CHR 0xA8, CHR 0xE8,
      CHR 0xA8, CHR 0x98]"

text \<open>U+4E3B U+8F9E U+4EE3 U+8868 U+8868 U+8A18 :\<close>

definition s_shuji_daihyo_c :: string where [lit]:
  "s_shuji_daihyo_c =
     [CHR 0xE4, CHR 0xB8, CHR 0xBB, CHR 0xE8, CHR 0xBE, CHR 0x9E, CHR 0xE4, CHR 0xBB,
      CHR 0xA3, CHR 0xE8, CHR 0xA1, CHR 0xA8, CHR 0xE8, CHR 0xA1, CHR 0xA8, CHR 0xE8,
      CHR 0xA8, CHR 0x98, CHR 0x3A]"

text \<open>U+4E3B U+8F9E U+2019\<close>

definition s_shuji_dash_only :: string where [lit]:
  "s_shuji_dash_only =
     [CHR 0xE4, CHR 0xB8, CHR 0xBB, CHR 0xE8, CHR 0xBE, CHR 0x9E, CHR 0xE2, CHR 0x80,
      CHR 0x99]"

text \<open>U+54C1 U+8A5E U+5909 U+66F4 :\<close>

definition s_hinshi_henkou_c :: string where [lit]:
  "s_hinshi_henkou_c =
     [CHR 0xE5, CHR 0x93, CHR 0x81, CHR 0xE8, CHR 0xA9, CHR 0x9E, CHR 0xE5, CHR 0xA4,
      CHR 0x89, CHR 0xE6, CHR 0x9B, CHR 0xB4, CHR 0x3A]"

text \<open>U+53EF U+80FD U+52D5 U+8A5E\<close>

definition s_kanou_doushi :: string where [lit]:
  "s_kanou_doushi =
     [CHR 0xE5, CHR 0x8F, CHR 0xAF, CHR 0xE8, CHR 0x83, CHR 0xBD, CHR 0xE5, CHR 0x8B,
      CHR 0x95, CHR 0xE8, CHR 0xA9, CHR 0x9E]"

text \<open>U+6F22 U+5B57 U+8AAD U+307F\<close>

definition s_kanji_yomi :: string where [lit]:
  "s_kanji_yomi =
     [CHR 0xE6, CHR 0xBC, CHR 0xA2, CHR 0xE5, CHR 0xAD, CHR 0x97, CHR 0xE8, CHR 0xAA,
      CHR 0xAD, CHR 0xE3, CHR 0x81, CHR 0xBF]"

text \<open>U+30C9 U+30E1 U+30A4 U+30F3\<close>

definition s_domain :: string where [lit]:
  "s_domain =
     [CHR 0xE3, CHR 0x83, CHR 0x89, CHR 0xE3, CHR 0x83, CHR 0xA1, CHR 0xE3, CHR 0x82,
      CHR 0xA4, CHR 0xE3, CHR 0x83, CHR 0xB3]"

text \<open>U+6CE8 U+91C8\<close>

definition s_chuushaku :: string where [lit]:
  "s_chuushaku =
     [CHR 0xE6, CHR 0xB3, CHR 0xA8, CHR 0xE9, CHR 0x87, CHR 0x88]"

text \<open>U+8B19 U+8B72 U+52D5 U+8A5E\<close>

definition s_kenjou :: string where [lit]:
  "s_kenjou =
     [CHR 0xE8, CHR 0xAC, CHR 0x99, CHR 0xE8, CHR 0xAD, CHR 0xB2, CHR 0xE5, CHR 0x8B,
      CHR 0x95, CHR 0xE8, CHR 0xA9, CHR 0x9E]"

text \<open>U+5C0A U+656C U+52D5 U+8A5E\<close>

definition s_sonkei :: string where [lit]:
  "s_sonkei =
     [CHR 0xE5, CHR 0xB0, CHR 0x8A, CHR 0xE6, CHR 0x95, CHR 0xAC, CHR 0xE5, CHR 0x8B,
      CHR 0x95, CHR 0xE8, CHR 0xA9, CHR 0x9E]"

text \<open>U+4E01 U+5BE7 U+52D5 U+8A5E\<close>

definition s_teinei :: string where [lit]:
  "s_teinei =
     [CHR 0xE4, CHR 0xB8, CHR 0x81, CHR 0xE5, CHR 0xAF, CHR 0xA7, CHR 0xE5, CHR 0x8B,
      CHR 0x95, CHR 0xE8, CHR 0xA9, CHR 0x9E]"

text \<open>U+6A19 U+6E96\<close>

definition s_hyoujun :: string where [lit]:
  "s_hyoujun =
     [CHR 0xE6, CHR 0xA8, CHR 0x99, CHR 0xE6, CHR 0xBA, CHR 0x96]"

text \<open>U+7701 U+7565\<close>

definition s_shouryaku :: string where [lit]:
  "s_shouryaku =
     [CHR 0xE7, CHR 0x9C, CHR 0x81, CHR 0xE7, CHR 0x95, CHR 0xA5]"

text \<open>U+4E00 U+6587 U+5B57 U+6F22 U+5B57\<close>

definition s_ichimoji_kanji :: string where [lit]:
  "s_ichimoji_kanji =
     [CHR 0xE4, CHR 0xB8, CHR 0x80, CHR 0xE6, CHR 0x96, CHR 0x87, CHR 0xE5, CHR 0xAD,
      CHR 0x97, CHR 0xE6, CHR 0xBC, CHR 0xA2, CHR 0xE5, CHR 0xAD, CHR 0x97]"

text \<open>U+672A U+5B9A U+7FA9 U+8A9E\<close>

definition s_miteigigo :: string where [lit]:
  "s_miteigigo =
     [CHR 0xE6, CHR 0x9C, CHR 0xAA, CHR 0xE5, CHR 0xAE, CHR 0x9A, CHR 0xE7, CHR 0xBE,
      CHR 0xA9, CHR 0xE8, CHR 0xAA, CHR 0x9E]"

text \<open>U+30AB U+30BF U+30AB U+30CA\<close>

definition s_katakana :: string where [lit]:
  "s_katakana =
     [CHR 0xE3, CHR 0x82, CHR 0xAB, CHR 0xE3, CHR 0x82, CHR 0xBF, CHR 0xE3, CHR 0x82,
      CHR 0xAB, CHR 0xE3, CHR 0x83, CHR 0x8A]"

text \<open>U+81EA U+52D5 U+7372 U+5F97\<close>

definition s_jidou_kakutoku :: string where [lit]:
  "s_jidou_kakutoku =
     [CHR 0xE8, CHR 0x87, CHR 0xAA, CHR 0xE5, CHR 0x8B, CHR 0x95, CHR 0xE7, CHR 0x8D,
      CHR 0xB2, CHR 0xE5, CHR 0xBE, CHR 0x97]"

text \<open>U+30FC\<close>

definition s_chouon :: string where [lit]:
  "s_chouon =
     [CHR 0xE3, CHR 0x83, CHR 0xBC]"

text \<open>U+57FA U+672C U+5F62\<close>

definition s_kihonkei :: string where [lit]:
  "s_kihonkei =
     [CHR 0xE5, CHR 0x9F, CHR 0xBA, CHR 0xE6, CHR 0x9C, CHR 0xAC, CHR 0xE5, CHR 0xBD,
      CHR 0xA2]"

text \<open>U+5F62 U+614B U+7D20 U+9023 U+7D50 -\<close>

definition s_keitaiso_renketsu :: string where [lit]:
  "s_keitaiso_renketsu =
     [CHR 0xE5, CHR 0xBD, CHR 0xA2, CHR 0xE6, CHR 0x85, CHR 0x8B, CHR 0xE7, CHR 0xB4,
      CHR 0xA0, CHR 0xE9, CHR 0x80, CHR 0xA3, CHR 0xE7, CHR 0xB5, CHR 0x90, CHR 0x2D]"

text \<open>U+54C1 U+66D6\<close>

definition s_hin_ai_f :: string where [lit]:
  "s_hin_ai_f =
     [CHR 0xE5, CHR 0x93, CHR 0x81, CHR 0xE6, CHR 0x9B, CHR 0x96]"

text \<open>U+539F U+5F62 U+66D6 U+6627\<close>

definition s_genkei_aimai :: string where [lit]:
  "s_genkei_aimai =
     [CHR 0xE5, CHR 0x8E, CHR 0x9F, CHR 0xE5, CHR 0xBD, CHR 0xA2, CHR 0xE6, CHR 0x9B,
      CHR 0x96, CHR 0xE6, CHR 0x98, CHR 0xA7]"

text \<open>& U+8868 U+5C64 : U+4ED8 U+4E0E\<close>

definition s_f_hyousou_fuyo :: string where [lit]:
  "s_f_hyousou_fuyo =
     [CHR 0x26, CHR 0xE8, CHR 0xA1, CHR 0xA8, CHR 0xE5, CHR 0xB1, CHR 0xA4, CHR 0x3A,
      CHR 0xE4, CHR 0xBB, CHR 0x98, CHR 0xE4, CHR 0xB8, CHR 0x8E]"

text \<open>& U+8868 U+5C64 : U+524A U+9664\<close>

definition s_f_hyousou_sakujo :: string where [lit]:
  "s_f_hyousou_sakujo =
     [CHR 0x26, CHR 0xE8, CHR 0xA1, CHR 0xA8, CHR 0xE5, CHR 0xB1, CHR 0xA4, CHR 0x3A,
      CHR 0xE5, CHR 0x89, CHR 0x8A, CHR 0xE9, CHR 0x99, CHR 0xA4]"

text \<open>& U+8868 U+5C64 : ^\<close>

definition s_f_hyousou_not :: string where [lit]:
  "s_f_hyousou_not =
     [CHR 0x26, CHR 0xE8, CHR 0xA1, CHR 0xA8, CHR 0xE5, CHR 0xB1, CHR 0xA4, CHR 0x3A,
      CHR 0x5E]"

text \<open>& M E M O :\<close>

definition s_f_memo :: string where [lit]:
  "s_f_memo =
     [CHR 0x26, CHR 0x4D, CHR 0x45, CHR 0x4D, CHR 0x4F, CHR 0x3A]"

text \<open>& U+54C1 U+8A5E U+5909 U+66F4 :\<close>

definition s_f_hinshi_henkou :: string where [lit]:
  "s_f_hinshi_henkou =
     [CHR 0x26, CHR 0xE5, CHR 0x93, CHR 0x81, CHR 0xE8, CHR 0xA9, CHR 0x9E, CHR 0xE5,
      CHR 0xA4, CHR 0x89, CHR 0xE6, CHR 0x9B, CHR 0xB4, CHR 0x3A]"

text \<open>& U+4EE3 U+8868 U+8868 U+8A18 U+5909 U+66F4 :\<close>

definition s_f_daihyo_henkou :: string where [lit]:
  "s_f_daihyo_henkou =
     [CHR 0x26, CHR 0xE4, CHR 0xBB, CHR 0xA3, CHR 0xE8, CHR 0xA1, CHR 0xA8, CHR 0xE8,
      CHR 0xA1, CHR 0xA8, CHR 0xE8, CHR 0xA8, CHR 0x98, CHR 0xE5, CHR 0xA4, CHR 0x89,
      CHR 0xE6, CHR 0x9B, CHR 0xB4, CHR 0x3A]"

text \<open>& U+610F U+5473 U+7D20 U+4ED8 U+4E0E :\<close>

definition s_f_imiso_fuyo :: string where [lit]:
  "s_f_imiso_fuyo =
     [CHR 0x26, CHR 0xE6, CHR 0x84, CHR 0x8F, CHR 0xE5, CHR 0x91, CHR 0xB3, CHR 0xE7,
      CHR 0xB4, CHR 0xA0, CHR 0xE4, CHR 0xBB, CHR 0x98, CHR 0xE4, CHR 0xB8, CHR 0x8E,
      CHR 0x3A]"

text \<open>& U+8907 U+5408 U+8F9E U+683C U+89E3 U+6790\<close>

definition s_f_fukugoji :: string where [lit]:
  "s_f_fukugoji =
     [CHR 0x26, CHR 0xE8, CHR 0xA4, CHR 0x87, CHR 0xE5, CHR 0x90, CHR 0x88, CHR 0xE8,
      CHR 0xBE, CHR 0x9E, CHR 0xE6, CHR 0xA0, CHR 0xBC, CHR 0xE8, CHR 0xA7, CHR 0xA3,
      CHR 0xE6, CHR 0x9E, CHR 0x90]"

text \<open>& U+8907 U+5408 U+8F9E I D U+4ED8 U+4E0E\<close>

definition s_f_fukugoji_id :: string where [lit]:
  "s_f_fukugoji_id =
     [CHR 0x26, CHR 0xE8, CHR 0xA4, CHR 0x87, CHR 0xE5, CHR 0x90, CHR 0x88, CHR 0xE8,
      CHR 0xBE, CHR 0x9E, CHR 0x49, CHR 0x44, CHR 0xE4, CHR 0xBB, CHR 0x98, CHR 0xE4,
      CHR 0xB8, CHR 0x8E]"

text \<open>& U+8A18 U+61B6 U+8A9E U+5F59 U+4ED8 U+4E0E :\<close>

definition s_f_kioku_goi :: string where [lit]:
  "s_f_kioku_goi =
     [CHR 0x26, CHR 0xE8, CHR 0xA8, CHR 0x98, CHR 0xE6, CHR 0x86, CHR 0xB6, CHR 0xE8,
      CHR 0xAA, CHR 0x9E, CHR 0xE5, CHR 0xBD, CHR 0x99, CHR 0xE4, CHR 0xBB, CHR 0x98,
      CHR 0xE4, CHR 0xB8, CHR 0x8E, CHR 0x3A]"

text \<open>& U+8A18 U+61B6 F E A T U R E U+6607 U+683C :\<close>

definition s_f_kioku_shoukaku :: string where [lit]:
  "s_f_kioku_shoukaku =
     [CHR 0x26, CHR 0xE8, CHR 0xA8, CHR 0x98, CHR 0xE6, CHR 0x86, CHR 0xB6, CHR 0x46,
      CHR 0x45, CHR 0x41, CHR 0x54, CHR 0x55, CHR 0x52, CHR 0x45, CHR 0xE6, CHR 0x98,
      CHR 0x87, CHR 0xE6, CHR 0xA0, CHR 0xBC, CHR 0x3A]"

text \<open>& U+8A18 U+61B6 F E A T U R E U+4ED8 U+4E0E :\<close>

definition s_f_kioku_fuyo :: string where [lit]:
  "s_f_kioku_fuyo =
     [CHR 0x26, CHR 0xE8, CHR 0xA8, CHR 0x98, CHR 0xE6, CHR 0x86, CHR 0xB6, CHR 0x46,
      CHR 0x45, CHR 0x41, CHR 0x54, CHR 0x55, CHR 0x52, CHR 0x45, CHR 0xE4, CHR 0xBB,
      CHR 0x98, CHR 0xE4, CHR 0xB8, CHR 0x8E, CHR 0x3A]"

text \<open>& U+4F1D U+642C :\<close>

definition s_f_denpan :: string where [lit]:
  "s_f_denpan =
     [CHR 0x26, CHR 0xE4, CHR 0xBC, CHR 0x9D, CHR 0xE6, CHR 0x90, CHR 0xAC, CHR 0x3A]"

text \<open>& U+5F62 U+614B U+7D20 U+4ED8 U+5C5E U+5316\<close>

definition s_f_fuzokuka :: string where [lit]:
  "s_f_fuzokuka =
     [CHR 0x26, CHR 0xE5, CHR 0xBD, CHR 0xA2, CHR 0xE6, CHR 0x85, CHR 0x8B, CHR 0xE7,
      CHR 0xB4, CHR 0xA0, CHR 0xE4, CHR 0xBB, CHR 0x98, CHR 0xE5, CHR 0xB1, CHR 0x9E,
      CHR 0xE5, CHR 0x8C, CHR 0x96]"

text \<open>& U+81EA U+52D5 U+8F9E U+66F8 :\<close>

definition s_f_jidou_jisho :: string where [lit]:
  "s_f_jidou_jisho =
     [CHR 0x26, CHR 0xE8, CHR 0x87, CHR 0xAA, CHR 0xE5, CHR 0x8B, CHR 0x95, CHR 0xE8,
      CHR 0xBE, CHR 0x9E, CHR 0xE6, CHR 0x9B, CHR 0xB8, CHR 0x3A]"

text \<open>U+5148 U+982D :\<close>

definition s_sentou_c :: string where [lit]:
  "s_sentou_c =
     [CHR 0xE5, CHR 0x85, CHR 0x88, CHR 0xE9, CHR 0xA0, CHR 0xAD, CHR 0x3A]"

text \<open>U+672B U+5C3E :\<close>

definition s_matsubi_c :: string where [lit]:
  "s_matsubi_c =
     [CHR 0xE6, CHR 0x9C, CHR 0xAB, CHR 0xE5, CHR 0xB0, CHR 0xBE, CHR 0x3A]"

text \<open>& U+81EA U+52D5 U+8F9E U+66F8 : U+5148 U+982D :\<close>

definition s_f_jidou_sentou :: string where [lit]:
  "s_f_jidou_sentou =
     [CHR 0x26, CHR 0xE8, CHR 0x87, CHR 0xAA, CHR 0xE5, CHR 0x8B, CHR 0x95, CHR 0xE8,
      CHR 0xBE, CHR 0x9E, CHR 0xE6, CHR 0x9B, CHR 0xB8, CHR 0x3A, CHR 0xE5, CHR 0x85,
      CHR 0x88, CHR 0xE9, CHR 0xA0, CHR 0xAD, CHR 0x3A]"

text \<open>U+614B\<close>

definition s_tai :: string where [lit]:
  "s_tai =
     [CHR 0xE6, CHR 0x85, CHR 0x8B]"

text \<open>U+614B :\<close>

definition s_tai_c :: string where [lit]:
  "s_tai_c =
     [CHR 0xE6, CHR 0x85, CHR 0x8B, CHR 0x3A]"

text \<open>U+3082 U+3089 U+3046\<close>

definition s_morau :: string where [lit]:
  "s_morau =
     [CHR 0xE3, CHR 0x82, CHR 0x82, CHR 0xE3, CHR 0x82, CHR 0x89, CHR 0xE3, CHR 0x81,
      CHR 0x86]"

text \<open>U+307B U+3057 U+3044\<close>

definition s_hoshii :: string where [lit]:
  "s_hoshii =
     [CHR 0xE3, CHR 0x81, CHR 0xBB, CHR 0xE3, CHR 0x81, CHR 0x97, CHR 0xE3, CHR 0x81,
      CHR 0x84]"

text \<open>U+4F7F U+5F79 & U+53D7 U+52D5\<close>

definition s_shieki_judou :: string where [lit]:
  "s_shieki_judou =
     [CHR 0xE4, CHR 0xBD, CHR 0xBF, CHR 0xE5, CHR 0xBD, CHR 0xB9, CHR 0x26, CHR 0xE5,
      CHR 0x8F, CHR 0x97, CHR 0xE5, CHR 0x8B, CHR 0x95]"

text \<open>U+7528 U+8A00 :\<close>

definition s_yougen_c :: string where [lit]:
  "s_yougen_c =
     [CHR 0xE7, CHR 0x94, CHR 0xA8, CHR 0xE8, CHR 0xA8, CHR 0x80, CHR 0x3A]"

text \<open>U+7528 U+8A00 : U+5F62\<close>

definition s_yougen_kei :: string where [lit]:
  "s_yougen_kei =
     [CHR 0xE7, CHR 0x94, CHR 0xA8, CHR 0xE8, CHR 0xA8, CHR 0x80, CHR 0x3A, CHR 0xE5,
      CHR 0xBD, CHR 0xA2]"

text \<open>U+540D U+8A5E U+7684 U+5F62 U+5BB9 U+8A5E U+8A9E U+5E79\<close>

definition s_keiyou_gokan :: string where [lit]:
  "s_keiyou_gokan =
     [CHR 0xE5, CHR 0x90, CHR 0x8D, CHR 0xE8, CHR 0xA9, CHR 0x9E, CHR 0xE7, CHR 0x9A,
      CHR 0x84, CHR 0xE5, CHR 0xBD, CHR 0xA2, CHR 0xE5, CHR 0xAE, CHR 0xB9, CHR 0xE8,
      CHR 0xA9, CHR 0x9E, CHR 0xE8, CHR 0xAA, CHR 0x9E, CHR 0xE5, CHR 0xB9, CHR 0xB9]"

text \<open>U+540D U+8A5E U+6027 U+540D U+8A5E U+63A5 U+5C3E U+8F9E\<close>

definition s_meishisei_setsubi :: string where [lit]:
  "s_meishisei_setsubi =
     [CHR 0xE5, CHR 0x90, CHR 0x8D, CHR 0xE8, CHR 0xA9, CHR 0x9E, CHR 0xE6, CHR 0x80,
      CHR 0xA7, CHR 0xE5, CHR 0x90, CHR 0x8D, CHR 0xE8, CHR 0xA9, CHR 0x9E, CHR 0xE6,
      CHR 0x8E, CHR 0xA5, CHR 0xE5, CHR 0xB0, CHR 0xBE, CHR 0xE8, CHR 0xBE, CHR 0x9E]"

text \<open>U+FF34 U+4EE3 U+8868 U+8868 U+8A18 U+5909 U+66F4 U+524D U+7528 U+8A00 U+898B U+51FA\<close>

definition s_T_henkoumae :: string where [lit]:
  "s_T_henkoumae =
     [CHR 0xEF, CHR 0xBC, CHR 0xB4, CHR 0xE4, CHR 0xBB, CHR 0xA3, CHR 0xE8, CHR 0xA1,
      CHR 0xA8, CHR 0xE8, CHR 0xA1, CHR 0xA8, CHR 0xE8, CHR 0xA8, CHR 0x98, CHR 0xE5,
      CHR 0xA4, CHR 0x89, CHR 0xE6, CHR 0x9B, CHR 0xB4, CHR 0xE5, CHR 0x89, CHR 0x8D,
      CHR 0xE7, CHR 0x94, CHR 0xA8, CHR 0xE8, CHR 0xA8, CHR 0x80, CHR 0xE8, CHR 0xA6,
      CHR 0x8B, CHR 0xE5, CHR 0x87, CHR 0xBA]"

text \<open>I D : U+FF08 U+301C U+3092 U+FF09 U+301C U+306B\<close>

definition s_id_wo_ni :: string where [lit]:
  "s_id_wo_ni =
     [CHR 0x49, CHR 0x44, CHR 0x3A, CHR 0xEF, CHR 0xBC, CHR 0x88, CHR 0xE3, CHR 0x80,
      CHR 0x9C, CHR 0xE3, CHR 0x82, CHR 0x92, CHR 0xEF, CHR 0xBC, CHR 0x89, CHR 0xE3,
      CHR 0x80, CHR 0x9C, CHR 0xE3, CHR 0x81, CHR 0xAB]"

text \<open>U+3059 U+308B / U+3059 U+308B\<close>

definition s_suru_suru :: string where [lit]:
  "s_suru_suru =
     [CHR 0xE3, CHR 0x81, CHR 0x99, CHR 0xE3, CHR 0x82, CHR 0x8B, CHR 0x2F, CHR 0xE3,
      CHR 0x81, CHR 0x99, CHR 0xE3, CHR 0x82, CHR 0x8B]"

text \<open>U+3059 U+308B\<close>

definition s_suru :: string where [lit]:
  "s_suru =
     [CHR 0xE3, CHR 0x81, CHR 0x99, CHR 0xE3, CHR 0x82, CHR 0x8B]"

text \<open>U+FF34 U+7528 U+8A00 U+898B U+51FA U+2192\<close>

definition s_T_midashi_r :: string where [lit]:
  "s_T_midashi_r =
     [CHR 0xEF, CHR 0xBC, CHR 0xB4, CHR 0xE7, CHR 0x94, CHR 0xA8, CHR 0xE8, CHR 0xA8,
      CHR 0x80, CHR 0xE8, CHR 0xA6, CHR 0x8B, CHR 0xE5, CHR 0x87, CHR 0xBA, CHR 0xE2,
      CHR 0x86, CHR 0x92]"

text \<open>U+30B5 U+5909\<close>

definition s_sahen :: string where [lit]:
  "s_sahen =
     [CHR 0xE3, CHR 0x82, CHR 0xB5, CHR 0xE5, CHR 0xA4, CHR 0x89]"

text \<open>U+FF34 U+7528 U+8A00 U+898B U+51FA U+2190\<close>

definition s_T_midashi_l :: string where [lit]:
  "s_T_midashi_l =
     [CHR 0xEF, CHR 0xBC, CHR 0xB4, CHR 0xE7, CHR 0x94, CHR 0xA8, CHR 0xE8, CHR 0xA8,
      CHR 0x80, CHR 0xE8, CHR 0xA6, CHR 0x8B, CHR 0xE5, CHR 0x87, CHR 0xBA, CHR 0xE2,
      CHR 0x86, CHR 0x90]"

text \<open>U+52A9 U+52D5 U+8A5E\<close>

definition s_jodoushi :: string where [lit]:
  "s_jodoushi =
     [CHR 0xE5, CHR 0x8A, CHR 0xA9, CHR 0xE5, CHR 0x8B, CHR 0x95, CHR 0xE8, CHR 0xA9,
      CHR 0x9E]"

text \<open>U+52A9 U+8A5E\<close>

definition s_joshi :: string where [lit]:
  "s_joshi =
     [CHR 0xE5, CHR 0x8A, CHR 0xA9, CHR 0xE8, CHR 0xA9, CHR 0x9E]"

text \<open>U+306C\<close>

definition s_nu :: string where [lit]:
  "s_nu =
     [CHR 0xE3, CHR 0x81, CHR 0xAC]"

text \<open>U+30BF U+30B0 U+5358 U+4F4D U+53D7 :\<close>

definition s_tag_uke_c :: string where [lit]:
  "s_tag_uke_c =
     [CHR 0xE3, CHR 0x82, CHR 0xBF, CHR 0xE3, CHR 0x82, CHR 0xB0, CHR 0xE5, CHR 0x8D,
      CHR 0x98, CHR 0xE4, CHR 0xBD, CHR 0x8D, CHR 0xE5, CHR 0x8F, CHR 0x97, CHR 0x3A]"

text \<open>U+76F4 U+524D U+30BF U+30B0 U+53D7 :\<close>

definition s_chokuzen_tag_uke_c :: string where [lit]:
  "s_chokuzen_tag_uke_c =
     [CHR 0xE7, CHR 0x9B, CHR 0xB4, CHR 0xE5, CHR 0x89, CHR 0x8D, CHR 0xE3, CHR 0x82,
      CHR 0xBF, CHR 0xE3, CHR 0x82, CHR 0xB0, CHR 0xE5, CHR 0x8F, CHR 0x97, CHR 0x3A]"

text \<open>U+5019 U+88DC\<close>

definition s_kouho :: string where [lit]:
  "s_kouho =
     [CHR 0xE5, CHR 0x80, CHR 0x99, CHR 0xE8, CHR 0xA3, CHR 0x9C]"

text \<open>I D : U+301C\<close>

definition s_id_nami :: string where [lit]:
  "s_id_nami =
     [CHR 0x49, CHR 0x44, CHR 0x3A, CHR 0xE3, CHR 0x80, CHR 0x9C]"

text \<open>U+FF34 U+89E3 U+6790 U+683C -\<close>

definition s_T_kaiseki_kaku :: string where [lit]:
  "s_T_kaiseki_kaku =
     [CHR 0xEF, CHR 0xBC, CHR 0xB4, CHR 0xE8, CHR 0xA7, CHR 0xA3, CHR 0xE6, CHR 0x9E,
      CHR 0x90, CHR 0xE6, CHR 0xA0, CHR 0xBC, CHR 0x2D]"

text \<open>U+5F62 U+526F U+540D U+8A5E\<close>

definition s_keifuku :: string where [lit]:
  "s_keifuku =
     [CHR 0xE5, CHR 0xBD, CHR 0xA2, CHR 0xE5, CHR 0x89, CHR 0xAF, CHR 0xE5, CHR 0x90,
      CHR 0x8D, CHR 0xE8, CHR 0xA9, CHR 0x9E]"

text \<open>U+985E U+4F3C U+8A08 U+7B97 : U+7684\<close>

definition s_ruiji_teki :: string where [lit]:
  "s_ruiji_teki =
     [CHR 0xE9, CHR 0xA1, CHR 0x9E, CHR 0xE4, CHR 0xBC, CHR 0xBC, CHR 0xE8, CHR 0xA8,
      CHR 0x88, CHR 0xE7, CHR 0xAE, CHR 0x97, CHR 0x3A, CHR 0xE7, CHR 0x9A, CHR 0x84]"

text \<open>U+4E26 U+30AD : U+FF1F\<close>

definition s_heiki_q :: string where [lit]:
  "s_heiki_q =
     [CHR 0xE4, CHR 0xB8, CHR 0xA6, CHR 0xE3, CHR 0x82, CHR 0xAD, CHR 0x3A, CHR 0xEF,
      CHR 0xBC, CHR 0x9F]"

text \<open>U+305F U+3081 - U+305B U+3044\<close>

definition s_tame_sei :: string where [lit]:
  "s_tame_sei =
     [CHR 0xE3, CHR 0x81, CHR 0x9F, CHR 0xE3, CHR 0x82, CHR 0x81, CHR 0x2D, CHR 0xE3,
      CHR 0x81, CHR 0x9B, CHR 0xE3, CHR 0x81, CHR 0x84]"

text \<open>U+8907 U+5408 U+8F9E\<close>

definition s_fukugouji :: string where [lit]:
  "s_fukugouji =
     [CHR 0xE8, CHR 0xA4, CHR 0x87, CHR 0xE5, CHR 0x90, CHR 0x88, CHR 0xE8, CHR 0xBE,
      CHR 0x9E]"

text \<open>U+4EBA U+540D\<close>

definition s_jinmei :: string where [lit]:
  "s_jinmei =
     [CHR 0xE4, CHR 0xBA, CHR 0xBA, CHR 0xE5, CHR 0x90, CHR 0x8D]"

text \<open>U+5730 U+540D\<close>

definition s_chimei :: string where [lit]:
  "s_chimei =
     [CHR 0xE5, CHR 0x9C, CHR 0xB0, CHR 0xE5, CHR 0x90, CHR 0x8D]"

text \<open>U+7D44 U+7E54 U+540D\<close>

definition s_soshikimei :: string where [lit]:
  "s_soshikimei =
     [CHR 0xE7, CHR 0xB5, CHR 0x84, CHR 0xE7, CHR 0xB9, CHR 0x94, CHR 0xE5, CHR 0x90,
      CHR 0x8D]"

text \<open>U+656C U+8A9E\<close>

definition s_keigo :: string where [lit]:
  "s_keigo =
     [CHR 0xE6, CHR 0x95, CHR 0xAC, CHR 0xE8, CHR 0xAA, CHR 0x9E]"

text \<open>U+63A5 U+5C3E U+8F9E\<close>

definition s_setsubiji :: string where [lit]:
  "s_setsubiji =
     [CHR 0xE6, CHR 0x8E, CHR 0xA5, CHR 0xE5, CHR 0xB0, CHR 0xBE, CHR 0xE8, CHR 0xBE,
      CHR 0x9E]"

text \<open>U+30BF U+30EA\<close>

definition s_tari :: string where [lit]:
  "s_tari =
     [CHR 0xE3, CHR 0x82, CHR 0xBF, CHR 0xE3, CHR 0x83, CHR 0xAA]"

text \<open>U+3067 U+304D U+308B\<close>

definition s_dekiru :: string where [lit]:
  "s_dekiru =
     [CHR 0xE3, CHR 0x81, CHR 0xA7, CHR 0xE3, CHR 0x81, CHR 0x8D, CHR 0xE3, CHR 0x82,
      CHR 0x8B]"

text \<open>U+51FA U+6765 U+308B\<close>

definition s_dekiru_kanji :: string where [lit]:
  "s_dekiru_kanji =
     [CHR 0xE5, CHR 0x87, CHR 0xBA, CHR 0xE6, CHR 0x9D, CHR 0xA5, CHR 0xE3, CHR 0x82,
      CHR 0x8B]"

text \<open>U+301C U+308C U+308B\<close>

definition s_v_reru :: string where [lit]:
  "s_v_reru =
     [CHR 0xE3, CHR 0x80, CHR 0x9C, CHR 0xE3, CHR 0x82, CHR 0x8C, CHR 0xE3, CHR 0x82,
      CHR 0x8B]"

text \<open>U+301C U+3089 U+308C U+308B\<close>

definition s_v_rareru :: string where [lit]:
  "s_v_rareru =
     [CHR 0xE3, CHR 0x80, CHR 0x9C, CHR 0xE3, CHR 0x82, CHR 0x89, CHR 0xE3, CHR 0x82,
      CHR 0x8C, CHR 0xE3, CHR 0x82, CHR 0x8B]"

text \<open>U+301C U+305B U+308B\<close>

definition s_v_seru :: string where [lit]:
  "s_v_seru =
     [CHR 0xE3, CHR 0x80, CHR 0x9C, CHR 0xE3, CHR 0x81, CHR 0x9B, CHR 0xE3, CHR 0x82,
      CHR 0x8B]"

text \<open>U+301C U+3055 U+305B U+308B\<close>

definition s_v_saseru :: string where [lit]:
  "s_v_saseru =
     [CHR 0xE3, CHR 0x80, CHR 0x9C, CHR 0xE3, CHR 0x81, CHR 0x95, CHR 0xE3, CHR 0x81,
      CHR 0x9B, CHR 0xE3, CHR 0x82, CHR 0x8B]"

text \<open>U+301C U+306A U+3044\<close>

definition s_v_nai :: string where [lit]:
  "s_v_nai =
     [CHR 0xE3, CHR 0x80, CHR 0x9C, CHR 0xE3, CHR 0x81, CHR 0xAA, CHR 0xE3, CHR 0x81,
      CHR 0x84]"

text \<open>U+301C U+306C\<close>

definition s_v_nu :: string where [lit]:
  "s_v_nu =
     [CHR 0xE3, CHR 0x80, CHR 0x9C, CHR 0xE3, CHR 0x81, CHR 0xAC]"

text \<open>U+30AC\<close>

definition s_kk_ga :: string where [lit]:
  "s_kk_ga =
     [CHR 0xE3, CHR 0x82, CHR 0xAC]"

text \<open>U+30F2\<close>

definition s_kk_wo :: string where [lit]:
  "s_kk_wo =
     [CHR 0xE3, CHR 0x83, CHR 0xB2]"

text \<open>U+30CB\<close>

definition s_kk_ni :: string where [lit]:
  "s_kk_ni =
     [CHR 0xE3, CHR 0x83, CHR 0x8B]"

text \<open>U+30C8\<close>

definition s_kk_to :: string where [lit]:
  "s_kk_to =
     [CHR 0xE3, CHR 0x83, CHR 0x88]"

text \<open>U+30CE\<close>

definition s_kk_no :: string where [lit]:
  "s_kk_no =
     [CHR 0xE3, CHR 0x83, CHR 0x8E]"

text \<open>U+672A\<close>

definition s_kk_mi :: string where [lit]:
  "s_kk_mi =
     [CHR 0xE6, CHR 0x9C, CHR 0xAA]"

text \<open>U+4FEE U+98FE\<close>

definition s_kk_shuushoku :: string where [lit]:
  "s_kk_shuushoku =
     [CHR 0xE4, CHR 0xBF, CHR 0xAE, CHR 0xE9, CHR 0xA3, CHR 0xBE]"

text \<open>U+03C6\<close>

definition s_kk_phi :: string where [lit]:
  "s_kk_phi =
     [CHR 0xCF, CHR 0x86]"

text \<open>U+30DE U+30C7\<close>

definition s_kk_made :: string where [lit]:
  "s_kk_made =
     [CHR 0xE3, CHR 0x83, CHR 0x9E, CHR 0xE3, CHR 0x83, CHR 0x87]"

text \<open>U+30CB U+30C8 U+30C3 U+30C6\<close>

definition s_kk_nitotte :: string where [lit]:
  "s_kk_nitotte =
     [CHR 0xE3, CHR 0x83, CHR 0x8B, CHR 0xE3, CHR 0x83, CHR 0x88, CHR 0xE3, CHR 0x83,
      CHR 0x83, CHR 0xE3, CHR 0x83, CHR 0x86]"

text \<open>U+30CB U+30E8 U+30C3 U+30C6\<close>

definition s_kk_niyotte :: string where [lit]:
  "s_kk_niyotte =
     [CHR 0xE3, CHR 0x83, CHR 0x8B, CHR 0xE3, CHR 0x83, CHR 0xA8, CHR 0xE3, CHR 0x83,
      CHR 0x83, CHR 0xE3, CHR 0x83, CHR 0x86]"

text \<open>U+4E3B U+4F53\<close>

definition s_sm_shutai :: string where [lit]:
  "s_sm_shutai =
     [CHR 0xE4, CHR 0xB8, CHR 0xBB, CHR 0xE4, CHR 0xBD, CHR 0x93]"

text \<open>U+88DC U+6587\<close>

definition s_sm_hobun :: string where [lit]:
  "s_sm_hobun =
     [CHR 0xE8, CHR 0xA3, CHR 0x9C, CHR 0xE6, CHR 0x96, CHR 0x87]"

text \<open>U+4EBA\<close>

definition s_sm_hito :: string where [lit]:
  "s_sm_hito =
     [CHR 0xE4, CHR 0xBA, CHR 0xBA]"

text \<open>U+7D44 U+7E54\<close>

definition s_sm_soshiki :: string where [lit]:
  "s_sm_soshiki =
     [CHR 0xE7, CHR 0xB5, CHR 0x84, CHR 0xE7, CHR 0xB9, CHR 0x94]"

text \<open>U+52D5 U+4F5C\<close>

definition s_sm_dousa :: string where [lit]:
  "s_sm_dousa =
     [CHR 0xE5, CHR 0x8B, CHR 0x95, CHR 0xE4, CHR 0xBD, CHR 0x9C]"

text \<open>U+5834 U+6240\<close>

definition s_sm_basho :: string where [lit]:
  "s_sm_basho =
     [CHR 0xE5, CHR 0xA0, CHR 0xB4, CHR 0xE6, CHR 0x89, CHR 0x80]"

text \<open>U+540D ( U+8EE2 U+751F )\<close>

definition s_sm_tensei :: string where [lit]:
  "s_sm_tensei =
     [CHR 0xE5, CHR 0x90, CHR 0x8D, CHR 0x28, CHR 0xE8, CHR 0xBB, CHR 0xA2, CHR 0xE7,
      CHR 0x94, CHR 0x9F, CHR 0x29]"

text \<open>U+2192\<close>

definition s_sm_yajirushi :: string where [lit]:
  "s_sm_yajirushi =
     [CHR 0xE2, CHR 0x86, CHR 0x92]"

text \<open>U+FF34 U+56FA U+6709 U+4E00 U+822C U+5C55 U+958B U+7981 U+6B62\<close>

definition s_t_koyuu_kinshi :: string where [lit]:
  "s_t_koyuu_kinshi =
     [CHR 0xEF, CHR 0xBC, CHR 0xB4, CHR 0xE5, CHR 0x9B, CHR 0xBA, CHR 0xE6, CHR 0x9C,
      CHR 0x89, CHR 0xE4, CHR 0xB8, CHR 0x80, CHR 0xE8, CHR 0x88, CHR 0xAC, CHR 0xE5,
      CHR 0xB1, CHR 0x95, CHR 0xE9, CHR 0x96, CHR 0x8B, CHR 0xE7, CHR 0xA6, CHR 0x81,
      CHR 0xE6, CHR 0xAD, CHR 0xA2]"

text \<open>U+975E U+4E3B U+4F53\<close>

definition s_hi_shutai :: string where [lit]:
  "s_hi_shutai =
     [CHR 0xE9, CHR 0x9D, CHR 0x9E, CHR 0xE4, CHR 0xB8, CHR 0xBB, CHR 0xE4, CHR 0xBD,
      CHR 0x93]"

text \<open>U+526F U+8A5E\<close>

definition s_fukushi :: string where [lit]:
  "s_fukushi =
     [CHR 0xE5, CHR 0x89, CHR 0xAF, CHR 0xE8, CHR 0xA9, CHR 0x9E]"

text \<open>U+56DE U+6570\<close>

definition s_kaisuu :: string where [lit]:
  "s_kaisuu =
     [CHR 0xE5, CHR 0x9B, CHR 0x9E, CHR 0xE6, CHR 0x95, CHR 0xB0]"

text \<open>U+4EE3 U+8868 U+3072 U+3089 U+304C U+306A\<close>

definition s_daihyou_hiragana :: string where [lit]:
  "s_daihyou_hiragana =
     [CHR 0xE4, CHR 0xBB, CHR 0xA3, CHR 0xE8, CHR 0xA1, CHR 0xA8, CHR 0xE3, CHR 0x81,
      CHR 0xB2, CHR 0xE3, CHR 0x82, CHR 0x89, CHR 0xE3, CHR 0x81, CHR 0x8C, CHR 0xE3,
      CHR 0x81, CHR 0xAA]"

end
