(* ===== verification/Knp_Tools.thy ===== *)
theory Knp_Tools
  imports Knp_Literals
begin

text \<open>
  The helper functions of \<open>src/system/tools.c\<close>: the length of a UTF-8 character and of a
  string in characters, the table hash, and the conversions between the two kana scripts. The
  allocation wrappers of that file have no counterpart: memory is unbounded in the model.
\<close>

section \<open>Definitions\<close>

definition utf8_length :: "char \<Rightarrow> nat" where
  "utf8_length c =
     (let b = of_char c :: nat in
      if b > 0xfb then 6
      else if b > 0xf7 then 5
      else if b > 0xef then 4
      else if b > 0xdf then 3
      else if b > 0x7f then 2
      else 1)"

lemma utf8_length_pos [simp, termination_simp]: "0 < utf8_length c"
  by (simp add: utf8_length_def Let_def)

text \<open>
  The loop steps over whole characters; a character cut short by the end of the string makes it
  step over the terminating NUL, which is undefined behaviour.
\<close>

function string_length :: "string \<Rightarrow> nat option" where
  "string_length s =
     (if s = [] then Some 0
      else let n = utf8_length (hd s) in
           if n \<le> length s then map_option Suc (string_length (drop n s)) else None)"
  by pat_completeness auto
termination
  by (relation "measure length") auto

declare string_length.simps [simp del]

definition TBLSIZE :: nat where "TBLSIZE = 1024"
definition NSEED :: nat where "NSEED = 32"

text \<open>
  The table hash: the seed table is filled by \<^verbatim>\<open>rand\<close>, so it is an argument. The row
  index \<open>j\<close> runs modulo \<open>NSEED\<close>.
\<close>

fun hash_loop :: "(nat \<Rightarrow> nat \<Rightarrow> 32 word) \<Rightarrow> nat \<Rightarrow> 32 word \<Rightarrow> string \<Rightarrow> 32 word" where
  "hash_loop seed j h [] = h"
| "hash_loop seed j h (c # cs) =
     hash_loop seed ((j + 1) AND (NSEED - 1)) (h XOR seed j (of_char c)) cs"

definition hash :: "(nat \<Rightarrow> nat \<Rightarrow> 32 word) \<Rightarrow> string \<Rightarrow> 32 word" where
  "hash seed key = hash_loop seed 0 0 key AND of_nat (TBLSIZE - 1)"

text \<open>Every \<open>BYTES4CHAR\<close>-th byte, from the first: \<open>a\<close> becomes \<open>b\<close>.\<close>

fun subst_lead :: "char \<Rightarrow> char \<Rightarrow> string \<Rightarrow> string" where
  "subst_lead a b [] = []"
| "subst_lead a b [x] = [if x = a then b else x]"
| "subst_lead a b [x, y] = [if x = a then b else x, y]"
| "subst_lead a b (x # y # z # s) = (if x = a then b else x) # y # z # subst_lead a b s"

definition katakana2hiragana :: "string \<Rightarrow> string" where
  "katakana2hiragana s = subst_lead (CHR 0xA5) (CHR 0xA4) s"

definition hiragana2katakana :: "string \<Rightarrow> string" where
  "hiragana2katakana s = subst_lead (CHR 0xA4) (CHR 0xA5) s"

text \<open>A byte list that is one UTF-8 character by its first byte.\<close>

definition utf8_char :: "string \<Rightarrow> bool" where
  "utf8_char bs \<longleftrightarrow> bs \<noteq> [] \<and> length bs = utf8_length (hd bs)"

section \<open>Properties\<close>

lemma string_length_Nil [simp]: "string_length [] = Some 0"
  by (simp add: string_length.simps)

lemma string_length_utf8_char:
  assumes "utf8_char c"
  shows "string_length (c @ s) = map_option Suc (string_length s)"
  using assms by (subst string_length.simps) (auto simp: utf8_char_def Let_def)

lemma string_length_concat:
  "list_all utf8_char cs \<Longrightarrow> string_length (concat cs) = Some (length cs)"
  by (induction cs) (auto simp: string_length_utf8_char)

lemma string_length_chars:
  "string_length s = Some n \<Longrightarrow> \<exists>cs. concat cs = s \<and> length cs = n \<and> list_all utf8_char cs"
proof (induction s arbitrary: n rule: string_length.induct)
  case (1 s)
  show ?case
  proof (cases "s = []")
    case True
    with "1.prems" show ?thesis by simp
  next
    case False
    let ?k = "utf8_length (hd s)"
    from False "1.prems" have k: "?k \<le> length s"
      by (subst (asm) string_length.simps) (auto simp: Let_def split: if_splits)
    with False "1.prems" obtain m where m: "string_length (drop ?k s) = Some m" "n = Suc m"
      by (subst (asm) string_length.simps) (auto simp: Let_def)
    from "1.IH" [OF False refl k m(1)] obtain cs where
      cs: "concat cs = drop ?k s" "length cs = m" "list_all utf8_char cs" by blast
    have "utf8_char (take ?k s)"
      using False k by (simp add: utf8_char_def hd_take)
    with cs m(2) show ?thesis
      by (intro exI [of _ "take ?k s # cs"]) auto
  qed
qed

text \<open>
  \<open>string_length\<close> returns \<open>n\<close> exactly when the bytes are a sequence of
  \<open>n\<close> complete characters; on any other input it runs over the terminating NUL.
\<close>

theorem string_length_iff:
  "string_length s = Some n \<longleftrightarrow>
     (\<exists>cs. concat cs = s \<and> length cs = n \<and> list_all utf8_char cs)"
  using string_length_chars string_length_concat by blast

lemma and_31: "(j :: nat) AND 31 = j mod 32"
proof -
  have "j AND 31 = take_bit 5 j" by (simp add: take_bit_eq_mask mask_eq_exp_minus_1)
  then show ?thesis by (simp add: take_bit_eq_mod)
qed

text \<open>The row index of the seed table stays inside the table.\<close>

lemma hash_row_bound: "(j + 1) AND (NSEED - 1) < NSEED"
  by (simp add: NSEED_def and_31)

text \<open>
  The table hash is an index of a table of \<open>TBLSIZE\<close> entries, whatever the seeds are.
\<close>

theorem hash_in_table: "unat (hash seed key) < TBLSIZE"
proof -
  have "unat (hash seed key) \<le> unat (1023 :: 32 word)"
    unfolding hash_def TBLSIZE_def
    by (rule word_and_le1 [THEN word_le_nat_alt [THEN iffD1], THEN order_trans]) simp
  then show ?thesis by (simp add: TBLSIZE_def)
qed

lemma subst_lead_chars:
  assumes "list_all (\<lambda>c. length c = 3 \<and> hd c \<noteq> a) cs"
  shows "subst_lead a b (concat cs) = concat cs"
  using assms
proof (induction cs)
  case (Cons c cs)
  then obtain x y z where "c = [x, y, z]" "x \<noteq> a"
    by (auto simp: length_Suc_conv numeral_3_eq_3)
  with Cons show ?case by simp
qed simp

lemma utf8_lead_not_A4_A5:
  "utf8_length c = 3 \<Longrightarrow> c \<noteq> CHR 0xA4 \<and> c \<noteq> CHR 0xA5"
  by (auto simp: utf8_length_def)

text \<open>
  On text made of three-byte UTF-8 characters, which is how both kana scripts are encoded
  in the default build, neither kana conversion changes anything: they look for the EUC-JP lead
  bytes A4 and A5, which never start a UTF-8 character.
\<close>

theorem kana_conversion_identity_on_utf8:
  assumes "list_all (\<lambda>c. utf8_char c \<and> length c = 3) cs"
  shows "katakana2hiragana (concat cs) = concat cs \<and> hiragana2katakana (concat cs) = concat cs"
proof -
  have "list_all (\<lambda>c. length c = 3 \<and> hd c \<noteq> CHR 0xA5) cs"
    and "list_all (\<lambda>c. length c = 3 \<and> hd c \<noteq> CHR 0xA4) cs"
    using assms utf8_lead_not_A4_A5 by (auto simp: list_all_iff utf8_char_def)
  then show ?thesis
    by (simp add: katakana2hiragana_def hiragana2katakana_def subst_lead_chars)
qed

text \<open>The katakana and the hiragana of \<open>ga\<close>, each left as it is.\<close>

theorem kana_conversion_identity_on_utf8_witness:
  "katakana2hiragana s_ka_kata = s_ka_kata \<and> hiragana2katakana s_ka_hira = s_ka_hira"
  using kana_conversion_identity_on_utf8 [of "[s_ka_kata]"]
    kana_conversion_identity_on_utf8 [of "[s_ka_hira]"]
  by (simp add: lit utf8_char_def utf8_length_def)

end
