(* ===== verification/Knp_Data.thy ===== *)
theory Knp_Data
  imports Knp_Tools
begin

text \<open>
  The data structures of \<open>src/system/const.h\<close> that the modelled components read and write,
  with the fields those components use. A linked list of features is the list of its strings and a
  null-terminated array the list of its entries; a pointer to a morpheme, bunsetsu or base phrase is
  its kind and its index in the array of the sentence. The common initial part of
  \<^verbatim>\<open>BNST_DATA\<close> and \<^verbatim>\<open>TAG_DATA\<close>, which the sources rely on when they cast
  one to the other, is the record \<open>NODE\<close> that both extend.
\<close>

section \<open>Constants\<close>

definition BNST_MAX :: nat where "BNST_MAX = 200"
definition RF_MAX :: nat where "RF_MAX = 16"
definition RM_MAX :: nat where "RM_MAX = 64"
definition SCASE_CODE_SIZE :: nat where "SCASE_CODE_SIZE = 11"
definition BGH_CODE_SIZE :: nat where "BGH_CODE_SIZE = 11"
definition SM_CODE_SIZE :: nat where "SM_CODE_SIZE = 12"
definition QUOTE_MAX :: nat where "QUOTE_MAX = 40"
definition PARA_PART_MAX :: nat where "PARA_PART_MAX = 32"
definition BNST_LENGTH_MAX :: nat where "BNST_LENGTH_MAX = 256"
definition WORD_LEN_MAX :: nat where "WORD_LEN_MAX = 128"
definition IS_BNST_DATA :: int where "IS_BNST_DATA = 1"
definition IS_TAG_DATA :: int where "IS_TAG_DATA = 2"
definition PARA_NIL :: int where "PARA_NIL = 0"
definition PARA_NORMAL :: int where "PARA_NORMAL = 1"
definition PARA_INCOMP :: int where "PARA_INCOMP = 2"
definition BYTES4CHAR :: nat where "BYTES4CHAR = 3"
definition TYPE_NO :: int where "TYPE_NO = 128"
definition FORM_NO :: int where "FORM_NO = 128"

datatype language = JAPANESE | CHINESE | ENGLISH

section \<open>Features and patterns\<close>

type_synonym FEATURE = "string list"

text \<open>
  The alternatives of a pattern, \<^verbatim>\<open>fp[0], fp[1], ...\<close>; an entry that is the empty list is
  the null pointer that ends the array.
\<close>

type_synonym FEATURE_PATTERN = "FEATURE list"

definition NOT_FLG :: char where "NOT_FLG = CHR ''^''"
definition MAT_FLG :: char where "MAT_FLG = CHR 0x00"
definition AST_FLG :: char where "AST_FLG = CHR ''*''"
definition QST_FLG :: char where "QST_FLG = CHR ''?''"

record REGEXPMRPH =
  r_type_flag :: char
  r_ast_flag :: char
  r_Hinshi_not :: char
  r_Hinshi :: "int list"
  r_Bunrui_not :: char
  r_Bunrui :: "int list"
  r_Kata_not :: char
  r_Katuyou_Kata :: "int list"
  r_Kei_not :: char
  r_Katuyou_Kei :: "string option list"
  r_Goi_not :: char
  r_Goi :: "string option list"
  r_f_pattern :: FEATURE_PATTERN

record REGEXPMRPHS =
  r_mrph :: "REGEXPMRPH list"
  r_mrphsize :: int

record REGEXPBNST =
  rb_type_flag :: char
  rb_ast_flag :: char
  rb_mrphs :: "REGEXPMRPHS option"
  rb_f_pattern :: FEATURE_PATTERN

record REGEXPBNSTS =
  r_bnst :: "REGEXPBNST list"
  r_bnstsize :: int

section \<open>Rules\<close>

record MrphRule =
  mr_pre_pattern :: "REGEXPMRPHS option"
  mr_self_pattern :: "REGEXPMRPHS option"
  mr_post_pattern :: "REGEXPMRPHS option"
  mr_f :: FEATURE

record BnstRule =
  br_pre_pattern :: "REGEXPBNSTS option"
  br_self_pattern :: "REGEXPBNSTS option"
  br_post_pattern :: "REGEXPBNSTS option"
  br_f :: FEATURE

text \<open>The governors of a dependency rule, each with the type of the dependency it allows.\<close>

record DpndRule =
  dr_dependant :: FEATURE_PATTERN
  dr_governor :: "(FEATURE_PATTERN \<times> char) list"
  dr_barrier :: FEATURE_PATTERN
  dr_preference :: int
  dr_decide :: bool

record KoouRule =
  kr_start_pattern :: REGEXPMRPHS
  kr_end_pattern :: REGEXPMRPHS
  kr_uke_pattern :: "REGEXPMRPHS option"
  kr_dpnd_type :: char

record QUOTE_DATA =
  in_num :: "nat \<Rightarrow> int"
  out_num :: "nat \<Rightarrow> int"

section \<open>Morphemes, base phrases, bunsetsu\<close>

datatype ptr = MrphP nat | BnstP nat | TagP nat

record MRPH_DATA =
  m_num :: nat
  m_Goi :: string
  m_Yomi :: string
  m_Goi2 :: string
  m_Hinshi :: int
  m_Bunrui :: int
  m_Katuyou_Kata :: int
  m_Katuyou_Kei :: int
  m_f :: FEATURE
  m_SM :: "string option"
  m_Imi :: string
  m_tnum :: int
  m_inum :: int
  m_dpnd_head :: int
  m_dpnd_type :: char
  m_out_head_flag :: bool

record NODE =
  n_type :: int
  n_num :: int
  n_parent :: "ptr option"
  n_child :: "ptr list"
  n_dpnd_head :: int
  n_dpnd_type :: char
  n_dpnd_dflt :: int
  n_para_num :: int
  n_para_key_type :: int
  n_para_top_p :: bool
  n_para_type :: int
  n_to_para_p :: bool
  n_sp_level :: int
  n_mrph_ptr :: nat
  n_mrph_num :: nat
  n_preserve_mrph_num :: nat
  n_length :: nat
  n_head_ptr :: "nat option"
  n_BGH_code :: string
  n_SM_code :: string
  n_voice :: int
  n_f :: FEATURE
  n_SCASE_code :: "int list"

record BNST_DATA = NODE +
  b_Jiritu_Go :: string
  b_dpnd_rule :: "DpndRule option"
  b_tag_ptr :: nat
  b_tag_num :: nat

record TAG_DATA = NODE +
  t_bnum :: int
  t_inum :: int
  t_b_ptr :: nat
  t_settou_num :: nat
  t_jiritu_num :: nat
  t_fuzoku_num :: nat
  t_settou_ptr :: "nat option"
  t_jiritu_ptr :: "nat option"
  t_fuzoku_ptr :: "nat option"

text \<open>
  A sentence. \<open>mrph_data\<close> holds its \<open>Mrph_num\<close> morphemes. \<open>bnst_data\<close> holds the \<open>Bnst_num\<close> bunsetsu of the input, followed by
  the \<open>New_Bnst_num\<close> nodes that the tree builder adds for coordination; the entries of the array that
  nothing has been written to are not in the list.
\<close>

record SENTENCE_DATA =
  mrph_data :: "MRPH_DATA list"
  bnst_data :: "BNST_DATA list"
  tag_data :: "TAG_DATA list"
  Bnst_num :: nat
  Tag_num :: nat
  New_Bnst_num :: nat
  Max_New_Bnst_num :: nat
  New_Tag_num :: nat
  KNPSID :: string
  Comment :: "string option"

section \<open>Dependency structures\<close>

record CHECK_DATA =
  ck_num :: int
  ck_def :: int
  ck_pos :: "nat list"

text \<open>
  The dependency structure under construction: heads, types and distances from the default for each
  bunsetsu, the columns still open under the non-crossing condition, and the candidates found.
\<close>

record DPND =
  d_head :: "nat \<Rightarrow> int"
  d_type :: "nat \<Rightarrow> char"
  d_dflt :: "nat \<Rightarrow> int"
  d_mask :: "nat \<Rightarrow> bool"
  d_pos :: nat
  d_check :: "nat \<Rightarrow> CHECK_DATA"

section \<open>Dereferencing\<close>

definition mrph_at :: "SENTENCE_DATA \<Rightarrow> ptr \<Rightarrow> MRPH_DATA option" where
  "mrph_at sp p = (case p of MrphP i \<Rightarrow> at (mrph_data sp) i | _ \<Rightarrow> None)"

text \<open>The part of a bunsetsu or base phrase that the two structures have in common.\<close>

definition node_at :: "SENTENCE_DATA \<Rightarrow> ptr \<Rightarrow> NODE option" where
  "node_at sp p =
     (case p of
        BnstP i \<Rightarrow> map_option NODE.truncate (at (bnst_data sp) i)
      | TagP i \<Rightarrow> map_option NODE.truncate (at (tag_data sp) i)
      | MrphP i \<Rightarrow> None)"

definition bnst_at :: "SENTENCE_DATA \<Rightarrow> ptr \<Rightarrow> BNST_DATA option" where
  "bnst_at sp p = (case p of BnstP i \<Rightarrow> at (bnst_data sp) i | _ \<Rightarrow> None)"

text \<open>The update of one bunsetsu of a sentence.\<close>

definition set_bnst :: "nat \<Rightarrow> (BNST_DATA \<Rightarrow> BNST_DATA) \<Rightarrow> SENTENCE_DATA \<Rightarrow> SENTENCE_DATA" where
  "set_bnst i f sp = sp\<lparr>bnst_data := (bnst_data sp)[i := f (bnst_data sp ! i)]\<rparr>"

lemma truncate_NODE_sel [simp]:
  "n_f (NODE.truncate n) = n_f n"
  "n_child (NODE.truncate n) = n_child n"
  "n_parent (NODE.truncate n) = n_parent n"
  "n_SCASE_code (NODE.truncate n) = n_SCASE_code n"
  "n_mrph_ptr (NODE.truncate n) = n_mrph_ptr n"
  "n_mrph_num (NODE.truncate n) = n_mrph_num n"
  "n_voice (NODE.truncate n) = n_voice n"
  "n_para_top_p (NODE.truncate n) = n_para_top_p n"
  by (simp_all add: NODE.truncate_def)

section \<open>Sample data\<close>

text \<open>Bunsetsu and sentences given by their features only, for concrete evaluations.\<close>

definition sample_node :: NODE where
  "sample_node =
     \<lparr>n_type = IS_BNST_DATA, n_num = 0, n_parent = None, n_child = [], n_dpnd_head = -1, n_dpnd_type = CHR ''D'',
      n_dpnd_dflt = -1, n_para_num = -1, n_para_key_type = 0, n_para_top_p = False, n_para_type = 0,
      n_to_para_p = False, n_sp_level = 0,
      n_mrph_ptr = 0, n_mrph_num = 0, n_preserve_mrph_num = 0, n_length = 0, n_head_ptr = None, n_BGH_code = [], n_SM_code = [],
      n_voice = 0, n_f = [], n_SCASE_code = []\<rparr>"

definition sample_bnst :: "FEATURE \<Rightarrow> BNST_DATA" where
  "sample_bnst f =
     NODE.extend (sample_node\<lparr>n_f := f\<rparr>) (BNST_DATA.fields [] None 0 0)"

definition sample_mrph :: "string \<Rightarrow> FEATURE \<Rightarrow> MRPH_DATA" where
  "sample_mrph goi f =
     \<lparr>m_num = 0, m_Goi = goi, m_Yomi = goi, m_Goi2 = goi, m_Hinshi = 6, m_Bunrui = 1,
      m_Katuyou_Kata = 0, m_Katuyou_Kei = 0, m_f = f, m_SM = None,
      m_Imi = [], m_tnum = -1, m_inum = 0, m_dpnd_head = -1, m_dpnd_type = CHR ''D'', m_out_head_flag = False\<rparr>"

definition sample_sentence :: "FEATURE list \<Rightarrow> SENTENCE_DATA" where
  "sample_sentence fs =
     \<lparr>mrph_data = [], bnst_data = map sample_bnst fs, tag_data = [], Bnst_num = length fs,
      Tag_num = 0, New_Bnst_num = 0, Max_New_Bnst_num = 0, New_Tag_num = 0, KNPSID = ''S-ID:1'', Comment = None\<rparr>"

lemma n_f_sample_bnst [simp]: "n_f (sample_bnst f) = f"
  by (simp add: sample_bnst_def NODE.extend_def BNST_DATA.fields_def sample_node_def)

lemma sample_sentence_sel [simp]:
  "Bnst_num (sample_sentence fs) = length fs"
  "bnst_data (sample_sentence fs) = map sample_bnst fs"
  by (simp_all add: sample_sentence_def)

end
