(* ===== verification/Knp_Feature.thy ===== *)
theory Knp_Feature
  imports Knp_Data
begin

text \<open>
  Feature lists, from \<open>src/system/feature.c\<close>: the comparison of a feature with a pattern, lookup,
  deletion, assignment with overwriting, the parser of feature patterns, and the printers. Features
  are strings of the form \<open>name\<close> or \<open>name:value\<close>; a list holds at most one feature per
  name as long as it is written by assignment only.
\<close>

section \<open>Definitions\<close>

subsection \<open>Matching one feature\<close>

text \<open>Equal, or the pattern is a prefix that a colon follows.\<close>

definition comp_feature :: "string \<Rightarrow> string \<Rightarrow> bool" where
  "comp_feature data pattern =
     (if data = pattern then True
      else if starts data pattern \<and> char_at data (length pattern) = Some (CHR '':'') then True
      else False)"

fun check_feature :: "FEATURE \<Rightarrow> string \<Rightarrow> string option" where
  "check_feature [] fname = None"
| "check_feature (cp # fp) fname = (if comp_feature cp fname then Some cp else check_feature fp fname)"

definition has_feature :: "FEATURE \<Rightarrow> string \<Rightarrow> bool" where
  "has_feature fp fname \<longleftrightarrow> check_feature fp fname \<noteq> None"

text \<open>
  \<^verbatim>\<open>sscanf(data, "%*[^:]:%*[^:]:%s", decision)\<close>: the third column, up to white space, read
  into a buffer of nine bytes.
\<close>

definition ne_decision :: "string \<Rightarrow> string" where
  "ne_decision data =
     (case scan_until (CHR '':'') data of
        None \<Rightarrow> []
      | Some (_, r1) \<Rightarrow>
          (case r1 of
             [] \<Rightarrow> []
           | _ # r1' \<Rightarrow>
               (case scan_until (CHR '':'') r1' of
                  None \<Rightarrow> []
                | Some (_, r2) \<Rightarrow>
                    (case r2 of
                       [] \<Rightarrow> []
                     | _ # r2' \<Rightarrow> takeWhile (\<lambda>c. \<not> is_blank c) (dropWhile is_blank r2')))))"

definition comp_feature_NE :: "string \<Rightarrow> string \<Rightarrow> bool option" where
  "comp_feature_NE data pattern =
     (let decision = ne_decision data in
      if length decision \<le> 8 then Some (decision \<noteq> [] \<and> decision = pattern) else None)"

fun check_feature_NE :: "FEATURE \<Rightarrow> string \<Rightarrow> string option option" where
  "check_feature_NE [] fname = Some None"
| "check_feature_NE (cp # fp) fname =
     (case comp_feature_NE cp fname of
        None \<Rightarrow> None
      | Some b \<Rightarrow> if b then Some (Some cp) else check_feature_NE fp fname)"

text \<open>
  The categories of a feature \<open>category:a;b;c\<close>: the loop compares \<open>fname\<close> after the colon
  and after each semicolon.
\<close>

definition category_here :: "string \<Rightarrow> string \<Rightarrow> bool" where
  "category_here cp fname \<longleftrightarrow>
     cp = fname \<or> (starts cp fname \<and> char_at cp (length fname) = Some (CHR '';''))"

function category_loop :: "string \<Rightarrow> string \<Rightarrow> bool option" where
  "category_loop cp fname =
     (case cp of
        [] \<Rightarrow> None
      | _ # cp' \<Rightarrow>
          if category_here cp' fname then Some True
          else (case c_strchr cp' (CHR '';'') of
                  None \<Rightarrow> Some False
                | Some cp'' \<Rightarrow> category_loop cp'' fname))"
  by pat_completeness auto

lemma c_strchr_length: "c_strchr s c = Some t \<Longrightarrow> length t \<le> length s"
  by (auto simp: c_strchr_Some)

termination category_loop
  by (relation "measure (\<lambda>(cp, _). length cp)") (auto dest: c_strchr_length)

declare category_loop.simps [simp del]

definition check_category :: "FEATURE \<Rightarrow> string \<Rightarrow> bool \<Rightarrow> bool option" where
  "check_category fp fname strict_flag =
     (case check_feature fp s_category of
        None \<Rightarrow> Some False
      | Some cp \<Rightarrow>
          if strict_flag \<and> c_strchr cp (CHR '';'') \<noteq> None then Some False
          else category_loop (drop (length s_category) cp) fname)"

definition compare_threshold :: "int \<Rightarrow> int \<Rightarrow> string \<Rightarrow> bool" where
  "compare_threshold value threshold eq =
     (if eq = ''lt'' then value < threshold
      else if eq = ''le'' then value \<le> threshold
      else if eq = ''gt'' then value > threshold
      else if eq = ''ge'' then value \<ge> threshold
      else False)"

subsection \<open>Deletion\<close>

definition clear_feature :: "FEATURE \<Rightarrow> FEATURE" where
  "clear_feature fp = []"

text \<open>The first feature that matches \<open>type\<close> is unlinked.\<close>

fun delete_cfeature :: "FEATURE \<Rightarrow> string \<Rightarrow> FEATURE" where
  "delete_cfeature [] type = []"
| "delete_cfeature (cp # fp) type =
     (if comp_feature cp type then fp else cp # delete_cfeature fp type)"

fun delete_alt_feature :: "FEATURE \<Rightarrow> FEATURE" where
  "delete_alt_feature [] = []"
| "delete_alt_feature (cp # fp) =
     (if starts cp ''ALT-'' then delete_alt_feature fp else cp # delete_alt_feature fp)"

definition delete_cfeature_from_mrphs :: "MRPH_DATA list \<Rightarrow> nat \<Rightarrow> string \<Rightarrow> MRPH_DATA list" where
  "delete_cfeature_from_mrphs ms len type =
     map (\<lambda>(i, m). if i < len then m\<lparr>m_f := delete_cfeature (m_f m) type\<rparr> else m)
       (enumerate 0 ms)"

text \<open>
  Deletion of the temporary features. The loop variable is set to the link of the previous cell
  after each deletion, also when there is no previous cell: \<open>prep\<close> tells whether there is one.
\<close>

fun delete_temp_loop :: "bool \<Rightarrow> FEATURE \<Rightarrow> FEATURE option" where
  "delete_temp_loop prep [] = Some []"
| "delete_temp_loop prep (cp # fp) =
     (if comp_feature cp s_karifuyo
      then (if prep then delete_temp_loop prep fp else None)
      else map_option (Cons cp) (delete_temp_loop True fp))"

definition delete_temp_feature :: "FEATURE \<Rightarrow> FEATURE option" where
  "delete_temp_feature fp = delete_temp_loop False fp"

subsection \<open>Assignment\<close>

definition append_feature :: "FEATURE \<Rightarrow> FEATURE \<Rightarrow> FEATURE" where
  "append_feature fpp afp = fpp @ afp"

definition copy_cfeature :: "FEATURE \<Rightarrow> string \<Rightarrow> FEATURE" where
  "copy_cfeature fpp fname = fpp @ [fname]"

text \<open>
  The name under which a feature is looked up for overwriting: the part before the first colon,
  unless that colon is inside double quotes. The buffer is global and keeps its old content
  \<open>fb\<close> when there is nothing to read before the colon.
\<close>

definition feature_key :: "string \<Rightarrow> string \<Rightarrow> string" where
  "feature_key fb fname =
     (let b = (case scan_until (CHR '':'') fname of None \<Rightarrow> fb | Some (p, _) \<Rightarrow> p)
      in if b \<noteq> fname \<and> odd (length (filter (\<lambda>c. c = CHR 0x22) b)) then fname else b)"

fun overwrite_feature :: "FEATURE \<Rightarrow> string \<Rightarrow> string \<Rightarrow> FEATURE option" where
  "overwrite_feature [] key fname = None"
| "overwrite_feature (cp # fp) key fname =
     (if comp_feature cp key then Some (fname # fp)
      else map_option (Cons cp) (overwrite_feature fp key fname))"

definition assign_cfeature :: "string \<Rightarrow> FEATURE \<Rightarrow> string \<Rightarrow> bool \<Rightarrow> FEATURE" where
  "assign_cfeature fb fp fname temp_assign_flag =
     (case overwrite_feature fp (feature_key fb fname) fname of
        Some fp' \<Rightarrow> fp'
      | None \<Rightarrow> fp @ [if temp_assign_flag then s_karifuyo_c @ fname else fname])"

fun copy_feature :: "string \<Rightarrow> FEATURE \<Rightarrow> FEATURE \<Rightarrow> FEATURE" where
  "copy_feature fb dst [] = dst"
| "copy_feature fb dst (cp # src) =
     copy_feature (feature_key fb cp) (assign_cfeature fb dst cp False) src"

text \<open>Everything from the second colon on is cut.\<close>

definition str_delete_last_column :: "string option \<Rightarrow> string option" where
  "str_delete_last_column str =
     (case str of
        None \<Rightarrow> None
      | Some s \<Rightarrow>
          (case c_strchr s (CHR '':'') of
             None \<Rightarrow> Some s
           | Some cp \<Rightarrow>
               (case c_strchr (tl cp) (CHR '':'') of
                  None \<Rightarrow> Some s
                | Some cp2 \<Rightarrow> Some (take (length s - length cp2) s))))"

subsection \<open>Patterns from strings\<close>

text \<open>
  \<open>a&&b||c\<close> is the pattern \<open>[[a, b], [c]]\<close>: \<open>tok\<close> is the token being read and
  \<open>ands\<close> the finished tokens of the current alternative.
\<close>

fun pattern_loop :: "string \<Rightarrow> FEATURE \<Rightarrow> string \<Rightarrow> FEATURE_PATTERN" where
  "pattern_loop tok ands [] = [ands @ [tok]]"
| "pattern_loop tok ands [c] = [ands @ [tok @ [c]]]"
| "pattern_loop tok ands (c # d # cs) =
     (if c = CHR ''&'' \<and> d = CHR ''&'' then pattern_loop [] (ands @ [tok]) cs
      else if c = CHR ''|'' \<and> d = CHR ''|'' then (ands @ [tok]) # pattern_loop [] [] cs
      else pattern_loop (tok @ [c]) ands (d # cs))"

text \<open>The array of alternatives has \<open>RF_MAX\<close> entries, the last of them for the end mark.\<close>

definition string2feature_pattern :: "string \<Rightarrow> FEATURE_PATTERN option" where
  "string2feature_pattern cp =
     (if cp = [] then Some []
      else let p = pattern_loop [] [] cp in if length p < RF_MAX then Some p else None)"

fun pattern_OLD_loop :: "string \<Rightarrow> string \<Rightarrow> FEATURE_PATTERN" where
  "pattern_OLD_loop tok [] = [[tok]]"
| "pattern_OLD_loop tok (c # cs) =
     (if c = CHR ''|'' then [tok] # pattern_OLD_loop [] cs else pattern_OLD_loop (tok @ [c]) cs)"

definition string2feature_pattern_OLD :: "string option \<Rightarrow> FEATURE_PATTERN option" where
  "string2feature_pattern_OLD cp =
     (case cp of
        None \<Rightarrow> Some []
      | Some s \<Rightarrow>
          if s = [] then Some []
          else let p = pattern_OLD_loop [] s in if length p < RF_MAX then Some p else None)"

subsection \<open>Printing\<close>

datatype express = OPT_TABLE | OPT_OTHER_EXPRESS
datatype display =
  OPT_NORMAL | OPT_DETAIL | OPT_DEBUG | OPT_ENTITY | OPT_SIMPLE | OPT_PARA_DETAIL

definition print_one_feature :: "express \<Rightarrow> string \<Rightarrow> string" where
  "print_one_feature OptExpress cp =
     (let s = (if starts cp s_karifuyo_c then drop (length s_karifuyo_c) cp else cp)
      in if OptExpress = OPT_TABLE then s_zen_lt @ s @ s_zen_gt else ''<'' @ s @ ''>'')"

definition check_important_feature :: "string \<Rightarrow> bool" where
  "check_important_feature cp \<longleftrightarrow>
     comp_feature cp s_yougen \<or> comp_feature cp s_taigen \<or> comp_feature cp s_kakukaiseki \<or>
     comp_feature cp s_jutsugokou \<or> comp_feature cp s_wikipedia_entry \<or>
     comp_feature cp s_ne_nai \<or> comp_feature cp ''NE''"

definition print_feature :: "display \<Rightarrow> express \<Rightarrow> FEATURE \<Rightarrow> string" where
  "print_feature OptDisplay OptExpress fp =
     concat (map (\<lambda>cp. if (OptDisplay = OPT_SIMPLE \<and> check_important_feature cp) \<or>
                          (OptDisplay \<noteq> OPT_SIMPLE \<and> \<not> starts cp s_T_zen) \<or>
                          OptDisplay = OPT_DEBUG
                       then print_one_feature OptExpress cp else []) fp)"

definition print_some_feature :: "express \<Rightarrow> FEATURE \<Rightarrow> string" where
  "print_some_feature OptExpress fp =
     concat (map (\<lambda>cp. if check_important_feature cp then print_one_feature OptExpress cp else []) fp)"

fun print_feature2_loop :: "FEATURE \<Rightarrow> string" where
  "print_feature2_loop [] = []"
| "print_feature2_loop (cp # fp) =
     (if \<not> starts cp s_T_zen then cp @ (if fp \<noteq> [] then '' '' else []) else [])
     @ print_feature2_loop fp"

definition print_feature2 :: "FEATURE \<Rightarrow> string" where
  "print_feature2 fp = (if fp \<noteq> [] then ''('' @ print_feature2_loop fp @ '')'' else ''NIL'')"

text \<open>The part of speech of a Chinese word: the first of the tags that is a feature of it.\<close>

definition chi_tags :: "string list" where
  "chi_tags =
     [''AD'', ''AS'', ''BA'', ''CC'', ''CD'', ''CS'', ''DEC'', ''DEG'', ''DER'', ''DEV'', ''DT'',
      ''ETC'', ''FW'', ''IJ'', ''JJ'', ''LB'', ''LC'', ''M'', ''MSP'', ''NN'', ''NR'', ''NT'',
      ''OD'', ''ON'', ''P'', ''PN'', ''PU'', ''SB'', ''SP'', ''VV'', ''VA'', ''VC'', ''VE'']"

definition get_feature_for_chi :: "FEATURE \<Rightarrow> string" where
  "get_feature_for_chi f =
     (case find (\<lambda>t. has_feature f t) chi_tags of Some t \<Rightarrow> t | None \<Rightarrow> '''')"

section \<open>Names and the interface of a feature list\<close>

text \<open>
  The name of a feature is the part before its first colon. A feature is \<open>plain\<close> when
  assignment files it under its name: it has one, and the first colon is not inside quotes.
\<close>

definition fname_of :: "string \<Rightarrow> string" where
  "fname_of f = takeWhile (\<lambda>c. c \<noteq> CHR '':'') f"

definition plain :: "string \<Rightarrow> bool" where
  "plain f \<longleftrightarrow> fname_of f \<noteq> [] \<and>
     (fname_of f = f \<or> even (length (filter (\<lambda>c. c = CHR 0x22) (fname_of f))))"

definition is_name :: "string \<Rightarrow> bool" where
  "is_name p \<longleftrightarrow> CHR '':'' \<notin> set p"

definition names_distinct :: "FEATURE \<Rightarrow> bool" where
  "names_distinct fp \<longleftrightarrow> distinct (map fname_of fp)"

text \<open>What the rest of the program relies on: features behave as a map from names to features.\<close>

locale feature_map =
  fixes lookup :: "'m \<Rightarrow> string \<Rightarrow> string option"
    and assign :: "'m \<Rightarrow> string \<Rightarrow> 'm"
    and delete :: "'m \<Rightarrow> string \<Rightarrow> 'm"
    and invar :: "'m \<Rightarrow> bool"
  assumes lookup_assign:
      "plain f \<Longrightarrow> is_name p \<Longrightarrow>
       lookup (assign m f) p = (if p = fname_of f then Some f else lookup m p)"
    and lookup_delete:
      "invar m \<Longrightarrow> is_name p \<Longrightarrow> is_name q \<Longrightarrow>
       lookup (delete m q) p = (if p = q then None else lookup m p)"
    and invar_assign: "plain f \<Longrightarrow> invar m \<Longrightarrow> invar (assign m f)"
    and invar_delete: "invar m \<Longrightarrow> invar (delete m q)"
begin

text \<open>After a sequence of assignments a name has the last feature assigned to it.\<close>

lemma lookup_fold_assign:
  assumes "list_all plain fs" and "is_name p"
  shows "lookup (fold (\<lambda>f m. assign m f) fs m) p =
    (case find (\<lambda>f. fname_of f = p) (rev fs) of Some f \<Rightarrow> Some f | None \<Rightarrow> lookup m p)"
  using assms
proof (induction fs arbitrary: m)
  case (Cons f fs)
  then have "lookup (fold (\<lambda>f m. assign m f) fs (assign m f)) p =
      (case find (\<lambda>f. fname_of f = p) (rev fs) of Some f \<Rightarrow> Some f
       | None \<Rightarrow> lookup (assign m f) p)" by simp
  moreover have "lookup (assign m f) p = (if p = fname_of f then Some f else lookup m p)"
    using Cons.prems by (simp add: lookup_assign)
  ultimately show ?case
    by (auto simp: find_append split: option.splits)
qed simp

lemma invar_fold_assign:
  "list_all plain fs \<Longrightarrow> invar m \<Longrightarrow> invar (fold (\<lambda>f m. assign m f) fs m)"
  by (induction fs arbitrary: m) (auto intro: invar_assign)

lemma lookup_assign_delete:
  "plain f \<Longrightarrow> invar m \<Longrightarrow> is_name p \<Longrightarrow> is_name (fname_of f) \<Longrightarrow>
   lookup (delete (assign m f) (fname_of f)) p = (if p = fname_of f then None else lookup m p)"
  by (simp add: lookup_delete lookup_assign invar_assign)

end

section \<open>Properties\<close>

lemma comp_feature_iff: "comp_feature d p \<longleftrightarrow> d = p \<or> (\<exists>v. d = p @ CHR '':'' # v)"
proof
  assume c: "comp_feature d p"
  show "d = p \<or> (\<exists>v. d = p @ CHR '':'' # v)"
  proof (cases "d = p")
    case False
    with c have s: "starts d p" and a: "char_at d (length p) = Some (CHR '':'')"
      by (auto simp: comp_feature_def split: if_splits)
    then obtain v where v: "d = p @ v" using starts_drop by blast
    with a show ?thesis
      by (cases v) (auto simp: char_at_def split: if_splits)
  qed simp
next
  assume "d = p \<or> (\<exists>v. d = p @ CHR '':'' # v)"
  then show "comp_feature d p" by (auto simp: comp_feature_def)
qed

lemma fname_of_append: "is_name p \<Longrightarrow> fname_of (p @ CHR '':'' # v) = p"
  by (auto simp: fname_of_def is_name_def takeWhile_append)

lemma fname_of_name [simp]: "is_name p \<Longrightarrow> fname_of p = p"
  by (auto simp: fname_of_def is_name_def takeWhile_eq_all_conv)

lemma fname_of_split: "d = fname_of d \<or> (\<exists>v. d = fname_of d @ CHR '':'' # v)"
proof -
  have d: "d = fname_of d @ dropWhile (\<lambda>c. c \<noteq> CHR '':'') d"
    by (simp add: fname_of_def)
  show ?thesis
  proof (cases "dropWhile (\<lambda>c. c \<noteq> CHR '':'') d")
    case (Cons c v)
    then have "c = CHR '':''" by (simp add: dropWhile_eq_Cons_conv)
    with Cons d show ?thesis by metis
  next
    case Nil
    with d show ?thesis by (metis append_Nil2)
  qed
qed

lemma comp_feature_name: "is_name p \<Longrightarrow> comp_feature d p \<longleftrightarrow> fname_of d = p"
  using fname_of_split [of d] by (auto simp: comp_feature_iff fname_of_append)

lemma is_name_fname_of [simp]: "is_name (fname_of f)"
  by (metis (mono_tags, lifting) fname_of_def is_name_def set_takeWhileD)

lemma feature_key_plain: "plain f \<Longrightarrow> feature_key fb f = fname_of f"
  by (auto simp: feature_key_def plain_def scan_until_def fname_of_def Let_def)

lemma check_feature_name:
  "is_name p \<Longrightarrow> check_feature fp p = find (\<lambda>f. fname_of f = p) fp"
  by (induction fp) (auto simp: comp_feature_name)

lemma check_feature_append:
  "check_feature (xs @ ys) p =
     (case check_feature xs p of Some f \<Rightarrow> Some f | None \<Rightarrow> check_feature ys p)"
  by (induction xs) auto

lemma overwrite_feature_None:
  "overwrite_feature fp k f = None \<longleftrightarrow> (\<forall>g \<in> set fp. \<not> comp_feature g k)"
  by (induction fp) auto

text \<open>Overwriting replaces the feature that lookup finds and keeps the others and their order.\<close>

lemma overwrite_feature_Some:
  assumes "overwrite_feature fp (fname_of f) f = Some fp'"
  shows "map fname_of fp' = map fname_of fp"
    and "is_name p \<Longrightarrow>
      check_feature fp' p = (if p = fname_of f then Some f else check_feature fp p)"
  using assms
  by (induction fp arbitrary: fp') (auto simp: comp_feature_name split: if_splits)

lemma check_feature_absent:
  "is_name p \<Longrightarrow> check_feature fp p = None \<longleftrightarrow> p \<notin> fname_of ` set fp"
  by (induction fp) (auto simp: comp_feature_name)

lemma check_assign:
  assumes f: "plain f" and p: "is_name p"
  shows "check_feature (assign_cfeature fb fp f False) p =
    (if p = fname_of f then Some f else check_feature fp p)"
proof (cases "overwrite_feature fp (fname_of f) f")
  case None
  then have "check_feature fp (fname_of f) = None"
    by (auto simp: overwrite_feature_None comp_feature_name check_feature_absent)
  then show ?thesis using f p None
    by (auto simp: assign_cfeature_def feature_key_plain check_feature_append comp_feature_name
        split: option.splits)
next
  case (Some fp')
  then show ?thesis using f p overwrite_feature_Some(2) [OF Some, of p]
    by (simp add: assign_cfeature_def feature_key_plain)
qed

lemma names_distinct_assign:
  assumes "plain f" "names_distinct fp"
  shows "names_distinct (assign_cfeature fb fp f False)"
proof (cases "overwrite_feature fp (fname_of f) f")
  case None
  then have "fname_of f \<notin> fname_of ` set fp"
    by (auto simp: overwrite_feature_None comp_feature_name)
  then show ?thesis using None assms
    by (simp add: assign_cfeature_def feature_key_plain names_distinct_def)
next
  case (Some fp')
  then show ?thesis using assms overwrite_feature_Some [OF Some]
    by (simp add: assign_cfeature_def feature_key_plain names_distinct_def)
qed

lemma delete_cfeature_subset: "set (delete_cfeature fp q) \<subseteq> set fp"
  by (induction fp) auto

lemma names_distinct_delete: "names_distinct fp \<Longrightarrow> names_distinct (delete_cfeature fp q)"
proof (induction fp)
  case (Cons a fp)
  then show ?case using delete_cfeature_subset [of fp q]
    by (auto simp: names_distinct_def)
qed simp

lemma check_delete:
  "names_distinct fp \<Longrightarrow> is_name p \<Longrightarrow> is_name q \<Longrightarrow>
   check_feature (delete_cfeature fp q) p = (if p = q then None else check_feature fp p)"
  by (induction fp)
    (auto simp: names_distinct_def comp_feature_name check_feature_absent)

interpretation fs: feature_map check_feature "\<lambda>m f. assign_cfeature fb m f False"
  delete_cfeature names_distinct for fb
  by unfold_locales
    (simp_all add: check_assign check_delete names_distinct_assign names_distinct_delete)

lemma copy_feature_fold:
  "list_all plain src \<Longrightarrow>
   copy_feature fb dst src = fold (\<lambda>f m. assign_cfeature fb' m f False) src dst"
  by (induction src arbitrary: fb dst) (simp_all add: assign_cfeature_def feature_key_plain)

lemma delete_temp_loop_True:
  "delete_temp_loop True fp = Some (filter (\<lambda>f. \<not> comp_feature f s_karifuyo) fp)"
  by (induction fp) auto

text \<open>The tokens that survive \<open>&&\<close> and \<open>||\<close> as separators, and the printed pattern.\<close>

fun clean_token :: "string \<Rightarrow> bool" where
  "clean_token [] = True"
| "clean_token [c] = (c \<noteq> CHR ''&'' \<and> c \<noteq> CHR ''|'')"
| "clean_token (c # d # cs) =
     (\<not> (c = CHR ''&'' \<and> d = CHR ''&'') \<and> \<not> (c = CHR ''|'' \<and> d = CHR ''|'') \<and> clean_token (d # cs))"

fun join_with :: "string \<Rightarrow> string list \<Rightarrow> string" where
  "join_with sep [] = []"
| "join_with sep [t] = t"
| "join_with sep (t # u # ts) = t @ sep @ join_with sep (u # ts)"

definition pattern_string :: "FEATURE_PATTERN \<Rightarrow> string" where
  "pattern_string fp = join_with ''||'' (map (join_with ''&&'') fp)"

lemma pattern_loop_token:
  "clean_token t \<Longrightarrow> pattern_loop tok ands (t @ cs) = pattern_loop (tok @ t) ands cs"
proof (induction t arbitrary: tok rule: clean_token.induct)
  case (2 c)
  then show ?case by (cases cs) auto
qed auto

lemma pattern_loop_sep [simp]:
  "pattern_loop tok ands (CHR ''&'' # CHR ''&'' # cs) = pattern_loop [] (ands @ [tok]) cs"
  "pattern_loop tok ands (CHR ''|'' # CHR ''|'' # cs) = (ands @ [tok]) # pattern_loop [] [] cs"
  by simp_all

lemma pattern_loop_ands:
  assumes "ts \<noteq> []" and "list_all clean_token ts"
  shows "pattern_loop [] ands (join_with ''&&'' ts) = [ands @ ts]"
    and "pattern_loop [] ands (join_with ''&&'' ts @ CHR ''|'' # CHR ''|'' # cs) =
      (ands @ ts) # pattern_loop [] [] cs"
  using assms
  by (induction "''&&''" ts arbitrary: ands rule: join_with.induct)
    (simp_all add: pattern_loop_token pattern_loop_token [where cs = "[]", simplified])

lemma pattern_loop_string:
  "fp \<noteq> [] \<Longrightarrow> \<forall>ts \<in> set fp. ts \<noteq> [] \<and> list_all clean_token ts \<Longrightarrow>
   pattern_loop [] [] (pattern_string fp) = fp"
proof (induction fp rule: induct_list012)
  case (3 a b fp)
  then show ?case by (simp add: pattern_string_def pattern_loop_ands)
qed (simp_all add: pattern_string_def pattern_loop_ands)

section \<open>What the components rely on\<close>



text \<open>
  Copying a feature list onto another one: each name then has the last feature that the source
  holds for it and otherwise the feature of the destination, and a destination with at most one
  feature per name stays so.
\<close>

theorem copy_feature_merges:
  assumes "list_all plain src" and "is_name p"
  shows "check_feature (copy_feature fb dst src) p =
      (case find (\<lambda>f. fname_of f = p) (rev src) of Some f \<Rightarrow> Some f | None \<Rightarrow> check_feature dst p)
    \<and> (names_distinct dst \<longrightarrow> names_distinct (copy_feature fb dst src))"
proof -
  have "copy_feature fb dst src = fold (\<lambda>f m. assign_cfeature fb m f False) src dst"
    using assms(1) by (rule copy_feature_fold)
  then show ?thesis
    using fs.lookup_fold_assign [OF assms] fs.invar_fold_assign [OF assms(1)] by simp
qed

theorem copy_feature_merges_witness:
  "check_feature (copy_feature [] [''ab:1'', ''cd''] [''ab:2'', ''ef'', ''ab:3'']) ''ab'' = Some ''ab:3''
   \<and> names_distinct (copy_feature [] [''ab:1'', ''cd''] [''ab:2'', ''ef'', ''ab:3''])"
  using copy_feature_merges
      [of "[''ab:2'', ''ef'', ''ab:3'']" "''ab''" "[]" "[''ab:1'', ''cd'']"]
  by (simp add: plain_def is_name_def fname_of_def names_distinct_def)

text \<open>
  Deletion by name removes exactly the features of that name from a list with distinct names.
\<close>

theorem check_feature_delete_cfeature:
  assumes "names_distinct fp" and "is_name p" and "is_name q"
  shows "check_feature (delete_cfeature fp q) p = (if p = q then None else check_feature fp p)
    \<and> names_distinct (delete_cfeature fp q)"
  using fs.lookup_delete [OF assms] fs.invar_delete [OF assms(1)] by simp

theorem check_feature_delete_cfeature_witness:
  "check_feature (delete_cfeature [''ab:1'', ''cd''] ''ab'') ''ab'' = None \<and>
   names_distinct (delete_cfeature [''ab:1'', ''cd''] ''ab'')"
  using check_feature_delete_cfeature [of "[''ab:1'', ''cd'']" "''ab''" "''ab''"]
  by (simp add: names_distinct_def is_name_def fname_of_def)

lemma delete_temp_feature_filter:
  "fp = [] \<or> \<not> comp_feature (hd fp) s_karifuyo \<Longrightarrow>
   delete_temp_feature fp = Some (filter (\<lambda>f. \<not> comp_feature f s_karifuyo) fp)"
  by (cases fp) (simp_all add: delete_temp_feature_def delete_temp_loop_True)

text \<open>
  The deletion of temporary features reads through a null pointer exactly when the first
  feature of the list is temporary; otherwise it removes all temporary features and nothing else.
\<close>

theorem delete_temp_feature_spec:
  "delete_temp_feature fp =
     (if fp \<noteq> [] \<and> comp_feature (hd fp) s_karifuyo then None
      else Some (filter (\<lambda>f. \<not> comp_feature f s_karifuyo) fp))"
  by (cases fp) (simp_all add: delete_temp_feature_def delete_temp_loop_True)

text \<open>
  A temporary assignment is undone by the deletion of temporary features, provided the list is
  not empty, holds no temporary feature and no feature of the same name.
\<close>

theorem temp_assign_then_delete:
  assumes "plain f" and "check_feature fp (fname_of f) = None" and "fp \<noteq> []"
    and "\<forall>g \<in> set fp. \<not> comp_feature g s_karifuyo"
  shows "delete_temp_feature (assign_cfeature fb fp f True) = Some fp"
proof -
  have "overwrite_feature fp (fname_of f) f = None"
    using assms(2)
    by (simp add: overwrite_feature_None check_feature_absent comp_feature_name) (metis imageI)
  then have "assign_cfeature fb fp f True = fp @ [s_karifuyo_c @ f]"
    using assms(1) by (simp add: assign_cfeature_def feature_key_plain)
  moreover have "comp_feature (s_karifuyo_c @ f) s_karifuyo"
    by (simp add: comp_feature_iff lit)
  ultimately show ?thesis
    using assms(3,4) by (simp add: delete_temp_feature_filter)
qed

theorem temp_assign_then_delete_witness:
  "delete_temp_feature (assign_cfeature [] [''ab''] ''cd:1'' True) = Some [''ab'']"
  using temp_assign_then_delete [of "''cd:1''" "[''ab'']" "[]"]
  by (simp add: plain_def fname_of_def comp_feature_def starts_def char_at_def lit)

text \<open>
  C39. Parsing a printed pattern gives the pattern back, for at most fifteen alternatives whose
  tokens do not contain the separators.
\<close>

theorem string2feature_pattern_roundtrip:
  assumes "\<forall>ts \<in> set fp. ts \<noteq> [] \<and> list_all clean_token ts" and "length fp < RF_MAX"
    and "fp = [] \<or> pattern_string fp \<noteq> []"
  shows "string2feature_pattern (pattern_string fp) = Some fp"
proof (cases "fp = []")
  case True
  then show ?thesis by (simp add: string2feature_pattern_def pattern_string_def)
next
  case False
  then show ?thesis
    using assms pattern_loop_string [OF False assms(1)]
    by (simp add: string2feature_pattern_def Let_def)
qed

theorem string2feature_pattern_roundtrip_witness:
  "string2feature_pattern ''a&&&b||^c'' = Some [[''a'', ''&b''], [''^c'']]"
  using string2feature_pattern_roundtrip [of "[[''a'', ''&b''], [''^c'']]"]
  by (simp add: pattern_string_def RF_MAX_def)

end
