(* ===== verification/Knp_Sem.thy ===== *)
theory Knp_Sem
  imports Knp_Feature
begin

text \<open>
  Semantic codes and the comparisons built on them: the NTT codes of \<open>case_match.c\<close> and
  \<open>lib_sm.c\<close>, the Bunrui Goi Hyo codes of \<open>lib_bgh.c\<close>, the levels of subordinate clauses and
  the string and suffix comparisons of \<open>bnst_compare.c\<close>, case names (\<open>read_rule.c\<close>) and the
  noun-verb mutual information of \<open>nv_mi.c\<close>. Code tables are databases outside the program: the
  lookup functions are fields of the environment \<open>ENV\<close>. A code string is a sequence of blocks of
  \<open>SM_CODE_SIZE\<close> or \<open>BGH_CODE_SIZE\<close> bytes; stepping past its end is undefined behaviour.
\<close>

section \<open>Definitions\<close>

datatype thesaurus = USE_NONE | USE_BGH | USE_NTT
datatype sm_flag = SM_NO_EXPAND_NE | SM_EXPAND_NE | SM_CHECK_FULL

text \<open>Tables, databases and options that the analysis reads and never writes.\<close>

record ENV =
  Thesaurus :: thesaurus
  SM2CODEExist :: bool
  sm2code_db :: "string \<Rightarrow> string option"
  SMP2SMGExist :: bool
  smp2smg_db :: "string \<Rightarrow> string option"
  NV_MI_Exist :: bool
  nv_mi_db :: "string \<Rightarrow> string option"
  Options :: "string list"
  Class_id :: "int \<Rightarrow> int \<Rightarrow> string"
  Form_name :: "int \<Rightarrow> int \<Rightarrow> string option"

text \<open>An environment without databases, for concrete evaluations.\<close>

definition sample_env :: ENV where
  "sample_env =
     \<lparr>Thesaurus = USE_NTT, SM2CODEExist = False, sm2code_db = \<lambda>_. None, SMP2SMGExist = False,
      smp2smg_db = \<lambda>_. None, NV_MI_Exist = False, nv_mi_db = \<lambda>_. None, Options = [],
      Class_id = \<lambda>_ _. [], Form_name = \<lambda>_ _. None\<rparr>"

subsection \<open>NTT codes\<close>

fun comp_sm_loop :: "string \<Rightarrow> string \<Rightarrow> nat list \<Rightarrow> nat option" where
  "comp_sm_loop cpp cpd [] = Some SM_CODE_SIZE"
| "comp_sm_loop cpp cpd (i # is) =
     do { p \<leftarrow> char_at cpp i;
          if p = CHR ''*'' then Some i
          else do { d \<leftarrow> char_at cpd i;
                    if d = CHR ''*'' then Some 0
                    else if p \<noteq> d then Some 0
                    else comp_sm_loop cpp cpd is } }"

definition comp_sm :: "string \<Rightarrow> string \<Rightarrow> nat \<Rightarrow> nat option" where
  "comp_sm cpp cpd start = comp_sm_loop cpp cpd [start..<SM_CODE_SIZE]"

function sm_expand_loop :: "string \<Rightarrow> string \<Rightarrow> nat \<Rightarrow> nat option" where
  "sm_expand_loop cpp cp score =
     (if cp = [] then Some score
      else let cp1 = (if hd cp = CHR ''/'' then tl cp else cp) in
           if length cp1 < SM_CODE_SIZE then None
           else if starts (drop SM_CODE_SIZE cp1) '' side-effect''
           then sm_expand_loop cpp (drop (SM_CODE_SIZE + 12) cp1) score
           else do { current_score \<leftarrow> comp_sm cpp cp1 1;
                     sm_expand_loop cpp (drop SM_CODE_SIZE cp1) (max score current_score) })"
  by pat_completeness auto
termination
  by (relation "measure (\<lambda>(_, cp, _). length cp)")
    (auto simp: SM_CODE_SIZE_def length_greater_0_conv [symmetric] simp del: length_greater_0_conv)

declare sm_expand_loop.simps [simp del]

definition sm_match_score :: "ENV \<Rightarrow> string \<Rightarrow> string \<Rightarrow> sm_flag \<Rightarrow> nat option" where
  "sm_match_score e cpp cpd flag =
     (if flag = SM_CHECK_FULL then comp_sm cpp cpd 0
      else do {
        p0 \<leftarrow> char_at cpp 0; d0 \<leftarrow> char_at cpd 0;
        if p0 = CHR ''x'' then Some (if d0 = CHR ''x'' then SM_CODE_SIZE else 0)
        else if d0 = CHR ''x'' then Some 0
        else if d0 = CHR ''2'' then
          (if flag = SM_EXPAND_NE \<and> p0 \<noteq> CHR ''2'' then
             (if \<not> SMP2SMGExist e then Some 0
              else case smp2smg_db e (take SM_CODE_SIZE cpd) of
                     None \<Rightarrow> Some 0
                   | Some start \<Rightarrow> sm_expand_loop cpp start 0)
           else if flag = SM_NO_EXPAND_NE \<and> p0 = CHR ''2'' then comp_sm cpp cpd 1
           else Some 0)
        else if p0 \<noteq> CHR ''2'' then comp_sm cpp cpd 1
        else Some 0 })"

text \<open>\<^verbatim>\<open>for (i = 0; *(codes+i); i += size)\<close>, until the test succeeds on a block.\<close>

function any_code :: "nat \<Rightarrow> (string \<Rightarrow> bool option) \<Rightarrow> string \<Rightarrow> bool option" where
  "any_code sz test codes =
     (if codes = [] then Some False
      else do { b \<leftarrow> test codes;
                if b then Some True
                else if sz = 0 \<or> length codes < sz then None
                else any_code sz test (drop sz codes) })"
  by pat_completeness auto
termination
  by (relation "measure (\<lambda>(_, _, codes). length codes)") auto

declare any_code.simps [simp del]

definition sm_match_check :: "ENV \<Rightarrow> string \<Rightarrow> string \<Rightarrow> sm_flag \<Rightarrow> bool option" where
  "sm_match_check e pat codes expand =
     any_code SM_CODE_SIZE (\<lambda>c. map_option (\<lambda>s. s > 0) (sm_match_score e pat c expand)) codes"

text \<open>Every code that is not a proper noun is below the target, and there is one.\<close>

function sm_all_loop :: "string \<Rightarrow> bool \<Rightarrow> string \<Rightarrow> bool option" where
  "sm_all_loop target flag p =
     (if p = [] then Some flag
      else let next = (\<lambda>f. if length p < SM_CODE_SIZE then None
                            else sm_all_loop target f (drop SM_CODE_SIZE p)) in
           if hd p = CHR ''2'' then next flag
           else do { s \<leftarrow> comp_sm target p 1; if s = 0 then Some False else next True })"
  by pat_completeness auto
termination
  by (relation "measure (\<lambda>(_, _, p). length p)") (auto simp: SM_CODE_SIZE_def)

declare sm_all_loop.simps [simp del]

definition sm_all_match :: "string \<Rightarrow> string \<Rightarrow> bool option" where
  "sm_all_match c target = sm_all_loop target False c"

text \<open>
  The code of a semantic attribute. The result buffer \<open>cont_str\<close> is static and keeps its old
  content where the code stores nothing.
\<close>

definition ne_code :: "string \<Rightarrow> char option" where
  "ne_code cp =
     (if starts cp ''ORGANIZATION'' then Some (CHR ''1'')
      else if starts cp ''PERSON'' then Some (CHR ''2'')
      else if starts cp ''LOCATION'' then Some (CHR ''3'')
      else if starts cp ''ARTIFACT'' then Some (CHR ''4'')
      else if starts cp ''DATE'' then Some (CHR ''5'')
      else if starts cp ''TIME'' then Some (CHR ''6'')
      else if starts cp ''MONEY'' then Some (CHR ''7'')
      else if starts cp ''PERCENT'' then Some (CHR ''8'')
      else None)"

definition sm2code :: "ENV \<Rightarrow> string \<Rightarrow> string \<Rightarrow> string" where
  "sm2code e cont_str cp =
     (if \<not> SM2CODEExist e then []
      else case sm2code_db e cp of
        Some code \<Rightarrow> code
      | None \<Rightarrow>
          (case Thesaurus e of
             USE_NTT \<Rightarrow>
               (case ne_code cp of
                  Some c \<Rightarrow> ''ne'' @ [c] @ replicate (SM_CODE_SIZE - 3) (CHR ''*'')
                | None \<Rightarrow> cont_str)
           | USE_BGH \<Rightarrow>
               (case ne_code cp of
                  Some c \<Rightarrow> ''ne'' @ [c] @ replicate (BGH_CODE_SIZE - 3) (CHR ''*'')
                | None \<Rightarrow> cont_str)
           | USE_NONE \<Rightarrow> []))"

subsection \<open>Bunrui Goi Hyo codes\<close>

text \<open>\<^verbatim>\<open>for (i = ...; c1[i] == c2[i] && i < n; i++)\<close>, counting the indices that score.\<close>

function bgh_point_loop :: "string \<Rightarrow> string \<Rightarrow> nat \<Rightarrow> nat \<Rightarrow> nat \<Rightarrow> nat option" where
  "bgh_point_loop c1 c2 n i point =
     do { x \<leftarrow> char_at c1 i; y \<leftarrow> char_at c2 i;
          if x = y \<and> i < n
          then bgh_point_loop c1 c2 n (i + 1)
                 (if n = BGH_CODE_SIZE \<and> (i = 5 \<or> i = 7 \<or> i = 8 \<or> i = 9) then point else point + 1)
          else Some point }"
  by pat_completeness auto
termination
  by (relation "measure (\<lambda>(_, _, n, i, _). n - i)") auto

declare bgh_point_loop.simps [simp del]

definition bgh_code_match :: "string \<Rightarrow> string \<Rightarrow> nat option" where
  "bgh_code_match c1 c2 =
     do { a0 \<leftarrow> char_at c1 0; b0 \<leftarrow> char_at c2 0;
          if a0 = CHR ''s'' \<or> b0 = CHR ''s'' then Some 0
          else if a0 = b0 then bgh_point_loop c1 c2 BGH_CODE_SIZE 1 1
          else if a0 \<noteq> CHR ''4'' \<and> b0 \<noteq> CHR ''4''
          then do { a1 \<leftarrow> char_at c1 1; b1 \<leftarrow> char_at c2 1;
                    if a1 = b1 then bgh_point_loop c1 c2 4 2 2 else Some 0 }
          else Some 0 }"

definition bgh_code_match_for_case :: "string \<Rightarrow> string \<Rightarrow> nat option" where
  "bgh_code_match_for_case cp1 cp2 =
     (if starts cp1 ''11960'' \<or> starts cp2 ''11960'' then Some 0
      else do { match \<leftarrow> bgh_code_match cp1 cp2;
                if (starts cp1 ''12000'' \<or> starts cp2 ''12000'') \<and> match > 3 then Some 3
                else Some match })"

fun comp_bgh_loop :: "string \<Rightarrow> string \<Rightarrow> nat list \<Rightarrow> nat option" where
  "comp_bgh_loop cpp cpd [] = Some BGH_CODE_SIZE"
| "comp_bgh_loop cpp cpd (i # is) =
     do { p \<leftarrow> char_at cpp i;
          if p = CHR ''*'' then Some i
          else do { d \<leftarrow> char_at cpd i;
                    if p \<noteq> d then Some 0 else comp_bgh_loop cpp cpd is } }"

definition comp_bgh :: "string \<Rightarrow> string \<Rightarrow> nat option" where
  "comp_bgh cpp cpd =
     do { p0 \<leftarrow> char_at cpp 0; d0 \<leftarrow> char_at cpd 0;
          if p0 = d0 then comp_bgh_loop cpp cpd [1..<BGH_CODE_SIZE]
          else if p0 \<noteq> CHR ''4'' \<and> d0 \<noteq> CHR ''4''
          then do { p1 \<leftarrow> char_at cpp 1; d1 \<leftarrow> char_at cpd 1;
                    if p1 = d1 then comp_bgh_loop cpp cpd [2..<4] else Some 0 }
          else Some 0 }"

definition bgh_match_check :: "string \<Rightarrow> string \<Rightarrow> bool option" where
  "bgh_match_check pat codes =
     any_code BGH_CODE_SIZE (\<lambda>c. map_option (\<lambda>s. s > 0) (comp_bgh pat c)) codes"

definition sms_match :: "ENV \<Rightarrow> string \<Rightarrow> string \<Rightarrow> sm_flag \<Rightarrow> bool option" where
  "sms_match e cpp cpd expand =
     (case Thesaurus e of
        USE_BGH \<Rightarrow> bgh_match_check cpp cpd
      | USE_NTT \<Rightarrow> sm_match_check e cpp cpd expand
      | USE_NONE \<Rightarrow> Some False)"

text \<open>The best match of two code strings: the block lists and the maximum over all pairs.\<close>

function blocks :: "nat \<Rightarrow> string \<Rightarrow> string list option" where
  "blocks sz codes =
     (if codes = [] then Some []
      else if sz = 0 \<or> length codes < sz then None
      else map_option (Cons codes) (blocks sz (drop sz codes)))"
  by pat_completeness auto
termination
  by (relation "measure (\<lambda>(_, codes). length codes)") auto

declare blocks.simps [simp del]

fun max_point_loop :: "(string \<times> string) list \<Rightarrow> nat \<Rightarrow> nat option" where
  "max_point_loop [] mx = Some mx"
| "max_point_loop ((c1, c2) # ps) mx =
     do { point \<leftarrow> bgh_code_match c1 c2; max_point_loop ps (if mx < point then point else mx) }"

definition bgh_match :: "NODE \<Rightarrow> NODE \<Rightarrow> int option" where
  "bgh_match ptr1 ptr2 =
     (if n_BGH_code ptr1 = [] \<or> n_BGH_code ptr2 = [] then Some (-1)
      else do { b1 \<leftarrow> blocks BGH_CODE_SIZE (n_BGH_code ptr1);
                b2 \<leftarrow> blocks BGH_CODE_SIZE (n_BGH_code ptr2);
                mx \<leftarrow> max_point_loop (List.product b1 b2) 0;
                Some (max (int mx - 2) 0) })"

subsection \<open>Levels of subordinate clauses\<close>

definition level_num :: "string \<Rightarrow> int option" where
  "level_num cp =
     (if cp = ''A-'' then Some 1
      else if cp = ''A'' then Some 2
      else if cp = ''B-'' then Some 3
      else if cp = ''B'' then Some 4
      else if cp = ''B+'' then Some 5
      else if cp = ''C'' then Some 6
      else None)"

text \<open>An unknown level leaves the variable uninitialised.\<close>

definition levelcmp :: "string \<Rightarrow> string \<Rightarrow> int option" where
  "levelcmp cp1 cp2 =
     do { level1 \<leftarrow> level_num cp1; level2 \<leftarrow> level_num cp2; Some (level1 - level2) }"

text \<open>\<^verbatim>\<open>cp + strlen(p)\<close> into a string that may be shorter.\<close>

definition after :: "string \<Rightarrow> string \<Rightarrow> string option" where
  "after cp p = (if length p \<le> length cp then Some (drop (length p) cp) else None)"

definition subordinate_level_comp :: "FEATURE \<Rightarrow> FEATURE \<Rightarrow> bool option" where
  "subordinate_level_comp f1 f2 =
     (case check_feature f1 s_level of
        None \<Rightarrow> Some True
      | Some level1 \<Rightarrow>
          (case check_feature f2 s_level of
             None \<Rightarrow> Some False
           | Some level2 \<Rightarrow>
               do { l1 \<leftarrow> after level1 s_level_c; l2 \<leftarrow> after level2 s_level_c;
                    c \<leftarrow> levelcmp l1 l2; Some (c \<le> 0) }))"

definition subordinate_level_check :: "string \<Rightarrow> FEATURE \<Rightarrow> bool option" where
  "subordinate_level_check cp f =
     (case check_feature f s_level of
        None \<Rightarrow> Some False
      | Some level2 \<Rightarrow>
          do { l2 \<leftarrow> after level2 s_level_c; c \<leftarrow> levelcmp cp l2; Some (c \<le> 0) })"

subsection \<open>Case names\<close>

definition Case_name :: "string list" where
  "Case_name = [s_ga, s_wo, s_ni, s_de, s_kara, s_to, s_yori, s_he, s_made, s_no, s_ga2]"

fun case2num_loop :: "string \<Rightarrow> int \<Rightarrow> string list \<Rightarrow> int" where
  "case2num_loop cp i [] = -1"
| "case2num_loop cp i (c # cs) = (if cp = c then i else case2num_loop cp (i + 1) cs)"

definition case2num :: "string \<Rightarrow> int" where
  "case2num cp = case2num_loop cp 0 Case_name"

subsection \<open>Strings and suffixes\<close>

fun common_length :: "string \<Rightarrow> string \<Rightarrow> nat" where
  "common_length (x # xs) (y # ys) = (if x = y then Suc (common_length xs ys) else 0)"
| "common_length _ _ = 0"

definition str_part_cmp :: "string \<Rightarrow> string \<Rightarrow> nat" where
  "str_part_cmp c1 c2 =
     (let pre = common_length c1 c2; post = common_length (rev c1) (rev c2);
          match = (if pre > post then pre else post)
      in 2 * (match - match mod BYTES4CHAR) div BYTES4CHAR)"

definition node_mrphs :: "SENTENCE_DATA \<Rightarrow> ('a NODE_scheme) \<Rightarrow> MRPH_DATA list" where
  "node_mrphs sp n = take (n_mrph_num n) (drop (n_mrph_ptr n) (mrph_data sp))"

fun check_fuzoku_loop :: "(MRPH_DATA \<Rightarrow> bool) \<Rightarrow> MRPH_DATA list \<Rightarrow> bool" where
  "check_fuzoku_loop P [] = False"
| "check_fuzoku_loop P (m # ms) =
     (if has_feature (m_f m) s_fuzoku then (if P m then True else check_fuzoku_loop P ms) else False)"

definition mrph_cond :: "int \<Rightarrow> int \<Rightarrow> (string \<Rightarrow> bool) \<Rightarrow> MRPH_DATA \<Rightarrow> bool" where
  "mrph_cond Hinshi Bunrui goi m \<longleftrightarrow>
     (Hinshi = 0 \<or> Hinshi = m_Hinshi m) \<and> (Bunrui = 0 \<or> Bunrui = m_Bunrui m) \<and> goi (m_Goi m)"

definition check_fuzoku :: "SENTENCE_DATA \<Rightarrow> NODE option \<Rightarrow> int \<Rightarrow> int \<Rightarrow> string option \<Rightarrow> bool" where
  "check_fuzoku sp ptr Hinshi Bunrui cp =
     (case ptr of
        None \<Rightarrow> False
      | Some b \<Rightarrow>
          check_fuzoku_loop (mrph_cond Hinshi Bunrui (\<lambda>g. case cp of None \<Rightarrow> True | Some c \<Rightarrow> g = c))
            (rev (node_mrphs sp b)))"

definition check_fuzoku_substr ::
  "SENTENCE_DATA \<Rightarrow> NODE option \<Rightarrow> int \<Rightarrow> int \<Rightarrow> string option \<Rightarrow> bool" where
  "check_fuzoku_substr sp ptr Hinshi Bunrui cp =
     (case ptr of
        None \<Rightarrow> False
      | Some b \<Rightarrow>
          check_fuzoku_loop
            (mrph_cond Hinshi Bunrui (\<lambda>g. case cp of None \<Rightarrow> True | Some c \<Rightarrow> c_strstr g c \<noteq> None))
            (rev (node_mrphs sp b)))"

definition check_bnst_substr ::
  "SENTENCE_DATA \<Rightarrow> NODE option \<Rightarrow> int \<Rightarrow> int \<Rightarrow> string option \<Rightarrow> bool" where
  "check_bnst_substr sp ptr Hinshi Bunrui cp =
     (case ptr of
        None \<Rightarrow> False
      | Some b \<Rightarrow>
          list_ex
            (mrph_cond Hinshi Bunrui (\<lambda>g. case cp of None \<Rightarrow> True | Some c \<Rightarrow> c_strstr g c \<noteq> None))
            (node_mrphs sp b))"

definition jiritu_fuzoku_check :: "SENTENCE_DATA \<Rightarrow> NODE \<Rightarrow> NODE \<Rightarrow> string \<Rightarrow> bool option" where
  "jiritu_fuzoku_check sp ptr1 ptr2 cp =
     do { h1 \<leftarrow> n_head_ptr ptr1; m1 \<leftarrow> at (mrph_data sp) h1;
          if m_Goi m1 = cp \<and> check_fuzoku sp (Some ptr2) 0 0 (Some cp) then Some True
          else do { h2 \<leftarrow> n_head_ptr ptr2; m2 \<leftarrow> at (mrph_data sp) h2;
                    Some (m_Goi m2 = cp \<and> check_fuzoku sp (Some ptr1) 0 0 (Some cp)) } }"

subsection \<open>Noun-verb mutual information\<close>

text \<open>The representative notation of a morpheme; the inner \<open>None\<close> is the null pointer.\<close>

definition get_mrph_rep_from_f :: "MRPH_DATA \<Rightarrow> bool \<Rightarrow> string option option" where
  "get_mrph_rep_from_f m flag =
     (case (if flag then check_feature (m_f m) s_daihyo_henkou else None) of
        Some cp \<Rightarrow> map_option Some (after cp (s_daihyo_henkou @ '':''))
      | None \<Rightarrow>
          (case check_feature (m_f m) s_daihyo of
             Some cp \<Rightarrow> map_option Some (after cp (s_daihyo @ '':''))
           | None \<Rightarrow> Some None))"

text \<open>\<^verbatim>\<open>strtok\<close> with the delimiter \<open>c\<close>: the non-empty pieces.\<close>

fun c_tokens_loop :: "char \<Rightarrow> string \<Rightarrow> string \<Rightarrow> string list" where
  "c_tokens_loop c tok [] = (if tok = [] then [] else [tok])"
| "c_tokens_loop c tok (x # xs) =
     (if x = c then (if tok = [] then [] else [tok]) @ c_tokens_loop c [] xs
      else c_tokens_loop c (tok @ [x]) xs)"

text \<open>Whether \<^verbatim>\<open>%f\<close> reads a number: a sign, then digits, a point and a digit, or inf or nan.\<close>

definition lower :: "char \<Rightarrow> char" where
  "lower c = (if 65 \<le> (of_char c :: nat) \<and> (of_char c :: nat) \<le> 90
              then char_of ((of_char c :: nat) + 32) else c)"

definition scans_float :: "string \<Rightarrow> bool" where
  "scans_float s =
     (let t = dropWhile is_blank s;
          u = (if t \<noteq> [] \<and> (hd t = CHR ''-'' \<or> hd t = CHR ''+'') then tl t else t)
      in case u of
           [] \<Rightarrow> False
         | c # r \<Rightarrow>
             is_digit c \<or> (c = CHR ''.'' \<and> r \<noteq> [] \<and> is_digit (hd r)) \<or>
             starts (map lower u) ''inf'' \<or> starts (map lower u) ''nan'')"

definition scan_rank :: "string \<Rightarrow> int option" where
  "scan_rank token =
     do { (_, r1) \<leftarrow> scan_until (CHR '','') token;
          if r1 = [] then None
          else do { (rank, r2) \<leftarrow> scan_int (tl r1);
                    if r2 \<noteq> [] \<and> hd r2 = CHR '','' \<and> scans_float (tl r2) then Some rank else None } }"

definition INT_MAX :: int where "INT_MAX = 2147483647"

fun nv_mi_tokens :: "string \<Rightarrow> string list \<Rightarrow> int" where
  "nv_mi_tokens given_verb [] = INT_MAX"
| "nv_mi_tokens given_verb (token # ts) =
     (if starts token given_verb
      then (case scan_rank token of Some rank \<Rightarrow> rank | None \<Rightarrow> INT_MAX)
      else nv_mi_tokens given_verb ts)"

definition check_nv_mi :: "ENV \<Rightarrow> SENTENCE_DATA \<Rightarrow> NODE \<Rightarrow> NODE \<Rightarrow> int option" where
  "check_nv_mi e sp n v =
     (case (NV_MI_Exist e, n_head_ptr n, n_head_ptr v) of
        (True, Some nh, Some vh) \<Rightarrow>
          do { nm \<leftarrow> at (mrph_data sp) nh;
               given_noun \<leftarrow> get_mrph_rep_from_f nm False;
               case given_noun of
                 None \<Rightarrow> Some INT_MAX
               | Some noun \<Rightarrow>
                   (case nv_mi_db e noun of
                      None \<Rightarrow> Some INT_MAX
                    | Some dic_str \<Rightarrow>
                        do { vm \<leftarrow> at (mrph_data sp) vh;
                             given_verb \<leftarrow> get_mrph_rep_from_f vm False;
                             Some (case given_verb of
                                     None \<Rightarrow> INT_MAX
                                   | Some verb \<Rightarrow>
                                       nv_mi_tokens verb (c_tokens_loop (CHR ''|'') [] dic_str)) }) }
      | _ \<Rightarrow> Some INT_MAX)"

fun nv_mi_children :: "ENV \<Rightarrow> SENTENCE_DATA \<Rightarrow> NODE \<Rightarrow> int \<Rightarrow> ptr list \<Rightarrow> bool option" where
  "nv_mi_children e sp v thr [] = Some False"
| "nv_mi_children e sp v thr (c # cs) =
     do { n \<leftarrow> node_at sp c;
          if has_feature (n_f n) s_kaku_youso
          then do { rank \<leftarrow> check_nv_mi e sp n v;
                    if rank < thr then Some True else nv_mi_children e sp v thr cs }
          else nv_mi_children e sp v thr cs }"

definition check_nv_mi_parent_and_children ::
  "ENV \<Rightarrow> SENTENCE_DATA \<Rightarrow> NODE \<Rightarrow> int \<Rightarrow> bool option" where
  "check_nv_mi_parent_and_children e sp v rank_threshold =
     do { b \<leftarrow> nv_mi_children e sp v rank_threshold (n_child v);
          if b then Some True
          else case n_parent v of
                 None \<Rightarrow> Some False
               | Some p \<Rightarrow>
                   if has_feature (n_f v) s_k_renkaku
                   then do { n \<leftarrow> node_at sp p; rank \<leftarrow> check_nv_mi e sp n v;
                             Some (rank < rank_threshold) }
                   else Some False }"

section \<open>Properties\<close>

text \<open>The specified part of a code, from the column \<open>start\<close> to the first asterisk.\<close>

definition stem :: "nat \<Rightarrow> string \<Rightarrow> string" where
  "stem start c = takeWhile (\<lambda>x. x \<noteq> CHR ''*'') (take (SM_CODE_SIZE - start) (drop start c))"

lemma stem_unfold:
  assumes "SM_CODE_SIZE \<le> length c"
  shows "stem i c =
    (if i < SM_CODE_SIZE then (if c ! i = CHR ''*'' then [] else c ! i # stem (Suc i) c) else [])"
proof (cases "i < SM_CODE_SIZE")
  case True
  then have "drop i c = c ! i # drop (Suc i) c"
    using assms by (simp add: Cons_nth_drop_Suc)
  moreover have "SM_CODE_SIZE - i = Suc (SM_CODE_SIZE - Suc i)" using True by simp
  ultimately show ?thesis using True by (simp add: stem_def)
qed (simp add: stem_def)

lemma comp_sm_loop_stem:
  assumes "SM_CODE_SIZE \<le> length cpp" and "SM_CODE_SIZE \<le> length cpd" and "i \<le> SM_CODE_SIZE"
  shows "comp_sm_loop cpp cpd [i..<SM_CODE_SIZE] =
    Some (if prefix (stem i cpp) (stem i cpd) then i + length (stem i cpp) else 0)"
  using assms(3)
proof (induction "SM_CODE_SIZE - i" arbitrary: i)
  case 0
  then show ?case by (simp add: stem_unfold assms)
next
  case (Suc n)
  then have i: "i < SM_CODE_SIZE" by simp
  have "comp_sm_loop cpp cpd [Suc i..<SM_CODE_SIZE] =
    Some (if prefix (stem (Suc i) cpp) (stem (Suc i) cpd) then Suc i + length (stem (Suc i) cpp) else 0)"
    using Suc i by simp
  then show ?case
    using i assms(1,2) stem_unfold [OF assms(1), of i] stem_unfold [OF assms(2), of i]
    by (simp add: upt_conv_Cons char_at_def)
qed

text \<open>
  A pattern code matches a data code exactly when the columns it specifies, from the start column
  to its first asterisk, are a prefix of those of the data; the score is the depth of the pattern. So
  matching is the subsumption order of the thesaurus tree.
\<close>

theorem comp_sm_subsumption:
  assumes "SM_CODE_SIZE \<le> length cpp" and "SM_CODE_SIZE \<le> length cpd" and "start \<le> SM_CODE_SIZE"
  shows "comp_sm cpp cpd start =
    Some (if prefix (stem start cpp) (stem start cpd) then start + length (stem start cpp) else 0)"
  unfolding comp_sm_def using assms by (rule comp_sm_loop_stem)

theorem comp_sm_subsumption_witness:
  "comp_sm ''1128********'' ''112847******'' 1 = Some 4 \<and>
   comp_sm ''112847******'' ''1128********'' 1 = Some 0"
  using comp_sm_subsumption [of "''1128********''" "''112847******''" 1]
    comp_sm_subsumption [of "''112847******''" "''1128********''" 1]
  by (simp add: stem_def SM_CODE_SIZE_def)

text \<open>
  The comparison of subordinate levels is transitive, including clauses without a level, which
  may depend on anything and on which no clause with a level may depend.
\<close>

theorem subordinate_level_comp_trans:
  assumes "subordinate_level_comp f g = Some True" and "subordinate_level_comp g h = Some True"
  shows "subordinate_level_comp f h = Some True"
  using assms
  by (auto simp: subordinate_level_comp_def levelcmp_def bind_eq_Some_conv split: option.splits)

theorem subordinate_level_comp_trans_witness:
  "subordinate_level_comp [s_level_c @ ''A-''] [s_level_c @ ''C''] = Some True"
proof -
  have "subordinate_level_comp [s_level_c @ ''A-''] [s_level_c @ ''B+''] = Some True"
    and "subordinate_level_comp [s_level_c @ ''B+''] [s_level_c @ ''C''] = Some True"
    by code_simp+
  then show ?thesis by (rule subordinate_level_comp_trans)
qed

lemma case2num_loop_range:
  "case2num_loop cp i cs = -1 \<or>
   (i \<le> case2num_loop cp i cs \<and> case2num_loop cp i cs < i + int (length cs))"
proof (induction cs arbitrary: i)
  case (Cons c cs)
  from Cons.IH [of "i + 1"] show ?case by auto
qed simp

lemma case2num_range: "case2num cp = -1 \<or> (0 \<le> case2num cp \<and> case2num cp < int SCASE_CODE_SIZE)"
  using case2num_loop_range [of cp 0 Case_name]
  by (simp add: case2num_def Case_name_def SCASE_CODE_SIZE_def)

end
