(* ===== verification/Knp_Check.thy ===== *)
theory Knp_Check
  imports Knp_Sem
begin

text \<open>
  Feature functions and feature patterns, from \<open>src/system/feature.c\<close>: character types, the
  functions that a pattern calls with \<open>&name:argument\<close> (\<open>check_function\<close>), and the matching
  of a pattern in disjunctive normal form against a feature list. A call may write three things: the
  global \<open>matched_ptr\<close>, the static buffer of \<open>sm2code\<close> and, for \<open>&\<close> with the morpheme
  length, the rule string itself; the model returns all of them, so that a pattern is evaluated with
  the text the earlier evaluations left in it.
\<close>

section \<open>Definitions\<close>

subsection \<open>Character types\<close>

definition TYPE_KATAKANA :: nat where "TYPE_KATAKANA = 1"
definition TYPE_HIRAGANA :: nat where "TYPE_HIRAGANA = 2"
definition TYPE_KANJI :: nat where "TYPE_KANJI = 4"
definition TYPE_SUUJI :: nat where "TYPE_SUUJI = 8"
definition TYPE_EIGO :: nat where "TYPE_EIGO = 16"
definition TYPE_KIGOU :: nat where "TYPE_KIGOU = 32"
definition TYPE_PUNC :: nat where "TYPE_PUNC = 64"

definition check_char_type :: "nat \<Rightarrow> nat" where
  "check_char_type code =
     (if code > 0x303f \<and> code < 0x30a0 then TYPE_HIRAGANA
      else if (code > 0x309f \<and> code < 0x30fb) \<or> code = 0x30fc then TYPE_KATAKANA
      else if (code > 0x2fff \<and> code < 0x3003) \<or> code = 0xff0c \<or> code = 0xff0e then TYPE_PUNC
      else if code > 0xff0f \<and> code < 0xff1a then TYPE_SUUJI
      else if (code > 0xff20 \<and> code < 0xff3b) \<or> (code > 0xff40 \<and> code < 0xff5b) then TYPE_EIGO
      else if (code > 0x4dff \<and> code < 0xa000) \<or> code = 0x3005 then TYPE_KANJI
      else TYPE_KIGOU)"

text \<open>The type of the character at index \<open>i\<close> and the index of the next one.\<close>

definition char_type_at :: "string \<Rightarrow> nat \<Rightarrow> (nat \<times> nat) option" where
  "char_type_at s i =
     do { c0 \<leftarrow> char_at s i;
          let c = (of_char c0 :: nat) in
          if c > 0xfb then Some (0, i + 6)
          else if c > 0xf7 then Some (0, i + 5)
          else if c > 0xef then Some (0, i + 4)
          else if c > 0xdf then
            do { c1 \<leftarrow> char_at s (i + 1); c2 \<leftarrow> char_at s (i + 2);
                 Some (check_char_type
                         (push_bit 12 (c AND 0x0f) + push_bit 6 ((of_char c1 :: nat) AND 0x3f)
                          + ((of_char c2 :: nat) AND 0x3f)), i + 3) }
          else if c > 0x7f then
            do { c1 \<leftarrow> char_at s (i + 1);
                 Some (check_char_type (push_bit 6 (c AND 0x1f) + ((of_char c1 :: nat) AND 0x3f)), i + 2) }
          else Some (check_char_type c, i + 1) }"

lemma char_type_at_step [termination_simp]: "char_type_at s i = Some (t, j) \<Longrightarrow> i < j"
  by (auto simp: char_type_at_def Let_def bind_eq_Some_conv split: if_splits)

function str_type_loop :: "string \<Rightarrow> nat \<Rightarrow> int \<Rightarrow> nat \<Rightarrow> nat \<Rightarrow> bool option" where
  "str_type_loop s allowed_type len precode i =
     (if int i < len then
        (case char_type_at s i of
           None \<Rightarrow> None
         | Some (code, j) \<Rightarrow>
             if allowed_type \<noteq> 0 \<and> code AND allowed_type = 0 then Some False
             else if allowed_type = 0 \<and> precode \<noteq> 0 \<and> precode \<noteq> code then Some False
             else str_type_loop s allowed_type len code j)
      else Some True)"
  by pat_completeness auto
termination
  by (relation "measure (\<lambda>(_, _, len, _, i). nat (len - int i))") (auto dest: char_type_at_step)

declare str_type_loop.simps [simp del]

definition check_str_type :: "string \<Rightarrow> nat \<Rightarrow> int \<Rightarrow> bool option" where
  "check_str_type s allowed_type len =
     str_type_loop s allowed_type (if len = 0 then int (length s) else len) 0 0"

definition check_Bunrui :: "ENV \<Rightarrow> MRPH_DATA \<Rightarrow> string \<Rightarrow> bool \<Rightarrow> bool" where
  "check_Bunrui e mp cls flag =
     (if Class_id e 6 (m_Bunrui mp) = cls then flag
      else if has_feature (m_f mp) (s_hin_ai @ cls) then flag else \<not> flag)"

subsection \<open>Feature functions\<close>

record chk_state =
  matched_ptr :: "ptr option"
  cont_str :: string

text \<open>The truth value, the rule string after the call and the globals after it.\<close>

type_synonym check_result = "(bool \<times> string \<times> chk_state) option"

definition ret :: "string \<Rightarrow> chk_state \<Rightarrow> bool option \<Rightarrow> check_result" where
  "ret rule st b = map_option (\<lambda>v. (v, rule, st)) b"

definition arg_of :: "string \<Rightarrow> string \<Rightarrow> string" where
  "arg_of rule p = drop (length p) rule"

definition deref_mrph :: "SENTENCE_DATA \<Rightarrow> ptr option \<Rightarrow> MRPH_DATA option" where
  "deref_mrph sp p = Option.bind p (mrph_at sp)"

definition deref_node :: "SENTENCE_DATA \<Rightarrow> ptr option \<Rightarrow> NODE option" where
  "deref_node sp p = Option.bind p (node_at sp)"

text \<open>
  Functions on the spelling of a morpheme. The argument \<open>other\<close> of each group is the result of the
  groups after it.
\<close>

definition check_fn_chars ::
  "SENTENCE_DATA \<Rightarrow> string \<Rightarrow> ptr option \<Rightarrow> chk_state \<Rightarrow> check_result \<Rightarrow> check_result" where
  "check_fn_chars sp rule ptr2 st other =
     (let goi2 = map_option m_Goi2 (deref_mrph sp ptr2);
          typed = (\<lambda>t. ret rule st (do { g \<leftarrow> goi2; check_str_type g t 0 })) in
      if rule = s_f_kieisuuka then typed (TYPE_KIGOU OR TYPE_EIGO OR TYPE_SUUJI OR TYPE_KATAKANA)
      else if rule = s_f_kanji then
        ret rule st
          (do { g \<leftarrow> goi2;
                if starts g s_ka_hira \<or> starts g s_ka_kata \<or> starts g s_ka_small
                then (if length g = BYTES4CHAR then Some True
                      else check_str_type (drop BYTES4CHAR g) TYPE_KANJI 0)
                else check_str_type g TYPE_KANJI 0 })
      else if rule = s_f_kanakanji then typed (TYPE_KANJI OR TYPE_HIRAGANA)
      else if rule = s_f_hiragana then typed TYPE_HIRAGANA
      else if rule = s_f_matsubi_hiragana then
        ret rule st
          (do { g \<leftarrow> goi2;
                if length g < BYTES4CHAR then None
                else check_str_type (drop (length g - BYTES4CHAR) g) TYPE_HIRAGANA 0 })
      else if starts rule s_f_matsubi_mojiretsu then
        (let cp = arg_of rule s_f_matsubi_mojiretsu in
         ret rule st
           (do { g \<leftarrow> goi2;
                 if length cp > length g then Some False
                 else Some (drop (length g - length cp) g = cp) }))
      else if rule = s_f_katakana then typed TYPE_KATAKANA
      else if rule = s_f_suuji then typed TYPE_SUUJI
      else if rule = s_f_eikigou then typed (TYPE_EIGO OR TYPE_KIGOU OR TYPE_PUNC)
      else if rule = s_f_kigou then typed (TYPE_KIGOU OR TYPE_PUNC)
      else if rule = s_f_kongou then
        ret rule st (do { g \<leftarrow> goi2; b \<leftarrow> check_str_type g 0 0; Some (\<not> b) })
      else if rule = s_f_ichimoji then ret rule st (do { g \<leftarrow> goi2; Some (length g \<le> BYTES4CHAR) })
      else other)"

text \<open>The code that a semantic function compares with, the buffer after it, and the flag.\<close>

definition sem_arg :: "ENV \<Rightarrow> string \<Rightarrow> chk_state \<Rightarrow> string option \<times> chk_state \<times> sm_flag" where
  "sem_arg e cp st =
     (if cp \<noteq> [] \<and> (of_char (hd cp) :: nat) \<ge> 0x80 then
        (if SM2CODEExist e
         then let code = sm2code e (cont_str st) cp
              in (Some code, st\<lparr>cont_str := code\<rparr>, SM_NO_EXPAND_NE)
         else (None, st, SM_NO_EXPAND_NE))
      else (Some cp, st, SM_CHECK_FULL))"

definition check_fn_sem ::
  "ENV \<Rightarrow> SENTENCE_DATA \<Rightarrow> string \<Rightarrow> ptr option \<Rightarrow> chk_state \<Rightarrow> check_result \<Rightarrow> check_result" where
  "check_fn_sem e sp rule ptr2 st other =
     (if starts rule s_f_category then
        (let cp = arg_of rule s_f_category in
         ret rule st (do { m \<leftarrow> deref_mrph sp ptr2; check_category (m_f m) cp (cp = s_jikan) }))
      else if starts rule s_f_imiso then
        (if Thesaurus e \<noteq> USE_NTT then ret rule st (Some False)
         else do { m \<leftarrow> deref_mrph sp ptr2;
                   case m_SM m of
                     None \<Rightarrow> ret rule st (Some False)
                   | Some SM \<Rightarrow>
                       (let (code, st', flag) = sem_arg e (arg_of rule s_f_imiso) st in
                        case code of
                          None \<Rightarrow> ret rule st' (Some False)
                        | Some cp \<Rightarrow>
                            ret rule st' (any_code SM_CODE_SIZE
                              (\<lambda>c. map_option (\<lambda>s. s \<noteq> 0) (sm_match_score e cp c flag)) SM)) })
      else if starts rule s_f_bunsetsu_imiso then
        (if Thesaurus e \<noteq> USE_NTT \<and> Thesaurus e \<noteq> USE_BGH then ret rule st (Some False)
         else let (code, st', flag) = sem_arg e (arg_of rule s_f_bunsetsu_imiso) st in
              case code of
                None \<Rightarrow> ret rule st' (Some False)
              | Some cp \<Rightarrow>
                  ret rule st' (do { n \<leftarrow> deref_node sp ptr2;
                                     if Thesaurus e = USE_NTT then sm_match_check e cp (n_SM_code n) flag
                                     else bgh_match_check cp (n_BGH_code n) }))
      else if starts rule s_f_bunsetsu_zenimiso then
        (if Thesaurus e \<noteq> USE_NTT \<and> Thesaurus e \<noteq> USE_BGH then ret rule st (Some False)
         else let (code, st', flag) = sem_arg e (arg_of rule s_f_bunsetsu_zenimiso) st in
              case code of
                None \<Rightarrow> ret rule st' (Some False)
              | Some cp \<Rightarrow>
                  ret rule st'
                    (do { n \<leftarrow> deref_node sp ptr2;
                          let codes = (if Thesaurus e = USE_NTT then n_SM_code n else n_BGH_code n) in
                          if codes = [] then Some False else sm_all_match codes cp }))
      else other)"

text \<open>
  Functions on the length and the end of a morpheme. A trailing minus sign of the length, which
  asks for that length or more, is overwritten in the rule.
\<close>

definition check_fn_length ::
  "SENTENCE_DATA \<Rightarrow> string \<Rightarrow> ptr option \<Rightarrow> chk_state \<Rightarrow> check_result \<Rightarrow> check_result" where
  "check_fn_length sp rule ptr2 st other =
     (if starts rule s_f_keitaiso_chou then
        (let cp = arg_of rule s_f_keitaiso_chou;
             flag = (cp \<noteq> [] \<and> last cp = CHR ''-'');
             rule' = (if flag then butlast rule else rule);
             code = c_atoi (if flag then butlast cp else cp) in
         do { m \<leftarrow> deref_mrph sp ptr2;
              let len = int (length (m_Goi2 m)) in
              ret rule' st (Some (len = code * int BYTES4CHAR \<or> (flag \<and> len > code * int BYTES4CHAR))) })
      else if starts rule s_f_suuji_chou then
        (let code = c_atoi (arg_of rule s_f_suuji_chou) * int BYTES4CHAR in
         do { m \<leftarrow> deref_mrph sp ptr2;
              if int (length (m_Goi2 m)) < code then ret rule st (Some False)
              else ret rule st (check_str_type (m_Goi2 m) TYPE_SUUJI code) })
      else if starts rule s_f_keitaiso_matsubi then
        (let cp = arg_of rule s_f_keitaiso_matsubi in
         do { m \<leftarrow> deref_mrph sp ptr2;
              ret rule st (Some (cp \<noteq> [] \<and> length cp \<le> length (m_Goi2 m) \<and>
                                 drop (length (m_Goi2 m) - length cp) (m_Goi2 m) = cp)) })
      else other)"

text \<open>\<^verbatim>\<open>SCASE_code[case2num(cp)]\<close>: an unknown case name indexes the array with -1.\<close>

definition scase_of :: "NODE \<Rightarrow> string \<Rightarrow> bool option" where
  "scase_of n cp =
     (if case2num cp < 0 then None
      else map_option (\<lambda>v. v \<noteq> 0) (at (n_SCASE_code n) (nat (case2num cp))))"

text \<open>
  The descent to the first conjunct of a coordination node; a chain longer than the number of nodes
  is a cycle, on which the loop does not end.
\<close>

fun skip_para :: "nat \<Rightarrow> SENTENCE_DATA \<Rightarrow> ptr option \<Rightarrow> NODE option" where
  "skip_para fuel sp None = None"
| "skip_para 0 sp (Some p) = None"
| "skip_para (Suc fuel) sp (Some p) =
     do { n \<leftarrow> node_at sp p;
          if n_para_top_p n
          then skip_para fuel sp (case n_child n of [] \<Rightarrow> None | c # _ \<Rightarrow> Some c)
          else Some n }"

fun any_child :: "SENTENCE_DATA \<Rightarrow> string \<Rightarrow> ptr list \<Rightarrow> bool option" where
  "any_child sp cp [] = Some False"
| "any_child sp cp (c # cs) =
     do { n \<leftarrow> node_at sp c; if has_feature (n_f n) cp then Some True else any_child sp cp cs }"

definition check_fn_dpnd ::
  "SENTENCE_DATA \<Rightarrow> string \<Rightarrow> FEATURE \<Rightarrow> ptr option \<Rightarrow> ptr option \<Rightarrow> chk_state \<Rightarrow> check_result \<Rightarrow>
   check_result" where
  "check_fn_dpnd sp rule fd ptr1 ptr2 st other =
     (if starts rule s_f_hyousou then
        (let cp = arg_of rule s_f_hyousou in
         if cp = s_shougou then
           do { n1 \<leftarrow> deref_node sp ptr1;
                case check_feature (n_f n1) s_kakari of
                  None \<Rightarrow> ret rule st (Some False)
                | Some k \<Rightarrow>
                    ret rule st (do { c \<leftarrow> after k s_kakari_c; n2 \<leftarrow> deref_node sp ptr2; scase_of n2 c }) }
         else ret rule st (do { n2 \<leftarrow> deref_node sp ptr2; scase_of n2 cp }))
      else if starts rule ''&D:'' then
        (case (ptr1, ptr2) of
           (Some (BnstP i), Some (BnstP j)) \<Rightarrow>
             ret rule st (Some (int j - int i \<le> c_atoi (arg_of rule ''&D:'')))
         | _ \<Rightarrow> None)
      else if rule = s_f_level_kyou then
        ret rule st (do { n1 \<leftarrow> deref_node sp ptr1; n2 \<leftarrow> deref_node sp ptr2;
                          subordinate_level_comp (n_f n1) (n_f n2) })
      else if starts rule s_f_level then
        ret rule st (subordinate_level_check (arg_of rule s_f_level) fd)
      else if starts rule s_f_kakarigawa then
        (let cp = arg_of rule s_f_kakarigawa in
         ret rule st (do { n1 \<leftarrow> deref_node sp ptr1;
                           Some (if cp \<noteq> [] \<and> hd cp = CHR ''^'' then \<not> has_feature (n_f n1) (tl cp)
                                 else has_feature (n_f n1) cp) }))
      else if starts rule s_f_kakarigawa_check then
        ret rule st (do { n \<leftarrow> skip_para (Suc (length (bnst_data sp) + length (tag_data sp))) sp ptr2;
                          any_child sp (arg_of rule s_f_kakarigawa_check) (n_child n) })
      else if starts rule s_f_ukegawa_check then
        ret rule st (do { n2 \<leftarrow> deref_node sp ptr2;
                          case n_parent n2 of
                            None \<Rightarrow> Some False
                          | Some p \<Rightarrow>
                              do { n \<leftarrow> node_at sp p;
                                   Some (has_feature (n_f n) (arg_of rule s_f_ukegawa_check)) } })
      else if starts rule s_f_jiritsugo_icchi then
        ret rule st (do { p1 \<leftarrow> ptr1; p2 \<leftarrow> ptr2; b1 \<leftarrow> bnst_at sp p1; b2 \<leftarrow> bnst_at sp p2;
                          Some (b_Jiritu_Go b1 = b_Jiritu_Go b2) })
      else other)"

definition VOICE_SHIEKI :: int where "VOICE_SHIEKI = 1"
definition VOICE_UKEMI :: int where "VOICE_UKEMI = 2"
definition VOICE_SHIEKI_UKEMI :: int where "VOICE_SHIEKI_UKEMI = 4"

definition check_fn_misc ::
  "ENV \<Rightarrow> SENTENCE_DATA \<Rightarrow> string \<Rightarrow> ptr option \<Rightarrow> chk_state \<Rightarrow> check_result" where
  "check_fn_misc e sp rule ptr2 st =
     (if starts rule s_f_mojiretsu_shougou then
        ret rule st (do { m \<leftarrow> deref_mrph sp ptr2;
                          Some (c_strstr (m_Goi m) (arg_of rule s_f_mojiretsu_shougou) \<noteq> None) })
      else if starts rule ''&ST'' then ret rule st (Some True)
      else if starts rule ''&OptCheck:'' then
        (let cp0 = arg_of rule ''&OptCheck:'';
             cp = (if cp0 \<noteq> [] \<and> hd cp0 = CHR ''-'' then tl cp0 else cp0) in
         ret rule st (Some (list_ex (\<lambda>opt. map lower cp = map lower opt) (Options e))))
      else if starts rule s_f_tai then
        (let cp = arg_of rule s_f_tai in
         ret rule st
           (do { n \<leftarrow> deref_node sp ptr2;
                 Some ((cp = s_noudou \<and> n_voice n = 0) \<or>
                       (cp = s_judou \<and>
                        (n_voice n AND VOICE_UKEMI \<noteq> 0 \<or> n_voice n AND VOICE_SHIEKI_UKEMI \<noteq> 0)) \<or>
                       (cp = s_shieki \<and>
                        (n_voice n AND VOICE_SHIEKI \<noteq> 0 \<or> n_voice n AND VOICE_SHIEKI_UKEMI \<noteq> 0))) }))
      else if rule = s_f_kioku then ret rule (st\<lparr>matched_ptr := ptr2\<rparr>) (Some True)
      else if starts rule s_f_meidou then
        ret rule st (do { n \<leftarrow> deref_node sp ptr2;
                          check_nv_mi_parent_and_children e sp n (c_atoi (arg_of rule s_f_meidou)) })
      else ret rule st (Some True))"

definition check_function ::
  "ENV \<Rightarrow> SENTENCE_DATA \<Rightarrow> string \<Rightarrow> FEATURE \<Rightarrow> ptr option \<Rightarrow> ptr option \<Rightarrow> chk_state \<Rightarrow> check_result"
where
  "check_function e sp rule fd ptr1 ptr2 st =
     check_fn_chars sp rule ptr2 st
       (check_fn_sem e sp rule ptr2 st
         (check_fn_length sp rule ptr2 st
           (check_fn_dpnd sp rule fd ptr1 ptr2 st
             (check_fn_misc e sp rule ptr2 st))))"

subsection \<open>Patterns\<close>

text \<open>
  One feature of a conjunction: whether the data satisfies it, and its text after the call.
\<close>

definition literal_match ::
  "ENV \<Rightarrow> SENTENCE_DATA \<Rightarrow> string \<Rightarrow> FEATURE \<Rightarrow> ptr option \<Rightarrow> ptr option \<Rightarrow> chk_state \<Rightarrow> check_result"
where
  "literal_match e sp cp fd p1 p2 st =
     (if starts cp ''^&'' then
        map_option (\<lambda>(value, rule, st'). (\<not> value, CHR ''^'' # rule, st'))
          (check_function e sp (tl cp) fd p1 p2 st)
      else if starts cp ''&'' then check_function e sp cp fd p1 p2 st
      else if starts cp ''^'' then Some (\<not> has_feature fd (tl cp), cp, st)
      else Some (has_feature fd cp, cp, st))"

fun feature_AND_match ::
  "ENV \<Rightarrow> SENTENCE_DATA \<Rightarrow> FEATURE \<Rightarrow> FEATURE \<Rightarrow> ptr option \<Rightarrow> ptr option \<Rightarrow> chk_state \<Rightarrow>
   (bool \<times> FEATURE \<times> chk_state) option" where
  "feature_AND_match e sp [] fd p1 p2 st = Some (True, [], st)"
| "feature_AND_match e sp (cp # fp) fd p1 p2 st =
     (case literal_match e sp cp fd p1 p2 st of
        None \<Rightarrow> None
      | Some (value, cp', st') \<Rightarrow>
          if \<not> value then Some (False, cp' # fp, st')
          else map_option (\<lambda>(b, fp', st''). (b, cp' # fp', st''))
                 (feature_AND_match e sp fp fd p1 p2 st'))"

fun feature_OR_match ::
  "ENV \<Rightarrow> SENTENCE_DATA \<Rightarrow> FEATURE_PATTERN \<Rightarrow> FEATURE \<Rightarrow> ptr option \<Rightarrow> ptr option \<Rightarrow> chk_state \<Rightarrow>
   (bool \<times> FEATURE_PATTERN \<times> chk_state) option" where
  "feature_OR_match e sp [] fd p1 p2 st = Some (False, [], st)"
| "feature_OR_match e sp (fp # fr) fd p1 p2 st =
     (if fp = [] then Some (False, fp # fr, st)
      else case feature_AND_match e sp fp fd p1 p2 st of
             None \<Rightarrow> None
           | Some (value, fp', st') \<Rightarrow>
               if value then Some (True, fp' # fr, st')
               else map_option (\<lambda>(b, fr', st''). (b, fp' # fr', st''))
                      (feature_OR_match e sp fr fd p1 p2 st'))"

definition feature_pattern_match ::
  "ENV \<Rightarrow> SENTENCE_DATA \<Rightarrow> FEATURE_PATTERN \<Rightarrow> FEATURE \<Rightarrow> ptr option \<Rightarrow> ptr option \<Rightarrow> chk_state \<Rightarrow>
   (bool \<times> FEATURE_PATTERN \<times> chk_state) option" where
  "feature_pattern_match e sp fr fd p1 p2 st =
     (if fr = [] \<or> hd fr = [] then Some (True, fr, st)
      else feature_OR_match e sp fr fd p1 p2 st)"

section \<open>Properties\<close>

text \<open>
  The rules that no call rewrites: all but the morpheme length with a trailing minus sign. A
  pattern is stable when its functions are.
\<close>

definition stable_rule :: "string \<Rightarrow> bool" where
  "stable_rule rule \<longleftrightarrow>
     \<not> (starts rule s_f_keitaiso_chou \<and> arg_of rule s_f_keitaiso_chou \<noteq> [] \<and>
        last (arg_of rule s_f_keitaiso_chou) = CHR ''-'')"

definition stable_feature :: "string \<Rightarrow> bool" where
  "stable_feature cp \<longleftrightarrow> stable_rule cp \<and> stable_rule (tl cp)"

definition stable_pattern :: "FEATURE_PATTERN \<Rightarrow> bool" where
  "stable_pattern fr \<longleftrightarrow> list_all (list_all stable_feature) fr"

lemma ret_Some [simp]: "ret rule st b = Some (v, r, s) \<longleftrightarrow> b = Some v \<and> r = rule \<and> s = st"
  by (auto simp: ret_def)

lemma check_fn_chars_rule:
  "check_fn_chars sp rule p2 st other = Some (v, r, s) \<Longrightarrow> r = rule \<or> other = Some (v, r, s)"
  unfolding check_fn_chars_def Let_def by (auto split: if_splits)

lemma check_fn_sem_rule:
  "check_fn_sem e sp rule p2 st other = Some (v, r, s) \<Longrightarrow> r = rule \<or> other = Some (v, r, s)"
  unfolding check_fn_sem_def Let_def
  by (cases "sem_arg e (arg_of rule s_f_imiso) st" rule: prod_cases3;
      cases "sem_arg e (arg_of rule s_f_bunsetsu_imiso) st" rule: prod_cases3;
      cases "sem_arg e (arg_of rule s_f_bunsetsu_zenimiso) st" rule: prod_cases3)
    (auto simp: bind_eq_Some_conv split: if_splits option.splits)

lemma check_fn_length_rule:
  "check_fn_length sp rule p2 st other = Some (v, r, s) \<Longrightarrow> stable_rule rule \<Longrightarrow>
   r = rule \<or> other = Some (v, r, s)"
  unfolding check_fn_length_def Let_def stable_rule_def
  by (auto simp: bind_eq_Some_conv split: if_splits)

lemma check_fn_dpnd_rule:
  "check_fn_dpnd sp rule fd p1 p2 st other = Some (v, r, s) \<Longrightarrow> r = rule \<or> other = Some (v, r, s)"
  unfolding check_fn_dpnd_def Let_def
  by (auto simp: bind_eq_Some_conv split: if_splits option.splits prod.splits ptr.splits)

lemma check_fn_misc_rule: "check_fn_misc e sp rule p2 st = Some (v, r, s) \<Longrightarrow> r = rule"
  unfolding check_fn_misc_def Let_def by (auto split: if_splits)

lemma check_function_stable:
  "check_function e sp rule fd p1 p2 st = Some (v, r, s) \<Longrightarrow> stable_rule rule \<Longrightarrow> r = rule"
  unfolding check_function_def
  using check_fn_chars_rule check_fn_sem_rule check_fn_length_rule check_fn_dpnd_rule
    check_fn_misc_rule by metis

lemma starts_not_hd: "starts cp ''^&'' \<Longrightarrow> cp = CHR ''^'' # tl cp"
  by (cases cp) (auto simp: starts_def)

lemma literal_match_stable:
  assumes "literal_match e sp cp fd p1 p2 st = Some (v, cp', st')" and "stable_feature cp"
  shows "cp' = cp"
proof (cases "starts cp ''^&''")
  case True
  then obtain w r where "check_function e sp (tl cp) fd p1 p2 st = Some (w, r, st')"
    and "cp' = CHR ''^'' # r"
    using assms(1) by (auto simp: literal_match_def)
  then show ?thesis
    using assms(2) starts_not_hd [OF True] check_function_stable by (metis stable_feature_def)
next
  case False
  then show ?thesis
    using assms by (auto simp: literal_match_def stable_feature_def split: if_splits
        dest: check_function_stable)
qed

lemma feature_AND_match_stable:
  "feature_AND_match e sp fp fd p1 p2 st = Some (v, fp', st') \<Longrightarrow> list_all stable_feature fp \<Longrightarrow>
   fp' = fp"
  by (induction fp arbitrary: st v fp' st')
    (auto split: if_splits option.splits prod.splits dest: literal_match_stable)

lemma feature_OR_match_stable:
  "feature_OR_match e sp fr fd p1 p2 st = Some (v, fr', st') \<Longrightarrow> stable_pattern fr \<Longrightarrow> fr' = fr"
proof (induction fr arbitrary: st v fr' st')
  case (Cons fp fr)
  then show ?case
    by (auto simp: stable_pattern_def split: if_splits option.splits prod.splits
        dest: feature_AND_match_stable)
qed simp

lemma feature_pattern_match_stable:
  "feature_pattern_match e sp fr fd p1 p2 st = Some (v, fr', st') \<Longrightarrow> stable_pattern fr \<Longrightarrow> fr' = fr"
  by (auto simp: feature_pattern_match_def split: if_splits dest: feature_OR_match_stable)

text \<open>The meaning of a pattern without functions.\<close>

definition literal_holds :: "FEATURE \<Rightarrow> string \<Rightarrow> bool" where
  "literal_holds fd cp \<longleftrightarrow> (if starts cp ''^'' then \<not> has_feature fd (tl cp) else has_feature fd cp)"

definition function_free :: "string \<Rightarrow> bool" where
  "function_free cp \<longleftrightarrow> \<not> starts cp ''&'' \<and> \<not> starts cp ''^&''"

lemma feature_AND_match_literals:
  "list_all function_free fp \<Longrightarrow>
   feature_AND_match e sp fp fd p1 p2 st = Some (list_all (literal_holds fd) fp, fp, st)"
  by (induction fp) (auto simp: function_free_def literal_holds_def literal_match_def)

lemma feature_OR_match_literals:
  "list_all (list_all function_free) fr \<Longrightarrow> [] \<notin> set fr \<Longrightarrow>
   feature_OR_match e sp fr fd p1 p2 st =
     Some (list_ex (list_all (literal_holds fd)) fr, fr, st)"
  by (induction fr) (auto simp: feature_AND_match_literals)

text \<open>
  C37. A feature pattern without functions is a formula in disjunctive normal form: it matches exactly
  when it is empty or one of its conjunctions has all its positive features and none of its negated
  ones, and evaluating it changes neither the pattern nor the global state.
\<close>

theorem feature_pattern_match_dnf:
  assumes "list_all (list_all function_free) fr" and "[] \<notin> set fr"
  shows "feature_pattern_match e sp fr fd p1 p2 st =
    Some (fr = [] \<or> (\<exists>fp \<in> set fr. \<forall>cp \<in> set fp. literal_holds fd cp), fr, st)"
proof (cases fr)
  case (Cons fp fr')
  then have "fp \<noteq> []" using assms(2) by auto
  then show ?thesis
    using assms Cons feature_OR_match_literals [OF assms, of e sp fd p1 p2 st]
    by (auto simp: feature_pattern_match_def list_ex_iff list_all_iff)
qed (simp add: feature_pattern_match_def)

theorem feature_pattern_match_dnf_witness:
  "feature_pattern_match sample_env (sample_sentence []) [[''ab'', ''^cd''], [''ef'']] [''ab:1''] None None
     \<lparr>matched_ptr = None, cont_str = []\<rparr> =
    Some (True, [[''ab'', ''^cd''], [''ef'']], \<lparr>matched_ptr = None, cont_str = []\<rparr>)"
  using feature_pattern_match_dnf [of "[[''ab'', ''^cd''], [''ef'']]"]
  by (simp add: function_free_def literal_holds_def has_feature_def comp_feature_def starts_def
      char_at_def)

text \<open>
  Evaluation does not rewrite a pattern, except where it uses the morpheme length with a trailing
  minus sign.
\<close>

theorem feature_pattern_match_keeps_pattern:
  assumes "feature_pattern_match e sp fr fd p1 p2 st = Some (v, fr', st')" and "stable_pattern fr"
  shows "fr' = fr"
  using assms by (rule feature_pattern_match_stable)


text \<open>The witness uses the morpheme length without a minus sign and the memory function.\<close>

theorem feature_pattern_match_keeps_pattern_witness:
  "stable_pattern [[s_f_keitaiso_chou @ ''2''], [s_f_kioku]] \<and>
   (\<exists>v fr' st'. feature_pattern_match sample_env (sample_sentence [[]]) [[s_f_kioku]] [] None
      (Some (BnstP 0)) \<lparr>matched_ptr = None, cont_str = []\<rparr> = Some (v, fr', st') \<and> fr' = [[s_f_kioku]])"
proof -
  have "stable_pattern [[s_f_keitaiso_chou @ ''2''], [s_f_kioku]]" "stable_pattern [[s_f_kioku]]"
    by code_simp+
  moreover have "\<exists>v fr' st'. feature_pattern_match sample_env (sample_sentence [[]]) [[s_f_kioku]] [] None
      (Some (BnstP 0)) \<lparr>matched_ptr = None, cont_str = []\<rparr> = Some (v, fr', st')"
    by (simp add: feature_pattern_match_def literal_match_def check_function_def check_fn_chars_def
        check_fn_sem_def check_fn_length_def check_fn_dpnd_def check_fn_misc_def starts_def lit ret_def)
      blast
  ultimately show ?thesis
    using feature_pattern_match_keeps_pattern [of sample_env _ "[[s_f_kioku]]"] by metis
qed

text \<open>
  The morpheme length with a trailing minus sign does not keep its meaning: evaluated on a
  morpheme that is longer than the given length it holds the first time, is rewritten to the exact
  length, and no longer holds the second time.
\<close>

theorem morpheme_length_rule_rewritten:
  assumes "m \<noteq> []" and "list_all is_digit m" and "mrph_data sp = [x]"
    and "int (length (m_Goi2 x)) > c_atoi m * int BYTES4CHAR"
  shows "\<exists>rule'. check_function e sp (s_f_keitaiso_chou @ m @ ''-'') fd p1 (Some (MrphP 0)) st =
      Some (True, rule', st) \<and>
    check_function e sp rule' fd p1 (Some (MrphP 0)) st = Some (False, rule', st)"
proof -
  have d: "deref_mrph sp (Some (MrphP 0)) = Some x"
    using assms(3) by (simp add: deref_mrph_def mrph_at_def at_def)
  have "is_digit (last m)" using assms(1,2) by (simp add: list_all_iff)
  then have l: "last m \<noteq> CHR ''-''" by (auto simp: is_digit_def)
  have c: "check_fn_chars sp (s_f_keitaiso_chou @ w) p st oth = oth" for w p oth
    by (simp add: check_fn_chars_def starts_def lit)
  have s: "check_fn_sem e sp (s_f_keitaiso_chou @ w) p st oth = oth" for w p oth
    by (simp add: check_fn_sem_def starts_def lit)
  show ?thesis
    using assms d l
    by (intro exI [of _ "s_f_keitaiso_chou @ m"])
      (simp add: check_function_def c s check_fn_length_def Let_def arg_of_def butlast_append ret_def)
qed

text \<open>A morpheme of two characters and the rule for one character or more.\<close>

theorem morpheme_length_rule_rewritten_witness:
  "\<exists>rule'. check_function sample_env ((sample_sentence [])\<lparr>mrph_data := [sample_mrph ''abcdef'' []]\<rparr>)
       (s_f_keitaiso_chou @ ''1'' @ ''-'') [] None (Some (MrphP 0)) \<lparr>matched_ptr = None, cont_str = []\<rparr> =
      Some (True, rule', \<lparr>matched_ptr = None, cont_str = []\<rparr>) \<and>
     check_function sample_env ((sample_sentence [])\<lparr>mrph_data := [sample_mrph ''abcdef'' []]\<rparr>)
       rule' [] None (Some (MrphP 0)) \<lparr>matched_ptr = None, cont_str = []\<rparr> =
      Some (False, rule', \<lparr>matched_ptr = None, cont_str = []\<rparr>)"
  by (rule morpheme_length_rule_rewritten [where x = "sample_mrph ''abcdef'' []"])
    (simp_all add: is_digit_def c_atoi_def is_blank_def BYTES4CHAR_def sample_mrph_def)

end
