(* ===== verification/Knp_Quote.thy ===== *)
theory Knp_Quote
  imports Knp_Feature
begin

text \<open>
  Quotation brackets, from \<open>src/system/quote.c\<close>: the detection of the quoted spans of a sentence
  (\<open>check_quote\<close>), the masks they put on the dependency matrix (\<open>mask_quote\<close> for Japanese,
  \<open>mask_quote_for_chi\<close> for Chinese) and the separation of parenthesised text into sentences of
  its own (\<open>process_input_paren\<close>). The stack of open brackets is the list of its entries, top
  first.
\<close>

section \<open>Definitions\<close>

definition CONTINUE :: int where "CONTINUE = -1"
definition PAREN_MAX :: nat where "PAREN_MAX = 100"

record QUOTE_MATRICES =
  Quote_matrix :: "int matrix"
  Chi_quote_start_matrix :: "int matrix"
  Chi_quote_end_matrix :: "int matrix"

definition bnst_f :: "SENTENCE_DATA \<Rightarrow> nat \<Rightarrow> FEATURE" where
  "bnst_f sp i = n_f (bnst_data sp ! i)"

subsection \<open>Initialisation\<close>

definition init_quote :: "SENTENCE_DATA \<Rightarrow> QUOTE_MATRICES \<Rightarrow> QUOTE_DATA \<times> QUOTE_MATRICES" where
  "init_quote sp m =
     (\<lparr>in_num = \<lambda>_. -1, out_num = \<lambda>_. -1\<rparr>,
      m\<lparr>Quote_matrix := fill_rect 0 (Bnst_num sp) 0 (Bnst_num sp) 1 (Quote_matrix m),
        Chi_quote_start_matrix :=
          fill_rect 0 (Bnst_num sp) 0 (Bnst_num sp) (-1) (Chi_quote_start_matrix m),
        Chi_quote_end_matrix :=
          fill_rect 0 (Bnst_num sp) 0 (Bnst_num sp) (-1) (Chi_quote_end_matrix m)\<rparr>)"

subsection \<open>Detection\<close>

text \<open>The locals of \<open>check_quote\<close>; \<open>q_stop\<close> is set where the code returns \<open>CONTINUE\<close>.\<close>

record quote_state =
  q_k :: nat
  q_stack :: "nat list"
  q_data :: QUOTE_DATA
  q_stop :: bool

definition quote_open :: "nat \<Rightarrow> quote_state \<Rightarrow> quote_state" where
  "quote_open i st =
     (if q_stop st then st
      else if q_k st \<ge> QUOTE_MAX - 1 then st\<lparr>q_stop := True\<rparr>
      else st\<lparr>q_stack := q_k st # q_stack st,
              q_data := (q_data st)\<lparr>in_num := (in_num (q_data st))(q_k st := int i)\<rparr>,
              q_k := q_k st + 1\<rparr>)"

definition quote_close :: "nat \<Rightarrow> quote_state \<Rightarrow> quote_state" where
  "quote_close i st =
     (if q_stop st then st
      else case q_stack st of
          [] \<Rightarrow>
            if q_k st \<ge> QUOTE_MAX - 1 then st\<lparr>q_stop := True\<rparr>
            else st\<lparr>q_data := (q_data st)\<lparr>out_num := (out_num (q_data st))(q_k st := int i)\<rparr>,
                    q_k := q_k st + 1\<rparr>
        | s # stack \<Rightarrow>
            st\<lparr>q_data := (q_data st)\<lparr>out_num := (out_num (q_data st))(s := int i)\<rparr>,
               q_stack := stack\<rparr>)"

definition quote_bnst :: "FEATURE \<Rightarrow> nat \<Rightarrow> quote_state \<Rightarrow> quote_state" where
  "quote_bnst f i st =
     (let st1 = (if has_feature f s_kakko_shi
                 then let s = quote_open i st
                      in if has_feature f s_kakko_shi2 then quote_open i s else s
                 else st)
      in if has_feature f s_kakko_shuu
         then let s = quote_close i st1
              in if has_feature f s_kakko_shuu2 then quote_close i s else s
         else st1)"

text \<open>An end that was not found is the begin or the end of the sentence.\<close>

definition quote_border :: "SENTENCE_DATA \<Rightarrow> nat \<Rightarrow> QUOTE_DATA \<Rightarrow> QUOTE_DATA" where
  "quote_border sp i q =
     (let q1 = (if in_num q i = -1 then q\<lparr>in_num := (in_num q)(i := 0)\<rparr> else q)
      in if out_num q1 i = -1
         then q1\<lparr>out_num := (out_num q1)(i := int (Bnst_num sp) - 1)\<rparr> else q1)"

definition check_quote :: "SENTENCE_DATA \<Rightarrow> QUOTE_DATA \<Rightarrow> int \<times> QUOTE_DATA" where
  "check_quote sp q =
     (let st = for_upt 0 (Bnst_num sp) (\<lambda>i. quote_bnst (bnst_f sp i) i)
                 \<lparr>q_k = 0, q_stack = [], q_data = q, q_stop = False\<rparr>
      in if q_stop st then (CONTINUE, q_data st)
         else (if q_k st > 0 then 1 else 0,
               for_upt 0 (q_k st) (quote_border sp) (q_data st)))"

subsection \<open>Masks\<close>

text \<open>
  \<^verbatim>\<open>for (k = 0; quote_data.in_num[k] >= 0; k++)\<close>: the entries before the first negative one.
\<close>

definition quote_entries :: "QUOTE_DATA \<Rightarrow> nat list" where
  "quote_entries q = takeWhile (\<lambda>k. in_num q k \<ge> 0) [0..<QUOTE_MAX]"

text \<open>The bunsetsu that may depend on the last bunsetsu of a quotation.\<close>

definition adnominal :: "FEATURE \<Rightarrow> bool" where
  "adnominal f \<longleftrightarrow>
     has_feature f s_k_renkaku \<or> has_feature f s_k_rentai \<or> has_feature f s_k_nokaku \<or>
     has_feature f s_k_doukaku_rentai \<or> has_feature f s_k_kakko_heiretsu"

definition mask_quote_above :: "SENTENCE_DATA \<Rightarrow> nat \<Rightarrow> nat \<Rightarrow> int matrix \<Rightarrow> int matrix" where
  "mask_quote_above sp start fin m =
     for_upt 0 start
       (\<lambda>i m. let m1 = for_upt start fin (\<lambda>j. set_cell i j 0) m
              in if m1 i fin \<noteq> 0 \<and> adnominal (bnst_f sp i) then m1 else set_cell i fin 0 m1) m"

definition mask_quote_right :: "SENTENCE_DATA \<Rightarrow> nat \<Rightarrow> nat \<Rightarrow> int matrix \<Rightarrow> int matrix" where
  "mask_quote_right sp start fin m = fill_rect start fin (fin + 1) (Bnst_num sp) 0 m"

definition mask_quote_period :: "SENTENCE_DATA \<Rightarrow> nat \<Rightarrow> nat \<Rightarrow> int matrix \<Rightarrow> int matrix" where
  "mask_quote_period sp start fin m =
     for_upt start fin
       (\<lambda>l m. if has_feature (bnst_f sp l) s_k_bunmatsu
              then fill_rect start l (l + 1) (fin + 1) 0 m else m) m"

definition mask_quote_entry :: "SENTENCE_DATA \<Rightarrow> QUOTE_DATA \<Rightarrow> nat \<Rightarrow> int matrix \<Rightarrow> int matrix" where
  "mask_quote_entry sp q k m =
     (let start = nat (in_num q k); fin = nat (out_num q k) in
      if start = fin then m
      else mask_quote_period sp start fin
             (mask_quote_right sp start fin (mask_quote_above sp start fin m)))"

definition mask_quote :: "SENTENCE_DATA \<Rightarrow> QUOTE_DATA \<Rightarrow> int matrix \<Rightarrow> int matrix" where
  "mask_quote sp q m = fold (mask_quote_entry sp q) (quote_entries q) m"

definition mask_chi_matrix :: "SENTENCE_DATA \<Rightarrow> nat \<Rightarrow> nat \<Rightarrow> int matrix \<Rightarrow> int matrix" where
  "mask_chi_matrix sp start fin m =
     set_cell start fin 0
       (for_upt (fin + 1) (Bnst_num sp) (\<lambda>i m. set_cell fin i 0 (set_cell start i 0 m))
         (for_upt 0 start (\<lambda>i m. set_cell i fin 0 (set_cell i start 0 m)) m))"

definition mask_chi_span :: "nat \<Rightarrow> nat \<Rightarrow> int \<Rightarrow> int matrix \<Rightarrow> int matrix" where
  "mask_chi_span start fin v m =
     set_cell start fin (-1)
       (for_upt start (fin + 1) (\<lambda>j. for_upt j (fin + 1) (\<lambda>i. set_cell j i v)) m)"

definition mask_quote_for_chi ::
  "bool \<Rightarrow> SENTENCE_DATA \<Rightarrow> QUOTE_DATA \<Rightarrow> QUOTE_MATRICES \<Rightarrow> QUOTE_MATRICES" where
  "mask_quote_for_chi OptChiPos sp q m =
     fold (\<lambda>k m.
       let start = nat (in_num q k); fin = nat (out_num q k) in
       if start = fin then m
       else if (\<not> OptChiPos \<and> has_feature (bnst_f sp start) ''PU'' \<and>
                has_feature (bnst_f sp fin) ''PU'') \<or> OptChiPos
       then m\<lparr>Quote_matrix := mask_chi_matrix sp start fin (Quote_matrix m),
              Chi_quote_start_matrix :=
                mask_chi_span start fin (int start) (Chi_quote_start_matrix m),
              Chi_quote_end_matrix :=
                mask_chi_span start fin (int fin) (Chi_quote_end_matrix m)\<rparr>
       else m) (quote_entries q) m"

definition quote ::
  "language \<Rightarrow> bool \<Rightarrow> bool \<Rightarrow> SENTENCE_DATA \<Rightarrow> QUOTE_MATRICES \<Rightarrow> int \<times> QUOTE_DATA \<times> QUOTE_MATRICES"
where
  "quote Language OptChiGenerative OptChiPos sp m0 =
     (let (q0, m) = init_quote sp m0 in
      if Language \<noteq> CHINESE \<or> (Language = CHINESE \<and> \<not> OptChiGenerative)
      then (let (quote_p, q) = check_quote sp q0 in
            if quote_p = 0 then (quote_p, q, m)
            else if quote_p = CONTINUE then (quote_p, q, m)
            else if Language \<noteq> CHINESE
            then (quote_p, q, m\<lparr>Quote_matrix := mask_quote sp q (Quote_matrix m)\<rparr>)
            else (quote_p, q, mask_quote_for_chi OptChiPos sp q m))
      else (0, q0, m))"

subsection \<open>Parenthesised text\<close>

definition add_comment :: "SENTENCE_DATA \<Rightarrow> string \<Rightarrow> SENTENCE_DATA" where
  "add_comment sp add_string =
     sp\<lparr>Comment := Some (case Comment sp of Some c \<Rightarrow> c @ '' '' @ add_string | None \<Rightarrow> add_string)\<rparr>"

text \<open>
  The scan for parentheses: the table of marks, the nesting level, the begin of the outermost
  parenthesis (\<^const>\<open>None\<close> while the variable is not initialised), the number of marked morphemes
  and of marked parentheses.
\<close>

record paren_state =
  paren_table :: "nat \<Rightarrow> char"
  paren_level :: int
  paren_start :: "nat option"
  paren_mrph_num :: nat
  paren_num :: nat

definition NO_MARK :: char where "NO_MARK = CHR 0x00"

definition paren_mark :: "nat \<Rightarrow> nat \<Rightarrow> (nat \<Rightarrow> char) \<Rightarrow> nat \<Rightarrow> char" where
  "paren_mark b e t =
     for_upt (b + 1) e (\<lambda>j t. t(j := CHR ''I'')) (t(b := CHR ''B'', e := CHR ''E''))"

definition paren_step :: "nat \<Rightarrow> string \<Rightarrow> paren_state \<Rightarrow> paren_state option" where
  "paren_step i goi st =
     (if goi = s_paren_b then
        Some (st\<lparr>paren_start := (if paren_level st = 0 then Some i else paren_start st),
                 paren_level := paren_level st + 1\<rparr>)
      else if goi = s_paren_e then
        (let st1 = st\<lparr>paren_level := paren_level st - 1\<rparr> in
         if paren_level st1 = 0 then
           (case paren_start st1 of
              None \<Rightarrow> None
            | Some b \<Rightarrow>
                if i \<noteq> b + 1
                then Some (st1\<lparr>paren_table := paren_mark b i (paren_table st1),
                               paren_mrph_num := paren_mrph_num st1 + 2 + (i - (b + 1)),
                               paren_num := paren_num st1 + 1\<rparr>)
                else Some st1)
         else Some st1)
      else Some st)"

fun paren_scan :: "nat \<Rightarrow> MRPH_DATA list \<Rightarrow> paren_state \<Rightarrow> paren_state option" where
  "paren_scan i [] st = Some st"
| "paren_scan i (m # ms) st =
     (case paren_step i (m_Goi m) st of None \<Rightarrow> None | Some st' \<Rightarrow> paren_scan (Suc i) ms st')"

definition paren_init :: paren_state where
  "paren_init =
     \<lparr>paren_table = \<lambda>_. NO_MARK, paren_level = 0, paren_start = None, paren_mrph_num = 0,
      paren_num = 0\<rparr>"

text \<open>
  The sentences for the parentheses. The buffer of the identifier has room for two digits and that
  of the comment for three; more of them overflow it.
\<close>

definition paren_sentence :: "SENTENCE_DATA \<Rightarrow> nat \<Rightarrow> SENTENCE_DATA option" where
  "paren_sentence sp i =
     (let d = decimal (i + 2); d2 = (if length d < 2 then ''0'' @ d else d) in
      if length d2 \<le> 2
      then Some (sp\<lparr>mrph_data := [], KNPSID := KNPSID sp @ ''-'' @ d2, Comment := Some s_paren_comment\<rparr>)
      else None)"

record paren_split =
  s_mrphs :: "MRPH_DATA list"
  s_j :: nat
  s_sps :: "SENTENCE_DATA list"
  s_count :: int
  s_pos :: nat

definition split_step :: "(nat \<Rightarrow> char) \<Rightarrow> nat \<Rightarrow> paren_split \<Rightarrow> paren_split option" where
  "split_step t i s =
     (let m = s_mrphs s ! i in
      case string_length (m_Goi2 m) of
        None \<Rightarrow> None
      | Some len \<Rightarrow>
          if t i = NO_MARK then
            Some (if i \<noteq> s_j s
                  then let ms = (s_mrphs s)[s_j s := m\<lparr>m_num := s_j s\<rparr>]
                       in s\<lparr>s_mrphs := ms[i := (ms ! i)\<lparr>m_f := []\<rparr>], s_j := s_j s + 1, s_pos := s_pos s + len\<rparr>
                  else s\<lparr>s_j := s_j s + 1, s_pos := s_pos s + len\<rparr>)
          else if t i = CHR ''B'' then
            (let c = s_count s + 1 in
             if 0 \<le> c \<and> c < int (length (s_sps s)) \<and> length (decimal (s_pos s)) \<le> 3
             then Some (s\<lparr>s_count := c,
                          s_sps := (s_sps s)[nat c := (s_sps s ! nat c)\<lparr>Comment :=
                            map_option (\<lambda>x. x @ decimal (s_pos s)) (Comment (s_sps s ! nat c))\<rparr>],
                          s_pos := s_pos s + len\<rparr>)
             else None)
          else if t i = CHR ''I'' then
            (let c = s_count s in
             if 0 \<le> c \<and> c < int (length (s_sps s))
             then let p = s_sps s ! nat c in
                  Some (s\<lparr>s_sps := (s_sps s)[nat c := p\<lparr>mrph_data := mrph_data p @
                              [m\<lparr>m_num := length (mrph_data p)\<rparr>]\<rparr>],
                          s_mrphs := (s_mrphs s)[i := m\<lparr>m_f := []\<rparr>],
                          s_pos := s_pos s + len\<rparr>)
             else None)
          else Some (s\<lparr>s_pos := s_pos s + len\<rparr>))"

fun split_loop :: "(nat \<Rightarrow> char) \<Rightarrow> nat list \<Rightarrow> paren_split \<Rightarrow> paren_split option" where
  "split_loop t [] s = Some s"
| "split_loop t (i # is) s =
     (case split_step t i s of None \<Rightarrow> None | Some s' \<Rightarrow> split_loop t is s')"

definition process_input_paren :: "SENTENCE_DATA \<Rightarrow> (nat \<times> SENTENCE_DATA \<times> SENTENCE_DATA list) option" where
  "process_input_paren sp =
     (let n = length (mrph_data sp) in
      case paren_scan 0 (mrph_data sp) paren_init of
        None \<Rightarrow> None
      | Some st \<Rightarrow>
          if paren_num st = 0 \<or> paren_num st \<ge> PAREN_MAX \<or>
             (paren_table st 0 = CHR ''B'' \<and> paren_table st (n - 1) = CHR ''E'')
          then Some (0, sp, [])
          else case those (map (paren_sentence sp) [0..<paren_num st]) of
                 None \<Rightarrow> None
               | Some sps \<Rightarrow>
                   (let sp1 = add_comment (sp\<lparr>KNPSID := KNPSID sp @ ''-01''\<rparr>) s_kakko_sakujo in
                    case split_loop (paren_table st) [0..<n]
                           \<lparr>s_mrphs = mrph_data sp, s_j = 0, s_sps = sps, s_count = -1, s_pos = 0\<rparr> of
                      None \<Rightarrow> None
                    | Some s \<Rightarrow>
                        Some (paren_num st,
                              sp1\<lparr>mrph_data := take (n - paren_mrph_num st) (s_mrphs s)\<rparr>,
                              s_sps s)))"

definition prepare_paren_sentence :: "SENTENCE_DATA \<Rightarrow> SENTENCE_DATA \<Rightarrow> SENTENCE_DATA" where
  "prepare_paren_sentence sp paren_sp =
     sp\<lparr>KNPSID := KNPSID paren_sp, Comment := Comment paren_sp, mrph_data := mrph_data paren_sp\<rparr>"

section \<open>The quoted spans\<close>

text \<open>
  Two spans are laminar when they are disjoint or one lies inside the other. \<open>quote_ok i st\<close>
  is the invariant of the detection loop after the bunsetsu before \<open>i\<close>: the open spans are on
  the stack, innermost first, and every closed span lies inside or before each open one.
\<close>

definition laminar :: "int \<Rightarrow> int \<Rightarrow> int \<Rightarrow> int \<Rightarrow> bool" where
  "laminar a b c d \<longleftrightarrow> b < c \<or> d < a \<or> (a \<le> c \<and> d \<le> b) \<or> (c \<le> a \<and> b \<le> d)"

definition q_in :: "QUOTE_DATA \<Rightarrow> nat \<Rightarrow> int" where
  "q_in q j = (if in_num q j = -1 then 0 else in_num q j)"

definition q_closed :: "quote_state \<Rightarrow> nat \<Rightarrow> bool" where
  "q_closed st j \<longleftrightarrow> j < q_k st \<and> j \<notin> set (q_stack st)"

definition quote_ok :: "nat \<Rightarrow> quote_state \<Rightarrow> bool" where
  "quote_ok i st \<longleftrightarrow>
     q_k st \<le> QUOTE_MAX - 1 \<and>
     (\<forall>j \<ge> q_k st. in_num (q_data st) j = -1 \<and> out_num (q_data st) j = -1) \<and>
     distinct (q_stack st) \<and>
     sorted_wrt (\<lambda>s t. in_num (q_data st) t \<le> in_num (q_data st) s) (q_stack st) \<and>
     (\<forall>s \<in> set (q_stack st). s < q_k st \<and> out_num (q_data st) s = -1 \<and>
        0 \<le> in_num (q_data st) s \<and> in_num (q_data st) s < int i) \<and>
     (\<forall>j. q_closed st j \<longrightarrow>
        -1 \<le> in_num (q_data st) j \<and> q_in (q_data st) j \<le> out_num (q_data st) j \<and>
        out_num (q_data st) j < int i) \<and>
     (\<forall>j l. q_closed st j \<longrightarrow> q_closed st l \<longrightarrow>
        laminar (q_in (q_data st) j) (out_num (q_data st) j)
          (q_in (q_data st) l) (out_num (q_data st) l)) \<and>
     (\<forall>j. \<forall>s \<in> set (q_stack st). q_closed st j \<longrightarrow>
        in_num (q_data st) s \<le> q_in (q_data st) j \<or> out_num (q_data st) j < in_num (q_data st) s)"

lemma quote_okD:
  assumes "quote_ok i st"
  shows "q_k st \<le> QUOTE_MAX - 1"
    and "q_k st \<le> j \<Longrightarrow> in_num (q_data st) j = -1"
    and "q_k st \<le> j \<Longrightarrow> out_num (q_data st) j = -1"
    and "distinct (q_stack st)"
    and "sorted_wrt (\<lambda>s t. in_num (q_data st) t \<le> in_num (q_data st) s) (q_stack st)"
    and "s \<in> set (q_stack st) \<Longrightarrow> s < q_k st"
    and "s \<in> set (q_stack st) \<Longrightarrow> out_num (q_data st) s = -1"
    and "s \<in> set (q_stack st) \<Longrightarrow> 0 \<le> in_num (q_data st) s"
    and "s \<in> set (q_stack st) \<Longrightarrow> in_num (q_data st) s < int i"
    and "q_closed st j \<Longrightarrow> -1 \<le> in_num (q_data st) j"
    and "q_closed st j \<Longrightarrow> q_in (q_data st) j \<le> out_num (q_data st) j"
    and "q_closed st j \<Longrightarrow> out_num (q_data st) j < int i"
    and "q_closed st j \<Longrightarrow> q_closed st l \<Longrightarrow>
      laminar (q_in (q_data st) j) (out_num (q_data st) j)
        (q_in (q_data st) l) (out_num (q_data st) l)"
    and "q_closed st j \<Longrightarrow> s \<in> set (q_stack st) \<Longrightarrow>
      in_num (q_data st) s \<le> q_in (q_data st) j \<or> out_num (q_data st) j < in_num (q_data st) s"
  using assms unfolding quote_ok_def by auto

text \<open>
  Opening needs the invariant before the bunsetsu, because its own brackets are opened before any is
  closed; what follows holds it for the next one.
\<close>

definition quote_opening :: "nat \<Rightarrow> quote_state \<Rightarrow> bool" where
  "quote_opening i st \<longleftrightarrow> quote_ok (Suc i) st \<and>
     (\<forall>j. q_closed st j \<longrightarrow> out_num (q_data st) j < int i)"

lemma quote_ok_opening: "quote_ok i st \<Longrightarrow> quote_opening i st"
  unfolding quote_opening_def quote_ok_def by force

lemma quote_ok_stop [simp]: "quote_ok i (st\<lparr>q_stop := b\<rparr>) = quote_ok i st"
  by (simp add: quote_ok_def q_closed_def)

lemma quote_open_opening:
  assumes o: "quote_opening i st"
  shows "quote_opening i (quote_open i st)"
proof (cases "q_stop st \<or> q_k st \<ge> QUOTE_MAX - 1")
  case True
  then show ?thesis using o
    by (auto simp: quote_open_def quote_opening_def q_closed_def)
next
  case False
  let ?t = "quote_open i st"
  have ok: "quote_ok (Suc i) st" using o by (simp add: quote_opening_def)
  note D = quote_okD [OF ok]
  have k: "q_k ?t = Suc (q_k st)" "q_stack ?t = q_k st # q_stack st"
    and q: "in_num (q_data ?t) = (in_num (q_data st))(q_k st := int i)"
      "out_num (q_data ?t) = out_num (q_data st)"
    using False by (auto simp: quote_open_def)
  have c: "q_closed ?t j \<longleftrightarrow> q_closed st j" for j
    using D(6) by (auto simp: q_closed_def k)
  have ck: "q_closed st j \<Longrightarrow> j \<noteq> q_k st" for j by (simp add: q_closed_def)
  have i: "q_closed st j \<Longrightarrow> q_in (q_data ?t) j = q_in (q_data st) j" for j
    by (simp add: q_in_def q q_closed_def)
  have sk: "s \<in> set (q_stack st) \<Longrightarrow> in_num (q_data ?t) s = in_num (q_data st) s" for s
    using D(6) by (auto simp: q)
  have sorted: "sorted_wrt (\<lambda>s t. in_num (q_data ?t) t \<le> in_num (q_data ?t) s) (q_stack ?t)"
  proof -
    have "sorted_wrt (\<lambda>s t. in_num (q_data ?t) t \<le> in_num (q_data ?t) s) (q_stack st)"
      by (rule sorted_wrt_mono_rel [OF _ D(5)]) (simp add: sk)
    moreover have "in_num (q_data ?t) s \<le> in_num (q_data ?t) (q_k st)" if "s \<in> set (q_stack st)" for s
      using that D(9) [of s] sk [of s] by (simp add: q)
    ultimately show ?thesis by (simp add: k)
  qed
  have out: "q_closed st j \<Longrightarrow> out_num (q_data st) j < int i" for j
    using o by (simp add: quote_opening_def)
  have "quote_ok (Suc i) ?t"
    unfolding quote_ok_def
  proof (intro conjI allI ballI impI)
    show "q_k ?t \<le> QUOTE_MAX - 1" using False k by simp
    show "distinct (q_stack ?t)" using D(4,6) k by auto
  next
    fix s assume "s \<in> set (q_stack ?t)"
    then have s: "s = q_k st \<or> s \<in> set (q_stack st)" using k by simp
    show "s < q_k ?t" "out_num (q_data ?t) s = -1" "0 \<le> in_num (q_data ?t) s"
        "in_num (q_data ?t) s < int (Suc i)"
      using s D(3,6,7,8,9) by (auto simp: k q intro: less_SucI)
    fix j assume "q_closed ?t j"
    then have j: "q_closed st j" by (simp add: c)
    show "in_num (q_data ?t) s \<le> q_in (q_data ?t) j \<or> out_num (q_data ?t) j < in_num (q_data ?t) s"
      using s D(14) [OF j] out [OF j] sk by (auto simp: i [OF j] q)
  qed (use sorted D(2,3,10,11,12,13) in \<open>auto simp: c i k q ck\<close>)
  then show ?thesis using out by (simp add: quote_opening_def c q)
qed

lemma quote_close_empty_ok:
  assumes ok: "quote_ok (Suc i) st" and e: "q_stack st = []" and n: "\<not> q_stop st"
    and m: "q_k st < QUOTE_MAX - 1"
  shows "quote_ok (Suc i) (quote_close i st)"
proof -
  let ?t = "quote_close i st"
  note D = quote_okD [OF ok]
  have k: "q_k ?t = Suc (q_k st)" "q_stack ?t = []"
    and q: "in_num (q_data ?t) = in_num (q_data st)"
      "out_num (q_data ?t) = (out_num (q_data st))(q_k st := int i)"
    using assms by (auto simp: quote_close_def)
  have c: "q_closed ?t j \<longleftrightarrow> j = q_k st \<or> q_closed st j" for j
    using e by (auto simp: q_closed_def k)
  have ck: "\<not> q_closed st (q_k st)" by (simp add: q_closed_def)
  have i: "q_in (q_data ?t) j = q_in (q_data st) j" for j by (simp add: q_in_def q)
  have ki: "in_num (q_data st) (q_k st) = -1" "q_in (q_data st) (q_k st) = 0"
    using D(2) by (auto simp: q_in_def)
  have pos: "q_closed st j \<Longrightarrow> 0 \<le> q_in (q_data st) j" for j
    using D(10) [of j] by (auto simp: q_in_def)
  show ?thesis
    unfolding quote_ok_def
  proof (intro conjI allI ballI impI)
    fix j assume j: "q_closed ?t j"
    show "-1 \<le> in_num (q_data ?t) j" "q_in (q_data ?t) j \<le> out_num (q_data ?t) j"
        "out_num (q_data ?t) j < int (Suc i)"
      using j D(10,11,12) [of j] ki by (auto simp: c q i)
    fix l assume l: "q_closed ?t l"
    show "laminar (q_in (q_data ?t) j) (out_num (q_data ?t) j)
        (q_in (q_data ?t) l) (out_num (q_data ?t) l)"
      using j l D(13) [of j l] D(12) [of j] D(12) [of l] pos [of j] pos [of l] ki ck
      by (auto simp: c q i laminar_def)
  qed (use m D(2,3) in \<open>auto simp: k q\<close>)
qed

lemma quote_close_top_ok:
  assumes ok: "quote_ok (Suc i) st" and e: "q_stack st = s # stack" and n: "\<not> q_stop st"
  shows "quote_ok (Suc i) (quote_close i st)"
proof -
  let ?t = "quote_close i st"
  note D = quote_okD [OF ok]
  have k: "q_k ?t = q_k st" "q_stack ?t = stack"
    and q: "in_num (q_data ?t) = in_num (q_data st)"
      "out_num (q_data ?t) = (out_num (q_data st))(s := int i)"
    using assms by (auto simp: quote_close_def)
  have s: "s < q_k st" "s \<notin> set stack" "s \<in> set (q_stack st)"
    using D(4) D(6) [of s] e by auto
  have c: "q_closed ?t j \<longleftrightarrow> j = s \<or> q_closed st j" for j
    using e s by (auto simp: q_closed_def k)
  have ns: "\<not> q_closed st s" using e by (simp add: q_closed_def)
  have i: "q_in (q_data ?t) j = q_in (q_data st) j" for j by (simp add: q_in_def q)
  have si: "q_in (q_data st) s = in_num (q_data st) s" "0 \<le> in_num (q_data st) s"
      "in_num (q_data st) s \<le> int i"
    using D(8) [OF s(3)] D(9) [OF s(3)] by (auto simp: q_in_def)
  have st: "t \<in> set stack \<Longrightarrow> in_num (q_data st) t \<le> in_num (q_data st) s" for t
    using D(5) e by auto
  show ?thesis
    unfolding quote_ok_def
  proof (intro conjI allI ballI impI)
    fix j assume j: "q_closed ?t j"
    show "-1 \<le> in_num (q_data ?t) j" "q_in (q_data ?t) j \<le> out_num (q_data ?t) j"
        "out_num (q_data ?t) j < int (Suc i)"
      using j D(10,11,12) [of j] si by (auto simp: c q i)
    fix l assume l: "q_closed ?t l"
    show "laminar (q_in (q_data ?t) j) (out_num (q_data ?t) j)
        (q_in (q_data ?t) l) (out_num (q_data ?t) l)"
      using j l D(13) [of j l] D(12) [of j] D(12) [of l] D(14) [of j s] D(14) [of l s] s(3) si ns
      by (auto simp: c q i laminar_def)
  next
    fix j t assume "t \<in> set (q_stack ?t)" and "q_closed ?t j"
    then show "in_num (q_data ?t) t \<le> q_in (q_data ?t) j \<or>
        out_num (q_data ?t) j < in_num (q_data ?t) t"
      using st [of t] s si D(14) [of j t] e by (auto simp: c q i k)
  next
    fix j assume "q_k ?t \<le> j"
    then show "in_num (q_data ?t) j = -1" "out_num (q_data ?t) j = -1"
      using D(2,3) s(1) by (auto simp: k q)
  qed (use D(1,4-9) e s in \<open>auto simp: k q\<close>)
qed

lemma quote_close_ok: "quote_ok (Suc i) st \<Longrightarrow> quote_ok (Suc i) (quote_close i st)"
  using quote_close_empty_ok [of i st] quote_close_top_ok [of i st]
  by (cases "q_stack st") (auto simp: quote_close_def)

lemma quote_bnst_ok: "quote_ok i st \<Longrightarrow> quote_ok (Suc i) (quote_bnst f i st)"
proof -
  assume "quote_ok i st"
  then have 1: "quote_opening i st" by (rule quote_ok_opening)
  have 2: "quote_opening i t \<Longrightarrow> quote_ok (Suc i) t" for t by (simp add: quote_opening_def)
  show ?thesis
    using 1 by (simp add: quote_bnst_def Let_def quote_open_opening quote_close_ok 2)
qed

lemma quote_border_loop:
  "in_num (for_upt 0 k (quote_border sp) q) j = (if j < k then q_in q j else in_num q j)"
  "out_num (for_upt 0 k (quote_border sp) q) j =
     (if j < k \<and> out_num q j = -1 then int (Bnst_num sp) - 1 else out_num q j)"
  by (induction k) (auto simp: for_upt_Suc quote_border_def q_in_def Let_def less_Suc_eq)

lemma quote_scan_ok:
  "quote_ok (Bnst_num sp)
     (for_upt 0 (Bnst_num sp) (\<lambda>i. quote_bnst (bnst_f sp i) i)
       \<lparr>q_k = 0, q_stack = [], q_data = \<lparr>in_num = \<lambda>_. -1, out_num = \<lambda>_. -1\<rparr>, q_stop = False\<rparr>)"
proof (rule for_upt_invariant [where P = quote_ok])
  show "quote_ok 0 \<lparr>q_k = 0, q_stack = [], q_data = \<lparr>in_num = \<lambda>_. -1, out_num = \<lambda>_. -1\<rparr>, q_stop = False\<rparr>"
    by (simp add: quote_ok_def q_closed_def)
qed (auto intro: quote_bnst_ok)

lemma takeWhile_upt:
  "k \<le> n \<Longrightarrow> (\<And>j. j < k \<Longrightarrow> P j) \<Longrightarrow> k < n \<Longrightarrow> \<not> P k \<Longrightarrow> takeWhile P [0..<n] = [0..<k]"
proof -
  assume a: "k \<le> n" "\<And>j. j < k \<Longrightarrow> P j" "k < n" "\<not> P k"
  then have "[0..<n] = [0..<k] @ k # [Suc k..<n]"
    by (metis upt_add_eq_append upt_conv_Cons le_add_diff_inverse zero_le)
  with a show ?thesis by (simp add: takeWhile_append)
qed

text \<open>The spans after the open ends are set to the borders of the sentence.\<close>

definition spans_ok :: "nat \<Rightarrow> QUOTE_DATA \<Rightarrow> bool" where
  "spans_ok n q \<longleftrightarrow>
     (\<exists>k < QUOTE_MAX. quote_entries q = [0..<k]) \<and>
     (\<forall>j \<in> set (quote_entries q). 0 \<le> in_num q j \<and> in_num q j \<le> out_num q j \<and> out_num q j < int n) \<and>
     (\<forall>j \<in> set (quote_entries q). \<forall>l \<in> set (quote_entries q).
        laminar (in_num q j) (out_num q j) (in_num q l) (out_num q l))"

lemma check_quote_spans:
  assumes "check_quote sp \<lparr>in_num = \<lambda>_. -1, out_num = \<lambda>_. -1\<rparr> = (r, q)" and "r \<noteq> CONTINUE"
  shows "spans_ok (Bnst_num sp) q"
proof -
  define st where "st = for_upt 0 (Bnst_num sp) (\<lambda>i. quote_bnst (bnst_f sp i) i)
    \<lparr>q_k = 0, q_stack = [], q_data = \<lparr>in_num = \<lambda>_. -1, out_num = \<lambda>_. -1\<rparr>, q_stop = False\<rparr>"
  have q: "q = for_upt 0 (q_k st) (quote_border sp) (q_data st)"
    using assms by (auto simp: check_quote_def st_def [symmetric] Let_def split: if_splits)
  note D = quote_okD [OF quote_scan_ok [of sp, folded st_def]]
  have i: "in_num q j = (if j < q_k st then q_in (q_data st) j else -1)" for j
    using D(2) by (simp add: q quote_border_loop)
  have o: "out_num q j = (if out_num (q_data st) j = -1 then int (Bnst_num sp) - 1
      else out_num (q_data st) j)" if "j < q_k st" for j
    using that by (simp add: q quote_border_loop)
  have pos: "0 \<le> q_in (q_data st) j" if "j < q_k st" for j
    using D(8) [of j] D(10) [of j] that by (cases "j \<in> set (q_stack st)") (auto simp: q_closed_def q_in_def)
  have e: "quote_entries q = [0..<q_k st]" unfolding quote_entries_def
    using D(1) by (intro takeWhile_upt) (auto simp: i pos QUOTE_MAX_def)
  have si: "q_in (q_data st) s = in_num (q_data st) s" if "s \<in> set (q_stack st)" for s
    using D(8) [OF that] by (simp add: q_in_def)
  have b: "q_in (q_data st) j \<le> out_num q j \<and> out_num q j < int (Bnst_num sp)" if j: "j < q_k st" for j
  proof (cases "j \<in> set (q_stack st)")
    case True
    then show ?thesis using D(7-9) [OF True] si [OF True] o [OF j] by auto
  next
    case False
    then have c: "q_closed st j" using j by (simp add: q_closed_def)
    show ?thesis using D(11,12) [OF c] o [OF j] pos [OF j] by auto
  qed
  have opn: "out_num q s = int (Bnst_num sp) - 1" if "s \<in> set (q_stack st)" for s
    using that o [OF D(6)] D(7) by simp
  have closed: "out_num q j = out_num (q_data st) j" if c: "q_closed st j" for j
  proof -
    have "j < q_k st" using c by (simp add: q_closed_def)
    then show ?thesis using o D(11) [OF c] pos [of j] by fastforce
  qed
  have lam: "laminar (q_in (q_data st) j) (out_num q j) (q_in (q_data st) l) (out_num q l)"
    if j: "j < q_k st" and l: "l < q_k st" for j l
  proof -
    consider "q_closed st j" "q_closed st l" | "q_closed st j" "l \<in> set (q_stack st)"
      | "j \<in> set (q_stack st)" "q_closed st l" | "j \<in> set (q_stack st)" "l \<in> set (q_stack st)"
      using j l by (auto simp: q_closed_def)
    then show ?thesis
      by cases (use D(13) [of j l] D(14) [of j l] D(14) [of l j] D(12) [of j] D(12) [of l] b in
          \<open>auto simp: opn closed si laminar_def\<close>)
  qed
  show ?thesis
    unfolding spans_ok_def
    using D(1) b pos lam by (auto simp: e i QUOTE_MAX_def intro!: exI [of _ "q_k st"])
qed

section \<open>The masks\<close>

text \<open>The cells that the quotation \<open>[start, fin]\<close> closes.\<close>

definition quote_blocks :: "SENTENCE_DATA \<Rightarrow> nat \<Rightarrow> nat \<Rightarrow> nat \<Rightarrow> nat \<Rightarrow> bool" where
  "quote_blocks sp start fin i j \<longleftrightarrow> start \<noteq> fin \<and>
     ((i < start \<and> start \<le> j \<and> j < fin) \<or>
      (i < start \<and> j = fin \<and> \<not> adnominal (bnst_f sp i)) \<or>
      (start \<le> i \<and> i < fin \<and> fin < j \<and> j < Bnst_num sp) \<or>
      (\<exists>l \<in> {start..<fin}. has_feature (bnst_f sp l) s_k_bunmatsu \<and>
         start \<le> i \<and> i < l \<and> l < j \<and> j \<le> fin))"

lemma mask_quote_above_apply:
  "start < fin \<Longrightarrow> mask_quote_above sp start fin m i j =
     (if i < start \<and> ((start \<le> j \<and> j < fin) \<or> (j = fin \<and> \<not> adnominal (bnst_f sp i)))
      then 0 else m i j)"
proof -
  assume sf: "start < fin"
  have "for_upt 0 n
       (\<lambda>i m. let m1 = for_upt start fin (\<lambda>j. set_cell i j 0) m
              in if m1 i fin \<noteq> 0 \<and> adnominal (bnst_f sp i) then m1 else set_cell i fin 0 m1) m i j =
     (if i < n \<and> ((start \<le> j \<and> j < fin) \<or> (j = fin \<and> \<not> adnominal (bnst_f sp i)))
      then 0 else m i j)" for n
    using sf
    by (induction n) (auto simp: for_upt_Suc Let_def matrix less_Suc_eq)
  then show ?thesis by (simp add: mask_quote_above_def)
qed

lemma mask_quote_period_apply:
  assumes "start \<le> fin"
  shows "mask_quote_period sp start fin m i j =
     (if \<exists>l \<in> {start..<fin}. has_feature (bnst_f sp l) s_k_bunmatsu \<and>
         start \<le> i \<and> i < l \<and> l < j \<and> j \<le> fin then 0 else m i j)"
proof -
  define B where
    "B l \<longleftrightarrow> has_feature (bnst_f sp l) s_k_bunmatsu \<and> start \<le> i \<and> i < l \<and> l < j \<and> j \<le> fin" for l
  let ?body = "\<lambda>l m. if has_feature (bnst_f sp l) s_k_bunmatsu
              then fill_rect start l (l + 1) (fin + 1) 0 m else m"
  have body: "?body l m i j = (if B l then 0 else m i j)" for l and m :: "int matrix"
    by (auto simp: B_def fill_rect_apply)
  have "for_upt start fin ?body m i j = (if \<exists>l \<in> {start..<fin}. B l then 0 else m i j)"
    by (rule for_upt_cell) (rule body)
  then show ?thesis using assms by (simp add: mask_quote_period_def B_def)
qed

lemma mask_quote_span_apply:
  assumes "a < b"
  shows "mask_quote_period sp a b (mask_quote_right sp a b (mask_quote_above sp a b m)) i j =
    (if quote_blocks sp a b i j then 0 else m i j)"
proof -
  define P where "P \<longleftrightarrow> (\<exists>l \<in> {a..<b}. has_feature (bnst_f sp l) s_k_bunmatsu \<and>
    a \<le> i \<and> i < l \<and> l < j \<and> j \<le> b)"
  have "a \<le> b" using assms by simp
  then show ?thesis using assms
    unfolding quote_blocks_def mask_quote_period_apply [OF \<open>a \<le> b\<close>] P_def [symmetric]
    by (auto simp: mask_quote_right_def fill_rect_apply mask_quote_above_apply)
qed

lemma mask_quote_entry_apply:
  assumes "nat (in_num q k) \<le> nat (out_num q k)"
  shows "mask_quote_entry sp q k m i j =
     (if quote_blocks sp (nat (in_num q k)) (nat (out_num q k)) i j then 0 else m i j)"
proof (cases "nat (in_num q k) = nat (out_num q k)")
  case True
  then show ?thesis by (simp add: mask_quote_entry_def quote_blocks_def)
next
  case False
  with assms have "nat (in_num q k) < nat (out_num q k)" by linarith
  from mask_quote_span_apply [OF this] False show ?thesis
    by (simp add: mask_quote_entry_def Let_def)
qed

lemma mask_quote_fold:
  assumes "\<forall>k \<in> set ks. nat (in_num q k) \<le> nat (out_num q k)"
  shows "fold (mask_quote_entry sp q) ks m i j =
     (if \<exists>k \<in> set ks. quote_blocks sp (nat (in_num q k)) (nat (out_num q k)) i j then 0 else m i j)"
  using assms
  by (induction ks arbitrary: m) (auto simp: mask_quote_entry_apply)

lemma mask_quote_apply:
  assumes "spans_ok n q"
  shows "mask_quote sp q m i j =
    (if \<exists>k \<in> set (quote_entries q). quote_blocks sp (nat (in_num q k)) (nat (out_num q k)) i j
     then 0 else m i j)"
  using assms unfolding mask_quote_def spans_ok_def by (intro mask_quote_fold) auto

lemma quote_entries_init [simp]: "quote_entries \<lparr>in_num = \<lambda>_. -1, out_num = outs\<rparr> = []"
  by (simp add: quote_entries_def takeWhile_eq_Nil_iff)

lemma check_quote_zero:
  assumes "check_quote sp \<lparr>in_num = \<lambda>_. -1, out_num = \<lambda>_. -1\<rparr> = (0, q)"
  shows "quote_entries q = []"
proof -
  have "spans_ok (Bnst_num sp) q"
    using check_quote_spans [OF assms] by (simp add: CONTINUE_def)
  moreover have "in_num q 0 = -1"
    using assms quote_okD(2) [OF quote_scan_ok [of sp], of 0]
    by (auto simp: check_quote_def Let_def CONTINUE_def split: if_splits)
  ultimately show ?thesis
    by (auto simp: spans_ok_def) (metis atLeastLessThan_iff atLeastLessThan_upt gr_zeroI le_zero_eq
        neg_0_le_iff_le not_one_le_zero upt_0)
qed

text \<open>The Chinese mask closes the two bracket tokens to everything outside and to each other.\<close>

definition chi_blocks :: "SENTENCE_DATA \<Rightarrow> nat \<Rightarrow> nat \<Rightarrow> nat \<Rightarrow> nat \<Rightarrow> bool" where
  "chi_blocks sp start fin i j \<longleftrightarrow>
     (i < start \<and> (j = start \<or> j = fin)) \<or>
     (fin < j \<and> j < Bnst_num sp \<and> (i = start \<or> i = fin)) \<or> (i = start \<and> j = fin)"

lemma for_upt_column:
  "for_upt 0 n (\<lambda>i m. set_cell i b 0 (set_cell i a 0 m)) m x y =
     (if x < n \<and> (y = a \<or> y = b) then 0 else m x y)" for m :: "int matrix"
  by (induction n) (auto simp: for_upt_Suc set_cell_apply less_Suc_eq)

lemma for_upt_rows:
  "for_upt c n (\<lambda>i m. set_cell b i 0 (set_cell a i 0 m)) m x y =
     (if c \<le> y \<and> y < n \<and> (x = a \<or> x = b) then 0 else m x y)" for m :: "int matrix"
proof (cases "c \<le> n")
  case True
  then show ?thesis
    by (induction n rule: dec_induct) (auto simp: for_upt_Suc set_cell_apply less_Suc_eq)
qed auto

lemma mask_chi_matrix_apply:
  "mask_chi_matrix sp start fin m i j = (if chi_blocks sp start fin i j then 0 else m i j)"
  by (auto simp: mask_chi_matrix_def set_cell_apply for_upt_column for_upt_rows chi_blocks_def)

definition chi_quote_at :: "bool \<Rightarrow> SENTENCE_DATA \<Rightarrow> nat \<Rightarrow> nat \<Rightarrow> bool" where
  "chi_quote_at OptChiPos sp start fin \<longleftrightarrow> start \<noteq> fin \<and>
     (OptChiPos \<or> has_feature (bnst_f sp start) ''PU'' \<and> has_feature (bnst_f sp fin) ''PU'')"

lemma mask_quote_for_chi_apply:
  "Quote_matrix (mask_quote_for_chi OptChiPos sp q m) i j =
     (if \<exists>k \<in> set (quote_entries q). chi_quote_at OptChiPos sp (nat (in_num q k)) (nat (out_num q k)) \<and>
           chi_blocks sp (nat (in_num q k)) (nat (out_num q k)) i j
      then 0 else Quote_matrix m i j)"
proof -
  have "Quote_matrix (fold (\<lambda>k m.
       let start = nat (in_num q k); fin = nat (out_num q k) in
       if start = fin then m
       else if (\<not> OptChiPos \<and> has_feature (bnst_f sp start) ''PU'' \<and>
                has_feature (bnst_f sp fin) ''PU'') \<or> OptChiPos
       then m\<lparr>Quote_matrix := mask_chi_matrix sp start fin (Quote_matrix m),
              Chi_quote_start_matrix :=
                mask_chi_span start fin (int start) (Chi_quote_start_matrix m),
              Chi_quote_end_matrix :=
                mask_chi_span start fin (int fin) (Chi_quote_end_matrix m)\<rparr>
       else m) ks m) i j =
     (if \<exists>k \<in> set ks. chi_quote_at OptChiPos sp (nat (in_num q k)) (nat (out_num q k)) \<and>
           chi_blocks sp (nat (in_num q k)) (nat (out_num q k)) i j
      then 0 else Quote_matrix m i j)" for ks
    by (induction ks arbitrary: m)
      (auto simp: Let_def mask_chi_matrix_apply chi_quote_at_def split: if_splits)
  then show ?thesis by (simp add: mask_quote_for_chi_def)
qed

section \<open>What the parser relies on\<close>

text \<open>
  Unless there are too many brackets, the quoted spans that are found lie inside the sentence,
  are at most \<open>QUOTE_MAX - 1\<close> in number, so that the negative end mark of the table is kept, and
  are properly nested: two spans are disjoint or one contains the other, also when brackets are left
  open or closed without having been opened.
\<close>

theorem quote_spans_nested:
  assumes "fst (quote Language OptChiGenerative OptChiPos sp m) \<noteq> CONTINUE"
  shows "spans_ok (Bnst_num sp) (fst (snd (quote Language OptChiGenerative OptChiPos sp m)))"
proof (cases "check_quote sp \<lparr>in_num = \<lambda>_. -1, out_num = \<lambda>_. -1\<rparr>")
  case (Pair r q)
  have "spans_ok (Bnst_num sp) \<lparr>in_num = \<lambda>_. -1, out_num = \<lambda>_. -1\<rparr>"
    by (simp add: spans_ok_def QUOTE_MAX_def exI [of _ 0])
  then show ?thesis
    using assms check_quote_spans [OF Pair] Pair
    by (auto simp: quote_def init_quote_def Let_def CONTINUE_def split: if_splits)
qed

theorem quote_spans_nested_witness:
  "spans_ok 3 (fst (snd (quote JAPANESE False False
     (sample_sentence [[s_kakko_shi], [s_kakko_shi, s_kakko_shuu], [s_kakko_shuu]])
     \<lparr>Quote_matrix = \<lambda>_ _. 0, Chi_quote_start_matrix = \<lambda>_ _. 0, Chi_quote_end_matrix = \<lambda>_ _. 0\<rparr>)))"
proof -
  have "fst (quote JAPANESE False False
     (sample_sentence [[s_kakko_shi], [s_kakko_shi, s_kakko_shuu], [s_kakko_shuu]])
     \<lparr>Quote_matrix = \<lambda>_ _. 0, Chi_quote_start_matrix = \<lambda>_ _. 0, Chi_quote_end_matrix = \<lambda>_ _. 0\<rparr>) = 1"
    by code_simp
  then show ?thesis
    using quote_spans_nested [of JAPANESE False False
        "sample_sentence [[s_kakko_shi], [s_kakko_shi, s_kakko_shuu], [s_kakko_shuu]]"]
    by (simp add: CONTINUE_def numeral_3_eq_3)
qed

lemma quote_matrix_exact_aux:
  assumes "Language \<noteq> CHINESE" and "i < Bnst_num sp" and "j < Bnst_num sp"
  shows "Quote_matrix (snd (snd (quote Language OptChiGenerative OptChiPos sp m))) i j =
    (let r = fst (quote Language OptChiGenerative OptChiPos sp m);
         q = fst (snd (quote Language OptChiGenerative OptChiPos sp m))
     in if r \<noteq> CONTINUE \<and>
          (\<exists>k \<in> set (quote_entries q). quote_blocks sp (nat (in_num q k)) (nat (out_num q k)) i j)
        then 0 else 1)"
proof (cases "check_quote sp \<lparr>in_num = \<lambda>_. -1, out_num = \<lambda>_. -1\<rparr>")
  case (Pair r q)
  consider "r = 0" | "r = CONTINUE" | "r \<noteq> 0" "r \<noteq> CONTINUE" by blast
  then show ?thesis
  proof cases
    case 1
    then show ?thesis using assms Pair check_quote_zero
      by (simp add: quote_def init_quote_def Let_def CONTINUE_def fill_rect_apply)
  next
    case 2
    then show ?thesis using assms Pair
      by (simp add: quote_def init_quote_def Let_def CONTINUE_def fill_rect_apply)
  next
    case 3
    then show ?thesis using assms Pair mask_quote_apply [OF check_quote_spans [OF Pair 3(2)]]
      by (simp add: quote_def init_quote_def Let_def fill_rect_apply)
  qed
qed

text \<open>
  C10. For a Japanese sentence the quotation matrix has 0 exactly in the cells that some quoted span
  of at least two bunsetsu closes, and 1 elsewhere; after too many brackets it is 1 everywhere.
\<close>

theorem quote_matrix_exact:
  assumes "Language \<noteq> CHINESE" and "i < Bnst_num sp" and "j < Bnst_num sp"
  shows "Quote_matrix (snd (snd (quote Language OptChiGenerative OptChiPos sp m))) i j =
    (let r = fst (quote Language OptChiGenerative OptChiPos sp m);
         q = fst (snd (quote Language OptChiGenerative OptChiPos sp m))
     in if r \<noteq> CONTINUE \<and>
          (\<exists>k \<in> set (quote_entries q). quote_blocks sp (nat (in_num q k)) (nat (out_num q k)) i j)
        then 0 else 1)"
  using assms by (rule quote_matrix_exact_aux)

text \<open>The witness has a quotation of bunsetsu 1 and 2: bunsetsu 0 cannot depend on 1, 1 on 3.\<close>

theorem quote_matrix_exact_witness:
  "Quote_matrix (snd (snd (quote JAPANESE False False
     (sample_sentence [[], [s_kakko_shi], [s_kakko_shuu], []])
     \<lparr>Quote_matrix = \<lambda>_ _. 5, Chi_quote_start_matrix = \<lambda>_ _. 0, Chi_quote_end_matrix = \<lambda>_ _. 0\<rparr>)))
     1 3 = 0"
proof -
  let ?sp = "sample_sentence [[], [s_kakko_shi], [s_kakko_shuu], []]"
  let ?m = "\<lparr>Quote_matrix = \<lambda>_ _. 5, Chi_quote_start_matrix = \<lambda>_ _. 0,
      Chi_quote_end_matrix = \<lambda>_ _. 0\<rparr> :: QUOTE_MATRICES"
  let ?r = "quote JAPANESE False False ?sp ?m"
  have "fst ?r \<noteq> CONTINUE" by code_simp
  moreover have "\<exists>k \<in> set (quote_entries (fst (snd ?r))). quote_blocks ?sp
      (nat (in_num (fst (snd ?r)) k)) (nat (out_num (fst (snd ?r)) k)) 1 3" by code_simp
  ultimately show ?thesis
    using quote_matrix_exact [of JAPANESE 1 ?sp 3 False False ?m] by (simp add: Let_def)
qed

text \<open>
  No dependency leaves or enters a quotation: where the Japanese matrix is not 0, a governor of
  a bunsetsu inside the span, other than its last one, is inside too, and a governor inside of a
  bunsetsu before the span is the last of the span, and then the dependant is adnominal.
\<close>

theorem quote_no_crossing:
  assumes "quote JAPANESE OptChiGenerative OptChiPos sp m = (r, q, m')" and "r \<noteq> CONTINUE"
    and "Quote_matrix m' i j \<noteq> 0" and "i < j" and "j < Bnst_num sp"
    and "k \<in> set (quote_entries q)" and "in_num q k < out_num q k"
  shows "(in_num q k \<le> int i \<and> int i < out_num q k \<longrightarrow> int j \<le> out_num q k) \<and>
    (int i < in_num q k \<and> in_num q k \<le> int j \<and> int j \<le> out_num q k \<longrightarrow>
       int j = out_num q k \<and> adnominal (bnst_f sp i))"
proof -
  have e: "Quote_matrix m' i j =
    (if \<exists>k \<in> set (quote_entries q). quote_blocks sp (nat (in_num q k)) (nat (out_num q k)) i j
     then 0 else 1)"
    using assms(1,2,4,5) quote_matrix_exact_aux [of JAPANESE i sp j OptChiGenerative OptChiPos m]
    by (simp add: Let_def)
  have "0 \<le> in_num q k"
    using assms(6) by (auto simp: quote_entries_def dest: set_takeWhileD)
  moreover have "\<not> quote_blocks sp (nat (in_num q k)) (nat (out_num q k)) i j"
    using e assms(3,6) by (auto split: if_splits)
  ultimately show ?thesis
    using assms(4,5,7) by (auto simp: quote_blocks_def)
qed

theorem quote_no_crossing_witness:
  "\<exists>r q m'. quote JAPANESE False False (sample_sentence [[], [s_kakko_shi], [s_kakko_shuu], []])
       \<lparr>Quote_matrix = \<lambda>_ _. 5, Chi_quote_start_matrix = \<lambda>_ _. 0, Chi_quote_end_matrix = \<lambda>_ _. 0\<rparr>
       = (r, q, m') \<and> Quote_matrix m' 1 2 = 1 \<and> int 2 \<le> out_num q 0"
proof -
  let ?sp = "sample_sentence [[], [s_kakko_shi], [s_kakko_shuu], []]"
  let ?m = "\<lparr>Quote_matrix = \<lambda>_ _. 5, Chi_quote_start_matrix = \<lambda>_ _. 0,
      Chi_quote_end_matrix = \<lambda>_ _. 0\<rparr> :: QUOTE_MATRICES"
  obtain r q m' where r: "quote JAPANESE False False ?sp ?m = (r, q, m')"
    using prod_cases3 by blast
  have f: "Quote_matrix (snd (snd (quote JAPANESE False False ?sp ?m))) 1 2 = 1"
    "fst (quote JAPANESE False False ?sp ?m) \<noteq> CONTINUE"
    "0 \<in> set (quote_entries (fst (snd (quote JAPANESE False False ?sp ?m))))"
    "in_num (fst (snd (quote JAPANESE False False ?sp ?m))) 0 = 1"
    "out_num (fst (snd (quote JAPANESE False False ?sp ?m))) 0 = 2"
    by code_simp+
  show ?thesis
    using quote_no_crossing [of False False ?sp ?m r q m' 1 2 0] f r by auto
qed

text \<open>
  For a Chinese sentence, a quotation whose two ends are punctuation (or any quotation, when
  parts of speech are not used) closes its two ends to every word outside and to each other, and no
  other cell is closed.
\<close>

theorem quote_matrix_chinese:
  assumes "i < Bnst_num sp" and "j < Bnst_num sp"
    and "fst (quote CHINESE False OptChiPos sp m) \<noteq> CONTINUE"
  shows "Quote_matrix (snd (snd (quote CHINESE False OptChiPos sp m))) i j =
    (let q = fst (snd (quote CHINESE False OptChiPos sp m))
     in if \<exists>k \<in> set (quote_entries q).
             chi_quote_at OptChiPos sp (nat (in_num q k)) (nat (out_num q k)) \<and>
             chi_blocks sp (nat (in_num q k)) (nat (out_num q k)) i j
        then 0 else 1)"
proof (cases "check_quote sp \<lparr>in_num = \<lambda>_. -1, out_num = \<lambda>_. -1\<rparr>")
  case (Pair r q)
  then show ?thesis
    using assms check_quote_zero [of sp q]
    by (cases "r = 0")
      (auto simp: quote_def init_quote_def Let_def CONTINUE_def fill_rect_apply
        mask_quote_for_chi_apply split: if_splits)
qed

theorem quote_matrix_chinese_witness:
  "Quote_matrix (snd (snd (quote CHINESE False True
     (sample_sentence [[], [s_kakko_shi], [s_kakko_shuu], []])
     \<lparr>Quote_matrix = \<lambda>_ _. 5, Chi_quote_start_matrix = \<lambda>_ _. 0, Chi_quote_end_matrix = \<lambda>_ _. 0\<rparr>)))
     0 1 = 0"
proof -
  let ?sp = "sample_sentence [[], [s_kakko_shi], [s_kakko_shuu], []]"
  let ?m = "\<lparr>Quote_matrix = \<lambda>_ _. 5, Chi_quote_start_matrix = \<lambda>_ _. 0,
      Chi_quote_end_matrix = \<lambda>_ _. 0\<rparr> :: QUOTE_MATRICES"
  let ?r = "quote CHINESE False True ?sp ?m"
  have "fst ?r \<noteq> CONTINUE" by code_simp
  moreover have "\<exists>k \<in> set (quote_entries (fst (snd ?r))).
      chi_quote_at True ?sp (nat (in_num (fst (snd ?r)) k)) (nat (out_num (fst (snd ?r)) k)) \<and>
      chi_blocks ?sp (nat (in_num (fst (snd ?r)) k)) (nat (out_num (fst (snd ?r)) k)) 0 1" by code_simp
  ultimately show ?thesis
    using quote_matrix_chinese [of 0 ?sp 1 True ?m] by (simp add: Let_def)
qed

end
