(* ===== verification/Knp_Scope.thy ===== *)
theory Knp_Scope
  imports Knp_Check Knp_Quote
begin

text \<open>
  The scope of a coordination, from \<open>src/system/para_analysis.c\<close>. A coordination has a key bunsetsu;
  its scope is found by dynamic programming over a matrix of similarities between the bunsetsu up to
  the key (rows) and those after it (columns), from the last column to the one after the key. The
  theory models the tables, the search, the choice of the best scope and the extraction of its path,
  and shows that the table holds the maximal scores of paths and that the path extracted is one of
  them.

  The globals of the file are a record. The scores of scopes are single precision numbers: their type
  and operations are a parameter, a record of the operations that the code uses.
\<close>

section \<open>Definitions\<close>

subsection \<open>Data\<close>

definition PENALTY :: int where "PENALTY = 1"
definition BONUS :: int where "BONUS = 2"
definition MINUS :: int where "MINUS = 7"
definition PENA_MAX :: int where "PENA_MAX = 1000"
definition START_HERE :: int where "START_HERE = -1"
definition PARA_MAX :: nat where "PARA_MAX = 32"
definition PARA_KEY_O :: int where "PARA_KEY_O = 0"
definition PARA_KEY_N :: int where "PARA_KEY_N = 1"
definition PARA_KEY_P :: int where "PARA_KEY_P = 2"
definition PARA_KEY_I :: int where "PARA_KEY_I = 3"
definition PARA_KEY_A :: int where "PARA_KEY_A = 4"

text \<open>
  Floating point: a decimal literal \<open>m\<close> over \<open>10 ^ k\<close>, the operations, \<^verbatim>\<open>%f\<close> of \<^verbatim>\<open>sscanf\<close>, the
  comparison of a score with the double constant 3.9, and \<^verbatim>\<open>%.3f\<close> of \<^verbatim>\<open>sprintf\<close>.
\<close>

record 'f FLOAT =
  fl_lit :: "int \<Rightarrow> nat \<Rightarrow> 'f"
  fl_add :: "'f \<Rightarrow> 'f \<Rightarrow> 'f"
  fl_div :: "'f \<Rightarrow> 'f \<Rightarrow> 'f"
  fl_less :: "'f \<Rightarrow> 'f \<Rightarrow> bool"
  fl_le :: "'f \<Rightarrow> 'f \<Rightarrow> bool"
  fl_eq :: "'f \<Rightarrow> 'f \<Rightarrow> bool"
  fl_scan :: "string \<Rightarrow> 'f option"
  fl_strong :: "'f \<Rightarrow> bool"
  fl_print3 :: "'f \<Rightarrow> string"

definition fl_int :: "'f FLOAT \<Rightarrow> int \<Rightarrow> 'f" where
  "fl_int F n = fl_lit F n 0"

definition ENOUGH_MINUS :: "'f FLOAT \<Rightarrow> 'f" where
  "ENOUGH_MINUS F = fl_lit F (-1000) 1"

text \<open>The table by which the length of a scope normalises its score, in hundredths.\<close>

definition norm_table :: "int list" where
  "norm_table =
     [100, 100, 159, 208, 252, 292, 330, 366, 400, 433,
      464, 495, 524, 553, 581, 608, 635, 661, 687, 712,
      737, 761, 785, 809, 832, 855, 878, 900, 922, 944,
      965, 987, 1008, 1029, 1050, 1070, 1090, 1110, 1130, 1150,
      1170, 1189, 1208, 1227, 1246, 1265, 1284, 1302, 1321, 1339]"

definition norm_at :: "'f FLOAT \<Rightarrow> int \<Rightarrow> 'f option" where
  "norm_at F n = (if n < 0 then None else map_option (\<lambda>m. fl_lit F m 2) (at norm_table (nat n)))"

record 'f PARA_DATA =
  para_char :: char
  pd_type :: int
  key_pos :: nat
  iend_pos :: int
  jend_pos :: nat
  max_path :: "nat \<Rightarrow> int"
  pd_f_pattern :: FEATURE_PATTERN
  max_score :: 'f
  pure_score :: 'f
  pd_status :: char
  manager_ptr :: "nat option"

record 'f SCOPE =
  match_matrix :: "int matrix"
  restrict_matrix :: "int matrix"
  score_matrix :: "int matrix"
  prepos_matrix :: "int matrix"
  maxpos_array :: "nat \<Rightarrow> int"
  maxsco_array :: "nat \<Rightarrow> int"
  penalty_table :: "nat \<Rightarrow> int"
  Para_matrix :: "nat \<Rightarrow> 'f matrix"

subsection \<open>Restrictions by quotations\<close>

definition mask_scope_entry :: "SENTENCE_DATA \<Rightarrow> QUOTE_DATA \<Rightarrow> nat \<Rightarrow> nat \<Rightarrow> int matrix \<Rightarrow> int matrix" where
  "mask_scope_entry sp q key k m =
     (let start = nat (in_num q k); fin = nat (out_num q k) in
      if key < start then fill_rect 0 start start fin 0 m
      else if fin \<le> key then fill_rect (start + 1) (fin + 1) (fin + 1) (Bnst_num sp) 0 m
      else for_upt start fin
             (\<lambda>l m. if has_feature (bnst_f sp l) s_k_bunmatsu
                    then fill_rect start (l + 1) (l + 1) (fin + 1) 0 m else m)
             (for_upt 0 (fin + 1)
               (\<lambda>i. for_upt start (Bnst_num sp)
                 (\<lambda>j m. if i < start \<or> fin < j then set_cell i j 0 m else m)) m))"

definition mask_quote_scope :: "SENTENCE_DATA \<Rightarrow> QUOTE_DATA \<Rightarrow> nat \<Rightarrow> int matrix \<Rightarrow> int matrix" where
  "mask_quote_scope sp q key m = fold (mask_scope_entry sp q key) (quote_entries q) m"

subsection \<open>Penalties and bonuses\<close>

definition bnst_match :: "SENTENCE_DATA \<Rightarrow> nat \<Rightarrow> nat \<Rightarrow> bool" where
  "bnst_match sp pos1 pos2 =
     (let f1 = bnst_f sp pos1; f2 = bnst_f sp pos2 in
      if check_feature f1 s_kakari = None \<or> check_feature f2 s_kakari = None \<or>
         check_feature f1 s_kakari \<noteq> check_feature f2 s_kakari then False
      else if has_feature f1 s_yougen \<noteq> has_feature f2 s_yougen then False
      else if has_feature f1 s_yougen \<and>
              (check_feature f1 ''ID'' = None \<or> check_feature f2 ''ID'' = None \<or>
               check_feature f1 ''ID'' \<noteq> check_feature f2 ''ID'') then False
      else has_feature f1 s_touten = has_feature f2 s_touten)"

definition sp_level_at :: "SENTENCE_DATA \<Rightarrow> nat \<Rightarrow> int" where
  "sp_level_at sp i = n_sp_level (bnst_data sp ! i)"

definition calc_static_level_penalty :: "SENTENCE_DATA \<Rightarrow> nat \<Rightarrow> nat \<Rightarrow> int" where
  "calc_static_level_penalty sp key pos =
     (let level1 = sp_level_at sp key; level2 = sp_level_at sp pos in
      if level1 \<le> level2 then MINUS * (level2 - level1 + 1) else 0)"

definition calc_dynamic_level_penalty :: "SENTENCE_DATA \<Rightarrow> (nat \<Rightarrow> int) \<Rightarrow> nat \<Rightarrow> nat \<Rightarrow> nat \<Rightarrow> int" where
  "calc_dynamic_level_penalty sp pen key pos1 pos2 =
     (if sp_level_at sp pos1 = sp_level_at sp pos2 \<and> bnst_match sp pos1 pos2 \<and> \<not> bnst_match sp pos1 key then 0
      else if has_feature (bnst_f sp pos1) s_teidai \<and> has_feature (bnst_f sp pos2) s_teidai then 0
      else pen pos1 + pen pos2)"

definition calc_starting_bonus_score :: "SENTENCE_DATA \<Rightarrow> nat \<Rightarrow> 'f PARA_DATA \<Rightarrow> int" where
  "calc_starting_bonus_score sp istart p =
     (let f = bnst_f sp istart in
      if pd_type p = PARA_KEY_I then 0
      else if pd_type p = PARA_KEY_N then (if has_feature f s_nahei_shiten then BONUS else 0)
      else if pd_type p = PARA_KEY_P then (if has_feature f s_juhei_shiten then BONUS else 0)
      else 0)"

definition calc_ending_bonus_score :: "SENTENCE_DATA \<Rightarrow> nat \<Rightarrow> 'f PARA_DATA \<Rightarrow> int" where
  "calc_ending_bonus_score sp jend p =
     (let f = bnst_f sp jend in
      if pd_type p = PARA_KEY_I then 0
      else if pd_type p = PARA_KEY_N then
        (if has_feature (bnst_f sp (key_pos p)) s_k_tokaku \<and> has_feature f s_T_nahei_shuuten_toto then BONUS
         else if has_feature f s_T_nahei_shuuten then BONUS else 0)
      else if pd_type p = PARA_KEY_P then (if has_feature f s_T_juhei_shuuten then BONUS else 0)
      else 0)"

subsection \<open>The tables\<close>

text \<open>The penalty for a row or a column that is passed over.\<close>

definition gap_penalty :: "language \<Rightarrow> (nat \<Rightarrow> int) \<Rightarrow> nat \<Rightarrow> int" where
  "gap_penalty Language pen i = (if Language = CHINESE then PENALTY else PENALTY + pen i)"

definition conjunction_column :: "language \<Rightarrow> SENTENCE_DATA \<Rightarrow> nat \<Rightarrow> bool" where
  "conjunction_column Language sp j \<longleftrightarrow>
     Language = CHINESE \<and> (has_feature (bnst_f sp j) ''CC'' \<or> has_feature (bnst_f sp j) ''PU'')"

definition set_score :: "nat \<Rightarrow> nat \<Rightarrow> int \<Rightarrow> 'f SCOPE \<Rightarrow> 'f SCOPE" where
  "set_score i j v S = S\<lparr>score_matrix := set_cell i j v (score_matrix S)\<rparr>"

definition set_prepos :: "nat \<Rightarrow> nat \<Rightarrow> int \<Rightarrow> 'f SCOPE \<Rightarrow> 'f SCOPE" where
  "set_prepos i j v S = S\<lparr>prepos_matrix := set_cell i j v (prepos_matrix S)\<rparr>"

definition dp_first_column :: "nat \<Rightarrow> nat \<Rightarrow> 'f SCOPE \<Rightarrow> 'f SCOPE" where
  "dp_first_column iend jend S =
     fold (\<lambda>i. set_score i jend (- PENA_MAX)) (rev [0..<iend])
       (set_prepos iend jend START_HERE (set_score iend jend (match_matrix S iend jend) S))"

definition dp_last_row :: "nat \<Rightarrow> nat \<Rightarrow> 'f SCOPE \<Rightarrow> 'f SCOPE" where
  "dp_last_row iend j S =
     set_prepos iend j (int iend)
       (set_score iend j (score_matrix S iend (j + 1) - PENALTY - penalty_table S j) S)"

definition dp_cell :: "language \<Rightarrow> SENTENCE_DATA \<Rightarrow> nat \<Rightarrow> nat \<Rightarrow> nat \<Rightarrow> 'f SCOPE \<Rightarrow> 'f SCOPE" where
  "dp_cell Language sp key j i S =
     (let score_upward = match_matrix S i j + maxsco_array S (i + 1)
            - (if Language = CHINESE then 0 else calc_dynamic_level_penalty sp (penalty_table S) key i j);
          score_sideway = score_matrix S i (j + 1) - gap_penalty Language (penalty_table S) j
      in if conjunction_column Language sp j then set_prepos i j (int i) (set_score i j score_sideway S)
         else if score_upward \<ge> score_sideway
              then set_prepos i j (maxpos_array S (i + 1)) (set_score i j score_upward S)
              else set_prepos i j (int i) (set_score i j score_sideway S))"

text \<open>The maximum over the rows from each row on, less the rows passed over, for the next column.\<close>

definition set_max :: "nat \<Rightarrow> int \<Rightarrow> int \<Rightarrow> 'f SCOPE \<Rightarrow> 'f SCOPE" where
  "set_max i pos sco S =
     S\<lparr>maxpos_array := (maxpos_array S)(i := pos), maxsco_array := (maxsco_array S)(i := sco)\<rparr>"

definition dp_max_step :: "language \<Rightarrow> nat \<Rightarrow> nat \<Rightarrow> int \<times> 'f SCOPE \<Rightarrow> int \<times> 'f SCOPE" where
  "dp_max_step Language j i s =
     (case s of
        (current_max, S) \<Rightarrow>
          let c = current_max - gap_penalty Language (penalty_table S) i in
          if c \<le> score_matrix S i j
          then (score_matrix S i j, set_max i (int i) (score_matrix S i j) S)
          else (c, set_max i (maxpos_array S (i + 1)) c S))"

definition dp_max :: "language \<Rightarrow> nat \<Rightarrow> nat \<Rightarrow> 'f SCOPE \<Rightarrow> 'f SCOPE" where
  "dp_max Language iend j S =
     snd (fold (dp_max_step Language j) (rev [0..<iend])
       (score_matrix S iend j, set_max iend (int iend) (score_matrix S iend j) S))"

definition dp_column ::
  "language \<Rightarrow> SENTENCE_DATA \<Rightarrow> nat \<Rightarrow> nat \<Rightarrow> nat \<Rightarrow> nat \<Rightarrow> 'f SCOPE \<Rightarrow> 'f SCOPE" where
  "dp_column Language sp key iend jend j S =
     dp_max Language iend j
       (if j = jend then dp_first_column iend jend S
        else fold (dp_cell Language sp key j) (rev [0..<iend]) (dp_last_row iend j S))"

definition dp_search_scope ::
  "language \<Rightarrow> SENTENCE_DATA \<Rightarrow> nat \<Rightarrow> nat \<Rightarrow> nat \<Rightarrow> 'f SCOPE \<Rightarrow> 'f SCOPE" where
  "dp_search_scope Language sp key iend jend S =
     fold (dp_column Language sp key iend jend) (rev [key + 1..<jend + 1]) S"

subsection \<open>The path\<close>

text \<open>
  The rows of the best path, read back from the table of predecessors; \<open>j\<close> counts the columns after
  the key. An index past the arrays is undefined. The result is the path and its last column.
\<close>

function trace_path :: "int matrix \<Rightarrow> nat \<Rightarrow> nat \<Rightarrow> (nat \<Rightarrow> int) \<Rightarrow> ((nat \<Rightarrow> int) \<times> nat) option" where
  "trace_path prepos key j path =
     (if path j < 0 \<or> path j \<ge> int BNST_MAX \<or> j + key + 1 \<ge> BNST_MAX then None
      else let q = prepos (nat (path j)) (j + key + 1); path' = path(j + 1 := q) in
           if q = START_HERE then Some (path', j + key + 1) else trace_path prepos key (j + 1) path')"
  by pat_completeness auto
termination
  by (relation "measure (\<lambda>(_, key, j, _). BNST_MAX - j)") auto

declare trace_path.simps [simp del]

subsection \<open>The best scope for one end\<close>

text \<open>
  The threshold for the similarity: the least of those of the patterns that match; the text of a
  pattern may be rewritten by its evaluation.
\<close>

fun threshold_loop ::
  "'f FLOAT \<Rightarrow> ENV \<Rightarrow> SENTENCE_DATA \<Rightarrow> nat \<Rightarrow> nat \<Rightarrow> FEATURE_PATTERN \<Rightarrow> 'f \<Rightarrow> 'f option \<Rightarrow> chk_state \<Rightarrow>
   ('f \<times> FEATURE_PATTERN \<times> chk_state) option" where
  "threshold_loop F e sp key jend [] sim new st = Some (sim, [], st)"
| "threshold_loop F e sp key jend (fp # fps) sim new st =
     (if fp = [] then Some (sim, fp # fps, st) else do { (b, fp', st') \<leftarrow> feature_AND_match e sp fp (bnst_f sp jend) (Some (BnstP key)) (Some (BnstP jend)) st;
          (sim', new') \<leftarrow>
            (if b then
               do { n \<leftarrow> (case check_feature fp' ''&ST'' of
                            None \<Rightarrow> Some (fl_int F 0)
                          | Some cp \<Rightarrow> (if starts cp ''&ST:'' \<and> fl_scan F (drop 4 cp) \<noteq> None
                                        then fl_scan F (drop 4 cp) else new));
                    Some (if fl_less F n sim then n else sim, Some n) }
             else Some (sim, new));
          (s, fps', st'') \<leftarrow> threshold_loop F e sp key jend fps sim' new' st';
          Some (s, fp' # fps', st'') })"

record 'f best_state =
  bs_max :: 'f
  bs_pure :: 'f
  bs_pos :: int
  bs_para :: "'f matrix"

definition scan_row ::
  "'f FLOAT \<Rightarrow> language \<Rightarrow> SENTENCE_DATA \<Rightarrow> 'f SCOPE \<Rightarrow> 'f PARA_DATA \<Rightarrow> nat \<Rightarrow> int \<Rightarrow> 'f \<Rightarrow> nat \<Rightarrow> 'f best_state \<Rightarrow>
   'f best_state option" where
  "scan_row F Language sp S p jend ending sim i b =
     (let starting = calc_starting_bonus_score sp i p;
          column = (if Language = CHINESE then key_pos p + 2 else key_pos p + 1);
          pure = map_option (fl_div F (fl_int F (score_matrix S i column))) (norm_at F (int jend - int i + 1))
      in do { current \<leftarrow>
                (if Language = CHINESE \<and> starting \<noteq> 0 then Some (fl_add F (bs_max b) (fl_int F starting))
                 else map_option (\<lambda>v. fl_add F (fl_add F v (fl_int F starting)) (fl_int F ending)) pure);
              b1 \<leftarrow> (if restrict_matrix S i jend \<noteq> 0 \<and> fl_less F (bs_max b) current
                     then map_option (\<lambda>v. b\<lparr>bs_max := current, bs_pure := v, bs_pos := int i\<rparr>) pure
                     else Some b);
              Some (if restrict_matrix S i jend \<noteq> 0 \<and> fl_le F sim (bs_pure b1)
                    then b1\<lparr>bs_para := set_cell i jend current (bs_para b1)\<rparr> else b1) })"

definition scope_bounds :: "'f PARA_DATA \<Rightarrow> nat option" where
  "scope_bounds p = (if 0 \<le> iend_pos p \<and> iend_pos p < int BNST_MAX then Some (nat (iend_pos p)) else None)"

text \<open>The C function \<^verbatim>\<open>_detect_para_scope\<close>: the scopes that end at \<open>jend\<close>.\<close>

definition detect_para_scope_from ::
  "'f FLOAT \<Rightarrow> ENV \<Rightarrow> language \<Rightarrow> SENTENCE_DATA \<Rightarrow> nat \<Rightarrow> nat \<Rightarrow> 'f PARA_DATA \<Rightarrow> 'f SCOPE \<Rightarrow> chk_state \<Rightarrow>
   ('f PARA_DATA \<times> 'f SCOPE \<times> chk_state) option" where
  "detect_para_scope_from F e Language sp para_num jend p S0 st =
     do { iend \<leftarrow> scope_bounds p;
          let S = S0\<lparr>Para_matrix := (Para_matrix S0)(para_num :=
                    (\<lambda>i j. if i \<le> iend \<and> j = jend then fl_int F (-2147483647) else Para_matrix S0 para_num i j))\<rparr> in
          if match_matrix S iend jend = 0 then Some (p, S, st)
          else if \<forall>i\<in>{..iend}. restrict_matrix S i jend = 0 then Some (p, S, st)
          else if key_pos p + 1 = jend \<and> has_feature (bnst_f sp jend) s_shijishi then Some (p, S, st)
          else
            do { (sim, fps, st1) \<leftarrow>
                   (if pd_f_pattern p = [] \<or> hd (pd_f_pattern p) = [] then Some (fl_int F 0, pd_f_pattern p, st)
                    else threshold_loop F e sp (key_pos p) jend (pd_f_pattern p) (fl_int F 100) None st);
                 let p1 = p\<lparr>pd_f_pattern := fps\<rparr> in
                 if pd_f_pattern p \<noteq> [] \<and> hd (pd_f_pattern p) \<noteq> [] \<and> fl_eq F sim (fl_int F 100)
                 then Some (p1, S, st1)
                 else
                   (let S1 = dp_search_scope Language sp (key_pos p) iend jend S;
                        ending = calc_ending_bonus_score sp jend p1 in
                    do { b \<leftarrow> fold_option (scan_row F Language sp S1 p1 jend ending sim) (rev [0..<iend + 1])
                                \<lparr>bs_max = ENOUGH_MINUS F, bs_pure = fl_int F 0, bs_pos = -1,
                                 bs_para = Para_matrix S1 para_num\<rparr>;
                         let S2 = S1\<lparr>Para_matrix := (Para_matrix S1)(para_num := bs_para b)\<rparr> in
                         if fl_less F (bs_max b) (fl_int F 0) then Some (p1, S2, st1)
                         else
                           (let enough = fl_le F sim (bs_pure b);
                                first = (enough \<and> pd_status p1 = CHR ''x'');
                                flag = (first \<or>
                                        enough \<and> pd_status p1 = CHR ''n'' \<and> fl_less F (max_score p1) (bs_max b) \<or>
                                        pd_status p1 = CHR ''x'' \<and> fl_less F (max_score p1) (bs_max b));
                                p2 = (if first then p1\<lparr>pd_status := CHR ''n''\<rparr> else p1)
                            in if flag
                               then do { (path, jl) \<leftarrow> trace_path (prepos_matrix S2) (key_pos p) 0
                                                        ((max_path p2)(0 := bs_pos b));
                                         Some (p2\<lparr>max_score := bs_max b, pure_score := bs_pure b, max_path := path,
                                                  jend_pos := jl\<rparr>, S2, st1) }
                               else Some (p2, S2, st1)) }) } }"

definition detect_para_scope ::
  "'f FLOAT \<Rightarrow> ENV \<Rightarrow> language \<Rightarrow> bool \<Rightarrow> SENTENCE_DATA \<Rightarrow> QUOTE_DATA \<Rightarrow> nat \<Rightarrow> bool \<Rightarrow> 'f PARA_DATA \<Rightarrow> 'f SCOPE \<Rightarrow> chk_state \<Rightarrow>
   ('f PARA_DATA \<times> 'f SCOPE \<times> chk_state) option" where
  "detect_para_scope F e Language parsed sp q para_num restrict_p p0 S0 st =
     (let n = Bnst_num sp; key = key_pos p0;
          p = p0\<lparr>pd_status := CHR ''x'', max_score := ENOUGH_MINUS F, pure_score := ENOUGH_MINUS F, manager_ptr := None\<rparr>;
          R0 = restrict_matrix S0;
          R1 = (if \<not> restrict_p then (\<lambda>i j. if i < j \<and> j < n then 1 else R0 i j) else R0);
          S = S0\<lparr>restrict_matrix := mask_quote_scope sp q key R1,
                 penalty_table := (\<lambda>k. if k < n then (if k = key then 0 else calc_static_level_penalty sp key k)
                                       else penalty_table S0 k)\<rparr>
      in do { (p', S', st') \<leftarrow>
                (if parsed then
                   (if n_dpnd_head (bnst_data sp ! key) < 0 then None
                    else detect_para_scope_from F e Language sp para_num (nat (n_dpnd_head (bnst_data sp ! key))) p S st)
                 else fold_option (\<lambda>j (p, S, st). detect_para_scope_from F e Language sp para_num j p S st)
                        [key + 1..<n] (p, S, st));
              Some (if pd_status p' = CHR ''n'' \<and> fl_strong F (pure_score p') then p'\<lparr>pd_status := CHR ''s''\<rparr> else p',
                    S', st') })"

definition detect_all_para_scope ::
  "'f FLOAT \<Rightarrow> ENV \<Rightarrow> language \<Rightarrow> bool \<Rightarrow> SENTENCE_DATA \<Rightarrow> QUOTE_DATA \<Rightarrow> 'f PARA_DATA list \<Rightarrow> 'f SCOPE \<Rightarrow> chk_state \<Rightarrow>
   ('f PARA_DATA list \<times> 'f SCOPE \<times> chk_state) option" where
  "detect_all_para_scope F e Language parsed sp q ps S st =
     fold_option (\<lambda>i (ps, S, st).
       do { (p', S', st') \<leftarrow> detect_para_scope F e Language parsed sp q i False (ps ! i) S st;
            Some (ps[i := p'], S', st') }) [0..<length ps] (ps, S, st)"

subsection \<open>The keys\<close>

text \<open>
  The type and the condition of a key: \<^verbatim>\<open>sscanf(cp, "%*[^:]:%[^:]:%s", type, condition)\<close> into buffers
  of 16 and 256 bytes.
\<close>

definition key_columns :: "string \<Rightarrow> (string \<times> string) option" where
  "key_columns cp =
     (case scan_until (CHR '':'') cp of
        None \<Rightarrow> Some ([], [])
      | Some (_, r1) \<Rightarrow>
          (case scan_until (CHR '':'') (drop 1 r1) of
             None \<Rightarrow> Some ([], [])
           | Some (t, r2) \<Rightarrow>
               (let c = takeWhile (\<lambda>x. \<not> is_blank x) (dropWhile is_blank (drop 1 r2)) in
                if length t \<ge> 16 \<or> length c \<ge> 256 then None else Some (t, c))))"

definition key_type :: "string \<Rightarrow> int \<Rightarrow> int" where
  "key_type t old =
     (if starts t s_mei then PARA_KEY_N else if starts t s_jutsu then PARA_KEY_P
      else if starts t s_zen_q then PARA_KEY_A else old)"

definition is_para_key :: "language \<Rightarrow> SENTENCE_DATA \<Rightarrow> nat \<Rightarrow> string option option" where
  "is_para_key Language sp i =
     (case check_feature (bnst_f sp i) s_heiki of
        None \<Rightarrow> Some None
      | Some cp \<Rightarrow>
          if Language \<noteq> CHINESE then Some (Some cp)
          else map_option (\<lambda>b. if has_feature (n_f b) ''CC'' \<or> has_feature (n_f b) ''PU'' then Some cp else None)
                 (at (bnst_data sp) (i + 1)))"

definition new_para :: "nat \<Rightarrow> nat \<Rightarrow> int \<Rightarrow> string \<Rightarrow> string \<Rightarrow> 'f PARA_DATA \<Rightarrow> 'f PARA_DATA option" where
  "new_para n i ty t c old =
     (if length t < BYTES4CHAR then None
      else map_option
             (\<lambda>p. old\<lparr>para_char := char_of (97 + n), key_pos := i, pd_type := ty,
                    iend_pos := (if length t > BYTES4CHAR then int i + c_atoi (drop BYTES4CHAR t) else int i),
                    pd_f_pattern := p\<rparr>)
             (string2feature_pattern c))"

text \<open>The loop over the bunsetsu; the flag tells that there are too many keys. \<open>data\<close> is the array before.\<close>

fun key_loop ::
  "language \<Rightarrow> (nat \<Rightarrow> 'f PARA_DATA) \<Rightarrow> nat list \<Rightarrow> SENTENCE_DATA \<Rightarrow> 'f PARA_DATA list \<Rightarrow>
   (bool \<times> SENTENCE_DATA \<times> 'f PARA_DATA list) option" where
  "key_loop Language data [] sp ps = Some (False, sp, ps)"
| "key_loop Language data (i # is) sp ps =
     (case is_para_key Language sp i of
        None \<Rightarrow> None
      | Some None \<Rightarrow> key_loop Language data is (set_bnst i (\<lambda>b. b\<lparr>n_para_num := -1\<rparr>) sp) ps
      | Some (Some cp) \<Rightarrow>
          do { (t, c) \<leftarrow> key_columns cp;
               let ty = key_type t (n_para_key_type (bnst_data sp ! i));
                   sp1 = set_bnst i (\<lambda>b. b\<lparr>n_para_num := int (length ps), n_para_key_type := ty\<rparr>) sp in
               do { p \<leftarrow> new_para (length ps) i ty t c (data (length ps));
                    if length ps + 1 \<ge> PARA_MAX
                    then Some (True, fold (\<lambda>j. set_bnst j (\<lambda>b. b\<lparr>n_para_num := -1\<rparr>)) is sp1, ps @ [p])
                    else key_loop Language data is sp1 (ps @ [p]) } })"

definition separation_level :: "FEATURE \<Rightarrow> int \<Rightarrow> int" where
  "separation_level f old =
     (case check_feature f s_kugiri of
        None \<Rightarrow> 0
      | Some cp \<Rightarrow>
          (case scan_until (CHR '':'') cp of
             None \<Rightarrow> old
           | Some (_, r) \<Rightarrow>
               (case scan_int (drop 1 r) of
                  None \<Rightarrow> old
                | Some (v, r') \<Rightarrow>
                    if has_feature f s_touten
                    then (if r' \<noteq> [] \<and> hd r' = CHR ''-''
                          then (case scan_int (tl r') of None \<Rightarrow> old | Some (w, _) \<Rightarrow> w) else old)
                    else v)))"

text \<open>The result is the number of keys, or \<open>CONTINUE\<close> if there are too many.\<close>

definition check_para_key ::
  "language \<Rightarrow> (nat \<Rightarrow> 'f PARA_DATA) \<Rightarrow> SENTENCE_DATA \<Rightarrow> (int \<times> SENTENCE_DATA \<times> 'f PARA_DATA list) option" where
  "check_para_key Language data sp =
     (case key_loop Language data [0..<Bnst_num sp] sp [] of
        None \<Rightarrow> None
      | Some (too_many, sp1, ps) \<Rightarrow>
          if too_many then Some (CONTINUE, sp1, ps)
          else if ps = [] then Some (0, sp1, ps)
          else Some (int (length ps),
                 for_upt 0 (Bnst_num sp1)
                   (\<lambda>i. set_bnst i (\<lambda>b. b\<lparr>n_sp_level := separation_level (n_f b) (n_sp_level b)\<rparr>)) sp1, ps))"

section \<open>Paths\<close>

text \<open>
  A path gives a row to every column from one column to the last; the row does not decrease with the
  column. In the last column it starts at the row of the key, or is charged \<open>PENA_MAX\<close>. A step to the
  left stays in its row and pays for the column, or goes up and gains the similarity of the cell, less
  the level penalty and the rows passed over.
\<close>

definition gap_sum :: "language \<Rightarrow> (nat \<Rightarrow> int) \<Rightarrow> nat \<Rightarrow> nat \<Rightarrow> int" where
  "gap_sum Language pen i r = (\<Sum>t \<in> {i..<r}. gap_penalty Language pen t)"

definition step_value ::
  "language \<Rightarrow> SENTENCE_DATA \<Rightarrow> int matrix \<Rightarrow> (nat \<Rightarrow> int) \<Rightarrow> nat \<Rightarrow> nat \<Rightarrow> nat \<Rightarrow> nat \<Rightarrow> nat \<Rightarrow> int" where
  "step_value Language sp match pen key iend j r i =
     (if i = r then (if i = iend then - PENALTY - pen j else - gap_penalty Language pen j)
      else match i j - (if Language = CHINESE then 0 else calc_dynamic_level_penalty sp pen key i j)
           - gap_sum Language pen (Suc i) r)"

definition base_value :: "int matrix \<Rightarrow> nat \<Rightarrow> nat \<Rightarrow> nat \<Rightarrow> int" where
  "base_value match iend jend r = (if r = iend then match iend jend else - PENA_MAX)"

fun scope_path :: "language \<Rightarrow> SENTENCE_DATA \<Rightarrow> nat \<Rightarrow> nat \<Rightarrow> nat \<Rightarrow> nat list \<Rightarrow> bool" where
  "scope_path Language sp iend jend j [] = False"
| "scope_path Language sp iend jend j [r] \<longleftrightarrow> j = jend \<and> r \<le> iend"
| "scope_path Language sp iend jend j (i # r # rs) \<longleftrightarrow>
     j < jend \<and> i \<le> r \<and> (conjunction_column Language sp j \<longrightarrow> i = r) \<and>
     scope_path Language sp iend jend (Suc j) (r # rs)"

fun path_value ::
  "language \<Rightarrow> SENTENCE_DATA \<Rightarrow> int matrix \<Rightarrow> (nat \<Rightarrow> int) \<Rightarrow> nat \<Rightarrow> nat \<Rightarrow> nat \<Rightarrow> nat \<Rightarrow> nat list \<Rightarrow> int" where
  "path_value Language sp match pen key iend jend j [] = 0"
| "path_value Language sp match pen key iend jend j [r] = base_value match iend jend r"
| "path_value Language sp match pen key iend jend j (i # r # rs) =
     step_value Language sp match pen key iend j r i
     + path_value Language sp match pen key iend jend (Suc j) (r # rs)"

text \<open>The greatest value of the paths that begin in a cell.\<close>

definition best_value ::
  "language \<Rightarrow> SENTENCE_DATA \<Rightarrow> int matrix \<Rightarrow> (nat \<Rightarrow> int) \<Rightarrow> nat \<Rightarrow> nat \<Rightarrow> nat \<Rightarrow> nat \<Rightarrow> nat \<Rightarrow> int \<Rightarrow> bool"
where
  "best_value Language sp match pen key iend jend i j v \<longleftrightarrow>
     (\<exists>rs. scope_path Language sp iend jend j (i # rs) \<and>
        path_value Language sp match pen key iend jend j (i # rs) = v) \<and>
     (\<forall>rs. scope_path Language sp iend jend j (i # rs) \<longrightarrow>
        path_value Language sp match pen key iend jend j (i # rs) \<le> v)"

lemma scope_path_le: "scope_path Language sp iend jend j (i # rs) \<Longrightarrow> i \<le> iend \<and> j \<le> jend"
proof (induction rs arbitrary: i j)
  case (Cons r rs)
  then show ?case using Cons.IH [of "Suc j" r] by auto
qed simp

lemma scope_path_Cons:
  "j < jend \<Longrightarrow> scope_path Language sp iend jend j (i # rs) \<longleftrightarrow>
     (\<exists>r rs'. rs = r # rs' \<and> i \<le> r \<and> (conjunction_column Language sp j \<longrightarrow> i = r) \<and>
        scope_path Language sp iend jend (Suc j) (r # rs'))"
  by (cases rs) auto

text \<open>The optimality equation: the best value of a cell from those of the next column.\<close>

lemma best_value_step:
  assumes j: "j < jend"
    and next_best: "\<And>r. r \<le> iend \<Longrightarrow> best_value Language sp match pen key iend jend r (Suc j) (score r)"
    and r: "i \<le> r" "r \<le> iend" "conjunction_column Language sp j \<longrightarrow> i = r"
    and max: "\<And>r'. i \<le> r' \<Longrightarrow> r' \<le> iend \<Longrightarrow> (conjunction_column Language sp j \<longrightarrow> i = r') \<Longrightarrow>
      step_value Language sp match pen key iend j r' i + score r' \<le> step_value Language sp match pen key iend j r i + score r"
  shows "best_value Language sp match pen key iend jend i j (step_value Language sp match pen key iend j r i + score r)"
proof -
  let ?path = "scope_path Language sp iend jend" and ?val = "path_value Language sp match pen key iend jend"
  obtain rs where rs: "?path (Suc j) (r # rs)" "?val (Suc j) (r # rs) = score r"
    using next_best [OF r(2)] by (auto simp: best_value_def)
  have "?path j (i # r # rs)" "?val j (i # r # rs) = step_value Language sp match pen key iend j r i + score r"
    using rs r j by simp_all
  moreover have "?val j (i # rs') \<le> step_value Language sp match pen key iend j r i + score r"
    if p: "?path j (i # rs')" for rs'
  proof -
    from p j obtain r' rs'' where eq: "rs' = r' # rs''" and r': "i \<le> r'" "conjunction_column Language sp j \<longrightarrow> i = r'"
        "?path (Suc j) (r' # rs'')"
      by (auto simp: scope_path_Cons)
    have "r' \<le> iend" using scope_path_le [OF r'(3)] by simp
    then have "?val (Suc j) (r' # rs'') \<le> score r'" using next_best r'(3) by (auto simp: best_value_def)
    then show ?thesis using max [OF r'(1) \<open>r' \<le> iend\<close> r'(2)] by (simp add: eq)
  qed
  ultimately show ?thesis unfolding best_value_def by blast
qed

lemma best_value_base: "r \<le> iend \<Longrightarrow> best_value Language sp match pen key iend jend r jend (base_value match iend jend r)"
proof -
  assume "r \<le> iend"
  moreover have "scope_path Language sp iend jend jend (r # rs) \<longleftrightarrow> rs = []" for rs
    using \<open>r \<le> iend\<close> by (cases rs) auto
  ultimately show ?thesis by (simp add: best_value_def)
qed

section \<open>What the tables hold\<close>

lemma set_score_sel [simp]:
  "score_matrix (set_score i j v S) x y = (if x = i \<and> y = j then v else score_matrix S x y)"
  "prepos_matrix (set_score i j v S) = prepos_matrix S" "match_matrix (set_score i j v S) = match_matrix S"
  "maxpos_array (set_score i j v S) = maxpos_array S" "maxsco_array (set_score i j v S) = maxsco_array S"
  "penalty_table (set_score i j v S) = penalty_table S"
  by (simp_all add: set_score_def set_cell_apply)

lemma set_prepos_sel [simp]:
  "prepos_matrix (set_prepos i j v S) x y = (if x = i \<and> y = j then v else prepos_matrix S x y)"
  "score_matrix (set_prepos i j v S) = score_matrix S" "match_matrix (set_prepos i j v S) = match_matrix S"
  "maxpos_array (set_prepos i j v S) = maxpos_array S" "maxsco_array (set_prepos i j v S) = maxsco_array S"
  "penalty_table (set_prepos i j v S) = penalty_table S"
  by (simp_all add: set_prepos_def set_cell_apply)

lemma set_max_sel [simp]:
  "maxpos_array (set_max i p v S) = (maxpos_array S)(i := p)"
  "maxsco_array (set_max i p v S) = (maxsco_array S)(i := v)"
  "score_matrix (set_max i p v S) = score_matrix S" "prepos_matrix (set_max i p v S) = prepos_matrix S"
  "match_matrix (set_max i p v S) = match_matrix S" "penalty_table (set_max i p v S) = penalty_table S"
  by (simp_all add: set_max_def)

text \<open>The first column.\<close>

lemma first_column_sel:
  fixes S n jend
  defines "T \<equiv> fold (\<lambda>i. set_score i jend (- PENA_MAX)) (rev [0..<n]) S"
  shows "score_matrix T x y = (if y = jend \<and> x < n then - PENA_MAX else score_matrix S x y)"
    and "prepos_matrix T = prepos_matrix S" and "match_matrix T = match_matrix S"
    and "maxpos_array T = maxpos_array S" and "maxsco_array T = maxsco_array S"
    and "penalty_table T = penalty_table S"
  unfolding T_def by (induction n arbitrary: S) auto

text \<open>The cells of the other columns.\<close>

definition cell_value :: "language \<Rightarrow> SENTENCE_DATA \<Rightarrow> nat \<Rightarrow> nat \<Rightarrow> 'f SCOPE \<Rightarrow> nat \<Rightarrow> int \<times> int" where
  "cell_value Language sp key j S i =
     (let up = match_matrix S i j + maxsco_array S (i + 1)
            - (if Language = CHINESE then 0 else calc_dynamic_level_penalty sp (penalty_table S) key i j);
          side = score_matrix S i (j + 1) - gap_penalty Language (penalty_table S) j
      in if \<not> conjunction_column Language sp j \<and> up \<ge> side then (up, maxpos_array S (i + 1)) else (side, int i))"

lemma dp_cell_eq:
  "dp_cell Language sp key j i S =
     set_prepos i j (snd (cell_value Language sp key j S i)) (set_score i j (fst (cell_value Language sp key j S i)) S)"
  by (simp add: dp_cell_def cell_value_def Let_def)

lemma cell_value_cong:
  "match_matrix S' = match_matrix S \<Longrightarrow> maxsco_array S' = maxsco_array S \<Longrightarrow> maxpos_array S' = maxpos_array S \<Longrightarrow>
   penalty_table S' = penalty_table S \<Longrightarrow> score_matrix S' i (Suc j) = score_matrix S i (Suc j) \<Longrightarrow>
   cell_value Language sp key j S' i = cell_value Language sp key j S i"
  by (simp add: cell_value_def Let_def)

lemma dp_cell_sel [simp]:
  "score_matrix (dp_cell Language sp key j i S) x y =
     (if x = i \<and> y = j then fst (cell_value Language sp key j S i) else score_matrix S x y)"
  "prepos_matrix (dp_cell Language sp key j i S) x y =
     (if x = i \<and> y = j then snd (cell_value Language sp key j S i) else prepos_matrix S x y)"
  "match_matrix (dp_cell Language sp key j i S) = match_matrix S"
  "maxpos_array (dp_cell Language sp key j i S) = maxpos_array S"
  "maxsco_array (dp_cell Language sp key j i S) = maxsco_array S"
  "penalty_table (dp_cell Language sp key j i S) = penalty_table S"
  by (simp_all add: dp_cell_eq)

lemma cells_sel:
  fixes Language sp key j n S
  defines "T \<equiv> fold (dp_cell Language sp key j) (rev [0..<n]) S"
  shows "score_matrix T x y = (if y = j \<and> x < n then fst (cell_value Language sp key j S x) else score_matrix S x y)"
    and "prepos_matrix T x y = (if y = j \<and> x < n then snd (cell_value Language sp key j S x) else prepos_matrix S x y)"
    and "match_matrix T = match_matrix S" and "maxpos_array T = maxpos_array S" and "maxsco_array T = maxsco_array S"
    and "penalty_table T = penalty_table S"
proof -
  have "(\<forall>x y. score_matrix T x y = (if y = j \<and> x < n then fst (cell_value Language sp key j S x) else score_matrix S x y) \<and>
      prepos_matrix T x y = (if y = j \<and> x < n then snd (cell_value Language sp key j S x) else prepos_matrix S x y)) \<and>
      match_matrix T = match_matrix S \<and> maxpos_array T = maxpos_array S \<and> maxsco_array T = maxsco_array S \<and>
      penalty_table T = penalty_table S"
    unfolding T_def
  proof (induction n arbitrary: S)
    case (Suc n)
    let ?S = "dp_cell Language sp key j n S"
    have c: "cell_value Language sp key j ?S x = cell_value Language sp key j S x" for x
      by (rule cell_value_cong) simp_all
    show ?case using Suc.IH [of ?S] by (auto simp: c less_Suc_eq)
  qed simp
  then show "score_matrix T x y = (if y = j \<and> x < n then fst (cell_value Language sp key j S x) else score_matrix S x y)"
    and "prepos_matrix T x y = (if y = j \<and> x < n then snd (cell_value Language sp key j S x) else prepos_matrix S x y)"
    and "match_matrix T = match_matrix S" and "maxpos_array T = maxpos_array S" and "maxsco_array T = maxsco_array S"
    and "penalty_table T = penalty_table S" by blast+
qed

text \<open>The running maximum: for each row the best of the rows from it on, less the rows between.\<close>

definition row_max :: "language \<Rightarrow> (nat \<Rightarrow> int) \<Rightarrow> (nat \<Rightarrow> int) \<Rightarrow> nat \<Rightarrow> nat \<Rightarrow> int \<Rightarrow> int \<Rightarrow> bool" where
  "row_max Language pen score iend i pos sco \<longleftrightarrow>
     (\<exists>r. pos = int r \<and> i \<le> r \<and> r \<le> iend \<and> sco = score r - gap_sum Language pen i r) \<and>
     (\<forall>r. i \<le> r \<and> r \<le> iend \<longrightarrow> score r - gap_sum Language pen i r \<le> sco)"

lemma gap_sum_same [simp]: "gap_sum Language pen i i = 0"
  by (simp add: gap_sum_def)

lemma gap_sum_rec: "i < r \<Longrightarrow> gap_sum Language pen i r = gap_penalty Language pen i + gap_sum Language pen (Suc i) r"
  by (simp add: gap_sum_def sum.atLeast_Suc_lessThan)

lemma row_max_step:
  assumes "row_max Language pen score iend (Suc i) pos sco" and "i < iend"
  shows "row_max Language pen score iend i
     (if sco - gap_penalty Language pen i \<le> score i then int i else pos)
     (if sco - gap_penalty Language pen i \<le> score i then score i else sco - gap_penalty Language pen i)"
proof -
  let ?g = "gap_penalty Language pen i"
  obtain r where r: "pos = int r" "Suc i \<le> r" "r \<le> iend" "sco = score r - gap_sum Language pen (Suc i) r"
    and m: "\<forall>r. Suc i \<le> r \<and> r \<le> iend \<longrightarrow> score r - gap_sum Language pen (Suc i) r \<le> sco"
    using assms(1) by (auto simp: row_max_def)
  have le: "score r' - gap_sum Language pen i r' \<le> sco - ?g" if "i < r'" "r' \<le> iend" for r'
    using m that by (auto simp: gap_sum_rec Suc_le_eq algebra_simps)
  have "sco - ?g = score r - gap_sum Language pen i r" using r by (simp add: gap_sum_rec Suc_le_eq)
  then show ?thesis using r assms(2) le
    by (auto simp: row_max_def le_less not_le dest: order_trans [OF le] intro: order.trans)
qed

lemma dp_max_spec:
  fixes Language iend j S
  defines "T \<equiv> dp_max Language iend j S"
  shows "score_matrix T = score_matrix S" and "prepos_matrix T = prepos_matrix S"
    and "match_matrix T = match_matrix S" and "penalty_table T = penalty_table S"
    and "i \<le> iend \<Longrightarrow> row_max Language (penalty_table S) (\<lambda>r. score_matrix S r j) iend i (maxpos_array T i) (maxsco_array T i)"
proof -
  let ?max = "row_max Language (penalty_table S) (\<lambda>r. score_matrix S r j) iend"
  define G where "G = (\<lambda>m. fold (dp_max_step Language j) (rev [m..<iend])
    (score_matrix S iend j, set_max iend (int iend) (score_matrix S iend j) S))"
  have "score_matrix (snd (G m)) = score_matrix S \<and> prepos_matrix (snd (G m)) = prepos_matrix S \<and>
      match_matrix (snd (G m)) = match_matrix S \<and> penalty_table (snd (G m)) = penalty_table S \<and>
      fst (G m) = maxsco_array (snd (G m)) m \<and>
      (\<forall>i. m \<le> i \<and> i \<le> iend \<longrightarrow> ?max i (maxpos_array (snd (G m)) i) (maxsco_array (snd (G m)) i))"
    if "m \<le> iend" for m
    using that
  proof (induction m rule: inc_induct)
    case base
    then show ?case by (auto simp: G_def row_max_def)
  next
    case (step n)
    obtain c U where U: "G (Suc n) = (c, U)" by fastforce
    have "G n = dp_max_step Language j n (G (Suc n))"
      using step.hyps by (simp add: G_def upt_conv_Cons)
    then have eq: "G n = (let c' = c - gap_penalty Language (penalty_table S) n in
        if c' \<le> score_matrix S n j then (score_matrix S n j, set_max n (int n) (score_matrix S n j) U)
        else (c', set_max n (maxpos_array U (Suc n)) c' U))"
      using step.IH U by (simp add: dp_max_step_def Let_def)
    have "?max (Suc n) (maxpos_array U (Suc n)) c" using step U by simp
    note m = row_max_step [OF this step.hyps(2)]
    have "?max i (maxpos_array (snd (G n)) i) (maxsco_array (snd (G n)) i)" if "n \<le> i" "i \<le> iend" for i
    proof (cases "i = n")
      case True
      then show ?thesis using m by (simp add: eq Let_def split: if_splits)
    next
      case False
      then show ?thesis using step.IH U that by (simp add: eq Let_def)
    qed
    then have max: "\<forall>i. n \<le> i \<and> i \<le> iend \<longrightarrow>
      ?max i (maxpos_array (snd (G n)) i) (maxsco_array (snd (G n)) i)" by blast
    show ?case
    proof (intro conjI)
      show "\<forall>i. n \<le> i \<and> i \<le> iend \<longrightarrow> ?max i (maxpos_array (snd (G n)) i) (maxsco_array (snd (G n)) i)" by (rule max)
    qed (use step.IH U in \<open>simp_all add: eq Let_def\<close>)
  qed
  from this [of 0] show "score_matrix T = score_matrix S" and "prepos_matrix T = prepos_matrix S"
    and "match_matrix T = match_matrix S" and "penalty_table T = penalty_table S"
    and "i \<le> iend \<Longrightarrow> ?max i (maxpos_array T i) (maxsco_array T i)"
    by (simp_all add: T_def dp_max_def G_def)
qed

definition columns_ok :: "language \<Rightarrow> SENTENCE_DATA \<Rightarrow> nat \<Rightarrow> nat \<Rightarrow> nat \<Rightarrow> nat \<Rightarrow> 'f SCOPE \<Rightarrow> bool" where
  "columns_ok Language sp key iend jend j S \<longleftrightarrow>
     (\<forall>c i. j \<le> c \<and> c \<le> jend \<and> i \<le> iend \<longrightarrow>
        best_value Language sp (match_matrix S) (penalty_table S) key iend jend i c (score_matrix S i c)) \<and>
     (\<forall>i\<le>iend. row_max Language (penalty_table S) (\<lambda>r. score_matrix S r j) iend i (maxpos_array S i) (maxsco_array S i)) \<and>
     (\<forall>c i. j \<le> c \<and> c < jend \<and> i \<le> iend \<longrightarrow>
        (\<exists>r. prepos_matrix S i c = int r \<and> i \<le> r \<and> r \<le> iend \<and> (conjunction_column Language sp c \<longrightarrow> i = r) \<and>
           score_matrix S i c = step_value Language sp (match_matrix S) (penalty_table S) key iend c r i
             + score_matrix S r (Suc c))) \<and>
     prepos_matrix S iend jend = START_HERE"

lemma dp_column_first:
  "columns_ok Language sp key iend jend jend (dp_column Language sp key iend jend jend S)"
proof -
  let ?S = "dp_first_column iend jend S"
  have "score_matrix ?S r jend = base_value (match_matrix S) iend jend r" if "r \<le> iend" for r
    using that by (auto simp: dp_first_column_def first_column_sel base_value_def)
  moreover have "match_matrix ?S = match_matrix S" "prepos_matrix ?S iend jend = START_HERE"
    by (simp_all add: dp_first_column_def first_column_sel)
  ultimately show ?thesis
    by (auto simp: columns_ok_def dp_column_def dp_max_spec best_value_base dest: le_antisym)
qed

text \<open>A cell takes the best of the possible steps.\<close>

lemma cell_value_best:
  assumes i: "i < iend"
    and m: "row_max Language (penalty_table S) (\<lambda>r. score_matrix S r (Suc j)) iend (Suc i) (maxpos_array S (Suc i)) (maxsco_array S (Suc i))"
  obtains r where "snd (cell_value Language sp key j S i) = int r" "i \<le> r" "r \<le> iend"
    "conjunction_column Language sp j \<longrightarrow> i = r"
    "fst (cell_value Language sp key j S i) =
       step_value Language sp (match_matrix S) (penalty_table S) key iend j r i + score_matrix S r (Suc j)"
    "\<And>r'. i \<le> r' \<Longrightarrow> r' \<le> iend \<Longrightarrow> (conjunction_column Language sp j \<longrightarrow> i = r') \<Longrightarrow>
       step_value Language sp (match_matrix S) (penalty_table S) key iend j r' i + score_matrix S r' (Suc j)
       \<le> fst (cell_value Language sp key j S i)"
proof -
  define side where "side = score_matrix S i (j + 1) - gap_penalty Language (penalty_table S) j"
  define up where "up = match_matrix S i j + maxsco_array S (i + 1)
            - (if Language = CHINESE then 0 else calc_dynamic_level_penalty sp (penalty_table S) key i j)"
  let ?step = "\<lambda>r. step_value Language sp (match_matrix S) (penalty_table S) key iend j r i + score_matrix S r (Suc j)"
  have v: "cell_value Language sp key j S i =
      (if \<not> conjunction_column Language sp j \<and> up \<ge> side then (up, maxpos_array S (i + 1)) else (side, int i))"
    by (simp add: cell_value_def up_def side_def)
  have side: "?step i = side" using i by (simp add: step_value_def side_def)
  obtain r where r: "maxpos_array S (Suc i) = int r" "Suc i \<le> r" "r \<le> iend" "?step r = up"
    using m by (auto simp: row_max_def step_value_def up_def)
  have up: "?step r' \<le> up" if "i < r'" "r' \<le> iend" for r'
    using m that by (auto simp: row_max_def step_value_def up_def Suc_le_eq algebra_simps)
  show thesis
  proof (cases "\<not> conjunction_column Language sp j \<and> up \<ge> side")
    case True
    show thesis
    proof (rule that [of r])
      fix r' assume "i \<le> r'" "r' \<le> iend"
      then show "?step r' \<le> fst (cell_value Language sp key j S i)"
        using True side up [of r'] by (cases "r' = i") (auto simp: v)
    qed (use True r in \<open>simp_all add: v\<close>)
  next
    case False
    show thesis
    proof (rule that [of i])
      fix r' assume "i \<le> r'" "r' \<le> iend" "conjunction_column Language sp j \<longrightarrow> i = r'"
      then show "?step r' \<le> fst (cell_value Language sp key j S i)"
        using False side up [of r'] by (cases "r' = i") (auto simp: v)
    qed (use False i side in \<open>auto simp: v\<close>)
  qed
qed

lemma dp_column_next:
  assumes ok: "columns_ok Language sp key iend jend (Suc j) S" and j: "j < jend"
  shows "columns_ok Language sp key iend jend j (dp_column Language sp key iend jend j S)"
proof -
  define R where "R = dp_last_row iend j S"
  define T where "T = fold (dp_cell Language sp key j) (rev [0..<iend]) R"
  let ?match = "match_matrix S" and ?pen = "penalty_table S"
  let ?step = "step_value Language sp ?match ?pen key iend"
  have R: "match_matrix R = ?match" "penalty_table R = ?pen" "maxpos_array R = maxpos_array S"
    "maxsco_array R = maxsco_array S" "score_matrix R i (Suc j) = score_matrix S i (Suc j)" for i
    by (simp_all add: R_def dp_last_row_def)
  have cell: "cell_value Language sp key j R i = cell_value Language sp key j S i" for i
    by (rule cell_value_cong) (simp_all add: R)
  have old: "score_matrix T i c = score_matrix S i c" "prepos_matrix T i c = prepos_matrix S i c" if "j < c" for i c
    using that by (simp_all add: T_def cells_sel R_def dp_last_row_def)
  have T: "match_matrix T = ?match" "penalty_table T = ?pen" by (simp_all add: T_def cells_sel R)
  have next_best: "best_value Language sp ?match ?pen key iend jend r (Suc j) (score_matrix S r (Suc j))"
    if "r \<le> iend" for r using ok that j by (simp add: columns_ok_def)
  have here: "\<exists>r. prepos_matrix T i j = int r \<and> i \<le> r \<and> r \<le> iend \<and> (conjunction_column Language sp j \<longrightarrow> i = r) \<and>
      score_matrix T i j = ?step j r i + score_matrix S r (Suc j) \<and>
      best_value Language sp ?match ?pen key iend jend i j (score_matrix T i j)" if i: "i \<le> iend" for i
  proof (cases "i = iend")
    case True
    have "prepos_matrix T i j = int i" "score_matrix T i j = ?step j i i + score_matrix S i (Suc j)"
      by (simp_all add: T_def cells_sel R_def dp_last_row_def True step_value_def)
    then show ?thesis using best_value_step [OF j next_best, where r = i and i = i] True by auto
  next
    case False
    then have i': "i < iend" using i by simp
    have "row_max Language ?pen (\<lambda>r. score_matrix S r (Suc j)) iend (Suc i) (maxpos_array S (Suc i)) (maxsco_array S (Suc i))"
      using ok i' by (simp add: columns_ok_def)
    from cell_value_best [OF i' this, where sp = sp and key = key] obtain r where r: "snd (cell_value Language sp key j S i) = int r" "i \<le> r"
      "r \<le> iend" "conjunction_column Language sp j \<longrightarrow> i = r"
      "fst (cell_value Language sp key j S i) = ?step j r i + score_matrix S r (Suc j)"
      "\<And>r'. i \<le> r' \<Longrightarrow> r' \<le> iend \<Longrightarrow> (conjunction_column Language sp j \<longrightarrow> i = r') \<Longrightarrow>
       ?step j r' i + score_matrix S r' (Suc j) \<le> fst (cell_value Language sp key j S i)"
      by metis
    have "prepos_matrix T i j = int r" "score_matrix T i j = ?step j r i + score_matrix S r (Suc j)"
      using i' r by (simp_all add: T_def cells_sel cell)
    then show ?thesis using best_value_step [OF j next_best r(2,3,4)] r by auto
  qed
  have "dp_column Language sp key iend jend j S = dp_max Language iend j T"
    using j by (simp add: dp_column_def T_def R_def)
  moreover have "columns_ok Language sp key iend jend j (dp_max Language iend j T)"
    unfolding columns_ok_def dp_max_spec T
  proof (intro conjI allI impI)
    fix c i assume c: "j \<le> c \<and> c \<le> jend \<and> i \<le> iend"
    show "best_value Language sp ?match ?pen key iend jend i c (score_matrix T i c)"
    proof (cases "c = j")
      case False
      then show ?thesis using c ok old [of c i] by (simp add: columns_ok_def)
    qed (use here c in blast)
  next
    fix c i assume c: "j \<le> c \<and> c < jend \<and> i \<le> iend"
    show "\<exists>r. prepos_matrix T i c = int r \<and> i \<le> r \<and> r \<le> iend \<and> (conjunction_column Language sp c \<longrightarrow> i = r) \<and>
      score_matrix T i c = ?step c r i + score_matrix T r (Suc c)"
    proof (cases "c = j")
      case True
      then show ?thesis using here [of i] c old(1) [of "Suc j"] by auto
    next
      case False
      then show ?thesis using c ok old [of c i] old(1) [of "Suc c"] by (simp add: columns_ok_def)
    qed
  next
    show "prepos_matrix T iend jend = START_HERE" using ok old(2) [OF j] by (simp add: columns_ok_def)
  qed (use dp_max_spec(5) [of _ iend Language T j] T in simp)
  ultimately show ?thesis by simp
qed

lemma dp_search_scope_ok:
  assumes "key < jend"
  shows "columns_ok Language sp key iend jend (key + 1) (dp_search_scope Language sp key iend jend S)"
proof -
  define G where "G = (\<lambda>j. fold (dp_column Language sp key iend jend) (rev [j..<jend + 1]) S)"
  have "columns_ok Language sp key iend jend j (G j)" if "j \<le> jend" for j
    using that
  proof (induction j rule: inc_induct)
    case base
    then show ?case by (simp add: G_def dp_column_first)
  next
    case (step j)
    then show ?case using dp_column_next [of Language sp key iend jend j "G (Suc j)"]
      by (simp add: G_def upt_conv_Cons)
  qed
  from this [of "key + 1"] show ?thesis using assms by (simp add: G_def dp_search_scope_def)
qed

lemma dp_column_frame:
  "match_matrix (dp_column Language sp key iend jend j S) = match_matrix S"
  "penalty_table (dp_column Language sp key iend jend j S) = penalty_table S"
  by (auto simp: dp_column_def dp_max_spec cells_sel dp_last_row_def dp_first_column_def first_column_sel)

lemma dp_search_scope_frame:
  "match_matrix (dp_search_scope Language sp key iend jend S) = match_matrix S"
  "penalty_table (dp_search_scope Language sp key iend jend S) = penalty_table S"
proof -
  have "match_matrix (fold (dp_column Language sp key iend jend) js S) = match_matrix S \<and>
      penalty_table (fold (dp_column Language sp key iend jend) js S) = penalty_table S" for js
    by (induction js arbitrary: S) (auto simp: dp_column_frame)
  then show "match_matrix (dp_search_scope Language sp key iend jend S) = match_matrix S"
    "penalty_table (dp_search_scope Language sp key iend jend S) = penalty_table S"
    by (simp_all add: dp_search_scope_def)
qed

text \<open>Reading back a path never leaves the table before its last column.\<close>

lemma trace_path_keeps:
  "trace_path prepos key j path = Some (p, jl) \<Longrightarrow> j + key + 1 \<le> jl \<and> (\<forall>k\<le>j. p k = path k)"
proof (induction prepos key j path rule: trace_path.induct)
  case (1 prepos key j path)
  let ?q = "prepos (nat (path j)) (j + key + 1)"
  have ok: "\<not> (path j < 0 \<or> int BNST_MAX \<le> path j \<or> BNST_MAX \<le> j + key + 1)"
    using "1.prems" by (subst (asm) trace_path.simps) (auto split: if_splits)
  show ?case
  proof (cases "?q = START_HERE")
    case True
    then show ?thesis using "1.prems" ok by (subst (asm) trace_path.simps) (auto simp: Let_def)
  next
    case False
    then have "trace_path prepos key (j + 1) (path(j + 1 := ?q)) = Some (p, jl)"
      using "1.prems" ok by (subst (asm) trace_path.simps) (simp add: Let_def)
    then have "j + 1 + key + 1 \<le> jl" "\<forall>k\<le>j + 1. p k = (path(j + 1 := ?q)) k"
      using "1.IH" [OF ok refl refl False] by blast+
    then show ?thesis by (auto split: if_splits)
  qed
qed

lemma columns_ok_step:
  "columns_ok Language sp key iend jend k S \<Longrightarrow> k \<le> c \<Longrightarrow> c < jend \<Longrightarrow> i \<le> iend \<Longrightarrow>
   \<exists>r. prepos_matrix S i c = int r \<and> i \<le> r \<and> r \<le> iend \<and> (conjunction_column Language sp c \<longrightarrow> i = r) \<and>
     score_matrix S i c = step_value Language sp (match_matrix S) (penalty_table S) key iend c r i
       + score_matrix S r (Suc c)"
  by (simp add: columns_ok_def)

lemma trace_path_optimal:
  assumes ok: "columns_ok Language sp key iend jend (key + 1) S"
  shows "path j = int i \<Longrightarrow> i \<le> iend \<Longrightarrow> j + key + 1 \<le> jend \<Longrightarrow>
    trace_path (prepos_matrix S) key j path = Some (p, jl) \<Longrightarrow>
    jend \<le> jl \<and> (jl = jend \<longrightarrow>
      (\<exists>rs. map p [j..<jend - key] = map int (i # rs) \<and> scope_path Language sp iend jend (j + key + 1) (i # rs) \<and>
         path_value Language sp (match_matrix S) (penalty_table S) key iend jend (j + key + 1) (i # rs)
           = score_matrix S i (j + key + 1)))"
proof (induction "jend - (j + key + 1)" arbitrary: j i path)
  case 0
  then have j: "jend = j + key + 1" by simp
  have "best_value Language sp (match_matrix S) (penalty_table S) key iend jend i jend (score_matrix S i jend)"
    using ok 0(3) j by (simp add: columns_ok_def)
  then obtain rs where "scope_path Language sp iend jend jend (i # rs)"
      "path_value Language sp (match_matrix S) (penalty_table S) key iend jend jend (i # rs) = score_matrix S i jend"
    by (auto simp: best_value_def)
  moreover from this(1) have "rs = []" by (cases rs) auto
  moreover have "[j..<jend - key] = [j]" by (simp add: j)
  ultimately show ?case
    using trace_path_keeps [OF 0(5)] 0(2) j by auto
next
  case (Suc n)
  then have j: "j + key + 1 < jend" by simp
  obtain r where r: "prepos_matrix S i (j + key + 1) = int r" "i \<le> r" "r \<le> iend"
    "conjunction_column Language sp (j + key + 1) \<longrightarrow> i = r"
    "score_matrix S i (j + key + 1) =
       step_value Language sp (match_matrix S) (penalty_table S) key iend (j + key + 1) r i + score_matrix S r (Suc (j + key + 1))"
    using columns_ok_step [OF ok _ j Suc.prems(2)] by auto
  let ?path = "path(j + 1 := int r)"
  have t: "trace_path (prepos_matrix S) key (j + 1) ?path = Some (p, jl)"
    using Suc.prems(1,4) r(1)
    by (subst (asm) trace_path.simps) (simp add: Let_def START_HERE_def split: if_splits)
  have pj: "p j = int i" using trace_path_keeps [OF t] Suc.prems(1) by simp
  have "jend \<le> jl \<and> (jl = jend \<longrightarrow>
      (\<exists>rs. map p [j + 1..<jend - key] = map int (r # rs) \<and> scope_path Language sp iend jend (j + 1 + key + 1) (r # rs) \<and>
         path_value Language sp (match_matrix S) (penalty_table S) key iend jend (j + 1 + key + 1) (r # rs)
           = score_matrix S r (j + 1 + key + 1)))"
    by (rule Suc.hyps(1) [OF _ _ r(3) _ t]) (use Suc.hyps(2) j in auto)
  moreover have "[j..<jend - key] = j # [j + 1..<jend - key]" using j by (simp add: upt_conv_Cons)
  ultimately have "jl = jend \<longrightarrow> (\<exists>rs. map p [j..<jend - key] = map int (i # r # rs) \<and>
      scope_path Language sp iend jend (j + key + 1) (i # r # rs) \<and>
      path_value Language sp (match_matrix S) (penalty_table S) key iend jend (j + key + 1) (i # r # rs)
        = score_matrix S i (j + key + 1))" and "jend \<le> jl"
    using r j pj by auto
  then show ?case by blast
qed

lemma trace_path_end:
  assumes "key < jend" and "i \<le> iend" and "S = dp_search_scope Language sp key iend jend S0"
    and "trace_path (prepos_matrix S) key 0 (path(0 := int i)) = Some (p, jl)"
  shows "jend \<le> jl"
proof -
  have "columns_ok Language sp key iend jend (key + 1) S"
    unfolding assms(3) by (rule dp_search_scope_ok [OF assms(1)])
  then show ?thesis using trace_path_optimal [of Language sp key iend jend S "path(0 := int i)" 0 i p jl] assms by simp
qed

section \<open>Quotations\<close>

lemma mask_scope_entry_apply:
  assumes "i \<le> key" and "key < j" and "j < Bnst_num sp"
  shows "mask_scope_entry sp q key k m i j =
    (if let start = nat (in_num q k); fin = nat (out_num q k) in
          (key < start \<and> start \<le> j \<and> j < fin) \<or>
          (start \<le> key \<and> fin \<le> key \<and> start < i \<and> i \<le> fin) \<or>
          (start \<le> key \<and> key < fin \<and>
             (i < start \<or> fin < j \<or> (\<exists>l \<in> {i..<j}. has_feature (bnst_f sp l) s_k_bunmatsu)))
     then 0 else m i j)"
proof -
  define start where "start = nat (in_num q k)"
  define fin where "fin = nat (out_num q k)"
  have rect: "for_upt 0 (fin + 1) (\<lambda>i. for_upt start (Bnst_num sp)
      (\<lambda>j m. if i < start \<or> fin < j then set_cell i j 0 m else m)) m i j =
      (if start \<le> key \<and> key < fin \<and> (i < start \<or> fin < j) then 0 else m i j)"
    if "\<not> key < start" "\<not> fin \<le> key" for m :: "int matrix"
  proof -
    have row: "for_upt start (Bnst_num sp) (\<lambda>j m. if x < start \<or> fin < j then set_cell x j 0 m else m) m i j =
        (if \<exists>y \<in> {start..<Bnst_num sp}. x = i \<and> y = j \<and> (x < start \<or> fin < y) then 0 else m i j)" for x and m :: "int matrix"
      by (rule for_upt_cell) (auto simp: set_cell_apply)
    show ?thesis
      by (subst for_upt_cell [where B = "\<lambda>x. \<exists>y \<in> {start..<Bnst_num sp}. x = i \<and> y = j \<and> (x < start \<or> fin < y)" and v = 0])
        (use row that assms in auto)
  qed
  have period: "for_upt start fin (\<lambda>l m. if has_feature (bnst_f sp l) s_k_bunmatsu
                    then fill_rect start (l + 1) (l + 1) (fin + 1) 0 m else m) m i j =
      (if \<exists>l \<in> {start..<fin}. has_feature (bnst_f sp l) s_k_bunmatsu \<and> start \<le> i \<and> i \<le> l \<and> l < j \<and> j \<le> fin
       then 0 else m i j)" for m :: "int matrix"
    by (rule for_upt_cell) (auto simp: fill_rect_apply)
  show "mask_scope_entry sp q key k m i j =
      (if let start = nat (in_num q k); fin = nat (out_num q k) in
          (key < start \<and> start \<le> j \<and> j < fin) \<or>
          (start \<le> key \<and> fin \<le> key \<and> start < i \<and> i \<le> fin) \<or>
          (start \<le> key \<and> key < fin \<and>
             (i < start \<or> fin < j \<or> (\<exists>l \<in> {i..<j}. has_feature (bnst_f sp l) s_k_bunmatsu)))
       then 0 else m i j)"
  proof -
    consider "key < start" | "\<not> key < start" "fin \<le> key" | "\<not> key < start" "\<not> fin \<le> key" by blast
    then show ?thesis
    proof cases
      case 1
      then have "mask_scope_entry sp q key k m = fill_rect 0 start start fin 0 m"
        by (simp add: mask_scope_entry_def start_def fin_def Let_def)
      then show ?thesis using 1 assms
        by (simp add: fill_rect_apply start_def [symmetric] fin_def [symmetric] Let_def)
    next
      case 2
      then have "mask_scope_entry sp q key k m = fill_rect (start + 1) (fin + 1) (fin + 1) (Bnst_num sp) 0 m"
        by (simp add: mask_scope_entry_def start_def fin_def Let_def)
      then show ?thesis using 2 assms
        by (simp add: Let_def fill_rect_apply start_def [symmetric] fin_def [symmetric] less_Suc_eq_le Suc_le_eq)
    next
      case 3
      let ?row = "for_upt 0 (fin + 1) (\<lambda>i. for_upt start (Bnst_num sp)
          (\<lambda>j m. if i < start \<or> fin < j then set_cell i j 0 m else m)) m"
      have eq: "mask_scope_entry sp q key k m = for_upt start fin
          (\<lambda>l m. if has_feature (bnst_f sp l) s_k_bunmatsu
                then fill_rect start (l + 1) (l + 1) (fin + 1) 0 m else m) ?row"
        using 3 unfolding mask_scope_entry_def Let_def start_def fin_def by simp
      have "mask_scope_entry sp q key k m i j =
          (if \<exists>l \<in> {start..<fin}. has_feature (bnst_f sp l) s_k_bunmatsu \<and> start \<le> i \<and> i \<le> l \<and> l < j \<and> j \<le> fin
           then 0 else if i < start \<or> fin < j then 0 else m i j)"
        unfolding eq period [of ?row] rect [OF 3, of m] using 3 by auto
      moreover have "(\<exists>l \<in> {start..<fin}. has_feature (bnst_f sp l) s_k_bunmatsu \<and> start \<le> i \<and> i \<le> l \<and> l < j \<and> j \<le> fin) \<longleftrightarrow>
          \<not> (i < start \<or> fin < j) \<and> (\<exists>l \<in> {i..<j}. has_feature (bnst_f sp l) s_k_bunmatsu)"
        by (auto simp: Bex_def not_less intro: order_trans order_less_le_trans)
      ultimately show ?thesis using 3
        by (simp add: Let_def start_def [symmetric] fin_def [symmetric])
    qed
  qed
qed

section \<open>Properties\<close>

text \<open>
  C3. The table computed by the search holds, for every row up to the row of the key and every column
  after the key, the greatest value of all paths from that cell to the last column.
\<close>

theorem dp_search_scope_optimal:
  assumes "key < jend" and "i \<le> iend" and "key < j" and "j \<le> jend"
  shows "best_value Language sp (match_matrix S) (penalty_table S) key iend jend i j
    (score_matrix (dp_search_scope Language sp key iend jend S) i j)"
  using dp_search_scope_ok [OF assms(1), of Language sp iend S] assms
  by (simp add: columns_ok_def dp_search_scope_frame)


text \<open>
  Restriction by quotations: a scope from bunsetsu \<open>i\<close> to \<open>j\<close> around the key is removed exactly when
  it begins before a later quotation and ends inside it, begins inside an earlier quotation, or has its
  key in a quotation and leaves it or contains the end of a sentence there.
\<close>

theorem mask_quote_scope_exact:
  assumes "i \<le> key" and "key < j" and "j < Bnst_num sp"
  shows "mask_quote_scope sp q key m i j =
    (if \<exists>k \<in> set (quote_entries q).
        let start = nat (in_num q k); fin = nat (out_num q k) in
          (key < start \<and> start \<le> j \<and> j < fin) \<or>
          (start \<le> key \<and> fin \<le> key \<and> start < i \<and> i \<le> fin) \<or>
          (start \<le> key \<and> key < fin \<and>
             (i < start \<or> fin < j \<or> (\<exists>l \<in> {i..<j}. has_feature (bnst_f sp l) s_k_bunmatsu)))
     then 0 else m i j)"
  unfolding mask_quote_scope_def by (rule fold_cell) (rule mask_scope_entry_apply [OF assms])

text \<open>
  C33. In a sentence with a scope that reaches the bunsetsu with number 49 or a later one, the search
  reads past the end of the table of normalisation constants, which has fifty entries.
\<close>

theorem long_scope_reads_past_norm:
  assumes "scope_bounds p = Some iend" and "match_matrix S iend jend \<noteq> 0"
    and "\<exists>i \<le> iend. restrict_matrix S i jend \<noteq> 0" and "\<not> has_feature (bnst_f sp jend) s_shijishi"
    and "pd_f_pattern p = []" and "Language \<noteq> CHINESE" and "49 \<le> jend"
  shows "detect_para_scope_from F e Language sp n jend p S st = None"
proof -
  have none: "fold_option f xs s = None" if "x \<in> set xs" "\<And>s. f x s = None" for f xs s and x :: nat
    using that by (induction xs arbitrary: s) (auto split: bind_splits)
  have norm: "norm_at F (int jend - int 0 + 1) = None"
    using assms(7) by (simp add: norm_at_def norm_table_def)
  have "scan_row F Language sp T q jend ending sim 0 b = None" for T :: "'a SCOPE" and q :: "'a PARA_DATA" and ending sim b
    using assms(6) norm by (simp add: scan_row_def Let_def)
  then have scan: "fold_option (scan_row F Language sp T q jend ending sim) (rev [0..<Suc iend]) b = None"
    for T :: "'a SCOPE" and q :: "'a PARA_DATA" and ending sim b
    by (intro none [of 0]) auto
  have "\<not> (\<forall>i\<in>{..iend}. restrict_matrix S i jend = 0)" using assms(3) by auto
  then show ?thesis
    unfolding detect_para_scope_from_def using assms(1,2,4,5)
    by (simp add: Let_def scan del: upt_Suc)
qed

text \<open>Fixed point numbers with six decimals, for the evaluation of examples.\<close>

definition sample_float :: "int FLOAT" where
  "sample_float =
     \<lparr>fl_lit = (\<lambda>m k. m * 10 ^ (6 - k)), fl_add = (+), fl_div = (\<lambda>a b. a * 10 ^ 6 div b), fl_less = (<), fl_le = (\<le>),
      fl_eq = (=), fl_scan = (\<lambda>s. map_option (\<lambda>(n, _). n * 10 ^ 6) (scan_int s)), fl_strong = (\<lambda>x. x > 3900000),
      fl_print3 = (\<lambda>x. decimal (nat (x div 10 ^ 6)) @ ''.'' @ decimal (nat (x mod 10 ^ 6 div 1000)))\<rparr>"

definition sample_scope :: "int list list \<Rightarrow> int SCOPE" where
  "sample_scope rows =
     \<lparr>match_matrix = (\<lambda>i j. rows ! i ! j), restrict_matrix = (\<lambda>_ _. 1), score_matrix = (\<lambda>_ _. 0),
      prepos_matrix = (\<lambda>_ _. 0), maxpos_array = (\<lambda>_. 0), maxsco_array = (\<lambda>_. 0), penalty_table = (\<lambda>_. 0),
      Para_matrix = (\<lambda>_ _ _. 0)\<rparr>"

lemma sample_search:
  "score_matrix (dp_search_scope JAPANESE (sample_sentence [[], [], [], []]) 1 1 3
     (sample_scope [[0, 0, 2, 5], [0, 0, 7, 3]])) 0 2 = 5"
  by (simp add: dp_search_scope_def dp_column_def dp_max_def dp_max_step_def dp_first_column_def dp_last_row_def
      dp_cell_eq cell_value_def sample_scope_def upt_rec gap_penalty_def conjunction_column_def PENALTY_def
      PENA_MAX_def calc_dynamic_level_penalty_def Let_def)

theorem dp_search_scope_optimal_witness:
  "best_value JAPANESE (sample_sentence [[], [], [], []]) (match_matrix (sample_scope [[0, 0, 2, 5], [0, 0, 7, 3]]))
     (\<lambda>_. 0) 1 1 3 0 2 5"
  using dp_search_scope_optimal [of 1 3 0 1 2 JAPANESE "sample_sentence [[], [], [], []]"
      "sample_scope [[0, 0, 2, 5], [0, 0, 7, 3]]"] sample_search
  by (simp add: sample_scope_def)


theorem mask_quote_scope_exact_witness:
  "mask_quote_scope (sample_sentence [[], [], [], []])
     \<lparr>in_num = (\<lambda>k. if k = 0 then 2 else -1), out_num = (\<lambda>k. if k = 0 then 3 else -1)\<rparr> 0 (\<lambda>_ _. 1) 0 2 = 0"
proof -
  have "quote_entries \<lparr>in_num = (\<lambda>k. if k = 0 then 2 else -1), out_num = (\<lambda>k. if k = 0 then 3 else -1)\<rparr> = [0]"
    by (simp add: quote_entries_def QUOTE_MAX_def upt_rec)
  then show ?thesis
    by (subst mask_quote_scope_exact) simp_all
qed

theorem long_scope_reads_past_norm_witness:
  "detect_para_scope_from sample_float sample_env JAPANESE (sample_sentence (replicate 51 [])) 0 49
     \<lparr>para_char = CHR ''a'', pd_type = PARA_KEY_P, key_pos = 0, iend_pos = 0, jend_pos = 0, max_path = (\<lambda>_. 0),
      pd_f_pattern = [], max_score = 0, pure_score = 0, pd_status = CHR ''x'', manager_ptr = None\<rparr>
     (sample_scope [replicate 51 1]) \<lparr>matched_ptr = None, cont_str = []\<rparr> = None"
  by (rule long_scope_reads_past_norm [where iend = 0])
    (auto simp: scope_bounds_def BNST_MAX_def sample_scope_def has_feature_def bnst_f_def)

end
