(* ===== verification/Knp_Regexp.thy ===== *)
theory Knp_Regexp
  imports Knp_Check
begin

text \<open>
  Regular expressions over morphemes, bunsetsu and base phrases, from \<open>src/system/regexp.c\<close>. The
  three matchers of the file are one recursion over a pattern array and a data array that differs in
  the test of one element; the model has that recursion once, over the lists of the pattern indices
  and of the data elements in the order in which the code visits them (backward matching visits both
  in reverse). The test is passed the global state and may change it and the text of the pattern.
\<close>

section \<open>Definitions\<close>

subsection \<open>Initial values\<close>

definition RegexpMrphInitValue :: REGEXPMRPH where
  "RegexpMrphInitValue =
     \<lparr>r_type_flag = MAT_FLG, r_ast_flag = CHR 0x00,
      r_Hinshi_not = CHR 0x00, r_Hinshi = 0 # replicate (RM_MAX - 1) (-1),
      r_Bunrui_not = CHR 0x00, r_Bunrui = 0 # replicate (RM_MAX - 1) (-1),
      r_Kata_not = CHR 0x00, r_Katuyou_Kata = 0 # replicate (RM_MAX - 1) (-1),
      r_Kei_not = CHR 0x00, r_Katuyou_Kei = replicate RM_MAX None,
      r_Goi_not = CHR 0x00, r_Goi = replicate RM_MAX None,
      r_f_pattern = []\<rparr>"

definition RegexpBnstInitValue :: REGEXPBNST where
  "RegexpBnstInitValue =
     \<lparr>rb_type_flag = MAT_FLG, rb_ast_flag = CHR 0x00, rb_mrphs = None, rb_f_pattern = []\<rparr>"

subsection \<open>One morpheme\<close>

text \<open>A list of numbers ends at -1; reading past the array is undefined.\<close>

fun hbk_member :: "int list \<Rightarrow> int \<Rightarrow> bool option" where
  "hbk_member [] data = None"
| "hbk_member (r # rs) data =
     (if r = -1 then Some False else if r = data then Some True else hbk_member rs data)"

definition flag_result :: "char \<Rightarrow> bool \<Rightarrow> bool" where
  "flag_result flg tmp_ret \<longleftrightarrow> (flg = MAT_FLG \<and> tmp_ret) \<or> (flg = NOT_FLG \<and> \<not> tmp_ret)"

definition rule_HBK_cmp :: "char \<Rightarrow> int list \<Rightarrow> int \<Rightarrow> bool option" where
  "rule_HBK_cmp flg r_data data =
     do { r0 \<leftarrow> at r_data 0;
          if r0 = -1 \<or> r0 = 0 then Some True
          else map_option (flag_result flg) (hbk_member r_data data) }"

fun string_member :: "string option list \<Rightarrow> string \<Rightarrow> bool option" where
  "string_member [] d = None"
| "string_member (None # rs) d = Some False"
| "string_member (Some r # rs) d = (if r = d then Some True else string_member rs d)"

definition rule_Kei_cmp :: "ENV \<Rightarrow> char \<Rightarrow> string option list \<Rightarrow> int \<Rightarrow> int \<Rightarrow> bool option" where
  "rule_Kei_cmp e flg r_string kata kei =
     do { r0 \<leftarrow> at r_string 0;
          if r0 = None \<or> r0 = Some ''*'' then Some True
          else if kata = 0 \<or> kei = 0 \<or> kata \<ge> TYPE_NO \<or> kei \<ge> FORM_NO then Some False
          else case Form_name e kata kei of
                 None \<Rightarrow> Some False
               | Some name \<Rightarrow> map_option (flag_result flg) (string_member r_string name) }"

definition rule_Goi_cmp :: "char \<Rightarrow> string option list \<Rightarrow> string \<Rightarrow> bool option" where
  "rule_Goi_cmp flg r_string d_string =
     do { r0 \<leftarrow> at r_string 0;
          if r0 = None \<or> r0 = Some ''*'' then Some True
          else map_option (flag_result flg) (string_member r_string d_string) }"

text \<open>\<^verbatim>\<open>a && b\<close> for tests that may be undefined.\<close>

definition and_then :: "bool option \<Rightarrow> bool option \<Rightarrow> bool option" where
  "and_then a b = (case a of None \<Rightarrow> None | Some False \<Rightarrow> Some False | Some True \<Rightarrow> b)"

definition mrph_items_match :: "ENV \<Rightarrow> REGEXPMRPH \<Rightarrow> MRPH_DATA \<Rightarrow> bool option" where
  "mrph_items_match e r m =
     and_then (rule_HBK_cmp (r_Hinshi_not r) (r_Hinshi r) (m_Hinshi m))
       (and_then (rule_HBK_cmp (r_Bunrui_not r) (r_Bunrui r) (m_Bunrui m))
         (and_then (rule_HBK_cmp (r_Kata_not r) (r_Katuyou_Kata r) (m_Katuyou_Kata m))
           (and_then (rule_Kei_cmp e (r_Kei_not r) (r_Katuyou_Kei r) (m_Katuyou_Kata m) (m_Katuyou_Kei m))
             (rule_Goi_cmp (r_Goi_not r) (r_Goi r) (m_Goi m)))))"

definition regexpmrph_match ::
  "ENV \<Rightarrow> SENTENCE_DATA \<Rightarrow> REGEXPMRPH \<Rightarrow> ptr \<Rightarrow> chk_state \<Rightarrow> (bool \<times> REGEXPMRPH \<times> chk_state) option"
where
  "regexpmrph_match e sp ptr1 ptr2 st =
     (if r_type_flag ptr1 = QST_FLG then Some (True, ptr1, st)
      else do {
        m \<leftarrow> mrph_at sp ptr2;
        ret_mrph \<leftarrow> mrph_items_match e ptr1 m;
        if flag_result (r_type_flag ptr1) ret_mrph
        then map_option (\<lambda>(b, fr, st'). (b, ptr1\<lparr>r_f_pattern := fr\<rparr>, st'))
               (feature_pattern_match e sp (r_f_pattern ptr1) (m_f m) None (Some ptr2) st)
        else Some (False, ptr1, st) })"

subsection \<open>The matcher\<close>

text \<open>
  The result is the number of data elements left over, or -1 for no match. \<open>part\<close> allows a rest;
  \<open>long\<close> tries to consume before skipping an element with an asterisk, otherwise skipping is tried
  first.
\<close>

function regexp_match ::
  "(nat \<Rightarrow> bool) \<Rightarrow> (nat \<Rightarrow> 'd \<Rightarrow> 's \<Rightarrow> (bool \<times> 's) option) \<Rightarrow> bool \<Rightarrow> bool \<Rightarrow>
   nat list \<Rightarrow> 'd list \<Rightarrow> 's \<Rightarrow> (int \<times> 's) option" where
  "regexp_match ast test part long [] ds s =
     Some (if ds = [] \<or> part then int (length ds) else -1, s)"
| "regexp_match ast test part long (r # rs) [] s =
     (if ast r then regexp_match ast test part long rs [] s else Some (-1, s))"
| "regexp_match ast test part long (r # rs) (d # ds) s =
     (if ast r then
        (if \<not> long then
           (case regexp_match ast test part long rs (d # ds) s of
              None \<Rightarrow> None
            | Some (return_num, s1) \<Rightarrow>
                if return_num \<noteq> -1 then Some (return_num, s1)
                else case test r d s1 of
                       None \<Rightarrow> None
                     | Some (b, s2) \<Rightarrow>
                         if b then regexp_match ast test part long (r # rs) ds s2 else Some (-1, s2))
         else
           (case test r d s of
              None \<Rightarrow> None
            | Some (b, s1) \<Rightarrow>
                if b then
                  (case regexp_match ast test part long (r # rs) ds s1 of
                     None \<Rightarrow> None
                   | Some (return_num, s2) \<Rightarrow>
                       if return_num \<noteq> -1 then Some (return_num, s2)
                       else regexp_match ast test part long rs (d # ds) s2)
                else regexp_match ast test part long rs (d # ds) s1))
      else case test r d s of
             None \<Rightarrow> None
           | Some (b, s1) \<Rightarrow>
               if b then regexp_match ast test part long rs ds s1 else Some (-1, s1))"
  by pat_completeness auto
termination
  by (relation "measure (\<lambda>(_, _, _, _, rs, ds, _). length rs + length ds)") auto

text \<open>
  \<^verbatim>\<open>r_ptr, r_num\<close>: the indices of a pattern array, if its size, a \<^verbatim>\<open>char\<close>, is
  usable.
\<close>

definition pattern_indices :: "'p list \<Rightarrow> int \<Rightarrow> nat list option" where
  "pattern_indices ps n = (if 0 \<le> n \<and> nat n \<le> length ps then Some [0..<nat n] else None)"

definition mrph_test ::
  "ENV \<Rightarrow> SENTENCE_DATA \<Rightarrow> nat \<Rightarrow> ptr \<Rightarrow> REGEXPMRPH list \<times> chk_state \<Rightarrow>
   (bool \<times> REGEXPMRPH list \<times> chk_state) option" where
  "mrph_test e sp r d s =
     do { p \<leftarrow> at (fst s) r;
          (b, p', st') \<leftarrow> regexpmrph_match e sp p d (snd s);
          Some (b, (fst s)[r := p'], st') }"

definition mrph_ast :: "REGEXPMRPH list \<Rightarrow> nat \<Rightarrow> bool" where
  "mrph_ast ps r \<longleftrightarrow> r < length ps \<and> r_ast_flag (ps ! r) = AST_FLG"

definition regexpmrphs_match ::
  "ENV \<Rightarrow> SENTENCE_DATA \<Rightarrow> bool \<Rightarrow> bool \<Rightarrow> bool \<Rightarrow> REGEXPMRPHS \<Rightarrow> ptr list \<Rightarrow> chk_state \<Rightarrow>
   (int \<times> REGEXPMRPHS \<times> chk_state) option" where
  "regexpmrphs_match e sp bw part long r ds st =
     do { is \<leftarrow> pattern_indices (r_mrph r) (r_mrphsize r);
          (n, ps, st') \<leftarrow> regexp_match (mrph_ast (r_mrph r)) (mrph_test e sp) part long
                            (if bw then rev is else is) ds (r_mrph r, st);
          Some (n, r\<lparr>r_mrph := ps\<rparr>, st') }"

text \<open>The morphemes of a bunsetsu or base phrase.\<close>

definition mrph_ptrs :: "NODE \<Rightarrow> ptr list" where
  "mrph_ptrs n = map MrphP [n_mrph_ptr n..<n_mrph_ptr n + n_mrph_num n]"

definition old_regexpbnst_match ::
  "ENV \<Rightarrow> SENTENCE_DATA \<Rightarrow> REGEXPMRPHS \<Rightarrow> NODE \<Rightarrow> chk_state \<Rightarrow> (int \<times> REGEXPMRPHS \<times> chk_state) option"
where
  "old_regexpbnst_match e sp r b st = regexpmrphs_match e sp False False False r (mrph_ptrs b) st"

definition regexpbnst_match ::
  "ENV \<Rightarrow> SENTENCE_DATA \<Rightarrow> REGEXPBNST \<Rightarrow> ptr \<Rightarrow> chk_state \<Rightarrow> (bool \<times> REGEXPBNST \<times> chk_state) option"
where
  "regexpbnst_match e sp ptr1 ptr2 st =
     (if rb_type_flag ptr1 = QST_FLG then Some (True, ptr1, st)
      else do {
        mrphs \<leftarrow> rb_mrphs ptr1;
        n \<leftarrow> node_at sp ptr2;
        (num, mrphs', st1) \<leftarrow> regexpmrphs_match e sp False False False mrphs (mrph_ptrs n) st;
        let ptr1' = ptr1\<lparr>rb_mrphs := Some mrphs'\<rparr> in
        if flag_result (rb_type_flag ptr1) (num \<noteq> -1)
        then map_option (\<lambda>(b, fr, st2). (b, ptr1'\<lparr>rb_f_pattern := fr\<rparr>, st2))
               (feature_pattern_match e sp (rb_f_pattern ptr1) (n_f n) None (Some ptr2) st1)
        else Some (False, ptr1', st1) })"

definition bnst_test ::
  "ENV \<Rightarrow> SENTENCE_DATA \<Rightarrow> nat \<Rightarrow> ptr \<Rightarrow> REGEXPBNST list \<times> chk_state \<Rightarrow>
   (bool \<times> REGEXPBNST list \<times> chk_state) option" where
  "bnst_test e sp r d s =
     do { p \<leftarrow> at (fst s) r;
          (b, p', st') \<leftarrow> regexpbnst_match e sp p d (snd s);
          Some (b, (fst s)[r := p'], st') }"

definition bnst_ast :: "REGEXPBNST list \<Rightarrow> nat \<Rightarrow> bool" where
  "bnst_ast ps r \<longleftrightarrow> r < length ps \<and> rb_ast_flag (ps ! r) = AST_FLG"

text \<open>The bunsetsu and the base phrase matcher, on the pointers of the one or the other.\<close>

definition regexpbnsts_match ::
  "ENV \<Rightarrow> SENTENCE_DATA \<Rightarrow> bool \<Rightarrow> bool \<Rightarrow> bool \<Rightarrow> REGEXPBNSTS \<Rightarrow> ptr list \<Rightarrow> chk_state \<Rightarrow>
   (int \<times> REGEXPBNSTS \<times> chk_state) option" where
  "regexpbnsts_match e sp bw part long r ds st =
     do { is \<leftarrow> pattern_indices (r_bnst r) (r_bnstsize r);
          (n, ps, st') \<leftarrow> regexp_match (bnst_ast (r_bnst r)) (bnst_test e sp) part long
                            (if bw then rev is else is) ds (r_bnst r, st);
          Some (n, r\<lparr>r_bnst := ps\<rparr>, st') }"

definition regexptags_match ::
  "ENV \<Rightarrow> SENTENCE_DATA \<Rightarrow> bool \<Rightarrow> bool \<Rightarrow> bool \<Rightarrow> REGEXPBNSTS \<Rightarrow> ptr list \<Rightarrow> chk_state \<Rightarrow>
   (int \<times> REGEXPBNSTS \<times> chk_state) option" where
  "regexptags_match e sp bw part long r ds st =
     do { is \<leftarrow> pattern_indices (r_bnst r) (r_bnstsize r);
          (n, ps, st') \<leftarrow> regexp_match (bnst_ast (r_bnst r)) (bnst_test e sp) part long
                            (if bw then rev is else is) ds (r_bnst r, st);
          Some (n, r\<lparr>r_bnst := ps\<rparr>, st') }"

subsection \<open>Rules\<close>

text \<open>
  A rule has a pattern for what precedes, for the elements themselves and for what follows. The
  control of the three rule matchers is the same: \<open>mt bw part long p ds s\<close> is the matcher for the
  kind of element, \<open>ds\<close> all elements of the sentence and \<open>pos\<close> the current one. The patterns are
  returned as the matching left them.
\<close>

type_synonym ('p, 'd) matcher =
  "bool \<Rightarrow> bool \<Rightarrow> bool \<Rightarrow> 'p \<Rightarrow> 'd list \<Rightarrow> chk_state \<Rightarrow> (int \<times> 'p \<times> chk_state) option"

definition window :: "'d list \<Rightarrow> nat \<Rightarrow> nat \<Rightarrow> 'd list" where
  "window ds i n = take n (drop i ds)"

function self_loop ::
  "('p, 'd) matcher \<Rightarrow> 'd list \<Rightarrow> nat \<Rightarrow> nat \<Rightarrow> 'p option \<Rightarrow> 'p option \<Rightarrow> nat \<Rightarrow> chk_state \<Rightarrow>
   (int \<times> 'p option \<times> 'p option \<times> chk_state) option" where
  "self_loop mt ds pos fw_length self post match_length st =
     (if match_length = 0 then Some (-1, self, post, st)
      else
        do { (len, self', st1) \<leftarrow>
               (case self of
                  None \<Rightarrow> Some (Some 1, self, st)
                | Some p \<Rightarrow>
                    do { (match_rest, p', st1) \<leftarrow> mt False True True p (window ds pos match_length) st;
                         Some (if match_rest \<noteq> -1 then Some (match_length - nat match_rest) else None,
                               Some p', st1) });
             (case len of
                None \<Rightarrow> Some (-1, self', post, st1)
              | Some l \<Rightarrow>
                  do { (ok, post', st2) \<leftarrow>
                         (case post of
                            None \<Rightarrow> Some (True, post, st1)
                          | Some q \<Rightarrow>
                              do { (n, q', st2) \<leftarrow> mt False False False q
                                     (window ds (pos + l) (fw_length - l)) st1;
                                   Some (n \<noteq> -1, Some q', st2) });
                       if ok then Some (int l, self', post', st2)
                       else if l - 1 < match_length
                       then self_loop mt ds pos fw_length self' post' (l - 1) st2
                       else Some (-1, self', post', st2) }) })"
  by pat_completeness auto
termination
  by (relation "measure (\<lambda>(_, _, _, _, _, _, match_length, _). match_length)") auto

declare self_loop.simps [simp del]

definition rule_match ::
  "('p, 'd) matcher \<Rightarrow> 'd list \<Rightarrow> nat \<Rightarrow> nat \<Rightarrow> nat \<Rightarrow> 'p option \<Rightarrow> 'p option \<Rightarrow> 'p option \<Rightarrow> chk_state \<Rightarrow>
   (int \<times> ('p option \<times> 'p option \<times> 'p option) \<times> chk_state) option" where
  "rule_match mt ds pos bw_length fw_length pre self post st0 =
     (let st = st0\<lparr>matched_ptr := None\<rparr> in
      do { (ok, pre', st1) \<leftarrow>
             (case pre of
                None \<Rightarrow> Some (bw_length = 0, pre, st)
              | Some p \<Rightarrow>
                  do { (n, p', st1) \<leftarrow> mt True False False p (rev (window ds (pos - bw_length) bw_length)) st;
                       Some (n \<noteq> -1, Some p', st1) });
           if \<not> ok then Some (-1, (pre', self, post), st1)
           else do { (n, self', post', st2) \<leftarrow> self_loop mt ds pos fw_length self post fw_length st1;
                     Some (n, (pre', self', post'), st2) } })"

definition regexpmrphrule_match ::
  "ENV \<Rightarrow> SENTENCE_DATA \<Rightarrow> MrphRule \<Rightarrow> nat \<Rightarrow> nat \<Rightarrow> nat \<Rightarrow> chk_state \<Rightarrow>
   (int \<times> MrphRule \<times> chk_state) option" where
  "regexpmrphrule_match e sp r pos bw_length fw_length st =
     map_option (\<lambda>(n, (pre, self, post), st').
         (n, r\<lparr>mr_pre_pattern := pre, mr_self_pattern := self, mr_post_pattern := post\<rparr>, st'))
       (rule_match (regexpmrphs_match e sp) (map MrphP [0..<length (mrph_data sp)]) pos bw_length fw_length
         (mr_pre_pattern r) (mr_self_pattern r) (mr_post_pattern r) st)"

definition regexpbnstrule_match ::
  "ENV \<Rightarrow> SENTENCE_DATA \<Rightarrow> BnstRule \<Rightarrow> nat \<Rightarrow> nat \<Rightarrow> nat \<Rightarrow> chk_state \<Rightarrow>
   (int \<times> BnstRule \<times> chk_state) option" where
  "regexpbnstrule_match e sp r pos bw_length fw_length st =
     map_option (\<lambda>(n, (pre, self, post), st').
         (n, r\<lparr>br_pre_pattern := pre, br_self_pattern := self, br_post_pattern := post\<rparr>, st'))
       (rule_match (regexpbnsts_match e sp) (map BnstP [0..<length (bnst_data sp)]) pos bw_length fw_length
         (br_pre_pattern r) (br_self_pattern r) (br_post_pattern r) st)"

definition regexptagrule_match ::
  "ENV \<Rightarrow> SENTENCE_DATA \<Rightarrow> BnstRule \<Rightarrow> nat \<Rightarrow> nat \<Rightarrow> nat \<Rightarrow> chk_state \<Rightarrow>
   (int \<times> BnstRule \<times> chk_state) option" where
  "regexptagrule_match e sp r pos bw_length fw_length st =
     map_option (\<lambda>(n, (pre, self, post), st').
         (n, r\<lparr>br_pre_pattern := pre, br_self_pattern := self, br_post_pattern := post\<rparr>, st'))
       (rule_match (regexptags_match e sp) (map TagP [0..<length (tag_data sp)]) pos bw_length fw_length
         (br_pre_pattern r) (br_self_pattern r) (br_post_pattern r) st)"

end
