(* ===== verification/Knp_Regexp_Spec.thy ===== *)
theory Knp_Regexp_Spec
  imports Knp_Regexp
begin

text \<open>
  The language of a pattern and the correctness of the matcher: a complete match succeeds exactly on
  the sequences of the language, a longest partial match leaves the shortest possible rest, matching
  backward is matching of the reversed data, and a rule matches the longest stretch it can. The
  contracts are the locales \<open>element_test\<close>, for the test of one element, and
  \<open>sequence_matcher\<close>, for a matcher of element sequences; both are interpreted on the morpheme,
  bunsetsu and base phrase matchers of the program.
\<close>

section \<open>The language of a pattern\<close>

text \<open>
  A sequence belongs to a pattern when it is cut into one segment per element of the pattern, every
  member of a segment satisfies the element, and the segment has length one unless the element has
  an asterisk.
\<close>

definition segment_ok :: "(nat \<Rightarrow> bool) \<Rightarrow> (nat \<Rightarrow> 'd \<Rightarrow> bool) \<Rightarrow> nat \<Rightarrow> 'd list \<Rightarrow> bool" where
  "segment_ok ast P r seg \<longleftrightarrow> list_all (P r) seg \<and> (ast r \<or> length seg = 1)"

definition accepts :: "(nat \<Rightarrow> bool) \<Rightarrow> (nat \<Rightarrow> 'd \<Rightarrow> bool) \<Rightarrow> nat list \<Rightarrow> 'd list \<Rightarrow> bool" where
  "accepts ast P rs ds \<longleftrightarrow> (\<exists>segs. list_all2 (segment_ok ast P) rs segs \<and> ds = concat segs)"

definition accepts_prefix ::
  "(nat \<Rightarrow> bool) \<Rightarrow> (nat \<Rightarrow> 'd \<Rightarrow> bool) \<Rightarrow> nat list \<Rightarrow> 'd list \<Rightarrow> nat \<Rightarrow> bool" where
  "accepts_prefix ast P rs ds n \<longleftrightarrow> n \<le> length ds \<and> accepts ast P rs (take n ds)"

lemma accepts_Nil [simp]: "accepts ast P [] ds \<longleftrightarrow> ds = []"
  by (simp add: accepts_def)

lemma accepts_ConsI:
  "segment_ok ast P r seg \<Longrightarrow> accepts ast P rs rest \<Longrightarrow> accepts ast P (r # rs) (seg @ rest)"
  unfolding accepts_def by (metis concat.simps(2) list.rel_intros(2))

lemma accepts_ConsE:
  assumes "accepts ast P (r # rs) ds"
  obtains seg rest where "ds = seg @ rest" "segment_ok ast P r seg" "accepts ast P rs rest"
  using assms by (force simp: accepts_def list_all2_Cons1)

lemma accepts_one:
  assumes "\<not> ast r"
  shows "accepts ast P (r # rs) ds \<longleftrightarrow> (\<exists>d ds'. ds = d # ds' \<and> P r d \<and> accepts ast P rs ds')"
proof
  assume "accepts ast P (r # rs) ds"
  then obtain seg rest where s: "ds = seg @ rest" "segment_ok ast P r seg" "accepts ast P rs rest"
    by (rule accepts_ConsE)
  with assms obtain d where "seg = [d]" "P r d" by (auto simp: segment_ok_def length_Suc_conv)
  with s show "\<exists>d ds'. ds = d # ds' \<and> P r d \<and> accepts ast P rs ds'" by simp
next
  assume "\<exists>d ds'. ds = d # ds' \<and> P r d \<and> accepts ast P rs ds'"
  then obtain d ds' where "ds = [d] @ ds'" "P r d" "accepts ast P rs ds'" by auto
  then show "accepts ast P (r # rs) ds"
    using accepts_ConsI [of ast P r "[d]" rs ds'] by (simp add: segment_ok_def)
qed

lemma accepts_many:
  assumes "ast r"
  shows "accepts ast P (r # rs) ds \<longleftrightarrow>
    accepts ast P rs ds \<or> (\<exists>d ds'. ds = d # ds' \<and> P r d \<and> accepts ast P (r # rs) ds')"
proof
  assume "accepts ast P (r # rs) ds"
  then obtain seg rest where s: "ds = seg @ rest" "segment_ok ast P r seg" "accepts ast P rs rest"
    by (rule accepts_ConsE)
  show "accepts ast P rs ds \<or> (\<exists>d ds'. ds = d # ds' \<and> P r d \<and> accepts ast P (r # rs) ds')"
  proof (cases seg)
    case (Cons d seg')
    then have "segment_ok ast P r seg'" "P r d" using s(2) assms by (auto simp: segment_ok_def)
    with Cons s show ?thesis using accepts_ConsI by fastforce
  qed (use s in simp)
next
  have skip: "segment_ok ast P r []" using assms by (simp add: segment_ok_def)
  assume "accepts ast P rs ds \<or> (\<exists>d ds'. ds = d # ds' \<and> P r d \<and> accepts ast P (r # rs) ds')"
  then show "accepts ast P (r # rs) ds"
  proof
    assume "accepts ast P rs ds"
    then show ?thesis using accepts_ConsI [OF skip] by simp
  next
    assume "\<exists>d ds'. ds = d # ds' \<and> P r d \<and> accepts ast P (r # rs) ds'"
    then obtain d ds' where d: "ds = d # ds'" "P r d" "accepts ast P (r # rs) ds'" by blast
    from d(3) obtain seg rest where s: "ds' = seg @ rest" "segment_ok ast P r seg" "accepts ast P rs rest"
      by (rule accepts_ConsE)
    have "segment_ok ast P r (d # seg)" using d(2) s(2) assms by (simp add: segment_ok_def)
    from accepts_ConsI [OF this s(3)] d(1) s(1) show ?thesis by simp
  qed
qed

lemma concat_rev_rev: "rev (concat xss) = concat (rev (map rev xss))"
  by (induction xss) auto

text \<open>The language of the reversed pattern is the reversed language.\<close>

lemma accepts_rev: "accepts ast P (rev rs) (rev ds) \<longleftrightarrow> accepts ast P rs ds"
proof -
  have "accepts ast P (rev rs) (rev ds)" if a: "accepts ast P rs ds" for rs ds
  proof -
    obtain segs where s: "list_all2 (segment_ok ast P) rs segs" "ds = concat segs"
      using a by (auto simp: accepts_def)
    have "list_all2 (segment_ok ast P) (rev rs) (rev (map rev segs))"
      using s(1) unfolding list_all2_rev
      by (auto simp: list_all2_conv_all_nth segment_ok_def list_all_iff)
    then show ?thesis using s(2) by (auto simp: accepts_def concat_rev_rev)
  qed
  from this [of rs ds] this [of "rev rs" "rev ds"] show ?thesis by auto
qed

subsection \<open>Prefixes\<close>

lemma accepts_prefix_Nil [simp]: "accepts_prefix ast P [] ds n \<longleftrightarrow> n = 0"
  by (auto simp: accepts_prefix_def)

lemma accepts_prefix_one:
  assumes "\<not> ast r"
  shows "accepts_prefix ast P (r # rs) ds n \<longleftrightarrow>
     (\<exists>d ds' m. ds = d # ds' \<and> n = Suc m \<and> P r d \<and> accepts_prefix ast P rs ds' m)"
proof (cases ds; cases n)
  fix d ds' m assume "ds = d # ds'" "n = Suc m"
  then show ?thesis
    by (simp add: accepts_prefix_def accepts_one [of ast r P rs "d # take m ds'", OF assms]) blast
qed (simp_all add: accepts_prefix_def accepts_one [of ast r P rs "[]", OF assms])

lemma accepts_prefix_many:
  assumes "ast r"
  shows "accepts_prefix ast P (r # rs) ds n \<longleftrightarrow> accepts_prefix ast P rs ds n \<or>
     (\<exists>d ds' m. ds = d # ds' \<and> n = Suc m \<and> P r d \<and> accepts_prefix ast P (r # rs) ds' m)"
proof (cases ds; cases n)
  fix d ds' m assume "ds = d # ds'" "n = Suc m"
  then show ?thesis
    by (simp add: accepts_prefix_def accepts_many [of ast r P rs "d # take m ds'", OF assms]) blast
qed (simp_all add: accepts_prefix_def accepts_many [of ast r P rs "[]", OF assms])

text \<open>A match that consumes the first element continues with a suffix of the pattern.\<close>

lemma accepts_prefix_consume:
  "accepts_prefix ast P rs (d # ds) (Suc n) \<Longrightarrow>
   \<exists>rs'. suffix rs' rs \<and> accepts_prefix ast P rs' ds n"
proof (induction rs)
  case (Cons r rs)
  show ?case
  proof (cases "ast r")
    case True
    with Cons.prems consider "accepts_prefix ast P rs (d # ds) (Suc n)"
      | "accepts_prefix ast P (r # rs) ds n"
      using accepts_prefix_many [of ast r P rs "d # ds" "Suc n"] by auto
    then show ?thesis
    proof cases
      case 1
      then show ?thesis using Cons.IH by (meson suffix_ConsI)
    qed blast
  next
    case False
    with Cons.prems have "accepts_prefix ast P rs ds n"
      using accepts_prefix_one [of ast r P rs "d # ds" "Suc n"] by auto
    then show ?thesis by (meson suffix_ConsI suffix_order.refl)
  qed
qed simp

text \<open>
  Two matches of the same data, one of a pattern and one of a suffix of it, cross where the second
  one is longer; so the pattern matches the longer prefix as well.
\<close>

lemma accepts_prefix_cross:
  assumes "accepts_prefix ast P qs ds a" and "accepts_prefix ast P rs ds b" and "suffix rs qs" and "a \<le> b"
  shows "accepts_prefix ast P qs ds b"
  using assms
proof (induction "length qs + length ds" arbitrary: qs rs ds a b rule: less_induct)
  case less
  show ?case
  proof (cases "rs = qs")
    case True
    then show ?thesis using less.prems by simp
  next
    case False
    with less.prems(3) obtain q qs' where q: "qs = q # qs'" "suffix rs qs'"
      by (cases qs) (auto simp: suffix_Cons)
    have eat: "accepts_prefix ast P us ds' (b - 1) \<and> Suc (b - 1) = b"
      if e: "ds = d # ds'" "a = Suc m" "accepts_prefix ast P us ds' m" "suffix rs us"
        "length us \<le> length qs" for d ds' m us
    proof -
      obtain b' where b: "b = Suc b'" "m \<le> b'" using less.prems(4) e(2) by (cases b) auto
      obtain rs' where rs': "suffix rs' rs" "accepts_prefix ast P rs' ds' b'"
        using less.prems(2) accepts_prefix_consume [of ast P rs d ds' b'] e(1) b(1) by auto
      have "suffix rs' us" using rs'(1) e(4) suffix_order.trans by blast
      moreover have "length us + length ds' < length qs + length ds" using e(1,5) by simp
      ultimately have "accepts_prefix ast P us ds' b'"
        using less.hyps e(3) rs'(2) b(2) by blast
      with b show ?thesis by simp
    qed
    show ?thesis
    proof (cases "ast q")
      case True
      with less.prems(1) q consider "accepts_prefix ast P qs' ds a"
        | d ds' m where "ds = d # ds'" "a = Suc m" "P q d" "accepts_prefix ast P qs ds' m"
        using accepts_prefix_many [of ast q P qs' ds a] by auto
      then show ?thesis
      proof cases
        case 1
        then have "accepts_prefix ast P qs' ds b"
          using less.hyps [of qs' ds a rs b] less.prems q by simp
        then show ?thesis using True q accepts_prefix_many [of ast q P qs' ds b] by blast
      next
        case 2
        then have "accepts_prefix ast P qs ds' (b - 1)" "b = Suc (b - 1)"
          using eat [OF 2(1,2,4) less.prems(3)] by simp_all
        then show ?thesis using True q 2 accepts_prefix_many [of ast q P qs' ds b] by blast
      qed
    next
      case False
      with less.prems(1) q obtain d ds' m where
        m: "ds = d # ds'" "a = Suc m" "P q d" "accepts_prefix ast P qs' ds' m"
        using accepts_prefix_one [of ast q P qs' ds a] by auto
      have "accepts_prefix ast P qs' ds' (b - 1)" "b = Suc (b - 1)"
        using eat [OF m(1,2,4) q(2)] q by simp_all
      then show ?thesis using False q m accepts_prefix_one [of ast q P qs' ds b] by blast
    qed
  qed
qed

definition longest_prefix ::
  "(nat \<Rightarrow> bool) \<Rightarrow> (nat \<Rightarrow> 'd \<Rightarrow> bool) \<Rightarrow> nat list \<Rightarrow> 'd list \<Rightarrow> nat \<Rightarrow> bool" where
  "longest_prefix ast P rs ds n \<longleftrightarrow>
     accepts_prefix ast P rs ds n \<and> (\<forall>m. accepts_prefix ast P rs ds m \<longrightarrow> m \<le> n)"

text \<open>Consuming first is never worse: the longest match after it is the longest of all.\<close>

lemma longest_prefix_consume:
  assumes "ast r" and "P r d" and l: "longest_prefix ast P (r # rs) ds n"
  shows "longest_prefix ast P (r # rs) (d # ds) (Suc n)"
proof -
  have "m \<le> Suc n" if m: "accepts_prefix ast P (r # rs) (d # ds) m" for m
  proof (cases "m \<le> Suc n")
    case False
    then obtain m' where m': "m = Suc m'" "n < m'" by (cases m) auto
    with m obtain rs' where "suffix rs' (r # rs)" "accepts_prefix ast P rs' ds m'"
      using accepts_prefix_consume [of ast P "r # rs" d ds m'] by blast
    then have "accepts_prefix ast P (r # rs) ds m'"
      using l m'(2) accepts_prefix_cross [of ast P "r # rs" ds n rs' m']
      by (simp add: longest_prefix_def)
    then show ?thesis using l m' by (auto simp: longest_prefix_def)
  qed simp
  moreover have "accepts_prefix ast P (r # rs) (d # ds) (Suc n)"
    using assms accepts_prefix_many [of ast r P rs "d # ds" "Suc n"]
    by (auto simp: longest_prefix_def)
  ultimately show ?thesis by (simp add: longest_prefix_def)
qed

text \<open>The result of a longest partial match.\<close>

definition rest_of ::
  "(nat \<Rightarrow> bool) \<Rightarrow> (nat \<Rightarrow> 'd \<Rightarrow> bool) \<Rightarrow> nat list \<Rightarrow> 'd list \<Rightarrow> int \<Rightarrow> bool" where
  "rest_of ast P rs ds n \<longleftrightarrow>
     (n = -1 \<and> (\<forall>m. \<not> accepts_prefix ast P rs ds m)) \<or>
     (\<exists>m. longest_prefix ast P rs ds m \<and> n = int (length ds) - int m)"

lemma rest_of_nonneg: "rest_of ast P rs ds n \<Longrightarrow> n \<noteq> -1 \<Longrightarrow> 0 \<le> n"
  by (auto simp: rest_of_def longest_prefix_def accepts_prefix_def)

lemma rest_of_skip:
  assumes "ast r" and "rest_of ast P rs (d # ds) n"
    and "\<not> P r d \<or> (\<forall>m. \<not> accepts_prefix ast P (r # rs) ds m)"
  shows "rest_of ast P (r # rs) (d # ds) n"
proof -
  have "accepts_prefix ast P (r # rs) (d # ds) m \<longleftrightarrow> accepts_prefix ast P rs (d # ds) m" for m
    using accepts_prefix_many [of ast r P rs "d # ds" m, OF assms(1)] assms(3) by auto
  then show ?thesis using assms(2) by (simp add: rest_of_def longest_prefix_def)
qed

lemma rest_of_one:
  assumes "\<not> ast r" and "P r d" and "rest_of ast P rs ds n"
  shows "rest_of ast P (r # rs) (d # ds) n"
proof -
  have *: "accepts_prefix ast P (r # rs) (d # ds) m \<longleftrightarrow>
      (\<exists>m'. m = Suc m' \<and> accepts_prefix ast P rs ds m')" for m
    using accepts_prefix_one [of ast r P rs "d # ds" m, OF assms(1)] assms(2) by auto
  then have "longest_prefix ast P rs ds m \<Longrightarrow> longest_prefix ast P (r # rs) (d # ds) (Suc m)" for m
    by (auto simp: longest_prefix_def)
  then show ?thesis using assms(3) * unfolding rest_of_def by fastforce
qed

lemma rest_of_none: "\<not> ast r \<Longrightarrow> \<not> P r d \<Longrightarrow> rest_of ast P (r # rs) (d # ds) (-1)"
  by (auto simp: rest_of_def accepts_prefix_one)

lemma rest_of_consume:
  assumes "ast r" and "P r d" and "rest_of ast P (r # rs) ds n" and "n \<noteq> -1"
  shows "rest_of ast P (r # rs) (d # ds) n"
proof -
  obtain m where "longest_prefix ast P (r # rs) ds m" "n = int (length ds) - int m"
    using assms(3,4) by (auto simp: rest_of_def)
  then show ?thesis using longest_prefix_consume [of ast r P d rs ds m] assms(1,2)
    by (auto simp: rest_of_def intro!: exI [of _ "Suc m"])
qed

lemma rest_of_Nil_data:
  assumes "rest_of ast P rs [] n"
  shows "rest_of ast P (r # rs) [] (if ast r then n else -1)"
proof (cases "ast r")
  case True
  then have "accepts_prefix ast P (r # rs) [] m \<longleftrightarrow> accepts_prefix ast P rs [] m" for m
    using accepts_prefix_many [of ast r P rs "[]" m] by simp
  then show ?thesis using True assms by (simp add: rest_of_def longest_prefix_def)
next
  case False
  then have "\<not> accepts_prefix ast P (r # rs) [] m" for m
    using accepts_prefix_one [of ast r P rs "[]" m] by simp
  then show ?thesis using False by (simp add: rest_of_def)
qed

section \<open>The matcher on a test without memory\<close>

text \<open>
  The contract of the test of one element: on the data \<open>D\<close> and in states that satisfy \<open>I\<close> it is
  defined, its answer is a property \<open>P\<close> of the pattern element and the datum alone, and the state
  after it satisfies \<open>I\<close> again.
\<close>

locale element_test =
  fixes test :: "nat \<Rightarrow> 'd \<Rightarrow> 's \<Rightarrow> (bool \<times> 's) option"
    and P :: "nat \<Rightarrow> 'd \<Rightarrow> bool"
    and I :: "'s \<Rightarrow> bool"
    and D :: "'d set"
    and N :: nat
  assumes test_pure: "I s \<Longrightarrow> d \<in> D \<Longrightarrow> r < N \<Longrightarrow> \<exists>s'. test r d s = Some (P r d, s') \<and> I s'"
begin

lemma test_E:
  assumes "I s" and "d \<in> D" and "r < N"
  obtains s' where "test r d s = Some (P r d, s')" "I s'"
  using test_pure [OF assms] by blast

text \<open>A complete match, in either order of the alternatives, decides the language.\<close>

lemma match_all:
  assumes "I s" and "set ds \<subseteq> D" and "\<forall>r \<in> set rs. r < N"
  shows "\<exists>s'. regexp_match ast test False long rs ds s =
    Some (if accepts ast P rs ds then 0 else -1, s') \<and> I s'"
  using assms
proof (induction "length rs + length ds" arbitrary: rs ds s rule: less_induct)
  case less
  show ?case
  proof (cases rs)
    case Nil
    then show ?thesis using less.prems by auto
  next
    case (Cons r rs')
    note IH = less.hyps
    have N: "r < N" "\<forall>r \<in> set rs'. r < N" using less.prems Cons by auto
    show ?thesis
    proof (cases ds)
      case Nil
      then show ?thesis
        using IH [of rs' "[]" s] less.prems N Cons accepts_many [of ast r P rs' "[]"]
          accepts_one [of ast r P rs' "[]"]
        by (cases "ast r") auto
    next
      case ds: (Cons d ds')
      have D: "d \<in> D" "set ds' \<subseteq> D" using less.prems ds by auto
      have skip: "I t \<Longrightarrow> \<exists>s'. regexp_match ast test False long rs' ds t =
          Some (if accepts ast P rs' ds then 0 else -1, s') \<and> I s'" for t
        using IH [of rs' ds t] less.prems N Cons by simp
      have again: "I t \<Longrightarrow> \<exists>s'. regexp_match ast test False long rs ds' t =
          Some (if accepts ast P rs ds' then 0 else -1, s') \<and> I s'" for t
        using IH [of rs ds' t] less.prems D ds by simp
      have next1: "I t \<Longrightarrow> \<exists>s'. regexp_match ast test False long rs' ds' t =
          Some (if accepts ast P rs' ds' then 0 else -1, s') \<and> I s'" for t
        using IH [of rs' ds' t] N D ds Cons by simp
      show ?thesis
      proof (cases "ast r")
        case False
        obtain s1 where s1: "test r d s = Some (P r d, s1)" "I s1"
          using test_E [OF less.prems(1) D(1) N(1)] .
        show ?thesis using False Cons ds s1 next1 [OF s1(2)] accepts_one [of ast r P rs' ds, OF False] by auto
      next
        case True
        note acc = accepts_many [of ast r P rs' ds, OF True]
        show ?thesis
        proof (cases long)
          case l: False
          obtain s1 where s1: "regexp_match ast test False long rs' ds s =
              Some (if accepts ast P rs' ds then 0 else -1, s1)" "I s1"
            using skip less.prems(1) by blast
          obtain s2 where s2: "test r d s1 = Some (P r d, s2)" "I s2"
            using test_E [OF s1(2) D(1) N(1)] .
          show ?thesis using True l Cons ds s1 s2 again [OF s2(2)] acc by auto
        next
          case l: True
          obtain s1 where s1: "test r d s = Some (P r d, s1)" "I s1"
            using test_E [OF less.prems(1) D(1) N(1)] .
          obtain s2 where s2: "regexp_match ast test False long rs ds' s1 =
              Some (if accepts ast P rs ds' then 0 else -1, s2)" "I s2"
            using again s1(2) by blast
          show ?thesis using True l Cons ds s1 s2 skip [OF s1(2)] skip [OF s2(2)] acc by auto
        qed
      qed
    qed
  qed
qed

text \<open>A longest partial match returns what the longest prefix of the language leaves over.\<close>

lemma match_longest:
  assumes "I s" and "set ds \<subseteq> D" and "\<forall>r \<in> set rs. r < N"
  shows "\<exists>n s'. regexp_match ast test True True rs ds s = Some (n, s') \<and> I s' \<and> rest_of ast P rs ds n"
  using assms
proof (induction "length rs + length ds" arbitrary: rs ds s rule: less_induct)
  case less
  show ?case
  proof (cases rs)
    case Nil
    then show ?thesis using less.prems by (auto simp: rest_of_def longest_prefix_def)
  next
    case (Cons r rs')
    note IH = less.hyps
    have N: "r < N" "\<forall>r \<in> set rs'. r < N" using less.prems Cons by auto
    show ?thesis
    proof (cases ds)
      case Nil
      obtain n s' where "regexp_match ast test True True rs' [] s = Some (n, s')" "I s'"
          "rest_of ast P rs' [] n"
        using IH [of rs' "[]" s] less.prems(1) N Cons Nil by auto
      then show ?thesis using Nil Cons less.prems(1) rest_of_Nil_data [of ast P rs' n r] by auto
    next
      case ds: (Cons d ds')
      have D: "d \<in> D" "set ds' \<subseteq> D" using less.prems ds by auto
      have skip: "I t \<Longrightarrow> \<exists>n s'. regexp_match ast test True True rs' ds t = Some (n, s') \<and> I s' \<and>
          rest_of ast P rs' ds n" for t
        using IH [of rs' ds t] less.prems N Cons by simp
      obtain s1 where s1: "test r d s = Some (P r d, s1)" "I s1"
        using test_E [OF less.prems(1) D(1) N(1)] .
      show ?thesis
      proof (cases "ast r")
        case False
        obtain n s2 where "regexp_match ast test True True rs' ds' s1 = Some (n, s2)" "I s2"
            "rest_of ast P rs' ds' n"
          using IH [of rs' ds' s1] N D ds Cons s1 by auto
        then show ?thesis
          using False Cons ds s1 rest_of_one [of ast r P d rs' ds' n] rest_of_none [of ast r P d rs' ds']
          by (cases "P r d") auto
      next
        case True
        obtain n s2 where s2: "regexp_match ast test True True rs ds' s1 = Some (n, s2)" "I s2"
            "rest_of ast P rs ds' n"
          using IH [of rs ds' s1] less.prems D ds s1 by auto
        obtain n3 s3 where s3: "regexp_match ast test True True rs' ds s1 = Some (n3, s3)" "I s3"
            "rest_of ast P rs' ds n3"
          using skip s1 by blast
        obtain n4 s4 where s4: "regexp_match ast test True True rs' ds s2 = Some (n4, s4)" "I s4"
            "rest_of ast P rs' ds n4"
          using skip s2 by blast
        have none: "n = -1 \<Longrightarrow> \<not> accepts_prefix ast P rs ds' m" for m
          using s2(3) by (auto simp: rest_of_def longest_prefix_def accepts_prefix_def)
        show ?thesis
          using True Cons ds s1 s2 s3 s4 none rest_of_consume [of ast r P d rs' ds' n]
            rest_of_skip [of ast r P rs' d ds' n3] rest_of_skip [of ast r P rs' d ds' n4]
          by (cases "P r d"; cases "n = -1") auto
      qed
    qed
  qed
qed

end

section \<open>Matchers of element sequences\<close>

text \<open>
  The contract that the rule matcher relies on: for the patterns \<open>ok\<close>, a complete match decides a
  language forward and, of the reversed data, backward; a longest match finds the longest prefix in
  the language; none of them changes the pattern.
\<close>

locale sequence_matcher =
  fixes mt :: "('p, 'd) matcher"
    and ok :: "'p \<Rightarrow> bool"
    and D :: "'d set"
    and lang :: "'p \<Rightarrow> 'd list \<Rightarrow> bool"
  assumes mt_all: "ok p \<Longrightarrow> set ds \<subseteq> D \<Longrightarrow>
      \<exists>n st'. mt False False False p ds st = Some (n, p, st') \<and> (n \<noteq> -1 \<longleftrightarrow> lang p ds)"
    and mt_back: "ok p \<Longrightarrow> set ds \<subseteq> D \<Longrightarrow>
      \<exists>n st'. mt True False False p (rev ds) st = Some (n, p, st') \<and> (n \<noteq> -1 \<longleftrightarrow> lang p ds)"
    and mt_long: "ok p \<Longrightarrow> set ds \<subseteq> D \<Longrightarrow>
      \<exists>n st'. mt False True True p ds st = Some (n, p, st') \<and>
        ((n = -1 \<and> (\<forall>k \<le> length ds. \<not> lang p (take k ds))) \<or>
         (\<exists>k \<le> length ds. n = int (length ds) - int k \<and> lang p (take k ds) \<and>
            (\<forall>m \<le> length ds. lang p (take m ds) \<longrightarrow> m \<le> k)))"

text \<open>The lengths that a rule may match: the pattern itself takes \<open>L\<close> elements, the rest follows.\<close>

definition fits :: "('p \<Rightarrow> 'd list \<Rightarrow> bool) \<Rightarrow> 'p option \<Rightarrow> 'p option \<Rightarrow> 'd list \<Rightarrow> nat \<Rightarrow> bool" where
  "fits lang self post fw L \<longleftrightarrow> L \<le> length fw \<and>
     (case self of None \<Rightarrow> L = 1 | Some p \<Rightarrow> lang p (take L fw)) \<and>
     (case post of None \<Rightarrow> True | Some q \<Rightarrow> lang q (drop L fw))"

definition precedes :: "('p \<Rightarrow> 'd list \<Rightarrow> bool) \<Rightarrow> 'p option \<Rightarrow> 'd list \<Rightarrow> bool" where
  "precedes lang pre bw \<longleftrightarrow> (case pre of None \<Rightarrow> bw = [] | Some p \<Rightarrow> lang p bw)"

text \<open>The result of a rule: the greatest length of at least one that fits, if there is one.\<close>

definition rule_result ::
  "('p \<Rightarrow> 'd list \<Rightarrow> bool) \<Rightarrow> 'p option \<Rightarrow> 'p option \<Rightarrow> 'd list \<Rightarrow> nat \<Rightarrow> int \<Rightarrow> bool" where
  "rule_result lang self post fw bound n \<longleftrightarrow>
     n \<ge> -1 \<and>
     (n \<ge> 1 \<longrightarrow> nat n \<le> bound \<and> fits lang self post fw (nat n) \<and>
        (\<forall>m \<le> bound. fits lang self post fw m \<longrightarrow> m \<le> nat n)) \<and>
     (n \<le> 0 \<longrightarrow> (\<forall>m. 1 \<le> m \<longrightarrow> m \<le> bound \<longrightarrow> \<not> fits lang self post fw m)) \<and>
     (n = 0 \<longrightarrow> fits lang self post fw 0)"

lemma rule_result_step:
  assumes "rule_result lang self post fw (l - 1) n" and "l \<le> bound"
    and "\<not> fits lang self post fw l" and "\<forall>m. l < m \<longrightarrow> m \<le> bound \<longrightarrow> \<not> fits lang self post fw m"
  shows "rule_result lang self post fw bound n"
proof -
  have "m \<le> l - 1 \<or> \<not> fits lang self post fw m" if "m \<le> bound" for m
    using assms(3,4) that by (cases "m < l"; cases "m = l") auto
  then show ?thesis using assms(1,2) unfolding rule_result_def
    by (auto simp: le_diff_conv)
qed

lemma rule_result_found:
  "fits lang self post fw l \<Longrightarrow> l \<le> bound \<Longrightarrow>
   \<forall>m. l < m \<longrightarrow> m \<le> bound \<longrightarrow> \<not> fits lang self post fw m \<Longrightarrow>
   rule_result lang self post fw bound (int l)"
  by (auto simp: rule_result_def not_less [symmetric])

lemma take_window: "k \<le> n \<Longrightarrow> take k (window ds i n) = take k (drop i ds)"
  by (simp add: window_def min_absorb1)

lemma window_drop: "window ds (i + l) (n - l) = drop l (window ds i n)"
  by (simp add: window_def drop_take add.commute)

context sequence_matcher
begin

text \<open>The rest of the data after \<open>l\<close> elements, and what the call on it answers.\<close>

lemma post_call:
  assumes "\<forall>q. post = Some q \<longrightarrow> ok q" and "set ds \<subseteq> D"
  shows "\<exists>st2. (case post of
       None \<Rightarrow> Some (True, post, st1)
     | Some q \<Rightarrow> do { (n, q', st2) \<leftarrow> mt False False False q (window ds i m) st1;
                       Some (n \<noteq> -1, Some q', st2) }) =
     Some (case post of None \<Rightarrow> True | Some q \<Rightarrow> lang q (window ds i m), post, st2)"
proof (cases post)
  case (Some q)
  have "set (window ds i m) \<subseteq> D"
    using assms(2) by (auto simp: window_def dest!: in_set_takeD in_set_dropD)
  then obtain n st2 where "mt False False False q (window ds i m) st1 = Some (n, q, st2)"
      "n \<noteq> -1 \<longleftrightarrow> lang q (window ds i m)"
    using mt_all [of q "window ds i m" st1] assms(1) Some by blast
  then show ?thesis using Some by simp
qed simp

lemma self_loop_result:
  assumes "\<forall>p. self = Some p \<longrightarrow> ok p" and post: "\<forall>q. post = Some q \<longrightarrow> ok q"
    and D: "set ds \<subseteq> D" and fw: "length (window ds pos fw_length) = fw_length" and "ml \<le> fw_length"
  shows "\<exists>n st'. self_loop mt ds pos fw_length self post ml st = Some (n, self, post, st') \<and>
    rule_result lang self post (window ds pos fw_length) ml n"
  using assms(5)
proof (induction ml arbitrary: st rule: less_induct)
  case (less ml)
  let ?fw = "window ds pos fw_length"
  show ?case
  proof (cases "ml = 0")
    case True
    then show ?thesis by (simp add: self_loop.simps rule_result_def)
  next
    case False
    have found: "\<exists>n st'. self_loop mt ds pos fw_length self post ml st = Some (n, self, post, st') \<and>
        rule_result lang self post ?fw ml n"
      if l: "l \<le> ml" and above: "\<forall>m. l < m \<longrightarrow> m \<le> ml \<longrightarrow> \<not> fits lang self post ?fw m"
        and here: "fits lang self post ?fw l \<longleftrightarrow>
          (case post of None \<Rightarrow> True | Some q \<Rightarrow> lang q (drop l ?fw))"
        and call: "(case self of
                  None \<Rightarrow> Some (Some 1, self, st)
                | Some p \<Rightarrow>
                    do { (match_rest, p', st1) \<leftarrow> mt False True True p (window ds pos ml) st;
                         Some (if match_rest \<noteq> -1 then Some (ml - nat match_rest) else None,
                               Some p', st1) }) = Some (Some l, self, st1)" for l st1
    proof -
      obtain st2 where p: "(case post of
           None \<Rightarrow> Some (True, post, st1)
         | Some q \<Rightarrow> do { (n, q', st2) \<leftarrow> mt False False False q
                             (window ds (pos + l) (fw_length - l)) st1;
                           Some (n \<noteq> -1, Some q', st2) }) =
         Some (fits lang self post ?fw l, post, st2)"
        using post_call [OF post D, of st1 "pos + l" "fw_length - l"]
        unfolding window_drop here by blast
      show ?thesis
      proof (cases "fits lang self post ?fw l")
        case True
        then show ?thesis using \<open>ml \<noteq> 0\<close> call p rule_result_found [OF True l above]
          by (simp add: self_loop.simps [of mt ds pos fw_length self post ml])
      next
        case False
        have "l - 1 < ml" using l \<open>ml \<noteq> 0\<close> by simp
        moreover from this obtain n st3 where
          "self_loop mt ds pos fw_length self post (l - 1) st2 = Some (n, self, post, st3)"
          "rule_result lang self post ?fw (l - 1) n"
          using less.IH [of "l - 1" st2] less.prems by auto
        ultimately show ?thesis using \<open>ml \<noteq> 0\<close> call p rule_result_step [OF _ l False above] False
          by (simp add: self_loop.simps [of mt ds pos fw_length self post ml])
      qed
    qed
    show ?thesis
    proof (cases self)
      case None
      show ?thesis
        by (rule found [of 1 st])
          (use None False less.prems fw in \<open>auto simp: fits_def split: option.splits\<close>)
    next
      case (Some p)
      have sl: "set (window ds pos ml) \<subseteq> D" "length (window ds pos ml) = ml"
        using D fw less.prems
        by (auto simp: window_def dest!: in_set_takeD in_set_dropD)
      have tk: "k \<le> ml \<Longrightarrow> take k (window ds pos ml) = take k ?fw" for k
        using less.prems by (simp add: take_window)
      obtain n st1 where c: "mt False True True p (window ds pos ml) st = Some (n, p, st1)"
        and r: "(n = -1 \<and> (\<forall>k \<le> ml. \<not> lang p (take k ?fw))) \<or>
         (\<exists>k \<le> ml. n = int ml - int k \<and> lang p (take k ?fw) \<and>
            (\<forall>m \<le> ml. lang p (take m ?fw) \<longrightarrow> m \<le> k))"
        using mt_long [of p "window ds pos ml" st] assms(1) Some sl tk by auto
      from r show ?thesis
      proof (elim disjE exE conjE)
        assume n: "n = -1" "\<forall>k \<le> ml. \<not> lang p (take k ?fw)"
        then have "self_loop mt ds pos fw_length self post ml st = Some (-1, self, post, st1)"
          using Some c False by (subst self_loop.simps) simp
        moreover have "rule_result lang self post ?fw ml (-1)"
          using n Some by (simp add: rule_result_def fits_def)
        ultimately show ?thesis by blast
      next
        fix k assume k: "k \<le> ml" "n = int ml - int k" "lang p (take k ?fw)"
          "\<forall>m \<le> ml. lang p (take m ?fw) \<longrightarrow> m \<le> k"
        have "n \<noteq> -1" "ml - nat n = k" using k(1,2) by auto
        then show ?thesis
          by (intro found [of k st1]) (use Some c k less.prems fw in \<open>auto simp: fits_def\<close>)
      qed
    qed
  qed
qed

text \<open>What a rule match returns.\<close>

lemma rule_match_result:
  assumes pre: "\<forall>p. pre = Some p \<longrightarrow> ok p" and self: "\<forall>p. self = Some p \<longrightarrow> ok p"
    and post: "\<forall>q. post = Some q \<longrightarrow> ok q" and D: "set ds \<subseteq> D"
    and len: "bw_length \<le> pos" "pos + fw_length \<le> length ds"
  shows "\<exists>n st'. rule_match mt ds pos bw_length fw_length pre self post st = Some (n, (pre, self, post), st') \<and>
    (if precedes lang pre (window ds (pos - bw_length) bw_length)
     then rule_result lang self post (window ds pos fw_length) fw_length n else n = -1)"
proof -
  let ?bw = "window ds (pos - bw_length) bw_length"
  have bw: "set ?bw \<subseteq> D" using D by (auto simp: window_def dest!: in_set_takeD in_set_dropD)
  have nil: "?bw = [] \<longleftrightarrow> bw_length = 0" using len by (auto simp: window_def)
  have fw: "length (window ds pos fw_length) = fw_length" using len by (simp add: window_def)
  note loop = self_loop_result [OF self post D fw order.refl]
  show ?thesis
  proof (cases pre)
    case None
    then show ?thesis using nil loop [of "st\<lparr>matched_ptr := None\<rparr>"]
      by (cases "bw_length = 0") (auto simp: rule_match_def precedes_def)
  next
    case (Some p)
    obtain n st1 where m: "mt True False False p (rev ?bw) (st\<lparr>matched_ptr := None\<rparr>) = Some (n, p, st1)"
        "n \<noteq> -1 \<longleftrightarrow> lang p ?bw"
      using mt_back [of p ?bw "st\<lparr>matched_ptr := None\<rparr>"] pre Some bw by auto
    then show ?thesis using Some loop [of st1]
      by (cases "n = -1") (auto simp: rule_match_def precedes_def)
  qed
qed

end

section \<open>The matchers of the program\<close>

text \<open>
  A pattern element is settled when its test is defined on every element of the sentence, does not
  rewrite the pattern, and answers the same in every state of the globals. \<open>_holds\<close> is that answer.
\<close>

definition mrph_dom :: "SENTENCE_DATA \<Rightarrow> ptr set" where
  "mrph_dom sp = MrphP ` {..<length (mrph_data sp)}"

definition bnst_dom :: "SENTENCE_DATA \<Rightarrow> ptr set" where
  "bnst_dom sp = BnstP ` {..<length (bnst_data sp)}"

definition tag_dom :: "SENTENCE_DATA \<Rightarrow> ptr set" where
  "tag_dom sp = TagP ` {..<length (tag_data sp)}"

definition mrph_settled :: "ENV \<Rightarrow> SENTENCE_DATA \<Rightarrow> REGEXPMRPH \<Rightarrow> bool" where
  "mrph_settled e sp p \<longleftrightarrow>
     (\<forall>d \<in> mrph_dom sp. \<exists>v. \<forall>st. \<exists>st'. regexpmrph_match e sp p d st = Some (v, p, st'))"

definition bnst_settled :: "ptr set \<Rightarrow> ENV \<Rightarrow> SENTENCE_DATA \<Rightarrow> REGEXPBNST \<Rightarrow> bool" where
  "bnst_settled D e sp p \<longleftrightarrow>
     (\<forall>d \<in> D. \<exists>v. \<forall>st. \<exists>st'. regexpbnst_match e sp p d st = Some (v, p, st'))"

definition clear_state :: chk_state where
  "clear_state = \<lparr>matched_ptr = None, cont_str = []\<rparr>"

definition mrph_holds :: "ENV \<Rightarrow> SENTENCE_DATA \<Rightarrow> REGEXPMRPH \<Rightarrow> ptr \<Rightarrow> bool" where
  "mrph_holds e sp p d \<longleftrightarrow>
     (case regexpmrph_match e sp p d clear_state of Some (b, _) \<Rightarrow> b | None \<Rightarrow> False)"

definition bnst_holds :: "ENV \<Rightarrow> SENTENCE_DATA \<Rightarrow> REGEXPBNST \<Rightarrow> ptr \<Rightarrow> bool" where
  "bnst_holds e sp p d \<longleftrightarrow>
     (case regexpbnst_match e sp p d clear_state of Some (b, _) \<Rightarrow> b | None \<Rightarrow> False)"

definition mrphs_ok :: "ENV \<Rightarrow> SENTENCE_DATA \<Rightarrow> REGEXPMRPHS \<Rightarrow> bool" where
  "mrphs_ok e sp r \<longleftrightarrow>
     0 \<le> r_mrphsize r \<and> nat (r_mrphsize r) \<le> length (r_mrph r) \<and> list_all (mrph_settled e sp) (r_mrph r)"

definition bnsts_ok :: "ptr set \<Rightarrow> ENV \<Rightarrow> SENTENCE_DATA \<Rightarrow> REGEXPBNSTS \<Rightarrow> bool" where
  "bnsts_ok D e sp r \<longleftrightarrow>
     0 \<le> r_bnstsize r \<and> nat (r_bnstsize r) \<le> length (r_bnst r) \<and> list_all (bnst_settled D e sp) (r_bnst r)"

definition mrphs_lang :: "ENV \<Rightarrow> SENTENCE_DATA \<Rightarrow> REGEXPMRPHS \<Rightarrow> ptr list \<Rightarrow> bool" where
  "mrphs_lang e sp r ds \<longleftrightarrow>
     accepts (mrph_ast (r_mrph r)) (\<lambda>i. mrph_holds e sp (r_mrph r ! i)) [0..<nat (r_mrphsize r)] ds"

definition bnsts_lang :: "ENV \<Rightarrow> SENTENCE_DATA \<Rightarrow> REGEXPBNSTS \<Rightarrow> ptr list \<Rightarrow> bool" where
  "bnsts_lang e sp r ds \<longleftrightarrow>
     accepts (bnst_ast (r_bnst r)) (\<lambda>i. bnst_holds e sp (r_bnst r ! i)) [0..<nat (r_bnstsize r)] ds"

lemma mrph_settled_test:
  assumes "mrph_settled e sp p" and "d \<in> mrph_dom sp"
  shows "\<exists>st'. regexpmrph_match e sp p d st = Some (mrph_holds e sp p d, p, st')"
proof -
  obtain v where v: "\<And>st. \<exists>st'. regexpmrph_match e sp p d st = Some (v, p, st')"
    using assms unfolding mrph_settled_def by metis
  from v [of clear_state] have "mrph_holds e sp p d = v"
    by (auto simp: mrph_holds_def)
  then show ?thesis using v by simp
qed

lemma bnst_settled_test:
  assumes "bnst_settled D e sp p" and "d \<in> D"
  shows "\<exists>st'. regexpbnst_match e sp p d st = Some (bnst_holds e sp p d, p, st')"
proof -
  obtain v where v: "\<And>st. \<exists>st'. regexpbnst_match e sp p d st = Some (v, p, st')"
    using assms unfolding bnst_settled_def by metis
  from v [of clear_state] have "bnst_holds e sp p d = v"
    by (auto simp: bnst_holds_def)
  then show ?thesis using v by simp
qed

interpretation mt: element_test "mrph_test e sp" "\<lambda>i. mrph_holds e sp (ps ! i)"
  "\<lambda>s. fst s = ps \<and> list_all (mrph_settled e sp) ps" "mrph_dom sp" "length ps" for e sp ps
proof
  fix s :: "REGEXPMRPH list \<times> chk_state" and d r
  assume a: "fst s = ps \<and> list_all (mrph_settled e sp) ps" "d \<in> mrph_dom sp" "r < length ps"
  then obtain st' where "regexpmrph_match e sp (ps ! r) d (snd s) = Some (mrph_holds e sp (ps ! r) d, ps ! r, st')"
    using mrph_settled_test [of e sp "ps ! r" d "snd s"] by (auto simp: list_all_length)
  then show "\<exists>s'. mrph_test e sp r d s = Some (mrph_holds e sp (ps ! r) d, s') \<and>
      fst s' = ps \<and> list_all (mrph_settled e sp) ps"
    using a by (simp add: mrph_test_def at_def)
qed

interpretation bt: element_test "bnst_test e sp" "\<lambda>i. bnst_holds e sp (ps ! i)"
  "\<lambda>s. fst s = ps \<and> list_all (bnst_settled D e sp) ps" D "length ps" for D e sp ps
proof
  fix s :: "REGEXPBNST list \<times> chk_state" and d r
  assume a: "fst s = ps \<and> list_all (bnst_settled D e sp) ps" "d \<in> D" "r < length ps"
  then obtain st' where "regexpbnst_match e sp (ps ! r) d (snd s) = Some (bnst_holds e sp (ps ! r) d, ps ! r, st')"
    using bnst_settled_test [of D e sp "ps ! r" d "snd s"] by (auto simp: list_all_length)
  then show "\<exists>s'. bnst_test e sp r d s = Some (bnst_holds e sp (ps ! r) d, s') \<and>
      fst s' = ps \<and> list_all (bnst_settled D e sp) ps"
    using a by (simp add: bnst_test_def at_def)
qed

text \<open>From the rest of a longest match to the longest prefix.\<close>

lemma rest_of_longest:
  assumes "rest_of ast P rs ds n"
  shows "(n = -1 \<and> (\<forall>k \<le> length ds. \<not> accepts ast P rs (take k ds))) \<or>
    (\<exists>k \<le> length ds. n = int (length ds) - int k \<and> accepts ast P rs (take k ds) \<and>
       (\<forall>m \<le> length ds. accepts ast P rs (take m ds) \<longrightarrow> m \<le> k))"
  using assms unfolding rest_of_def longest_prefix_def accepts_prefix_def by blast

interpretation ms: sequence_matcher "regexpmrphs_match e sp" "mrphs_ok e sp" "mrph_dom sp"
  "mrphs_lang e sp" for e sp
proof
  fix p :: REGEXPMRPHS and ds st
  assume ok: "mrphs_ok e sp p" and D: "set ds \<subseteq> mrph_dom sp"
  let ?ps = "r_mrph p" and ?is = "[0..<nat (r_mrphsize p)]"
  let ?ast = "mrph_ast ?ps" and ?P = "\<lambda>i. mrph_holds e sp (?ps ! i)"
  have ix: "pattern_indices ?ps (r_mrphsize p) = Some ?is" "list_all (mrph_settled e sp) ?ps"
      "\<forall>r \<in> set ?is. r < length ?ps"
    using ok by (auto simp: mrphs_ok_def pattern_indices_def)
  obtain st1 where "regexp_match ?ast (mrph_test e sp) False False ?is ds (?ps, st) =
      Some (if accepts ?ast ?P ?is ds then 0 else -1, ?ps, st1)"
    using mt.match_all [of "(?ps, st)" ?ps e sp ds ?is ?ast False] D ix by auto
  then show "\<exists>n st'. regexpmrphs_match e sp False False False p ds st = Some (n, p, st') \<and>
      (n \<noteq> -1 \<longleftrightarrow> mrphs_lang e sp p ds)"
    by (simp add: regexpmrphs_match_def ix mrphs_lang_def)
  obtain st2 where "regexp_match ?ast (mrph_test e sp) False False (rev ?is) (rev ds) (?ps, st) =
      Some (if accepts ?ast ?P ?is ds then 0 else -1, ?ps, st2)"
    using mt.match_all [of "(?ps, st)" ?ps e sp "rev ds" "rev ?is" ?ast False] D ix
    by (auto simp: accepts_rev)
  then show "\<exists>n st'. regexpmrphs_match e sp True False False p (rev ds) st = Some (n, p, st') \<and>
      (n \<noteq> -1 \<longleftrightarrow> mrphs_lang e sp p ds)"
    by (simp add: regexpmrphs_match_def ix mrphs_lang_def)
  obtain n st3 where "regexp_match ?ast (mrph_test e sp) True True ?is ds (?ps, st) = Some (n, ?ps, st3)"
      "rest_of ?ast ?P ?is ds n"
    using mt.match_longest [of "(?ps, st)" ?ps e sp ds ?is ?ast] D ix by auto
  then show "\<exists>n st'. regexpmrphs_match e sp False True True p ds st = Some (n, p, st') \<and>
      ((n = -1 \<and> (\<forall>k \<le> length ds. \<not> mrphs_lang e sp p (take k ds))) \<or>
       (\<exists>k \<le> length ds. n = int (length ds) - int k \<and> mrphs_lang e sp p (take k ds) \<and>
          (\<forall>m \<le> length ds. mrphs_lang e sp p (take m ds) \<longrightarrow> m \<le> k)))"
    using rest_of_longest [of ?ast ?P ?is ds n]
    by (simp add: regexpmrphs_match_def ix mrphs_lang_def)
qed

interpretation bs: sequence_matcher "regexpbnsts_match e sp" "bnsts_ok D e sp" D "bnsts_lang e sp"
  for D e sp
proof
  fix p :: REGEXPBNSTS and ds st
  assume ok: "bnsts_ok D e sp p" and D: "set ds \<subseteq> D"
  let ?ps = "r_bnst p" and ?is = "[0..<nat (r_bnstsize p)]"
  let ?ast = "bnst_ast ?ps" and ?P = "\<lambda>i. bnst_holds e sp (?ps ! i)"
  have ix: "pattern_indices ?ps (r_bnstsize p) = Some ?is" "list_all (bnst_settled D e sp) ?ps"
      "\<forall>r \<in> set ?is. r < length ?ps"
    using ok by (auto simp: bnsts_ok_def pattern_indices_def)
  obtain st1 where "regexp_match ?ast (bnst_test e sp) False False ?is ds (?ps, st) =
      Some (if accepts ?ast ?P ?is ds then 0 else -1, ?ps, st1)"
    using bt.match_all [of "(?ps, st)" ?ps D e sp ds ?is ?ast False] D ix by auto
  then show "\<exists>n st'. regexpbnsts_match e sp False False False p ds st = Some (n, p, st') \<and>
      (n \<noteq> -1 \<longleftrightarrow> bnsts_lang e sp p ds)"
    by (simp add: regexpbnsts_match_def ix bnsts_lang_def)
  obtain st2 where "regexp_match ?ast (bnst_test e sp) False False (rev ?is) (rev ds) (?ps, st) =
      Some (if accepts ?ast ?P ?is ds then 0 else -1, ?ps, st2)"
    using bt.match_all [of "(?ps, st)" ?ps D e sp "rev ds" "rev ?is" ?ast False] D ix
    by (auto simp: accepts_rev)
  then show "\<exists>n st'. regexpbnsts_match e sp True False False p (rev ds) st = Some (n, p, st') \<and>
      (n \<noteq> -1 \<longleftrightarrow> bnsts_lang e sp p ds)"
    by (simp add: regexpbnsts_match_def ix bnsts_lang_def)
  obtain n st3 where "regexp_match ?ast (bnst_test e sp) True True ?is ds (?ps, st) = Some (n, ?ps, st3)"
      "rest_of ?ast ?P ?is ds n"
    using bt.match_longest [of "(?ps, st)" ?ps D e sp ds ?is ?ast] D ix by auto
  then show "\<exists>n st'. regexpbnsts_match e sp False True True p ds st = Some (n, p, st') \<and>
      ((n = -1 \<and> (\<forall>k \<le> length ds. \<not> bnsts_lang e sp p (take k ds))) \<or>
       (\<exists>k \<le> length ds. n = int (length ds) - int k \<and> bnsts_lang e sp p (take k ds) \<and>
          (\<forall>m \<le> length ds. bnsts_lang e sp p (take m ds) \<longrightarrow> m \<le> k)))"
    using rest_of_longest [of ?ast ?P ?is ds n]
    by (simp add: regexpbnsts_match_def ix bnsts_lang_def)
qed

lemma regexptags_match_eq: "regexptags_match e sp = regexpbnsts_match e sp"
  by (intro ext) (simp add: regexptags_match_def regexpbnsts_match_def)

text \<open>Elements without feature functions are settled.\<close>

lemma feature_pattern_match_plain:
  "list_all (list_all function_free) fr \<Longrightarrow>
   \<exists>v. \<forall>st. feature_pattern_match e sp fr fd p1 p2 st = Some (v, fr, st)"
proof -
  assume f: "list_all (list_all function_free) fr"
  then have "\<exists>v. \<forall>st. feature_OR_match e sp fr fd p1 p2 st = Some (v, fr, st)"
    by (induction fr) (auto simp: feature_AND_match_literals)
  then show ?thesis by (auto simp: feature_pattern_match_def)
qed

lemma mrph_settled_plain:
  assumes "\<And>m. mrph_items_match e p m \<noteq> None" and "list_all (list_all function_free) (r_f_pattern p)"
  shows "mrph_settled e sp p"
  unfolding mrph_settled_def
proof
  fix d assume "d \<in> mrph_dom sp"
  then obtain m where m: "mrph_at sp d = Some m" by (auto simp: mrph_dom_def mrph_at_def)
  obtain b where b: "mrph_items_match e p m = Some b" using assms(1) by blast
  obtain v where "\<forall>st. feature_pattern_match e sp (r_f_pattern p) (m_f m) None (Some d) st =
      Some (v, r_f_pattern p, st)"
    using feature_pattern_match_plain [OF assms(2)] by blast
  then show "\<exists>v. \<forall>st. \<exists>st'. regexpmrph_match e sp p d st = Some (v, p, st')"
    by (cases "r_type_flag p = QST_FLG"; cases "flag_result (r_type_flag p) b")
      (auto simp: regexpmrph_match_def m b)
qed

text \<open>Any number of morphemes and then one with the given spelling; any one bunsetsu.\<close>

definition sample_pattern :: REGEXPMRPHS where
  "sample_pattern =
     \<lparr>r_mrph = [RegexpMrphInitValue\<lparr>r_type_flag := QST_FLG, r_ast_flag := AST_FLG\<rparr>,
                RegexpMrphInitValue\<lparr>r_Goi := [Some ''ab'', None]\<rparr>],
      r_mrphsize = 2\<rparr>"

definition sample_bnst_pattern :: REGEXPBNSTS where
  "sample_bnst_pattern =
     \<lparr>r_bnst = [RegexpBnstInitValue\<lparr>rb_type_flag := QST_FLG\<rparr>], r_bnstsize = 1\<rparr>"

definition sample_text :: SENTENCE_DATA where
  "sample_text =
     (sample_sentence [[], []])\<lparr>mrph_data := map (\<lambda>g. sample_mrph g []) [''x'', ''ab'', ''y''],
        tag_data := [NODE.extend sample_node (TAG_DATA.fields 0 0 0 0 0 0 None None None)]\<rparr>"

definition sample_mrph_rule :: MrphRule where
  "sample_mrph_rule =
     \<lparr>mr_pre_pattern = None, mr_self_pattern = Some sample_pattern, mr_post_pattern = None, mr_f = []\<rparr>"

definition sample_bnst_rule :: BnstRule where
  "sample_bnst_rule =
     \<lparr>br_pre_pattern = Some sample_bnst_pattern, br_self_pattern = Some sample_bnst_pattern,
      br_post_pattern = None, br_f = []\<rparr>"

lemma rule_cmp_init:
  "rule_HBK_cmp c (0 # rs) d = Some True"
  "rule_Kei_cmp e c (replicate RM_MAX None) i j = Some True"
  "rule_Goi_cmp c (replicate RM_MAX None) g = Some True"
  by (simp_all add: rule_HBK_cmp_def rule_Kei_cmp_def rule_Goi_cmp_def at_def RM_MAX_def)

lemma mrph_items_init:
  "mrph_items_match e (RegexpMrphInitValue\<lparr>r_type_flag := t, r_ast_flag := a\<rparr>) m = Some True"
  "mrph_items_match e (RegexpMrphInitValue\<lparr>r_Goi := gs\<rparr>) m = rule_Goi_cmp (CHR 0x00) gs (m_Goi m)"
  by (simp_all add: mrph_items_match_def RegexpMrphInitValue_def rule_cmp_init and_then_def)

lemma sample_pattern_ok: "mrphs_ok sample_env sp sample_pattern"
proof -
  have "mrph_settled sample_env sp (RegexpMrphInitValue\<lparr>r_type_flag := QST_FLG, r_ast_flag := AST_FLG\<rparr>)"
    by (rule mrph_settled_plain) (simp add: mrph_items_init, simp add: RegexpMrphInitValue_def)
  moreover have "mrph_settled sample_env sp (RegexpMrphInitValue\<lparr>r_Goi := [Some ''ab'', None]\<rparr>)"
  proof (rule mrph_settled_plain)
    show "mrph_items_match sample_env (RegexpMrphInitValue\<lparr>r_Goi := [Some ''ab'', None]\<rparr>) m \<noteq> None" for m
      unfolding mrph_items_init by (auto simp: rule_Goi_cmp_def)
  qed (simp add: RegexpMrphInitValue_def)
  ultimately show ?thesis by (simp add: mrphs_ok_def sample_pattern_def)
qed

lemma sample_bnst_pattern_ok: "bnsts_ok D sample_env sp sample_bnst_pattern"
  by (auto simp: bnsts_ok_def sample_bnst_pattern_def bnst_settled_def regexpbnst_match_def)

lemma sample_text_sel [simp]:
  "length (mrph_data sample_text) = 3" "length (bnst_data sample_text) = 2"
  "length (tag_data sample_text) = 1"
  by (simp_all add: sample_text_def)

lemma sample_text_dom: "set (map MrphP [0..<3]) \<subseteq> mrph_dom sample_text"
  by (auto simp: mrph_dom_def)

section \<open>What the rules rely on\<close>

text \<open>
  C9. A complete match of a morpheme pattern succeeds exactly on the morpheme sequences of its
  language, whichever alternative of an asterisk is tried first, and leaves the pattern as it is.
\<close>

theorem regexpmrphs_match_language:
  assumes "mrphs_ok e sp r" and "set ds \<subseteq> mrph_dom sp"
  shows "\<exists>n st'. regexpmrphs_match e sp False False long r ds st = Some (n, r, st') \<and>
    (n \<noteq> -1 \<longleftrightarrow> mrphs_lang e sp r ds)"
proof -
  have ix: "pattern_indices (r_mrph r) (r_mrphsize r) = Some [0..<nat (r_mrphsize r)]"
      "list_all (mrph_settled e sp) (r_mrph r)" "\<forall>i \<in> set [0..<nat (r_mrphsize r)]. i < length (r_mrph r)"
    using assms(1) by (auto simp: mrphs_ok_def pattern_indices_def)
  then obtain st1 where "regexp_match (mrph_ast (r_mrph r)) (mrph_test e sp) False long
      [0..<nat (r_mrphsize r)] ds (r_mrph r, st) =
      Some (if mrphs_lang e sp r ds then 0 else -1, r_mrph r, st1)"
    using mt.match_all [of "(r_mrph r, st)" "r_mrph r" e sp ds "[0..<nat (r_mrphsize r)]"
        "mrph_ast (r_mrph r)" long] assms(2)
    by (auto simp: mrphs_lang_def)
  then show ?thesis by (simp add: regexpmrphs_match_def ix)
qed

theorem regexpmrphs_match_language_witness:
  "\<exists>n st'. regexpmrphs_match sample_env sample_text False False True sample_pattern (map MrphP [0..<3])
       clear_state = Some (n, sample_pattern, st') \<and>
     (n \<noteq> -1 \<longleftrightarrow> mrphs_lang sample_env sample_text sample_pattern (map MrphP [0..<3]))"
  by (rule regexpmrphs_match_language [OF sample_pattern_ok sample_text_dom])

text \<open>
  A longest partial match of a morpheme pattern leaves over what the longest prefix in the
  language leaves, and fails exactly when no prefix is in the language.
\<close>

theorem regexpmrphs_match_longest:
  assumes "mrphs_ok e sp r" and "set ds \<subseteq> mrph_dom sp"
  shows "\<exists>n st'. regexpmrphs_match e sp False True True r ds st = Some (n, r, st') \<and>
    ((n = -1 \<and> (\<forall>k \<le> length ds. \<not> mrphs_lang e sp r (take k ds))) \<or>
     (\<exists>k \<le> length ds. n = int (length ds) - int k \<and> mrphs_lang e sp r (take k ds) \<and>
        (\<forall>m \<le> length ds. mrphs_lang e sp r (take m ds) \<longrightarrow> m \<le> k)))"
  using assms by (rule ms.mt_long)

theorem regexpmrphs_match_longest_witness:
  "\<exists>k \<le> 3. mrphs_lang sample_env sample_text sample_pattern (take k (map MrphP [0..<3])) \<and>
     (\<forall>m \<le> 3. mrphs_lang sample_env sample_text sample_pattern (take m (map MrphP [0..<3])) \<longrightarrow> m \<le> k)"
proof -
  have "map_option fst (regexpmrphs_match sample_env sample_text False True True sample_pattern
      (map MrphP [0..<3]) clear_state) = Some 1"
    by code_simp
  then show ?thesis
    using regexpmrphs_match_longest [OF sample_pattern_ok sample_text_dom, of clear_state] by auto
qed

text \<open>
  Matching backward from the element before the current one decides whether the preceding
  elements, read forward, are in the language.
\<close>

theorem regexpmrphs_match_backward:
  assumes "mrphs_ok e sp r" and "set ds \<subseteq> mrph_dom sp"
  shows "\<exists>n st'. regexpmrphs_match e sp True False False r (rev ds) st = Some (n, r, st') \<and>
    (n \<noteq> -1 \<longleftrightarrow> mrphs_lang e sp r ds)"
  using assms by (rule ms.mt_back)

theorem regexpmrphs_match_backward_witness:
  "\<exists>n st'. regexpmrphs_match sample_env sample_text True False False sample_pattern
       (rev (map MrphP [0..<3])) clear_state = Some (n, sample_pattern, st') \<and>
     (n \<noteq> -1 \<longleftrightarrow> mrphs_lang sample_env sample_text sample_pattern (map MrphP [0..<3]))"
  by (rule regexpmrphs_match_backward [OF sample_pattern_ok sample_text_dom])

text \<open>
  C36. A morpheme rule matches at a position when the elements before it are in the language of the
  preceding pattern and some length of at least one fits; it then returns the greatest such length.
  When it returns 0, no length of at least one fits but the empty stretch does.
\<close>

theorem regexpmrphrule_match_greatest:
  assumes "\<forall>p \<in> set_option (mr_pre_pattern r) \<union> set_option (mr_self_pattern r) \<union>
      set_option (mr_post_pattern r). mrphs_ok e sp p"
    and "bw_length \<le> pos" and "pos + fw_length \<le> length (mrph_data sp)"
  shows "\<exists>n st'. regexpmrphrule_match e sp r pos bw_length fw_length st = Some (n, r, st') \<and>
    (if precedes (mrphs_lang e sp) (mr_pre_pattern r) (map MrphP [pos - bw_length..<pos])
     then rule_result (mrphs_lang e sp) (mr_self_pattern r) (mr_post_pattern r)
            (map MrphP [pos..<pos + fw_length]) fw_length n
     else n = -1)"
proof -
  let ?ds = "map MrphP [0..<length (mrph_data sp)]"
  have "window ?ds (pos - bw_length) bw_length = map MrphP [pos - bw_length..<pos]"
    "window ?ds pos fw_length = map MrphP [pos..<pos + fw_length]"
    using assms(2,3) by (auto simp: window_def drop_map take_map)
  moreover have "set ?ds \<subseteq> mrph_dom sp" by (auto simp: mrph_dom_def)
  ultimately show ?thesis
    using ms.rule_match_result [of "mr_pre_pattern r" e sp "mr_self_pattern r" "mr_post_pattern r" ?ds
        bw_length pos fw_length st] assms
    by (auto simp: regexpmrphrule_match_def)
qed

theorem regexpmrphrule_match_greatest_witness:
  "\<exists>n st'. regexpmrphrule_match sample_env sample_text sample_mrph_rule 0 0 3 clear_state =
       Some (n, sample_mrph_rule, st') \<and>
     rule_result (mrphs_lang sample_env sample_text) (Some sample_pattern) None
       (map MrphP [0..<3]) 3 n"
  using regexpmrphrule_match_greatest [of sample_mrph_rule sample_env sample_text 0 0 3 clear_state]
  by (simp add: sample_mrph_rule_def sample_pattern_ok precedes_def)

text \<open>
  The same for a bunsetsu rule.
\<close>

theorem regexpbnstrule_match_greatest:
  assumes "\<forall>p \<in> set_option (br_pre_pattern r) \<union> set_option (br_self_pattern r) \<union>
      set_option (br_post_pattern r). bnsts_ok (bnst_dom sp) e sp p"
    and "bw_length \<le> pos" and "pos + fw_length \<le> length (bnst_data sp)"
  shows "\<exists>n st'. regexpbnstrule_match e sp r pos bw_length fw_length st = Some (n, r, st') \<and>
    (if precedes (bnsts_lang e sp) (br_pre_pattern r) (map BnstP [pos - bw_length..<pos])
     then rule_result (bnsts_lang e sp) (br_self_pattern r) (br_post_pattern r)
            (map BnstP [pos..<pos + fw_length]) fw_length n
     else n = -1)"
proof -
  let ?ds = "map BnstP [0..<length (bnst_data sp)]"
  have "window ?ds (pos - bw_length) bw_length = map BnstP [pos - bw_length..<pos]"
    "window ?ds pos fw_length = map BnstP [pos..<pos + fw_length]"
    using assms(2,3) by (auto simp: window_def drop_map take_map)
  moreover have "set ?ds \<subseteq> bnst_dom sp" by (auto simp: bnst_dom_def)
  ultimately show ?thesis
    using bs.rule_match_result [of "br_pre_pattern r" "bnst_dom sp" e sp "br_self_pattern r"
        "br_post_pattern r" ?ds bw_length pos fw_length st] assms
    by (auto simp: regexpbnstrule_match_def)
qed

theorem regexpbnstrule_match_greatest_witness:
  "\<exists>n st'. regexpbnstrule_match sample_env sample_text sample_bnst_rule 1 1 1 clear_state =
     Some (n, sample_bnst_rule, st')"
  using regexpbnstrule_match_greatest [of sample_bnst_rule sample_text sample_env 1 1 1 clear_state]
  by (auto simp: sample_bnst_rule_def sample_bnst_pattern_ok)

text \<open>
  The same for a base phrase rule.
\<close>

theorem regexptagrule_match_greatest:
  assumes "\<forall>p \<in> set_option (br_pre_pattern r) \<union> set_option (br_self_pattern r) \<union>
      set_option (br_post_pattern r). bnsts_ok (tag_dom sp) e sp p"
    and "bw_length \<le> pos" and "pos + fw_length \<le> length (tag_data sp)"
  shows "\<exists>n st'. regexptagrule_match e sp r pos bw_length fw_length st = Some (n, r, st') \<and>
    (if precedes (bnsts_lang e sp) (br_pre_pattern r) (map TagP [pos - bw_length..<pos])
     then rule_result (bnsts_lang e sp) (br_self_pattern r) (br_post_pattern r)
            (map TagP [pos..<pos + fw_length]) fw_length n
     else n = -1)"
proof -
  let ?ds = "map TagP [0..<length (tag_data sp)]"
  have "window ?ds (pos - bw_length) bw_length = map TagP [pos - bw_length..<pos]"
    "window ?ds pos fw_length = map TagP [pos..<pos + fw_length]"
    using assms(2,3) by (auto simp: window_def drop_map take_map)
  moreover have "set ?ds \<subseteq> tag_dom sp" by (auto simp: tag_dom_def)
  ultimately show ?thesis
    using bs.rule_match_result [of "br_pre_pattern r" "tag_dom sp" e sp "br_self_pattern r"
        "br_post_pattern r" ?ds bw_length pos fw_length st] assms
    by (auto simp: regexptagrule_match_def regexptags_match_eq)
qed

theorem regexptagrule_match_greatest_witness:
  "\<exists>n st'. regexptagrule_match sample_env sample_text sample_bnst_rule 0 0 1 clear_state =
     Some (n, sample_bnst_rule, st')"
  using regexptagrule_match_greatest [of sample_bnst_rule sample_text sample_env 0 0 1 clear_state]
  by (auto simp: sample_bnst_rule_def sample_bnst_pattern_ok)

end
