(* ===== verification/Knp_Rules.thy ===== *)
theory Knp_Rules
  imports Knp_Regexp_Spec
begin

text \<open>
  From rule files to rules: the list cells of the reader (\<open>src/juman/lib/lisp.c\<close>), their conversion
  to features and feature patterns (\<open>feature.c\<close>), to patterns over morphemes and bunsetsu
  (\<open>regexp.c\<close>), and the rule readers of \<open>read_rule.c\<close>, as functions of the expressions read from
  the file. The tables of parts of speech and inflections, which JUMAN reads from its grammar files,
  are the argument \<open>GRAMMAR\<close>. The result \<^const>\<open>None\<close> stands for the program stopping with an
  error message, or for undefined behaviour.
\<close>

section \<open>Definitions\<close>

datatype CELL = NIL | ATOM string | CONS CELL CELL

fun car :: "CELL \<Rightarrow> CELL option" where
  "car NIL = Some NIL"
| "car (CONS a d) = Some a"
| "car (ATOM s) = None"

fun cdr :: "CELL \<Rightarrow> CELL option" where
  "cdr NIL = Some NIL"
| "cdr (CONS a d) = Some d"
| "cdr (ATOM s) = None"

fun cell_length :: "CELL \<Rightarrow> nat" where
  "cell_length (CONS a d) = Suc (cell_length d)"
| "cell_length _ = 0"

fun atom_of :: "CELL \<Rightarrow> string option" where
  "atom_of (ATOM s) = Some s"
| "atom_of _ = None"

record GRAMMAR =
  get_hinsi_id :: "string \<Rightarrow> int"
  get_bunrui_id :: "string \<Rightarrow> int \<Rightarrow> int"
  get_type_id :: "string \<Rightarrow> int"

subsection \<open>Features\<close>

fun list2feature :: "CELL \<Rightarrow> FEATURE option" where
  "list2feature NIL = Some []"
| "list2feature (ATOM s) = None"
| "list2feature (CONS a d) =
     (if a = NIL then Some []
      else do { s \<leftarrow> atom_of a; fp \<leftarrow> list2feature d; Some (s # fp) })"

fun pattern_cells :: "CELL \<Rightarrow> FEATURE_PATTERN option" where
  "pattern_cells NIL = Some []"
| "pattern_cells (ATOM s) = None"
| "pattern_cells (CONS a d) =
     (if a = NIL then Some []
      else do { f \<leftarrow> list2feature a; fr \<leftarrow> pattern_cells d; Some (f # fr) })"

definition list2feature_pattern :: "CELL \<Rightarrow> FEATURE_PATTERN option" where
  "list2feature_pattern cell =
     do { fr \<leftarrow> pattern_cells cell; if length fr < RF_MAX then Some fr else None }"

subsection \<open>Morpheme patterns\<close>

datatype mrph_item = MRPH_HINSHI | MRPH_BUNRUI | MRPH_KATA | MRPH_KEI | MRPH_GOI

definition store_mrph_nflag :: "mrph_item \<Rightarrow> REGEXPMRPH \<Rightarrow> REGEXPMRPH" where
  "store_mrph_nflag type mp =
     (case type of
        MRPH_HINSHI \<Rightarrow> mp\<lparr>r_Hinshi_not := NOT_FLG\<rparr>
      | MRPH_BUNRUI \<Rightarrow> mp\<lparr>r_Bunrui_not := NOT_FLG\<rparr>
      | MRPH_KATA \<Rightarrow> mp\<lparr>r_Kata_not := NOT_FLG\<rparr>
      | MRPH_KEI \<Rightarrow> mp\<lparr>r_Kei_not := NOT_FLG\<rparr>
      | MRPH_GOI \<Rightarrow> mp\<lparr>r_Goi_not := NOT_FLG\<rparr>)"

text \<open>One value into the array of an item; an index outside the array is undefined.\<close>

definition store_value :: "GRAMMAR \<Rightarrow> mrph_item \<Rightarrow> nat \<Rightarrow> string \<Rightarrow> REGEXPMRPH \<Rightarrow> REGEXPMRPH option" where
  "store_value g type n s mp =
     (if n \<ge> RM_MAX then None
      else Some (case type of
        MRPH_HINSHI \<Rightarrow> mp\<lparr>r_Hinshi := (r_Hinshi mp)[n := get_hinsi_id g s]\<rparr>
      | MRPH_BUNRUI \<Rightarrow> mp\<lparr>r_Bunrui := (r_Bunrui mp)[n := get_bunrui_id g s (r_Hinshi mp ! 0)]\<rparr>
      | MRPH_KATA \<Rightarrow> mp\<lparr>r_Katuyou_Kata := (r_Katuyou_Kata mp)[n := get_type_id g s]\<rparr>
      | MRPH_KEI \<Rightarrow> mp\<lparr>r_Katuyou_Kei := (r_Katuyou_Kei mp)[n := Some s]\<rparr>
      | MRPH_GOI \<Rightarrow> mp\<lparr>r_Goi := (r_Goi mp)[n := Some s]\<rparr>))"

fun store_values :: "GRAMMAR \<Rightarrow> mrph_item \<Rightarrow> nat \<Rightarrow> CELL \<Rightarrow> REGEXPMRPH \<Rightarrow> REGEXPMRPH option" where
  "store_values g type n NIL mp = Some mp"
| "store_values g type n (ATOM s) mp = None"
| "store_values g type n (CONS a d) mp =
     (if a = NIL then Some mp
      else do { s \<leftarrow> atom_of a; mp' \<leftarrow> store_value g type n s mp; store_values g type (n + 1) d mp' })"

text \<open>
  One item of a morpheme: the element with the item stored and the cell of the next item, which is
  \<^const>\<open>None\<close> at the end of the list.
\<close>

definition store_list :: "GRAMMAR \<Rightarrow> mrph_item \<Rightarrow> CELL \<Rightarrow> CELL \<Rightarrow> REGEXPMRPH \<Rightarrow> (REGEXPMRPH \<times> CELL option) option"
where
  "store_list g type list_cell mcell mp =
     (if type = MRPH_BUNRUI \<and> r_Hinshi mp ! 1 \<noteq> -1 then None
      else do { mp' \<leftarrow> store_values g type 0 list_cell mp; rest \<leftarrow> cdr mcell; Some (mp', Some rest) })"

definition store_mrph_item :: "GRAMMAR \<Rightarrow> mrph_item \<Rightarrow> REGEXPMRPH \<Rightarrow> CELL \<Rightarrow> (REGEXPMRPH \<times> CELL option) option"
where
  "store_mrph_item g type mp mcell =
     do { a \<leftarrow> car mcell;
          case a of
            NIL \<Rightarrow> Some (mp, None)
          | ATOM tmp \<Rightarrow>
              if tmp = ''*'' then do { rest \<leftarrow> cdr mcell; Some (mp, Some rest) }
              else if tmp = ''^'' then
                do { mcell' \<leftarrow> cdr mcell; b \<leftarrow> car mcell';
                     store_list g type (case b of ATOM s \<Rightarrow> CONS b NIL | _ \<Rightarrow> b) mcell'
                       (store_mrph_nflag type mp) }
              else if starts tmp ''^'' then
                store_list g type (CONS (ATOM (tl tmp)) NIL) mcell (store_mrph_nflag type mp)
              else store_list g type (CONS a NIL) mcell mp
          | CONS x y \<Rightarrow> store_list g type a mcell mp }"

text \<open>The items in their order; the list may end after any of them.\<close>

fun store_items :: "GRAMMAR \<Rightarrow> mrph_item list \<Rightarrow> REGEXPMRPH \<Rightarrow> CELL \<Rightarrow> (REGEXPMRPH \<times> CELL option) option"
where
  "store_items g [] mp mcell = Some (mp, Some mcell)"
| "store_items g (t # ts) mp mcell =
     do { (mp', next) \<leftarrow> store_mrph_item g t mp mcell;
          case next of None \<Rightarrow> Some (mp', None) | Some c \<Rightarrow> store_items g ts mp' c }"

text \<open>Element \<open>k\<close> of the array is filled; the flag tells whether it is complete.\<close>

definition store_regexpmrph ::
  "GRAMMAR \<Rightarrow> REGEXPMRPH list \<Rightarrow> nat \<Rightarrow> CELL \<Rightarrow> (char \<times> REGEXPMRPH list) option" where
  "store_regexpmrph g ps k mcell =
     (case mcell of
        ATOM s \<Rightarrow>
          if s = ''^'' then Some (NOT_FLG, ps[k := (ps ! k)\<lparr>r_type_flag := NOT_FLG\<rparr>])
          else if s = ''?'' then Some (QST_FLG, ps[k := (ps ! k)\<lparr>r_type_flag := QST_FLG\<rparr>])
          else if s = ''*'' then
            (if k = 0 then None
             else Some (AST_FLG, ps[k - 1 := (ps ! (k - 1))\<lparr>r_ast_flag := AST_FLG\<rparr>]))
          else if s = ''?*'' then
            Some (QST_FLG, ps[k := (ps ! k)\<lparr>r_type_flag := QST_FLG, r_ast_flag := AST_FLG\<rparr>])
          else None
      | _ \<Rightarrow>
          do { (mp, next) \<leftarrow> store_items g [MRPH_HINSHI, MRPH_BUNRUI, MRPH_KATA, MRPH_KEI, MRPH_GOI]
                               ((ps ! k)\<lparr>r_f_pattern := []\<rparr>) mcell;
               case next of
                 None \<Rightarrow> Some (MAT_FLG, ps[k := mp])
               | Some c \<Rightarrow>
                   do { a \<leftarrow> car c; fr \<leftarrow> list2feature_pattern a; d \<leftarrow> cdr c;
                        if d = NIL then Some (MAT_FLG, ps[k := mp\<lparr>r_f_pattern := fr\<rparr>]) else None } })"

text \<open>\<^verbatim>\<open>char mrphsize\<close>: a signed byte.\<close>

definition to_char :: "nat \<Rightarrow> int" where
  "to_char n = (int n + 128) mod 256 - 128"

fun store_mrph_cells ::
  "GRAMMAR \<Rightarrow> CELL \<Rightarrow> REGEXPMRPH list \<Rightarrow> nat \<Rightarrow> (REGEXPMRPH list \<times> nat) option" where
  "store_mrph_cells g NIL ps k = Some (ps, k)"
| "store_mrph_cells g (ATOM s) ps k = None"
| "store_mrph_cells g (CONS a d) ps k =
     do { (flag, ps') \<leftarrow> store_regexpmrph g ps k a;
          store_mrph_cells g d ps' (if flag = MAT_FLG \<or> flag = QST_FLG then k + 1 else k) }"

definition store_regexpmrphs :: "GRAMMAR \<Rightarrow> CELL \<Rightarrow> REGEXPMRPHS option option" where
  "store_regexpmrphs g cell =
     (if cell = NIL then Some None
      else do { (ps, k) \<leftarrow> store_mrph_cells g cell (replicate (cell_length cell) RegexpMrphInitValue) 0;
                Some (Some \<lparr>r_mrph = ps, r_mrphsize = to_char k\<rparr>) })"

subsection \<open>Bunsetsu patterns\<close>

definition store_regexpbnst ::
  "GRAMMAR \<Rightarrow> REGEXPBNST list \<Rightarrow> nat \<Rightarrow> CELL \<Rightarrow> (char \<times> REGEXPBNST list) option" where
  "store_regexpbnst g ps k cell =
     (case cell of
        ATOM s \<Rightarrow>
          if s = ''^'' then Some (NOT_FLG, ps[k := (ps ! k)\<lparr>rb_type_flag := NOT_FLG\<rparr>])
          else if s = ''?'' then Some (QST_FLG, ps[k := (ps ! k)\<lparr>rb_type_flag := QST_FLG\<rparr>])
          else if s = ''*'' then
            (if k = 0 then None
             else Some (AST_FLG, ps[k - 1 := (ps ! (k - 1))\<lparr>rb_ast_flag := AST_FLG\<rparr>]))
          else if s = ''?*'' then
            Some (QST_FLG, ps[k := (ps ! k)\<lparr>rb_type_flag := QST_FLG, rb_ast_flag := AST_FLG\<rparr>])
          else None
      | _ \<Rightarrow>
          do { a \<leftarrow> car cell; mrphs \<leftarrow> store_regexpmrphs g a; d \<leftarrow> cdr cell;
               fr \<leftarrow> (if d \<noteq> NIL then do { f \<leftarrow> car d; list2feature_pattern f } else Some []);
               Some (MAT_FLG, ps[k := (ps ! k)\<lparr>rb_mrphs := mrphs, rb_f_pattern := fr\<rparr>]) })"

fun store_bnst_cells ::
  "GRAMMAR \<Rightarrow> CELL \<Rightarrow> REGEXPBNST list \<Rightarrow> nat \<Rightarrow> (REGEXPBNST list \<times> nat) option" where
  "store_bnst_cells g NIL ps k = Some (ps, k)"
| "store_bnst_cells g (ATOM s) ps k = None"
| "store_bnst_cells g (CONS a d) ps k =
     do { (flag, ps') \<leftarrow> store_regexpbnst g ps k a;
          store_bnst_cells g d ps' (if flag = MAT_FLG \<or> flag = QST_FLG then k + 1 else k) }"

definition store_regexpbnsts :: "GRAMMAR \<Rightarrow> CELL \<Rightarrow> REGEXPBNSTS option option" where
  "store_regexpbnsts g cell =
     (if cell = NIL then Some None
      else do { (ps, k) \<leftarrow> store_bnst_cells g cell (replicate (cell_length cell) RegexpBnstInitValue) 0;
                Some (Some \<lparr>r_bnst = ps, r_bnstsize = to_char k\<rparr>) })"

subsection \<open>Rule readers\<close>

text \<open>The loop of a reader: one rule per expression, and a stop when the table is full.\<close>

definition read_rules :: "(CELL \<Rightarrow> 'r option) \<Rightarrow> nat \<Rightarrow> CELL list \<Rightarrow> 'r list option" where
  "read_rules rule mx cells =
     do { rs \<leftarrow> those (map rule cells); if length rs < mx then Some rs else None }"

definition read_mrph_rule :: "GRAMMAR \<Rightarrow> nat \<Rightarrow> CELL list \<Rightarrow> MrphRule list option" where
  "read_mrph_rule g mx cells =
     read_rules (\<lambda>body.
       do { c0 \<leftarrow> car body; pre \<leftarrow> store_regexpmrphs g c0;
            d1 \<leftarrow> cdr body; c1 \<leftarrow> car d1; self \<leftarrow> store_regexpmrphs g c1;
            d2 \<leftarrow> cdr d1; c2 \<leftarrow> car d2; post \<leftarrow> store_regexpmrphs g c2;
            d3 \<leftarrow> cdr d2; f \<leftarrow> list2feature d3;
            Some \<lparr>mr_pre_pattern = pre, mr_self_pattern = self, mr_post_pattern = post, mr_f = f\<rparr> })
     mx cells"

definition read_bnst_rule :: "GRAMMAR \<Rightarrow> nat \<Rightarrow> CELL list \<Rightarrow> BnstRule list option" where
  "read_bnst_rule g mx cells =
     read_rules (\<lambda>body.
       do { c0 \<leftarrow> car body; pre \<leftarrow> store_regexpbnsts g c0;
            d1 \<leftarrow> cdr body; c1 \<leftarrow> car d1; self \<leftarrow> store_regexpbnsts g c1;
            d2 \<leftarrow> cdr d1; c2 \<leftarrow> car d2; post \<leftarrow> store_regexpbnsts g c2;
            d3 \<leftarrow> cdr d2; f \<leftarrow> list2feature d3;
            Some \<lparr>br_pre_pattern = pre, br_self_pattern = self, br_post_pattern = post, br_f = f\<rparr> })
     mx cells"

text \<open>The start and end patterns of a correlation rule are used without a test for null.\<close>

definition first_char :: "string \<Rightarrow> char" where
  "first_char s = (if s = [] then CHR 0x00 else hd s)"

definition read_koou_rule :: "GRAMMAR \<Rightarrow> nat \<Rightarrow> CELL list \<Rightarrow> KoouRule list option" where
  "read_koou_rule g mx cells =
     read_rules (\<lambda>body.
       do { c0 \<leftarrow> car body; s \<leftarrow> store_regexpmrphs g c0; start \<leftarrow> s;
            d1 \<leftarrow> cdr body; c1 \<leftarrow> car d1; t \<leftarrow> store_regexpmrphs g c1; fin \<leftarrow> t;
            d2 \<leftarrow> cdr d1; c2 \<leftarrow> car d2;
            uke \<leftarrow> (if c2 \<noteq> NIL then store_regexpmrphs g c2 else Some None);
            d3 \<leftarrow> cdr d2; c3 \<leftarrow> car d3;
            ty \<leftarrow> (if c3 \<noteq> NIL then map_option first_char (atom_of c3) else Some (CHR ''D''));
            Some \<lparr>kr_start_pattern = start, kr_end_pattern = fin, kr_uke_pattern = uke, kr_dpnd_type = ty\<rparr> })
     mx cells"

definition DpndRule_G_MAX :: nat where "DpndRule_G_MAX = 35"

fun governor_cells :: "CELL \<Rightarrow> (FEATURE_PATTERN \<times> char) list option" where
  "governor_cells NIL = Some []"
| "governor_cells (ATOM s) = None"
| "governor_cells (CONS a d) =
     (if a = NIL then Some []
      else do { g \<leftarrow> car a; fr \<leftarrow> list2feature_pattern g;
                r \<leftarrow> cdr a; t \<leftarrow> car r; s \<leftarrow> atom_of t;
                rest \<leftarrow> governor_cells d; Some ((fr, first_char s) # rest) })"

definition read_dpnd_rule :: "nat \<Rightarrow> CELL list \<Rightarrow> DpndRule list option" where
  "read_dpnd_rule mx cells =
     read_rules (\<lambda>body.
       do { c0 \<leftarrow> car body; dep \<leftarrow> list2feature_pattern c0;
            d1 \<leftarrow> cdr body; c1 \<leftarrow> car d1; gov \<leftarrow> governor_cells c1;
            d2 \<leftarrow> cdr d1; c2 \<leftarrow> car d2; barrier \<leftarrow> list2feature_pattern c2;
            d3 \<leftarrow> cdr d2; c3 \<leftarrow> car d3; pref \<leftarrow> atom_of c3;
            d4 \<leftarrow> cdr d3; c4 \<leftarrow> car d4;
            u \<leftarrow> (if c4 = NIL then Some False else map_option (\<lambda>s. s = ''U'') (atom_of c4));
            if length gov < DpndRule_G_MAX
            then Some \<lparr>dr_dependant = dep, dr_governor = gov, dr_barrier = barrier,
                       dr_preference = c_atoi pref, dr_decide = u\<rparr>
            else None })
     mx cells"

section \<open>Properties\<close>

lemma store_regexpmrph_length:
  "store_regexpmrph g ps k c = Some (f, ps') \<Longrightarrow> length ps' = length ps"
  by (auto simp: store_regexpmrph_def bind_eq_Some_conv
      split: CELL.splits if_splits option.splits prod.splits)

lemma store_mrph_cells_bound:
  "store_mrph_cells g c ps k = Some (ps', n) \<Longrightarrow> length ps' = length ps \<and> k \<le> n \<and> n \<le> k + cell_length c"
proof (induction c arbitrary: ps k)
  case (CONS a d)
  then show ?case
    by (fastforce simp: bind_eq_Some_conv dest: store_regexpmrph_length split: if_splits)
qed auto

lemma to_char_id: "n < 128 \<Longrightarrow> to_char n = int n"
  by (simp add: to_char_def)

text \<open>
  A morpheme pattern read from a list of fewer than 128 cells has a size that its array holds, so
  that the matcher stays inside it; the size, a signed byte, wraps for longer lists.
\<close>

theorem store_regexpmrphs_size:
  assumes "store_regexpmrphs g cell = Some (Some r)" and "cell_length cell < 128"
  shows "0 \<le> r_mrphsize r \<and> nat (r_mrphsize r) \<le> length (r_mrph r) \<and>
    pattern_indices (r_mrph r) (r_mrphsize r) = Some [0..<nat (r_mrphsize r)]"
proof -
  obtain ps k where "store_mrph_cells g cell (replicate (cell_length cell) RegexpMrphInitValue) 0 = Some (ps, k)"
      and r: "r = \<lparr>r_mrph = ps, r_mrphsize = to_char k\<rparr>"
    using assms(1) by (auto simp: store_regexpmrphs_def bind_eq_Some_conv split: if_splits)
  then have "length ps = cell_length cell" "k \<le> cell_length cell"
    using store_mrph_cells_bound by fastforce+
  then show ?thesis using assms(2) r by (simp add: to_char_id pattern_indices_def)
qed

theorem store_regexpmrphs_size_witness:
  "\<exists>r. store_regexpmrphs \<lparr>get_hinsi_id = \<lambda>_. 6, get_bunrui_id = \<lambda>_ _. 1, get_type_id = \<lambda>_. 0\<rparr>
       (CONS (ATOM ''?*'') (CONS (CONS (ATOM ''N'') NIL) NIL)) = Some (Some r) \<and>
     0 \<le> r_mrphsize r \<and> nat (r_mrphsize r) \<le> length (r_mrph r)"
proof -
  let ?g = "\<lparr>get_hinsi_id = \<lambda>_. 6, get_bunrui_id = \<lambda>_ _. 1, get_type_id = \<lambda>_. 0\<rparr> :: GRAMMAR"
  let ?c = "CONS (ATOM ''?*'') (CONS (CONS (ATOM ''N'') NIL) NIL)"
  obtain r where "store_regexpmrphs ?g ?c = Some (Some r)"
    by (simp add: store_regexpmrphs_def store_regexpmrph_def store_mrph_item_def store_list_def
        store_value_def RM_MAX_def starts_def MAT_FLG_def QST_FLG_def)
  then show ?thesis using store_regexpmrphs_size [of ?g ?c r] by auto
qed

end
