(* ===== verification/Knp_Koou.thy ===== *)
theory Knp_Koou
  imports Knp_Rules Knp_Quote
begin

text \<open>
  Correlative expressions, from \<open>src/system/koou.c\<close>: the rules find pairs of bunsetsu of which the
  first announces the second, and the dependency matrix is rewritten so that the first depends on one
  of its partners and nothing crosses the stretch between them.
\<close>

section \<open>Definitions\<close>

record KOOU_DATA =
  Koou_matrix :: "int matrix"
  Koou_dpnd_matrix :: "int matrix"
  koou_m_p :: "nat \<Rightarrow> bool"

definition init_koou :: "SENTENCE_DATA \<Rightarrow> KOOU_DATA \<Rightarrow> KOOU_DATA" where
  "init_koou sp k =
     k\<lparr>koou_m_p := (\<lambda>i. if i < Bnst_num sp then False else koou_m_p k i),
       Koou_matrix := fill_rect 0 (Bnst_num sp) 0 (Bnst_num sp) 0 (Koou_matrix k),
       Koou_dpnd_matrix := fill_rect 0 (Bnst_num sp) 0 (Bnst_num sp) 0 (Koou_dpnd_matrix k)\<rparr>"

text \<open>
  The state of the search: the rule, whose patterns the matching may rewrite, the globals, the
  matrices and whether a pair was found.
\<close>

record koou_state =
  ks_rule :: KoouRule
  ks_st :: chk_state
  ks_data :: KOOU_DATA
  ks_flag :: bool

definition koou_pu :: "SENTENCE_DATA \<Rightarrow> nat \<Rightarrow> nat \<Rightarrow> bool" where
  "koou_pu sp i k \<longleftrightarrow> list_ex (\<lambda>l. has_feature (bnst_f sp l) ''PU'') [i..<k]"

definition koou_mark :: "nat \<Rightarrow> nat \<Rightarrow> int \<Rightarrow> char \<Rightarrow> KOOU_DATA \<Rightarrow> KOOU_DATA" where
  "koou_mark i k v dpnd_type d =
     d\<lparr>Koou_matrix := set_cell i k v (Koou_matrix d),
       Koou_dpnd_matrix := set_cell i k (of_char dpnd_type) (Koou_dpnd_matrix d)\<rparr>"

text \<open>The end and then the middle pattern of a rule on bunsetsu \<open>k\<close>.\<close>

definition koou_end :: "ENV \<Rightarrow> language \<Rightarrow> SENTENCE_DATA \<Rightarrow> nat \<Rightarrow> nat \<Rightarrow> koou_state \<Rightarrow> koou_state option" where
  "koou_end e Language sp i k s =
     (let pu_flag = (Language = CHINESE \<and> koou_pu sp i k); r = ks_rule s;
          f = bnst_f sp k in
      do { c \<leftarrow> node_at sp (BnstP k);
           (n, p, st1) \<leftarrow> old_regexpbnst_match e sp (kr_end_pattern r) c (ks_st s);
           let r1 = r\<lparr>kr_end_pattern := p\<rparr> in
           if n \<noteq> -1 \<and> (Language \<noteq> CHINESE \<or>
                (\<not> pu_flag \<and> (has_feature f ''LC'' \<or> has_feature f ''NN'')))
           then let d = (ks_data s)\<lparr>koou_m_p := (koou_m_p (ks_data s))(i := True)\<rparr> in
                Some (s\<lparr>ks_rule := r1, ks_st := st1, ks_flag := True,
                        ks_data := koou_mark i k 1 (kr_dpnd_type r) d\<rparr>)
           else case kr_uke_pattern r of
                  None \<Rightarrow> Some (s\<lparr>ks_rule := r1, ks_st := st1\<rparr>)
                | Some u \<Rightarrow>
                    do { (n', u', st2) \<leftarrow> old_regexpbnst_match e sp u c st1;
                         let r2 = r1\<lparr>kr_uke_pattern := Some u'\<rparr> in
                         if n' \<noteq> -1 \<and> (Language \<noteq> CHINESE \<or> (\<not> pu_flag \<and> has_feature f ''LC''))
                         then Some (s\<lparr>ks_rule := r2, ks_st := st2,
                                      ks_data := koou_mark i k 2 (kr_dpnd_type r) (ks_data s)\<rparr>)
                         else Some (s\<lparr>ks_rule := r2, ks_st := st2\<rparr>) } })"

definition koou_rule :: "ENV \<Rightarrow> language \<Rightarrow> SENTENCE_DATA \<Rightarrow> nat \<Rightarrow> koou_state \<Rightarrow> koou_state option" where
  "koou_rule e Language sp i s =
     do { b \<leftarrow> node_at sp (BnstP i);
          (n, p, st1) \<leftarrow> old_regexpbnst_match e sp (kr_start_pattern (ks_rule s)) b (ks_st s);
          let s1 = s\<lparr>ks_rule := (ks_rule s)\<lparr>kr_start_pattern := p\<rparr>, ks_st := st1\<rparr> in
          if n \<noteq> -1 \<and> (Language \<noteq> CHINESE \<or> has_feature (bnst_f sp i) ''P'')
          then fold_option (koou_end e Language sp i) [i..<Bnst_num sp] s1
          else Some s1 }"

type_synonym koou_search = "KoouRule list \<times> chk_state \<times> KOOU_DATA \<times> bool"

definition koou_rule_at ::
  "ENV \<Rightarrow> language \<Rightarrow> SENTENCE_DATA \<Rightarrow> nat \<Rightarrow> nat \<Rightarrow> koou_search \<Rightarrow> koou_search option" where
  "koou_rule_at e Language sp i j t =
     (case t of
        (rules, st, d, flag) \<Rightarrow>
          do { s \<leftarrow> koou_rule e Language sp i
                      \<lparr>ks_rule = rules ! j, ks_st = st, ks_data = d, ks_flag = flag\<rparr>;
               Some (rules[j := ks_rule s], ks_st s, ks_data s, ks_flag s) })"

definition check_koou ::
  "ENV \<Rightarrow> language \<Rightarrow> SENTENCE_DATA \<Rightarrow> KoouRule list \<Rightarrow> chk_state \<Rightarrow> KOOU_DATA \<Rightarrow> koou_search option"
where
  "check_koou e Language sp rules st d =
     fold_option (\<lambda>i t. fold_option (koou_rule_at e Language sp i) [0..<length rules] t)
       [0..<Bnst_num sp] (rules, st, d, False)"

subsection \<open>Rewriting the dependency matrix\<close>

definition mask_for :: "SENTENCE_DATA \<Rightarrow> nat \<Rightarrow> int \<Rightarrow> int \<Rightarrow> int matrix \<Rightarrow> int matrix" where
  "mask_for sp si start fin m = fill_rect (si + 1) (nat start) (nat (fin + 1)) (Bnst_num sp) 0 m"

definition mask_back :: "nat \<Rightarrow> int \<Rightarrow> int matrix \<Rightarrow> int matrix" where
  "mask_back si start m = fill_rect 0 si (si + 1) (nat start) 0 m"

text \<open>Row \<open>i\<close> of a correlation, with the first and the last partner.\<close>

definition koou_cell ::
  "KOOU_DATA \<Rightarrow> nat \<Rightarrow> nat \<Rightarrow> int \<times> int \<times> int matrix \<Rightarrow> int \<times> int \<times> int matrix" where
  "koou_cell d i j s =
     (case s of
        (f_start, f_end, m) \<Rightarrow>
          if Koou_matrix d i j > 0
          then let m1 = set_cell i j (Koou_dpnd_matrix d i j) m in
               if Koou_matrix d i j = 1
               then (if f_start < 0 then int j else f_start, int j, m1)
               else (f_start, f_end, m1)
          else (f_start, f_end, set_cell i j 0 m))"

definition change_row :: "SENTENCE_DATA \<Rightarrow> KOOU_DATA \<Rightarrow> nat \<Rightarrow> int matrix \<Rightarrow> int matrix" where
  "change_row sp d i m =
     (if koou_m_p d i
      then case for_upt i (Bnst_num sp) (koou_cell d i) (-1, -1, m) of
             (f_start, f_end, m1) \<Rightarrow> mask_back i f_start (mask_for sp i f_start f_end m1)
      else m)"

text \<open>The Chinese variant masks around each partner by the direction of the rule.\<close>

definition mask_between :: "SENTENCE_DATA \<Rightarrow> nat \<Rightarrow> nat \<Rightarrow> int matrix \<Rightarrow> int matrix" where
  "mask_between sp i j m =
     for_upt (i + 1) j
       (\<lambda>k m. for_upt (j + 1) (Bnst_num sp) (\<lambda>l. set_cell k l 0)
                (for_upt 0 i (\<lambda>l. set_cell l k 0) m)) m"

definition koou_cell_chi :: "SENTENCE_DATA \<Rightarrow> KOOU_DATA \<Rightarrow> nat \<Rightarrow> nat \<Rightarrow> int matrix \<Rightarrow> int matrix" where
  "koou_cell_chi sp d i j m =
     (if Koou_matrix d i j > 0
      then let v = Koou_dpnd_matrix d i j; m1 = set_cell i j v m;
               m2 = (if v = of_char (CHR ''L'')
                     then mask_between sp i j
                            (for_upt 0 i (\<lambda>k. set_cell k j 0)
                              (for_upt (j + 1) (Bnst_num sp) (\<lambda>k. set_cell j k 0) m1))
                     else m1)
           in if v = of_char (CHR ''R'')
              then mask_between sp i j
                     (for_upt 0 i (\<lambda>k. set_cell i k 0)
                       (for_upt (i + 1) (Bnst_num sp) (\<lambda>k m. if k \<noteq> j then set_cell i k 0 m else m) m2))
              else m2
      else m)"

definition change_row_chi :: "SENTENCE_DATA \<Rightarrow> KOOU_DATA \<Rightarrow> nat \<Rightarrow> int matrix \<Rightarrow> int matrix" where
  "change_row_chi sp d i m =
     (if koou_m_p d i then for_upt i (Bnst_num sp) (koou_cell_chi sp d i) m else m)"

definition change_matrix :: "language \<Rightarrow> SENTENCE_DATA \<Rightarrow> KOOU_DATA \<Rightarrow> int matrix \<Rightarrow> int matrix" where
  "change_matrix Language sp d m =
     (if Language = CHINESE then for_upt 0 (Bnst_num sp) (change_row_chi sp d) m
      else for_upt 0 (Bnst_num sp) (change_row sp d) m)"

definition koou ::
  "ENV \<Rightarrow> language \<Rightarrow> SENTENCE_DATA \<Rightarrow> KoouRule list \<Rightarrow> chk_state \<Rightarrow> KOOU_DATA \<Rightarrow> int matrix \<Rightarrow>
   (bool \<times> KoouRule list \<times> chk_state \<times> KOOU_DATA \<times> int matrix) option" where
  "koou e Language sp rules st d m =
     do { (rules', st', d', flag) \<leftarrow> check_koou e Language sp rules st (init_koou sp d);
          Some (flag, rules', st', d', change_matrix Language sp d' m) }"

section \<open>Properties\<close>

text \<open>The partners of a correlation, and its first and last one.\<close>

definition koou_partners :: "SENTENCE_DATA \<Rightarrow> KOOU_DATA \<Rightarrow> nat \<Rightarrow> nat list" where
  "koou_partners sp d i = filter (\<lambda>j. Koou_matrix d i j = 1) [i..<Bnst_num sp]"

lemma koou_row_loop:
  assumes "i \<le> n"
  shows "for_upt i n (koou_cell d i) (-1, -1, m) =
    (let ps = filter (\<lambda>j. Koou_matrix d i j = 1) [i..<n] in
     (if ps = [] then -1 else int (hd ps), if ps = [] then -1 else int (last ps),
      \<lambda>x y. if x = i \<and> i \<le> y \<and> y < n
            then (if Koou_matrix d i y > 0 then Koou_dpnd_matrix d i y else 0) else m x y))"
  using assms
proof (induction n rule: dec_induct)
  case base
  then show ?case by (auto simp: Let_def fun_eq_iff)
next
  case (step n)
  show ?case
    unfolding for_upt_Suc [OF step.hyps(1)] step.IH
    using step.hyps
    by (auto simp: koou_cell_def Let_def set_cell_def fun_eq_iff less_Suc_eq hd_append
        split: list.splits)
qed

lemma change_row_apply:
  assumes "i < Bnst_num sp" and "koou_m_p d i" and ps: "koou_partners sp d i = p # ps"
  shows "change_row sp d i m x y =
    (if x < i \<and> i < y \<and> y < p then 0
     else if i < x \<and> x < p \<and> last (p # ps) < y \<and> y < Bnst_num sp then 0
     else if x = i \<and> i \<le> y \<and> y < Bnst_num sp
     then (if Koou_matrix d i y > 0 then Koou_dpnd_matrix d i y else 0) else m x y)"
proof -
  have "for_upt i (Bnst_num sp) (koou_cell d i) (-1, -1, m) =
    (int p, int (last (p # ps)),
      \<lambda>x y. if x = i \<and> i \<le> y \<and> y < Bnst_num sp
            then (if Koou_matrix d i y > 0 then Koou_dpnd_matrix d i y else 0) else m x y)"
    using koou_row_loop [of i "Bnst_num sp" d m] assms(1) ps
    by (simp add: koou_partners_def Let_def)
  then show ?thesis using assms(2)
    by (auto simp: change_row_def mask_back_def mask_for_def fill_rect_apply Suc_le_eq nat_add_distrib)
qed

lemma change_row_own:
  assumes "i < Bnst_num sp" and "koou_m_p d i" and "i \<le> y" and "y < Bnst_num sp"
  shows "change_row sp d i m i y = (if Koou_matrix d i y > 0 then Koou_dpnd_matrix d i y else 0)"
  using koou_row_loop [of i "Bnst_num sp" d m] assms
  by (simp add: change_row_def Let_def mask_back_def mask_for_def fill_rect_apply)

lemma change_row_other: "x \<noteq> i \<Longrightarrow> change_row sp d i m x y = m x y \<or> change_row sp d i m x y = 0"
proof (cases "i \<le> Bnst_num sp")
  case True
  moreover assume "x \<noteq> i"
  ultimately show ?thesis using koou_row_loop [of i "Bnst_num sp" d m]
    by (auto simp: change_row_def Let_def mask_back_def mask_for_def fill_rect_apply)
next
  case False
  then show ?thesis by (auto simp: change_row_def mask_back_def mask_for_def fill_rect_apply)
qed

text \<open>
  What holds of a cell after its row was written stays when later rows can only clear it; \<open>Q\<close> is
  such a property, true of 0.
\<close>

lemma change_rows_keep:
  assumes "k < n" and "Q (for_upt 0 (Suc k) (change_row sp d) m x y)" and "Q 0"
    and "x \<le> k \<or> \<not> koou_m_p d x"
  shows "Q (for_upt 0 n (change_row sp d) m x y)"
proof -
  have "Suc k \<le> n" using assms(1) by simp
  then show ?thesis
  proof (induction n rule: dec_induct)
    case base
    then show ?case using assms(2) by simp
  next
    case (step j)
    let ?m = "for_upt 0 j (change_row sp d) m"
    have "change_row sp d j ?m x y = ?m x y \<or> change_row sp d j ?m x y = 0"
      using change_row_other [of x j sp d ?m y] assms(4) step.hyps
      by (cases "x = j") (auto simp: change_row_def)
    then show ?case using step.IH assms(3) by (auto simp: for_upt_Suc)
  qed
qed

text \<open>
  After the rewriting for Japanese, a bunsetsu that opens a correlation depends only on a
  bunsetsu that its rules marked, with the type of the rule.
\<close>

theorem change_matrix_partners:
  assumes "Language \<noteq> CHINESE" and "i < Bnst_num sp" and "koou_m_p d i" and "i \<le> j" and "j < Bnst_num sp"
    and "change_matrix Language sp d m i j \<noteq> 0"
  shows "Koou_matrix d i j > 0 \<and> change_matrix Language sp d m i j = Koou_dpnd_matrix d i j"
proof -
  let ?Q = "\<lambda>v. v = 0 \<or> (Koou_matrix d i j > 0 \<and> v = Koou_dpnd_matrix d i j)"
  have "?Q (for_upt 0 (Bnst_num sp) (change_row sp d) m i j)"
    by (rule change_rows_keep [where k = i and Q = ?Q])
      (use assms in \<open>simp_all add: for_upt_Suc change_row_own\<close>)
  then show ?thesis using assms(1,6) by (simp add: change_matrix_def)
qed


text \<open>The sample: bunsetsu 1 announces bunsetsu 3 in a sentence of five.\<close>

definition sample_koou :: KOOU_DATA where
  "sample_koou =
     \<lparr>Koou_matrix = set_cell 1 3 1 (\<lambda>_ _. 0),
      Koou_dpnd_matrix = set_cell 1 3 (of_char (CHR ''D'')) (\<lambda>_ _. 0),
      koou_m_p = (\<lambda>i. i = 1)\<rparr>"

theorem change_matrix_partners_witness:
  "Koou_matrix sample_koou 1 3 > 0"
proof -
  have "change_matrix JAPANESE (sample_sentence [[], [], [], [], []]) sample_koou (\<lambda>_ _. 1) 1 3 \<noteq> 0"
    by code_simp
  then show ?thesis
    using change_matrix_partners [of JAPANESE 1 "sample_sentence [[], [], [], [], []]" sample_koou 3
        "\<lambda>_ _. 1"]
    by (simp add: sample_koou_def)
qed


end
