(* ===== verification/Knp_Dpnd.thy ===== *)
theory Knp_Dpnd
  imports Knp_Koou
begin

text \<open>
  Dependency analysis of Japanese sentences, from \<open>src/system/dpnd_analysis.c\<close>: the rule of each
  bunsetsu, the matrix of possible dependencies, its relaxation, the search over dependency structures
  (\<open>decide_dpnd\<close>), their evaluation (\<open>dpnd_evaluation\<close>), and the fallback when there is none.

  The matrices are a record of the globals. The search is a recursion from the last bunsetsu to the
  first; the handler of complete structures is an argument (\<open>dpnd_evaluation\<close> under the options
  that analyse dependencies only), so that the set of structures that reach it can be stated. Of the
  array of candidates only the first \<open>num\<close> entries are represented.
\<close>

section \<open>Definitions\<close>

record MATRICES =
  Dpnd_matrix :: "int matrix"
  Mask_matrix :: "int matrix"
  Quote_mask :: "int matrix"

subsection \<open>Rules and matrix\<close>

text \<open>A pattern on bunsetsu \<open>j\<close>, with bunsetsu \<open>i\<close> as the dependant where there is one.\<close>

definition bnst_pattern_match ::
  "ENV \<Rightarrow> SENTENCE_DATA \<Rightarrow> FEATURE_PATTERN \<Rightarrow> nat option \<Rightarrow> nat \<Rightarrow> chk_state \<Rightarrow> (bool \<times> chk_state) option"
where
  "bnst_pattern_match e sp fr i j st =
     map_option (\<lambda>(b, _, st'). (b, st'))
       (feature_pattern_match e sp fr (bnst_f sp j) (map_option BnstP i) (Some (BnstP j)) st)"

fun first_rule ::
  "ENV \<Rightarrow> SENTENCE_DATA \<Rightarrow> nat \<Rightarrow> DpndRule list \<Rightarrow> chk_state \<Rightarrow> (DpndRule option \<times> chk_state) option" where
  "first_rule e sp i [] st = Some (None, st)"
| "first_rule e sp i (r # rs) st =
     (case bnst_pattern_match e sp (dr_dependant r) None i st of
        None \<Rightarrow> None
      | Some (b, st') \<Rightarrow> if b then Some (Some r, st') else first_rule e sp i rs st')"

definition assign_dpnd_rule ::
  "ENV \<Rightarrow> DpndRule list \<Rightarrow> SENTENCE_DATA \<Rightarrow> chk_state \<Rightarrow> (SENTENCE_DATA \<times> chk_state) option" where
  "assign_dpnd_rule e DpndRuleArray sp st =
     fold_option (\<lambda>i (sp, st).
       do { (r, st') \<leftarrow> first_rule e sp i DpndRuleArray st;
            let sp1 = (case r of None \<Rightarrow> sp | Some r' \<Rightarrow> set_bnst i (\<lambda>b. b\<lparr>b_dpnd_rule := Some r'\<rparr>) sp) in
            if b_dpnd_rule (bnst_data sp1 ! i) = None
            then do { r0 \<leftarrow> at DpndRuleArray 0;
                      Some (set_bnst i (\<lambda>b. b\<lparr>b_dpnd_rule := Some r0\<rparr>) sp1, st') }
            else Some (sp1, st') })
       [0..<Bnst_num sp] (sp, st)"

fun first_governor ::
  "ENV \<Rightarrow> SENTENCE_DATA \<Rightarrow> nat \<Rightarrow> nat \<Rightarrow> (FEATURE_PATTERN \<times> char) list \<Rightarrow> chk_state \<Rightarrow>
   (int \<times> chk_state) option" where
  "first_governor e sp i j [] st = Some (0, st)"
| "first_governor e sp i j ((g, t) # gs) st =
     (if t = CHR 0x00 then Some (0, st)
      else case bnst_pattern_match e sp g (Some i) j st of
             None \<Rightarrow> None
           | Some (value, st') \<Rightarrow> if value then Some (of_char t, st') else first_governor e sp i j gs st')"

definition calc_dpnd_matrix ::
  "ENV \<Rightarrow> SENTENCE_DATA \<Rightarrow> int matrix \<Rightarrow> chk_state \<Rightarrow> (int matrix \<times> chk_state) option" where
  "calc_dpnd_matrix e sp m st =
     fold_option (\<lambda>i (m, st).
       fold_option (\<lambda>j (m, st).
         do { r \<leftarrow> b_dpnd_rule (bnst_data sp ! i);
              (v, st') \<leftarrow> first_governor e sp i j (dr_governor r) st;
              Some (set_cell i j v m, st') })
         [i + 1..<Bnst_num sp] (m, st))
       [0..<Bnst_num sp] (m, st)"

subsection \<open>Relaxation\<close>

text \<open>The scan of one row: whether a governor was found, and the last possible position.\<close>

fun relax_scan :: "SENTENCE_DATA \<Rightarrow> MATRICES \<Rightarrow> nat \<Rightarrow> nat \<Rightarrow> nat list \<Rightarrow> bool \<times> nat" where
  "relax_scan sp M i last_possibility [] = (False, last_possibility)"
| "relax_scan sp M i last_possibility (j # js) =
     (if Quote_mask M i j \<noteq> 0 then
        (if Dpnd_matrix M i j > 0 then (True, last_possibility)
         else if has_feature (bnst_f sp j) s_k_bunmatsu then (False, j)
         else relax_scan sp M i j js)
      else relax_scan sp M i last_possibility js)"

definition relax_row :: "SENTENCE_DATA \<Rightarrow> nat \<Rightarrow> bool \<times> MATRICES \<Rightarrow> bool \<times> MATRICES" where
  "relax_row sp i s =
     (case s of
        (relax_flag, M) \<Rightarrow>
          (case relax_scan sp M i i [i + 1..<Bnst_num sp] of
             (ok_flag, l) \<Rightarrow>
               if \<not> ok_flag \<and>
                  (has_feature (bnst_f sp l) s_bunmatsu \<or> has_feature (bnst_f sp l) s_k_bunmatsu \<or>
                   has_feature (bnst_f sp l) s_kakko_shuu)
               then (True, M\<lparr>Dpnd_matrix := set_cell i l (of_char (CHR ''R'')) (Dpnd_matrix M)\<rparr>)
               else (relax_flag, M)))"

definition relax_dpnd_matrix :: "SENTENCE_DATA \<Rightarrow> MATRICES \<Rightarrow> bool \<times> MATRICES" where
  "relax_dpnd_matrix sp M = for_upt 0 (Bnst_num sp - 1) (relax_row sp) (False, M)"

subsection \<open>Candidates\<close>

definition check_uncertain_d_condition :: "SENTENCE_DATA \<Rightarrow> MATRICES \<Rightarrow> DPND \<Rightarrow> nat \<Rightarrow> bool" where
  "check_uncertain_d_condition sp M dp gvnr =
     (let p = d_pos dp;
          next_D = (case find (\<lambda>i. Mask_matrix M p i \<noteq> 0 \<and> Quote_mask M p i \<noteq> 0 \<and> d_mask dp i \<and>
                                   Dpnd_matrix M p i = of_char (CHR ''D''))
                           [gvnr + 1..<Bnst_num sp] of None \<Rightarrow> 0 | Some i \<Rightarrow> i);
          dpnd_cp = check_feature (bnst_f sp p) s_kakari;
          gvnr_cp = check_feature (bnst_f sp gvnr) s_kakari;
          next_cp = (if gvnr + 1 < Bnst_num sp then check_feature (bnst_f sp (gvnr + 1)) s_kakari else None)
      in next_D = 0 \<or> gvnr + 2 < next_D \<or>
         (gvnr + 2 = next_D \<and> gvnr + 1 < Bnst_num sp \<and> has_feature (bnst_f sp (gvnr + 1)) s_taigen \<and>
          ((dpnd_cp \<noteq> None \<and> next_cp \<noteq> None \<and> dpnd_cp = next_cp) \<or>
           (gvnr_cp \<noteq> None \<and> next_cp \<noteq> None \<and> gvnr_cp = next_cp))))"

definition barrier_set :: "DpndRule \<Rightarrow> bool" where
  "barrier_set r \<longleftrightarrow> dr_barrier r \<noteq> [] \<and> hd (dr_barrier r) \<noteq> []"

text \<open>
  The loop over the possible governors of bunsetsu \<open>p\<close>; \<open>open_cell\<close> says which cells it
  considers, \<open>all_d\<close> whether an uncertain dependency is always taken. It stops at a barrier.
\<close>

fun candidates ::
  "ENV \<Rightarrow> SENTENCE_DATA \<Rightarrow> MATRICES \<Rightarrow> DPND \<Rightarrow> DpndRule \<Rightarrow> nat \<Rightarrow> bool \<Rightarrow> (nat \<Rightarrow> bool) \<Rightarrow>
   nat list \<Rightarrow> nat list \<Rightarrow> bool \<Rightarrow> chk_state \<Rightarrow> (nat list \<times> chk_state) option" where
  "candidates e sp M dp r p all_d open_cell [] possibilities d_possibility st = Some (possibilities, st)"
| "candidates e sp M dp r p all_d open_cell (i # is) possibilities d_possibility st =
     (if open_cell i then
        (let v = Dpnd_matrix M p i;
             uncertain = ((all_d \<or> d_possibility) \<and> v = of_char (CHR ''d''));
             certain = (v \<noteq> 0 \<and> v \<noteq> of_char (CHR ''d''));
             ps = (if uncertain
                   then (if all_d \<or> check_uncertain_d_condition sp M dp i
                         then possibilities @ [i] else possibilities)
                   else if certain then possibilities @ [i] else possibilities);
             dp' = (if uncertain \<or> certain then False else d_possibility)
         in if ps \<noteq> [] \<and> barrier_set r then
              (case bnst_pattern_match e sp (dr_barrier r) (Some p) i st of
                 None \<Rightarrow> None
               | Some (b, st') \<Rightarrow>
                   if b then Some (ps, st')
                   else candidates e sp M dp r p all_d open_cell is ps dp' st')
            else candidates e sp M dp r p all_d open_cell is ps dp' st)
      else candidates e sp M dp r p all_d open_cell is possibilities d_possibility st)"

text \<open>The columns that the arc of the next bunsetsu closes.\<close>

definition close_mask :: "SENTENCE_DATA \<Rightarrow> nat \<Rightarrow> DPND \<Rightarrow> DPND" where
  "close_mask sp p dp =
     (if p + 2 < Bnst_num sp
      then dp\<lparr>d_mask := (\<lambda>i. if p + 2 \<le> i \<and> int i < d_head dp (p + 1) then False else d_mask dp i)\<rparr>
      else dp)"

definition default_position :: "DpndRule \<Rightarrow> nat \<Rightarrow> int" where
  "default_position r count = (if dr_preference r = -1 then int count else dr_preference r)"

subsection \<open>The search\<close>

definition set_head :: "nat \<Rightarrow> int \<Rightarrow> char \<Rightarrow> DPND \<Rightarrow> DPND" where
  "set_head p h t dp = dp\<lparr>d_head := (d_head dp)(p := h), d_type := (d_type dp)(p := t)\<rparr>"

definition set_dflt :: "nat \<Rightarrow> int \<Rightarrow> DPND \<Rightarrow> DPND" where
  "set_dflt p v dp = dp\<lparr>d_dflt := (d_dflt dp)(p := v)\<rparr>"

definition set_check :: "nat \<Rightarrow> CHECK_DATA \<Rightarrow> DPND \<Rightarrow> DPND" where
  "set_check p c dp = dp\<lparr>d_check := (d_check dp)(p := c)\<rparr>"

definition one_candidate :: "nat \<Rightarrow> nat \<Rightarrow> DPND \<Rightarrow> DPND" where
  "one_candidate p i dp = set_check p ((d_check dp p)\<lparr>ck_num := 1, ck_pos := [i]\<rparr>) dp"

definition type_of_cell :: "int \<Rightarrow> char" where
  "type_of_cell v = char_of (nat v)"

text \<open>
  The relative heads of bunsetsu that follow an earlier one: resolved from the left; \<open>None\<close> inside
  is an impossible structure, which is dropped.
\<close>

fun resolve_heads :: "nat list \<Rightarrow> DPND \<Rightarrow> DPND option option" where
  "resolve_heads [] dp = Some (Some dp)"
| "resolve_heads (i # is) dp =
     (if d_head dp i < 0 then
        (if int i + d_head dp i < 0 then None
         else let h = d_head dp (nat (int i + d_head dp i)) in
              if int i \<ge> h then Some None
              else resolve_heads is
                     (set_check i ((d_check dp i)\<lparr>ck_pos := [nat h]\<rparr>)
                       (dp\<lparr>d_head := (d_head dp)(i := h)\<rparr>)))
      else resolve_heads is dp)"

text \<open>The marks of coordination found before: the first governor with mark 2 or 3.\<close>

definition para_mark :: "SENTENCE_DATA \<Rightarrow> MATRICES \<Rightarrow> nat \<Rightarrow> (nat \<times> char) option" where
  "para_mark sp M p =
     (case find (\<lambda>i. Mask_matrix M p i = 2 \<or> Mask_matrix M p i = 3) [p + 1..<Bnst_num sp] of
        None \<Rightarrow> None
      | Some i \<Rightarrow> Some (i, if Mask_matrix M p i = 2 then CHR ''P'' else CHR ''I''))"

text \<open>\<^verbatim>\<open>sscanf(cp, "%*[^:]:%*[^:]:%d", &head)\<close>: the third column, if it is a number.\<close>

definition follow_head :: "string \<Rightarrow> int \<Rightarrow> int" where
  "follow_head cp old =
     (case scan_until (CHR '':'') cp of
        None \<Rightarrow> old
      | Some (_, r1) \<Rightarrow>
          (case scan_until (CHR '':'') (drop 1 r1) of
             None \<Rightarrow> old
           | Some (_, r2) \<Rightarrow>
               (if r1 = [] \<or> r2 = [] then old
                else case scan_int (tl r2) of None \<Rightarrow> old | Some (v, _) \<Rightarrow> v)))"

type_synonym 's handler = "DPND \<Rightarrow> 's \<Rightarrow> 's option"

text \<open>
  \<open>decide_dpnd pos dp\<close>: the bunsetsu from \<open>pos\<close> on have their heads. The state is the state of the
  feature functions and that of the handler.
\<close>

primrec decide_dpnd ::
  "ENV \<Rightarrow> SENTENCE_DATA \<Rightarrow> MATRICES \<Rightarrow> 's handler \<Rightarrow> nat \<Rightarrow> DPND \<Rightarrow> chk_state \<times> 's \<Rightarrow>
   (chk_state \<times> 's) option" where
  "decide_dpnd e sp M ev 0 dp s =
     (case resolve_heads [0..<Bnst_num sp - 1] dp of
        None \<Rightarrow> None
      | Some None \<Rightarrow> Some s
      | Some (Some d) \<Rightarrow> map_option (\<lambda>t. (fst s, t)) (ev d (snd s)))"
| "decide_dpnd e sp M ev (Suc p) dp0 s =
     (let dp = close_mask sp p (dp0\<lparr>d_pos := p\<rparr>);
          n = Bnst_num sp
      in case para_mark sp M p of
           Some (i, t) \<Rightarrow> decide_dpnd e sp M ev p (one_candidate p i (set_head p (int i) t dp)) s
         | None \<Rightarrow>
             (case check_feature (bnst_f sp p) s_k_mukaku_juuzoku of
                Some cp \<Rightarrow>
                  decide_dpnd e sp M ev p
                    (set_check p ((d_check dp p)\<lparr>ck_num := 1\<rparr>)
                      (set_dflt p 0 (set_head p (follow_head cp (d_head dp p)) (CHR ''D'') dp))) s
              | None \<Rightarrow>
                  do { r \<leftarrow> b_dpnd_rule (bnst_data sp ! p);
                       (ps, st) \<leftarrow> candidates e sp M dp r p False
                          (\<lambda>i. Mask_matrix M p i \<noteq> 0 \<and> Quote_mask M p i \<noteq> 0 \<and> d_mask dp i)
                          [p + 1..<n] [] True (fst s);
                       if ps \<noteq> [] then
                         (let count = length ps; def = default_position r count;
                              dp1 = set_check p \<lparr>ck_num = int count, ck_def = def, ck_pos = ps\<rparr> dp in
                          if \<not> barrier_set r \<or> dr_decide r then
                            (if def < 1 then None
                             else let h = (if def \<le> int count then ps ! nat (def - 1) else ps ! (count - 1))
                                  in decide_dpnd e sp M ev p
                                       (set_dflt p 0 (set_head p (int h) (type_of_cell (Dpnd_matrix M p h)) dp1))
                                       (st, snd s))
                          else
                            fold_option (\<lambda>i t.
                                decide_dpnd e sp M ev p
                                  (set_dflt p \<bar>def - 1 - int i\<bar>
                                    (set_head p (int (ps ! i))
                                      (type_of_cell (Dpnd_matrix M p (ps ! i))) dp1)) t)
                              [0..<count] (st, snd s))
                       else if Mask_matrix M p (n - 1) \<noteq> 0 then
                         decide_dpnd e sp M ev p
                           (one_candidate p (n - 1)
                             (set_dflt p 10 (set_head p (int (n - 1)) (CHR ''D'') dp))) (st, snd s)
                       else Some (st, snd s) }))"

subsection \<open>Counting candidates\<close>

text \<open>
  The candidates of every bunsetsu, without the marks of coordination. The structure is not moved to
  the bunsetsu examined, so that the condition on uncertain dependencies sees its old position.
\<close>

primrec count_dpnd_candidates ::
  "ENV \<Rightarrow> bool \<Rightarrow> SENTENCE_DATA \<Rightarrow> MATRICES \<Rightarrow> nat \<Rightarrow> DPND \<Rightarrow> chk_state \<Rightarrow> (DPND \<times> chk_state) option" where
  "count_dpnd_candidates e OptCKY sp M 0 dp st = Some (dp, st)"
| "count_dpnd_candidates e OptCKY sp M (Suc pos) dp0 st =
     (let dp = close_mask sp pos dp0 in
      do { r \<leftarrow> b_dpnd_rule (bnst_data sp ! pos);
           (ps, st') \<leftarrow> candidates e sp M dp r pos OptCKY (\<lambda>i. Quote_mask M pos i \<noteq> 0 \<and> d_mask dp i)
                          [pos + 1..<Bnst_num sp] [] True st;
           count_dpnd_candidates e OptCKY sp M pos
             (if ps \<noteq> []
              then set_check pos \<lparr>ck_num = int (length ps), ck_def = default_position r (length ps), ck_pos = ps\<rparr> dp
              else dp) st' })"

definition call_count_dpnd_candidates ::
  "ENV \<Rightarrow> bool \<Rightarrow> SENTENCE_DATA \<Rightarrow> MATRICES \<Rightarrow> DPND \<Rightarrow> chk_state \<Rightarrow> (DPND \<times> chk_state) option" where
  "call_count_dpnd_candidates e OptCKY sp M dp st =
     count_dpnd_candidates e OptCKY sp M (Bnst_num sp)
       (dp\<lparr>d_mask := (\<lambda>i. if i < Bnst_num sp then True else d_mask dp i),
           d_check := (\<lambda>i. if i < Bnst_num sp then \<lparr>ck_num = -1, ck_def = 0, ck_pos = []\<rparr>
                           else d_check dp i)\<rparr>) st"

subsection \<open>Evaluation\<close>

text \<open>
  The locals of the evaluation of one governor: its score, the surface cases already scored, whether a
  topic was scored, the number of unmarked elements, and the topic score, which keeps its last value
  and has none at first.
\<close>

record eval_state =
  ev_score :: int
  ev_scase :: "int list"
  ev_ha :: bool
  ev_un :: nat
  ev_topic :: "int option"

definition scan_topic :: "string \<Rightarrow> int option \<Rightarrow> int option" where
  "scan_topic cp old =
     (case scan_until (CHR '':'') cp of
        None \<Rightarrow> old
      | Some (_, r) \<Rightarrow> if r = [] then old
                      else (case scan_int (tl r) of None \<Rightarrow> old | Some (v, _) \<Rightarrow> Some v))"

definition add_score :: "int \<Rightarrow> eval_state \<Rightarrow> eval_state" where
  "add_score v s = s\<lparr>ev_score := ev_score s + v\<rparr>"

definition GA :: nat where "GA = nat (case2num s_ga)"
definition WO :: nat where "WO = nat (case2num s_wo)"
definition NI :: nat where "NI = nat (case2num s_ni)"
definition GA2 :: nat where "GA2 = nat (case2num s_ga2)"

definition time_or_amount :: "FEATURE \<Rightarrow> bool" where
  "time_or_amount f \<longleftrightarrow> has_feature f s_jikan \<or> has_feature f s_suuryou"

text \<open>A topic that depends on a predicate.\<close>

definition eval_topic :: "FEATURE \<Rightarrow> FEATURE \<Rightarrow> eval_state \<Rightarrow> eval_state option" where
  "eval_topic df gf s =
     do { s1 \<leftarrow> (case check_feature gf s_teidai_uke of
                    None \<Rightarrow> Some s
                  | Some cp2 \<Rightarrow>
                      do { t \<leftarrow> scan_topic cp2 (ev_topic s); Some (add_score t (s\<lparr>ev_topic := Some t\<rparr>)) });
          Some (if time_or_amount df then add_score 10 s1
                else if \<not> ev_ha s1 then add_score 10 (s1\<lparr>ev_ha := True\<rparr>)
                else s1) }"

text \<open>
  One case element of a predicate; the flag tells that the loop over the dependants is left. The
  case number is taken three bytes after the begin of the feature, where the name of the case would
  start if the first character had two bytes.
\<close>

definition eval_case :: "NODE \<Rightarrow> FEATURE \<Rightarrow> string \<Rightarrow> eval_state \<Rightarrow> (bool \<times> eval_state) option" where
  "eval_case g df cp s =
     (let k = case2num (drop 3 cp); gf = n_f g in
      if cp = s_k_mikaku then
        Some (False, if time_or_amount df then add_score 10 s else s\<lparr>ev_un := ev_un s + 1\<rparr>)
      else if cp = s_k_nokaku then
        Some (if \<not> has_feature gf s_taigen then (True, add_score 10 s) else (False, s))
      else if cp = s_k_gakaku then
        do { c1 \<leftarrow> at (n_SCASE_code g) GA;
             if c1 \<noteq> 0 \<and> ev_scase s ! GA = 0
             then Some (False, add_score 10 (s\<lparr>ev_scase := (ev_scase s)[GA := 1]\<rparr>))
             else do { c2 \<leftarrow> at (n_SCASE_code g) GA2;
                       if c2 \<noteq> 0 \<and> ev_scase s ! GA2 = 0
                       then Some (False, add_score 10 (s\<lparr>ev_scase := (ev_scase s)[GA := 1]\<rparr>))
                       else Some (False, s) } }
      else if k \<noteq> -1 then
        Some (False, if ev_scase s ! nat k = 0
                     then add_score 10 (s\<lparr>ev_scase := (ev_scase s)[nat k := 1]\<rparr>) else s)
      else Some (False, s))"

definition eval_dependant ::
  "SENTENCE_DATA \<Rightarrow> DPND \<Rightarrow> nat \<Rightarrow> NODE \<Rightarrow> bool \<Rightarrow> nat \<Rightarrow> eval_state \<Rightarrow> (bool \<times> eval_state) option" where
  "eval_dependant sp dp i g pred_p j s =
     (let df = bnst_f sp j; gf = n_f g;
          s1 = add_score (if has_feature df s_teidai then - d_dflt dp j else - (d_dflt dp j * 2)) s;
          s2 = (if j + 1 = i \<and> has_feature df s_touten then add_score (-5) s1 else s1)
      in if \<not> pred_p then Some (False, s2)
         else case check_feature df s_kakari of
                None \<Rightarrow> Some (False, s2)
              | Some cp \<Rightarrow>
                  do { s3 \<leftarrow> (if has_feature df s_teidai \<and> cp = s_k_mikaku then eval_topic df gf s2
                              else Some s2);
                       (stop, s4) \<leftarrow> eval_case g df cp s3;
                       if stop then Some (True, s4)
                       else Some (False,
                              if has_feature df s_yougen \<and>
                                 (has_feature df s_k_mikaku \<or> has_feature df s_k_gakaku) \<and>
                                 has_feature gf s_yougen_han
                              then add_score 3 s4 else s4) })"

fun eval_dependants ::
  "SENTENCE_DATA \<Rightarrow> DPND \<Rightarrow> nat \<Rightarrow> NODE \<Rightarrow> bool \<Rightarrow> nat list \<Rightarrow> eval_state \<Rightarrow> eval_state option" where
  "eval_dependants sp dp i g pred_p [] s = Some s"
| "eval_dependants sp dp i g pred_p (j # js) s =
     (if d_head dp j = int i then
        (case eval_dependant sp dp i g pred_p j s of
           None \<Rightarrow> None
         | Some (stop, s') \<Rightarrow> if stop then Some s' else eval_dependants sp dp i g pred_p js s')
      else eval_dependants sp dp i g pred_p js s)"

text \<open>The slots that are free after the dependants, for the relative clause and unmarked elements.\<close>

definition eval_slots :: "SENTENCE_DATA \<Rightarrow> DPND \<Rightarrow> nat \<Rightarrow> NODE \<Rightarrow> eval_state \<Rightarrow> eval_state option" where
  "eval_slots sp dp i g s =
     (let gf = n_f g in
      do { (rentai, s1) \<leftarrow>
             (if has_feature gf s_k_renkaku then
                (if d_head dp i < 0 then None
                 else do { h \<leftarrow> node_at sp (BnstP (nat (d_head dp i)));
                           Some (if has_feature (n_f h) s_soto \<or> has_feature (n_f h) s_rule_soto
                                 then (0, add_score 10 s) else (1::nat, s)) })
              else Some (0, s));
           ga \<leftarrow> at (n_SCASE_code g) GA; wo \<leftarrow> at (n_SCASE_code g) WO;
           ni \<leftarrow> at (n_SCASE_code g) NI; ga2 \<leftarrow> at (n_SCASE_code g) GA2;
           let vacant = (if ga - ev_scase s1 ! GA = 1 then 1 else 0)
                      + (if wo - ev_scase s1 ! WO = 1 then 1 else 0)
                      + (if ni - ev_scase s1 ! NI = 1 \<and> rentai = 1 \<and> has_feature gf s_yougen_dou
                         then 1 else 0)
                      + (if ga2 - ev_scase s1 ! GA2 = 1 then 1 else (0::nat)) in
           Some (add_score (int (min (rentai + ev_un s1) vacant) * 10) s1) })"

definition eval_governor ::
  "SENTENCE_DATA \<Rightarrow> DPND \<Rightarrow> nat \<Rightarrow> int \<times> int option \<Rightarrow> (int \<times> int option) option" where
  "eval_governor sp dp i s =
     (case s of
        (score, topic) \<Rightarrow>
          do { g \<leftarrow> node_at sp (BnstP i);
               let pred_p = (has_feature (n_f g) s_yougen \<or> has_feature (n_f g) s_jun_yougen) in
               do { s1 \<leftarrow> eval_dependants sp dp i g pred_p (rev [0..<i])
                            \<lparr>ev_score = 0, ev_scase = replicate SCASE_CODE_SIZE 0, ev_ha = False,
                             ev_un = 0, ev_topic = topic\<rparr>;
                    s2 \<leftarrow> (if pred_p then eval_slots sp dp i g s1 else Some s1);
                    Some (score + ev_score s2, ev_topic s2) } })"

definition dpnd_score :: "SENTENCE_DATA \<Rightarrow> DPND \<Rightarrow> int option" where
  "dpnd_score sp dp =
     map_option fst (fold_option (eval_governor sp dp) [1..<Bnst_num sp] (0, None))"

text \<open>The best structure so far, and the counters of structures that improved on it and of all.\<close>

record TOTAL_MGR =
  tm_dpnd :: DPND
  tm_score :: int
  tm_ID :: int
  Possibility :: nat
  dpndID :: int

definition dpnd_evaluation :: "SENTENCE_DATA \<Rightarrow> DPND \<Rightarrow> TOTAL_MGR \<Rightarrow> TOTAL_MGR option" where
  "dpnd_evaluation sp dp best =
     do { score \<leftarrow> dpnd_score sp dp;
          let b = (if score > tm_score best
                   then best\<lparr>tm_dpnd := dp, tm_score := score, tm_ID := dpndID best,
                             Possibility := Possibility best + 1\<rparr>
                   else best) in
          Some (b\<lparr>dpndID := dpndID b + 1\<rparr>) }"

definition compare_dpnd :: "SENTENCE_DATA \<Rightarrow> TOTAL_MGR \<Rightarrow> TOTAL_MGR \<Rightarrow> bool" where
  "compare_dpnd sp new_mgr best_mgr = False"

subsection \<open>Results\<close>

definition dpnd_info_to_bnst :: "language \<Rightarrow> DPND \<Rightarrow> SENTENCE_DATA \<Rightarrow> SENTENCE_DATA" where
  "dpnd_info_to_bnst Language dp sp =
     for_upt 0 (Bnst_num sp)
       (\<lambda>i. set_bnst i (\<lambda>b. b\<lparr>n_dpnd_head := d_head dp i,
          n_dpnd_type := (if Language \<noteq> CHINESE \<and> (d_type dp i = CHR ''d'' \<or> d_type dp i = CHR ''R'')
                          then CHR ''D'' else d_type dp i),
          n_dpnd_dflt := d_dflt dp i\<rparr>)) sp"

definition when_no_dpnd_struct :: "SENTENCE_DATA \<Rightarrow> TOTAL_MGR \<Rightarrow> TOTAL_MGR" where
  "when_no_dpnd_struct sp best =
     (let d0 = set_head (Bnst_num sp - 1) (-1) (CHR ''D'') (tm_dpnd best);
          d1 = fold (\<lambda>i d. one_candidate i (i + 1) (set_head i (int (i + 1)) (CHR ''D'') d))
                 (rev [0..<Bnst_num sp - 1]) d0
      in best\<lparr>tm_dpnd := d1, tm_score := 0\<rparr>)"

definition init_dpnd :: "SENTENCE_DATA \<Rightarrow> DPND" where
  "init_dpnd sp =
     \<lparr>d_head = \<lambda>_. -1, d_type = \<lambda>_. CHR ''D'', d_dflt = \<lambda>_. 0, d_mask = \<lambda>_. True,
      d_pos = Bnst_num sp - 1, d_check = \<lambda>_. \<lparr>ck_num = -1, ck_def = 0, ck_pos = []\<rparr>\<rparr>"

text \<open>
  The search with the evaluation of dependencies as its handler; the result is whether a structure
  was found, and the best one.
\<close>

definition search_dpnd_struct ::
  "ENV \<Rightarrow> SENTENCE_DATA \<Rightarrow> MATRICES \<Rightarrow> TOTAL_MGR \<Rightarrow> chk_state \<Rightarrow> (bool \<times> TOTAL_MGR \<times> chk_state) option" where
  "search_dpnd_struct e sp M best st =
     do { (st', b) \<leftarrow> decide_dpnd e sp M (dpnd_evaluation sp) (Bnst_num sp - 1) (init_dpnd sp)
             (st, best\<lparr>tm_score := -10000, tm_ID := -1, Possibility := 0, dpndID := 0\<rparr>);
          Some (Possibility b \<noteq> 0, b, st') }"

end
