(* ===== verification/Knp_Relation.thy ===== *)
theory Knp_Relation
  imports Knp_Scope Knp_Dpnd
begin

text \<open>
  The relations between coordinations, from \<open>src/system/para_relation.c\<close> and the part of
  \<open>src/system/para_revision.c\<close> that repairs a wrong relation. Two scopes that overlap are related by
  the positions of their parts; a bad relation leads to restrictions of one of the scopes, otherwise
  the coordinations are grouped into managers, which form a forest.

  Managers refer to each other by their index in the array of managers. The globals that the analysis
  of coordinations reads and writes are one record.
\<close>

section \<open>Definitions\<close>

subsection \<open>Data\<close>

definition REL_NOT :: int where "REL_NOT = 0"
definition REL_BIT :: int where "REL_BIT = 1"
definition REL_PRE :: int where "REL_PRE = 2"
definition REL_POS :: int where "REL_POS = 3"
definition REL_PAR :: int where "REL_PAR = 4"
definition REL_REV :: int where "REL_REV = 5"
definition REL_IN1 :: int where "REL_IN1 = 6"
definition REL_IN2 :: int where "REL_IN2 = 7"
definition REL_BAD :: int where "REL_BAD = 8"

text \<open>
  The numbers \<^verbatim>\<open>para_num\<close>, \<^verbatim>\<open>part_num\<close> and \<^verbatim>\<open>child_num\<close> of a manager are the lengths of its lists. Parts
  begin and end at bunsetsu.
\<close>

record PARA_MANAGER =
  pm_para_data :: "nat list"
  pm_start :: "nat list"
  pm_end :: "nat list"
  pm_parent :: "nat option"
  pm_child :: "nat list"
  pm_status :: char

record 'f PARA_STATE =
  pa_sp :: SENTENCE_DATA
  para_data :: "'f PARA_DATA list"
  para_manager :: "PARA_MANAGER list"
  para_rel_matrix :: "int matrix"
  Revised_para_num :: int
  pa_scope :: "'f SCOPE"
  pa_matrices :: MATRICES
  D_check_array :: "nat \<Rightarrow> bool"
  D_found_array :: "nat \<Rightarrow> bool"
  pa_chk :: chk_state

abbreviation is_active :: "'f PARA_DATA \<Rightarrow> bool" where
  "is_active p \<equiv> pd_status p \<noteq> CHR ''x''"

abbreviation is_strong :: "'f PARA_DATA \<Rightarrow> bool" where
  "is_strong p \<equiv> pd_status p = CHR ''s''"

subsection \<open>The relation of two scopes\<close>

definition rel_matrix_normal :: "int list list" where
  "rel_matrix_normal =
     [[REL_BIT, REL_POS, REL_BAD, REL_IN2],
      [REL_PRE, REL_PAR, REL_BAD, REL_IN2],
      [REL_REV, REL_REV, REL_BAD, REL_BAD],
      [REL_IN1, REL_IN1, REL_BAD, REL_BAD]]"

definition rel_matrix_strong :: "int list list" where
  "rel_matrix_strong =
     [[REL_BAD, REL_POS, REL_BAD, REL_IN2],
      [REL_PRE, REL_PAR, REL_BAD, REL_IN2],
      [REL_REV, REL_REV, REL_BAD, REL_BAD],
      [REL_IN1, REL_IN1, REL_BAD, REL_BAD]]"

definition rel_pre :: "int \<Rightarrow> int \<Rightarrow> int \<Rightarrow> nat" where
  "rel_pre a1 a2 b1 = (if a2 + 1 < b1 then 0 else if a2 + 1 = b1 then 1 else if a1 < b1 then 2 else 3)"

definition rel_pos :: "int \<Rightarrow> int \<Rightarrow> int \<Rightarrow> nat" where
  "rel_pos a3 b2 b3 = (if a3 < b2 then 0 else if a3 = b2 then 1 else if a3 < b3 then 2 else 3)"

definition scope_relation :: "bool \<Rightarrow> int \<Rightarrow> int \<Rightarrow> int \<Rightarrow> int \<Rightarrow> int \<Rightarrow> int \<Rightarrow> int" where
  "scope_relation strong a1 a2 a3 b1 b2 b3 =
     (if a3 < b1 then REL_NOT
      else (if strong then rel_matrix_strong else rel_matrix_normal) ! rel_pre a1 a2 b1 ! rel_pos a3 b2 b3)"

definition para_location :: "'f PARA_DATA \<Rightarrow> 'f PARA_DATA \<Rightarrow> int" where
  "para_location pre pos =
     scope_relation (is_strong pos)
       (max_path pre 0) (int (key_pos pre)) (int (jend_pos pre))
       (max_path pos 0) (int (key_pos pos)) (int (jend_pos pos))"

definition para_brother_p :: "'f PARA_DATA \<Rightarrow> 'f PARA_DATA \<Rightarrow> bool" where
  "para_brother_p pre pos \<longleftrightarrow>
     (int (jend_pos pre) - int (key_pos pre)) * 3 \<le> (int (key_pos pos) - max_path pos 0 + 1) * 4"

subsection \<open>Revision of a scope\<close>

datatype revise_flag = REVISE_SPRE | REVISE_SPOS | REVISE_PRE | REVISE_POS

definition judge_matrix :: "int list list" where
  "judge_matrix = [[1, 1, 0, 1], [1, 1, 0, 1], [1, 1, 0, 0], [1, 1, 0, 0]]"

definition judge_matrix_pos_str :: "int list list" where
  "judge_matrix_pos_str = [[0, 0, 0, 1], [1, 1, 0, 1], [1, 1, 0, 0], [1, 1, 0, 0]]"

definition judge_matrix_pre_str :: "int list list" where
  "judge_matrix_pre_str = [[0, 1, 0, 1], [0, 1, 0, 1], [0, 0, 0, 0], [1, 1, 0, 0]]"

definition judge_table :: "revise_flag \<Rightarrow> int list list" where
  "judge_table flag =
     (case flag of REVISE_SPRE \<Rightarrow> judge_matrix_pos_str | REVISE_SPOS \<Rightarrow> judge_matrix_pre_str | _ \<Rightarrow> judge_matrix)"

definition judge_value :: "revise_flag \<Rightarrow> int \<Rightarrow> int \<Rightarrow> int \<Rightarrow> int \<Rightarrow> int \<Rightarrow> int \<Rightarrow> int" where
  "judge_value flag a1 a2 a3 b1 b2 b3 =
     (if a3 < b1 then 1 else judge_table flag ! rel_pre a1 a2 b1 ! rel_pos a3 b2 b3)"

definition set_restrict_matrix ::
  "nat \<Rightarrow> int \<Rightarrow> nat \<Rightarrow> int \<Rightarrow> int \<Rightarrow> nat \<Rightarrow> int \<Rightarrow> revise_flag \<Rightarrow> int matrix \<Rightarrow> int matrix" where
  "set_restrict_matrix n a1 a2 a3 b1 b2 b3 flag m =
     (if flag = REVISE_SPRE \<or> flag = REVISE_PRE
      then for_upt 0 (a2 + 1) (\<lambda>i. for_upt (a2 + 1) n
             (\<lambda>j. set_cell i j (judge_value flag (int i) (int a2) (int j) b1 (int b2) b3))) m
      else for_upt 0 (b2 + 1) (\<lambda>i. for_upt (b2 + 1) n
             (\<lambda>j. set_cell i j (judge_value flag a1 (int a2) a3 (int i) (int b2) (int j)))) m)"

text \<open>The coordination to be revised, and how.\<close>

definition revise_choice :: "'f FLOAT \<Rightarrow> 'f PARA_DATA \<Rightarrow> 'f PARA_DATA \<Rightarrow> revise_flag" where
  "revise_choice F p q =
     (if \<not> is_strong p \<and> is_strong q then REVISE_SPRE
      else if is_strong p \<and> \<not> is_strong q then REVISE_SPOS
      else if fl_le F (max_score p) (max_score q) then REVISE_PRE
      else REVISE_POS)"

definition revise_para_rel :: "'f FLOAT \<Rightarrow> nat \<Rightarrow> nat \<Rightarrow> 'f PARA_STATE \<Rightarrow> 'f PARA_STATE" where
  "revise_para_rel F pre pos S =
     (let p = para_data S ! pre; q = para_data S ! pos; flag = revise_choice F p q;
          m = set_restrict_matrix (Bnst_num (pa_sp S))
                (max_path p 0) (key_pos p) (int (jend_pos p))
                (max_path q 0) (key_pos q) (int (jend_pos q)) flag (restrict_matrix (pa_scope S))
      in S\<lparr>pa_scope := (pa_scope S)\<lparr>restrict_matrix := m\<rparr>,
           Revised_para_num := int (if flag = REVISE_SPRE \<or> flag = REVISE_PRE then pre else pos)\<rparr>)"

subsection \<open>Managers\<close>

definition set_manager :: "nat \<Rightarrow> (PARA_MANAGER \<Rightarrow> PARA_MANAGER) \<Rightarrow> PARA_MANAGER list \<Rightarrow> PARA_MANAGER list" where
  "set_manager m f ms = ms[m := f (ms ! m)]"

definition delete_child :: "nat \<Rightarrow> nat \<Rightarrow> PARA_MANAGER list \<Rightarrow> PARA_MANAGER list" where
  "delete_child parent c ms = set_manager parent (\<lambda>p. p\<lparr>pm_child := remove1 c (pm_child p)\<rparr>) ms"

text \<open>
  The scope with number \<open>i\<close> is inside a part of the scope with number \<open>j\<close>: the relation by which the
  code makes the manager of \<open>j\<close> the parent of that of \<open>i\<close>.
\<close>

definition inner_scope :: "int matrix \<Rightarrow> nat \<Rightarrow> nat \<Rightarrow> bool" where
  "inner_scope rel i j \<longleftrightarrow>
     (i < j \<and> (rel i j = REL_BIT \<or> rel i j = REL_PRE \<or> rel i j = REL_REV \<or> rel i j = REL_IN1)) \<or>
     (j < i \<and> (rel j i = REL_POS \<or> rel j i = REL_IN2))"

definition link_child :: "nat \<Rightarrow> nat \<Rightarrow> PARA_MANAGER list \<Rightarrow> bool \<times> PARA_MANAGER list" where
  "link_child p c ms =
     (let ms' = set_manager p (\<lambda>m. m\<lparr>pm_child := pm_child m @ [c]\<rparr>)
                  (set_manager c (\<lambda>m. m\<lparr>pm_parent := Some p\<rparr>) ms)
      in (length (pm_child (ms' ! p)) < PARA_PART_MAX, ms'))"

definition set_parent :: "int matrix \<Rightarrow> nat \<Rightarrow> nat \<Rightarrow> PARA_MANAGER list \<Rightarrow> bool \<times> PARA_MANAGER list" where
  "set_parent rel p c ms =
     (case pm_parent (ms ! c) of
        None \<Rightarrow> link_child p c ms
      | Some old \<Rightarrow>
          if old = p then (True, ms)
          else
            (case find (\<lambda>(i, j). inner_scope rel i j \<or> inner_scope rel j i)
                    (List.product (pm_para_data (ms ! old)) (pm_para_data (ms ! p))) of
               None \<Rightarrow> (True, ms)
             | Some (i, j) \<Rightarrow>
                 if inner_scope rel i j then (True, ms)
                 else link_child p c (delete_child old c ms)))"

text \<open>
  The ranges of a manager are widened to those of its children. The recursion follows the children;
  its depth is bounded by an argument, \<open>None\<close> when it is exceeded.
\<close>

definition revise_ends :: "nat \<Rightarrow> PARA_MANAGER list \<Rightarrow> PARA_MANAGER list" where
  "revise_ends m ms =
     (let c = ms ! hd (pm_child (ms ! m));
          ms1 = (if hd (pm_start c) < hd (pm_start (ms ! m))
                 then set_manager m (\<lambda>x. x\<lparr>pm_start := (pm_start x)[0 := hd (pm_start c)]\<rparr>) ms else ms);
          d = ms1 ! last (pm_child (ms1 ! m));
          k = length (pm_end (ms1 ! m)) - 1
      in if last (pm_end (ms1 ! m)) < last (pm_end d)
         then set_manager m (\<lambda>x. x\<lparr>pm_end := (pm_end x)[k := last (pm_end d)]\<rparr>) ms1 else ms1)"

primrec para_revise_scope :: "nat \<Rightarrow> nat \<Rightarrow> PARA_MANAGER list \<Rightarrow> PARA_MANAGER list option" where
  "para_revise_scope 0 m ms = None"
| "para_revise_scope (Suc n) m ms =
     (if pm_child (ms ! m) = [] then Some ms
      else map_option (revise_ends m) (fold_option (para_revise_scope n) (pm_child (ms ! m)) ms))"

subsection \<open>The analysis of the relations\<close>

text \<open>A loop whose body may return \<^verbatim>\<open>FALSE\<close> from the function.\<close>

fun for_while :: "('a \<Rightarrow> 's \<Rightarrow> (bool \<times> 's) option) \<Rightarrow> 'a list \<Rightarrow> 's \<Rightarrow> (bool \<times> 's) option" where
  "for_while f [] s = Some (True, s)"
| "for_while f (x # xs) s =
     (case f x s of None \<Rightarrow> None | Some (b, t) \<Rightarrow> if b then for_while f xs t else Some (False, t))"

definition active_pairs :: "'f PARA_DATA list \<Rightarrow> (nat \<times> nat) list" where
  "active_pairs ps =
     filter (\<lambda>(i, j). is_active (ps ! i) \<and> is_active (ps ! j))
       (concat (map (\<lambda>i. map (Pair i) [i + 1..<length ps]) [0..<length ps]))"

text \<open>The matrix of relations, up to the first bad one.\<close>

fun locate_loop :: "'f PARA_DATA list \<Rightarrow> (nat \<times> nat) list \<Rightarrow> int matrix \<Rightarrow> (nat \<times> nat) option \<times> int matrix" where
  "locate_loop ps [] rel = (None, rel)"
| "locate_loop ps ((i, j) # xs) rel =
     (let v = para_location (ps ! i) (ps ! j); rel' = set_cell i j v rel in
      if v = REL_BAD then (Some (i, j), rel') else locate_loop ps xs rel')"

definition promote_brothers :: "'f PARA_DATA list \<Rightarrow> int matrix \<Rightarrow> int matrix" where
  "promote_brothers ps rel =
     for_upt 0 (length ps) (\<lambda>i rel. if \<not> is_active (ps ! i) then rel else
       for_upt 0 (length ps) (\<lambda>j rel.
         if is_active (ps ! j) \<and> rel i j = REL_POS \<and> para_brother_p (ps ! i) (ps ! j)
         then set_cell i j REL_PAR rel else rel) rel) rel"

definition revise_between :: "'f PARA_DATA list \<Rightarrow> int matrix \<Rightarrow> int matrix" where
  "revise_between ps rel =
     for_upt 1 (length ps - 1) (\<lambda>i rel. if \<not> is_active (ps ! i) then rel else
       for_upt 0 i (\<lambda>j rel. if \<not> is_active (ps ! j) \<or> rel j i \<noteq> REL_POS then rel else
         for_upt (i + 1) (length ps) (\<lambda>k rel.
           if is_active (ps ! k) \<and> rel i k = REL_PRE then set_cell j k REL_REV rel else rel) rel) rel) rel"

text \<open>
  A new manager. The code leaves the status of the manager as it was; it is set before it is read.
  A path that begins at a negative bunsetsu is an index outside the arrays.
\<close>

definition new_manager :: "nat \<Rightarrow> 'f PARA_DATA \<Rightarrow> PARA_MANAGER option" where
  "new_manager i p =
     (if max_path p 0 < 0 then None
      else Some \<lparr>pm_para_data = [i], pm_start = [nat (max_path p 0), key_pos p + 1], pm_end = [key_pos p, jend_pos p],
             pm_parent = None, pm_child = [], pm_status = CHR ''w''\<rparr>)"

definition add_part :: "nat \<Rightarrow> 'f PARA_DATA \<Rightarrow> PARA_MANAGER \<Rightarrow> PARA_MANAGER" where
  "add_part j p m =
     m\<lparr>pm_para_data := pm_para_data m @ [j], pm_start := pm_start m @ [key_pos p + 1],
       pm_end := pm_end m @ [jend_pos p]\<rparr>"

definition own_manager ::
  "nat \<Rightarrow> 'f PARA_DATA list \<times> PARA_MANAGER list \<Rightarrow> (nat \<times> 'f PARA_DATA list \<times> PARA_MANAGER list) option" where
  "own_manager i s =
     (case s of
        (ps, ms) \<Rightarrow>
          (case manager_ptr (ps ! i) of
             Some m \<Rightarrow> Some (m, ps, ms)
           | None \<Rightarrow> map_option (\<lambda>x. (length ms, ps[i := (ps ! i)\<lparr>manager_ptr := Some (length ms)\<rparr>], ms @ [x]))
                       (new_manager i (ps ! i))))"

text \<open>\<^verbatim>\<open>TRUE\<close> as long as the array of the manager has room.\<close>

definition join_manager ::
  "int matrix \<Rightarrow> nat \<Rightarrow> nat \<Rightarrow> nat \<Rightarrow> 'f PARA_DATA list \<times> PARA_MANAGER list \<Rightarrow>
   (bool \<times> 'f PARA_DATA list \<times> PARA_MANAGER list) option" where
  "join_manager rel i m j s =
     (case s of
        (ps, ms) \<Rightarrow>
          if \<not> is_active (ps ! j) \<or> rel i j \<noteq> REL_PAR then Some (True, ps, ms)
          else
            (let ps' = ps[j := (ps ! j)\<lparr>manager_ptr := Some m\<rparr>] in
             if length (pm_para_data (ms ! m)) + 1 \<ge> PARA_PART_MAX
             then Some (False, ps', set_manager m (\<lambda>x. x\<lparr>pm_para_data := pm_para_data x @ [j]\<rparr>) ms)
             else Some (True, ps', set_manager m (add_part j (ps ! j)) ms)))"

definition group_step ::
  "int matrix \<Rightarrow> nat \<Rightarrow> 'f PARA_DATA list \<times> PARA_MANAGER list \<Rightarrow> (bool \<times> 'f PARA_DATA list \<times> PARA_MANAGER list) option"
where
  "group_step rel i s =
     (if \<not> is_active (fst s ! i) then Some (True, s)
      else do { (m, t) \<leftarrow> own_manager i s; for_while (join_manager rel i m) [i + 1..<length (fst s)] t })"

definition parent_step ::
  "int matrix \<Rightarrow> 'f PARA_DATA list \<Rightarrow> nat \<times> nat \<Rightarrow> PARA_MANAGER list \<Rightarrow> (bool \<times> PARA_MANAGER list) option" where
  "parent_step rel ps ij ms =
     (case ij of
        (i, j) \<Rightarrow>
          if is_active (ps ! i) \<and> is_active (ps ! j) \<and> inner_scope rel i j
          then do { m1 \<leftarrow> manager_ptr (ps ! i); m2 \<leftarrow> manager_ptr (ps ! j); Some (set_parent rel m2 m1 ms) }
          else Some (True, ms))"

definition revise_roots :: "PARA_MANAGER list \<Rightarrow> PARA_MANAGER list option" where
  "revise_roots ms =
     fold_option (\<lambda>m ms. if pm_parent (ms ! m) = None then para_revise_scope (length ms + 1) m ms else Some ms)
       [0..<length ms] ms"

definition mark_status :: "'f PARA_DATA list \<Rightarrow> PARA_MANAGER \<Rightarrow> PARA_MANAGER" where
  "mark_status ps m =
     m\<lparr>pm_status := (if \<forall>k\<in>set (pm_para_data m). is_strong (ps ! k) then CHR ''s'' else CHR ''w'')\<rparr>"

definition manager_features :: "PARA_MANAGER \<Rightarrow> SENTENCE_DATA \<Rightarrow> SENTENCE_DATA" where
  "manager_features m sp =
     fold (\<lambda>k. set_bnst (pm_end m ! k) (\<lambda>b. b\<lparr>n_f :=
         assign_cfeature [] (assign_cfeature [] (n_f b) (s_heiketsu_ku @ decimal (length (pm_start m))) False)
           (s_heiketsu_bunsetsu @ decimal (pm_end m ! 1 + 1 - pm_start m ! 1)) False\<rparr>))
       [0..<length (pm_start m) - 1] sp"

definition init_para_manager :: "'f PARA_DATA list \<Rightarrow> 'f PARA_DATA list" where
  "init_para_manager ps = map (\<lambda>p. p\<lparr>manager_ptr := None\<rparr>) ps"

definition detect_para_relation :: "'f FLOAT \<Rightarrow> 'f PARA_STATE \<Rightarrow> (bool \<times> 'f PARA_STATE) option" where
  "detect_para_relation F S =
     (case locate_loop (para_data S) (active_pairs (para_data S)) (para_rel_matrix S) of
        (Some (i, j), rel) \<Rightarrow> Some (False, revise_para_rel F i j (S\<lparr>para_rel_matrix := rel\<rparr>))
      | (None, rel0) \<Rightarrow>
          (let ps0 = init_para_manager (para_data S);
               rel = revise_between ps0 (promote_brothers ps0 rel0);
               n = length ps0 in
           do { (b1, ps, ms1) \<leftarrow> for_while (group_step rel) [0..<n] (ps0, []);
                let S1 = S\<lparr>para_data := ps, para_manager := ms1, para_rel_matrix := rel\<rparr> in
                if \<not> b1 then Some (False, S1)
                else do {
                  (b2, ms2) \<leftarrow> for_while (parent_step rel ps) (List.product [0..<n] [0..<n]) ms1;
                  if \<not> b2 then Some (False, S1\<lparr>para_manager := ms2\<rparr>)
                  else do {
                    ms3 \<leftarrow> revise_roots ms2;
                    let ms = map (mark_status ps) ms3 in
                    Some (True, S1\<lparr>para_manager := ms, pa_sp := fold manager_features ms (pa_sp S)\<rparr>) } } }))"

section \<open>Revision and relation\<close>

lemmas relation_tables =
  rel_matrix_normal_def rel_matrix_strong_def judge_matrix_def judge_matrix_pos_str_def judge_matrix_pre_str_def
  judge_table_def

lemmas relation_codes =
  REL_NOT_def REL_BIT_def REL_PRE_def REL_POS_def REL_PAR_def REL_REV_def REL_IN1_def REL_IN2_def REL_BAD_def

lemma below_4_cases: "k < 4 \<Longrightarrow> k = 0 \<or> k = 1 \<or> k = 2 \<or> k = (3 :: nat)"
  by auto

lemma rel_pre_less [simp]: "rel_pre a1 a2 b1 < 4" and rel_pos_less [simp]: "rel_pos a3 b2 b3 < 4"
  by (simp_all add: rel_pre_def rel_pos_def)

text \<open>The tables of the revision against those of the relation.\<close>

lemma judge_tables:
  assumes "r < 4" "c < 4"
  shows "judge_matrix ! r ! c \<noteq> 0 \<longleftrightarrow> rel_matrix_normal ! r ! c \<noteq> REL_BAD"
    and "judge_matrix_pos_str ! r ! c \<noteq> 0 \<Longrightarrow> rel_matrix_strong ! r ! c \<noteq> REL_BAD"
    and "judge_matrix_pre_str ! r ! c \<noteq> 0 \<Longrightarrow> rel_matrix_strong ! r ! c \<noteq> REL_BAD"
    and "rel_matrix_normal ! r ! c = REL_BAD \<Longrightarrow> rel_matrix_strong ! r ! c = REL_BAD"
  using below_4_cases [OF assms(1)] below_4_cases [OF assms(2)]
  by (elim disjE; simp add: relation_tables relation_codes)+

lemma judge_value_not_bad:
  "judge_value flag a1 a2 a3 b1 b2 b3 \<noteq> 0 \<Longrightarrow> scope_relation False a1 a2 a3 b1 b2 b3 \<noteq> REL_BAD"
  using judge_tables [of "rel_pre a1 a2 b1" "rel_pos a3 b2 b3"]
  by (cases flag) (auto simp: judge_value_def judge_table_def scope_relation_def REL_NOT_def REL_BAD_def split: if_splits)

lemma judge_value_equal_status:
  "flag = REVISE_PRE \<or> flag = REVISE_POS \<Longrightarrow>
   judge_value flag a1 a2 a3 b1 b2 b3 \<noteq> 0 \<longleftrightarrow> scope_relation False a1 a2 a3 b1 b2 b3 \<noteq> REL_BAD"
  using judge_tables(1) [of "rel_pre a1 a2 b1" "rel_pos a3 b2 b3"]
  by (auto simp: judge_value_def judge_table_def scope_relation_def REL_NOT_def REL_BAD_def)

lemma judge_value_one_strong:
  "flag = REVISE_SPRE \<or> flag = REVISE_SPOS \<Longrightarrow> judge_value flag a1 a2 a3 b1 b2 b3 \<noteq> 0 \<Longrightarrow>
   scope_relation True a1 a2 a3 b1 b2 b3 \<noteq> REL_BAD"
  using judge_tables(2,3) [of "rel_pre a1 a2 b1" "rel_pos a3 b2 b3"]
  by (auto simp: judge_value_def judge_table_def scope_relation_def REL_NOT_def REL_BAD_def split: if_splits)

text \<open>What the loops write.\<close>

lemma for_upt_cells:
  "for_upt a b (\<lambda>i. for_upt c d (\<lambda>j. set_cell i j (v i j))) m x y =
   (if a \<le> x \<and> x < b \<and> c \<le> y \<and> y < d then v x y else m x y)"
proof -
  have row: "for_upt c d (\<lambda>j. set_cell i j (v i j)) m x y = (if x = i \<and> c \<le> y \<and> y < d then v i y else m x y)" for i m
  proof (cases "c \<le> d")
    case True
    then show ?thesis
      by (induction d rule: dec_induct) (auto simp: for_upt_Suc set_cell_apply less_Suc_eq)
  qed auto
  show ?thesis
  proof (cases "a \<le> b")
    case True
    then show ?thesis
      by (induction b rule: dec_induct) (auto simp: for_upt_Suc row less_Suc_eq)
  qed auto
qed

lemma set_restrict_matrix_pre:
  "flag = REVISE_SPRE \<or> flag = REVISE_PRE \<Longrightarrow> i \<le> a2 \<Longrightarrow> a2 < j \<Longrightarrow> j < n \<Longrightarrow>
   set_restrict_matrix n a1 a2 a3 b1 b2 b3 flag m i j = judge_value flag (int i) (int a2) (int j) b1 (int b2) b3"
  by (auto simp: set_restrict_matrix_def for_upt_cells)

lemma set_restrict_matrix_pos:
  "flag = REVISE_SPOS \<or> flag = REVISE_POS \<Longrightarrow> i \<le> b2 \<Longrightarrow> b2 < j \<Longrightarrow> j < n \<Longrightarrow>
   set_restrict_matrix n a1 a2 a3 b1 b2 b3 flag m i j = judge_value flag a1 (int a2) a3 (int i) (int b2) (int j)"
  by (auto simp: set_restrict_matrix_def for_upt_cells)

text \<open>A coordination with another scope.\<close>

definition with_scope :: "nat \<Rightarrow> nat \<Rightarrow> 'f PARA_DATA \<Rightarrow> 'f PARA_DATA" where
  "with_scope i j p = p\<lparr>max_path := (max_path p)(0 := int i), jend_pos := j\<rparr>"

lemma para_location_with_scope:
  "para_location (with_scope i j p) q =
     scope_relation (is_strong q) (int i) (int (key_pos p)) (int j) (max_path q 0) (int (key_pos q)) (int (jend_pos q))"
  "para_location p (with_scope i j q) =
     scope_relation (is_strong q) (max_path p 0) (int (key_pos p)) (int (jend_pos p)) (int i) (int (key_pos q)) (int j)"
  by (simp_all add: para_location_def with_scope_def)

lemma revise_para_rel_pre:
  assumes "revise_choice F (para_data S ! pre) (para_data S ! pos) = flag" "flag = REVISE_SPRE \<or> flag = REVISE_PRE"
    and "i \<le> key_pos (para_data S ! pre)" "key_pos (para_data S ! pre) < j" "j < Bnst_num (pa_sp S)"
  shows "restrict_matrix (pa_scope (revise_para_rel F pre pos S)) i j =
    judge_value flag (int i) (int (key_pos (para_data S ! pre))) (int j) (max_path (para_data S ! pos) 0)
      (int (key_pos (para_data S ! pos))) (int (jend_pos (para_data S ! pos)))"
    and "Revised_para_num (revise_para_rel F pre pos S) = int pre"
  using assms by (auto simp: revise_para_rel_def Let_def set_restrict_matrix_pre)

lemma revise_para_rel_pos:
  assumes "revise_choice F (para_data S ! pre) (para_data S ! pos) = flag" "flag = REVISE_SPOS \<or> flag = REVISE_POS"
    and "i \<le> key_pos (para_data S ! pos)" "key_pos (para_data S ! pos) < j" "j < Bnst_num (pa_sp S)"
  shows "restrict_matrix (pa_scope (revise_para_rel F pre pos S)) i j =
    judge_value flag (max_path (para_data S ! pre) 0) (int (key_pos (para_data S ! pre)))
      (int (jend_pos (para_data S ! pre))) (int i) (int (key_pos (para_data S ! pos))) (int j)"
    and "Revised_para_num (revise_para_rel F pre pos S) = int pos"
  using assms by (auto simp: revise_para_rel_def Let_def set_restrict_matrix_pos)

lemma revise_choice_cases:
  obtains (spre) "revise_choice F p q = REVISE_SPRE" "\<not> is_strong p" "is_strong q"
    | (spos) "revise_choice F p q = REVISE_SPOS" "is_strong p" "\<not> is_strong q"
    | (pre) "revise_choice F p q = REVISE_PRE" "is_strong p = is_strong q" "fl_le F (max_score p) (max_score q)"
    | (pos) "revise_choice F p q = REVISE_POS" "is_strong p = is_strong q" "\<not> fl_le F (max_score p) (max_score q)"
  unfolding revise_choice_def by (auto split: if_splits)

text \<open>A value that the tables allow is not a bad relation, unless both coordinations are strong.\<close>

lemma judge_value_ok:
  assumes "judge_value (revise_choice F p q) a1 a2 a3 b1 b2 b3 \<noteq> 0" and "\<not> (is_strong p \<and> is_strong q)"
  shows "scope_relation (is_strong q) a1 a2 a3 b1 b2 b3 \<noteq> REL_BAD"
proof (cases "is_strong q")
  case True
  then have "revise_choice F p q = REVISE_SPRE" using assms(2) by (simp add: revise_choice_def)
  then show ?thesis using judge_value_one_strong [of "revise_choice F p q"] assms(1) True by simp
next
  case False
  then show ?thesis using judge_value_not_bad [OF assms(1)] by simp
qed

lemma revised_number:
  "Revised_para_num (revise_para_rel F pre pos S) =
     (if revise_choice F (para_data S ! pre) (para_data S ! pos) \<in> {REVISE_SPRE, REVISE_PRE} then int pre else int pos)"
  by (simp add: revise_para_rel_def Let_def)

section \<open>Properties of the revision\<close>

text \<open>
  C21. Unless both coordinations are strong, the revision of a bad pair allows no scope of the revised
  coordination that is in a bad relation with the other one.
\<close>

theorem revise_para_rel_excludes_bad:
  assumes "pre \<noteq> pos" and "p = para_data S ! pre" and "q = para_data S ! pos" and "\<not> (is_strong p \<and> is_strong q)"
    and "j < Bnst_num (pa_sp S)" and "restrict_matrix (pa_scope (revise_para_rel F pre pos S)) i j \<noteq> 0"
  shows "(if Revised_para_num (revise_para_rel F pre pos S) = int pre
          then i \<le> key_pos p \<and> key_pos p < j \<longrightarrow> para_location (with_scope i j p) q \<noteq> REL_BAD
          else i \<le> key_pos q \<and> key_pos q < j \<longrightarrow> para_location p (with_scope i j q) \<noteq> REL_BAD)"
proof (cases "revise_choice F p q \<in> {REVISE_SPRE, REVISE_PRE}")
  case True
  then show ?thesis
    using assms judge_value_ok [OF _ assms(4), of F] revise_para_rel_pre(1) [of F S pre pos "revise_choice F p q" i j]
    by (auto simp: para_location_with_scope revised_number)
next
  case False
  then have "revise_choice F p q = REVISE_SPOS \<or> revise_choice F p q = REVISE_POS"
    by (cases "revise_choice F p q") auto
  then show ?thesis
    using assms False judge_value_ok [OF _ assms(4), of F] revise_para_rel_pos(1) [of F S pre pos "revise_choice F p q" i j]
    by (auto simp: para_location_with_scope revised_number)
qed

text \<open>
  When the end of a strong coordination overlaps the beginning of a later strong one, the relation is
  bad, but the revision still allows the scope that the revised coordination has: the next search
  may find the same one again.
\<close>

theorem strong_pair_not_revised:
  assumes "is_strong (para_data S ! pre)" and "is_strong (para_data S ! pos)" and "pre \<noteq> pos"
    and "max_path (para_data S ! pre) 0 = int a1" and "a1 \<le> key_pos (para_data S ! pre)"
    and "max_path (para_data S ! pos) 0 = int b1" and "b1 \<le> key_pos (para_data S ! pos)"
    and "key_pos (para_data S ! pre) + 1 < b1" and "b1 \<le> jend_pos (para_data S ! pre)"
    and "jend_pos (para_data S ! pre) < key_pos (para_data S ! pos)"
    and "key_pos (para_data S ! pos) < jend_pos (para_data S ! pos)" and "jend_pos (para_data S ! pos) < Bnst_num (pa_sp S)"
  shows "para_location (para_data S ! pre) (para_data S ! pos) = REL_BAD \<and>
    (if Revised_para_num (revise_para_rel F pre pos S) = int pre
     then restrict_matrix (pa_scope (revise_para_rel F pre pos S)) a1 (jend_pos (para_data S ! pre)) = 1
     else restrict_matrix (pa_scope (revise_para_rel F pre pos S)) b1 (jend_pos (para_data S ! pos)) = 1)"
proof -
  let ?p = "para_data S ! pre" and ?q = "para_data S ! pos"
  have pos: "rel_pre (int a1) (int (key_pos ?p)) (int b1) = 0" "rel_pos (int (jend_pos ?p)) (int (key_pos ?q)) (int (jend_pos ?q)) = 0"
    using assms by (simp_all add: rel_pre_def rel_pos_def)
  have "para_location ?p ?q = REL_BAD"
    using assms pos by (simp add: para_location_def scope_relation_def rel_matrix_strong_def)
  moreover have "judge_value flag (int a1) (int (key_pos ?p)) (int (jend_pos ?p)) (int b1) (int (key_pos ?q)) (int (jend_pos ?q)) = 1"
    if "flag = REVISE_PRE \<or> flag = REVISE_POS" for flag
    using that assms pos by (auto simp: judge_value_def judge_table_def judge_matrix_def)
  moreover have "revise_choice F ?p ?q = REVISE_PRE \<or> revise_choice F ?p ?q = REVISE_POS"
    using assms(1,2) by (simp add: revise_choice_def)
  ultimately show ?thesis
    using assms revise_para_rel_pre(1) [of F S pre pos REVISE_PRE a1 "jend_pos ?p"]
      revise_para_rel_pos(1) [of F S pre pos REVISE_POS b1 "jend_pos ?q"]
    by (elim disjE) (simp_all add: revised_number)
qed

section \<open>Managers\<close>

text \<open>The parts of a manager: one more than its coordinations, each beginning where the last one ended.\<close>

definition parts_chain :: "PARA_MANAGER \<Rightarrow> bool" where
  "parts_chain m \<longleftrightarrow>
     pm_para_data m \<noteq> [] \<and> length (pm_start m) = Suc (length (pm_para_data m)) \<and>
     length (pm_end m) = Suc (length (pm_para_data m)) \<and>
     (\<forall>k < length (pm_para_data m). pm_start m ! Suc k = Suc (pm_end m ! k))"

text \<open>The links between managers agree in both directions.\<close>

definition linked :: "PARA_MANAGER list \<Rightarrow> bool" where
  "linked ms \<longleftrightarrow>
     (\<forall>c < length ms. \<forall>p. pm_parent (ms ! c) = Some p \<longrightarrow> p < length ms \<and> c \<in> set (pm_child (ms ! p))) \<and>
     (\<forall>p < length ms. distinct (pm_child (ms ! p)) \<and>
        (\<forall>c \<in> set (pm_child (ms ! p)). c < length ms \<and> pm_parent (ms ! c) = Some p))"

definition unmanaged :: "'f PARA_DATA \<Rightarrow> 'f PARA_DATA" where
  "unmanaged p = p\<lparr>manager_ptr := None\<rparr>"

lemma unmanaged_sel [simp]:
  "key_pos (unmanaged p) = key_pos p" "jend_pos (unmanaged p) = jend_pos p" "max_path (unmanaged p) = max_path p"
  "pd_status (unmanaged p) = pd_status p" "manager_ptr (unmanaged p) = None"
  by (simp_all add: unmanaged_def)

text \<open>
  The state of the grouping before the coordination \<open>i\<close> is handled: \<open>ps0\<close> are the coordinations without
  managers.
\<close>

definition group_inv :: "'f PARA_DATA list \<Rightarrow> nat \<Rightarrow> 'f PARA_DATA list \<times> PARA_MANAGER list \<Rightarrow> bool" where
  "group_inv ps0 i s =
     (case s of
        (ps, ms) \<Rightarrow>
          map unmanaged ps = ps0 \<and>
          (\<forall>m < length ms. parts_chain (ms ! m) \<and> pm_parent (ms ! m) = None \<and> pm_child (ms ! m) = [] \<and>
             last (pm_end (ms ! m)) = jend_pos (ps0 ! last (pm_para_data (ms ! m)))) \<and>
          (\<forall>k < length ps. \<forall>m. manager_ptr (ps ! k) = Some m \<longrightarrow>
             m < length ms \<and> k \<in> set (pm_para_data (ms ! m)) \<and> (i \<le> k \<longrightarrow> last (pm_para_data (ms ! m)) = k)) \<and>
          (\<forall>k < i. k < length ps \<and> is_active (ps ! k) \<longrightarrow> manager_ptr (ps ! k) \<noteq> None))"

lemma map_unmanaged_nth:
  assumes "map unmanaged ps = ps0" and "k < length ps"
  shows "key_pos (ps0 ! k) = key_pos (ps ! k)" "jend_pos (ps0 ! k) = jend_pos (ps ! k)"
    "max_path (ps0 ! k) = max_path (ps ! k)" "pd_status (ps0 ! k) = pd_status (ps ! k)"
  using assms by (auto simp flip: assms(1))

lemma map_unmanaged_update:
  "map unmanaged ps = ps0 \<Longrightarrow> map unmanaged (ps[k := (ps ! k)\<lparr>manager_ptr := v\<rparr>]) = ps0"
  by (cases "k < length ps") (auto simp: map_update unmanaged_def intro!: nth_equalityI simp: nth_list_update)

lemma parts_chain_new: "new_manager i p = Some m \<Longrightarrow> parts_chain m"
  by (auto simp: new_manager_def parts_chain_def split: if_splits)

lemma parts_chain_add:
  "parts_chain m \<Longrightarrow> last (pm_end m) = key_pos p \<Longrightarrow> parts_chain (add_part j p m)"
proof -
  assume m: "parts_chain m" "last (pm_end m) = key_pos p"
  then have "pm_end m \<noteq> []" by (auto simp: parts_chain_def)
  then have "pm_end m ! length (pm_para_data m) = key_pos p"
    using m by (simp add: parts_chain_def last_conv_nth)
  then show ?thesis using m(1) by (auto simp: parts_chain_def add_part_def nth_append less_Suc_eq)
qed

lemma own_manager_inv:
  assumes "group_inv ps0 i (ps, ms)" and "i < length ps" and "own_manager i (ps, ms) = Some (m, ps', ms')"
  shows "group_inv ps0 i (ps', ms') \<and> m < length ms' \<and> last (pm_para_data (ms' ! m)) = i \<and> manager_ptr (ps' ! i) = Some m \<and>
    length ps' = length ps"
proof (cases "manager_ptr (ps ! i)")
  case (Some m')
  then show ?thesis using assms by (auto simp: own_manager_def group_inv_def)
next
  case None
  then obtain x where x: "new_manager i (ps ! i) = Some x" and r: "m = length ms" "ms' = ms @ [x]"
      "ps' = ps[i := (ps ! i)\<lparr>manager_ptr := Some (length ms)\<rparr>]"
    using assms(3) by (auto simp: own_manager_def)
  have data: "pm_para_data x = [i]" "last (pm_end x) = jend_pos (ps ! i)" "pm_parent x = None" "pm_child x = []"
    using x by (auto simp: new_manager_def split: if_splits)
  show ?thesis
    using assms(1,2) x parts_chain_new [OF x] data
    unfolding r group_inv_def
    by (auto simp: map_unmanaged_update map_unmanaged_nth nth_append nth_list_update less_Suc_eq)
qed

lemma join_manager_inv:
  assumes inv: "group_inv ps0 i (ps, ms)" and m: "m < length ms" "last (pm_para_data (ms ! m)) = i" "manager_ptr (ps ! i) = Some m"
    and j: "i < j" "j < length ps" "rel i j = REL_PAR" "is_active (ps ! j)" "key_pos (ps ! j) = jend_pos (ps ! i)"
    and r: "join_manager rel i m j (ps, ms) = Some (True, t)"
  shows "group_inv ps0 (Suc i) t"
proof -
  have t: "t = (ps[j := (ps ! j)\<lparr>manager_ptr := Some m\<rparr>], set_manager m (add_part j (ps ! j)) ms)"
    using r j by (auto simp: join_manager_def Let_def split: if_splits)
  have "parts_chain (ms ! m)" "last (pm_end (ms ! m)) = jend_pos (ps0 ! i)" "map unmanaged ps = ps0"
    using inv m by (simp_all add: group_inv_def)
  then have "parts_chain (ms ! m)" "last (pm_end (ms ! m)) = key_pos (ps ! j)"
    using j by (simp_all add: map_unmanaged_nth)
  note chain = parts_chain_add [OF this]
  let ?ms = "ms[m := add_part j (ps ! j) (ms ! m)]" and ?ps = "ps[j := (ps ! j)\<lparr>manager_ptr := Some m\<rparr>]"
  from inv have map: "map unmanaged ps = ps0"
    and ok: "\<And>x. x < length ms \<Longrightarrow> parts_chain (ms ! x) \<and> pm_parent (ms ! x) = None \<and> pm_child (ms ! x) = [] \<and>
             last (pm_end (ms ! x)) = jend_pos (ps0 ! last (pm_para_data (ms ! x)))"
    and ptr: "\<And>k x. k < length ps \<Longrightarrow> manager_ptr (ps ! k) = Some x \<Longrightarrow>
             x < length ms \<and> k \<in> set (pm_para_data (ms ! x)) \<and> (i \<le> k \<longrightarrow> last (pm_para_data (ms ! x)) = k)"
    and handled: "\<And>k. k < i \<Longrightarrow> k < length ps \<Longrightarrow> is_active (ps ! k) \<Longrightarrow> manager_ptr (ps ! k) \<noteq> None"
    unfolding group_inv_def by auto
  have other: "manager_ptr (ps ! k) \<noteq> Some m" if "k < length ps" "i < k" for k
    using ptr [OF that(1), of m] that(2) m(2) by auto
  have parts: "parts_chain (?ms ! x) \<and> pm_parent (?ms ! x) = None \<and> pm_child (?ms ! x) = [] \<and>
             last (pm_end (?ms ! x)) = jend_pos (ps0 ! last (pm_para_data (?ms ! x)))" if "x < length ms" for x
    using ok [OF that] that chain j(2) map_unmanaged_nth(2) [OF map j(2)] by (cases "x = m") (simp_all add: add_part_def)
  have ptrs: "x < length ms \<and> k \<in> set (pm_para_data (?ms ! x)) \<and> (Suc i \<le> k \<longrightarrow> last (pm_para_data (?ms ! x)) = k)"
    if k: "k < length ps" "manager_ptr (?ps ! k) = Some x" for k x
  proof (cases "k = j")
    case True
    then show ?thesis using k m(1) j(2) by (simp add: add_part_def)
  next
    case False
    then have p: "manager_ptr (ps ! k) = Some x" using k by simp
    have "x \<noteq> m" if "Suc i \<le> k" using other [OF k(1)] that p by auto
    then show ?thesis using ptr [OF k(1) p] by (cases "x = m") (auto simp: add_part_def)
  qed
  have act: "manager_ptr (?ps ! k) \<noteq> None" if "k < Suc i" "k < length ps" "is_active (?ps ! k)" for k
    using handled [of k] that m(3) j by (cases "k = i") (auto simp: nth_list_update split: if_splits)
  show ?thesis
    unfolding t group_inv_def set_manager_def using map_unmanaged_update [OF map] parts ptrs act by simp
qed

text \<open>A loop in which at most one step does something.\<close>

lemma for_while_identity:
  "(\<And>x. x \<in> set xs \<Longrightarrow> f x s = Some (True, s)) \<Longrightarrow> for_while f xs s = Some (True, s)"
  by (induction xs) auto

lemma for_while_single:
  assumes "distinct xs" and "x0 \<in> set xs" and "P s"
    and "\<And>x s. x \<in> set xs \<Longrightarrow> x \<noteq> x0 \<Longrightarrow> P s \<Longrightarrow> f x s = Some (True, s)"
    and "\<And>b t. f x0 s = Some (b, t) \<Longrightarrow> P t"
  shows "for_while f xs s = f x0 s"
  using assms
proof (induction xs)
  case (Cons x xs)
  show ?case
  proof (cases "x = x0")
    case True
    then have "for_while f xs t = Some (True, t)" if "P t" for t
      using Cons.prems that by (intro for_while_identity) auto
    then show ?thesis using True Cons.prems(5) by (auto split: option.splits)
  next
    case False
    then have "f x s = Some (True, s)" using Cons.prems by simp
    then show ?thesis using Cons False by simp
  qed
qed simp

lemma for_while_invariant:
  assumes "for_while f xs s = Some (True, t)" and "P s"
    and "\<And>x s t. x \<in> set xs \<Longrightarrow> P s \<Longrightarrow> f x s = Some (True, t) \<Longrightarrow> P t"
  shows "P t"
  using assms
proof (induction xs arbitrary: s)
  case (Cons x xs)
  then obtain u where u: "f x s = Some (True, u)" "for_while f xs u = Some (True, t)"
    by (auto split: option.splits if_splits)
  have "P u" using Cons.prems(2,3) u(1) by (metis list.set_intros(1))
  then show ?case using Cons.IH [OF u(2)] Cons.prems(3) by (metis list.set_intros(2))
qed simp

lemma for_while_upt_invariant:
  assumes "for_while f [0..<n] s = Some (True, t)" and "P 0 s"
    and "\<And>i s t. i < n \<Longrightarrow> P i s \<Longrightarrow> f i s = Some (True, t) \<Longrightarrow> P (Suc i) t"
  shows "P n t"
proof -
  have "for_while f [k..<n] s = Some (True, t) \<Longrightarrow> k \<le> n \<Longrightarrow> P k s \<Longrightarrow> P n t" for k s
  proof (induction "n - k" arbitrary: k s)
    case (Suc d)
    then have "k < n" by simp
    then obtain u where "f k s = Some (True, u)" "for_while f [Suc k..<n] u = Some (True, t)"
      using Suc.prems(1) by (auto simp: upt_conv_Cons split: option.splits if_splits)
    then show ?case using Suc.hyps(1) [of "Suc k" u] Suc.hyps(2) Suc.prems(3) assms(3) [OF \<open>k < n\<close>] \<open>k < n\<close> by auto
  qed simp
  then show ?thesis using assms(1,2) by blast
qed

lemma group_inv_later: "group_inv ps0 i s \<Longrightarrow> \<not> is_active (fst s ! i) \<or> manager_ptr (fst s ! i) \<noteq> None \<Longrightarrow> group_inv ps0 (Suc i) s"
  unfolding group_inv_def by (auto simp: less_Suc_eq split: prod.splits)

text \<open>A coordination has at most one brother to its right: its last part holds the key of the brother.\<close>

definition one_brother :: "'f PARA_DATA list \<Rightarrow> int matrix \<Rightarrow> bool" where
  "one_brother ps0 rel \<longleftrightarrow>
     (\<forall>i j. i < j \<and> j < length ps0 \<and> is_active (ps0 ! i) \<and> is_active (ps0 ! j) \<and> rel i j = REL_PAR \<longrightarrow>
        key_pos (ps0 ! j) = jend_pos (ps0 ! i))"

lemma group_step_inv:
  assumes inv: "group_inv ps0 i s" and i: "i < length ps0"
    and bro: "one_brother ps0 rel" and keys: "distinct (map key_pos ps0)"
    and r: "group_step rel i s = Some (True, t)"
  shows "group_inv ps0 (Suc i) t"
proof (cases "is_active (fst s ! i)")
  case False
  then show ?thesis using r group_inv_later [OF inv] by (simp add: group_step_def)
next
  case True
  obtain ps ms where s: "s = (ps, ms)" by (cases s)
  have map: "map unmanaged ps = ps0" using inv by (simp add: s group_inv_def)
  then have len: "length ps = length ps0" by auto
  obtain m ps' ms' where own: "own_manager i (ps, ms) = Some (m, ps', ms')"
    and loop: "for_while (join_manager rel i m) [i + 1..<length ps] (ps', ms') = Some (True, t)"
    using r True by (auto simp: group_step_def s bind_eq_Some_conv)
  note o = own_manager_inv [OF inv [unfolded s] _ own]
  have g: "group_inv ps0 i (ps', ms')" "m < length ms'" "last (pm_para_data (ms' ! m)) = i"
    "manager_ptr (ps' ! i) = Some m" "length ps' = length ps"
    using o i len by auto
  have map': "map unmanaged ps' = ps0" using g(1) by (simp add: group_inv_def)
  define P where "P = (\<lambda>u :: 'a PARA_DATA list \<times> PARA_MANAGER list. map unmanaged (fst u) = ps0)"
  let ?js = "[i + 1..<length ps]"
  have active: "is_active (fst u ! k) = is_active (ps0 ! k)" if "P u" "k < length ps0" for u k
  proof -
    have "length (fst u) = length ps0" using that(1) by (auto simp: P_def)
    then show ?thesis using that map_unmanaged_nth(4) [of "fst u" ps0 k] by (simp add: P_def)
  qed
  have idle: "join_manager rel i m k u = Some (True, u)"
    if "P u" "k \<in> set ?js" "\<not> (is_active (ps0 ! k) \<and> rel i k = REL_PAR)" for u k
    using active [OF that(1), of k] that len by (cases u) (auto simp: join_manager_def)
  show ?thesis
  proof (cases "\<exists>j \<in> set ?js. is_active (ps0 ! j) \<and> rel i j = REL_PAR")
    case False
    then have "t = (ps', ms')"
      using loop for_while_identity [of ?js "join_manager rel i m" "(ps', ms')"] idle map' by (fastforce simp: P_def)
    then show ?thesis using group_inv_later [OF g(1)] g(4) by simp
  next
    case ex: True
    then obtain j where j: "i < j" "j < length ps" "is_active (ps0 ! j)" "rel i j = REL_PAR"
      by (auto simp: Suc_le_eq)
    have ai: "is_active (ps0 ! i)" using True active [of s i] map i by (simp add: P_def s)
    have uniq: "k = j" if "k \<in> set ?js" "is_active (ps0 ! k)" "rel i k = REL_PAR" for k
    proof -
      have "key_pos (ps0 ! k) = key_pos (ps0 ! j)"
        using bro that j ai len unfolding one_brother_def by simp
      then show ?thesis using keys that(1) j len by (simp add: distinct_conv_nth) metis
    qed
    have "for_while (join_manager rel i m) ?js (ps', ms') = join_manager rel i m j (ps', ms')"
    proof (rule for_while_single [where P = P])
      show "P (ps', ms')" using map' by (simp add: P_def)
      show "join_manager rel i m k u = Some (True, u)" if "k \<in> set ?js" "k \<noteq> j" "P u" for k u
        using idle [OF that(3,1)] uniq [OF that(1)] that(2) by blast
      show "P u" if "join_manager rel i m j (ps', ms') = Some (b, u)" for b u
        using that map_unmanaged_update [OF map'] map'
        by (auto simp: join_manager_def P_def Let_def split: if_splits)
    qed (use j in auto)
    then have "join_manager rel i m j (ps', ms') = Some (True, t)" using loop by simp
    then show ?thesis
      using join_manager_inv [OF g(1-4) j(1)] j bro ai len g(5) map' i
      by (simp add: one_brother_def map_unmanaged_nth [OF map', symmetric])
  qed
qed

text \<open>The matrix when no pair is bad, and after the two changes.\<close>

lemma locate_loop_None:
  "locate_loop ps xs rel = (None, rel') \<Longrightarrow> distinct xs \<Longrightarrow>
   (\<forall>(i, j) \<in> set xs. rel' i j = para_location (ps ! i) (ps ! j) \<and> rel' i j \<noteq> REL_BAD) \<and>
   (\<forall>i j. (i, j) \<notin> set xs \<longrightarrow> rel' i j = rel i j)"
proof (induction xs arbitrary: rel)
  case (Cons x xs)
  obtain i j where x: "x = (i, j)" by (cases x)
  let ?rel = "set_cell i j (para_location (ps ! i) (ps ! j)) rel"
  have r: "locate_loop ps xs ?rel = (None, rel')" and v: "para_location (ps ! i) (ps ! j) \<noteq> REL_BAD"
    using Cons.prems(1) by (auto simp: x Let_def split: if_splits)
  have "rel' i j = para_location (ps ! i) (ps ! j)"
    using Cons.IH [OF r] Cons.prems(2) by (simp add: x set_cell_apply)
  then show ?case using Cons.IH [OF r] Cons.prems(2) v by (auto simp: x set_cell_apply)
qed simp

lemma active_pairs_iff:
  "(i, j) \<in> set (active_pairs ps) \<longleftrightarrow> i < j \<and> j < length ps \<and> is_active (ps ! i) \<and> is_active (ps ! j)"
  by (auto simp: active_pairs_def image_iff)

lemma distinct_active_pairs: "distinct (active_pairs ps)"
proof -
  have "distinct (concat (map (\<lambda>i. map (Pair i) [i + 1..<length ps]) [0..<n]))" for n
    by (induction n) (auto simp: distinct_map inj_on_def)
  then show ?thesis by (simp add: active_pairs_def)
qed

lemma promote_brothers_cell:
  "promote_brothers ps rel i j = rel i j \<or> promote_brothers ps rel i j = REL_PAR \<and> rel i j = REL_POS"
proof -
  define P where "P = (\<lambda>r :: int matrix. r i j = rel i j \<or> r i j = REL_PAR \<and> rel i j = REL_POS)"
  have cell: "P (if is_active (ps ! y) \<and> r x y = REL_POS \<and> para_brother_p (ps ! x) (ps ! y)
        then set_cell x y REL_PAR r else r)" if "P r" for x y r
    using that by (auto simp: P_def set_cell_apply relation_codes)
  have row: "P (if \<not> is_active (ps ! x) then r else for_upt 0 (length ps) (\<lambda>j r. if is_active (ps ! j) \<and> r x j = REL_POS \<and>
        para_brother_p (ps ! x) (ps ! j) then set_cell x j REL_PAR r else r) r)" if "P r" for x r
    using that for_upt_keeps [where P = P, OF that] cell by simp
  have "P (promote_brothers ps rel)"
    unfolding promote_brothers_def by (rule for_upt_keeps [where P = P]) (simp add: P_def, rule row)
  then show ?thesis by (simp add: P_def)
qed

lemma revise_between_cell: "revise_between ps rel i j = rel i j \<or> revise_between ps rel i j = REL_REV"
proof -
  define P where "P = (\<lambda>r :: int matrix. r i j = rel i j \<or> r i j = REL_REV)"
  have cell: "P (if is_active (ps ! k) \<and> r x k = REL_PRE then set_cell y k REL_REV r else r)" if "P r" for x y k r
    using that by (auto simp: P_def set_cell_apply)
  have col: "P (if \<not> is_active (ps ! y) \<or> r y x \<noteq> REL_POS then r else for_upt (x + 1) (length ps)
      (\<lambda>k r. if is_active (ps ! k) \<and> r x k = REL_PRE then set_cell y k REL_REV r else r) r)" if "P r" for x y r
    using that for_upt_keeps [where P = P, OF that] cell by simp
  have row: "P (if \<not> is_active (ps ! x) then r else for_upt 0 x (\<lambda>y r. if \<not> is_active (ps ! y) \<or> r y x \<noteq> REL_POS then r
      else for_upt (x + 1) (length ps) (\<lambda>k r. if is_active (ps ! k) \<and> r x k = REL_PRE then set_cell y k REL_REV r else r) r) r)"
    if "P r" for x r
    using that for_upt_keeps [where P = P, OF that] col by simp
  have "P (revise_between ps rel)"
    unfolding revise_between_def by (rule for_upt_keeps [where P = P]) (simp add: P_def, rule row)
  then show ?thesis by (simp add: P_def)
qed

lemma par_or_pos_key:
  assumes "para_location p q = REL_PAR \<or> para_location p q = REL_POS"
  shows "key_pos q = jend_pos p"
proof -
  let ?r = "rel_pre (max_path p 0) (int (key_pos p)) (max_path q 0)"
    and ?c = "rel_pos (int (jend_pos p)) (int (key_pos q)) (int (jend_pos q))"
  have table: "r < 4 \<Longrightarrow> c < 4 \<Longrightarrow> (if b then rel_matrix_strong else rel_matrix_normal) ! r ! c \<in> {REL_PAR, REL_POS} \<Longrightarrow> c = 1"
    for r c b
    by (drule below_4_cases, drule below_4_cases, elim disjE; cases b; simp add: relation_tables relation_codes)
  have "(if is_strong q then rel_matrix_strong else rel_matrix_normal) ! ?r ! ?c \<in> {REL_PAR, REL_POS}"
    using assms by (auto simp: para_location_def scope_relation_def relation_codes split: if_splits)
  from table [OF rel_pre_less rel_pos_less this] show ?thesis
    by (simp add: rel_pos_def split: if_splits)
qed

lemma one_brother_final:
  assumes "locate_loop ps (active_pairs ps) rel0 = (None, rel1)"
  shows "one_brother (init_para_manager ps) (revise_between qs (promote_brothers qs rel1))"
  unfolding one_brother_def
proof (intro allI impI)
  fix i j
  let ?ps = "init_para_manager ps"
  assume *: "i < j \<and> j < length ?ps \<and> is_active (?ps ! i) \<and> is_active (?ps ! j) \<and>
    revise_between qs (promote_brothers qs rel1) i j = REL_PAR"
  then have ij: "(i, j) \<in> set (active_pairs ps)" and n: "i < length ps" "j < length ps"
    by (auto simp: init_para_manager_def active_pairs_iff)
  have "promote_brothers qs rel1 i j = REL_PAR"
    using * revise_between_cell [of qs "promote_brothers qs rel1" i j] by (auto simp: relation_codes)
  then have "rel1 i j = REL_PAR \<or> rel1 i j = REL_POS"
    using promote_brothers_cell [of qs rel1 i j] by auto
  then have "para_location (ps ! i) (ps ! j) = REL_PAR \<or> para_location (ps ! i) (ps ! j) = REL_POS"
    using locate_loop_None [OF assms distinct_active_pairs] ij by auto
  from par_or_pos_key [OF this] show "key_pos (?ps ! j) = jend_pos (?ps ! i)"
    using n by (simp add: init_para_manager_def)
qed

text \<open>The links.\<close>

lemma linkedD:
  assumes "linked ms"
  shows "c < length ms \<Longrightarrow> pm_parent (ms ! c) = Some p \<Longrightarrow> p < length ms \<and> c \<in> set (pm_child (ms ! p))"
    and "p < length ms \<Longrightarrow> distinct (pm_child (ms ! p))"
    and "p < length ms \<Longrightarrow> c \<in> set (pm_child (ms ! p)) \<Longrightarrow> c < length ms \<and> pm_parent (ms ! c) = Some p"
  using assms unfolding linked_def by blast+

lemma set_manager_nth [simp]:
  "x < length ms \<Longrightarrow> set_manager m f ms ! x = (if x = m then f (ms ! m) else ms ! x)"
  and length_set_manager [simp]: "length (set_manager m f ms) = length ms"
  by (auto simp: set_manager_def nth_list_update)

lemma link_child_sel:
  assumes "p < length ms" "c < length ms"
  shows "x < length ms \<Longrightarrow> pm_parent (snd (link_child p c ms) ! x) = (if x = c then Some p else pm_parent (ms ! x))"
    and "x < length ms \<Longrightarrow> pm_child (snd (link_child p c ms) ! x) = (if x = p then pm_child (ms ! p) @ [c] else pm_child (ms ! x))"
    and "length (snd (link_child p c ms)) = length ms"
  using assms by (simp_all add: link_child_def Let_def)

lemma link_child_linked:
  assumes p: "p < length ms" "c < length ms"
    and l: "\<And>x q. x < length ms \<Longrightarrow> x \<noteq> c \<Longrightarrow> pm_parent (ms ! x) = Some q \<Longrightarrow> q < length ms \<and> x \<in> set (pm_child (ms ! q))"
      "\<And>q. q < length ms \<Longrightarrow> distinct (pm_child (ms ! q)) \<and> c \<notin> set (pm_child (ms ! q))"
      "\<And>q x. q < length ms \<Longrightarrow> x \<in> set (pm_child (ms ! q)) \<Longrightarrow> x < length ms \<and> pm_parent (ms ! x) = Some q"
  shows "linked (snd (link_child p c ms))"
proof -
  note sel = link_child_sel [OF p]
  show ?thesis unfolding linked_def sel(3)
  proof (intro conjI allI impI ballI)
    fix x q assume x: "x < length ms" "pm_parent (snd (link_child p c ms) ! x) = Some q"
    show "q < length ms" using x l(1) [of x q] p sel(1) [OF x(1)] by (cases "x = c") auto
    then show "x \<in> set (pm_child (snd (link_child p c ms) ! q))"
      using x l(1) [of x q] sel(1) [OF x(1)] sel(2) [of q] by (cases "x = c") auto
  next
    fix q assume "q < length ms"
    then show "distinct (pm_child (snd (link_child p c ms) ! q))" using l(2) [of q] sel(2) by auto
  next
    fix q x assume q: "q < length ms" "x \<in> set (pm_child (snd (link_child p c ms) ! q))"
    then have "x = c \<and> q = p \<or> x \<in> set (pm_child (ms ! q))" using sel(2) [OF q(1)] by (auto split: if_splits)
    then have x: "x < length ms \<and> (x = c \<and> q = p \<or> x \<noteq> c \<and> pm_parent (ms ! x) = Some q)"
      using l(2) [OF q(1)] l(3) [OF q(1)] p by auto
    then show "x < length ms" by simp
    show "pm_parent (snd (link_child p c ms) ! x) = Some q" using x sel(1) [of x] by auto
  qed
qed

lemma set_parent_linked:
  assumes l: "linked ms" and p: "p < length ms" "c < length ms"
  shows "linked (snd (set_parent rel p c ms)) \<and> length (snd (set_parent rel p c ms)) = length ms"
proof (cases "pm_parent (ms ! c)")
  case None
  have "c \<notin> set (pm_child (ms ! q))" if "q < length ms" for q
    using linkedD(3) [OF l that] None by auto
  then have "linked (snd (link_child p c ms))"
    by (intro link_child_linked [OF p]) (use linkedD [OF l] in blast)+
  then show ?thesis using None link_child_sel(3) [OF p] by (simp add: set_parent_def)
next
  case (Some old)
  have old: "old < length ms" using linkedD(1) [OF l p(2) Some] by simp
  let ?ms = "delete_child old c ms"
  have len: "length ?ms = length ms" by (simp add: delete_child_def)
  have parent: "pm_parent (?ms ! x) = pm_parent (ms ! x)" if "x < length ms" for x
    using that by (simp add: delete_child_def)
  have child: "pm_child (?ms ! x) = (if x = old then remove1 c (pm_child (ms ! x)) else pm_child (ms ! x))" if "x < length ms" for x
    using that by (simp add: delete_child_def)
  have "linked (snd (link_child p c ?ms))"
  proof (rule link_child_linked)
    fix x q assume x: "x < length ?ms" "x \<noteq> c" "pm_parent (?ms ! x) = Some q"
    then show "q < length ?ms \<and> x \<in> set (pm_child (?ms ! q))"
      using linkedD(1) [OF l, of x q] parent child [of q] by (auto simp: len)
  next
    fix q assume q: "q < length ?ms"
    show "distinct (pm_child (?ms ! q)) \<and> c \<notin> set (pm_child (?ms ! q))"
      using linkedD(2) [OF l, of q] linkedD(3) [OF l, of q c] child [of q] q Some by (auto simp: len)
  next
    fix q x assume q: "q < length ?ms" "x \<in> set (pm_child (?ms ! q))"
    then have "x \<in> set (pm_child (ms ! q))" using child [of q] by (auto simp: len split: if_splits dest: set_remove1_subset [THEN subsetD])
    then show "x < length ?ms \<and> pm_parent (?ms ! x) = Some q"
      using linkedD(3) [OF l, of q x] q(1) parent [of x] by (simp add: len)
  qed (use p len in auto)
  then have "linked (snd (link_child p c ?ms)) \<and> length (snd (link_child p c ?ms)) = length ms"
    using link_child_sel(3) [of p ?ms c] p len by simp
  then show ?thesis using Some l by (auto simp: set_parent_def split: option.splits)
qed

text \<open>What the linking and the widening of ranges leave alone.\<close>

definition same_parts :: "PARA_MANAGER list \<Rightarrow> PARA_MANAGER list \<Rightarrow> bool" where
  "same_parts ms ms' \<longleftrightarrow> length ms' = length ms \<and>
     (\<forall>m < length ms. pm_para_data (ms' ! m) = pm_para_data (ms ! m) \<and>
        pm_start (ms' ! m) = pm_start (ms ! m) \<and> pm_end (ms' ! m) = pm_end (ms ! m))"

lemma set_parent_parts: "same_parts ms (snd (set_parent rel p c ms))"
proof -
  have "same_parts ms (snd (link_child p c ms))" for ms
    by (simp add: same_parts_def link_child_def Let_def)
  moreover have "same_parts ms (snd (link_child p c (delete_child old c ms)))" for old
    by (simp add: same_parts_def link_child_def delete_child_def Let_def)
  moreover have "same_parts ms ms" by (simp add: same_parts_def)
  ultimately show ?thesis by (auto simp: set_parent_def split: option.splits)
qed

definition same_links :: "PARA_MANAGER list \<Rightarrow> PARA_MANAGER list \<Rightarrow> bool" where
  "same_links ms ms' \<longleftrightarrow> length ms' = length ms \<and>
     (\<forall>m < length ms. pm_para_data (ms' ! m) = pm_para_data (ms ! m) \<and>
        pm_parent (ms' ! m) = pm_parent (ms ! m) \<and> pm_child (ms' ! m) = pm_child (ms ! m) \<and>
        (parts_chain (ms ! m) \<longrightarrow> parts_chain (ms' ! m)))"

lemma same_links_refl [simp]: "same_links ms ms" by (simp add: same_links_def)

lemma same_links_trans: "same_links ms ms' \<Longrightarrow> same_links ms' ms'' \<Longrightarrow> same_links ms ms''"
  by (simp add: same_links_def)

lemma same_links_set_manager:
  "(\<And>x. pm_para_data (f x) = pm_para_data x \<and> pm_parent (f x) = pm_parent x \<and> pm_child (f x) = pm_child x \<and>
     (parts_chain x \<longrightarrow> parts_chain (f x))) \<Longrightarrow> same_links ms (set_manager m f ms)"
  by (simp add: same_links_def)

lemma revise_ends_links: "same_links ms (revise_ends m ms)"
proof -
  define k where "k = length (pm_end (ms ! m)) - 1"
  have start: "same_links ms (set_manager m (\<lambda>x. x\<lparr>pm_start := (pm_start x)[0 := v]\<rparr>) ms)" for v ms
    by (rule same_links_set_manager) (auto simp: parts_chain_def)
  have last: "same_links ms (set_manager m (\<lambda>x. x\<lparr>pm_end := (pm_end x)[length (pm_end (ms ! m)) - 1 := v]\<rparr>) ms)" for v ms
  proof (cases "m < length ms")
    case True
    then show ?thesis by (auto simp: same_links_def parts_chain_def nth_list_update)
  qed (simp add: set_manager_def list_update_beyond)
  define ms1 where "ms1 = (let c = ms ! hd (pm_child (ms ! m)) in
    if hd (pm_start c) < hd (pm_start (ms ! m))
    then set_manager m (\<lambda>x. x\<lparr>pm_start := (pm_start x)[0 := hd (pm_start c)]\<rparr>) ms else ms)"
  have one: "same_links ms ms1" using start by (simp add: ms1_def Let_def)
  have "revise_ends m ms = ms1 \<or>
      (\<exists>v. revise_ends m ms = set_manager m (\<lambda>x. x\<lparr>pm_end := (pm_end x)[length (pm_end (ms1 ! m)) - 1 := v]\<rparr>) ms1)"
    unfolding revise_ends_def Let_def ms1_def by auto
  then have "same_links ms1 (revise_ends m ms)"
  proof (elim disjE exE)
    fix v assume "revise_ends m ms = set_manager m (\<lambda>x. x\<lparr>pm_end := (pm_end x)[length (pm_end (ms1 ! m)) - 1 := v]\<rparr>) ms1"
    then show ?thesis using last [of ms1 v] by (simp only:)
  qed simp
  with one show ?thesis by (rule same_links_trans)
qed

lemma para_revise_scope_links: "para_revise_scope n m ms = Some ms' \<Longrightarrow> same_links ms ms'"
proof (induction n arbitrary: m ms ms')
  case (Suc n)
  show ?case
  proof (cases "pm_child (ms ! m) = []")
    case False
    then obtain t where t: "fold_option (para_revise_scope n) (pm_child (ms ! m)) ms = Some t" "ms' = revise_ends m t"
      using Suc.prems by auto
    have "same_links ms t"
      by (rule fold_option_invariant [OF t(1)]) (use Suc.IH same_links_trans in auto)
    then show ?thesis using t(2) revise_ends_links same_links_trans by blast
  qed (use Suc.prems in simp)
qed simp

lemma revise_roots_links: "revise_roots ms = Some ms' \<Longrightarrow> same_links ms ms'"
  unfolding revise_roots_def
  by (erule fold_option_invariant) (auto split: if_splits intro: same_links_trans dest: para_revise_scope_links simp del: para_revise_scope.simps)

section \<open>Properties of the managers\<close>

text \<open>What holds of the coordinations and their managers after the analysis of the relations.\<close>

definition managers_ok :: "'f PARA_DATA list \<Rightarrow> PARA_MANAGER list \<Rightarrow> bool" where
  "managers_ok ps ms \<longleftrightarrow>
     (\<forall>m < length ms. parts_chain (ms ! m)) \<and> linked ms \<and>
     (\<forall>i < length ps. is_active (ps ! i) \<longrightarrow>
        (\<exists>m < length ms. manager_ptr (ps ! i) = Some m \<and> i \<in> set (pm_para_data (ms ! m))))"

lemma group_phase:
  assumes "for_while (group_step rel) [0..<length ps0] (ps0, []) = Some (True, ps, ms)"
    and "map unmanaged ps0 = ps0" and "one_brother ps0 rel" and "distinct (map key_pos ps0)"
  shows "managers_ok ps ms \<and> length ps = length ps0"
proof -
  have "manager_ptr (ps0 ! k) = None" if "k < length ps0" for k
    using that assms(2) by (metis nth_map unmanaged_sel(5))
  then have "group_inv ps0 0 (ps0, [])" using assms(2) by (simp add: group_inv_def)
  with assms(1) have inv: "group_inv ps0 (length ps0) (ps, ms)"
    by (rule for_while_upt_invariant [where P = "group_inv ps0"]) (use group_step_inv assms in blast)
  then have len: "length ps = length ps0" by (auto simp: group_inv_def)
  note inv' = inv [unfolded group_inv_def case_prod_conv]
  have parts: "parts_chain (ms ! m) \<and> pm_parent (ms ! m) = None \<and> pm_child (ms ! m) = []" if "m < length ms" for m
    using inv' that by blast
  then have "linked ms" by (simp add: linked_def)
  moreover have "\<exists>m < length ms. manager_ptr (ps ! i) = Some m \<and> i \<in> set (pm_para_data (ms ! m))"
    if i: "i < length ps" "is_active (ps ! i)" for i
  proof -
    have "\<forall>k<length ps0. k < length ps \<and> is_active (ps ! k) \<longrightarrow> manager_ptr (ps ! k) \<noteq> None"
      using inv' by (elim conjE)
    then obtain m where m: "manager_ptr (ps ! i) = Some m" using i len by auto
    have "\<forall>k<length ps. \<forall>m. manager_ptr (ps ! k) = Some m \<longrightarrow> m < length ms \<and> k \<in> set (pm_para_data (ms ! m)) \<and>
        (length ps0 \<le> k \<longrightarrow> last (pm_para_data (ms ! m)) = k)"
      using inv' by (elim conjE)
    then show ?thesis using m i(1) by blast
  qed
  ultimately show ?thesis using parts len unfolding managers_ok_def by blast
qed

lemma managers_ok_same_links:
  "managers_ok ps ms \<Longrightarrow> same_links ms ms' \<Longrightarrow> managers_ok ps ms'"
proof -
  assume ok: "managers_ok ps ms" and same: "same_links ms ms'"
  then have l: "linked ms" and len: "length ms' = length ms" by (auto simp: managers_ok_def same_links_def)
  have sel: "pm_para_data (ms' ! m) = pm_para_data (ms ! m)" "pm_parent (ms' ! m) = pm_parent (ms ! m)"
    "pm_child (ms' ! m) = pm_child (ms ! m)" "parts_chain (ms ! m) \<Longrightarrow> parts_chain (ms' ! m)" if "m < length ms" for m
    using same that unfolding same_links_def by blast+
  have "linked ms'"
    unfolding linked_def len
  proof (intro conjI allI impI ballI)
    fix c p assume c: "c < length ms" "pm_parent (ms' ! c) = Some p"
    then show "p < length ms" using linkedD(1) [OF l, of c p] sel(2) by simp
    then show "c \<in> set (pm_child (ms' ! p))" using c linkedD(1) [OF l, of c p] sel(2,3) by simp
  next
    fix p assume p: "p < length ms"
    then show "distinct (pm_child (ms' ! p))" using linkedD(2) [OF l p] sel(3) by simp
    fix c assume "c \<in> set (pm_child (ms' ! p))"
    then show "c < length ms" "pm_parent (ms' ! c) = Some p" using linkedD(3) [OF l p, of c] sel(2,3) p by simp_all
  qed
  moreover have "\<forall>m < length ms'. parts_chain (ms' ! m)"
    using ok sel(4) unfolding managers_ok_def len by blast
  moreover have "\<exists>m < length ms'. manager_ptr (ps ! i) = Some m \<and> i \<in> set (pm_para_data (ms' ! m))"
    if i: "i < length ps" "is_active (ps ! i)" for i
  proof -
    obtain m where "m < length ms" "manager_ptr (ps ! i) = Some m" "i \<in> set (pm_para_data (ms ! m))"
      using ok i unfolding managers_ok_def by blast
    then show ?thesis using sel(1) len by auto
  qed
  ultimately show ?thesis unfolding managers_ok_def by blast
qed

lemma parent_step_ok:
  assumes ms: "managers_ok ps ms" and ij: "i < length ps" "j < length ps" and t: "parent_step rel ps (i, j) ms = Some (True, t)"
  shows "managers_ok ps t"
proof (cases "is_active (ps ! i) \<and> is_active (ps ! j) \<and> inner_scope rel i j")
  case False
  then show ?thesis using t ms by (auto simp: parent_step_def)
next
  case True
  then obtain m1 m2 where m: "manager_ptr (ps ! i) = Some m1" "manager_ptr (ps ! j) = Some m2" "t = snd (set_parent rel m2 m1 ms)"
    using t by (auto simp: parent_step_def bind_eq_Some_conv)
  have lt: "m1 < length ms" "m2 < length ms"
    using ms True m ij by (auto simp: managers_ok_def)
  have l: "linked t \<and> length t = length ms"
    using set_parent_linked [OF _ lt(2,1)] ms m(3) by (simp add: managers_ok_def)
  have parts: "same_parts ms t" unfolding m(3) by (rule set_parent_parts)
  show ?thesis
    using ms l parts by (auto simp: managers_ok_def same_parts_def parts_chain_def)
qed

lemma parent_phase:
  assumes "for_while (parent_step rel ps) (List.product [0..<n] [0..<n]) ms = Some (True, ms')"
    and "managers_ok ps ms" and "length ps = n"
  shows "managers_ok ps ms'"
  by (rule for_while_invariant [OF assms(1), where P = "managers_ok ps"]) (use assms(2,3) parent_step_ok in auto)

text \<open>
  C11. After an analysis of the relations that succeeds, the parts of every manager follow each other
  without gap or overlap, the links between parents and children agree, and every coordination that is
  in use belongs to the manager it points to.
\<close>

theorem detect_para_relation_managers:
  assumes "detect_para_relation F S = Some (True, S')" and "distinct (map key_pos (para_data S))"
  shows "managers_ok (para_data S') (para_manager S')"
proof -
  obtain rel0 where loc: "locate_loop (para_data S) (active_pairs (para_data S)) (para_rel_matrix S) = (None, rel0)"
    using assms(1) by (auto simp: detect_para_relation_def split: prod.splits option.splits)
  define ps0 where "ps0 = init_para_manager (para_data S)"
  define rel where "rel = revise_between ps0 (promote_brothers ps0 rel0)"
  obtain ps ms1 ms2 ms3 where grp: "for_while (group_step rel) [0..<length ps0] (ps0, []) = Some (True, ps, ms1)"
    and par: "for_while (parent_step rel ps) (List.product [0..<length ps0] [0..<length ps0]) ms1 = Some (True, ms2)"
    and rev: "revise_roots ms2 = Some ms3"
    and S': "para_data S' = ps" "para_manager S' = map (mark_status ps) ms3"
    using assms(1) loc
    by (auto simp: detect_para_relation_def Let_def ps0_def [symmetric] rel_def [symmetric] bind_eq_Some_conv split: if_splits)
  have "managers_ok ps ms1" and len: "length ps = length ps0"
    using group_phase [OF grp] one_brother_final [OF loc] assms(2)
    by (auto simp: ps0_def rel_def init_para_manager_def unmanaged_def comp_def)
  then have "managers_ok ps ms2" using parent_phase [OF par] by simp
  then have "managers_ok ps ms3"
    using managers_ok_same_links revise_roots_links [OF rev] by blast
  moreover have "same_links ms3 (map (mark_status ps) ms3)"
    by (auto simp: same_links_def mark_status_def parts_chain_def)
  ultimately show ?thesis using managers_ok_same_links by (auto simp: S')
qed

section \<open>Examples\<close>

text \<open>Coordinations by the beginning, the key and the end of their scopes and their status.\<close>

definition sample_para :: "nat \<times> nat \<times> nat \<times> char \<Rightarrow> int PARA_DATA" where
  "sample_para = (\<lambda>(i, key, j, status).
     \<lparr>para_char = CHR ''a'', pd_type = PARA_KEY_P, key_pos = key, iend_pos = int key, jend_pos = j,
      max_path = (\<lambda>_. int i), pd_f_pattern = [], max_score = 0, pure_score = 0, pd_status = status, manager_ptr = None\<rparr>)"

definition sample_para_state :: "nat \<Rightarrow> (nat \<times> nat \<times> nat \<times> char) list \<Rightarrow> int PARA_STATE" where
  "sample_para_state n xs =
     \<lparr>pa_sp = sample_sentence (replicate n []), para_data = map sample_para xs, para_manager = [],
      para_rel_matrix = (\<lambda>_ _. REL_NOT), Revised_para_num = -1, pa_scope = sample_scope [],
      pa_matrices = \<lparr>Dpnd_matrix = (\<lambda>_ _. 1), Mask_matrix = (\<lambda>_ _. 1), Quote_mask = (\<lambda>_ _. 1)\<rparr>,
      D_check_array = (\<lambda>_. False), D_found_array = (\<lambda>_. False), pa_chk = \<lparr>matched_ptr = None, cont_str = []\<rparr>\<rparr>"

lemmas relation_eval =
  detect_para_relation_def sample_para_state_def active_pairs_def upt_rec sample_para_def para_location_def
  scope_relation_def rel_pre_def rel_pos_def relation_tables relation_codes Let_def set_cell_apply
  promote_brothers_def revise_between_def for_upt_rec for_upt_def init_para_manager_def group_step_def own_manager_def
  new_manager_def join_manager_def add_part_def PARA_PART_MAX_def parent_step_def inner_scope_def set_parent_def
  link_child_def para_brother_p_def set_manager_def revise_roots_def revise_ends_def mark_status_def

text \<open>
  A coordination can be counted in two managers: here the third one is a brother of the first by
  the size of the overlap and of the second by position, so both managers hold its last part.
\<close>

theorem brother_in_two_managers:
  "\<exists>S'. detect_para_relation sample_float
       (sample_para_state 7 [(0, 0, 4, CHR ''n''), (1, 1, 4, CHR ''n''), (2, 4, 6, CHR ''n'')]) = Some (True, S') \<and>
     map pm_para_data (para_manager S') = [[0, 2], [1, 2]] \<and> map (last \<circ> pm_end) (para_manager S') = [6, 6]"
  by (simp add: relation_eval)

theorem detect_para_relation_managers_witness:
  "\<exists>S'. detect_para_relation sample_float
       (sample_para_state 7 [(0, 0, 3, CHR ''n''), (2, 3, 6, CHR ''n'')]) = Some (True, S') \<and>
     managers_ok (para_data S') (para_manager S')"
proof -
  let ?S = "sample_para_state 7 [(0, 0, 3, CHR ''n''), (2, 3, 6, CHR ''n'')]"
  have "\<exists>S'. detect_para_relation sample_float ?S = Some (True, S')" by (simp add: relation_eval)
  then obtain S' where S': "detect_para_relation sample_float ?S = Some (True, S')" ..
  have "managers_ok (para_data S') (para_manager S')"
    by (rule detect_para_relation_managers [OF S']) (simp add: sample_para_state_def sample_para_def)
  with S' show ?thesis by blast
qed

theorem revise_para_rel_excludes_bad_witness:
  "para_location (with_scope 0 1 (sample_para (0, 0, 3, CHR ''n''))) (sample_para (1, 2, 5, CHR ''s'')) \<noteq> REL_BAD"
proof -
  let ?S = "sample_para_state 7 [(0, 0, 3, CHR ''n''), (1, 2, 5, CHR ''s'')]"
  have "restrict_matrix (pa_scope (revise_para_rel sample_float 0 1 ?S)) 0 1 \<noteq> 0"
    "Revised_para_num (revise_para_rel sample_float 0 1 ?S) = int 0"
    by (simp_all add: revise_para_rel_def revise_choice_def set_restrict_matrix_def for_upt_cells judge_value_def
        relation_eval)
  with revise_para_rel_excludes_bad [of 0 1 "sample_para (0, 0, 3, CHR ''n'')" ?S "sample_para (1, 2, 5, CHR ''s'')" 1
      sample_float 0] show ?thesis
    by (simp add: sample_para_state_def) (simp add: sample_para_def)
qed

theorem strong_pair_not_revised_witness:
  "para_location (sample_para (0, 0, 4, CHR ''s'')) (sample_para (2, 5, 6, CHR ''s'')) = REL_BAD \<and>
   restrict_matrix (pa_scope (revise_para_rel sample_float 0 1
     (sample_para_state 7 [(0, 0, 4, CHR ''s''), (2, 5, 6, CHR ''s'')]))) 0 4 = 1"
proof -
  let ?S = "sample_para_state 7 [(0, 0, 4, CHR ''s''), (2, 5, 6, CHR ''s'')]"
  have "Revised_para_num (revise_para_rel sample_float 0 1 ?S) = int 0"
    by (simp add: revise_para_rel_def revise_choice_def relation_eval sample_float_def)
  then show ?thesis
    using strong_pair_not_revised [of ?S 0 1 0 2 sample_float]
    by (simp add: sample_para_state_def) (simp add: sample_para_def)
qed

end
