(* ===== verification/Knp_Para.thy ===== *)
theory Knp_Para
  imports Knp_Relation
begin

text \<open>
  Dependencies inside coordinations, from \<open>src/system/para_dpnd.c\<close>, the part of
  \<open>src/system/para_revision.c\<close> that restricts a scope by them, and the loop of \<open>src/system/main.c\<close> that
  repeats the analysis of coordinations until relations and dependencies agree. Every part of a
  coordination must have a dependency structure of its own; then the dependency matrix is masked, so
  that only the last bunsetsu of a part has its head outside.

  The part for Japanese is modelled: in Chinese, \<^verbatim>\<open>check_para_d_struct\<close> moves the borders of the parts
  by tables of noun phrases before and checks them after.
\<close>

section \<open>Definitions\<close>

subsection \<open>The structure of a part\<close>

definition check_stop_extend :: "SENTENCE_DATA \<Rightarrow> nat \<Rightarrow> bool" where
  "check_stop_extend sp num \<longleftrightarrow>
     (let f = bnst_f sp num in
      (has_feature f s_touten \<and> \<not> has_feature f s_k_doukaku_rentai) \<or> has_feature f s_teidai \<or>
      (has_feature f s_k_dekaku \<and> has_feature f s_ha))"

definition para_extend_p :: "'f PARA_STATE \<Rightarrow> PARA_MANAGER \<Rightarrow> bool" where
  "para_extend_p S m \<longleftrightarrow>
     is_strong (para_data S ! hd (pm_para_data m)) \<or>
     (\<exists>i \<in> {hd (pm_start m)..hd (pm_end m)}. has_feature (bnst_f (pa_sp S) i) s_yougen)"

definition parent_range :: "PARA_MANAGER list \<Rightarrow> PARA_MANAGER \<Rightarrow> nat" where
  "parent_range ms m =
     (case pm_parent m of
        None \<Rightarrow> 0
      | Some p \<Rightarrow>
          (case find (\<lambda>i. pm_start (ms ! p) ! i \<le> hd (pm_start m)) (rev [1..<length (pm_start (ms ! p))]) of
             None \<Rightarrow> 0 | Some i \<Rightarrow> pm_start (ms ! p) ! i))"

definition dpnd_allowed :: "MATRICES \<Rightarrow> nat \<Rightarrow> nat \<Rightarrow> bool" where
  "dpnd_allowed M i j \<longleftrightarrow> Mask_matrix M i j \<noteq> 0 \<and> Quote_mask M i j \<noteq> 0 \<and> Dpnd_matrix M i j \<noteq> 0"

text \<open>The nearest head of \<open>i\<close> up to \<open>fin\<close> that the dependencies after \<open>i\<close> leave open.\<close>

definition nearest_head :: "(nat \<Rightarrow> nat \<Rightarrow> bool) \<Rightarrow> (nat \<Rightarrow> bool) \<Rightarrow> nat \<Rightarrow> nat \<Rightarrow> nat option" where
  "nearest_head ok hikousa fin i = find (\<lambda>j. ok i j \<and> hikousa j) [i + 1..<fin + 1]"

text \<open>The state of the check: success so far, the bunsetsu with heads, those still open as heads.\<close>

type_synonym d_state = "bool \<times> (nat \<Rightarrow> bool) \<times> (nat \<Rightarrow> bool)"

definition head_step :: "(nat \<Rightarrow> nat \<Rightarrow> bool) \<Rightarrow> (nat \<Rightarrow> bool) \<Rightarrow> nat \<Rightarrow> nat \<Rightarrow> d_state \<Rightarrow> d_state" where
  "head_step ok check fin i s =
     (case s of
        (success, found, hikousa) \<Rightarrow>
          if check i then (success, found(i := True), hikousa)
          else
            (case nearest_head ok hikousa fin i of
               Some j \<Rightarrow> (success, found(i := True), (\<lambda>k. if i < k \<and> k < j then False else hikousa k))
             | None \<Rightarrow> (False, found(i := False), (\<lambda>k. if i < k \<and> k \<le> fin then False else hikousa k))))"

text \<open>How far the first part may be extended to the left; the argument is the position after the next bunsetsu.\<close>

fun extend_front ::
  "(nat \<Rightarrow> nat \<Rightarrow> bool) \<Rightarrow> (nat \<Rightarrow> bool) \<Rightarrow> (nat \<Rightarrow> bool) \<Rightarrow> nat \<Rightarrow> nat \<Rightarrow> nat \<Rightarrow> (nat \<Rightarrow> bool) \<Rightarrow> (nat \<Rightarrow> bool) \<Rightarrow>
   nat \<times> (nat \<Rightarrow> bool)" where
  "extend_front ok check stop limit fin 0 found hikousa = (0, found)"
| "extend_front ok check stop limit fin (Suc i) found hikousa =
     (if i < limit \<or> stop i then (Suc i, found)
      else if check i then extend_front ok check stop limit fin i (found(i := True)) hikousa
      else
        (case nearest_head ok hikousa fin i of
           Some j \<Rightarrow> extend_front ok check stop limit fin i (found(i := True))
                      (\<lambda>k. if i < k \<and> k < j then False else hikousa k)
         | None \<Rightarrow> (Suc i, found)))"

text \<open>
  The C function \<^verbatim>\<open>_check_para_d_struct\<close>: success, the start of the extended part if it is computed, and
  the bunsetsu with heads.
\<close>

definition check_d_struct ::
  "(nat \<Rightarrow> nat \<Rightarrow> bool) \<Rightarrow> (nat \<Rightarrow> bool) \<Rightarrow> (nat \<Rightarrow> bool) \<Rightarrow> nat \<Rightarrow> nat \<Rightarrow> bool \<Rightarrow> nat \<Rightarrow> (nat \<Rightarrow> bool) \<Rightarrow>
   bool \<times> nat option \<times> (nat \<Rightarrow> bool)" where
  "check_d_struct ok check stop str fin extend_p limit found =
     (case fold (head_step ok check fin) (rev [str..<fin]) (True, found(fin := True), \<lambda>k. k \<le> fin) of
        (success, found1, hikousa) \<Rightarrow>
          if extend_p \<and> success
          then (case extend_front ok check stop limit fin str found1 hikousa of (s, found2) \<Rightarrow> (True, Some s, found2))
          else (success, None, found1))"

text \<open>The number of the coordination to revise, if the error can be repaired; \<open>error\<close> is one flag per part.\<close>

definition check_error_state :: "PARA_MANAGER \<Rightarrow> bool list \<Rightarrow> nat option" where
  "check_error_state m error =
     (let n = length (pm_start m) in
      if n = 2 then Some (hd (pm_para_data m))
      else if hd error then (if \<exists>i \<in> {1..<n}. error ! i then None else Some (hd (pm_para_data m)))
      else if error ! (n - 1) then (if \<exists>i \<in> {0..<n - 1}. error ! i then None else Some (last (pm_para_data m)))
      else None)"

subsection \<open>Restriction of a scope by its dependencies\<close>

text \<open>
  \<^verbatim>\<open>for (k = p - 1; found[k]; k--)\<close>, stopped also below \<open>lo\<close> but after the array is read: an index \<open>-1\<close>
  is undefined.
\<close>

fun scan_error :: "(nat \<Rightarrow> bool) \<Rightarrow> nat \<Rightarrow> nat \<Rightarrow> nat option" where
  "scan_error found lo 0 = None"
| "scan_error found lo (Suc i) = (if found i \<and> lo \<le> i then scan_error found lo i else Some i)"

definition check_state :: "'f PARA_STATE \<Rightarrow> nat \<Rightarrow> nat \<Rightarrow> bool \<Rightarrow> nat \<Rightarrow> bool \<times> nat option \<times> 'f PARA_STATE" where
  "check_state S str fin extend_p limit =
     (case check_d_struct (dpnd_allowed (pa_matrices S)) (D_check_array S) (check_stop_extend (pa_sp S))
             str fin extend_p limit (D_found_array S) of
        (b, s, found) \<Rightarrow> (b, s, S\<lparr>D_found_array := found\<rparr>))"

definition set_restrict :: "int matrix \<Rightarrow> 'f PARA_STATE \<Rightarrow> 'f PARA_STATE" where
  "set_restrict m S = S\<lparr>pa_scope := (pa_scope S)\<lparr>restrict_matrix := m\<rparr>\<rparr>"

definition restrict_end :: "nat \<Rightarrow> nat \<Rightarrow> 'f PARA_STATE \<Rightarrow> 'f PARA_STATE" where
  "restrict_end key j S =
     (case check_state S (key + 1) j False 0 of
        (b, _, S') \<Rightarrow>
          if b then S'
          else set_restrict (for_upt 0 (key + 1) (\<lambda>i. set_cell i j 0) (restrict_matrix (pa_scope S'))) S')"

definition revise_para_kakari :: "nat \<Rightarrow> 'f PARA_STATE \<Rightarrow> 'f PARA_STATE option" where
  "revise_para_kakari num S =
     (let n = Bnst_num (pa_sp S); key = key_pos (para_data S ! num);
          S1 = set_restrict (\<lambda>i j. if i < j \<and> j < n then 1 else restrict_matrix (pa_scope S) i j) S
      in case check_state S1 0 key False 0 of
           (b, _, S2) \<Rightarrow>
             do { S3 \<leftarrow> (if b then Some S2
                        else do { k \<leftarrow> scan_error (D_found_array S2) 0 (key + 1);
                                  Some (set_restrict (fill_rect 0 (k + 1) (key + 1) n 0 (restrict_matrix (pa_scope S2))) S2) });
                  Some ((for_upt (key + 2) n (restrict_end key) S3)\<lparr>Revised_para_num := int num\<rparr>) })"

subsection \<open>The dependencies of a coordination\<close>

text \<open>
  Parts without a common predicate: in step with each other, the bunsetsu without a head of the parts
  are found from the right. The result tells whether they correspond. The flag \<open>here\<close> is not reset from
  one part to the next.
\<close>

fun match_parts ::
  "(nat \<Rightarrow> bool) \<Rightarrow> bool \<Rightarrow> bool \<Rightarrow> (nat \<times> nat) list \<Rightarrow> (bool \<times> nat list) option" where
  "match_parts found no_more here [] = Some (True, [])"
| "match_parts found no_more here ((lo, p) # ps) =
     do { i \<leftarrow> scan_error found lo p;
          let here' = (here \<or> i + 1 = lo) in
          if no_more \<noteq> here' then Some (False, [])
          else map_option (\<lambda>(b, is). (b, i # is)) (match_parts found no_more here' ps) }"

lemma scan_error_less: "scan_error found lo p = Some i \<Longrightarrow> i < p"
  by (induction p) (auto split: if_splits)

function match_errors :: "(nat \<Rightarrow> bool) \<Rightarrow> nat \<Rightarrow> nat list \<Rightarrow> nat \<Rightarrow> nat list \<Rightarrow> bool option" where
  "match_errors found start_pos los pos0 poss =
     (case scan_error found start_pos pos0 of
        None \<Rightarrow> None
      | Some i \<Rightarrow>
          (case match_parts found (i + 1 = start_pos) False (zip los poss) of
             None \<Rightarrow> None
           | Some (b, poss') \<Rightarrow>
               if \<not> b then Some False
               else if i + 1 = start_pos then Some True
               else match_errors found start_pos los i poss'))"
  by pat_completeness auto
termination
  by (relation "measure (\<lambda>(_, _, _, pos0, _). pos0)") (auto dest: scan_error_less)

declare match_errors.simps [simp del]

text \<open>In a strong coordination of nouns the first parts get the dependencies of the last one.\<close>

definition copy_dpnd :: "PARA_MANAGER \<Rightarrow> nat \<Rightarrow> nat \<Rightarrow> int matrix \<Rightarrow> int matrix" where
  "copy_dpnd m k i M =
     (let fin = pm_end m ! k; final = last (pm_end m) in
      if i + 1 = fin \<and> M i fin = M (final - 1) final then M else set_cell i fin (M i final) M)"

definition noun_dpnd :: "PARA_MANAGER \<Rightarrow> int matrix \<Rightarrow> int matrix" where
  "noun_dpnd m M =
     for_upt 0 (length (pm_start m) - 1) (\<lambda>k. for_upt (pm_start m ! k) (pm_end m ! k) (copy_dpnd m k)) M"

definition noun_coordination :: "PARA_MANAGER \<Rightarrow> 'f PARA_STATE \<Rightarrow> 'f PARA_STATE" where
  "noun_coordination m S =
     (if pm_status m = CHR ''s'' \<and> (\<forall>k\<in>set (pm_end m). has_feature (bnst_f (pa_sp S) k) s_taigen)
      then S\<lparr>pa_matrices := (pa_matrices S)\<lparr>Dpnd_matrix := noun_dpnd m (Dpnd_matrix (pa_matrices S))\<rparr>\<rparr>
      else S)"

text \<open>The check of the parts: the start of the extended first part and an error flag for each.\<close>

definition check_part :: "PARA_MANAGER \<Rightarrow> nat \<Rightarrow> nat \<times> bool list \<times> 'f PARA_STATE \<Rightarrow> nat \<times> bool list \<times> 'f PARA_STATE" where
  "check_part m k s =
     (case s of
        (start_pos, error, S) \<Rightarrow>
          (case check_state S (pm_start m ! k) (pm_end m ! k) (k = 0 \<and> para_extend_p S m)
                  (if k = 0 then parent_range (para_manager S) m else 0) of
             (b, p, S') \<Rightarrow> (case p of None \<Rightarrow> start_pos | Some x \<Rightarrow> x, error @ [\<not> b], S')))"

definition check_parts :: "PARA_MANAGER \<Rightarrow> 'f PARA_STATE \<Rightarrow> nat \<times> bool list \<times> 'f PARA_STATE" where
  "check_parts m S = fold (check_part m) [0..<length (pm_start m)] (hd (pm_start m), [], S)"

definition mask_part_rows :: "nat \<Rightarrow> nat \<Rightarrow> nat \<Rightarrow> int matrix \<Rightarrow> int matrix" where
  "mask_part_rows n s t M = fill_rect s (t + 1) (t + 1) n 0 M"

definition mask_inner_part :: "nat \<Rightarrow> PARA_MANAGER \<Rightarrow> nat \<Rightarrow> int matrix \<Rightarrow> int matrix" where
  "mask_inner_part n m k M =
     mask_part_rows n (pm_start m ! k) (pm_end m ! k)
       (fill_rect 0 (pm_start m ! k) (pm_start m ! k) (pm_end m ! k + 1) 0 M)"

definition mask_last_part :: "nat \<Rightarrow> PARA_MANAGER \<Rightarrow> int matrix \<Rightarrow> int matrix" where
  "mask_last_part n m M =
     (let s = last (pm_start m); t = last (pm_end m) in
      fill_rect s t (t + 1) n 0 (fill_rect 0 s s t 0 M))"

definition mask_links :: "PARA_MANAGER \<Rightarrow> int matrix \<Rightarrow> int matrix" where
  "mask_links m M = for_upt 0 (length (pm_start m) - 1) (\<lambda>k. set_cell (pm_end m ! k) (pm_end m ! Suc k) 2) M"

definition mask_incomplete :: "PARA_MANAGER \<Rightarrow> (nat \<Rightarrow> bool) \<Rightarrow> int matrix \<Rightarrow> int matrix" where
  "mask_incomplete m found M =
     for_upt 0 (length (pm_start m)) (\<lambda>k. for_upt (pm_start m ! k) (pm_end m ! k + 1)
       (\<lambda>i M. if found i then M else set_cell i (last (pm_end m)) 3 (set_cell i (pm_end m ! k) 3 M))) M"

definition mask_para ::
  "nat \<Rightarrow> PARA_MANAGER \<Rightarrow> nat \<Rightarrow> bool \<Rightarrow> bool \<Rightarrow> (nat \<Rightarrow> bool) \<Rightarrow> int matrix \<Rightarrow> int matrix" where
  "mask_para n m start_pos strong invalid found M0 =
     (let s = hd (pm_start m); t = hd (pm_end m);
          M1 = mask_part_rows n s t (fill_rect 0 start_pos s (t + 1) 0 M0);
          M2 = (if strong then for_upt 0 s (\<lambda>i. set_cell i t 0) M1 else M1);
          M3 = for_upt 1 (length (pm_start m) - 1) (mask_inner_part n m) M2;
          M4 = mask_links m (mask_last_part n m M3)
      in if invalid then mask_incomplete m found M4 else M4)"

text \<open>The end of the check: the bunsetsu of the coordination are done, and the matrix is masked.\<close>

definition close_para :: "PARA_MANAGER \<Rightarrow> nat \<Rightarrow> bool \<Rightarrow> 'f PARA_STATE \<Rightarrow> 'f PARA_STATE" where
  "close_para m start_pos invalid S =
     S\<lparr>D_check_array := (\<lambda>k. if start_pos \<le> k \<and> k < last (pm_end m) then True else D_check_array S k),
       pa_matrices := (pa_matrices S)\<lparr>Mask_matrix :=
         mask_para (Bnst_num (pa_sp S)) m start_pos (is_strong (para_data S ! hd (pm_para_data m))) invalid
           (D_found_array S) (Mask_matrix (pa_matrices S))\<rparr>\<rparr>"

text \<open>The parts of the function after the calls for the children.\<close>

definition check_own_struct :: "PARA_MANAGER \<Rightarrow> 'f PARA_STATE \<Rightarrow> (bool \<times> 'f PARA_STATE) option" where
  "check_own_struct m S0 =
     (case check_parts m (noun_coordination m S0) of
        (start_pos, error, S) \<Rightarrow>
          if \<not> (\<exists>b\<in>set error. b) then Some (True, close_para m start_pos False S)
          else
            do { matched \<leftarrow>
                   (if pm_status m \<noteq> CHR ''s'' then Some False
                    else match_errors (D_found_array S) start_pos (tl (pm_start m)) (hd (pm_end m)) (tl (pm_end m)));
                 if matched then Some (True, close_para m start_pos True S)
                 else
                   (case check_error_state m error of
                      Some r \<Rightarrow> map_option (Pair False) (revise_para_kakari r S)
                    | None \<Rightarrow> Some (True, close_para m start_pos True S)) })"

primrec check_para_d_struct :: "nat \<Rightarrow> nat \<Rightarrow> 'f PARA_STATE \<Rightarrow> (bool \<times> 'f PARA_STATE) option" where
  "check_para_d_struct 0 m S = None"
| "check_para_d_struct (Suc d) m S =
     do { (b, S1) \<leftarrow> for_while (check_para_d_struct d) (pm_child (para_manager S ! m)) S;
          if b then check_own_struct (para_manager S ! m) S1 else Some (False, S1) }"

definition init_mask_matrix :: "nat \<Rightarrow> int matrix \<Rightarrow> int matrix" where
  "init_mask_matrix n M = fill_rect 0 n 0 n 1 M"

definition check_dpnd_in_para :: "'f PARA_STATE \<Rightarrow> (bool \<times> 'f PARA_STATE) option" where
  "check_dpnd_in_para S =
     (let n = Bnst_num (pa_sp S) in
      for_while (\<lambda>m S. if pm_parent (para_manager S ! m) = None
                       then check_para_d_struct (length (para_manager S) + 1) m S else Some (True, S))
        [0..<length (para_manager S)]
        (S\<lparr>pa_matrices := (pa_matrices S)\<lparr>Mask_matrix := init_mask_matrix n (Mask_matrix (pa_matrices S))\<rparr>,
           D_check_array := (\<lambda>k. if k < n then False else D_check_array S k)\<rparr>))"

subsection \<open>The loop\<close>

definition assign_para_similarity_feature :: "'f FLOAT \<Rightarrow> 'f PARA_DATA list \<Rightarrow> SENTENCE_DATA \<Rightarrow> SENTENCE_DATA" where
  "assign_para_similarity_feature F ps sp =
     fold (\<lambda>p. set_bnst (key_pos p)
         (\<lambda>b. b\<lparr>n_f := assign_cfeature [] (n_f b) (s_heiretsu_ruiji @ fl_print3 F (max_score p)) False\<rparr>)) ps sp"

definition redetect ::
  "'f FLOAT \<Rightarrow> ENV \<Rightarrow> language \<Rightarrow> bool \<Rightarrow> QUOTE_DATA \<Rightarrow> 'f PARA_STATE \<Rightarrow> 'f PARA_STATE option" where
  "redetect F e Language parsed q S =
     (if Revised_para_num S < 0 then None
      else do {
        let r = nat (Revised_para_num S) in do {
        p \<leftarrow> at (para_data S) r;
        (p', sc, st) \<leftarrow> detect_para_scope F e Language parsed (pa_sp S) q r True p (pa_scope S) (pa_chk S);
        Some (S\<lparr>para_data := (para_data S)[r := p'], pa_scope := sc, pa_chk := st\<rparr>) } })"

text \<open>
  One pass: \<open>Inl\<close> is success, \<open>Inr\<close> the two error counts. The loop gives up after four errors of a kind.
\<close>

definition para_pass ::
  "'f FLOAT \<Rightarrow> nat \<Rightarrow> nat \<Rightarrow> 'f PARA_STATE \<Rightarrow> ('f PARA_STATE + nat \<times> nat \<times> 'f PARA_STATE) option" where
  "para_pass F relation_error d_struct_error S =
     (let S0 = S\<lparr>pa_sp := assign_para_similarity_feature F (para_data S) (pa_sp S)\<rparr> in
      do { (b1, S1) \<leftarrow> detect_para_relation F S0;
           if \<not> b1 then Some (Inr (relation_error + 1, d_struct_error, S1))
           else do { (b2, S2) \<leftarrow> check_dpnd_in_para S1;
                     Some (if b2 then Inl S2 else Inr (relation_error, d_struct_error + 1, S2)) } })"

function para_loop ::
  "'f FLOAT \<Rightarrow> ENV \<Rightarrow> language \<Rightarrow> bool \<Rightarrow> QUOTE_DATA \<Rightarrow> nat \<Rightarrow> nat \<Rightarrow> 'f PARA_STATE \<Rightarrow> (bool \<times> 'f PARA_STATE) option" where
  "para_loop F e Language parsed q relation_error d_struct_error S =
     (case para_pass F relation_error d_struct_error S of
        None \<Rightarrow> None
      | Some (Inl S') \<Rightarrow> Some (True, S')
      | Some (Inr (r, d, S')) \<Rightarrow>
          if r \<le> 3 \<and> d \<le> 3
          then (case redetect F e Language parsed q S' of
                  None \<Rightarrow> None | Some S'' \<Rightarrow> para_loop F e Language parsed q r d S'')
          else Some (False, S'\<lparr>pa_matrices := (pa_matrices S')\<lparr>Mask_matrix :=
                 init_mask_matrix (Bnst_num (pa_sp S')) (Mask_matrix (pa_matrices S'))\<rparr>\<rparr>))"
  by pat_completeness auto
termination
  by (relation "measure (\<lambda>(_, _, _, _, _, r, d, _). (4 - r) + (4 - d))")
    (auto simp: para_pass_def Let_def bind_eq_Some_conv split: if_splits)

declare para_loop.simps [simp del]

section \<open>The nearest head is a safe choice\<close>

text \<open>
  A structure of the bunsetsu from \<open>a\<close> to \<open>fin\<close>: all but those already checked have a head inside, and
  the dependencies do not cross.
\<close>

definition inner_structure :: "(nat \<Rightarrow> nat \<Rightarrow> bool) \<Rightarrow> (nat \<Rightarrow> bool) \<Rightarrow> nat \<Rightarrow> nat \<Rightarrow> (nat \<Rightarrow> nat) \<Rightarrow> bool" where
  "inner_structure ok check a fin h \<longleftrightarrow>
     (\<forall>i. a \<le> i \<and> i < fin \<and> \<not> check i \<longrightarrow> i < h i \<and> h i \<le> fin \<and> ok i (h i)) \<and>
     (\<forall>i k. a \<le> i \<and> i < k \<and> k < h i \<and> i < fin \<and> k < fin \<and> \<not> check i \<and> \<not> check k \<longrightarrow> h k \<le> h i)"

definition covered :: "(nat \<Rightarrow> bool) \<Rightarrow> nat \<Rightarrow> nat \<Rightarrow> (nat \<Rightarrow> nat) \<Rightarrow> nat \<Rightarrow> bool" where
  "covered check a fin h k \<longleftrightarrow> (\<exists>i. a \<le> i \<and> i < fin \<and> \<not> check i \<and> i < k \<and> k < h i)"

text \<open>
  The state after the bunsetsu from \<open>a\<close> on: on success there is a structure and the open bunsetsu are those
  that it does not cover; and for every structure there is success and no bunsetsu is closed that the
  structure leaves open.
\<close>

definition heads_inv :: "(nat \<Rightarrow> nat \<Rightarrow> bool) \<Rightarrow> (nat \<Rightarrow> bool) \<Rightarrow> nat \<Rightarrow> nat \<Rightarrow> d_state \<Rightarrow> bool" where
  "heads_inv ok check a fin s \<longleftrightarrow>
     (fst s \<longrightarrow> (\<exists>h. inner_structure ok check a fin h \<and> (\<forall>k. snd (snd s) k \<longleftrightarrow> k \<le> fin \<and> \<not> covered check a fin h k))) \<and>
     (\<forall>h. inner_structure ok check a fin h \<longrightarrow> fst s \<and> (\<forall>k \<le> fin. \<not> covered check a fin h k \<longrightarrow> snd (snd s) k))"

lemma nearest_head_Some:
  "nearest_head ok hik fin i = Some j \<Longrightarrow>
   i < j \<and> j \<le> fin \<and> ok i j \<and> hik j \<and> (\<forall>k. i < k \<and> k < j \<longrightarrow> \<not> (ok i k \<and> hik k))"
proof -
  assume *: "nearest_head ok hik fin i = Some j"
  then obtain x where x: "x < length [i + 1..<fin + 1]" "ok i ([i + 1..<fin + 1] ! x) \<and> hik ([i + 1..<fin + 1] ! x)"
      "j = [i + 1..<fin + 1] ! x" "\<forall>y < x. \<not> (ok i ([i + 1..<fin + 1] ! y) \<and> hik ([i + 1..<fin + 1] ! y))"
    unfolding nearest_head_def by (auto simp: find_Some_iff)
  then have j: "j = i + 1 + x" "x < fin - i" by (auto simp del: upt_Suc)
  have "\<not> (ok i k \<and> hik k)" if "i < k" "k < j" for k
    using x(4) [rule_format, of "k - (i + 1)"] that j by (auto simp del: upt_Suc)
  then show ?thesis using x(2,3) j by auto
qed

lemma nearest_head_None:
  "nearest_head ok hik fin i = None \<longleftrightarrow> (\<forall>k. i < k \<and> k \<le> fin \<longrightarrow> \<not> (ok i k \<and> hik k))"
  by (auto simp: nearest_head_def find_None_iff)

lemma covered_Suc:
  "a < fin \<Longrightarrow> covered check a fin h k \<longleftrightarrow> covered check (Suc a) fin h k \<or> (\<not> check a \<and> a < k \<and> k < h a)"
proof -
  assume "a < fin"
  then have "a \<le> i \<and> i < fin \<and> \<not> check i \<and> i < k \<and> k < h i \<longleftrightarrow>
      (Suc a \<le> i \<and> i < fin \<and> \<not> check i \<and> i < k \<and> k < h i) \<or> i = a \<and> \<not> check a \<and> a < k \<and> k < h a" for i
    by (cases "i = a") auto
  then show ?thesis unfolding covered_def by (simp only: ex_disj_distrib simp_thms)
qed

lemma covered_update: "covered check (Suc a) fin (h(a := j)) k \<longleftrightarrow> covered check (Suc a) fin h k"
  unfolding covered_def by (intro ex_cong1) auto

lemma inner_structure_update:
  "inner_structure ok check (Suc a) fin (h(a := j)) \<longleftrightarrow> inner_structure ok check (Suc a) fin h"
  unfolding inner_structure_def by (intro conj_cong all_cong1 imp_cong refl) auto

lemma inner_structure_Suc:
  "a < fin \<Longrightarrow> inner_structure ok check a fin h \<longleftrightarrow>
     inner_structure ok check (Suc a) fin h \<and>
     (\<not> check a \<longrightarrow> a < h a \<and> h a \<le> fin \<and> ok a (h a) \<and> \<not> covered check (Suc a) fin h (h a))"
  (is "_ \<Longrightarrow> ?l \<longleftrightarrow> ?r")
proof -
  assume a: "a < fin"
  show ?thesis
  proof
    assume l: ?l
    then have "\<not> covered check (Suc a) fin h (h a)" if "\<not> check a"
      using that a unfolding inner_structure_def covered_def by (metis Suc_le_eq leD order_refl)
    then show ?r using l a unfolding inner_structure_def by (metis Suc_leD order_refl)
  next
    assume r: ?r
    show ?l
      unfolding inner_structure_def
    proof (intro conjI allI impI)
      fix i assume "a \<le> i \<and> i < fin \<and> \<not> check i"
      then show "i < h i" "h i \<le> fin" "ok i (h i)"
        using r unfolding inner_structure_def by (metis Suc_leI le_neq_implies_less)+
    next
      fix i k assume ik: "a \<le> i \<and> i < k \<and> k < h i \<and> i < fin \<and> k < fin \<and> \<not> check i \<and> \<not> check k"
      show "h k \<le> h i"
      proof (cases "i = a")
        case True
        then show ?thesis using r ik unfolding covered_def by (metis Suc_leI not_le_imp_less)
      next
        case False
        then show ?thesis using r ik unfolding inner_structure_def by (metis Suc_leI le_neq_implies_less)
      qed
    qed
  qed
qed

lemma head_step_inv:
  assumes inv: "heads_inv ok check (Suc a) fin s" and a: "a < fin"
  shows "heads_inv ok check a fin (head_step ok check fin a s)"
proof -
  obtain b found hik where s: "s = (b, found, hik)" by (cases s)
  show ?thesis
  proof (cases "check a")
    case True
    then show ?thesis using inv a
      by (simp add: heads_inv_def s head_step_def inner_structure_Suc covered_Suc)
  next
    case False
    show ?thesis
    proof (cases "nearest_head ok hik fin a")
      case None
      have "\<not> inner_structure ok check a fin h" for h
      proof
        assume h: "inner_structure ok check a fin h"
        then have "inner_structure ok check (Suc a) fin h" "a < h a" "h a \<le> fin" "ok a (h a)"
            "\<not> covered check (Suc a) fin h (h a)"
          using False a by (simp_all add: inner_structure_Suc)
        then have "hik (h a)" using inv by (simp add: heads_inv_def s)
        then show False using None \<open>a < h a\<close> \<open>h a \<le> fin\<close> \<open>ok a (h a)\<close> by (simp add: nearest_head_None)
      qed
      then show ?thesis using None False by (simp add: heads_inv_def s head_step_def)
    next
      case (Some j)
      note j = nearest_head_Some [OF Some]
      let ?hik = "\<lambda>k. if a < k \<and> k < j then False else hik k"
      have step: "head_step ok check fin a s = (b, found(a := True), ?hik)"
        using Some False by (simp add: s head_step_def)
      have sound: "\<exists>h. inner_structure ok check a fin h \<and> (\<forall>k. ?hik k \<longleftrightarrow> k \<le> fin \<and> \<not> covered check a fin h k)" if b
      proof -
        obtain h where h: "inner_structure ok check (Suc a) fin h" "\<And>k. hik k \<longleftrightarrow> k \<le> fin \<and> \<not> covered check (Suc a) fin h k"
          using inv \<open>b\<close> by (auto simp: heads_inv_def s)
        have "inner_structure ok check a fin (h(a := j))"
          using j h a False by (simp add: inner_structure_Suc inner_structure_update covered_update)
        moreover have "?hik k \<longleftrightarrow> k \<le> fin \<and> \<not> covered check a fin (h(a := j)) k" for k
          using h(2) a False by (simp add: covered_Suc covered_update)
        ultimately show ?thesis by blast
      qed
      have complete: "b \<and> (\<forall>k \<le> fin. \<not> covered check a fin h k \<longrightarrow> ?hik k)" if h: "inner_structure ok check a fin h" for h
      proof -
        have h': "inner_structure ok check (Suc a) fin h" "a < h a" "h a \<le> fin" "ok a (h a)" "\<not> covered check (Suc a) fin h (h a)"
          using h False a by (simp_all add: inner_structure_Suc)
        then have b: "b \<and> (\<forall>k \<le> fin. \<not> covered check (Suc a) fin h k \<longrightarrow> hik k)" using inv by (simp add: heads_inv_def s)
        then have "hik (h a)" using h' by blast
        then have "j \<le> h a" using j h' by (metis not_le_imp_less)
        then show ?thesis using b a False by (auto simp: covered_Suc)
      qed
      show ?thesis unfolding step heads_inv_def fst_conv snd_conv using sound complete by blast
    qed
  qed
qed

lemma heads_inv_fold:
  "str \<le> fin \<Longrightarrow> heads_inv ok check str fin (fold (head_step ok check fin) (rev [str..<fin]) (True, found, \<lambda>k. k \<le> fin))"
proof (induction str rule: inc_induct)
  case base
  have "inner_structure ok check fin fin h" "\<not> covered check fin fin h k" for h k
    by (auto simp: inner_structure_def covered_def)
  then show ?case by (simp add: heads_inv_def)
next
  case (step n)
  then show ?case using head_step_inv [OF step.IH] by (simp add: upt_conv_Cons)
qed

text \<open>
  C2. The check of a part, which gives every bunsetsu the nearest head, succeeds exactly when the part has
  any structure without crossing dependencies.
\<close>

theorem check_d_struct_complete:
  assumes "str \<le> fin"
  shows "fst (check_d_struct ok check stop str fin extend_p limit found) \<longleftrightarrow> (\<exists>h. inner_structure ok check str fin h)"
  using heads_inv_fold [OF assms, of ok check "found(fin := True)"]
  by (auto simp: check_d_struct_def heads_inv_def split: prod.splits)

section \<open>The mask of a coordination\<close>

text \<open>Parts that are not empty, one after the other, up to a bunsetsu before \<open>n\<close>.\<close>

definition parts_ordered :: "nat \<Rightarrow> PARA_MANAGER \<Rightarrow> bool" where
  "parts_ordered n m \<longleftrightarrow>
     parts_chain m \<and> (\<forall>k < length (pm_start m). pm_start m ! k \<le> pm_end m ! k) \<and> last (pm_end m) < n"

lemma parts_orderedD:
  assumes "parts_ordered n m"
  shows "length (pm_end m) = length (pm_start m)" and "2 \<le> length (pm_start m)"
    and "Suc k < length (pm_start m) \<Longrightarrow> pm_start m ! Suc k = Suc (pm_end m ! k)"
    and "k < length (pm_start m) \<Longrightarrow> pm_start m ! k \<le> pm_end m ! k"
    and "pm_start m \<noteq> []" and "pm_end m \<noteq> []"
  using assms by (auto simp: parts_ordered_def parts_chain_def Suc_le_eq)

lemma part_end_less:
  assumes p: "parts_ordered n m" and "k < l" and l: "l < length (pm_start m)"
  shows "pm_end m ! k < pm_start m ! l"
  using assms(2) l
proof (induction l)
  case (Suc l)
  then have "pm_start m ! Suc l = Suc (pm_end m ! l)" "pm_start m ! l \<le> pm_end m ! l"
    using parts_orderedD(3,4) [OF p] by simp_all
  then show ?case using Suc by (cases "k = l") auto
qed simp

lemma part_end_inj:
  assumes "parts_ordered n m" and "k < length (pm_start m)" and "l < length (pm_start m)" and "pm_end m ! k = pm_end m ! l"
  shows "k = l"
proof (rule ccontr)
  assume "k \<noteq> l"
  then consider "k < l" | "l < k" by linarith
  then show False
    by cases (use assms part_end_less [OF assms(1), of k l] part_end_less [OF assms(1), of l k]
        parts_orderedD(4) [OF assms(1), of k] parts_orderedD(4) [OF assms(1), of l] in auto)
qed

lemma part_end_bound:
  assumes p: "parts_ordered n m" and k: "k < length (pm_start m)"
  shows "pm_end m ! k < n"
proof -
  let ?l = "length (pm_start m) - 1"
  have "pm_end m ! ?l < n"
    using p parts_orderedD(1,6) [OF p] by (simp add: parts_ordered_def last_conv_nth)
  moreover have "pm_end m ! k \<le> pm_end m ! ?l"
  proof (cases "k = ?l")
    case False
    then have "k < ?l" "?l < length (pm_start m)" using k by auto
    then show ?thesis using part_end_less [OF p, of k ?l] parts_orderedD(4) [OF p, of ?l] by linarith
  qed simp
  ultimately show ?thesis by linarith
qed

definition link_cell :: "PARA_MANAGER \<Rightarrow> nat \<Rightarrow> nat \<Rightarrow> bool" where
  "link_cell m i j \<longleftrightarrow> (\<exists>k < length (pm_start m) - 1. i = pm_end m ! k \<and> j = pm_end m ! Suc k)"

definition masked_cell :: "nat \<Rightarrow> PARA_MANAGER \<Rightarrow> nat \<Rightarrow> bool \<Rightarrow> nat \<Rightarrow> nat \<Rightarrow> bool" where
  "masked_cell n m start_pos strong i j \<longleftrightarrow>
     (i < start_pos \<and> hd (pm_start m) \<le> j \<and> j \<le> hd (pm_end m)) \<or>
     (hd (pm_start m) \<le> i \<and> i \<le> hd (pm_end m) \<and> hd (pm_end m) < j \<and> j < n) \<or>
     (strong \<and> i < hd (pm_start m) \<and> j = hd (pm_end m)) \<or>
     (\<exists>k \<in> {1..<length (pm_start m) - 1}.
        (i < pm_start m ! k \<and> pm_start m ! k \<le> j \<and> j \<le> pm_end m ! k) \<or>
        (pm_start m ! k \<le> i \<and> i \<le> pm_end m ! k \<and> pm_end m ! k < j \<and> j < n)) \<or>
     (i < last (pm_start m) \<and> last (pm_start m) \<le> j \<and> j < last (pm_end m)) \<or>
     (last (pm_start m) \<le> i \<and> i < last (pm_end m) \<and> last (pm_end m) < j \<and> j < n)"

lemma mask_links_apply: "mask_links m M i j = (if link_cell m i j then 2 else M i j)"
  unfolding mask_links_def
  by (subst for_upt_cell [where B = "\<lambda>k. i = pm_end m ! k \<and> j = pm_end m ! Suc k" and v = 2])
    (auto simp: set_cell_apply link_cell_def)

lemma mask_inner_apply:
  "for_upt 1 (length (pm_start m) - 1) (mask_inner_part n m) M i j =
   (if \<exists>k \<in> {1..<length (pm_start m) - 1}.
        (i < pm_start m ! k \<and> pm_start m ! k \<le> j \<and> j \<le> pm_end m ! k) \<or>
        (pm_start m ! k \<le> i \<and> i \<le> pm_end m ! k \<and> pm_end m ! k < j \<and> j < n) then 0 else M i j)"
  by (rule for_upt_cell)
    (simp add: mask_inner_part_def mask_part_rows_def fill_rect_apply less_Suc_eq_le Suc_le_eq)

lemma for_upt_first_index: "for_upt a b (\<lambda>i. set_cell i j v) M x y = (if a \<le> x \<and> x < b \<and> y = j then v else M x y)"
  by (subst for_upt_cell [where B = "\<lambda>i. x = i \<and> y = j" and v = v]) (auto simp: set_cell_apply)

section \<open>Properties\<close>

text \<open>
  The mask of a complete coordination, cell by cell: 2 for the links between the last bunsetsu of
  neighbouring parts, 0 for the other dependencies into or out of a part that it rules out, and the
  old value elsewhere.
\<close>

theorem mask_para_cell:
  "mask_para n m start_pos strong False found M i j =
   (if link_cell m i j then 2 else if masked_cell n m start_pos strong i j then 0 else M i j)"
proof -
  let ?s = "hd (pm_start m)" and ?t = "hd (pm_end m)" and ?sl = "last (pm_start m)" and ?tl = "last (pm_end m)"
  let ?inner = "\<exists>k \<in> {1..<length (pm_start m) - 1}.
        (i < pm_start m ! k \<and> pm_start m ! k \<le> j \<and> j \<le> pm_end m ! k) \<or>
        (pm_start m ! k \<le> i \<and> i \<le> pm_end m ! k \<and> pm_end m ! k < j \<and> j < n)"
  define M1 where "M1 = mask_part_rows n ?s ?t (fill_rect 0 start_pos ?s (?t + 1) 0 M)"
  define M2 where "M2 = (if strong then for_upt 0 ?s (\<lambda>i. set_cell i ?t 0) M1 else M1)"
  define M3 where "M3 = for_upt 1 (length (pm_start m) - 1) (mask_inner_part n m) M2"
  have merge: "(if a then v else if b then v else x) = (if a \<or> b then v else x)" for a b and v x :: int
    by simp
  have M1: "M1 i j = (if (?s \<le> i \<and> i \<le> ?t \<and> ?t < j \<and> j < n) \<or> (i < start_pos \<and> ?s \<le> j \<and> j \<le> ?t) then 0 else M i j)"
    by (simp add: M1_def mask_part_rows_def fill_rect_apply less_Suc_eq_le Suc_le_eq)
  have M2: "M2 i j = (if strong \<and> i < ?s \<and> j = ?t then 0 else M1 i j)"
    by (simp add: M2_def for_upt_first_index)
  have M3: "M3 i j = (if ?inner then 0 else M2 i j)"
    unfolding M3_def by (rule mask_inner_apply)
  have M4: "mask_last_part n m M3 i j =
      (if (?sl \<le> i \<and> i < ?tl \<and> ?tl < j \<and> j < n) \<or> (i < ?sl \<and> ?sl \<le> j \<and> j < ?tl) then 0 else M3 i j)"
    by (simp add: mask_last_part_def Let_def fill_rect_apply Suc_le_eq)
  have "mask_para n m start_pos strong False found M i j = (if link_cell m i j then 2 else mask_last_part n m M3 i j)"
    unfolding mask_para_def Let_def if_False mask_links_apply M3_def M2_def M1_def ..
  also have "\<dots> = (if link_cell m i j then 2 else if masked_cell n m start_pos strong i j then 0 else M i j)"
    unfolding M4 M3 M2 M1 merge masked_cell_def by (rule if_cong [OF refl refl if_cong [OF _ refl refl]]) blast
  finally show ?thesis .
qed

lemma link_cell_in_part:
  assumes p: "parts_ordered n m" and k: "Suc k < length (pm_start m)"
    and i: "pm_start m ! k \<le> i" "i \<le> pm_end m ! k"
  shows "link_cell m i j \<longleftrightarrow> i = pm_end m ! k \<and> j = pm_end m ! Suc k"
proof
  assume "link_cell m i j"
  then obtain l where l: "l < length (pm_start m) - 1" "i = pm_end m ! l" "j = pm_end m ! Suc l"
    unfolding link_cell_def by blast
  have "l = k"
  proof (rule ccontr)
    assume "l \<noteq> k"
    then consider "l < k" | "k < l" by linarith
    then show False
      by cases (use part_end_less [OF p, of l k] part_end_less [OF p, of k l] parts_orderedD(4) [OF p, of l] l k i in linarith)+
  qed
  then show "i = pm_end m ! k \<and> j = pm_end m ! Suc k" using l by simp
qed (use k in \<open>auto simp: link_cell_def intro!: exI [of _ k]\<close>)

lemma masked_part_rows:
  assumes p: "parts_ordered n m" and k: "Suc k < length (pm_start m)"
    and i: "pm_start m ! k \<le> i" "i \<le> pm_end m ! k" "pm_end m ! k < j" "j < n"
  shows "masked_cell n m start_pos strong i j"
proof (cases "k = 0")
  case True
  then show ?thesis using i parts_orderedD(5,6) [OF p] by (simp add: masked_cell_def hd_conv_nth)
next
  case False
  then have "k \<in> {1..<length (pm_start m) - 1}" using k by auto
  then show ?thesis using i unfolding masked_cell_def by blast
qed


section \<open>Errors of parts\<close>

lemma match_parts_here: "\<forall>(lo, p) \<in> set ps. scan_error found lo p \<noteq> None \<Longrightarrow> \<exists>is. match_parts found True True ps = Some (True, is)"
  by (induction ps) auto

text \<open>
  When the first part and the second part run out of bunsetsu without a head at the same time, the
  parts are taken to correspond whatever the later ones still hold.
\<close>

theorem later_parts_not_compared:
  assumes "scan_error found start_pos pos0 = Some i" and "i + 1 = start_pos"
    and "scan_error found lo1 p1 = Some i1" and "i1 + 1 = lo1"
    and "\<forall>(lo, p) \<in> set (zip los ps). scan_error found lo p \<noteq> None"
  shows "match_errors found start_pos (lo1 # los) pos0 (p1 # ps) = Some True"
  using assms match_parts_here [OF assms(5)]
  by (subst match_errors.simps) (auto simp: Let_def)

text \<open>
  When the first part begins the sentence, the comparison of the parts never succeeds: it finds parts
  that do not correspond or reads the array before its first element.
\<close>

theorem match_errors_at_sentence_start: "match_errors found 0 los pos0 poss \<noteq> Some True"
proof (induction found "0 :: nat" los pos0 poss rule: match_errors.induct)
  case (1 found los pos0 poss)
  then show ?case by (subst match_errors.simps) (auto split: option.splits prod.splits)
qed

section \<open>What the analysis keeps\<close>

text \<open>The keys of the coordinations and the managers.\<close>

abbreviation keys :: "'f PARA_STATE \<Rightarrow> nat list" where
  "keys S \<equiv> map key_pos (para_data S)"

lemma for_while_keeps:
  assumes "for_while f xs s = Some (b, t)" and "P s" and "\<And>x s b t. x \<in> set xs \<Longrightarrow> P s \<Longrightarrow> f x s = Some (b, t) \<Longrightarrow> P t"
  shows "P t"
  using assms
proof (induction xs arbitrary: s)
  case (Cons x xs)
  obtain c u where u: "f x s = Some (c, u)" using Cons.prems(1) by (auto split: option.splits)
  have "P u" using Cons.prems(2,3) u by (metis list.set_intros(1))
  then show ?case using Cons.prems u Cons.IH [of u] by (cases c) auto
qed simp

lemma keys_update [simp]: "map key_pos (ps[i := (ps ! i)\<lparr>manager_ptr := v\<rparr>]) = map key_pos ps"
  by (cases "i < length ps") (auto simp: map_update intro!: nth_equalityI simp: nth_list_update)

lemma group_step_keys: "group_step rel i s = Some (b, t) \<Longrightarrow> map key_pos (fst t) = map key_pos (fst s)"
proof -
  assume r: "group_step rel i s = Some (b, t)"
  show ?thesis
  proof (cases "is_active (fst s ! i)")
    case True
    then obtain m u where u: "own_manager i s = Some (m, u)" "for_while (join_manager rel i m) [i + 1..<length (fst s)] u = Some (b, t)"
      using r by (auto simp: group_step_def bind_eq_Some_conv)
    have "map key_pos (fst u) = map key_pos (fst s)"
      using u(1) by (auto simp: own_manager_def split: option.splits prod.splits)
    moreover have "map key_pos (fst t) = map key_pos (fst u)"
      by (rule for_while_keeps [OF u(2), where P = "\<lambda>w. map key_pos (fst w) = map key_pos (fst u)"])
        (auto simp: join_manager_def Let_def split: if_splits prod.splits)
    ultimately show ?thesis by simp
  qed (use r in \<open>simp add: group_step_def\<close>)
qed

lemma detect_para_relation_keys: "detect_para_relation F S = Some (b, S') \<Longrightarrow> keys S' = keys S"
proof -
  assume r: "detect_para_relation F S = Some (b, S')"
  obtain bad rel0 where loc: "locate_loop (para_data S) (active_pairs (para_data S)) (para_rel_matrix S) = (bad, rel0)"
    by (cases "locate_loop (para_data S) (active_pairs (para_data S)) (para_rel_matrix S)")
  show ?thesis
  proof (cases bad)
    case (Some ij)
    then show ?thesis using r loc by (auto simp: detect_para_relation_def revise_para_rel_def Let_def split: prod.splits)
  next
    case None
    define ps0 where "ps0 = init_para_manager (para_data S)"
    define rel where "rel = revise_between ps0 (promote_brothers ps0 rel0)"
    obtain c ps ms where grp: "for_while (group_step rel) [0..<length ps0] (ps0, []) = Some (c, ps, ms)" and "para_data S' = ps"
      using r loc None
      by (auto simp: detect_para_relation_def Let_def ps0_def [symmetric] rel_def [symmetric] bind_eq_Some_conv split: if_splits)
    moreover have "map key_pos (fst (ps, ms)) = map key_pos ps0"
      by (rule for_while_keeps [OF grp, where P = "\<lambda>w. map key_pos (fst w) = map key_pos ps0"]) (auto dest: group_step_keys)
    ultimately show ?thesis by (simp add: ps0_def init_para_manager_def comp_def)
  qed
qed

text \<open>The check of dependencies keeps the sentence, the coordinations and the managers.\<close>

definition same_para :: "'f PARA_STATE \<Rightarrow> 'f PARA_STATE \<Rightarrow> bool" where
  "same_para S S' \<longleftrightarrow> pa_sp S' = pa_sp S \<and> para_data S' = para_data S \<and> para_manager S' = para_manager S"

lemma same_para_refl [simp]: "same_para S S" by (simp add: same_para_def)

lemma same_para_trans [trans]: "same_para S S' \<Longrightarrow> same_para S' S'' \<Longrightarrow> same_para S S''" by (simp add: same_para_def)

lemma same_para_steps [simp]:
  "same_para S (set_restrict m S)" "same_para S (noun_coordination m' S)" "same_para S (close_para m' p b S)"
  by (simp_all add: same_para_def set_restrict_def noun_coordination_def close_para_def)

lemma check_state_same: "check_state S str fin extend_p limit = (b, s, S') \<Longrightarrow> same_para S S'"
  by (auto simp: check_state_def same_para_def split: prod.splits)

lemma restrict_end_same: "same_para S (restrict_end key j S)"
proof -
  obtain b s S' where c: "check_state S (key + 1) j False 0 = (b, s, S')" by (cases "check_state S (key + 1) j False 0")
  then show ?thesis using check_state_same [OF c] same_para_trans [OF check_state_same [OF c]]
    by (simp add: restrict_end_def)
qed

lemma revise_para_kakari_same: "revise_para_kakari num S = Some S' \<Longrightarrow> same_para S S'"
proof -
  assume r: "revise_para_kakari num S = Some S'"
  define key where "key = key_pos (para_data S ! num)"
  define S1 where "S1 = set_restrict (\<lambda>i j. if i < j \<and> j < Bnst_num (pa_sp S) then 1 else restrict_matrix (pa_scope S) i j) S"
  obtain b s S2 where c: "check_state S1 0 key False 0 = (b, s, S2)" by (cases "check_state S1 0 key False 0")
  obtain S3 where S3: "S3 = S2 \<or> (\<exists>m. S3 = set_restrict m S2)"
      "S' = (for_upt (key + 2) (Bnst_num (pa_sp S)) (restrict_end key) S3)\<lparr>Revised_para_num := int num\<rparr>"
    using r c by (auto simp: revise_para_kakari_def Let_def key_def S1_def bind_eq_Some_conv split: if_splits)
  have "same_para S S1" by (simp add: S1_def)
  also have "same_para S1 S2" using check_state_same [OF c] .
  also have "same_para S2 S3" using S3(1) by auto
  also have "same_para S3 (for_upt (key + 2) (Bnst_num (pa_sp S)) (restrict_end key) S3)"
    by (rule for_upt_keeps) (auto intro: same_para_trans restrict_end_same)
  finally show ?thesis using S3(2) by (simp add: same_para_def)
qed

lemma check_parts_same: "check_parts m S = (p, error, S') \<Longrightarrow> same_para S S'"
proof -
  assume r: "check_parts m S = (p, error, S')"
  have "same_para S (snd (snd (fold (check_part m) ks s)))" if "same_para S (snd (snd s))" for ks s
    using that
  proof (induction ks arbitrary: s)
    case (Cons k ks)
    have "same_para (snd (snd s)) (snd (snd (check_part m k s)))"
      by (auto simp: check_part_def dest!: check_state_same split: prod.splits)
    then show ?case using Cons same_para_trans by (simp only: fold_simps comp_apply) blast
  qed simp
  from this [of "(hd (pm_start m), [], S)" "[0..<length (pm_start m)]"] show ?thesis using r by (simp add: check_parts_def)
qed

lemma check_own_struct_same: "check_own_struct m S = Some (b, S') \<Longrightarrow> same_para S S'"
proof -
  assume r: "check_own_struct m S = Some (b, S')"
  obtain p error S1 where c: "check_parts m (noun_coordination m S) = (p, error, S1)"
    by (cases "check_parts m (noun_coordination m S)")
  have S1: "same_para S S1" using check_parts_same [OF c] same_para_trans same_para_steps(2) by blast
  have "same_para S1 S'"
    using r c by (auto simp: check_own_struct_def bind_eq_Some_conv dest: revise_para_kakari_same split: if_splits option.splits)
  with S1 show ?thesis by (rule same_para_trans)
qed

lemma check_para_d_struct_same: "check_para_d_struct d m S = Some (b, S') \<Longrightarrow> same_para S S'"
proof (induction d arbitrary: m S b S')
  case (Suc d)
  then obtain c S1 where S1: "for_while (check_para_d_struct d) (pm_child (para_manager S ! m)) S = Some (c, S1)"
      "(if c then check_own_struct (para_manager S ! m) S1 else Some (False, S1)) = Some (b, S')"
    by (auto simp: bind_eq_Some_conv)
  have "same_para S S1"
    by (rule for_while_keeps [OF S1(1)]) (auto intro: same_para_trans Suc.IH)
  then show ?case using S1(2) same_para_trans [OF _ check_own_struct_same] by (cases c) auto
qed simp

lemma check_dpnd_in_para_same: "check_dpnd_in_para S = Some (b, S') \<Longrightarrow> same_para S S'"
  unfolding check_dpnd_in_para_def Let_def
  by (erule for_while_keeps)
    (auto simp: same_para_def [of S "S\<lparr>pa_matrices := _, D_check_array := _\<rparr>"] intro: same_para_trans
      dest: check_para_d_struct_same split: if_splits simp del: check_para_d_struct.simps)

text \<open>The search for a scope keeps the key.\<close>

definition keeps_key :: "nat \<Rightarrow> ('f PARA_DATA \<times> 'b) option \<Rightarrow> bool" where
  "keeps_key k r \<longleftrightarrow> (\<forall>p s. r = Some (p, s) \<longrightarrow> key_pos p = k)"

lemma keeps_key_intros:
  "key_pos p = k \<Longrightarrow> keeps_key k (Some (p, s))"
  "(c \<Longrightarrow> keeps_key k a) \<Longrightarrow> (\<not> c \<Longrightarrow> keeps_key k b) \<Longrightarrow> keeps_key k (if c then a else b)"
  "(\<And>y. x = Some y \<Longrightarrow> keeps_key k (f y)) \<Longrightarrow> keeps_key k (Option.bind x f)"
  "(\<And>y z. u = (y, z) \<Longrightarrow> keeps_key k (g y z)) \<Longrightarrow> keeps_key k (case u of (y, z) \<Rightarrow> g y z)"
  by (auto simp: keeps_key_def bind_eq_Some_conv split: prod.splits)

lemma detect_para_scope_from_key:
  "detect_para_scope_from F e Language sp n j p S st = Some (p', S', st') \<Longrightarrow> key_pos p' = key_pos p"
proof -
  have "keeps_key (key_pos p) (detect_para_scope_from F e Language sp n j p S st)"
    unfolding detect_para_scope_from_def Let_def by (intro keeps_key_intros) simp_all
  then show "detect_para_scope_from F e Language sp n j p S st = Some (p', S', st') \<Longrightarrow> key_pos p' = key_pos p"
    by (simp add: keeps_key_def)
qed

lemma detect_para_scope_key:
  assumes "detect_para_scope F e Language parsed sp q n r p S st = Some (p', S', st')"
  shows "key_pos p' = key_pos p"
proof -
  have "key_pos (fst t) = k"
    if "fold_option (\<lambda>j (p, S, st). detect_para_scope_from F e Language sp n j p S st) js s = Some t" "key_pos (fst s) = k" for js s t k
    using that by (rule fold_option_invariant) (auto dest: detect_para_scope_from_key)
  then show ?thesis
    using assms
    by (fastforce simp: detect_para_scope_def Let_def bind_eq_Some_conv dest: detect_para_scope_from_key split: if_splits)
qed

lemma redetect_keys: "redetect F e Language parsed q S = Some S' \<Longrightarrow> keys S' = keys S"
  by (auto simp: redetect_def bind_eq_Some_conv Let_def map_update split: if_splits dest!: detect_para_scope_key)
    (metis list_update_id nth_map)


section \<open>Examples\<close>

theorem check_d_struct_complete_witness:
  "fst (check_d_struct (\<lambda>i j. j = i + 1) (\<lambda>_. False) (\<lambda>_. False) 0 2 False 0 (\<lambda>_. False)) \<and>
   (\<exists>h. inner_structure (\<lambda>i j. j = i + 1) (\<lambda>_. False) 0 2 h)"
proof -
  have "fst (check_d_struct (\<lambda>i j. j = i + 1) (\<lambda>_. False) (\<lambda>_. False) 0 2 False 0 (\<lambda>_. False))"
    by (simp add: check_d_struct_def head_step_def nearest_head_def upt_rec)
  then show ?thesis
    using check_d_struct_complete [of 0 2 "\<lambda>i j. j = i + 1" "\<lambda>_. False" "\<lambda>_. False" False 0 "\<lambda>_. False"] by simp
qed

definition sample_manager :: PARA_MANAGER where
  "sample_manager =
     \<lparr>pm_para_data = [0, 1], pm_start = [0, 2, 4], pm_end = [1, 3, 5], pm_parent = None, pm_child = [],
      pm_status = CHR ''s''\<rparr>"

lemma sample_parts_ordered: "parts_ordered 7 sample_manager"
  by (simp add: parts_ordered_def parts_chain_def sample_manager_def less_Suc_eq numeral_3_eq_3 numeral_2_eq_2)


theorem later_parts_not_compared_witness:
  "match_errors (\<lambda>i. i \<noteq> 4) 1 [2, 4] 1 [3, 5] = Some True"
proof -
  have "scan_error (\<lambda>i. i \<noteq> 4) 1 1 = Some 0" "scan_error (\<lambda>i. i \<noteq> 4) 2 3 = Some 1"
    "scan_error (\<lambda>i. i \<noteq> 4) 4 5 = Some 4"
    by (simp_all add: eval_nat_numeral)
  then show ?thesis
    using later_parts_not_compared [of "\<lambda>i. i \<noteq> 4" 1 1 0 2 3 1 "[4]" "[5]"] by simp
qed

lemma sample_relation:
  "\<exists>S'. detect_para_relation sample_float ((sample_para_state 3 [(0, 0, 1, CHR ''n'')])\<lparr>pa_sp := sp\<rparr>) = Some (True, S') \<and>
     para_manager S' = [\<lparr>pm_para_data = [0], pm_start = [0, 1], pm_end = [0, 1], pm_parent = None, pm_child = [],
       pm_status = CHR ''w''\<rparr>]"
  by (simp add: relation_eval)

lemma sample_check:
  assumes "para_manager S = [\<lparr>pm_para_data = [0], pm_start = [0, 1], pm_end = [0, 1], pm_parent = None, pm_child = [],
       pm_status = CHR ''w''\<rparr>]"
  shows "\<exists>S'. check_dpnd_in_para S = Some (True, S')"
  by (simp add: assms check_dpnd_in_para_def Let_def check_own_struct_def check_parts_def check_part_def check_state_def
      check_d_struct_def noun_coordination_def upt_rec split: prod.splits)

lemma sample_para_loop:
  "\<exists>S'. para_loop sample_float sample_env JAPANESE False \<lparr>in_num = \<lambda>_. -1, out_num = \<lambda>_. -1\<rparr> 0 0
     (sample_para_state 3 [(0, 0, 1, CHR ''n'')]) = Some (True, S')"
proof -
  obtain S1 where S1: "detect_para_relation sample_float ((sample_para_state 3 [(0, 0, 1, CHR ''n'')])\<lparr>pa_sp :=
        assign_para_similarity_feature sample_float (para_data (sample_para_state 3 [(0, 0, 1, CHR ''n'')]))
          (pa_sp (sample_para_state 3 [(0, 0, 1, CHR ''n'')]))\<rparr>) = Some (True, S1)"
    "para_manager S1 = [\<lparr>pm_para_data = [0], pm_start = [0, 1], pm_end = [0, 1], pm_parent = None, pm_child = [],
       pm_status = CHR ''w''\<rparr>]"
    using sample_relation by blast
  obtain S2 where "check_dpnd_in_para S1 = Some (True, S2)" using sample_check [OF S1(2)] ..
  then show ?thesis using S1(1) by (subst para_loop.simps) (simp add: para_pass_def)
qed


end
