(* ===== verification/Knp_Tree.thy ===== *)
theory Knp_Tree
  imports Knp_Para "HOL-Library.Multiset"
begin

text \<open>
  The tree of the bunsetsu (\<open>src/system/tree_conv.c\<close>): the links from heads to dependants, the nodes
  that stand for a whole coordination, and the optional distribution of modifiers over the conjuncts.

  A node has an array of \<open>PARA_PART_MAX\<close> pointers to its children that ends with a null pointer, so at
  most 31 of them; a write behind the array is \<open>None\<close>. The flag \<open>OptExpandP\<close>, the coordinations and
  their managers are arguments, and so is \<open>Mask_matrix\<close>.
\<close>

section \<open>The model\<close>

subsection \<open>Links between nodes\<close>

fun ptr_index :: "ptr \<Rightarrow> nat" where
  "ptr_index (BnstP i) = i"
| "ptr_index (TagP i) = i"
| "ptr_index (MrphP i) = i"

abbreviation kids :: "SENTENCE_DATA \<Rightarrow> nat \<Rightarrow> ptr list" where
  "kids sp i \<equiv> n_child (bnst_data sp ! i)"

abbreviation parent_of :: "SENTENCE_DATA \<Rightarrow> nat \<Rightarrow> ptr option" where
  "parent_of sp i \<equiv> n_parent (bnst_data sp ! i)"

abbreviation merged :: "SENTENCE_DATA \<Rightarrow> nat \<Rightarrow> bool" where
  "merged sp i \<equiv> n_num (bnst_data sp ! i) = -1"

definition init_bnst_tree_property :: "SENTENCE_DATA \<Rightarrow> SENTENCE_DATA" where
  "init_bnst_tree_property sp =
     sp\<lparr>bnst_data := map (\<lambda>b. b\<lparr>n_parent := None, n_child := [], n_para_top_p := False,
                              n_para_type := PARA_NIL, n_to_para_p := False\<rparr>) (bnst_data sp)\<rparr>"

text \<open>The array of children with a new one at a position, or at the end for the position -1.\<close>

definition add_child :: "ptr \<Rightarrow> int \<Rightarrow> ptr list \<Rightarrow> ptr list option" where
  "add_child c pos cs =
     (if pos = -1 then if length cs + 1 < PARA_PART_MAX then Some (cs @ [c]) else None
      else if pos < 0 \<or> int PARA_PART_MAX \<le> pos then None
      else if length cs < nat pos then Some cs
      else if length cs + 1 < PARA_PART_MAX then Some (take (nat pos) cs @ c # drop (nat pos) cs) else None)"

definition t_add_node :: "nat \<Rightarrow> nat \<Rightarrow> int \<Rightarrow> SENTENCE_DATA \<Rightarrow> SENTENCE_DATA option" where
  "t_add_node p c pos sp =
     map_option (\<lambda>cs. set_bnst p (\<lambda>b. b\<lparr>n_child := cs\<rparr>) sp) (add_child (BnstP c) pos (kids sp p))"

definition t_attach_node :: "nat \<Rightarrow> nat \<Rightarrow> int \<Rightarrow> SENTENCE_DATA \<Rightarrow> SENTENCE_DATA option" where
  "t_attach_node p c pos sp = t_add_node p c pos (set_bnst c (\<lambda>b. b\<lparr>n_parent := Some (BnstP p)\<rparr>) sp)"

definition t_del_node :: "nat \<Rightarrow> nat \<Rightarrow> SENTENCE_DATA \<Rightarrow> SENTENCE_DATA" where
  "t_del_node p c sp =
     set_bnst c (\<lambda>b. b\<lparr>n_parent := None\<rparr>)
       (set_bnst p (\<lambda>b. b\<lparr>n_child := remove1 (BnstP c) (n_child b)\<rparr>) sp)"

subsection \<open>The simple tree\<close>

text \<open>
  The heads of the nodes: those of the analysis, except that the parts of a coordination, and the
  incomplete ones, depend on the last part.
\<close>

definition manager_heads :: "int matrix \<Rightarrow> PARA_MANAGER \<Rightarrow> (nat \<Rightarrow> int) \<Rightarrow> nat \<Rightarrow> int" where
  "manager_heads msk m buffer =
     (let h = int (last (pm_end m)) in
      for_upt 0 (length (pm_end m) - 1)
        (\<lambda>j buffer. for_upt (pm_start m ! j) (Suc (pm_end m ! j))
           (\<lambda>k buffer. if msk k (pm_end m ! j) = 3 then buffer(k := h) else buffer)
           (buffer(pm_end m ! j := h))) buffer)"

definition tree_heads :: "int matrix \<Rightarrow> PARA_MANAGER list \<Rightarrow> SENTENCE_DATA \<Rightarrow> nat \<Rightarrow> int" where
  "tree_heads msk ms sp = fold (manager_heads msk) ms (\<lambda>i. n_dpnd_head (bnst_data sp ! i))"

text \<open>
  The links to the bunsetsu \<open>j\<close>. A bunsetsu that postprocessing merged into the one before hands its
  dependants over to that one, in \<open>pre\<close>. At the 32nd child the loop stops and the last one is dropped.
\<close>

definition push :: "'a \<Rightarrow> 'a list \<Rightarrow> 'a list option" where
  "push x xs = (if length xs < PARA_PART_MAX then Some (xs @ [x]) else None)"

definition link_parent :: "int matrix \<Rightarrow> nat \<Rightarrow> nat \<Rightarrow> SENTENCE_DATA \<Rightarrow> SENTENCE_DATA" where
  "link_parent msk i j sp =
     set_bnst i (\<lambda>b. b\<lparr>n_parent := Some (BnstP (if merged sp j then j - 1 else j)),
                       n_para_type := (if msk i j = 3 then PARA_INCOMP else n_para_type b)\<rparr>) sp"

fun link_row ::
  "(nat \<Rightarrow> int) \<Rightarrow> int matrix \<Rightarrow> nat \<Rightarrow> nat list \<Rightarrow> nat list \<times> nat list \<times> SENTENCE_DATA \<Rightarrow>
     (nat list \<times> nat list \<times> SENTENCE_DATA) option" where
  "link_row heads msk j [] s = Some s"
| "link_row heads msk j (i # is) (pre, cs, sp) =
     (if merged sp i \<or> heads i \<noteq> int j \<or> (merged sp j \<and> j - i = 1) then link_row heads msk j is (pre, cs, sp)
      else do {
        pre' \<leftarrow> (if merged sp j then push i pre else Some pre);
        cs' \<leftarrow> (if merged sp j then Some cs else push i cs);
        if PARA_PART_MAX \<le> length cs' then Some (pre', take (PARA_PART_MAX - 1) cs', sp)
        else link_row heads msk j is (pre', cs', link_parent msk i j sp) })"

definition link_step ::
  "(nat \<Rightarrow> int) \<Rightarrow> int matrix \<Rightarrow> nat \<Rightarrow> nat list \<times> SENTENCE_DATA \<Rightarrow> (nat list \<times> SENTENCE_DATA) option" where
  "link_step heads msk j = (\<lambda>(pre, sp).
     do { (pre', cs, sp') \<leftarrow> link_row heads msk j (rev [0..<j]) ([], pre, sp);
          if length cs < PARA_PART_MAX
          then Some (pre', set_bnst j (\<lambda>b. b\<lparr>n_child := map BnstP cs\<rparr>) sp') else None })"

text \<open>The exchange sort of an array of children, by decreasing number.\<close>

definition exchange :: "('a \<Rightarrow> int) \<Rightarrow> nat \<Rightarrow> nat \<Rightarrow> 'a list \<Rightarrow> 'a list" where
  "exchange num i k xs = (if num (xs ! i) < num (xs ! k) then xs[i := xs ! k, k := xs ! i] else xs)"

definition sort_children :: "('a \<Rightarrow> int) \<Rightarrow> 'a list \<Rightarrow> 'a list" where
  "sort_children num xs =
     (if length xs < 2 then xs
      else for_upt 0 (length xs - 1) (\<lambda>i. for_upt (Suc i) (length xs) (exchange num i)) xs)"

definition sort_node :: "nat \<Rightarrow> SENTENCE_DATA \<Rightarrow> SENTENCE_DATA" where
  "sort_node j sp =
     set_bnst j (\<lambda>b. b\<lparr>n_child := sort_children (\<lambda>c. n_num (bnst_data sp ! ptr_index c)) (n_child b)\<rparr>) sp"

definition make_simple_tree :: "int matrix \<Rightarrow> PARA_MANAGER list \<Rightarrow> SENTENCE_DATA \<Rightarrow> SENTENCE_DATA option" where
  "make_simple_tree msk ms sp =
     do { (_, sp') \<leftarrow> fold_option (link_step (tree_heads msk ms sp) msk) (rev [0..<Bnst_num sp]) ([], sp);
          Some (fold sort_node (rev [0..<Bnst_num sp]) sp') }"

subsection \<open>Strong coordinations\<close>

text \<open>The node of the second conjunct that the path aligns with a node of the first; none for a null pointer.\<close>

definition strong_corr_node :: "'f PARA_DATA \<Rightarrow> nat option \<Rightarrow> nat option" where
  "strong_corr_node p b =
     (case b of None \<Rightarrow> None
      | Some b \<Rightarrow> map_option (\<lambda>i. key_pos p + i + 1)
                    (find (\<lambda>i. max_path p i = int b) (rev [0..<jend_pos p - key_pos p])))"

definition strong_add ::
  "'f PARA_DATA list \<Rightarrow> nat \<Rightarrow> nat \<Rightarrow> nat \<Rightarrow> nat option \<times> SENTENCE_DATA \<Rightarrow> (nat option \<times> SENTENCE_DATA) option" where
  "strong_add ps first c k = (\<lambda>(bb, sp).
     do { p \<leftarrow> at ps (first + k);
          case strong_corr_node p bb of
            None \<Rightarrow> Some (None, sp)
          | Some b \<Rightarrow> map_option (Pair (Some b)) (t_add_node b c (-1) sp) })"

definition strong_child ::
  "'f PARA_DATA list \<Rightarrow> PARA_MANAGER \<Rightarrow> nat \<Rightarrow> nat \<Rightarrow> SENTENCE_DATA \<Rightarrow> SENTENCE_DATA option" where
  "strong_child ps m i j sp =
     (if j < length (kids sp i) \<and> ptr_index (kids sp i ! j) < hd (pm_start m) then
        let c = ptr_index (kids sp i ! j) in
        map_option snd
          (fold_option (strong_add ps (hd (pm_para_data m)) c) [0..<length (pm_para_data m)]
             (Some i, set_bnst c (\<lambda>b. b\<lparr>n_to_para_p := True\<rparr>) sp))
      else Some sp)"

definition strong_expand :: "'f PARA_DATA list \<Rightarrow> PARA_MANAGER \<Rightarrow> SENTENCE_DATA \<Rightarrow> SENTENCE_DATA option" where
  "strong_expand ps m sp =
     (if is_strong (ps ! hd (pm_para_data m))
      then fold_option (\<lambda>i. fold_option (strong_child ps m i) [0..<PARA_PART_MAX - 1])
             [hd (pm_start m)..<hd (pm_end m)] sp
      else Some sp)"

text \<open>The recursion over the forest of managers takes its depth as an argument.\<close>

primrec strong_para_expand ::
  "nat \<Rightarrow> 'f PARA_DATA list \<Rightarrow> PARA_MANAGER list \<Rightarrow> nat \<Rightarrow> SENTENCE_DATA \<Rightarrow> SENTENCE_DATA option" where
  "strong_para_expand 0 ps ms m sp = None"
| "strong_para_expand (Suc n) ps ms m sp =
     Option.bind (fold_option (strong_para_expand n ps ms) (pm_child (ms ! m)) sp) (strong_expand ps (ms ! m))"

subsection \<open>Nodes for coordinations\<close>

text \<open>The last bunsetsu up to \<open>num\<close> that was not merged; \<open>None\<close> when there is none, which the code turns into the index -1.\<close>

definition get_correct_postprocessed_bnst_num :: "SENTENCE_DATA \<Rightarrow> nat \<Rightarrow> nat option" where
  "get_correct_postprocessed_bnst_num sp n = find (\<lambda>i. \<not> merged sp i) (rev [0..<Suc n])"

text \<open>A write to the first entry of the array that the list does not have yet, or to an earlier one.\<close>

definition put_bnst :: "nat \<Rightarrow> BNST_DATA \<Rightarrow> SENTENCE_DATA \<Rightarrow> SENTENCE_DATA option" where
  "put_bnst i b sp =
     (if i < length (bnst_data sp) then Some (set_bnst i (\<lambda>_. b) sp)
      else if i = length (bnst_data sp) then Some (sp\<lparr>bnst_data := bnst_data sp @ [b]\<rparr>) else None)"

text \<open>A child of \<open>end\<close> that lies after the previous part moves to the new node.\<close>

definition move_child :: "nat \<Rightarrow> nat \<Rightarrow> nat \<Rightarrow> nat \<Rightarrow> SENTENCE_DATA \<Rightarrow> SENTENCE_DATA option" where
  "move_child e pre new _ sp =
     (case kids sp e of
        _ # c # _ \<Rightarrow>
          if pre < ptr_index c \<and> n_para_type (bnst_data sp ! ptr_index c) \<noteq> PARA_INCOMP
          then t_attach_node new (ptr_index c) (-1) (t_del_node e (ptr_index c) sp) else Some sp
      | _ \<Rightarrow> Some sp)"

definition mark_part :: "nat \<Rightarrow> SENTENCE_DATA \<Rightarrow> SENTENCE_DATA option" where
  "mark_part i sp =
     map_option (\<lambda>b. set_bnst b (\<lambda>b. b\<lparr>n_para_type := PARA_NORMAL\<rparr>) sp) (get_correct_postprocessed_bnst_num sp i)"

definition insert_top :: "PARA_MANAGER \<Rightarrow> nat \<Rightarrow> nat \<Rightarrow> SENTENCE_DATA \<Rightarrow> SENTENCE_DATA option" where
  "insert_top m e pre sp =
     (let new = Bnst_num sp + New_Bnst_num sp - 1 in
      do { sp1 \<leftarrow> put_bnst new ((bnst_data sp ! e)\<lparr>n_child := []\<rparr>) sp;
           sp2 \<leftarrow> t_attach_node e new 0 sp1;
           sp3 \<leftarrow> fold_option (move_child e pre new) [0..<PARA_PART_MAX - 1] sp2;
           fold_option mark_part (butlast (pm_end m))
             (set_bnst new (\<lambda>b. b\<lparr>n_para_type := PARA_NORMAL\<rparr>)
                (set_bnst e (\<lambda>b. b\<lparr>n_para_type := PARA_NIL, n_para_top_p := True\<rparr>) sp3)) })"

definition top_expand :: "PARA_MANAGER \<Rightarrow> SENTENCE_DATA \<Rightarrow> (bool \<times> SENTENCE_DATA) option" where
  "top_expand m sp =
     do { e \<leftarrow> get_correct_postprocessed_bnst_num sp (last (pm_end m));
          pre \<leftarrow> get_correct_postprocessed_bnst_num sp (last (butlast (pm_end m)));
          let sp' = sp\<lparr>New_Bnst_num := New_Bnst_num sp + 1\<rparr> in
          if Bnst_num sp' + New_Bnst_num sp' > BNST_MAX then Some (False, sp')
          else map_option (Pair True)
                 (insert_top m e pre (sp'\<lparr>Max_New_Bnst_num := max (Max_New_Bnst_num sp') (New_Bnst_num sp')\<rparr>)) }"

primrec para_top_expand ::
  "nat \<Rightarrow> PARA_MANAGER list \<Rightarrow> nat \<Rightarrow> SENTENCE_DATA \<Rightarrow> (bool \<times> SENTENCE_DATA) option" where
  "para_top_expand 0 ms m sp = None"
| "para_top_expand (Suc n) ms m sp =
     do { (ok, sp') \<leftarrow> for_while (para_top_expand n ms) (pm_child (ms ! m)) sp;
          if ok then top_expand (ms ! m) sp' else Some (False, sp') }"

subsection \<open>Modifiers of coordinations\<close>

text \<open>
  A modifier of the whole coordination becomes a child of each conjunct, and its entry in the array a
  null pointer. The loop reads the entries behind it all the same, as \<open>cs\<close>, but they are no children any more.
\<close>

definition share_modifier :: "nat \<Rightarrow> ptr list \<Rightarrow> nat \<Rightarrow> SENTENCE_DATA \<Rightarrow> SENTENCE_DATA option" where
  "share_modifier p cs i sp =
     (let c = ptr_index (cs ! i) in
      if n_para_type (bnst_data sp ! c) = PARA_NIL \<and> check_feature (bnst_f sp c) s_k_renyou = None then
        do { sp' \<leftarrow> fold_option
               (\<lambda>d sp. if n_para_type (bnst_data sp ! ptr_index d) = PARA_NORMAL
                       then t_add_node (ptr_index d) c (-1) sp else Some sp) (kids sp p)
               (set_bnst c (\<lambda>b. b\<lparr>n_to_para_p := True\<rparr>) sp);
             Some (set_bnst p (\<lambda>b. b\<lparr>n_child := take i (n_child b)\<rparr>) sp') }
      else Some sp)"

primrec para_modifier_expand :: "nat \<Rightarrow> nat \<Rightarrow> SENTENCE_DATA \<Rightarrow> SENTENCE_DATA option" where
  "para_modifier_expand 0 p sp = None"
| "para_modifier_expand (Suc n) p sp =
     do { sp' \<leftarrow> (if n_para_top_p (bnst_data sp ! p)
                  then fold_option (share_modifier p (kids sp p)) [0..<length (kids sp p)] sp else Some sp);
          fold_option (\<lambda>i sp. if i < length (kids sp p) then para_modifier_expand n (ptr_index (kids sp p ! i)) sp
                              else Some sp) [0..<PARA_PART_MAX - 1] sp' }"

subsection \<open>The dependency tree\<close>

definition root_managers :: "PARA_MANAGER list \<Rightarrow> nat list" where
  "root_managers ms = filter (\<lambda>m. pm_parent (ms ! m) = None) [0..<length ms]"

definition make_dpnd_tree ::
  "bool \<Rightarrow> int matrix \<Rightarrow> 'f PARA_DATA list \<Rightarrow> PARA_MANAGER list \<Rightarrow> SENTENCE_DATA \<Rightarrow> (bool \<times> SENTENCE_DATA) option" where
  "make_dpnd_tree OptExpandP msk ps ms sp =
     do { sp1 \<leftarrow> make_simple_tree msk ms ((init_bnst_tree_property sp)\<lparr>New_Bnst_num := 0\<rparr>);
          sp2 \<leftarrow> (if OptExpandP then fold_option (strong_para_expand (Suc (length ms)) ps ms) (root_managers ms) sp1
                  else Some sp1);
          (ok, sp3) \<leftarrow> for_while (para_top_expand (Suc (length ms)) ms) (root_managers ms) sp2;
          if ok \<and> OptExpandP
          then map_option (Pair True) (para_modifier_expand (Suc (length (bnst_data sp3))) (Bnst_num sp3 - 1) sp3)
          else Some (ok, sp3) }"

section \<open>Updates of nodes\<close>

named_theorems node \<open>what the updates of the tree leave in each node\<close>

lemma set_bnst_sel [node, simp]:
  "length (bnst_data (set_bnst i f sp)) = length (bnst_data sp)"
  "Bnst_num (set_bnst i f sp) = Bnst_num sp"
  "New_Bnst_num (set_bnst i f sp) = New_Bnst_num sp"
  by (simp_all add: set_bnst_def)

lemma set_bnst_nth [node]:
  "i < length (bnst_data sp) \<Longrightarrow>
     bnst_data (set_bnst i f sp) ! k = (if k = i then f (bnst_data sp ! i) else bnst_data sp ! k)"
  by (simp add: set_bnst_def)

lemma set_bnst_keeps: "(\<And>b. g (f b) = g b) \<Longrightarrow> g (bnst_data (set_bnst i f sp) ! k) = g (bnst_data sp ! k)"
  by (cases "i < length (bnst_data sp)") (auto simp: set_bnst_def nth_list_update list_update_beyond)

lemma num_link_parent [node, simp]: "n_num (bnst_data (link_parent msk i j sp) ! k) = n_num (bnst_data sp ! k)"
  unfolding link_parent_def by (rule set_bnst_keeps) simp

lemma kids_link_parent [node, simp]: "kids (link_parent msk i j sp) k = kids sp k"
  unfolding link_parent_def by (rule set_bnst_keeps) simp

lemma length_link_parent [node, simp]:
  "length (bnst_data (link_parent msk i j sp)) = length (bnst_data sp)"
  "Bnst_num (link_parent msk i j sp) = Bnst_num sp"
  "New_Bnst_num (link_parent msk i j sp) = New_Bnst_num sp"
  by (simp_all add: link_parent_def)

lemma parent_link_parent [node]:
  "i < length (bnst_data sp) \<Longrightarrow> \<not> merged sp j \<Longrightarrow>
     parent_of (link_parent msk i j sp) k = (if k = i then Some (BnstP j) else parent_of sp k)"
  by (simp add: link_parent_def set_bnst_nth)

section \<open>Sorting\<close>

lemma length_exchange [simp]: "length (exchange num i k xs) = length xs"
  by (simp add: exchange_def)

lemma mset_exchange: "i < length xs \<Longrightarrow> k < length xs \<Longrightarrow> mset (exchange num i k xs) = mset xs"
  by (simp add: exchange_def mset_swap)

text \<open>The inner loop moves the largest of the remaining elements to position \<open>i\<close>.\<close>

abbreviation exchange_row :: "('a \<Rightarrow> int) \<Rightarrow> nat \<Rightarrow> nat \<Rightarrow> 'a list \<Rightarrow> 'a list" where
  "exchange_row num i n \<equiv> for_upt (Suc i) n (exchange num i)"

lemma exchange_row_keeps:
  assumes "i < n" "n \<le> length xs"
  shows "length (exchange_row num i n xs) = length xs \<and> mset (exchange_row num i n xs) = mset xs \<and>
    take i (exchange_row num i n xs) = take i xs"
  by (rule for_upt_keeps [where P = "\<lambda>ys. length ys = length xs \<and> mset ys = mset xs \<and> take i ys = take i xs"])
    (use assms in \<open>auto simp: mset_exchange, auto simp: exchange_def\<close>)

lemma exchange_row_max:
  assumes "i < n" "n \<le> length xs" "i \<le> k" "k < n"
  shows "num (exchange_row num i n xs ! k) \<le> num (exchange_row num i n xs ! i)"
proof -
  let ?P = "\<lambda>b ys. length ys = length xs \<and> (\<forall>k. i \<le> k \<and> k < b \<longrightarrow> num (ys ! k) \<le> num (ys ! i))"
  have "?P n (exchange_row num i n xs)"
  proof (rule for_upt_invariant [where P = ?P])
    fix j ys
    assume j: "Suc i \<le> j" "j < n" and P: "?P j ys"
    then have "num (exchange num i j ys ! k) \<le> num (exchange num i j ys ! i)" if "i \<le> k" "k < Suc j" for k
      using that assms(2) by (cases "k = j"; cases "k = i") (force simp: exchange_def nth_list_update)+
    then show "?P (Suc j) (exchange num i j ys)" using P by simp
  qed (use assms(1) in \<open>auto simp: less_Suc_eq\<close>)
  then show ?thesis using assms(3,4) by blast
qed

abbreviation descending :: "('a \<Rightarrow> int) \<Rightarrow> 'a list \<Rightarrow> bool" where
  "descending num \<equiv> sorted_wrt (\<lambda>x y. num y \<le> num x)"

text \<open>The first \<open>i\<close> elements are in order and none of the rest is larger.\<close>

definition sorted_up_to :: "('a \<Rightarrow> int) \<Rightarrow> nat \<Rightarrow> 'a list \<Rightarrow> bool" where
  "sorted_up_to num i xs \<longleftrightarrow>
     descending num (take i xs) \<and> (\<forall>x \<in> set (take i xs). \<forall>y \<in> set (drop i xs). num y \<le> num x)"

lemma mset_drop_eq: "mset ys = mset xs \<Longrightarrow> take i ys = take i xs \<Longrightarrow> set (drop i ys) = set (drop i xs)"
proof -
  assume "mset ys = mset xs" and t: "take i ys = take i xs"
  then have "mset (take i ys) + mset (drop i ys) = mset (take i xs) + mset (drop i xs)"
    by (metis append_take_drop_id mset_append)
  then have "mset (drop i ys) = mset (drop i xs)" using t by simp
  then show ?thesis by (rule mset_eq_setD)
qed

lemma sorted_up_to_step:
  assumes "sorted_up_to num i xs" and "i < length xs"
  shows "sorted_up_to num (Suc i) (exchange_row num i (length xs) xs)"
proof -
  define ys where "ys = exchange_row num i (length xs) xs"
  have ys: "length ys = length xs" "mset ys = mset xs" "take i ys = take i xs"
    using exchange_row_keeps [OF assms(2), of xs num] by (simp_all add: ys_def)
  have rest: "set (drop i ys) = set (drop i xs)" by (rule mset_drop_eq) (use ys in auto)
  have max: "num y \<le> num (ys ! i)" if "y \<in> set (drop i ys)" for y
    using that exchange_row_max [OF assms(2) le_refl, where num = num] ys(1)
    by (auto simp: in_set_conv_nth ys_def [symmetric])
  have mem: "ys ! i \<in> set (drop i ys)" using assms(2) ys(1) by (auto simp: Cons_nth_drop_Suc [symmetric])
  have sub: "set (drop (Suc i) ys) \<subseteq> set (drop i ys)" by (simp add: set_drop_subset_set_drop)
  show ?thesis
    using assms(1) mem max sub assms(2) ys(1) unfolding ys_def [symmetric] sorted_up_to_def ys(3) [symmetric] rest [symmetric]
    by (auto simp: take_Suc_conv_app_nth sorted_wrt_append)
qed

lemma sort_children_sorts: "mset (sort_children num xs) = mset xs \<and> descending num (sort_children num xs)"
proof (cases "length xs < 2")
  case True
  then show ?thesis by (cases xs) (auto simp: sort_children_def)
next
  case False
  define n where "n = length xs"
  have n: "2 \<le> n" using False by (simp add: n_def)
  define ys where "ys = sort_children num xs"
  have ys: "ys = for_upt 0 (n - 1) (\<lambda>i. exchange_row num i n) xs"
    using n by (simp add: ys_def n_def sort_children_def)
  have "length ys = n \<and> mset ys = mset xs \<and> sorted_up_to num (n - 1) ys"
    unfolding ys
  proof (rule for_upt_invariant [where P = "\<lambda>i ys. length ys = n \<and> mset ys = mset xs \<and> sorted_up_to num i ys"], goal_cases)
    case (2 i t)
    then show ?case
      using exchange_row_keeps [of i n t num] sorted_up_to_step [of num i t] by auto
  qed (simp_all add: n_def sorted_up_to_def)
  then have l: "length ys = n" and m: "mset ys = mset xs" and s: "sorted_up_to num (n - 1) ys" by auto
  have "drop (n - 1) ys = [last ys]" using l n by (metis One_nat_def Suc_pred append_butlast_last_id
      append_eq_conv_conj length_0_conv length_butlast not_numeral_le_zero)
  then have "descending num (take (n - 1) ys @ drop (n - 1) ys)"
    using s by (auto simp: sorted_up_to_def sorted_wrt_append)
  then show ?thesis using m by (simp add: ys_def)
qed

lemma sort_children_id:
  assumes "sorted_wrt (\<lambda>x y. num y < num x) xs"
  shows "sort_children num xs = xs"
proof -
  have "exchange num i k xs = xs" if "Suc i \<le> k" "k < length xs" for i k
    using sorted_wrt_nth_less [OF assms, of i k] that by (simp add: exchange_def)
  then have row: "exchange_row num i (length xs) xs = xs" for i
    by (intro for_upt_keeps [where P = "\<lambda>ys. ys = xs"]) auto
  have "for_upt 0 (length xs - 1) (\<lambda>i. exchange_row num i (length xs)) xs = xs"
    by (rule for_upt_keeps [where P = "\<lambda>ys. ys = xs"]) (simp_all add: row)
  then show ?thesis by (simp add: sort_children_def)
qed

section \<open>The simple tree\<close>

text \<open>The children of \<open>j\<close>: the 31 nearest bunsetsu before it that depend on it.\<close>

definition tree_children :: "(nat \<Rightarrow> int) \<Rightarrow> nat \<Rightarrow> nat list" where
  "tree_children h j = take (PARA_PART_MAX - 1) (filter (\<lambda>i. h i = int j) (rev [0..<j]))"

lemma tree_childrenD: "i \<in> set (tree_children h j) \<Longrightarrow> i < j \<and> h i = int j"
  unfolding tree_children_def by (auto dest!: in_set_takeD)

lemma tree_children_descending: "sorted_wrt (>) (tree_children h j)"
proof -
  have "sorted_wrt (>) (rev [0..<j])" by (simp add: sorted_wrt_rev)
  then show ?thesis unfolding tree_children_def by (intro sorted_wrt_take sorted_wrt_filter)
qed

lemma length_tree_children: "length (tree_children h j) < PARA_PART_MAX"
  by (simp add: tree_children_def PARA_PART_MAX_def)

lemma link_row_unmerged:
  assumes "\<forall>i \<in> set is. \<not> merged sp i" "\<not> merged sp j" "length cs < PARA_PART_MAX"
  shows "link_row h msk j is (pre, cs, sp) =
    Some (pre, take (PARA_PART_MAX - 1) (cs @ filter (\<lambda>i. h i = int j) is),
      fold (\<lambda>i. link_parent msk i j) (take (PARA_PART_MAX - 1 - length cs) (filter (\<lambda>i. h i = int j) is)) sp)"
  using assms
proof (induction "is" arbitrary: cs sp)
  case (Cons i "is")
  show ?case
  proof (cases "h i = int j \<and> length cs = PARA_PART_MAX - 1")
    case False
    then show ?thesis
    proof (cases "h i = int j")
      case True
      with False Cons.prems(3) obtain d where d: "PARA_PART_MAX - 1 - length cs = Suc d"
        by (cases "PARA_PART_MAX - 1 - length cs") auto
      then have "PARA_PART_MAX - 1 - length (cs @ [i]) = d" "length (cs @ [i]) < PARA_PART_MAX" by auto
      then show ?thesis using True d Cons.prems Cons.IH [of "link_parent msk i j sp" "cs @ [i]"] by (auto simp: push_def)
    qed (use Cons.prems Cons.IH [of sp cs] in auto)
  qed (use Cons.prems in \<open>auto simp: push_def PARA_PART_MAX_def\<close>)
qed simp

lemma fold_link_parent:
  assumes "\<forall>i \<in> set ks. i < length (bnst_data sp)" "\<not> merged sp j"
  shows "parent_of (fold (\<lambda>i. link_parent msk i j) ks sp) k =
      (if k \<in> set ks then Some (BnstP j) else parent_of sp k) \<and>
    kids (fold (\<lambda>i. link_parent msk i j) ks sp) k = kids sp k \<and>
    n_num (bnst_data (fold (\<lambda>i. link_parent msk i j) ks sp) ! k) = n_num (bnst_data sp ! k) \<and>
    length (bnst_data (fold (\<lambda>i. link_parent msk i j) ks sp)) = length (bnst_data sp) \<and>
    Bnst_num (fold (\<lambda>i. link_parent msk i j) ks sp) = Bnst_num sp \<and>
    New_Bnst_num (fold (\<lambda>i. link_parent msk i j) ks sp) = New_Bnst_num sp"
  using assms
proof (induction ks arbitrary: sp)
  case (Cons i ks)
  then show ?case using Cons.IH [of "link_parent msk i j sp"] by (auto simp: parent_link_parent)
qed simp

text \<open>The links to the bunsetsu from \<open>t\<close> on are made.\<close>

definition linked_from :: "(nat \<Rightarrow> int) \<Rightarrow> nat \<Rightarrow> nat \<Rightarrow> SENTENCE_DATA \<Rightarrow> SENTENCE_DATA \<Rightarrow> bool" where
  "linked_from h n t sp sp' \<longleftrightarrow>
     length (bnst_data sp') = length (bnst_data sp) \<and> Bnst_num sp' = Bnst_num sp \<and> New_Bnst_num sp' = New_Bnst_num sp \<and>
     (\<forall>k. n_num (bnst_data sp' ! k) = n_num (bnst_data sp ! k) \<and>
        kids sp' k = (if t \<le> k \<and> k < n then map BnstP (tree_children h k) else kids sp k) \<and>
        parent_of sp' k =
          (if \<exists>j. t \<le> j \<and> j < n \<and> k \<in> set (tree_children h j) then Some (BnstP (nat (h k))) else parent_of sp k))"

lemma link_step_from:
  assumes "linked_from h n (Suc t) sp sp'" "t < n" "n \<le> length (bnst_data sp)" "\<forall>i < n. \<not> merged sp i"
  shows "\<exists>sp''. link_step h msk t ([], sp') = Some ([], sp'') \<and> linked_from h n t sp sp''"
proof -
  note D = assms(1) [unfolded linked_from_def]
  define sp1 where "sp1 = fold (\<lambda>i. link_parent msk i t) (tree_children h t) sp'"
  have un: "\<not> merged sp' i" if "i < n" for i using that D assms(4) by simp
  have sp1: "parent_of sp1 k = (if k \<in> set (tree_children h t) then Some (BnstP t) else parent_of sp' k) \<and>
      kids sp1 k = kids sp' k \<and> n_num (bnst_data sp1 ! k) = n_num (bnst_data sp' ! k) \<and>
      length (bnst_data sp1) = length (bnst_data sp') \<and> Bnst_num sp1 = Bnst_num sp' \<and>
      New_Bnst_num sp1 = New_Bnst_num sp'" for k
    unfolding sp1_def by (rule fold_link_parent) (use un assms(2,3) D tree_childrenD in \<open>fastforce+\<close>)
  have "link_row h msk t (rev [0..<t]) ([], [], sp') = Some ([], tree_children h t, sp1)"
    using un assms(2) by (subst link_row_unmerged) (auto simp: sp1_def tree_children_def PARA_PART_MAX_def)
  then have step: "link_step h msk t ([], sp') = Some ([], set_bnst t (\<lambda>b. b\<lparr>n_child := map BnstP (tree_children h t)\<rparr>) sp1)"
    using length_tree_children [of h t] by (simp add: link_step_def)
  have len: "t < length (bnst_data sp1)" using assms(2,3) D sp1 by simp
  have "linked_from h n t sp (set_bnst t (\<lambda>b. b\<lparr>n_child := map BnstP (tree_children h t)\<rparr>) sp1)"
    unfolding linked_from_def
  proof (intro conjI allI)
    fix k
    have ex: "(\<exists>j. t \<le> j \<and> j < n \<and> k \<in> set (tree_children h j)) \<longleftrightarrow>
        k \<in> set (tree_children h t) \<or> (\<exists>j. Suc t \<le> j \<and> j < n \<and> k \<in> set (tree_children h j))"
      using assms(2) by (metis Suc_leD le_antisym not_less_eq_eq)
    show "n_num (bnst_data (set_bnst t (\<lambda>b. b\<lparr>n_child := map BnstP (tree_children h t)\<rparr>) sp1) ! k) = n_num (bnst_data sp ! k)"
      using len sp1 D by (simp add: set_bnst_nth)
    show "kids (set_bnst t (\<lambda>b. b\<lparr>n_child := map BnstP (tree_children h t)\<rparr>) sp1) k =
        (if t \<le> k \<and> k < n then map BnstP (tree_children h k) else kids sp k)"
      using len sp1 D assms(2) by (auto simp: set_bnst_nth)
    show "parent_of (set_bnst t (\<lambda>b. b\<lparr>n_child := map BnstP (tree_children h t)\<rparr>) sp1) k =
        (if \<exists>j. t \<le> j \<and> j < n \<and> k \<in> set (tree_children h j) then Some (BnstP (nat (h k))) else parent_of sp k)"
      using len sp1 D tree_childrenD [of k h t] by (auto simp: set_bnst_nth ex)
  qed (use sp1 D in auto)
  then show ?thesis using step by blast
qed

lemma link_all_from:
  assumes "n \<le> length (bnst_data sp)" "\<forall>i < n. \<not> merged sp i" "t \<le> n"
  shows "\<exists>sp'. fold_option (link_step h msk) (rev [t..<n]) ([], sp) = Some ([], sp') \<and> linked_from h n t sp sp'"
  using assms(3)
proof (induction rule: inc_induct)
  case base
  show ?case by (auto simp: linked_from_def)
next
  case (step t)
  then obtain sp' where "fold_option (link_step h msk) (rev [Suc t..<n]) ([], sp) = Some ([], sp')"
    "linked_from h n (Suc t) sp sp'" by blast
  then show ?case
    using link_step_from [of h n t sp sp' msk] step(2) assms(1,2)
    by (auto simp: upt_conv_Cons fold_option_append)
qed

lemma sort_node_linked:
  assumes "kids sp j = map BnstP (tree_children h j)" "\<forall>i < j. n_num (bnst_data sp ! i) = int i" "j < length (bnst_data sp)"
  shows "sort_node j sp = sp"
proof -
  have "sorted_wrt (\<lambda>x y. n_num (bnst_data sp ! y) < n_num (bnst_data sp ! x)) (tree_children h j)"
    by (rule sorted_wrt_mono_rel [OF _ tree_children_descending]) (use assms(2) in \<open>auto dest: tree_childrenD\<close>)
  then have "sort_children (\<lambda>c. n_num (bnst_data sp ! ptr_index c)) (kids sp j) = kids sp j"
    unfolding assms(1) by (intro sort_children_id) (simp add: sorted_wrt_map)
  then show ?thesis using assms(3) by (simp add: sort_node_def set_bnst_def)
qed

lemma simple_tree_links:
  assumes "Bnst_num sp \<le> length (bnst_data sp)" and "\<forall>i < Bnst_num sp. n_num (bnst_data sp ! i) = int i"
  shows "\<exists>sp'. make_simple_tree msk ms sp = Some sp' \<and> linked_from (tree_heads msk ms sp) (Bnst_num sp) 0 sp sp'"
proof -
  let ?h = "tree_heads msk ms sp"
  obtain sp' where run: "fold_option (link_step ?h msk) (rev [0..<Bnst_num sp]) ([], sp) = Some ([], sp')"
    and L: "linked_from ?h (Bnst_num sp) 0 sp sp'"
    using link_all_from [OF assms(1), of 0 ?h msk] assms(2) by auto
  have "sort_node j sp' = sp'" if "j < Bnst_num sp" for j
    by (rule sort_node_linked [where h = ?h]) (use that L [unfolded linked_from_def] assms in auto)
  then have "fold sort_node (rev [0..<Bnst_num sp]) sp' = sp'"
    by (intro fold_invariant [where Q = "\<lambda>j. j < Bnst_num sp" and P = "\<lambda>s. s = sp'"]) auto
  then have "make_simple_tree msk ms sp = Some sp'" using run by (simp add: make_simple_tree_def)
  then show ?thesis using L by blast
qed


section \<open>The tree as a whole\<close>

text \<open>
  A link goes up: to a node that stands further to the right, where a new node stands where the last
  conjunct does, before it and after the new nodes that were inserted earlier for the same bunsetsu.
\<close>

definition climbs :: "(nat \<Rightarrow> nat) \<Rightarrow> nat \<Rightarrow> nat \<Rightarrow> nat \<Rightarrow> bool" where
  "climbs base n i p \<longleftrightarrow> base i < base p \<or> base i = base p \<and> n \<le> i \<and> (p < n \<or> i < p)"

text \<open>
  Children and parents agree, except for the nodes in \<open>X\<close>, which are nobody's children. Only the nodes
  in use have links.
\<close>

definition tree_ok_but :: "nat set \<Rightarrow> (nat \<Rightarrow> nat) \<Rightarrow> SENTENCE_DATA \<Rightarrow> bool" where
  "tree_ok_but X base sp \<longleftrightarrow>
     (let used = Bnst_num sp + New_Bnst_num sp in
      used \<le> length (bnst_data sp) \<and>
      (\<forall>p < length (bnst_data sp). distinct (kids sp p) \<and>
         (\<forall>c \<in> set (kids sp p). \<exists>i < used. c = BnstP i \<and> i \<notin> X \<and> parent_of sp i = Some (BnstP p))) \<and>
      (\<forall>i < length (bnst_data sp). i \<notin> X \<longrightarrow>
         (\<forall>q. parent_of sp i = Some q \<longrightarrow>
            i < used \<and> (\<exists>p < used. q = BnstP p \<and> BnstP i \<in> set (kids sp p) \<and> climbs base (Bnst_num sp) i p))))"

abbreviation tree_ok :: "(nat \<Rightarrow> nat) \<Rightarrow> SENTENCE_DATA \<Rightarrow> bool" where
  "tree_ok \<equiv> tree_ok_but {}"

lemma tree_okD:
  assumes "tree_ok_but X base sp"
  shows "Bnst_num sp + New_Bnst_num sp \<le> length (bnst_data sp)"
    and "p < length (bnst_data sp) \<Longrightarrow> distinct (kids sp p)"
    and "p < length (bnst_data sp) \<Longrightarrow> c \<in> set (kids sp p) \<Longrightarrow>
      \<exists>i < Bnst_num sp + New_Bnst_num sp. c = BnstP i \<and> i \<notin> X \<and> parent_of sp i = Some (BnstP p)"
    and "i < length (bnst_data sp) \<Longrightarrow> i \<notin> X \<Longrightarrow> parent_of sp i = Some q \<Longrightarrow>
      i < Bnst_num sp + New_Bnst_num sp \<and>
      (\<exists>p < Bnst_num sp + New_Bnst_num sp. q = BnstP p \<and> BnstP i \<in> set (kids sp p) \<and> climbs base (Bnst_num sp) i p)"
  using assms unfolding tree_ok_but_def Let_def by blast+

lemma climbs_irrefl [simp]: "\<not> climbs base n i i"
  by (simp add: climbs_def)

lemma add_child_end:
  assumes "add_child c pos cs = Some cs'" and "pos = -1 \<or> pos = 0"
  shows "mset cs' = add_mset c (mset cs)"
  using assms by (auto simp: add_child_def split: if_splits)

lemma tree_ok_attach:
  assumes ok: "tree_ok_but {c} base sp" and c: "c < Bnst_num sp + New_Bnst_num sp"
    and p: "p < Bnst_num sp + New_Bnst_num sp" and up: "climbs base (Bnst_num sp) c p"
    and run: "t_attach_node p c pos sp = Some sp'" and pos: "pos = -1 \<or> pos = 0"
  shows "tree_ok base sp'"
proof -
  let ?N = "length (bnst_data sp)" and ?used = "Bnst_num sp + New_Bnst_num sp"
  have len: "c < ?N" "p < ?N" and ne: "c \<noteq> p" using c p tree_okD(1) [OF ok] up by auto
  obtain cs where cs: "add_child (BnstP c) pos (kids sp p) = Some cs"
    and sp': "sp' = set_bnst p (\<lambda>b. b\<lparr>n_child := cs\<rparr>) (set_bnst c (\<lambda>b. b\<lparr>n_parent := Some (BnstP p)\<rparr>) sp)"
    using run len ne by (auto simp: t_attach_node_def t_add_node_def set_bnst_nth)
  have kids': "kids sp' k = (if k = p then cs else kids sp k)" and
    parent': "parent_of sp' k = (if k = c then Some (BnstP p) else parent_of sp k)" for k
    using len ne by (auto simp: sp' set_bnst_nth)
  have m: "mset cs = add_mset (BnstP c) (mset (kids sp p))" by (rule add_child_end [OF cs pos])
  then have set_cs: "set cs = insert (BnstP c) (set (kids sp p))"
    by (metis set_mset_add_mset_insert set_mset_mset)
  have not_kid: "BnstP c \<notin> set (kids sp k)" if "k < ?N" for k using tree_okD(3) [OF ok that] by blast
  have "distinct cs \<longleftrightarrow> distinct (BnstP c # kids sp p)"
    using m by (metis mset.simps(2) mset_eq_imp_distinct_iff)
  then have dist: "distinct cs" using tree_okD(2) [OF ok len(2)] not_kid [OF len(2)] by simp
  have same: "Bnst_num sp' = Bnst_num sp" "New_Bnst_num sp' = New_Bnst_num sp" "length (bnst_data sp') = ?N"
    by (simp_all add: sp')
  have kid: "\<exists>i < ?used. x = BnstP i \<and> parent_of sp' i = Some (BnstP k)" if "k < ?N" "x \<in> set (kids sp' k)" for k x
    using that tree_okD(3) [OF ok that(1)] c set_cs
    unfolding kids' parent' by (auto split: if_splits)
  have par: "i < ?used \<and> (\<exists>q < ?used. x = BnstP q \<and> BnstP i \<in> set (kids sp' q) \<and> climbs base (Bnst_num sp) i q)"
    if "i < ?N" "parent_of sp' i = Some x" for i x
  proof (cases "i = c")
    case True
    then show ?thesis using that(2) c p up set_cs by (auto simp: kids' parent')
  next
    case False
    then have "parent_of sp i = Some x" using that(2) by (simp add: parent')
    then show ?thesis using tree_okD(4) [OF ok that(1)] False set_cs unfolding kids' by force
  qed
  show ?thesis
    unfolding tree_ok_but_def Let_def same
    using tree_okD(1,2) [OF ok] dist kid par by (auto simp: kids')
qed

lemma tree_ok_del:
  assumes ok: "tree_ok base sp" and e: "e < length (bnst_data sp)" and c: "BnstP c \<in> set (kids sp e)"
  shows "tree_ok_but {c} base (t_del_node e c sp)"
proof -
  let ?N = "length (bnst_data sp)" and ?used = "Bnst_num sp + New_Bnst_num sp" and ?sp = "t_del_node e c sp"
  have used: "c < ?used" and parent: "parent_of sp c = Some (BnstP e)" using tree_okD(3) [OF ok e c] by auto
  then have len: "c < ?N" using tree_okD(1) [OF ok] by simp
  have ne: "c \<noteq> e" using tree_okD(4) [OF ok len _ parent] by auto
  have kids': "kids ?sp k = (if k = e then remove1 (BnstP c) (kids sp e) else kids sp k)" and
    parent': "parent_of ?sp k = (if k = c then None else parent_of sp k)" for k
    using len e ne by (auto simp: t_del_node_def set_bnst_nth)
  have same: "Bnst_num ?sp = Bnst_num sp" "New_Bnst_num ?sp = New_Bnst_num sp" "length (bnst_data ?sp) = ?N"
    by (simp_all add: t_del_node_def)
  have d: "distinct (kids sp k)" if "k < ?N" for k using that tree_okD(2) [OF ok] by simp
  have kid: "\<exists>i < ?used. x = BnstP i \<and> i \<notin> {c} \<and> parent_of ?sp i = Some (BnstP k)" if k: "k < ?N" and mem: "x \<in> set (kids ?sp k)" for k x
  proof -
    have x: "x \<in> set (kids sp k)" using mem by (auto simp: kids' split: if_splits dest: set_remove1_subset [THEN subsetD])
    then obtain i where i: "i < ?used" "x = BnstP i" "parent_of sp i = Some (BnstP k)"
      using tree_okD(3) [OF ok k x] by blast
    moreover have "i \<noteq> c"
      using i(2,3) parent mem d [OF e] by (auto simp: kids' split: if_splits)
    ultimately show ?thesis by (auto simp: parent')
  qed
  have par: "i < ?used \<and> (\<exists>q < ?used. x = BnstP q \<and> BnstP i \<in> set (kids ?sp q) \<and> climbs base (Bnst_num sp) i q)"
    if i: "i < ?N" "i \<notin> {c}" "parent_of ?sp i = Some x" for i x
  proof -
    have "parent_of sp i = Some x" using i(2,3) by (simp add: parent')
    then obtain q where "i < ?used" "q < ?used" "x = BnstP q" "BnstP i \<in> set (kids sp q)" "climbs base (Bnst_num sp) i q"
      using tree_okD(4) [OF ok i(1)] by blast
    then show ?thesis using i(2) by (auto simp: kids' in_set_remove1)
  qed
  show ?thesis
    unfolding tree_ok_but_def Let_def same
    using tree_okD(1) [OF ok] d kid par by (auto simp: kids')
qed

lemma put_bnst_eq:
  assumes "put_bnst i b sp = Some sp'"
  shows "length (bnst_data sp') = max (length (bnst_data sp)) (Suc i)"
    and "k < length (bnst_data sp') \<Longrightarrow> bnst_data sp' ! k = (if k = i then b else bnst_data sp ! k)"
    and "Bnst_num sp' = Bnst_num sp" and "New_Bnst_num sp' = New_Bnst_num sp" and "i \<le> length (bnst_data sp)"
  using assms by (auto simp: put_bnst_def set_bnst_nth nth_append less_Suc_eq split: if_splits)

text \<open>A new node, with no children yet, above the last entry in use.\<close>

lemma tree_ok_put:
  assumes ok: "tree_ok base sp" and e: "e < Bnst_num sp" and new: "new = Bnst_num sp + New_Bnst_num sp"
    and put: "put_bnst new ((bnst_data sp ! e)\<lparr>n_child := []\<rparr>) (sp\<lparr>New_Bnst_num := Suc (New_Bnst_num sp), Max_New_Bnst_num := w\<rparr>) = Some sp'"
  shows "tree_ok_but {new} (base(new := base e)) sp'"
proof -
  note P = put_bnst_eq [OF put, simplified]
  let ?N' = "length (bnst_data sp')"
  have N: "k < length (bnst_data sp)" if "k < ?N'" "k \<noteq> new" for k
    using that P(1) P(5) by (auto simp: max_def split: if_splits)
  have kids': "kids sp' k = (if k = new then [] else kids sp k)" if "k < ?N'" for k using P(2) [OF that] by simp
  have parent': "parent_of sp' k = parent_of sp k" if "k < ?N'" "k \<noteq> new" for k using P(2) [OF that(1)] that by simp
  have used': "Bnst_num sp' + New_Bnst_num sp' = Suc new" using P(3,4) new by simp
  have "distinct (kids sp' k) \<and> (\<forall>c \<in> set (kids sp' k). \<exists>i < Suc new. c = BnstP i \<and> i \<notin> {new} \<and> parent_of sp' i = Some (BnstP k))"
    if k: "k < ?N'" for k
  proof (cases "k = new")
    case False
    have "\<exists>i < Suc new. c = BnstP i \<and> i \<notin> {new} \<and> parent_of sp' i = Some (BnstP k)" if c: "c \<in> set (kids sp k)" for c
    proof -
      obtain i where i: "i < new" "c = BnstP i" "parent_of sp i = Some (BnstP k)"
        using tree_okD(3) [OF ok N [OF k False] c] new by auto
      then show ?thesis using parent' [of i] P(1) by auto
    qed
    then show ?thesis using tree_okD(2) [OF ok N [OF k False]] k False by (simp add: kids')
  qed (use k in \<open>simp add: kids'\<close>)
  moreover have "i < Suc new \<and> (\<exists>p < Suc new. q = BnstP p \<and> BnstP i \<in> set (kids sp' p) \<and> climbs (base(new := base e)) (Bnst_num sp') i p)"
    if i: "i < ?N'" "i \<notin> {new}" and q: "parent_of sp' i = Some q" for i q
  proof -
    have "parent_of sp i = Some q" using i q parent' by simp
    then obtain p where "i < new" "p < new" "q = BnstP p" "BnstP i \<in> set (kids sp p)" "climbs base (Bnst_num sp) i p"
      using tree_okD(4) [OF ok N] i new by auto
    then show ?thesis using kids' [of p] P(1,3) by (auto simp: climbs_def)
  qed
  ultimately show ?thesis
    unfolding tree_ok_but_def Let_def used' using P(1) by auto
qed

lemma tree_ok_cong:
  assumes "tree_ok base sp" and "Bnst_num sp' = Bnst_num sp" "New_Bnst_num sp' = New_Bnst_num sp"
    and "length (bnst_data sp') = length (bnst_data sp)"
    and "\<And>k. kids sp' k = kids sp k" "\<And>k. parent_of sp' k = parent_of sp k"
  shows "tree_ok base sp'"
  using assms(1) unfolding tree_ok_but_def assms(2-6) .

lemma tree_ok_flags:
  assumes "tree_ok base sp" and "\<And>b. n_child (f b) = n_child b" "\<And>b. n_parent (f b) = n_parent b"
  shows "tree_ok base (set_bnst i f sp)"
  by (rule tree_ok_cong [OF assms(1)]) (simp_all add: set_bnst_keeps assms(2,3))

definition same_count :: "SENTENCE_DATA \<Rightarrow> SENTENCE_DATA \<Rightarrow> bool" where
  "same_count sp sp' \<longleftrightarrow>
     Bnst_num sp' = Bnst_num sp \<and> New_Bnst_num sp' = New_Bnst_num sp \<and> length (bnst_data sp') = length (bnst_data sp)"

lemma same_count_attach: "t_attach_node p c pos sp = Some sp' \<Longrightarrow> same_count sp sp'"
  by (auto simp: t_attach_node_def t_add_node_def same_count_def)

lemma same_count_del: "same_count sp (t_del_node e c sp)"
  by (simp add: t_del_node_def same_count_def)

lemma mark_part_ok: "mark_part i sp = Some sp' \<Longrightarrow> tree_ok base sp \<Longrightarrow> tree_ok base sp' \<and> same_count sp sp'"
  by (auto simp: mark_part_def same_count_def intro: tree_ok_flags)

text \<open>The children that move to the new node stay below it.\<close>

lemma move_child_ok:
  assumes "move_child e pre new k sp = Some sp'" and ok: "tree_ok base sp"
    and e: "e < Bnst_num sp" and new: "Suc new = Bnst_num sp + New_Bnst_num sp" "Bnst_num sp \<le> new" "base new = base e"
    and first: "hd (kids sp e) = BnstP new"
  shows "tree_ok base sp' \<and> same_count sp sp' \<and> hd (kids sp' e) = BnstP new"
proof (cases "sp' = sp")
  case False
  then obtain x c cs where xs: "kids sp e = x # c # cs"
    and run: "t_attach_node new (ptr_index c) (-1) (t_del_node e (ptr_index c) sp) = Some sp'"
    using assms(1) by (auto simp: move_child_def split: list.splits if_splits)
  have len: "e < length (bnst_data sp)" using e tree_okD(1) [OF ok] by simp
  obtain i where i: "i < Suc new" "c = BnstP i" "parent_of sp i = Some (BnstP e)"
    using tree_okD(3) [OF ok len, of c] new xs by auto
  have x: "x = BnstP new" and ne: "i \<noteq> new" using first xs tree_okD(2) [OF ok len] i(2) by auto
  have up: "climbs base (Bnst_num sp) i new"
    using tree_okD(4) [OF ok _ _ i(3)] tree_okD(1) [OF ok] i(1) ne new e by (auto simp: climbs_def)
  let ?del = "t_del_node e i sp"
  have del: "tree_ok_but {i} base ?del" by (rule tree_ok_del [OF ok len]) (use xs i in auto)
  have ok': "tree_ok base sp'"
    by (rule tree_ok_attach [OF del _ _ _ run [unfolded i(2) ptr_index.simps]]) (use i new up in \<open>auto simp: t_del_node_def\<close>)
  have "kids sp' e = kids ?del e" using run i(2) len e new(2) tree_okD(1) [OF ok] i(1) new(1)
    by (auto simp: t_attach_node_def t_add_node_def t_del_node_def set_bnst_nth)
  also have "\<dots> = BnstP new # cs" using xs x i(2) ne len i(1) new(1) tree_okD(1) [OF ok]
    by (auto simp: t_del_node_def set_bnst_nth)
  finally show ?thesis
    using ok' same_count_attach [OF run] same_count_del [of sp e "ptr_index c"] by (simp add: same_count_def)
qed (use ok first in \<open>simp add: same_count_def\<close>)

lemma get_correct_le: "get_correct_postprocessed_bnst_num sp n = Some i \<Longrightarrow> i \<le> n \<and> \<not> merged sp i"
  by (auto simp: get_correct_postprocessed_bnst_num_def find_Some_iff simp flip: upt_Suc) 
    (metis diff_zero in_set_conv_nth length_rev length_upt set_rev atLeastLessThan_iff set_upt less_Suc_eq_le)

lemma fold_mark_part:
  "fold_option mark_part xs sp = Some sp' \<Longrightarrow> tree_ok base sp \<Longrightarrow> tree_ok base sp' \<and> same_count sp sp'"
  by (erule fold_option_invariant [where P = "\<lambda>s. tree_ok base s \<and> same_count sp s"])
    (auto dest: mark_part_ok simp: same_count_def)

lemma fold_move_child:
  assumes "fold_option (move_child e pre new) ks sp = Some sp'" and "tree_ok base sp"
    and "e < Bnst_num sp" "Suc new = Bnst_num sp + New_Bnst_num sp" "Bnst_num sp \<le> new" "base new = base e"
    and "hd (kids sp e) = BnstP new"
  shows "tree_ok base sp' \<and> same_count sp sp' \<and> hd (kids sp' e) = BnstP new"
proof (rule fold_option_invariant [OF assms(1), where P = "\<lambda>s. tree_ok base s \<and> same_count sp s \<and> hd (kids s e) = BnstP new"])
  fix k s t
  assume "move_child e pre new k s = Some t" "tree_ok base s \<and> same_count sp s \<and> hd (kids s e) = BnstP new"
  then show "tree_ok base t \<and> same_count sp t \<and> hd (kids t e) = BnstP new"
    using move_child_ok [of e pre new k s t base] assms(3-6) by (auto simp: same_count_def)
qed (use assms(2,7) in \<open>auto simp: same_count_def\<close>)

lemma attach_first:
  assumes "t_attach_node p c 0 sp = Some sp'" "p < length (bnst_data sp)" "c < length (bnst_data sp)" "p \<noteq> c"
  shows "kids sp' p = BnstP c # kids sp p"
  using assms by (auto simp: t_attach_node_def t_add_node_def add_child_def set_bnst_nth split: if_splits)

text \<open>The steps of a successful expansion.\<close>

lemma top_expand_steps:
  assumes "top_expand m sp = Some (True, sp')" and new: "new = Bnst_num sp + New_Bnst_num sp"
  obtains e pre sp1 sp2 sp3 where
    "get_correct_postprocessed_bnst_num sp (last (pm_end m)) = Some e"
    "get_correct_postprocessed_bnst_num sp (last (butlast (pm_end m))) = Some pre"
    "put_bnst new ((bnst_data sp ! e)\<lparr>n_child := []\<rparr>) (sp\<lparr>New_Bnst_num := Suc (New_Bnst_num sp),
        Max_New_Bnst_num := max (Max_New_Bnst_num sp) (Suc (New_Bnst_num sp))\<rparr>) = Some sp1"
    "t_attach_node e new 0 sp1 = Some sp2"
    "fold_option (move_child e pre new) [0..<PARA_PART_MAX - 1] sp2 = Some sp3"
    "fold_option mark_part (butlast (pm_end m)) (set_bnst new (\<lambda>b. b\<lparr>n_para_type := PARA_NORMAL\<rparr>)
       (set_bnst e (\<lambda>b. b\<lparr>n_para_type := PARA_NIL, n_para_top_p := True\<rparr>) sp3)) = Some sp'"
  using assms(1) unfolding new
  by (auto simp: top_expand_def insert_top_def Let_def bind_eq_Some_conv split: if_splits)

lemma top_expand_ok:
  assumes "top_expand m sp = Some (True, sp')" and ok: "tree_ok base sp" and m: "last (pm_end m) < Bnst_num sp"
  shows "\<exists>base. tree_ok base sp' \<and> Bnst_num sp' = Bnst_num sp"
proof -
  define new where "new = Bnst_num sp + New_Bnst_num sp"
  obtain e pre sp1 sp2 sp3 where last: "get_correct_postprocessed_bnst_num sp (last (pm_end m)) = Some e"
    and put: "put_bnst new ((bnst_data sp ! e)\<lparr>n_child := []\<rparr>) (sp\<lparr>New_Bnst_num := Suc (New_Bnst_num sp),
        Max_New_Bnst_num := max (Max_New_Bnst_num sp) (Suc (New_Bnst_num sp))\<rparr>) = Some sp1"
    and att: "t_attach_node e new 0 sp1 = Some sp2"
    and mov: "fold_option (move_child e pre new) [0..<PARA_PART_MAX - 1] sp2 = Some sp3"
    and mark: "fold_option mark_part (butlast (pm_end m)) (set_bnst new (\<lambda>b. b\<lparr>n_para_type := PARA_NORMAL\<rparr>)
       (set_bnst e (\<lambda>b. b\<lparr>n_para_type := PARA_NIL, n_para_top_p := True\<rparr>) sp3)) = Some sp'"
    by (rule top_expand_steps [OF assms(1) new_def])
  have e: "e < Bnst_num sp" using get_correct_le [OF last] m by simp
  let ?base = "base(new := base e)"
  note P = put_bnst_eq [OF put, simplified]
  have e': "e < new" "?base new = ?base e" using e by (simp_all add: new_def)
  have ok1: "tree_ok_but {new} ?base sp1" by (rule tree_ok_put [OF ok e new_def put])
  have len1: "new < length (bnst_data sp1)" "e < length (bnst_data sp1)" using P(1) e'(1) by auto
  have ok2: "tree_ok ?base sp2"
    by (rule tree_ok_attach [OF ok1 _ _ _ att]) (use e e' P(3,4) in \<open>auto simp: climbs_def new_def\<close>)
  have first: "hd (kids sp2 e) = BnstP new" using attach_first [OF att len1(2,1)] e'(1) by simp
  have c2: "Bnst_num sp2 = Bnst_num sp" "New_Bnst_num sp2 = Suc (New_Bnst_num sp)"
    using same_count_attach [OF att] P(3,4) by (auto simp: same_count_def)
  have ok3: "tree_ok ?base sp3 \<and> same_count sp2 sp3"
    using fold_move_child [OF mov ok2 _ _ _ e'(2) first] e c2 by (simp add: new_def fun_upd_def)
  have "tree_ok ?base sp' \<and> same_count sp3 sp'"
    using fold_mark_part [OF mark, of ?base] ok3 by (simp add: tree_ok_flags same_count_def)
  then show ?thesis using ok3 c2 by (auto simp: same_count_def)
qed

lemma for_while_True:
  assumes "for_while f xs s = Some (True, t)" and "P s"
    and "\<And>x s t. x \<in> set xs \<Longrightarrow> P s \<Longrightarrow> f x s = Some (True, t) \<Longrightarrow> P t"
  shows "P t"
  using assms
proof (induction xs arbitrary: s)
  case (Cons x xs)
  then obtain u where "f x s = Some (True, u)" "for_while f xs u = Some (True, t)"
    by (auto split: option.splits if_splits)
  then show ?case using Cons.IH Cons.prems(2,3) by (meson list.set_intros)
qed simp

lemma para_top_expand_ok:
  assumes "\<forall>m < length ms. last (pm_end (ms ! m)) < n \<and> (\<forall>c \<in> set (pm_child (ms ! m)). c < length ms)"
  shows "para_top_expand d ms m sp = Some (True, sp') \<Longrightarrow> m < length ms \<Longrightarrow> \<exists>base. tree_ok base sp \<Longrightarrow> Bnst_num sp = n \<Longrightarrow>
    (\<exists>base. tree_ok base sp') \<and> Bnst_num sp' = n"
proof (induction d arbitrary: m sp sp')
  case (Suc d)
  obtain sp1 where children: "for_while (para_top_expand d ms) (pm_child (ms ! m)) sp = Some (True, sp1)"
    and top: "top_expand (ms ! m) sp1 = Some (True, sp')"
    using Suc.prems(1) by (auto simp: bind_eq_Some_conv split: if_splits)
  have "(\<exists>base. tree_ok base sp1) \<and> Bnst_num sp1 = n"
  proof (rule for_while_True [OF children])
    fix c s t
    assume "c \<in> set (pm_child (ms ! m))" "(\<exists>base. tree_ok base s) \<and> Bnst_num s = n"
      "para_top_expand d ms c s = Some (True, t)"
    then show "(\<exists>base. tree_ok base t) \<and> Bnst_num t = n" using Suc.IH [of c s t] Suc.prems(2) assms by blast
  qed (use Suc.prems(3,4) in blast)
  then show ?case using top_expand_ok [OF top] assms Suc.prems(2) by blast
qed simp

lemma tree_ok_initial:
  assumes "Bnst_num sp \<le> length (bnst_data sp)" "\<forall>i < Bnst_num sp. n_num (bnst_data sp ! i) = int i"
    and "make_simple_tree msk ms ((init_bnst_tree_property sp)\<lparr>New_Bnst_num := 0\<rparr>) = Some sp'"
  shows "tree_ok id sp' \<and> Bnst_num sp' = Bnst_num sp"
proof -
  let ?sp = "(init_bnst_tree_property sp)\<lparr>New_Bnst_num := 0\<rparr>" and ?n = "Bnst_num sp"
  define h where "h = tree_heads msk ms ?sp"
  have init: "Bnst_num ?sp = ?n" "length (bnst_data ?sp) = length (bnst_data sp)"
    "k < length (bnst_data sp) \<Longrightarrow> kids ?sp k = [] \<and> parent_of ?sp k = None \<and> n_num (bnst_data ?sp ! k) = n_num (bnst_data sp ! k)" for k
    by (simp_all add: init_bnst_tree_property_def)
  have "linked_from h (Bnst_num ?sp) 0 ?sp sp'"
    using simple_tree_links [of ?sp msk ms] assms init by (auto simp: h_def)
  note L = this [unfolded init(1) linked_from_def]
  have counts: "Bnst_num sp' = ?n" "New_Bnst_num sp' = 0" "length (bnst_data sp') = length (bnst_data sp)"
    using L init by auto
  have kids': "kids sp' k = (if k < ?n then map BnstP (tree_children h k) else [])" and
    parent': "parent_of sp' k = (if \<exists>j < ?n. k \<in> set (tree_children h j) then Some (BnstP (nat (h k))) else None)"
    if "k < length (bnst_data sp)" for k
    using that L init(3) by auto
  have "distinct (tree_children h k)" for k
    by (simp add: tree_children_def)
  then have "distinct (kids sp' k)" if "k < length (bnst_data sp)" for k
    using kids' [OF that] by (simp add: distinct_map inj_on_def)
  moreover have "\<exists>i < ?n. c = BnstP i \<and> parent_of sp' i = Some (BnstP p)"
    if pc: "p < length (bnst_data sp)" "c \<in> set (kids sp' p)" for p c
  proof -
    obtain i where i: "i \<in> set (tree_children h p)" "c = BnstP i" "p < ?n"
      using pc kids' [OF pc(1)] by (auto split: if_splits)
    then have "i < ?n" "nat (h i) = p" using tree_childrenD [OF i(1)] by auto
    then show ?thesis using i parent' [of i] assms(1) by auto
  qed
  moreover have "i < ?n \<and> (\<exists>p < ?n. q = BnstP p \<and> BnstP i \<in> set (kids sp' p) \<and> climbs id ?n i p)"
    if iq: "i < length (bnst_data sp)" "parent_of sp' i = Some q" for i q
  proof -
    obtain j where j: "j < ?n" "i \<in> set (tree_children h j)" "q = BnstP (nat (h i))"
      using iq parent' [OF iq(1)] by (auto split: if_splits)
    then show ?thesis
      using tree_childrenD [OF j(2)] kids' [of j] assms(1) by (auto simp: climbs_def)
  qed
  ultimately show ?thesis unfolding tree_ok_but_def Let_def counts using assms(1) by simp
qed

definition up_links :: "SENTENCE_DATA \<Rightarrow> (nat \<times> nat) set" where
  "up_links sp = {(i, p). i < length (bnst_data sp) \<and> parent_of sp i = Some (BnstP p)}"

text \<open>The tree that a sentence holds: lists of children without repetitions that agree with the parents, and no cycle.\<close>

definition is_forest :: "SENTENCE_DATA \<Rightarrow> bool" where
  "is_forest sp \<longleftrightarrow>
     (\<forall>p < length (bnst_data sp). distinct (kids sp p) \<and>
        (\<forall>c. c \<in> set (kids sp p) \<longleftrightarrow> (\<exists>i. c = BnstP i \<and> (i, p) \<in> up_links sp))) \<and>
     acyclic (up_links sp)"

lemma climbs_acyclic:
  assumes "\<And>i p. (i, p) \<in> r \<Longrightarrow> climbs base n i p"
  shows "acyclic r"
proof -
  define rank where "rank i = (base i, if i < n then 1 else 0 :: nat, i)" for i
  have "(i, p) \<in> inv_image (less_than <*lex*> less_than <*lex*> less_than) rank" if "(i, p) \<in> r" for i p
    using assms [OF that] by (auto simp: rank_def climbs_def)
  then have "r \<subseteq> inv_image (less_than <*lex*> less_than <*lex*> less_than) rank" by auto
  moreover have "acyclic (inv_image (less_than <*lex*> less_than <*lex*> less_than) rank)"
    by (intro wf_acyclic wf_inv_image wf_lex_prod wf_less_than)
  ultimately show ?thesis by (rule acyclic_subset [rotated])
qed

lemma tree_ok_forest:
  assumes ok: "tree_ok base sp"
  shows "is_forest sp"
proof -
  have up: "BnstP i \<in> set (kids sp p) \<and> climbs base (Bnst_num sp) i p" if "(i, p) \<in> up_links sp" for i p
    using that tree_okD(4) [OF ok, of i "BnstP p"] by (auto simp: up_links_def)
  have down: "\<exists>i. c = BnstP i \<and> (i, p) \<in> up_links sp" if "p < length (bnst_data sp)" "c \<in> set (kids sp p)" for c p
    using tree_okD(3) [OF ok that] tree_okD(1) [OF ok] by (auto simp: up_links_def)
  have "acyclic (up_links sp)" by (rule climbs_acyclic [of _ base "Bnst_num sp"]) (use up in blast)
  then show ?thesis unfolding is_forest_def using up down tree_okD(2) [OF ok] by blast
qed


section \<open>The depth of the recursions over managers\<close>

text \<open>
  A recursion over the children of a manager, whose depth is bounded by an argument: the step for a
  manager uses the recursive calls for its children only.
\<close>

locale bounded_recursion =
  fixes visit :: "nat \<Rightarrow> nat \<Rightarrow> 's \<Rightarrow> 'r option"
    and step :: "(nat \<Rightarrow> 's \<Rightarrow> 'r option) \<Rightarrow> nat \<Rightarrow> 's \<Rightarrow> 'r option"
    and children :: "nat \<Rightarrow> nat list"
  assumes visit_Suc: "visit (Suc d) = step (visit d)"
    and step_cong: "(\<And>c. c \<in> set (children m) \<Longrightarrow> f c = g c) \<Longrightarrow> step f m = step g m"
begin

lemma visit_stable:
  assumes "\<And>m c. m < n \<Longrightarrow> c \<in> set (children m) \<Longrightarrow> c < n \<and> rank c < (rank m :: nat)"
  shows "m < n \<Longrightarrow> rank m < d \<Longrightarrow> rank m < d' \<Longrightarrow> visit d m = visit d' m"
proof (induction "rank m" arbitrary: m d d' rule: less_induct)
  case less
  obtain e e' where d: "d = Suc e" "d' = Suc e'" using less.prems by (metis Suc_pred gr_implies_not0 neq0_conv)
  have "visit e c = visit e' c" if "c \<in> set (children m)" for c
    using assms [OF less.prems(1) that] less.prems less.hyps [of c e e'] by (auto simp: d)
  then show ?case unfolding d visit_Suc by (rule step_cong)
qed

end

lemma rank_of_acyclic:
  fixes r :: "(nat \<times> nat) set"
  assumes "acyclic r" and "r \<subseteq> {..<n} \<times> {..<n}"
  shows "\<exists>rank. \<forall>(c, m) \<in> r. rank c < (rank m :: nat) \<and> rank m < n"
proof -
  let ?rank = "\<lambda>m. card {x. (x, m) \<in> r\<^sup>+}"
  have sub: "{x. (x, m) \<in> r\<^sup>+} \<subseteq> {..<n}" for m
    using trancl_subset_Sigma [OF assms(2)] by auto
  then have fin: "finite {x. (x, m) \<in> r\<^sup>+}" for m by (rule finite_subset) simp
  have "?rank c < ?rank m \<and> ?rank m < n" if cm: "(c, m) \<in> r" for c m
  proof
    have "{x. (x, c) \<in> r\<^sup>+} \<subset> {x. (x, m) \<in> r\<^sup>+}"
      using cm assms(1) by (auto intro: trancl_into_trancl simp: acyclic_def)
    then show "?rank c < ?rank m" by (rule psubset_card_mono [OF fin])
    have "{x. (x, m) \<in> r\<^sup>+} \<subset> {..<n}" using sub [of m] assms cm by (auto simp: acyclic_def)
    then show "?rank m < n" using psubset_card_mono [of "{..<n}"] by simp
  qed
  then show ?thesis by (intro exI [of _ ?rank]) auto
qed

lemma for_while_cong: "(\<And>x. x \<in> set xs \<Longrightarrow> f x = g x) \<Longrightarrow> for_while f xs = for_while g xs"
proof (induction xs)
  case (Cons x xs)
  then have "for_while f xs = for_while g xs" "f x = g x" by simp_all
  then show ?case by (intro ext) (simp split: option.split)
qed (simp add: fun_eq_iff)

interpretation tops: bounded_recursion "\<lambda>d. para_top_expand d ms"
  "\<lambda>f m sp. do { (ok, sp') \<leftarrow> for_while f (pm_child (ms ! m)) sp; if ok then top_expand (ms ! m) sp' else Some (False, sp') }"
  "\<lambda>m. pm_child (ms ! m)" for ms
proof unfold_locales
  fix m and f g :: "nat \<Rightarrow> SENTENCE_DATA \<Rightarrow> (bool \<times> SENTENCE_DATA) option"
  assume "\<And>c. c \<in> set (pm_child (ms ! m)) \<Longrightarrow> f c = g c"
  then have "for_while f (pm_child (ms ! m)) = for_while g (pm_child (ms ! m))" by (rule for_while_cong)
  then show "(\<lambda>sp. do { (ok, sp') \<leftarrow> for_while f (pm_child (ms ! m)) sp; if ok then top_expand (ms ! m) sp' else Some (False, sp') }) =
    (\<lambda>sp. do { (ok, sp') \<leftarrow> for_while g (pm_child (ms ! m)) sp; if ok then top_expand (ms ! m) sp' else Some (False, sp') })"
    by simp
qed (simp add: fun_eq_iff)

interpretation strongs: bounded_recursion "\<lambda>d. strong_para_expand d ps ms"
  "\<lambda>f m sp. Option.bind (fold_option f (pm_child (ms ! m)) sp) (strong_expand ps (ms ! m))"
  "\<lambda>m. pm_child (ms ! m)" for ps ms
proof unfold_locales
  fix m and f g :: "nat \<Rightarrow> SENTENCE_DATA \<Rightarrow> SENTENCE_DATA option"
  assume "\<And>c. c \<in> set (pm_child (ms ! m)) \<Longrightarrow> f c = g c"
  then have "fold_option f (pm_child (ms ! m)) = fold_option g (pm_child (ms ! m))" by (rule fold_option_cong)
  then show "(\<lambda>sp. Option.bind (fold_option f (pm_child (ms ! m)) sp) (strong_expand ps (ms ! m))) =
    (\<lambda>sp. Option.bind (fold_option g (pm_child (ms ! m)) sp) (strong_expand ps (ms ! m)))"
    by simp
qed (simp add: fun_eq_iff)

text \<open>
  C31. When the managers form a forest, the depth that \<open>make_dpnd_tree\<close> gives to its recursions over
  them is enough: any larger bound has the same results.
\<close>

theorem manager_depth_enough:
  assumes "acyclic {(c, m). m < length ms \<and> c \<in> set (pm_child (ms ! m))}"
    and "\<forall>m < length ms. \<forall>c \<in> set (pm_child (ms ! m)). c < length ms" and "m < length ms" and "length ms < d"
  shows "para_top_expand d ms m = para_top_expand (Suc (length ms)) ms m \<and>
    strong_para_expand d ps ms m = strong_para_expand (Suc (length ms)) ps ms m"
proof -
  let ?r = "{(c, m). m < length ms \<and> c \<in> set (pm_child (ms ! m))}"
  obtain rank where "\<forall>(c, m) \<in> ?r. rank c < (rank m :: nat) \<and> rank m < length ms"
    using rank_of_acyclic [OF assms(1), of "length ms"] assms(2) by auto
  then have rank: "c < length ms \<and> min (rank c) (length ms) < min (rank m) (length ms)"
    if "m < length ms" "c \<in> set (pm_child (ms ! m))" for c m
    using that assms(2) by fastforce
  show ?thesis
    using tops.visit_stable [OF rank assms(3), where d = d and d' = "Suc (length ms)"]
      strongs.visit_stable [OF rank assms(3), where d = d and d' = "Suc (length ms)" and ps = ps] assms(4)
    by simp
qed

section \<open>The node of a coordination\<close>

definition moves :: "nat \<Rightarrow> SENTENCE_DATA \<Rightarrow> ptr \<Rightarrow> bool" where
  "moves pre sp c \<longleftrightarrow> pre < ptr_index c \<and> n_para_type (bnst_data sp ! ptr_index c) \<noteq> PARA_INCOMP"

text \<open>The part of the state that moving children leaves alone.\<close>

definition same_rest :: "SENTENCE_DATA \<Rightarrow> SENTENCE_DATA \<Rightarrow> bool" where
  "same_rest sp sp' \<longleftrightarrow> length (bnst_data sp') = length (bnst_data sp) \<and>
     (\<forall>k. n_para_type (bnst_data sp' ! k) = n_para_type (bnst_data sp ! k))"

lemma move_one:
  assumes run: "move_child e pre new k sp = Some sp'" and kids: "kids sp e = BnstP new # BnstP c # ys"
    and move: "moves pre sp (BnstP c)"
    and len: "e < length (bnst_data sp)" "new < length (bnst_data sp)" "c < length (bnst_data sp)"
    and ne: "e \<noteq> new" "c \<noteq> e" "c \<noteq> new"
  shows "kids sp' e = BnstP new # ys" and "kids sp' new = kids sp new @ [BnstP c]"
    and "parent_of sp' k' = (if k' = c then Some (BnstP new) else parent_of sp k')" and "same_rest sp sp'"
proof -
  have "t_attach_node new c (-1) (t_del_node e c sp) = Some sp'"
    using run kids move by (simp add: move_child_def moves_def)
  then have sp': "sp' = set_bnst new (\<lambda>b. b\<lparr>n_child := kids sp new @ [BnstP c]\<rparr>)
      (set_bnst c (\<lambda>b. b\<lparr>n_parent := Some (BnstP new)\<rparr>) (t_del_node e c sp))"
    using len ne by (auto simp: t_attach_node_def t_add_node_def t_del_node_def add_child_def set_bnst_nth split: if_splits)
  show "kids sp' e = BnstP new # ys" "kids sp' new = kids sp new @ [BnstP c]"
    "parent_of sp' k' = (if k' = c then Some (BnstP new) else parent_of sp k')" "same_rest sp sp'"
    using len ne kids by (auto simp: sp' t_del_node_def set_bnst_nth same_rest_def)
qed

lemma move_stops:
  "kids sp e = x # ys \<Longrightarrow> ys = [] \<or> \<not> moves pre sp (hd ys) \<Longrightarrow> fold_option (move_child e pre new) ks sp = Some sp"
  by (induction ks) (auto simp: move_child_def moves_def split: list.splits)

lemma move_all:
  assumes "fold_option (move_child e pre new) ks sp = Some sp'" and "kids sp e = BnstP new # map BnstP ys"
    and "length ys \<le> length ks" and "e < length (bnst_data sp)" "new < length (bnst_data sp)" "e \<noteq> new"
    and "\<forall>c \<in> set ys. c < length (bnst_data sp) \<and> c \<noteq> e \<and> c \<noteq> new"
  shows "kids sp' e = BnstP new # map BnstP (dropWhile (moves pre sp \<circ> BnstP) ys) \<and>
    kids sp' new = kids sp new @ map BnstP (takeWhile (moves pre sp \<circ> BnstP) ys) \<and>
    (\<forall>k. parent_of sp' k = (if k \<in> set (takeWhile (moves pre sp \<circ> BnstP) ys) then Some (BnstP new) else parent_of sp k))"
  using assms
proof (induction ks arbitrary: sp ys)
  case (Cons k ks)
  show ?case
  proof (cases "ys = [] \<or> \<not> moves pre sp (BnstP (hd ys))")
    case True
    then have "sp' = sp" using Cons.prems(1) move_stops [OF Cons.prems(2), of pre new "k # ks"] by (cases ys) auto
    then show ?thesis using Cons.prems(2) True by (cases ys) auto
  next
    case False
    then obtain c zs where ys: "ys = c # zs" and m: "moves pre sp (BnstP c)" by (cases ys) auto
    obtain s where s: "move_child e pre new k sp = Some s" "fold_option (move_child e pre new) ks s = Some sp'"
      using Cons.prems(1) by (auto simp: bind_eq_Some_conv)
    have c: "c < length (bnst_data sp)" "c \<noteq> e" "c \<noteq> new" using Cons.prems(7) ys by auto
    have one: "kids s e = BnstP new # map BnstP zs" "kids s new = kids sp new @ [BnstP c]"
        "parent_of s i = (if i = c then Some (BnstP new) else parent_of sp i)" "same_rest sp s" for i
      using move_one [OF s(1) _ m Cons.prems(4,5) c(1) Cons.prems(6) c(2,3)] Cons.prems(2) ys by auto
    have same: "moves pre s = moves pre sp" "length (bnst_data s) = length (bnst_data sp)"
      using one(4) by (auto simp: moves_def same_rest_def fun_eq_iff)
    show ?thesis
      using Cons.IH [OF s(2) one(1)] Cons.prems(3-7) one(2,3) m unfolding same ys by auto
  qed
qed auto

lemma mark_part_keeps:
  "mark_part i sp = Some sp' \<Longrightarrow>
     kids sp' k = kids sp k \<and> parent_of sp' k = parent_of sp k \<and> n_para_top_p (bnst_data sp' ! k) = n_para_top_p (bnst_data sp ! k)"
  by (auto simp: mark_part_def set_bnst_keeps)

lemma fold_mark_keeps:
  assumes "fold_option mark_part xs sp = Some sp'"
  shows "kids sp' k = kids sp k \<and> parent_of sp' k = parent_of sp k \<and> n_para_top_p (bnst_data sp' ! k) = n_para_top_p (bnst_data sp ! k)"
  by (rule fold_option_invariant [OF assms, where P = "\<lambda>s. kids s k = kids sp k \<and> parent_of s k = parent_of sp k \<and>
        n_para_top_p (bnst_data s ! k) = n_para_top_p (bnst_data sp ! k)"]) (auto dest: mark_part_keeps [where k = k])

text \<open>
  The node of a coordination: the last conjunct \<open>e\<close> becomes the node for the whole, and a copy of it
  takes its place as a conjunct. The children of \<open>e\<close> that stand after the conjunct before it, up to
  the first that does not or is an incomplete conjunct, move to the copy; the others stay.
\<close>

theorem top_expand_shape:
  assumes "top_expand m sp = Some (True, sp')"
    and "get_correct_postprocessed_bnst_num sp (last (pm_end m)) = Some e"
    and "get_correct_postprocessed_bnst_num sp (last (butlast (pm_end m))) = Some pre"
    and new: "new = Bnst_num sp + New_Bnst_num sp" "e < new" "new \<le> length (bnst_data sp)"
    and kids: "kids sp e = map BnstP ys" "\<forall>c \<in> set ys. c < new \<and> c \<noteq> e"
  shows "kids sp' e = BnstP new # map BnstP (dropWhile (moves pre sp \<circ> BnstP) ys) \<and>
    kids sp' new = map BnstP (takeWhile (moves pre sp \<circ> BnstP) ys) \<and>
    parent_of sp' new = Some (BnstP e) \<and> parent_of sp' e = parent_of sp e \<and> n_para_top_p (bnst_data sp' ! e) \<and>
    (\<forall>c \<in> set (takeWhile (moves pre sp \<circ> BnstP) ys). parent_of sp' c = Some (BnstP new))"
proof -
  obtain sp1 sp2 sp3 where
    put: "put_bnst new ((bnst_data sp ! e)\<lparr>n_child := []\<rparr>) (sp\<lparr>New_Bnst_num := Suc (New_Bnst_num sp),
        Max_New_Bnst_num := max (Max_New_Bnst_num sp) (Suc (New_Bnst_num sp))\<rparr>) = Some sp1"
    and att: "t_attach_node e new 0 sp1 = Some sp2"
    and mov: "fold_option (move_child e pre new) [0..<PARA_PART_MAX - 1] sp2 = Some sp3"
    and mark: "fold_option mark_part (butlast (pm_end m)) (set_bnst new (\<lambda>b. b\<lparr>n_para_type := PARA_NORMAL\<rparr>)
       (set_bnst e (\<lambda>b. b\<lparr>n_para_type := PARA_NIL, n_para_top_p := True\<rparr>) sp3)) = Some sp'"
    by (rule top_expand_steps [OF assms(1) new(1)]) (use assms(2,3) in simp)
  note P = put_bnst_eq [OF put, simplified]
  have len1: "e < length (bnst_data sp1)" "new < length (bnst_data sp1)" "e \<noteq> new" using P(1) new by auto
  have e1: "bnst_data sp1 ! e = bnst_data sp ! e" using P(2) [OF len1(1)] len1(3) by simp
  have att': "add_child (BnstP new) 0 (kids sp e) = Some (BnstP new # kids sp e)" and
    sp2: "sp2 = set_bnst e (\<lambda>b. b\<lparr>n_child := BnstP new # kids sp e\<rparr>) (set_bnst new (\<lambda>b. b\<lparr>n_parent := Some (BnstP e)\<rparr>) sp1)"
    using att len1 e1 by (auto simp: t_attach_node_def t_add_node_def add_child_def set_bnst_nth split: if_splits)
  have ys: "length ys \<le> length [0..<PARA_PART_MAX - 1]" using att' kids(1) by (auto simp: add_child_def split: if_splits)
  have type2: "n_para_type (bnst_data sp2 ! c) = n_para_type (bnst_data sp ! c)" if "c < new" for c
    using that P(1) P(2) [of c] len1 by (auto simp: sp2 set_bnst_nth)
  have same: "takeWhile (moves pre sp2 \<circ> BnstP) ys = takeWhile (moves pre sp \<circ> BnstP) ys"
    "dropWhile (moves pre sp2 \<circ> BnstP) ys = dropWhile (moves pre sp \<circ> BnstP) ys"
    using kids(2) by (auto simp: moves_def type2 intro: takeWhile_cong dropWhile_cong)
  have len2: "length (bnst_data sp2) = length (bnst_data sp1)" by (simp add: sp2)
  have k2: "kids sp2 e = BnstP new # map BnstP ys" "kids sp2 new = []"
    using len1 P(2) [OF len1(2)] kids(1) by (auto simp: sp2 set_bnst_nth)
  have p2: "parent_of sp2 new = Some (BnstP e)" "parent_of sp2 e = parent_of sp e"
    using len1 e1 by (auto simp: sp2 set_bnst_nth)
  have "\<forall>c \<in> set ys. c < length (bnst_data sp2) \<and> c \<noteq> e \<and> c \<noteq> new" using kids(2) P(1) len2 by auto
  then have A: "kids sp3 e = BnstP new # map BnstP (dropWhile (moves pre sp \<circ> BnstP) ys) \<and>
      kids sp3 new = map BnstP (takeWhile (moves pre sp \<circ> BnstP) ys) \<and>
      (\<forall>k. parent_of sp3 k = (if k \<in> set (takeWhile (moves pre sp \<circ> BnstP) ys) then Some (BnstP new) else parent_of sp2 k))"
    using move_all [OF mov k2(1) ys] len1 len2 k2(2) unfolding same by simp
  have "same_count sp2 sp3"
    by (rule fold_option_invariant [OF mov, where P = "same_count sp2"])
      (auto simp: move_child_def same_count_def t_del_node_def split: list.splits if_splits dest!: same_count_attach)
  then have len3: "length (bnst_data sp3) = length (bnst_data sp1)" using len2 by (simp add: same_count_def)
  have not_moved: "new \<notin> set (takeWhile (moves pre sp \<circ> BnstP) ys)" "e \<notin> set (takeWhile (moves pre sp \<circ> BnstP) ys)"
    using kids(2) by (auto dest: set_takeWhileD)
  have "kids sp' k = kids sp3 k" "parent_of sp' k = parent_of sp3 k" for k
    using fold_mark_keeps [OF mark, of k] by (auto simp: set_bnst_keeps)
  moreover have "n_para_top_p (bnst_data sp' ! e)"
    using fold_mark_keeps [OF mark, of e] len1 len3 by (auto simp: set_bnst_nth)
  ultimately show ?thesis using A p2 not_moved by simp
qed

section \<open>Children that get lost\<close>

text \<open>
  A bunsetsu with 31 nearer bunsetsu that depend on the same head is dropped from the tree: it has no
  parent and it is nobody's child.
\<close>

theorem far_dependants_dropped:
  assumes "Bnst_num sp \<le> length (bnst_data sp)"
    and "\<forall>i < Bnst_num sp. n_num (bnst_data sp ! i) = int i \<and> parent_of sp i = None"
    and "tree_heads msk ms sp k = int j" and "k < j" and "j < Bnst_num sp"
    and "31 \<le> length (filter (\<lambda>i. tree_heads msk ms sp i = int j) [Suc k..<j])"
  shows "\<exists>sp'. make_simple_tree msk ms sp = Some sp' \<and> parent_of sp' k = None \<and>
    (\<forall>p < Bnst_num sp. BnstP k \<notin> set (kids sp' p))"
proof -
  let ?h = "tree_heads msk ms sp"
  obtain sp' where sp': "make_simple_tree msk ms sp = Some sp'" and L: "linked_from ?h (Bnst_num sp) 0 sp sp'"
    using simple_tree_links [OF assms(1), of msk ms] assms(2) by auto
  have "rev [0..<j] = rev [Suc k..<j] @ rev [0..<Suc k]"
    using assms(4) upt_add_eq_append [of 0 "Suc k" "j - Suc k"] by (simp del: upt_Suc)
  then have "tree_children ?h j = take 31 (filter (\<lambda>i. ?h i = int j) (rev [Suc k..<j]))"
    using assms(6) by (simp add: tree_children_def PARA_PART_MAX_def rev_filter [symmetric] del: upt_Suc)
  then have "k \<notin> set (tree_children ?h j)" by (auto dest!: in_set_takeD)
  then have no: "k \<notin> set (tree_children ?h p)" for p using tree_childrenD [of k ?h p] assms(3) by auto
  then show ?thesis
    using sp' L assms(2,4,5) unfolding linked_from_def by (intro exI [of _ sp']) auto
qed

lemma t_add_node_other:
  assumes "t_add_node q c pos sp = Some sp'"
  shows "length (bnst_data sp') = length (bnst_data sp)" "k \<noteq> q \<Longrightarrow> kids sp' k = kids sp k"
    "n_para_type (bnst_data sp' ! k) = n_para_type (bnst_data sp ! k)" "bnst_f sp' k = bnst_f sp k"
  using assms
  by (auto simp: t_add_node_def set_bnst_keeps bnst_f_def) (auto simp: set_bnst_def nth_list_update)

text \<open>What sharing a modifier leaves as it was, for a node \<open>p\<close> that is not its own child.\<close>

definition shared_below :: "nat \<Rightarrow> ptr list \<Rightarrow> SENTENCE_DATA \<Rightarrow> SENTENCE_DATA \<Rightarrow> bool" where
  "shared_below p cs sp s \<longleftrightarrow>
     length (bnst_data s) = length (bnst_data sp) \<and>
     (\<forall>k. n_para_type (bnst_data s ! k) = n_para_type (bnst_data sp ! k) \<and> bnst_f s k = bnst_f sp k) \<and>
     (\<exists>l. kids s p = take l cs)"

lemma share_modifier_step:
  assumes run: "share_modifier p cs i s = Some t" and S: "shared_below p cs sp s"
    and p: "p < length (bnst_data sp)" "\<forall>c \<in> set cs. ptr_index c \<noteq> p"
  shows "shared_below p cs sp t" and "length (kids t p) \<le> length (kids s p)"
    and "n_para_type (bnst_data sp ! ptr_index (cs ! i)) = PARA_NIL \<Longrightarrow>
      check_feature (bnst_f sp (ptr_index (cs ! i))) s_k_renyou = None \<Longrightarrow> length (kids t p) \<le> i"
proof -
  let ?c = "ptr_index (cs ! i)" and ?add = "\<lambda>d sp. if n_para_type (bnst_data sp ! ptr_index d) = PARA_NORMAL
                       then t_add_node (ptr_index d) (ptr_index (cs ! i)) (-1) sp else Some sp"
  have S': "length (bnst_data s) = length (bnst_data sp)"
    "n_para_type (bnst_data s ! k) = n_para_type (bnst_data sp ! k)" "bnst_f s k = bnst_f sp k" for k
    using S by (auto simp: shared_below_def)
  obtain l where l: "kids s p = take l cs" using S by (auto simp: shared_below_def)
  have "shared_below p cs sp t \<and> length (kids t p) \<le> length (kids s p) \<and>
      (n_para_type (bnst_data sp ! ?c) = PARA_NIL \<and> check_feature (bnst_f sp ?c) s_k_renyou = None \<longrightarrow> length (kids t p) \<le> i)"
  proof (cases "n_para_type (bnst_data sp ! ?c) = PARA_NIL \<and> check_feature (bnst_f sp ?c) s_k_renyou = None")
    case True
    then obtain u where u: "fold_option ?add (kids s p) (set_bnst ?c (\<lambda>b. b\<lparr>n_to_para_p := True\<rparr>) s) = Some u"
      and t: "t = set_bnst p (\<lambda>b. b\<lparr>n_child := take i (n_child b)\<rparr>) u"
      using run S' by (auto simp: share_modifier_def Let_def bind_eq_Some_conv)
    have "length (bnst_data u) = length (bnst_data sp) \<and> kids u p = kids s p \<and>
        (\<forall>k. n_para_type (bnst_data u ! k) = n_para_type (bnst_data sp ! k) \<and> bnst_f u k = bnst_f sp k)"
    proof (rule fold_option_invariant [OF u])
      fix d v w
      assume "d \<in> set (kids s p)" "?add d v = Some w" and V: "length (bnst_data v) = length (bnst_data sp) \<and> kids v p = kids s p \<and>
        (\<forall>k. n_para_type (bnst_data v ! k) = n_para_type (bnst_data sp ! k) \<and> bnst_f v k = bnst_f sp k)"
      moreover from this(1) have "p \<noteq> ptr_index d" using p(2) l by (metis in_set_takeD)
      ultimately show "length (bnst_data w) = length (bnst_data sp) \<and> kids w p = kids s p \<and>
        (\<forall>k. n_para_type (bnst_data w ! k) = n_para_type (bnst_data sp ! k) \<and> bnst_f w k = bnst_f sp k)"
        using t_add_node_other [of "ptr_index d" ?c "-1" v w] by (auto split: if_splits)
    qed (use S' in \<open>auto simp: set_bnst_keeps bnst_f_def\<close>)
    then show ?thesis
      using l p(1) by (auto simp: t shared_below_def set_bnst_keeps bnst_f_def) (auto simp: set_bnst_nth)
  next
    case False
    then have "t = s" using run S' by (auto simp: share_modifier_def Let_def)
    then show ?thesis using S False by auto
  qed
  then show "shared_below p cs sp t" "length (kids t p) \<le> length (kids s p)"
    "n_para_type (bnst_data sp ! ptr_index (cs ! i)) = PARA_NIL \<Longrightarrow>
      check_feature (bnst_f sp (ptr_index (cs ! i))) s_k_renyou = None \<Longrightarrow> length (kids t p) \<le> i" by auto
qed

text \<open>
  C34. When a modifier of a coordination is handed to the conjuncts, the null pointer in its place cuts
  off every child behind it, the ones that are not handed over to the conjuncts as well.
\<close>

theorem shared_modifier_cuts_children:
  assumes "fold_option (share_modifier p (kids sp p)) [0..<length (kids sp p)] sp = Some sp'"
    and "p < length (bnst_data sp)" and "\<forall>c \<in> set (kids sp p). ptr_index c \<noteq> p" and "i < length (kids sp p)"
    and "n_para_type (bnst_data sp ! ptr_index (kids sp p ! i)) = PARA_NIL"
    and "check_feature (bnst_f sp (ptr_index (kids sp p ! i))) s_k_renyou = None"
  shows "\<exists>l \<le> i. kids sp' p = take l (kids sp p)"
proof -
  let ?cs = "kids sp p"
  have "[0..<length ?cs] = [0..<i] @ i # [Suc i..<length ?cs]"
    using assms(4) by (metis upt_conv_Cons upt_add_eq_append le_add_diff_inverse less_imp_le plus_nat.add_0 zero_le)
  then obtain s t where s: "fold_option (share_modifier p ?cs) [0..<i] sp = Some s" "share_modifier p ?cs i s = Some t"
    and t: "fold_option (share_modifier p ?cs) [Suc i..<length ?cs] t = Some sp'"
    using assms(1) by (auto simp: fold_option_append bind_eq_Some_conv)
  have "shared_below p ?cs sp s"
    by (rule fold_option_invariant [OF s(1)])
      (use share_modifier_step(1) [OF _ _ assms(2,3)] in \<open>auto simp: shared_below_def [of _ _ _ sp] intro: exI [of _ "length ?cs"]\<close>)
  note step = share_modifier_step [OF s(2) this assms(2,3)]
  have "shared_below p ?cs sp sp' \<and> length (kids sp' p) \<le> i"
    by (rule fold_option_invariant [OF t]) (use step assms(5,6) in \<open>auto dest: share_modifier_step(1,2) [OF _ _ assms(2,3)] intro: le_trans\<close>)
  then obtain l where "kids sp' p = take l ?cs" "length (take l ?cs) \<le> i" by (auto simp: shared_below_def)
  then show ?thesis by (intro exI [of _ "length (take l ?cs)"]) (auto simp: min_def)
qed

section \<open>Examples\<close>

text \<open>Sentences by the heads of their bunsetsu, and a coordination of the first two bunsetsu.\<close>

definition sample_tree :: "(nat \<Rightarrow> int) \<Rightarrow> nat \<Rightarrow> SENTENCE_DATA" where
  "sample_tree h n =
     (sample_sentence (replicate n []))
       \<lparr>bnst_data := map (\<lambda>i. (sample_bnst [])\<lparr>n_num := int i, n_dpnd_head := h i\<rparr>) [0..<n]\<rparr>"

lemma sample_tree_sel [simp]:
  "Bnst_num (sample_tree h n) = n" "New_Bnst_num (sample_tree h n) = 0" "length (bnst_data (sample_tree h n)) = n"
  "i < n \<Longrightarrow> n_num (bnst_data (sample_tree h n) ! i) = int i"
  "i < n \<Longrightarrow> n_dpnd_head (bnst_data (sample_tree h n) ! i) = h i"
  "i < n \<Longrightarrow> parent_of (sample_tree h n) i = None"
  by (simp_all add: sample_tree_def sample_sentence_def sample_bnst_def NODE.extend_def sample_node_def)

definition sample_two :: PARA_MANAGER where
  "sample_two =
     \<lparr>pm_para_data = [0], pm_start = [0, 1], pm_end = [0, 1], pm_parent = None, pm_child = [], pm_status = CHR ''w''\<rparr>"


lemma sample_tree_run:
  "map_option fst (make_dpnd_tree False (\<lambda>_ _. 1) ([] :: int PARA_DATA list) [sample_two] (sample_tree int 3)) = Some True"
  by code_simp


theorem manager_depth_enough_witness:
  "para_top_expand 7 [sample_two] 0 = para_top_expand (Suc (length [sample_two])) [sample_two] 0"
proof -
  have "{(c, m). m < length [sample_two] \<and> c \<in> set (pm_child ([sample_two] ! m))} = {}"
    by (auto simp: sample_two_def less_Suc_eq)
  then have "acyclic {(c, m). m < length [sample_two] \<and> c \<in> set (pm_child ([sample_two] ! m))}"
    by (simp only: acyclic_def trancl_empty empty_iff not_False_eq_True simp_thms)
  then show ?thesis
    using manager_depth_enough [where ms = "[sample_two]" and m = 0 and d = 7 and ps = "[] :: int PARA_DATA list"]
    by (auto simp: sample_two_def simp del: para_top_expand.simps strong_para_expand.simps)
qed

text \<open>A last conjunct with two dependants, the first conjunct and a bunsetsu between the two.\<close>

definition sample_top :: SENTENCE_DATA where
  "sample_top = set_bnst 2 (\<lambda>b. b\<lparr>n_child := [BnstP 1, BnstP 0]\<rparr>) (sample_tree int 3)"

definition sample_ends :: PARA_MANAGER where
  "sample_ends = sample_two\<lparr>pm_start := [0, 1], pm_end := [0, 2]\<rparr>"

theorem top_expand_shape_witness:
  "\<exists>sp'. top_expand sample_ends sample_top = Some (True, sp') \<and> kids sp' 2 = [BnstP 3, BnstP 0] \<and> kids sp' 3 = [BnstP 1]"
proof -
  have "map_option fst (top_expand sample_ends sample_top) = Some True" by code_simp
  then obtain sp' where sp': "top_expand sample_ends sample_top = Some (True, sp')" by auto
  have "get_correct_postprocessed_bnst_num sample_top (last (pm_end sample_ends)) = Some 2"
    "get_correct_postprocessed_bnst_num sample_top (last (butlast (pm_end sample_ends))) = Some 0"
    "kids sample_top 2 = map BnstP [1, 0]"
    "moves 0 sample_top (BnstP 1)" "\<not> moves 0 sample_top (BnstP 0)"
    "Bnst_num sample_top = 3 \<and> New_Bnst_num sample_top = 0 \<and> length (bnst_data sample_top) = 3"
    by code_simp+
  then show ?thesis using top_expand_shape [OF sp', of 2 0 3 "[1, 0]"] sp' by auto
qed

theorem far_dependants_dropped_witness:
  "\<exists>sp'. make_simple_tree (\<lambda>_ _. 1) [] (sample_tree (\<lambda>_. 32) 33) = Some sp' \<and> parent_of sp' 0 = None"
proof -
  have h: "tree_heads (\<lambda>_ _. 1) [] (sample_tree (\<lambda>_. 32) 33) i = 32" if "i < 33" for i
    using that by (simp add: tree_heads_def)
  then have "filter (\<lambda>i. tree_heads (\<lambda>_ _. 1) [] (sample_tree (\<lambda>_. 32) 33) i = int 32) [Suc 0..<32] = [Suc 0..<32]"
    by (simp add: filter_id_conv)
  then show ?thesis
    using far_dependants_dropped [of "sample_tree (\<lambda>_. 32) 33" "\<lambda>_ _. 1" "[]" 0 32] h [of 0] by auto
qed

text \<open>A coordination with a conjunct, a modifier and an adverbial dependant.\<close>

definition sample_shared :: SENTENCE_DATA where
  "sample_shared =
     set_bnst 3 (\<lambda>b. b\<lparr>n_para_top_p := True, n_child := [BnstP 2, BnstP 1, BnstP 0]\<rparr>)
       (set_bnst 2 (\<lambda>b. b\<lparr>n_para_type := PARA_NORMAL\<rparr>) (set_bnst 0 (\<lambda>b. b\<lparr>n_f := [s_k_renyou]\<rparr>) (sample_tree int 4)))"

theorem shared_modifier_cuts_children_witness:
  "\<exists>sp'. fold_option (share_modifier 3 (kids sample_shared 3)) [0..<3] sample_shared = Some sp' \<and>
     BnstP 0 \<notin> set (kids sp' 3)"
proof -
  have "map_option (\<lambda>_. ()) (fold_option (share_modifier 3 (kids sample_shared 3)) [0..<3] sample_shared) = Some ()"
    by code_simp
  then obtain sp' where sp': "fold_option (share_modifier 3 (kids sample_shared 3)) [0..<3] sample_shared = Some sp'" by auto
  have "kids sample_shared 3 = [BnstP 2, BnstP 1, BnstP 0]" "length (bnst_data sample_shared) = 4"
    "n_para_type (bnst_data sample_shared ! 1) = PARA_NIL" "check_feature (bnst_f sample_shared 1) s_k_renyou = None"
    by code_simp+
  then have "\<exists>l \<le> 1. kids sp' 3 = take l [BnstP 2, BnstP 1, BnstP 0]"
    using shared_modifier_cuts_children [of 3 sample_shared sp' 1] sp' by (simp add: numeral_3_eq_3)
  then obtain l where "l = 0 \<or> l = 1" "kids sp' 3 = take l [BnstP 2, BnstP 1, BnstP 0]" by (auto simp: le_Suc_eq)
  then show ?thesis using sp' by auto
qed

end
