(* ===== verification/Knp_Segment.thy ===== *)
theory Knp_Segment
  imports Knp_Tree
begin

text \<open>
  Bunsetsu and base phrases (\<open>src/system/read_data.c\<close>): the morphemes of a sentence are grouped into
  bunsetsu at the feature \<open>s_bunsetsu_shi\<close> and into base phrases, which refine the bunsetsu, at the feature
  \<open>s_tag_shi\<close>, both of which rules have assigned; heads, lengths and the text of the content words.

  The arrays of a sentence are as long as they are allocated; a record in them keeps the fields that a
  function does not set. \<open>make_tag_units\<close> is modelled up to its last call, \<^verbatim>\<open>after_make_tag_units\<close>.
\<close>

section \<open>The model\<close>

definition set_mrph :: "nat \<Rightarrow> (MRPH_DATA \<Rightarrow> MRPH_DATA) \<Rightarrow> SENTENCE_DATA \<Rightarrow> SENTENCE_DATA" where
  "set_mrph i f sp = sp\<lparr>mrph_data := (mrph_data sp)[i := f (mrph_data sp ! i)]\<rparr>"

definition set_tag :: "nat \<Rightarrow> (TAG_DATA \<Rightarrow> TAG_DATA) \<Rightarrow> SENTENCE_DATA \<Rightarrow> SENTENCE_DATA" where
  "set_tag i f sp = sp\<lparr>tag_data := (tag_data sp)[i := f (tag_data sp ! i)]\<rparr>"

definition mrph_f :: "SENTENCE_DATA \<Rightarrow> nat \<Rightarrow> FEATURE" where
  "mrph_f sp i = m_f (mrph_data sp ! i)"

subsection \<open>Bunsetsu\<close>

text \<open>The test whether there are too many bunsetsu comes after the first writes behind the array.\<close>

definition init_bnst :: "nat \<Rightarrow> SENTENCE_DATA \<Rightarrow> SENTENCE_DATA option" where
  "init_bnst i sp =
     (let k = Bnst_num sp in
      if k < length (bnst_data sp) \<and> k < BNST_MAX
      then Some ((set_bnst k (\<lambda>b. b\<lparr>n_type := IS_BNST_DATA, n_num := int k, n_mrph_ptr := i, n_mrph_num := 0,
                   n_para_key_type := PARA_KEY_O, n_para_top_p := False, n_para_type := PARA_NIL, n_to_para_p := False,
                   n_voice := 0, n_SCASE_code := replicate SCASE_CODE_SIZE 0\<rparr>) sp)\<lparr>Bnst_num := k + 1\<rparr>)
      else None)"

definition bunsetsu_step :: "nat \<Rightarrow> nat option \<times> SENTENCE_DATA \<Rightarrow> (nat option \<times> SENTENCE_DATA) option" where
  "bunsetsu_step i = (\<lambda>(b, sp).
     do { (b', sp') \<leftarrow> (if check_feature (mrph_f sp i) s_bunsetsu_shi \<noteq> None
                      then map_option (Pair (Some (Bnst_num sp))) (init_bnst i sp) else Some (b, sp));
          p \<leftarrow> b';
          Some (b', set_bnst p (\<lambda>b. b\<lparr>n_mrph_num := n_mrph_num b + 1\<rparr>) sp') })"

fun length_loop :: "MRPH_DATA list \<Rightarrow> nat \<Rightarrow> nat option" where
  "length_loop [] n = Some n"
| "length_loop (m # ms) n =
     do { l \<leftarrow> string_length (m_Goi2 m);
          if BNST_LENGTH_MAX \<le> n + 2 * l then Some n else length_loop ms (n + 2 * l) }"

definition calc_bnst_length :: "SENTENCE_DATA \<Rightarrow> ('a NODE_scheme \<Rightarrow> nat option)" where
  "calc_bnst_length sp b = length_loop (take (n_mrph_num b) (drop (n_mrph_ptr b) (mrph_data sp))) 0"

definition finish_bnst :: "nat \<Rightarrow> SENTENCE_DATA \<Rightarrow> SENTENCE_DATA option" where
  "finish_bnst k sp =
     map_option (\<lambda>l. set_bnst k (\<lambda>b. b\<lparr>n_dpnd_head := 0, n_dpnd_type := CHR ''D'', n_length := l\<rparr>) sp)
       (calc_bnst_length sp (bnst_data sp ! k))"

definition make_bunsetsu :: "SENTENCE_DATA \<Rightarrow> SENTENCE_DATA option" where
  "make_bunsetsu sp =
     do { (_, sp1) \<leftarrow> fold_option bunsetsu_step [0..<length (mrph_data sp)]
                       (None, sp\<lparr>Bnst_num := 0, Max_New_Bnst_num := 0\<rparr>);
          fold_option finish_bnst [0..<Bnst_num sp1] sp1 }"

subsection \<open>Heads\<close>

fun jiritu_loop :: "MRPH_DATA list \<Rightarrow> string \<Rightarrow> string" where
  "jiritu_loop [] s = s"
| "jiritu_loop (m # ms) s =
     (if check_feature (m_f m) s_settou \<noteq> None then jiritu_loop ms s
      else if BNST_LENGTH_MAX < length s + length (m_Goi m) + 2 then s
      else jiritu_loop ms (s @ m_Goi m))"

definition make_Jiritu_Go :: "nat \<Rightarrow> SENTENCE_DATA \<Rightarrow> SENTENCE_DATA option" where
  "make_Jiritu_Go k sp =
     map_option (\<lambda>h. set_bnst k (\<lambda>b. b\<lparr>b_Jiritu_Go :=
         jiritu_loop (map (\<lambda>i. mrph_data sp ! i) [n_mrph_ptr b..<Suc h]) []\<rparr>) sp)
       (n_head_ptr (bnst_data sp ! k))"

definition head_candidate :: "int \<Rightarrow> FEATURE \<Rightarrow> bool" where
  "head_candidate type f \<longleftrightarrow>
     (type = IS_TAG_DATA \<or> check_feature f s_tokushu_himidashi = None) \<and>
     (check_feature f s_naiyougo \<noteq> None \<or> check_feature f s_jun_naiyougo \<noteq> None)"

definition set_head_ptr :: "ptr \<Rightarrow> nat \<Rightarrow> SENTENCE_DATA \<Rightarrow> SENTENCE_DATA" where
  "set_head_ptr p h sp =
     (case p of BnstP i \<Rightarrow> set_bnst i (\<lambda>b. b\<lparr>n_head_ptr := Some h\<rparr>) sp
              | TagP i \<Rightarrow> set_tag i (\<lambda>t. t\<lparr>n_head_ptr := Some h\<rparr>) sp
              | MrphP i \<Rightarrow> sp)"

definition decide_head_ptr :: "ptr \<Rightarrow> SENTENCE_DATA \<Rightarrow> SENTENCE_DATA option" where
  "decide_head_ptr p sp =
     do { n \<leftarrow> node_at sp p;
          Some (case find (\<lambda>i. head_candidate (n_type n) (mrph_f sp (n_mrph_ptr n + i))) (rev [0..<n_mrph_num n]) of
                  None \<Rightarrow> set_head_ptr p (n_mrph_ptr n) sp
                | Some i \<Rightarrow>
                    set_head_ptr p (n_mrph_ptr n + i)
                      (if n_type n = IS_TAG_DATA then sp
                       else set_mrph (n_mrph_ptr n + i) (\<lambda>m. m\<lparr>m_f := assign_cfeature [] (m_f m) s_bunsetsu_shuji False\<rparr>) sp)) }"

subsection \<open>Base phrases\<close>

definition zero_tag :: TAG_DATA where
  "zero_tag =
     NODE.extend
       \<lparr>n_type = 0, n_num = 0, n_parent = None, n_child = [], n_dpnd_head = 0, n_dpnd_type = CHR 0x00, n_dpnd_dflt = 0,
        n_para_num = 0, n_para_key_type = 0, n_para_top_p = False, n_para_type = 0, n_to_para_p = False, n_sp_level = 0,
        n_mrph_ptr = 0, n_mrph_num = 0, n_preserve_mrph_num = 0, n_length = 0, n_head_ptr = None, n_BGH_code = [],
        n_SM_code = [], n_voice = 0, n_f = [], n_SCASE_code = replicate SCASE_CODE_SIZE 0\<rparr>
       (TAG_DATA.fields 0 0 0 0 0 0 None None None)"

definition push_tag_units :: "nat \<Rightarrow> nat \<Rightarrow> SENTENCE_DATA \<Rightarrow> SENTENCE_DATA" where
  "push_tag_units tp mp sp =
     set_tag tp (\<lambda>t.
       (if check_feature (mrph_f sp mp) s_hi_dokuritsu_settou \<noteq> None then
          t\<lparr>t_settou_ptr := (if t_settou_num t = 0 then Some mp else t_settou_ptr t), t_settou_num := t_settou_num t + 1\<rparr>
        else if check_feature (mrph_f sp mp) s_jiritsu \<noteq> None \<or> check_feature (mrph_f sp mp) s_naiyougo \<noteq> None then
          t\<lparr>t_jiritu_ptr := (if t_jiritu_num t = 0 then Some mp else t_jiritu_ptr t), t_jiritu_num := t_jiritu_num t + 1\<rparr>
        else t\<lparr>t_fuzoku_ptr := (if t_fuzoku_num t = 0 then Some mp else t_fuzoku_ptr t), t_fuzoku_num := t_fuzoku_num t + 1\<rparr>)
       \<lparr>n_mrph_num := n_mrph_num t + 1\<rparr>) sp"

text \<open>
  Numbers counted upwards from the entry before \<open>j\<close> back to the first one of its group: the positions
  from the end of a base phrase or of a bunsetsu.
\<close>

primrec count_back :: "('a \<Rightarrow> bool) \<Rightarrow> (int \<Rightarrow> 'a \<Rightarrow> 'a) \<Rightarrow> nat \<Rightarrow> int \<Rightarrow> 'a list \<Rightarrow> 'a list" where
  "count_back first set_num 0 c xs = xs"
| "count_back first set_num (Suc j) c xs =
     (let ys = xs[j := set_num c (xs ! j)] in if first (xs ! j) then ys else count_back first set_num j (c + 1) ys)"

definition make_mrph_set_inum :: "nat \<Rightarrow> SENTENCE_DATA \<Rightarrow> SENTENCE_DATA" where
  "make_mrph_set_inum num sp =
     sp\<lparr>mrph_data := count_back (\<lambda>m. 0 \<le> m_tnum m) (\<lambda>c m. m\<lparr>m_inum := c\<rparr>) num 0 (mrph_data sp)\<rparr>"

definition make_tag_unit_set_inum :: "nat \<Rightarrow> SENTENCE_DATA \<Rightarrow> SENTENCE_DATA" where
  "make_tag_unit_set_inum num sp =
     sp\<lparr>tag_data := count_back (\<lambda>t. 0 \<le> t_bnum t) (\<lambda>c t. t\<lparr>t_inum := c\<rparr>) (num - 1) 1 (tag_data sp)\<rparr>"

definition put_tag :: "nat \<Rightarrow> TAG_DATA \<Rightarrow> SENTENCE_DATA \<Rightarrow> SENTENCE_DATA option" where
  "put_tag i t sp =
     (if i < length (tag_data sp) then Some (set_tag i (\<lambda>_. t) sp)
      else if i = length (tag_data sp) then Some (sp\<lparr>tag_data := tag_data sp @ [t]\<rparr>) else None)"

text \<open>The next bunsetsu that has not begun yet, and the one that has begun last.\<close>

type_synonym bnst_ptrs = "nat option \<times> nat option"

definition begins_bnst :: "SENTENCE_DATA \<Rightarrow> nat \<Rightarrow> nat option \<Rightarrow> bool" where
  "begins_bnst sp i bp \<longleftrightarrow> (case bp of None \<Rightarrow> False | Some b \<Rightarrow> n_mrph_ptr (bnst_data sp ! b) = i)"

definition first_tag :: "nat \<Rightarrow> nat \<Rightarrow> SENTENCE_DATA \<Rightarrow> SENTENCE_DATA \<times> bnst_ptrs" where
  "first_tag tp b sp =
     (let sp1 = (if 0 < tp \<and> t_bnum (tag_data sp ! (tp - 1)) < 0 then make_tag_unit_set_inum tp sp else sp);
          num = n_num (bnst_data sp ! b)
      in (set_bnst b (\<lambda>b. b\<lparr>b_tag_ptr := tp, b_tag_num := 1\<rparr>) (set_tag tp (\<lambda>t. t\<lparr>t_bnum := num, t_b_ptr := b\<rparr>) sp1),
          if num < int (Bnst_num sp) - 1 then Some (b + 1) else None, Some b))"

definition later_tag :: "nat \<Rightarrow> nat \<Rightarrow> SENTENCE_DATA \<Rightarrow> SENTENCE_DATA" where
  "later_tag tp pre sp =
     set_bnst pre (\<lambda>b. b\<lparr>b_tag_num := b_tag_num b + 1\<rparr>) (set_tag tp (\<lambda>t. t\<lparr>t_bnum := -1, t_b_ptr := pre\<rparr>) sp)"

definition mark_tag :: "nat \<Rightarrow> MRPH_DATA \<Rightarrow> MRPH_DATA" where
  "mark_tag tp m =
     (if check_feature (m_f m) s_tag_shi = None
      then m\<lparr>m_f := assign_cfeature [] (m_f m) s_tag_shi False, m_tnum := int tp\<rparr> else m\<lparr>m_tnum := int tp\<rparr>)"

definition new_tag :: "nat \<Rightarrow> SENTENCE_DATA \<times> bnst_ptrs \<Rightarrow> (SENTENCE_DATA \<times> bnst_ptrs) option" where
  "new_tag i = (\<lambda>(sp, bp, pre).
     let tp = Tag_num sp
     in do { sp1 \<leftarrow> put_tag tp (zero_tag\<lparr>n_num := int tp, n_mrph_ptr := i\<rparr>) sp;
             let sp2 = (make_mrph_set_inum i (set_mrph i (mark_tag tp) sp1))\<lparr>Tag_num := tp + 1\<rparr>;
             if begins_bnst sp i bp then Some (first_tag tp (the bp) sp2)
             else do { q \<leftarrow> pre; Some (later_tag tp q sp2, bp, pre) } })"

definition tag_step :: "nat \<Rightarrow> SENTENCE_DATA \<times> bnst_ptrs \<Rightarrow> (SENTENCE_DATA \<times> bnst_ptrs) option" where
  "tag_step i = (\<lambda>(sp, bp, pre).
     do { (sp', bp', pre') \<leftarrow>
            (if check_feature (mrph_f sp i) s_tag_shi \<noteq> None \<or> begins_bnst sp i bp then new_tag i (sp, bp, pre)
             else Some (set_mrph i (\<lambda>m. m\<lparr>m_tnum := -1\<rparr>) sp, bp, pre));
          if Tag_num sp' = 0 then None else Some (push_tag_units (Tag_num sp' - 1) i sp', bp', pre') })"

definition make_tag_units :: "SENTENCE_DATA \<Rightarrow> SENTENCE_DATA option" where
  "make_tag_units sp =
     do { (sp1, _) \<leftarrow> fold_option tag_step [0..<length (mrph_data sp)] (sp\<lparr>Tag_num := 0\<rparr>, Some 0, None);
          if Tag_num sp1 = 0 then None
          else Some (make_mrph_set_inum (length (mrph_data sp))
                 (if t_bnum (tag_data sp1 ! (Tag_num sp1 - 1)) < 0 then make_tag_unit_set_inum (Tag_num sp1) sp1 else sp1)) }"

section \<open>Marked positions\<close>

text \<open>
  The groups that marks on the positions \<open>0..<n\<close> begin: the number of marks before a position, and how many
  positions without a mark follow it.
\<close>

definition cnt :: "(nat \<Rightarrow> bool) \<Rightarrow> nat \<Rightarrow> nat" where
  "cnt P i = length (filter P [0..<i])"

definition run :: "(nat \<Rightarrow> bool) \<Rightarrow> nat \<Rightarrow> nat \<Rightarrow> nat" where
  "run P j n = length (takeWhile (\<lambda>x. \<not> P x) [Suc j..<n])"

lemma cnt_0 [simp]: "cnt P 0 = 0"
  by (simp add: cnt_def)

lemma cnt_Suc [simp]: "cnt P (Suc i) = (if P i then Suc (cnt P i) else cnt P i)"
  by (simp add: cnt_def)

lemma cnt_mono: "i \<le> j \<Longrightarrow> cnt P i \<le> cnt P j"
  by (rule lift_Suc_mono_le [of "cnt P"]) auto

lemma cnt_less: "i < j \<Longrightarrow> P i \<Longrightarrow> cnt P i < cnt P j"
  using cnt_mono [of "Suc i" j P] by simp

lemma cnt_inj: "P i \<Longrightarrow> P j \<Longrightarrow> cnt P i = cnt P j \<longleftrightarrow> i = j"
  using cnt_less [of i j P] cnt_less [of j i P] by (cases i j rule: linorder_cases) auto

lemma cnt_surj: "k < cnt P n \<Longrightarrow> \<exists>j < n. P j \<and> cnt P j = k"
proof (induction n)
  case (Suc n)
  then show ?case by (cases "k < cnt P n") (auto split: if_splits intro: less_SucI)
qed simp

lemma last_mark:
  "0 < cnt P i \<Longrightarrow> \<exists>l < i. P l \<and> (\<forall>x. l < x \<and> x < i \<longrightarrow> \<not> P x) \<and> Suc (cnt P l) = cnt P i"
proof (induction i)
  case (Suc i)
  show ?case
  proof (cases "P i")
    case False
    then obtain l where "l < i" "P l" "\<forall>x. l < x \<and> x < i \<longrightarrow> \<not> P x" "Suc (cnt P l) = cnt P i"
      using Suc by auto
    then show ?thesis using False by (intro exI [of _ l]) (auto simp: less_Suc_eq)
  qed (auto intro!: exI [of _ i])
qed simp

lemma run_Suc:
  assumes "j < n"
  shows "run P j (Suc n) = (if \<forall>x. j < x \<and> x \<le> n \<longrightarrow> \<not> P x then Suc (run P j n) else run P j n)"
proof (cases "\<forall>x \<in> set [Suc j..<n]. \<not> P x")
  case True
  then have "takeWhile (\<lambda>x. \<not> P x) ([Suc j..<n] @ [n]) = [Suc j..<n] @ takeWhile (\<lambda>x. \<not> P x) [n]"
    by (intro takeWhile_append2) simp
  moreover have "length (takeWhile (\<lambda>x. \<not> P x) [Suc j..<n]) = n - Suc j"
    using True by (subst takeWhile_eq_all_conv [THEN iffD2]) auto
  ultimately show ?thesis using True assms by (auto simp: run_def Suc_le_eq le_less)
next
  case False
  then obtain x where "x \<in> set [Suc j..<n]" "P x" by blast
  then show ?thesis using assms takeWhile_append1 [of x "[Suc j..<n]" "\<lambda>x. \<not> P x" "[n]"]
    by (auto simp: run_def intro!: exI [of _ x])
qed

lemma run_none [simp]: "n \<le> Suc j \<Longrightarrow> run P j n = 0"
  by (simp add: run_def)

lemma run_closed: "j < n \<Longrightarrow> j < x \<Longrightarrow> x \<le> n \<Longrightarrow> P x \<Longrightarrow> run P j (Suc n) = run P j n"
  by (auto simp: run_Suc)

lemma run_open: "j < n \<Longrightarrow> \<forall>x. j < x \<and> x < n \<longrightarrow> \<not> P x \<Longrightarrow> run P j n = n - Suc j"
proof -
  assume "\<forall>x. j < x \<and> x < n \<longrightarrow> \<not> P x"
  then show ?thesis
    unfolding run_def by (subst takeWhile_eq_all_conv [THEN iffD2]) (auto simp: Suc_le_eq)
qed

lemma run_le: "j < n \<Longrightarrow> j + run P j n < n"
proof -
  assume "j < n"
  moreover have "run P j n \<le> length [Suc j..<n]" unfolding run_def by (rule length_takeWhile_le)
  ultimately show ?thesis by simp
qed

section \<open>Bunsetsu\<close>

abbreviation starts_bnst :: "SENTENCE_DATA \<Rightarrow> nat \<Rightarrow> bool" where
  "starts_bnst sp i \<equiv> check_feature (mrph_f sp i) s_bunsetsu_shi \<noteq> None"

text \<open>
  The first \<open>i\<close> morphemes are grouped at the marks \<open>P\<close>: the bunsetsu with number \<open>k\<close> begins at the
  mark that \<open>k\<close> other ones precede and ends before the next one.
\<close>

definition grouped :: "(nat \<Rightarrow> bool) \<Rightarrow> nat \<Rightarrow> SENTENCE_DATA \<Rightarrow> bool" where
  "grouped P i sp \<longleftrightarrow>
     Bnst_num sp = cnt P i \<and> cnt P i \<le> length (bnst_data sp) \<and>
     (\<forall>j < i. P j \<longrightarrow>
        n_num (bnst_data sp ! cnt P j) = int (cnt P j) \<and> n_mrph_ptr (bnst_data sp ! cnt P j) = j \<and>
        n_mrph_num (bnst_data sp ! cnt P j) = Suc (run P j i))"

lemma bunsetsu_step_grouped:
  assumes run: "bunsetsu_step i (b, sp) = Some (b', sp')" and P: "P i \<longleftrightarrow> starts_bnst sp i"
    and G: "grouped P i sp" and b: "b = (if cnt P i = 0 then None else Some (cnt P i - 1))"
  shows "grouped P (Suc i) sp' \<and> b' = Some (cnt P (Suc i) - 1) \<and> mrph_data sp' = mrph_data sp \<and> 0 < cnt P (Suc i)"
proof (cases "P i")
  case True
  define k where "k = cnt P i"
  have k: "Bnst_num sp = k" "k < length (bnst_data sp)" and sp': "b' = Some k" "sp' = set_bnst k (\<lambda>b. b\<lparr>n_mrph_num := n_mrph_num b + 1\<rparr>)
      ((set_bnst k (\<lambda>b. b\<lparr>n_type := IS_BNST_DATA, n_num := int k, n_mrph_ptr := i, n_mrph_num := 0,
                   n_para_key_type := PARA_KEY_O, n_para_top_p := False, n_para_type := PARA_NIL, n_to_para_p := False,
                   n_voice := 0, n_SCASE_code := replicate SCASE_CODE_SIZE 0\<rparr>) sp)\<lparr>Bnst_num := k + 1\<rparr>)"
    using run True P G by (auto simp: bunsetsu_step_def init_bnst_def Let_def grouped_def k_def split: if_splits)
  have other: "cnt P j \<noteq> k" if "j < i" "P j" for j using cnt_less [of j i P] that by (simp add: k_def)
  have run_same: "run P j (Suc i) = run P j i" if "j < i" for j using run_closed [OF that that] True by simp
  show ?thesis
    using G k True other run_same unfolding sp' grouped_def
    by (auto simp: set_bnst_nth less_Suc_eq k_def [symmetric]) (auto simp: set_bnst_def)
next
  case False
  then have pos: "0 < cnt P i" and sp': "b' = Some (cnt P i - 1)"
      "sp' = set_bnst (cnt P i - 1) (\<lambda>b. b\<lparr>n_mrph_num := n_mrph_num b + 1\<rparr>) sp"
    using run P b by (auto simp: bunsetsu_step_def split: if_splits)
  obtain l where l: "l < i" "P l" "\<forall>x. l < x \<and> x < i \<longrightarrow> \<not> P x" "Suc (cnt P l) = cnt P i"
    using last_mark [OF pos] by blast
  have k: "cnt P i - 1 = cnt P l" "cnt P l < length (bnst_data sp)" using l G by (auto simp: grouped_def)
  have l_run: "run P l (Suc i) = Suc (run P l i)" using l False by (auto simp: run_Suc le_less)
  have other: "cnt P j \<noteq> cnt P l \<and> run P j (Suc i) = run P j i" if "j < i" "P j" "j \<noteq> l" for j
  proof -
    have "j < l" using that l(3) by (metis linorder_neqE_nat)
    then show ?thesis using that l run_closed [of j i l P] cnt_inj [of P j l] by simp
  qed
  show ?thesis
    unfolding grouped_def sp' k(1)
  proof (intro conjI allI impI)
    fix j
    assume j: "j < Suc i" "P j"
    then have "j < i" using False by (auto simp: less_Suc_eq)
    note * = G [unfolded grouped_def, THEN conjunct2, THEN conjunct2, rule_format, OF this j(2)]
    show "n_num (bnst_data (set_bnst (cnt P l) (\<lambda>b. b\<lparr>n_mrph_num := n_mrph_num b + 1\<rparr>) sp) ! cnt P j) = int (cnt P j)"
      "n_mrph_ptr (bnst_data (set_bnst (cnt P l) (\<lambda>b. b\<lparr>n_mrph_num := n_mrph_num b + 1\<rparr>) sp) ! cnt P j) = j"
      "n_mrph_num (bnst_data (set_bnst (cnt P l) (\<lambda>b. b\<lparr>n_mrph_num := n_mrph_num b + 1\<rparr>) sp) ! cnt P j) = Suc (run P j (Suc i))"
      using * k(2) other [OF \<open>j < i\<close> j(2)] l_run by (cases "j = l"; auto simp: set_bnst_nth)+
  qed (use G False l pos in \<open>auto simp: grouped_def set_bnst_def\<close>)
qed

lemma finish_bnst_grouped:
  "finish_bnst k sp = Some sp' \<Longrightarrow> grouped P n sp \<Longrightarrow> grouped P n sp' \<and> mrph_data sp' = mrph_data sp"
  by (auto simp: finish_bnst_def grouped_def set_bnst_keeps) (simp add: set_bnst_def)

lemma bunsetsu_loop:
  assumes "fold_option bunsetsu_step [0..<i] (None, sp) = Some (b, sp')" and "Bnst_num sp = 0"
  shows "grouped (starts_bnst sp) i sp' \<and> b = (if i = 0 then None else Some (cnt (starts_bnst sp) i - 1)) \<and>
    mrph_data sp' = mrph_data sp \<and> (0 < i \<longrightarrow> 0 < cnt (starts_bnst sp) i)"
  using assms(1)
proof (induction i arbitrary: b sp')
  case (Suc i)
  then obtain c u where u: "fold_option bunsetsu_step [0..<i] (None, sp) = Some (c, u)" "bunsetsu_step i (c, u) = Some (b, sp')"
    by (auto simp: fold_option_append bind_eq_Some_conv)
  have "grouped (starts_bnst sp) (Suc i) sp' \<and> b = Some (cnt (starts_bnst sp) (Suc i) - 1) \<and> mrph_data sp' = mrph_data u \<and>
      0 < cnt (starts_bnst sp) (Suc i)"
    by (rule bunsetsu_step_grouped [OF u(2)]) (use Suc.IH [OF u(1)] in \<open>auto simp: mrph_f_def simp del: cnt_Suc\<close>)
  then show ?case using Suc.IH [OF u(1)] by simp
qed (use assms(2) in \<open>simp add: grouped_def\<close>)

text \<open>
  The bunsetsu of a sentence are the groups of morphemes that the feature for the beginning of a
  bunsetsu marks: they are numbered in order, each begins at a mark and reaches to the next one.
\<close>

theorem make_bunsetsu_groups:
  assumes "make_bunsetsu sp = Some sp'"
  shows "grouped (starts_bnst sp) (length (mrph_data sp)) sp' \<and> mrph_data sp' = mrph_data sp \<and>
    (mrph_data sp \<noteq> [] \<longrightarrow> starts_bnst sp 0)"
proof -
  let ?n = "length (mrph_data sp)" and ?sp = "sp\<lparr>Bnst_num := 0, Max_New_Bnst_num := 0\<rparr>"
  obtain b sp1 where loop: "fold_option bunsetsu_step [0..<?n] (None, ?sp) = Some (b, sp1)"
    and fin: "fold_option finish_bnst [0..<Bnst_num sp1] sp1 = Some sp'"
    using assms by (auto simp: make_bunsetsu_def bind_eq_Some_conv)
  have marks: "starts_bnst ?sp = starts_bnst sp" by (simp add: mrph_f_def)
  have G: "grouped (starts_bnst sp) ?n sp1 \<and> mrph_data sp1 = mrph_data sp"
    using bunsetsu_loop [OF loop] unfolding marks by simp
  have "grouped (starts_bnst sp) ?n sp' \<and> mrph_data sp' = mrph_data sp"
    by (rule fold_option_invariant [OF fin, where P = "\<lambda>s. grouped (starts_bnst sp) ?n s \<and> mrph_data s = mrph_data sp"])
      (use G in \<open>auto dest: finish_bnst_grouped\<close>)
  moreover have "starts_bnst sp 0" if "mrph_data sp \<noteq> []"
  proof -
    have "[0..<?n] = 0 # [1..<?n]" using that by (simp add: upt_conv_Cons)
    then obtain s where "bunsetsu_step 0 (None, ?sp) = Some s" using loop by (auto simp: bind_eq_Some_conv)
    then show ?thesis by (auto simp: bunsetsu_step_def mrph_f_def split: if_splits)
  qed
  ultimately show ?thesis by blast
qed

section \<open>Base phrases\<close>

lemma length_count_back [simp]: "length (count_back first set_num num c xs) = length xs"
  by (induction num arbitrary: c xs) (auto simp: Let_def)

lemma count_back_nth:
  assumes "num \<le> length xs" "l < num" "first (xs ! l)" "\<forall>x. l < x \<and> x < num \<longrightarrow> \<not> first (xs ! x)"
  shows "count_back first set_num num c xs ! x =
    (if l \<le> x \<and> x < num then set_num (c + int (num - 1 - x)) (xs ! x) else xs ! x)"
  using assms
proof (induction num arbitrary: c xs)
  case (Suc k)
  show ?case
  proof (cases "l = k")
    case True
    then show ?thesis using Suc.prems by (auto simp: Let_def nth_list_update)
  next
    case False
    let ?ys = "xs[k := set_num c (xs ! k)]"
    have l: "l < k" using False Suc.prems(2) by simp
    have "\<not> first (xs ! k)" using l Suc.prems(4) by simp
    then have "count_back first set_num (Suc k) c xs = count_back first set_num k (c + 1) ?ys" by (simp add: Let_def)
    also have "\<dots> ! x = (if l \<le> x \<and> x < k then set_num (c + 1 + int (k - 1 - x)) (?ys ! x) else ?ys ! x)"
      by (rule Suc.IH) (use Suc.prems l in auto)
    also have "\<dots> = (if l \<le> x \<and> x < Suc k then set_num (c + int (Suc k - 1 - x)) (xs ! x) else xs ! x)"
      using Suc.prems(1) l by (auto simp: nth_list_update less_Suc_eq of_nat_diff algebra_simps)
    finally show ?thesis .
  qed
qed simp

lemma set_tag_sel [simp]:
  "length (tag_data (set_tag i f sp)) = length (tag_data sp)" "bnst_data (set_tag i f sp) = bnst_data sp"
  "mrph_data (set_tag i f sp) = mrph_data sp" "Bnst_num (set_tag i f sp) = Bnst_num sp" "Tag_num (set_tag i f sp) = Tag_num sp"
  by (simp_all add: set_tag_def)

lemma set_mrph_sel [simp]:
  "length (mrph_data (set_mrph i f sp)) = length (mrph_data sp)" "bnst_data (set_mrph i f sp) = bnst_data sp"
  "tag_data (set_mrph i f sp) = tag_data sp" "Bnst_num (set_mrph i f sp) = Bnst_num sp" "Tag_num (set_mrph i f sp) = Tag_num sp"
  by (simp_all add: set_mrph_def)

lemma set_bnst_sel2 [simp]:
  "tag_data (set_bnst i f sp) = tag_data sp" "mrph_data (set_bnst i f sp) = mrph_data sp" "Tag_num (set_bnst i f sp) = Tag_num sp"
  by (simp_all add: set_bnst_def)

lemma inum_sel [simp]:
  "bnst_data (make_mrph_set_inum i sp) = bnst_data sp" "tag_data (make_mrph_set_inum i sp) = tag_data sp"
  "Bnst_num (make_mrph_set_inum i sp) = Bnst_num sp" "Tag_num (make_mrph_set_inum i sp) = Tag_num sp"
  "length (mrph_data (make_mrph_set_inum i sp)) = length (mrph_data sp)"
  "bnst_data (make_tag_unit_set_inum i sp) = bnst_data sp" "mrph_data (make_tag_unit_set_inum i sp) = mrph_data sp"
  "Bnst_num (make_tag_unit_set_inum i sp) = Bnst_num sp" "Tag_num (make_tag_unit_set_inum i sp) = Tag_num sp"
  "length (tag_data (make_tag_unit_set_inum i sp)) = length (tag_data sp)"
  by (simp_all add: make_mrph_set_inum_def make_tag_unit_set_inum_def)

lemma set_tag_nth:
  "i < length (tag_data sp) \<Longrightarrow>
     tag_data (set_tag i f sp) ! k = (if k = i then f (tag_data sp ! i) else tag_data sp ! k)"
  by (simp add: set_tag_def)

lemma set_mrph_nth:
  "i < length (mrph_data sp) \<Longrightarrow>
     mrph_data (set_mrph i f sp) ! k = (if k = i then f (mrph_data sp ! i) else mrph_data sp ! k)"
  by (simp add: set_mrph_def)

text \<open>What \<open>push_tag_units\<close> does to the fields that tell where a base phrase is.\<close>

lemma push_sel [simp]:
  "bnst_data (push_tag_units tp mp sp) = bnst_data sp" "mrph_data (push_tag_units tp mp sp) = mrph_data sp"
  "Bnst_num (push_tag_units tp mp sp) = Bnst_num sp" "Tag_num (push_tag_units tp mp sp) = Tag_num sp"
  "length (tag_data (push_tag_units tp mp sp)) = length (tag_data sp)"
  by (simp_all add: push_tag_units_def)

definition place :: "TAG_DATA \<Rightarrow> int \<times> nat \<times> int \<times> nat \<times> int" where
  "place t = (n_num t, n_mrph_ptr t, t_bnum t, t_b_ptr t, t_inum t)"

lemma push_place:
  "tp < length (tag_data sp) \<Longrightarrow> place (tag_data (push_tag_units tp mp sp) ! k) = place (tag_data sp ! k) \<and>
     n_mrph_num (tag_data (push_tag_units tp mp sp) ! k) = n_mrph_num (tag_data sp ! k) + (if k = tp then 1 else 0)"
  by (simp add: push_tag_units_def set_tag_nth place_def)

lemma put_tag_sel:
  assumes "put_tag i t sp = Some sp'"
  shows "bnst_data sp' = bnst_data sp" "mrph_data sp' = mrph_data sp" "Bnst_num sp' = Bnst_num sp" "Tag_num sp' = Tag_num sp"
    "i < length (tag_data sp')" "tag_data sp' ! i = t" "k < i \<Longrightarrow> tag_data sp' ! k = tag_data sp ! k"
  using assms by (auto simp: put_tag_def set_tag_nth nth_append split: if_splits)

text \<open>A step that begins no base phrase.\<close>

lemma tag_step_none:
  assumes run: "tag_step i (sp, bp, pre) = Some (sp', bp', pre')"
    and no: "check_feature (mrph_f sp i) s_tag_shi = None" "\<not> begins_bnst sp i bp"
    and i: "i < length (mrph_data sp)" and tags: "Tag_num sp \<le> length (tag_data sp)"
  shows "bp' = bp" "pre' = pre" "Tag_num sp' = Tag_num sp" "bnst_data sp' = bnst_data sp" "Bnst_num sp' = Bnst_num sp"
    "0 < Tag_num sp" "length (tag_data sp') = length (tag_data sp)" "length (mrph_data sp') = length (mrph_data sp)"
    "place (tag_data sp' ! k) = place (tag_data sp ! k)"
    "n_mrph_num (tag_data sp' ! k) = n_mrph_num (tag_data sp ! k) + (if k = Tag_num sp - 1 then 1 else 0)"
    "mrph_data sp' ! j = (if j = i then (mrph_data sp ! i)\<lparr>m_tnum := -1\<rparr> else mrph_data sp ! j)"
  using assms by (auto simp: tag_step_def set_mrph_nth push_place split: if_splits)

lemma zero_tag_sel [simp]: "n_mrph_num zero_tag = 0" "t_inum zero_tag = 0"
  by (simp_all add: zero_tag_def NODE.extend_def TAG_DATA.fields_def)

text \<open>A step that begins a base phrase, inside and at the beginning of a bunsetsu.\<close>

lemma tag_step_later:
  assumes run: "tag_step i (sp, bp, pre) = Some (sp', bp', pre')"
    and tag: "check_feature (mrph_f sp i) s_tag_shi \<noteq> None" "\<not> begins_bnst sp i bp" and q: "pre = Some q" "q < length (bnst_data sp)"
  shows "bp' = bp" "pre' = pre" "Tag_num sp' = Suc (Tag_num sp)" "Bnst_num sp' = Bnst_num sp"
    "bnst_data sp' = (bnst_data sp)[q := (bnst_data sp ! q)\<lparr>b_tag_num := b_tag_num (bnst_data sp ! q) + 1\<rparr>]"
    "Tag_num sp < length (tag_data sp')"
    "place (tag_data sp' ! Tag_num sp) = (int (Tag_num sp), i, -1, q, 0)" "n_mrph_num (tag_data sp' ! Tag_num sp) = 1"
    "k < Tag_num sp \<Longrightarrow> place (tag_data sp' ! k) = place (tag_data sp ! k) \<and> n_mrph_num (tag_data sp' ! k) = n_mrph_num (tag_data sp ! k)"
    "mrph_data sp' = mrph_data (make_mrph_set_inum i (set_mrph i (mark_tag (Tag_num sp)) sp))"
proof -
  let ?tp = "Tag_num sp"
  obtain sp1 where put: "put_tag (Tag_num sp) (zero_tag\<lparr>n_num := int (Tag_num sp), n_mrph_ptr := i\<rparr>) sp = Some sp1"
    and sp': "sp' = push_tag_units (Tag_num sp) i (later_tag (Tag_num sp) q
        ((make_mrph_set_inum i (set_mrph i (mark_tag (Tag_num sp)) sp1))\<lparr>Tag_num := Tag_num sp + 1\<rparr>))" "bp' = bp" "pre' = pre"
    using run tag q by (auto simp: tag_step_def new_tag_def Let_def bind_eq_Some_conv later_tag_def)
  note P = put_tag_sel [OF put]
  define v where "v = later_tag ?tp q ((make_mrph_set_inum i (set_mrph i (mark_tag ?tp) sp1))\<lparr>Tag_num := ?tp + 1\<rparr>)"
  have spv: "sp' = push_tag_units ?tp i v" using sp'(1) by (simp add: v_def)
  have v: "?tp < length (tag_data v)" "place (tag_data v ! ?tp) = (int ?tp, i, -1, q, 0)" "n_mrph_num (tag_data v ! ?tp) = 0"
    using P(5,6) by (simp_all add: v_def later_tag_def set_tag_nth place_def)
  show "bp' = bp" "pre' = pre" "Tag_num sp' = Suc (Tag_num sp)" "Bnst_num sp' = Bnst_num sp"
    "bnst_data sp' = (bnst_data sp)[q := (bnst_data sp ! q)\<lparr>b_tag_num := b_tag_num (bnst_data sp ! q) + 1\<rparr>]"
    "Tag_num sp < length (tag_data sp')"
    "place (tag_data sp' ! Tag_num sp) = (int (Tag_num sp), i, -1, q, 0)" "n_mrph_num (tag_data sp' ! Tag_num sp) = 1"
    "mrph_data sp' = mrph_data (make_mrph_set_inum i (set_mrph i (mark_tag (Tag_num sp)) sp))"
    using v by (simp_all add: spv sp'(2,3) push_place)
      (use P in \<open>simp_all add: v_def later_tag_def set_bnst_def set_tag_def make_mrph_set_inum_def set_mrph_def\<close>)
  show "place (tag_data sp' ! k) = place (tag_data sp ! k) \<and> n_mrph_num (tag_data sp' ! k) = n_mrph_num (tag_data sp ! k)"
    if "k < Tag_num sp"
    using P(5) P(7) [OF that] that by (simp add: sp' later_tag_def push_place set_tag_nth)
qed

lemma tag_inum_data:
  "tag_data (make_tag_unit_set_inum num s) = count_back (\<lambda>t. 0 \<le> t_bnum t) (\<lambda>c t. t\<lparr>t_inum := c\<rparr>) (num - 1) 1 (tag_data s)"
  by (simp add: make_tag_unit_set_inum_def)

lemma tag_inum_nth:
  assumes "num \<le> length (tag_data s)"
    and L: "0 < num \<longrightarrow> l < num \<and> 0 \<le> t_bnum (tag_data s ! l) \<and> (\<forall>x. l < x \<and> x < num \<longrightarrow> t_bnum (tag_data s ! x) < 0)"
  shows "tag_data (if 0 < num \<and> t_bnum (tag_data s ! (num - 1)) < 0 then make_tag_unit_set_inum num s else s) ! k =
    (if l \<le> k \<and> k < num - 1 then (tag_data s ! k)\<lparr>t_inum := int (num - 1 - k)\<rparr> else tag_data s ! k)"
proof (cases "0 < num \<and> t_bnum (tag_data s ! (num - 1)) < 0")
  case True
  then have L': "l < num" "0 \<le> t_bnum (tag_data s ! l)" "\<forall>x. l < x \<and> x < num \<longrightarrow> t_bnum (tag_data s ! x) < 0" using L by auto
  have l: "l < num - 1" using L' True by (cases "l = num - 1") auto
  have "count_back (\<lambda>t. 0 \<le> t_bnum t) (\<lambda>c t. t\<lparr>t_inum := c\<rparr>) (num - 1) 1 (tag_data s) ! k =
      (if l \<le> k \<and> k < num - 1 then (\<lambda>c t. t\<lparr>t_inum := c\<rparr>) (1 + int (num - 1 - 1 - k)) (tag_data s ! k) else tag_data s ! k)"
    by (rule count_back_nth) (use assms(1) L' l in \<open>auto simp: not_le\<close>)
  then have *: "tag_data (make_tag_unit_set_inum num s) ! k =
      (if l \<le> k \<and> k < num - 1 then (tag_data s ! k)\<lparr>t_inum := 1 + int (num - 1 - 1 - k)\<rparr> else tag_data s ! k)"
    unfolding tag_inum_data by simp
  show ?thesis
  proof (cases "l \<le> k \<and> k < num - 1")
    case lk: True
    then have eq: "1 + int (num - 1 - 1 - k) = int (num - 1 - k)" by linarith
    show ?thesis unfolding if_P [OF True] * if_P [OF lk] eq ..
  next
    case lk: False
    show ?thesis unfolding if_P [OF True] * if_not_P [OF lk] ..
  qed
next
  case False
  have "\<not> (l \<le> k \<and> k < num - 1)"
  proof
    assume lk: "l \<le> k \<and> k < num - 1"
    then have "t_bnum (tag_data s ! (num - 1)) < 0" using L by auto
    then show False using False lk by simp
  qed
  then show ?thesis unfolding if_not_P [OF False] by (simp only: if_False)
qed

lemma tag_step_first:
  assumes run: "tag_step i (sp, Some b, pre) = Some (sp', bp', pre')"
    and at: "n_mrph_ptr (bnst_data sp ! b) = i" and b: "b < length (bnst_data sp)"
    and L0: "0 < Tag_num sp \<longrightarrow> l < Tag_num sp \<and> 0 \<le> t_bnum (tag_data sp ! l) \<and>
      (\<forall>x. l < x \<and> x < Tag_num sp \<longrightarrow> t_bnum (tag_data sp ! x) < 0)"
  shows "bp' = (if n_num (bnst_data sp ! b) < int (Bnst_num sp) - 1 then Some (b + 1) else None)" "pre' = Some b"
    "Tag_num sp' = Suc (Tag_num sp)" "Bnst_num sp' = Bnst_num sp"
    "bnst_data sp' = (bnst_data sp)[b := (bnst_data sp ! b)\<lparr>b_tag_ptr := Tag_num sp, b_tag_num := 1\<rparr>]"
    "Tag_num sp < length (tag_data sp')"
    "place (tag_data sp' ! Tag_num sp) = (int (Tag_num sp), i, n_num (bnst_data sp ! b), b, 0)" "n_mrph_num (tag_data sp' ! Tag_num sp) = 1"
    "k < Tag_num sp \<Longrightarrow>
       place (tag_data sp' ! k) = place (if l \<le> k \<and> k < Tag_num sp - 1
         then (tag_data sp ! k)\<lparr>t_inum := int (Tag_num sp - 1 - k)\<rparr> else tag_data sp ! k) \<and>
       n_mrph_num (tag_data sp' ! k) = n_mrph_num (tag_data sp ! k)"
    "mrph_data sp' = mrph_data (make_mrph_set_inum i (set_mrph i (mark_tag (Tag_num sp)) sp))"
proof -
  let ?tp = "Tag_num sp"
  note L = L0 [THEN mp]
  obtain sp1 where put: "put_tag ?tp (zero_tag\<lparr>n_num := int ?tp, n_mrph_ptr := i\<rparr>) sp = Some sp1"
    using run at by (auto simp: tag_step_def new_tag_def Let_def bind_eq_Some_conv begins_bnst_def)
  obtain v x y where v: "first_tag ?tp b ((make_mrph_set_inum i (set_mrph i (mark_tag ?tp) sp1))\<lparr>Tag_num := Suc ?tp\<rparr>) = (v, x, y)"
    by (cases "first_tag ?tp b ((make_mrph_set_inum i (set_mrph i (mark_tag ?tp) sp1))\<lparr>Tag_num := Suc ?tp\<rparr>)") auto
  then have ft: "first_tag ?tp b ((make_mrph_set_inum i (set_mrph i (mark_tag ?tp) sp1))\<lparr>Tag_num := ?tp + 1\<rparr>) = (v, bp', pre')"
    and sp': "sp' = push_tag_units (Tag_num v - 1) i v"
    using run at put v by (auto simp: tag_step_def new_tag_def Let_def begins_bnst_def split: if_splits)
  note P = put_tag_sel [OF put]
  define s where "s = (make_mrph_set_inum i (set_mrph i (mark_tag ?tp) sp1))\<lparr>Tag_num := ?tp + 1\<rparr>"
  define u where "u = (if 0 < ?tp \<and> t_bnum (tag_data s ! (?tp - 1)) < 0 then make_tag_unit_set_inum ?tp s else s)"
  have s: "bnst_data s = bnst_data sp" "tag_data s = tag_data sp1" "Bnst_num s = Bnst_num sp" "Tag_num s = ?tp + 1"
    "mrph_data s = mrph_data (make_mrph_set_inum i (set_mrph i (mark_tag ?tp) sp))"
    using P by (simp_all add: s_def make_mrph_set_inum_def set_mrph_def)
  have u: "bnst_data u = bnst_data sp" "Bnst_num u = Bnst_num sp" "Tag_num u = ?tp + 1" "mrph_data u = mrph_data s"
    "length (tag_data u) = length (tag_data sp1)"
    using s by (simp_all add: u_def)
  have tag_u: "tag_data u ! k = (if k < ?tp then if l \<le> k \<and> k < ?tp - 1
        then (tag_data sp ! k)\<lparr>t_inum := int (?tp - 1 - k)\<rparr> else tag_data sp ! k else tag_data sp1 ! k)" for k
  proof -
    have "tag_data u ! k = (if l \<le> k \<and> k < ?tp - 1 then (tag_data sp1 ! k)\<lparr>t_inum := int (?tp - 1 - k)\<rparr> else tag_data sp1 ! k)"
      unfolding u_def s(2) [symmetric] by (rule tag_inum_nth) (use L P(5,7) in \<open>auto simp: s(2)\<close>)
    moreover have "l \<le> k \<and> k < ?tp - 1 \<Longrightarrow> k < ?tp" by linarith
    ultimately show ?thesis using P(7) [of k] by (cases "k < ?tp"; cases "l \<le> k \<and> k < ?tp - 1"; simp only: if_True if_False simp_thms)
  qed
  have sp'': "sp' = push_tag_units ?tp i (set_bnst b (\<lambda>b. b\<lparr>b_tag_ptr := ?tp, b_tag_num := 1\<rparr>)
        (set_tag ?tp (\<lambda>t. t\<lparr>t_bnum := n_num (bnst_data sp ! b), t_b_ptr := b\<rparr>) u))"
    and ptrs: "bp' = (if n_num (bnst_data sp ! b) < int (Bnst_num sp) - 1 then Some (b + 1) else None)" "pre' = Some b"
  proof -
    have "first_tag ?tp b s = (set_bnst b (\<lambda>b. b\<lparr>b_tag_ptr := ?tp, b_tag_num := 1\<rparr>)
        (set_tag ?tp (\<lambda>t. t\<lparr>t_bnum := n_num (bnst_data s ! b), t_b_ptr := b\<rparr>) u),
        if n_num (bnst_data s ! b) < int (Bnst_num s) - 1 then Some (b + 1) else None, Some b)"
      by (simp add: first_tag_def Let_def u_def)
    moreover have "first_tag ?tp b s = (v, bp', pre')" using ft by (simp add: s_def)
    ultimately have "v = set_bnst b (\<lambda>b. b\<lparr>b_tag_ptr := ?tp, b_tag_num := 1\<rparr>)
        (set_tag ?tp (\<lambda>t. t\<lparr>t_bnum := n_num (bnst_data sp ! b), t_b_ptr := b\<rparr>) u)"
      "bp' = (if n_num (bnst_data sp ! b) < int (Bnst_num sp) - 1 then Some (b + 1) else None)" "pre' = Some b"
      using s(1,3) by (simp_all del: One_nat_def)
    then show "sp' = push_tag_units ?tp i (set_bnst b (\<lambda>b. b\<lparr>b_tag_ptr := ?tp, b_tag_num := 1\<rparr>)
        (set_tag ?tp (\<lambda>t. t\<lparr>t_bnum := n_num (bnst_data sp ! b), t_b_ptr := b\<rparr>) u))"
      "bp' = (if n_num (bnst_data sp ! b) < int (Bnst_num sp) - 1 then Some (b + 1) else None)" "pre' = Some b"
      using u(3) by (simp_all add: sp')
  qed
  show "bp' = (if n_num (bnst_data sp ! b) < int (Bnst_num sp) - 1 then Some (b + 1) else None)" "pre' = Some b"
    by (fact ptrs)+
  show "Tag_num sp' = Suc ?tp" "Bnst_num sp' = Bnst_num sp"
    "bnst_data sp' = (bnst_data sp)[b := (bnst_data sp ! b)\<lparr>b_tag_ptr := ?tp, b_tag_num := 1\<rparr>]"
    "?tp < length (tag_data sp')"
    "place (tag_data sp' ! ?tp) = (int ?tp, i, n_num (bnst_data sp ! b), b, 0)" "n_mrph_num (tag_data sp' ! ?tp) = 1"
    "mrph_data sp' = mrph_data (make_mrph_set_inum i (set_mrph i (mark_tag ?tp) sp))"
    using P(5,6) u s by (simp_all add: sp'' push_place set_tag_nth tag_u) (simp_all add: place_def set_bnst_def)
  show "place (tag_data sp' ! k) = place (if l \<le> k \<and> k < ?tp - 1
         then (tag_data sp ! k)\<lparr>t_inum := int (?tp - 1 - k)\<rparr> else tag_data sp ! k) \<and>
       n_mrph_num (tag_data sp' ! k) = n_mrph_num (tag_data sp ! k)" if "k < ?tp"
    using that P(5) u by (simp add: sp'' push_place set_tag_nth tag_u)
qed

text \<open>The morphemes when a base phrase begins at \<open>i\<close> and the one before it at \<open>l\<close>.\<close>

lemma mrph_inum_nth:
  assumes "i \<le> length (mrph_data sp)"
    and "0 < i \<Longrightarrow> l < i \<and> 0 \<le> m_tnum (mrph_data sp ! l) \<and> (\<forall>x. l < x \<and> x < i \<longrightarrow> m_tnum (mrph_data sp ! x) < 0)"
  shows "mrph_data (make_mrph_set_inum i sp) ! j =
    (if l \<le> j \<and> j < i then (mrph_data sp ! j)\<lparr>m_inum := int (i - 1 - j)\<rparr> else mrph_data sp ! j)"
proof (cases "i = 0")
  case False
  then have i: "0 < i" by simp
  show ?thesis
    using count_back_nth [of i "mrph_data sp" l "\<lambda>m. 0 \<le> m_tnum m" "\<lambda>c m. m\<lparr>m_inum := c\<rparr>" 0 j] assms(1) assms(2) [OF i]
    by (simp add: make_mrph_set_inum_def not_le)
qed (simp add: make_mrph_set_inum_def)

lemma mark_tag_sel [simp]: "m_tnum (mark_tag tp m) = int tp" "m_inum (mark_tag tp m) = m_inum m"
  by (simp_all add: mark_tag_def)

text \<open>
  The state after \<open>i\<close> morphemes: \<open>P\<close> marks the beginnings of bunsetsu, \<open>Q\<close> those of base phrases. The
  positions from the end are known for the bunsetsu and base phrases that are complete.
\<close>

definition closed_at :: "(nat \<Rightarrow> bool) \<Rightarrow> nat \<Rightarrow> nat \<Rightarrow> bool" where
  "closed_at P j i \<longleftrightarrow> (\<exists>x. j < x \<and> x < i \<and> P x)"

definition tag_place :: "(nat \<Rightarrow> bool) \<Rightarrow> (nat \<Rightarrow> bool) \<Rightarrow> nat \<Rightarrow> nat \<Rightarrow> int \<times> nat \<times> int \<times> nat \<times> int" where
  "tag_place P Q i j =
     (int (cnt Q j), j, if P j then int (cnt P j) else -1, cnt P (Suc j) - 1, int (cnt Q (j + Suc (run P j i)) - Suc (cnt Q j)))"

definition open_place :: "int \<times> nat \<times> int \<times> nat \<times> int \<Rightarrow> int \<times> nat \<times> int \<times> nat \<times> int" where
  "open_place = (\<lambda>(a, b, c, d, e). (a, b, c, d, 0))"

definition tags_done :: "(nat \<Rightarrow> bool) \<Rightarrow> (nat \<Rightarrow> bool) \<Rightarrow> nat \<Rightarrow> SENTENCE_DATA \<Rightarrow> bool" where
  "tags_done P Q i sp \<longleftrightarrow>
     (\<forall>j < i. Q j \<longrightarrow>
        place (tag_data sp ! cnt Q j) = (if closed_at P j i then tag_place P Q i j else open_place (tag_place P Q i j)) \<and>
        n_mrph_num (tag_data sp ! cnt Q j) = Suc (run Q j i))"

definition bnst_done :: "(nat \<Rightarrow> bool) \<Rightarrow> (nat \<Rightarrow> bool) \<Rightarrow> nat \<Rightarrow> SENTENCE_DATA \<Rightarrow> bool" where
  "bnst_done P Q i sp \<longleftrightarrow>
     (\<forall>j < i. P j \<longrightarrow>
        b_tag_ptr (bnst_data sp ! cnt P j) = cnt Q j \<and>
        b_tag_num (bnst_data sp ! cnt P j) = cnt Q (j + Suc (run P j i)) - cnt Q j)"

definition mrph_done :: "(nat \<Rightarrow> bool) \<Rightarrow> nat \<Rightarrow> SENTENCE_DATA \<Rightarrow> bool" where
  "mrph_done Q i sp \<longleftrightarrow>
     (\<forall>j < i. m_tnum (mrph_data sp ! j) = (if Q j then int (cnt Q j) else -1) \<and>
        (closed_at Q j i \<longrightarrow> m_inum (mrph_data sp ! j) = int (run Q j i)))"

definition tag_inv :: "(nat \<Rightarrow> bool) \<Rightarrow> (nat \<Rightarrow> bool) \<Rightarrow> SENTENCE_DATA \<Rightarrow> nat \<Rightarrow> SENTENCE_DATA \<times> bnst_ptrs \<Rightarrow> bool" where
  "tag_inv P Q sp0 i = (\<lambda>(sp, bp, pre).
     let n = length (mrph_data sp0) in
     Bnst_num sp = Bnst_num sp0 \<and> Tag_num sp = cnt Q i \<and> cnt Q i \<le> length (tag_data sp) \<and>
     length (mrph_data sp) = n \<and> length (bnst_data sp) = length (bnst_data sp0) \<and>
     (\<forall>k. n_num (bnst_data sp ! k) = n_num (bnst_data sp0 ! k) \<and> n_mrph_ptr (bnst_data sp ! k) = n_mrph_ptr (bnst_data sp0 ! k) \<and>
        n_mrph_num (bnst_data sp ! k) = n_mrph_num (bnst_data sp0 ! k)) \<and>
     (\<forall>j \<ge> i. mrph_data sp ! j = mrph_data sp0 ! j) \<and>
     bp = (if cnt P i < cnt P n then Some (cnt P i) else None) \<and> pre = (if cnt P i = 0 then None else Some (cnt P i - 1)) \<and>
     tags_done P Q i sp \<and> bnst_done P Q i sp \<and> mrph_done Q i sp)"

lemma closed_Suc: "closed_at P j (Suc i) \<longleftrightarrow> closed_at P j i \<or> (j < i \<and> P i)"
  unfolding closed_at_def by (metis less_Suc_eq)

lemma not_closed_self [simp]: "i \<le> Suc j \<Longrightarrow> \<not> closed_at P j i"
  by (auto simp: closed_at_def)

lemma run_closed_at: "closed_at P j i \<Longrightarrow> run P j (Suc i) = run P j i"
  by (auto simp: closed_at_def intro: run_closed)

lemma run_open_at: "j < i \<Longrightarrow> \<not> closed_at P j i \<Longrightarrow> run P j i = i - Suc j"
  by (auto simp: closed_at_def intro: run_open)

lemma run_Suc_at: "j < i \<Longrightarrow> run P j (Suc i) = (if \<not> closed_at P j i \<and> \<not> P i then Suc (run P j i) else run P j i)"
  by (auto simp: run_Suc closed_at_def le_less)

lemma run_end_open: "j < i \<Longrightarrow> \<not> closed_at P j i \<Longrightarrow> j + Suc (run P j i) = i"
  using run_open_at [of j i P] by simp

lemma cnt_end_Suc:
  assumes "j < i" "\<not> P i" "\<not> Q i"
  shows "cnt Q (j + Suc (run P j (Suc i))) = cnt Q (j + Suc (run P j i))"
proof (cases "closed_at P j i")
  case False
  then have "\<not> closed_at P j (Suc i)" using assms(2) by (simp add: closed_Suc)
  then have new: "j + Suc (run P j (Suc i)) = Suc i" using assms(1) by (intro run_end_open) simp_all
  show ?thesis unfolding new run_end_open [OF assms(1) False] using assms(3) by simp
qed (simp only: run_closed_at)

text \<open>The marks before \<open>i\<close>, seen from the last one.\<close>

lemma last_mark_at:
  assumes "0 < cnt P i"
  obtains l where "l < i" "P l" "\<not> closed_at P l i" "Suc (cnt P l) = cnt P i"
    "\<And>j. j < i \<Longrightarrow> P j \<Longrightarrow> j \<noteq> l \<Longrightarrow> closed_at P j i \<and> cnt P j < cnt P l"
    "\<And>j. j < l \<Longrightarrow> closed_at P j i" "\<And>j. l \<le> j \<Longrightarrow> \<not> closed_at P j i"
proof -
  obtain l where l: "l < i" "P l" "\<forall>x. l < x \<and> x < i \<longrightarrow> \<not> P x" "Suc (cnt P l) = cnt P i"
    using last_mark [OF assms] by blast
  have "closed_at P j i \<and> cnt P j < cnt P l" if "j < i" "P j" "j \<noteq> l" for j
  proof -
    have "j < l" using that l(3) by (metis linorder_neqE_nat)
    then show ?thesis using l(1,2) that(2) cnt_less by (auto simp: closed_at_def)
  qed
  then show ?thesis using l by (intro that [of l]) (auto simp: closed_at_def)
qed

lemma tag_inv_none:
  assumes run: "tag_step i (sp, bp, pre) = Some (sp', bp', pre')" and I: "tag_inv P Q sp0 i (sp, bp, pre)"
    and i: "i < length (mrph_data sp0)" and no: "check_feature (mrph_f sp i) s_tag_shi = None" "\<not> begins_bnst sp i bp"
    and marks: "\<not> P i" "\<not> Q i"
  shows "tag_inv P Q sp0 (Suc i) (sp', bp', pre')"
proof -
  note I' = I [unfolded tag_inv_def prod.case Let_def]
  have len: "i < length (mrph_data sp)" "Tag_num sp \<le> length (tag_data sp)" using I' i by auto
  note S = tag_step_none [OF run no len]
  have num: "Tag_num sp = cnt Q i" using I' by blast
  have "0 < cnt Q i" using S(6) num by simp
  then obtain l where l: "l < i" "Q l" "\<not> closed_at Q l i" "Suc (cnt Q l) = cnt Q i"
    "\<And>j. j < i \<Longrightarrow> Q j \<Longrightarrow> j \<noteq> l \<Longrightarrow> closed_at Q j i \<and> cnt Q j < cnt Q l"
    "\<And>j. j < l \<Longrightarrow> closed_at Q j i" "\<And>j. l \<le> j \<Longrightarrow> \<not> closed_at Q j i" by (rule last_mark_at) blast
  have tp: "Tag_num sp - 1 = cnt Q l" using num l(4) by simp
  have "tags_done P Q (Suc i) sp'"
    unfolding tags_done_def
  proof (intro allI impI)
    fix j
    assume j: "j < Suc i" "Q j"
    then have "j < i" using marks by (auto simp: less_Suc_eq)
    then have old: "place (tag_data sp ! cnt Q j) = (if closed_at P j i then tag_place P Q i j else open_place (tag_place P Q i j))"
      "n_mrph_num (tag_data sp ! cnt Q j) = Suc (run Q j i)" using I' j unfolding tags_done_def by blast+
    have "tag_place P Q (Suc i) j = tag_place P Q i j \<or> \<not> closed_at P j i"
      by (auto simp: tag_place_def run_closed_at)
    moreover have "open_place (tag_place P Q (Suc i) j) = open_place (tag_place P Q i j)" by (simp add: tag_place_def open_place_def)
    ultimately have "place (tag_data sp' ! cnt Q j) =
        (if closed_at P j (Suc i) then tag_place P Q (Suc i) j else open_place (tag_place P Q (Suc i) j))"
      unfolding S(9) old(1) using marks by (auto simp: closed_Suc)
    moreover have "n_mrph_num (tag_data sp' ! cnt Q j) = Suc (run Q j (Suc i))"
      unfolding S(10) old(2) tp
      using l(1,2,3) l(5) [of j] j(2) \<open>j < i\<close> marks by (cases "j = l") (auto simp: run_Suc_at)
    ultimately show "place (tag_data sp' ! cnt Q j) =
        (if closed_at P j (Suc i) then tag_place P Q (Suc i) j else open_place (tag_place P Q (Suc i) j)) \<and>
      n_mrph_num (tag_data sp' ! cnt Q j) = Suc (run Q j (Suc i))" ..
  qed
  moreover have "bnst_done P Q (Suc i) sp'"
    unfolding bnst_done_def
  proof (intro allI impI)
    fix j
    assume j: "j < Suc i" "P j"
    then have "j < i" using marks by (auto simp: less_Suc_eq)
    then have old: "b_tag_ptr (bnst_data sp ! cnt P j) = cnt Q j \<and>
        b_tag_num (bnst_data sp ! cnt P j) = cnt Q (j + Suc (run P j i)) - cnt Q j"
      using I' j unfolding bnst_done_def by blast
    note cnt_end_Suc [of j i P Q, OF \<open>j < i\<close> marks]
    then show "b_tag_ptr (bnst_data sp' ! cnt P j) = cnt Q j \<and>
        b_tag_num (bnst_data sp' ! cnt P j) = cnt Q (j + Suc (run P j (Suc i))) - cnt Q j"
      using old S(4) by simp
  qed
  moreover have "mrph_done Q (Suc i) sp'"
    unfolding mrph_done_def
  proof (intro allI impI)
    fix j
    assume j: "j < Suc i"
    show "m_tnum (mrph_data sp' ! j) = (if Q j then int (cnt Q j) else -1) \<and>
        (closed_at Q j (Suc i) \<longrightarrow> m_inum (mrph_data sp' ! j) = int (run Q j (Suc i)))"
    proof (cases "j = i")
      case True
      then show ?thesis using S(11) [of i] marks by simp
    next
      case False
      then have "j < i" using j by simp
      then have "m_tnum (mrph_data sp ! j) = (if Q j then int (cnt Q j) else -1) \<and>
          (closed_at Q j i \<longrightarrow> m_inum (mrph_data sp ! j) = int (run Q j i))"
        using I' unfolding mrph_done_def by blast
      then show ?thesis using False marks S(11) [of j] by (auto simp: closed_Suc run_closed_at)
    qed
  qed
  ultimately show ?thesis
    using I' S marks unfolding tag_inv_def prod.case Let_def by auto
qed

text \<open>The morphemes when a base phrase begins.\<close>

lemma mrph_done_tag:
  assumes D: "mrph_done Q i sp" and marks: "Q 0" "Q i" and i: "i < length (mrph_data sp)"
  defines "ms \<equiv> mrph_data (make_mrph_set_inum i (set_mrph i (mark_tag (cnt Q i)) sp))"
  shows "j < Suc i \<Longrightarrow> m_tnum (ms ! j) = (if Q j then int (cnt Q j) else -1) \<and>
      (closed_at Q j (Suc i) \<longrightarrow> m_inum (ms ! j) = int (run Q j (Suc i)))"
    and "i < k \<Longrightarrow> ms ! k = mrph_data sp ! k"
proof -
  let ?s = "set_mrph i (mark_tag (cnt Q i)) sp"
  have D': "m_tnum (mrph_data sp ! j) = (if Q j then int (cnt Q j) else -1)"
    "closed_at Q j i \<Longrightarrow> m_inum (mrph_data sp ! j) = int (run Q j i)" if "j < i" for j
    using D that unfolding mrph_done_def by blast+
  have s: "mrph_data ?s ! j = (if j = i then mark_tag (cnt Q i) (mrph_data sp ! i) else mrph_data sp ! j)" for j
    using i by (rule set_mrph_nth)
  obtain l where l: "0 < i \<Longrightarrow> l < i \<and> Q l \<and> (\<forall>j. l \<le> j \<longleftrightarrow> \<not> closed_at Q j i)"
  proof (cases "0 < i")
    case True
    then have "0 < cnt Q i" using cnt_less [of 0 i Q] marks(1) by simp
    then show ?thesis by (rule last_mark_at) (metis that not_le)
  qed (use that in blast)
  have L: "0 < i \<Longrightarrow> l < i \<and> 0 \<le> m_tnum (mrph_data ?s ! l) \<and> (\<forall>x. l < x \<and> x < i \<longrightarrow> m_tnum (mrph_data ?s ! x) < 0)"
  proof -
    assume "0 < i"
    note l' = l [OF this]
    then have "\<not> Q x" if "l < x" "x < i" for x using that by (auto simp: closed_at_def)
    then show "l < i \<and> 0 \<le> m_tnum (mrph_data ?s ! l) \<and> (\<forall>x. l < x \<and> x < i \<longrightarrow> m_tnum (mrph_data ?s ! x) < 0)"
      using l' by (simp add: s D')
  qed
  have ms: "ms ! j = (if l \<le> j \<and> j < i then (mrph_data ?s ! j)\<lparr>m_inum := int (i - 1 - j)\<rparr> else mrph_data ?s ! j)" for j
    unfolding ms_def by (rule mrph_inum_nth) (use i L in auto)
  show "m_tnum (ms ! j) = (if Q j then int (cnt Q j) else -1) \<and>
      (closed_at Q j (Suc i) \<longrightarrow> m_inum (ms ! j) = int (run Q j (Suc i)))" if "j < Suc i"
  proof (cases "j = i")
    case True
    then show ?thesis using marks by (simp add: ms s)
  next
    case False
    then have j: "j < i" using that by simp
    have run: "run Q j (Suc i) = run Q j i" using run_closed [of j i i Q] j marks by simp
    show ?thesis
    proof (cases "l \<le> j")
      case True
      then have "run Q j i = i - Suc j" using l j by (intro run_open_at) auto
      then show ?thesis using True False j D'(1) [OF j] by (simp add: ms s run)
    next
      case nl: False
      then have "closed_at Q j i" using l j by auto
      then show ?thesis using nl False D' [OF j] by (simp add: ms s run)
    qed
  qed
  show "i < k \<Longrightarrow> ms ! k = mrph_data sp ! k" by (simp add: ms s)
qed

lemma tag_inv_later:
  assumes run: "tag_step i (sp, bp, pre) = Some (sp', bp', pre')" and I: "tag_inv P Q sp0 i (sp, bp, pre)"
    and i: "i < length (mrph_data sp0)" and tag: "check_feature (mrph_f sp i) s_tag_shi \<noteq> None" "\<not> begins_bnst sp i bp"
    and marks: "\<not> P i" "Q i" "Q 0" "P 0" and room: "cnt P i \<le> length (bnst_data sp0)"
  shows "tag_inv P Q sp0 (Suc i) (sp', bp', pre')"
proof -
  note I' = I [unfolded tag_inv_def prod.case Let_def]
  have "0 < i" using marks(1,4) by (cases i) auto
  then have "0 < cnt P i" using cnt_less [of 0 i P] marks(4) by simp
  then obtain p where p: "p < i" "P p" "\<not> closed_at P p i" "Suc (cnt P p) = cnt P i"
    "\<And>j. j < i \<Longrightarrow> P j \<Longrightarrow> j \<noteq> p \<Longrightarrow> closed_at P j i \<and> cnt P j < cnt P p" by (rule last_mark_at) blast
  have q: "pre = Some (cnt P p)" "cnt P p < length (bnst_data sp)" using I' p(4) room by auto
  note S = tag_step_later [OF run tag q]
  have num: "Tag_num sp = cnt Q i" using I' by blast
  have "tags_done P Q (Suc i) sp'"
    unfolding tags_done_def
  proof (intro allI impI)
    fix j
    assume j: "j < Suc i" "Q j"
    show "place (tag_data sp' ! cnt Q j) =
        (if closed_at P j (Suc i) then tag_place P Q (Suc i) j else open_place (tag_place P Q (Suc i) j)) \<and>
      n_mrph_num (tag_data sp' ! cnt Q j) = Suc (run Q j (Suc i))"
    proof (cases "j = i")
      case True
      then show ?thesis using S(7,8) num p(4) marks by (simp add: tag_place_def open_place_def)
    next
      case False
      then have ji: "j < i" using j by simp
      then have old: "place (tag_data sp ! cnt Q j) = (if closed_at P j i then tag_place P Q i j else open_place (tag_place P Q i j))"
        "n_mrph_num (tag_data sp ! cnt Q j) = Suc (run Q j i)" using I' j unfolding tags_done_def by blast+
      have k: "cnt Q j < Tag_num sp" unfolding num using ji j(2) by (rule cnt_less)
      have "tag_place P Q (Suc i) j = tag_place P Q i j \<or> \<not> closed_at P j i" by (auto simp: tag_place_def run_closed_at)
      moreover have "open_place (tag_place P Q (Suc i) j) = open_place (tag_place P Q i j)" by (simp add: tag_place_def open_place_def)
      moreover have "run Q j (Suc i) = run Q j i" using run_closed [of j i i Q] ji marks by simp
      moreover note S(9) [OF k]
      ultimately show ?thesis using old marks by (auto simp: closed_Suc)
    qed
  qed
  moreover have "bnst_done P Q (Suc i) sp'"
    unfolding bnst_done_def
  proof (intro allI impI)
    fix j
    assume j: "j < Suc i" "P j"
    then have ji: "j < i" using marks by (auto simp: less_Suc_eq)
    then have old: "b_tag_ptr (bnst_data sp ! cnt P j) = cnt Q j"
        "b_tag_num (bnst_data sp ! cnt P j) = cnt Q (j + Suc (run P j i)) - cnt Q j"
      using I' j unfolding bnst_done_def by blast+
    show "b_tag_ptr (bnst_data sp' ! cnt P j) = cnt Q j \<and>
        b_tag_num (bnst_data sp' ! cnt P j) = cnt Q (j + Suc (run P j (Suc i))) - cnt Q j"
    proof (cases "j = p")
      case True
      have "\<not> closed_at P p (Suc i)" using p(3) marks by (simp add: closed_Suc)
      then have new: "p + Suc (run P p (Suc i)) = Suc i" using p(1) by (intro run_end_open) simp_all
      have "cnt Q p \<le> cnt Q i" using p(1) by (intro cnt_mono) simp
      then show ?thesis using old q(2) marks unfolding True new run_end_open [OF p(1,3)] S(5) by simp
    next
      case False
      then have "closed_at P j i" "cnt P j \<noteq> cnt P p" using p(5) [OF ji j(2)] by auto
      then show ?thesis using old by (simp add: S(5) run_closed_at)
    qed
  qed
  moreover have "mrph_done Q (Suc i) sp'" "\<forall>j \<ge> Suc i. mrph_data sp' ! j = mrph_data sp0 ! j"
  proof -
    have "mrph_done Q i sp" "i < length (mrph_data sp)" using I' i by auto
    note M = mrph_done_tag [OF this(1) marks(3,2) this(2)]
    show "mrph_done Q (Suc i) sp'" using M(1) unfolding mrph_done_def S(10) num by blast
    show "\<forall>j \<ge> Suc i. mrph_data sp' ! j = mrph_data sp0 ! j"
      using M(2) I' unfolding S(10) num by (simp add: Suc_le_eq)
  qed
  moreover have "length (mrph_data sp') = length (mrph_data sp0)" using I' by (simp add: S(10))
  moreover have "\<forall>k. n_num (bnst_data sp' ! k) = n_num (bnst_data sp0 ! k) \<and> n_mrph_ptr (bnst_data sp' ! k) = n_mrph_ptr (bnst_data sp0 ! k) \<and>
        n_mrph_num (bnst_data sp' ! k) = n_mrph_num (bnst_data sp0 ! k)"
    using I' q(2) by (simp add: S(5) nth_list_update)
  moreover have "length (bnst_data sp') = length (bnst_data sp0)" "Bnst_num sp' = Bnst_num sp0" using I' by (auto simp: S(4,5))
  moreover have "Tag_num sp' = cnt Q (Suc i)" "cnt Q (Suc i) \<le> length (tag_data sp')" using S(3,6) num marks by simp_all
  moreover have "bp' = (if cnt P (Suc i) < cnt P (length (mrph_data sp0)) then Some (cnt P (Suc i)) else None)"
    "pre' = (if cnt P (Suc i) = 0 then None else Some (cnt P (Suc i) - 1))" using I' marks by (auto simp: S(1,2))
  ultimately show ?thesis unfolding tag_inv_def prod.case Let_def by blast
qed

text \<open>The base phrases when a bunsetsu is complete: \<open>p\<close> is its beginning.\<close>

lemma tags_last:
  assumes D: "tags_done P Q i sp" and p: "p < i" "P p" "\<not> closed_at P p i" and PQ: "\<And>j. P j \<Longrightarrow> Q j"
  shows "cnt Q p < cnt Q i \<and> 0 \<le> t_bnum (tag_data sp ! cnt Q p) \<and>
    (\<forall>x. cnt Q p < x \<and> x < cnt Q i \<longrightarrow> t_bnum (tag_data sp ! x) < 0)"
proof (intro conjI allI impI)
  have bnum: "t_bnum (tag_data sp ! cnt Q j) = (if P j then int (cnt P j) else -1)" if "j < i" "Q j" for j
    using D that by (auto simp: tags_done_def place_def tag_place_def open_place_def split: if_splits)
  show "cnt Q p < cnt Q i" using p PQ by (intro cnt_less) auto
  show "0 \<le> t_bnum (tag_data sp ! cnt Q p)" using p PQ by (simp add: bnum)
  fix x
  assume x: "cnt Q p < x \<and> x < cnt Q i"
  then obtain j where j: "j < i" "Q j" "cnt Q j = x" using cnt_surj by blast
  then have "p < j" using x cnt_mono [of j p Q] by (cases "p < j") auto
  then have "\<not> P j" using p(3) j(1) by (auto simp: closed_at_def)
  then show "t_bnum (tag_data sp ! x) < 0" using bnum [OF j(1,2)] j(3) by simp
qed

lemma tags_close:
  assumes D: "tags_done P Q i sp" and p: "p < i" "P p" "\<not> closed_at P p i" and PQ: "\<And>j. P j \<Longrightarrow> Q j" and j: "j < i" "Q j"
  shows "place (if cnt Q p \<le> cnt Q j \<and> cnt Q j < cnt Q i - 1
      then (tag_data sp ! cnt Q j)\<lparr>t_inum := int (cnt Q i - 1 - cnt Q j)\<rparr> else tag_data sp ! cnt Q j) = tag_place P Q i j"
proof (cases "p \<le> j")
  case True
  then have open_j: "\<not> closed_at P j i" using p(3) by (auto simp: closed_at_def)
  then have old: "place (tag_data sp ! cnt Q j) = open_place (tag_place P Q i j)" using D j unfolding tags_done_def by metis
  have "cnt Q p \<le> cnt Q j" "cnt Q j < cnt Q i" using True j by (auto intro: cnt_mono cnt_less)
  then show ?thesis
    using old run_end_open [OF j(1) open_j] by (auto simp: place_def open_place_def tag_place_def)
next
  case False
  then have "closed_at P j i" "cnt Q j < cnt Q p" using p(1,2) j by (auto simp: closed_at_def intro: cnt_less intro!: exI [of _ p])
  then show ?thesis using D j unfolding tags_done_def by auto
qed

lemma tag_inv_first:
  assumes run: "tag_step i (sp, bp, pre) = Some (sp', bp', pre')" and I: "tag_inv P Q sp0 i (sp, bp, pre)"
    and i: "i < length (mrph_data sp0)" and G: "grouped P (length (mrph_data sp0)) sp0"
    and marks: "P i" "P 0" and PQ: "\<And>j. P j \<Longrightarrow> Q j"
  shows "tag_inv P Q sp0 (Suc i) (sp', bp', pre')"
proof -
  note I' = I [unfolded tag_inv_def prod.case Let_def]
  let ?n = "length (mrph_data sp0)"
  have num: "Tag_num sp = cnt Q i" using I' by blast
  have lt: "cnt P i < cnt P ?n" using i marks(1) by (rule cnt_less)
  then have bp: "bp = Some (cnt P i)" using I' by simp
  have b: "cnt P i < length (bnst_data sp)" "n_mrph_ptr (bnst_data sp ! cnt P i) = i" "n_num (bnst_data sp ! cnt P i) = int (cnt P i)"
    using I' G lt i marks(1) by (auto simp: grouped_def)
  obtain p where p: "0 < i \<Longrightarrow> p < i" "0 < i \<Longrightarrow> P p" "0 < i \<Longrightarrow> \<not> closed_at P p i"
  proof (cases "0 < i")
    case True
    then have "0 < cnt P i" using cnt_less [of 0 i P] marks(2) by simp
    then show ?thesis by (rule last_mark_at) (blast intro: that)
  qed (use that in blast)
  have D: "tags_done P Q i sp" using I' by blast
  have L: "0 < Tag_num sp \<longrightarrow> cnt Q p < Tag_num sp \<and> 0 \<le> t_bnum (tag_data sp ! cnt Q p) \<and>
      (\<forall>x. cnt Q p < x \<and> x < Tag_num sp \<longrightarrow> t_bnum (tag_data sp ! x) < 0)"
    unfolding num using tags_last [OF D p PQ] by (cases "i = 0") auto
  note S = tag_step_first [OF run [unfolded bp] b(2,1) L]
  have "tags_done P Q (Suc i) sp'"
    unfolding tags_done_def
  proof (intro allI impI)
    fix j
    assume j: "j < Suc i" "Q j"
    show "place (tag_data sp' ! cnt Q j) =
        (if closed_at P j (Suc i) then tag_place P Q (Suc i) j else open_place (tag_place P Q (Suc i) j)) \<and>
      n_mrph_num (tag_data sp' ! cnt Q j) = Suc (run Q j (Suc i))"
    proof (cases "j = i")
      case True
      then show ?thesis using S(7,8) num b(3) marks by (simp add: tag_place_def open_place_def)
    next
      case False
      then have ji: "j < i" using j by simp
      have k: "cnt Q j < Tag_num sp" unfolding num using ji j(2) by (rule cnt_less)
      have 0: "0 < i" using ji by simp
      have "closed_at P j (Suc i)" using ji marks(1) by (simp add: closed_Suc)
      moreover have "run P j (Suc i) = run P j i" "run Q j (Suc i) = run Q j i"
        using run_closed [of j i i] ji marks(1) PQ by simp_all
      moreover have "n_mrph_num (tag_data sp ! cnt Q j) = Suc (run Q j i)" using D ji j(2) unfolding tags_done_def by blast
      moreover have "place (tag_data sp' ! cnt Q j) = tag_place P Q i j"
        using S(9) [OF k] tags_close [OF D p [OF 0] PQ ji j(2)] unfolding num by (simp only: conjunct1)
      ultimately show ?thesis using S(9) [OF k] by (simp add: tag_place_def)
    qed
  qed
  moreover have "bnst_done P Q (Suc i) sp'"
    unfolding bnst_done_def
  proof (intro allI impI)
    fix j
    assume j: "j < Suc i" "P j"
    show "b_tag_ptr (bnst_data sp' ! cnt P j) = cnt Q j \<and>
        b_tag_num (bnst_data sp' ! cnt P j) = cnt Q (j + Suc (run P j (Suc i))) - cnt Q j"
    proof (cases "j = i")
      case True
      then show ?thesis using b(1) num PQ [OF marks(1)] by (simp add: S(5))
    next
      case False
      then have ji: "j < i" using j by simp
      then have old: "b_tag_ptr (bnst_data sp ! cnt P j) = cnt Q j"
          "b_tag_num (bnst_data sp ! cnt P j) = cnt Q (j + Suc (run P j i)) - cnt Q j"
        using I' j unfolding bnst_done_def by blast+
      have "cnt P j < cnt P i" using ji j(2) by (rule cnt_less)
      moreover have "run P j (Suc i) = run P j i" using run_closed [of j i i P] ji marks(1) by simp
      ultimately show ?thesis using old by (simp add: S(5))
    qed
  qed
  moreover have "mrph_done Q (Suc i) sp'" "\<forall>j \<ge> Suc i. mrph_data sp' ! j = mrph_data sp0 ! j"
  proof -
    have "mrph_done Q i sp" "i < length (mrph_data sp)" using I' i by auto
    note M = mrph_done_tag [OF this(1) PQ [OF marks(2)] PQ [OF marks(1)] this(2)]
    show "mrph_done Q (Suc i) sp'" using M(1) unfolding mrph_done_def S(10) num by blast
    show "\<forall>j \<ge> Suc i. mrph_data sp' ! j = mrph_data sp0 ! j"
      using M(2) I' unfolding S(10) num by (simp add: Suc_le_eq)
  qed
  moreover have "length (mrph_data sp') = length (mrph_data sp0)" using I' by (simp add: S(10))
  moreover have "\<forall>k. n_num (bnst_data sp' ! k) = n_num (bnst_data sp0 ! k) \<and> n_mrph_ptr (bnst_data sp' ! k) = n_mrph_ptr (bnst_data sp0 ! k) \<and>
        n_mrph_num (bnst_data sp' ! k) = n_mrph_num (bnst_data sp0 ! k)"
    using I' b(1) by (simp add: S(5) nth_list_update)
  moreover have "length (bnst_data sp') = length (bnst_data sp0)" "Bnst_num sp' = Bnst_num sp0" using I' by (auto simp: S(4,5))
  moreover have "Tag_num sp' = cnt Q (Suc i)" "cnt Q (Suc i) \<le> length (tag_data sp')"
    using S(3,6) num PQ [OF marks(1)] by simp_all
  moreover have "bp' = (if cnt P (Suc i) < cnt P ?n then Some (cnt P (Suc i)) else None)"
    "pre' = (if cnt P (Suc i) = 0 then None else Some (cnt P (Suc i) - 1))"
    using I' G marks(1) b(3) by (auto simp: S(1,2) grouped_def)
  ultimately show ?thesis unfolding tag_inv_def prod.case Let_def by blast
qed

lemma tag_loop:
  assumes "fold_option tag_step [0..<i] (sp\<lparr>Tag_num := 0\<rparr>, Some 0, None) = Some (s, bp, pre)"
    and "i \<le> length (mrph_data sp)" and n: "mrph_data sp \<noteq> []" and G: "grouped P (length (mrph_data sp)) sp" and P0: "P 0"
  defines "Q \<equiv> \<lambda>j. P j \<or> check_feature (mrph_f sp j) s_tag_shi \<noteq> None"
  shows "tag_inv P Q sp i (s, bp, pre)"
  using assms(1,2)
proof (induction i arbitrary: s bp pre)
  case 0
  have "0 < cnt P (length (mrph_data sp))" using cnt_less [of 0 _ P] P0 n by fastforce
  then show ?case using 0 by (auto simp: tag_inv_def tags_done_def bnst_done_def mrph_done_def)
next
  case (Suc i)
  let ?n = "length (mrph_data sp)"
  obtain s0 bp0 pre0 where s0: "fold_option tag_step [0..<i] (sp\<lparr>Tag_num := 0\<rparr>, Some 0, None) = Some (s0, bp0, pre0)"
    "tag_step i (s0, bp0, pre0) = Some (s, bp, pre)"
    using Suc.prems(1) by (auto simp: fold_option_append bind_eq_Some_conv)
  have i: "i < ?n" using Suc.prems(2) by simp
  have I: "tag_inv P Q sp i (s0, bp0, pre0)" using Suc.IH [OF s0(1)] i by simp
  note I' = I [unfolded tag_inv_def prod.case Let_def]
  have feature: "mrph_f s0 i = mrph_f sp i" using I' by (simp add: mrph_f_def)
  have begins: "begins_bnst s0 i bp0 \<longleftrightarrow> P i"
  proof (cases "cnt P i < cnt P ?n")
    case True
    then obtain j where j: "j < ?n" "P j" "cnt P j = cnt P i" using cnt_surj by blast
    moreover have "bp0 = Some (cnt P i)" using I' True by simp
    moreover have "n_mrph_ptr (bnst_data s0 ! cnt P i) = n_mrph_ptr (bnst_data sp ! cnt P j)" using I' j(3) by simp
    moreover have "n_mrph_ptr (bnst_data sp ! cnt P j) = j" using G j(1,2) by (simp add: grouped_def)
    ultimately have "begins_bnst s0 i bp0 \<longleftrightarrow> j = i" by (simp add: begins_bnst_def)
    then show ?thesis using j cnt_inj [of P j i] by auto
  next
    case False
    then have "bp0 = None" using I' by simp
    then show ?thesis using False cnt_less [OF i] by (auto simp: begins_bnst_def)
  qed
  have P_Q: "P j \<Longrightarrow> Q j" for j by (simp add: Q_def)
  show ?case
  proof (cases "P i")
    case True
    show ?thesis by (rule tag_inv_first [OF s0(2) I i G True P0 P_Q])
  next
    case not_P: False
    have room: "cnt P i \<le> length (bnst_data sp)" using G cnt_mono [of i ?n P] i by (simp add: grouped_def)
    show ?thesis
    proof (cases "check_feature (mrph_f sp i) s_tag_shi = None")
      case True
      then show ?thesis by (intro tag_inv_none [OF s0(2) I i]) (simp_all add: feature begins not_P Q_def)
    next
      case False
      then show ?thesis by (intro tag_inv_later [OF s0(2) I i]) (simp_all add: feature begins not_P Q_def P0 room)
    qed
  qed
qed

text \<open>
  The base phrases of a sentence: where each is, its bunsetsu, its number of morphemes and its position from the
  end of the bunsetsu; the base phrases of a bunsetsu; the number of a morpheme in the base phrase.
\<close>

definition base_phrases :: "(nat \<Rightarrow> bool) \<Rightarrow> (nat \<Rightarrow> bool) \<Rightarrow> nat \<Rightarrow> SENTENCE_DATA \<Rightarrow> bool" where
  "base_phrases P Q n sp \<longleftrightarrow>
     Tag_num sp = cnt Q n \<and>
     (\<forall>j < n. Q j \<longrightarrow> place (tag_data sp ! cnt Q j) = tag_place P Q n j \<and> n_mrph_num (tag_data sp ! cnt Q j) = Suc (run Q j n)) \<and>
     (\<forall>j < n. P j \<longrightarrow> b_tag_ptr (bnst_data sp ! cnt P j) = cnt Q j \<and>
        b_tag_num (bnst_data sp ! cnt P j) = cnt Q (j + n_mrph_num (bnst_data sp ! cnt P j)) - cnt Q j) \<and>
     (\<forall>j < n. m_tnum (mrph_data sp ! j) = (if Q j then int (cnt Q j) else -1) \<and> m_inum (mrph_data sp ! j) = int (run Q j n))"

text \<open>Base phrases in a row: the first begins at 0, the last ends at \<open>n\<close>.\<close>

definition in_a_row :: "nat \<Rightarrow> 'a NODE_scheme list \<Rightarrow> bool" where
  "in_a_row n ts \<longleftrightarrow>
     (\<forall>k < length ts. n_mrph_ptr (ts ! k) + n_mrph_num (ts ! k) = (if Suc k = length ts then n else n_mrph_ptr (ts ! Suc k))) \<and>
     n_mrph_ptr (hd ts) = 0"

lemma next_mark:
  assumes "j < n" "P j"
  defines "e \<equiv> j + Suc (run P j n)"
  shows "e \<le> n \<and> (e < n \<longrightarrow> P e) \<and> cnt P e = Suc (cnt P j)"
proof -
  have e: "e \<le> n" using run_le [OF assms(1), of P] by (simp add: e_def)
  have nth_run: "[Suc j..<n] ! k = Suc j + k" if "k < n - Suc j" for k using that by (simp add: less_diff_conv add.commute)
  have "P e" if "e < n"
  proof -
    have "run P j n < length [Suc j..<n]" using that by (simp add: e_def)
    then show ?thesis using nth_length_takeWhile [of "\<lambda>x. \<not> P x" "[Suc j..<n]"] nth_run by (simp add: run_def e_def)
  qed
  moreover have "\<not> P x" if "j < x" "x < e" for x
  proof -
    have "x - Suc j < run P j n" using that by (simp add: e_def)
    moreover have "run P j n \<le> n - Suc j" using run_le [OF assms(1), of P] by simp
    ultimately have "takeWhile (\<lambda>x. \<not> P x) [Suc j..<n] ! (x - Suc j) = x"
      using that by (simp add: takeWhile_nth run_def nth_run)
    then show ?thesis using nth_mem [of "x - Suc j" "takeWhile (\<lambda>x. \<not> P x) [Suc j..<n]"] \<open>x - Suc j < run P j n\<close>
      by (auto simp: run_def dest: set_takeWhileD)
  qed
  then have "cnt P (Suc j + k) = Suc (cnt P j)" if "Suc j + k \<le> e" for k
    using that by (induction k) (auto simp: assms(2))
  then have "cnt P e = Suc (cnt P j)" by (simp add: e_def)
  ultimately show ?thesis using e by blast
qed

lemma base_phrases_in_a_row:
  assumes B: "base_phrases P Q n sp" and len: "Tag_num sp \<le> length (tag_data sp)" and n: "0 < n" "Q 0"
  shows "in_a_row n (take (Tag_num sp) (tag_data sp))"
  unfolding in_a_row_def
proof (intro conjI allI impI)
  have T: "Tag_num sp = cnt Q n" using B by (simp add: base_phrases_def)
  have at: "n_mrph_ptr (tag_data sp ! cnt Q j) = j \<and> n_mrph_num (tag_data sp ! cnt Q j) = Suc (run Q j n)" if "j < n" "Q j" for j
    using B that by (simp add: base_phrases_def place_def tag_place_def)
  have pos: "0 < cnt Q n" using cnt_less [OF n(1), of Q] n(2) by simp
  then show "n_mrph_ptr (hd (take (Tag_num sp) (tag_data sp))) = 0" using at [of 0] n T len by (cases "tag_data sp") auto
  fix k
  assume k: "k < length (take (Tag_num sp) (tag_data sp))"
  then have "k < cnt Q n" using T by simp
  then obtain j where j: "j < n" "Q j" "cnt Q j = k" using cnt_surj by blast
  note e = next_mark [of j n Q, OF j(1,2)]
  show "n_mrph_ptr (take (Tag_num sp) (tag_data sp) ! k) + n_mrph_num (take (Tag_num sp) (tag_data sp) ! k) =
      (if Suc k = length (take (Tag_num sp) (tag_data sp)) then n else n_mrph_ptr (take (Tag_num sp) (tag_data sp) ! Suc k))"
  proof (cases "j + Suc (run Q j n) < n")
    case True
    then have q: "Q (j + Suc (run Q j n))" "cnt Q (j + Suc (run Q j n)) = Suc k" using e j(3) by auto
    then have "Suc k < cnt Q n" using cnt_less [OF True, of Q] by simp
    then show ?thesis using at [OF True q(1)] at [OF j(1,2)] j(3) q(2) T len \<open>k < cnt Q n\<close> by simp
  next
    case False
    then have "j + Suc (run Q j n) = n" using e by simp
    then show ?thesis using e at [OF j(1,2)] j(3) T len \<open>k < cnt Q n\<close> by simp
  qed
qed

lemma make_tag_units_groups:
  assumes "make_tag_units sp = Some sp'" and "grouped P (length (mrph_data sp)) sp" and "P 0"
  shows "in_a_row (length (mrph_data sp)) (take (Tag_num sp') (tag_data sp')) \<and>
    base_phrases P (\<lambda>j. P j \<or> check_feature (mrph_f sp j) s_tag_shi \<noteq> None) (length (mrph_data sp)) sp' \<and>
    grouped P (length (mrph_data sp)) sp' \<and> Tag_num sp' \<le> length (tag_data sp')"
proof -
  let ?n = "length (mrph_data sp)"
  define Q where "Q = (\<lambda>j. P j \<or> check_feature (mrph_f sp j) s_tag_shi \<noteq> None)"
  have PQ: "P j \<Longrightarrow> Q j" for j by (simp add: Q_def)
  obtain s bp pre where loop: "fold_option tag_step [0..<?n] (sp\<lparr>Tag_num := 0\<rparr>, Some 0, None) = Some (s, bp, pre)"
    and num: "Tag_num s \<noteq> 0"
    and sp': "sp' = make_mrph_set_inum ?n (if t_bnum (tag_data s ! (Tag_num s - 1)) < 0 then make_tag_unit_set_inum (Tag_num s) s else s)"
    using assms(1) by (auto simp: make_tag_units_def bind_eq_Some_conv split: if_splits)
  have n: "mrph_data sp \<noteq> []" using loop num by auto
  have I: "tag_inv P Q sp ?n (s, bp, pre)" unfolding Q_def by (rule tag_loop [OF loop _ n assms(2,3)]) simp
  note I' = I [unfolded tag_inv_def prod.case Let_def]
  have D: "tags_done P Q ?n s" and B: "bnst_done P Q ?n s" and M: "mrph_done Q ?n s" and T: "Tag_num s = cnt Q ?n"
    and len: "cnt Q ?n \<le> length (tag_data s)" "length (mrph_data s) = ?n" using I' by blast+
  have "0 < cnt P ?n" using cnt_less [of 0 ?n P] n assms(3) by simp
  then obtain p where p: "p < ?n" "P p" "\<not> closed_at P p ?n" by (rule last_mark_at) blast
  have "0 < cnt Q ?n" using cnt_less [of 0 ?n Q] n assms(3) PQ by simp
  then obtain l where l: "l < ?n" "Q l" "\<not> closed_at Q l ?n" "\<And>j. j < l \<Longrightarrow> closed_at Q j ?n" "\<And>j. l \<le> j \<Longrightarrow> \<not> closed_at Q j ?n"
    by (rule last_mark_at) blast
  note C = tags_close [OF D p PQ]
  let ?s = "if t_bnum (tag_data s ! (Tag_num s - 1)) < 0 then make_tag_unit_set_inum (Tag_num s) s else s"
  have tags: "tag_data ?s ! k = (if cnt Q p \<le> k \<and> k < cnt Q ?n - 1
      then (tag_data s ! k)\<lparr>t_inum := int (cnt Q ?n - 1 - k)\<rparr> else tag_data s ! k)" for k
    using tag_inum_nth [of "cnt Q ?n" s "cnt Q p" k] tags_last [OF D p PQ] len(1) num unfolding T by simp
  have keep: "bnst_data sp' = bnst_data s" "mrph_data ?s = mrph_data s" "tag_data sp' = tag_data ?s" "Tag_num sp' = cnt Q ?n"
    "Bnst_num sp' = Bnst_num s" using T by (simp_all add: sp')
  have mrphs: "mrph_data sp' ! j = (if l \<le> j \<and> j < ?n then (mrph_data s ! j)\<lparr>m_inum := int (?n - 1 - j)\<rparr> else mrph_data s ! j)" for j
    unfolding sp' keep(2) [symmetric]
  proof (rule mrph_inum_nth)
    have "m_tnum (mrph_data s ! x) < 0" if "l < x" "x < ?n" for x
      using M that l(3) by (auto simp: mrph_done_def closed_at_def)
    then show "l < ?n \<and> 0 \<le> m_tnum (mrph_data ?s ! l) \<and> (\<forall>x. l < x \<and> x < ?n \<longrightarrow> m_tnum (mrph_data ?s ! x) < 0)"
      using M l(1,2) by (simp add: keep(2) mrph_done_def)
  qed (simp add: keep(2) len(2))
  have "place (tag_data sp' ! cnt Q j) = tag_place P Q ?n j \<and> n_mrph_num (tag_data sp' ! cnt Q j) = Suc (run Q j ?n)"
    if j: "j < ?n" "Q j" for j
  proof
    show "place (tag_data sp' ! cnt Q j) = tag_place P Q ?n j" unfolding keep(3) tags by (rule tags_close [OF D p PQ j])
    show "n_mrph_num (tag_data sp' ! cnt Q j) = Suc (run Q j ?n)"
      using D j unfolding keep(3) tags tags_done_def by simp
  qed
  moreover have "b_tag_ptr (bnst_data sp' ! cnt P j) = cnt Q j \<and>
      b_tag_num (bnst_data sp' ! cnt P j) = cnt Q (j + n_mrph_num (bnst_data sp' ! cnt P j)) - cnt Q j"
    if j: "j < ?n" "P j" for j
    using B I' assms(2) j unfolding keep(1) bnst_done_def grouped_def by auto
  moreover have "m_tnum (mrph_data sp' ! j) = (if Q j then int (cnt Q j) else -1) \<and> m_inum (mrph_data sp' ! j) = int (run Q j ?n)"
    if j: "j < ?n" for j
  proof -
    have "m_tnum (mrph_data s ! j) = (if Q j then int (cnt Q j) else -1)"
      "closed_at Q j ?n \<Longrightarrow> m_inum (mrph_data s ! j) = int (run Q j ?n)" using M j unfolding mrph_done_def by blast+
    then show ?thesis
      using mrphs [of j] j l(4,5) run_open_at [of j ?n Q] by (cases "l \<le> j") auto
  qed
  moreover have "grouped P ?n sp'"
    using I' assms(2) unfolding grouped_def keep(1,5) by auto
  ultimately have "base_phrases P Q ?n sp' \<and> grouped P ?n sp'" unfolding base_phrases_def using keep(4) by blast
  moreover have "Tag_num sp' \<le> length (tag_data sp')" using len(1) by (simp add: keep(3,4))
  ultimately show ?thesis
    using base_phrases_in_a_row [of P Q ?n sp'] n PQ [OF assms(3)] unfolding Q_def [symmetric] by simp
qed

text \<open>
  C27. The base phrases refine the bunsetsu: one begins at each morpheme that begins a bunsetsu or that the feature
  for the beginning of a base phrase marks, and reaches to the next one; it knows its bunsetsu and its position from
  the end of it, a bunsetsu knows its first base phrase and how many they are, a morpheme its position in the
  base phrase; the base phrases follow each other without a gap.
\<close>

theorem make_tag_units_refine:
  assumes "make_tag_units sp = Some sp'" and "grouped P (length (mrph_data sp)) sp" and "P 0"
  shows "in_a_row (length (mrph_data sp)) (take (Tag_num sp') (tag_data sp')) \<and>
    base_phrases P (\<lambda>j. P j \<or> check_feature (mrph_f sp j) s_tag_shi \<noteq> None) (length (mrph_data sp)) sp' \<and>
    grouped P (length (mrph_data sp)) sp'"
  using make_tag_units_groups [OF assms] by blast

section \<open>Examples\<close>

text \<open>Four morphemes in two bunsetsu, the second of two base phrases.\<close>

definition sample_marks :: SENTENCE_DATA where
  "sample_marks =
     (sample_sentence (replicate 2 []))
       \<lparr>mrph_data := [sample_mrph ''ab'' [s_bunsetsu_shi], sample_mrph ''c'' [], sample_mrph ''ab'' [s_bunsetsu_shi],
          sample_mrph ''ab'' [s_tag_shi]]\<rparr>"

theorem make_bunsetsu_groups_witness:
  "\<exists>sp'. make_bunsetsu sample_marks = Some sp' \<and> Bnst_num sp' = 2 \<and> n_mrph_ptr (bnst_data sp' ! 1) = 2"
proof -
  let ?sp' = "the (make_bunsetsu sample_marks)"
  have run: "make_bunsetsu sample_marks = Some ?sp'" by code_simp
  have "length (mrph_data sample_marks) = 4" "cnt (starts_bnst sample_marks) 4 = 2" "starts_bnst sample_marks 2"
    "cnt (starts_bnst sample_marks) 2 = 1" by code_simp+
  then have "Bnst_num ?sp' = 2 \<and> n_mrph_ptr (bnst_data ?sp' ! 1) = 2"
    using make_bunsetsu_groups [OF run] unfolding grouped_def by (metis numeral_less_iff semiring_norm(76,78,77))
  then show ?thesis using run by blast
qed

lemma grouped_sample_marks:
  "grouped (\<lambda>i. i \<in> {0, 2::nat}) (length (mrph_data (the (make_bunsetsu sample_marks)))) (the (make_bunsetsu sample_marks))"
proof -
  let ?sp = "the (make_bunsetsu sample_marks)"
  define P where "P = (\<lambda>i. i \<in> {0, 2::nat})"
  have n: "length (mrph_data ?sp) = 4" by code_simp
  have "list_all (\<lambda>j. P j \<longrightarrow> n_num (bnst_data ?sp ! cnt P j) = int (cnt P j) \<and> n_mrph_ptr (bnst_data ?sp ! cnt P j) = j \<and>
      n_mrph_num (bnst_data ?sp ! cnt P j) = Suc (run P j 4)) [0..<4]" "Bnst_num ?sp = cnt P 4 \<and> cnt P 4 \<le> length (bnst_data ?sp)"
    unfolding P_def by code_simp+
  then have "grouped P (length (mrph_data ?sp)) ?sp" unfolding grouped_def n by (simp only: list_all_iff) simp
  then show ?thesis by (simp add: P_def)
qed

theorem make_tag_units_refine_witness:
  "\<exists>sp'. Option.bind (make_bunsetsu sample_marks) make_tag_units = Some sp' \<and> Tag_num sp' = 3 \<and>
     b_tag_num (bnst_data sp' ! 1) = 2 \<and> t_inum (tag_data sp' ! 1) = 1"
proof -
  let ?sp = "the (make_bunsetsu sample_marks)"
  let ?sp' = "the (make_tag_units ?sp)"
  define P where "P = (\<lambda>i. i \<in> {0, 2::nat})"
  define Q where "Q = (\<lambda>j. P j \<or> check_feature (mrph_f ?sp j) s_tag_shi \<noteq> None)"
  have b: "make_bunsetsu sample_marks = Some ?sp" and run: "make_tag_units ?sp = Some ?sp'" by code_simp+
  have n: "length (mrph_data ?sp) = 4" by code_simp
  have G: "grouped P (length (mrph_data ?sp)) ?sp" unfolding P_def by (rule grouped_sample_marks)
  have q: "cnt Q 4 = 3" "Q 2" "Q 3" "cnt Q 2 = 1" unfolding Q_def P_def by code_simp+
  have B: "base_phrases P Q 4 ?sp'" and G': "grouped P 4 ?sp'"
    using make_tag_units_refine [OF run G] unfolding Q_def P_def n by simp_all
  have "Tag_num ?sp' = 3" using B q(1) by (simp add: base_phrases_def)
  have p: "P 2" "cnt P 2 = 1" "cnt P 4 = 2" "run P 2 4 = 1" unfolding P_def by code_simp+
  have "place (tag_data ?sp' ! 1) = tag_place P Q 4 2"
    using B q p unfolding base_phrases_def by (metis numeral_less_iff semiring_norm(76,78,77))
  then have "t_inum (tag_data ?sp' ! 1) = 1" using q p by (simp add: place_def tag_place_def)
  moreover have "n_mrph_num (bnst_data ?sp' ! 1) = 2" 
    using G' p unfolding grouped_def by (metis numeral_less_iff semiring_norm(76,78,77) Suc_1)
  then have "b_tag_num (bnst_data ?sp' ! 1) = 2"
    using B [unfolded base_phrases_def, THEN conjunct2, THEN conjunct2, THEN conjunct1, rule_format, of 2] q p by simp
  moreover have "Option.bind (make_bunsetsu sample_marks) make_tag_units = Some ?sp'"
    by (rule trans [OF arg_cong [OF b]], unfold Option.bind.simps, rule run)
  ultimately show ?thesis using \<open>Tag_num ?sp' = 3\<close> by blast
qed

end
