(* ===== verification/Knp_Mrph.thy ===== *)
theory Knp_Mrph
  imports Knp_Segment Knp_Rules
begin

text \<open>
  Morphemes (\<open>src/system/read_data.c\<close>): the semantic information of a morpheme, its representative
  notation, the features that keep the alternatives of an ambiguous morpheme, the change of a part of
  speech, and the merging of morphemes into one.

  The semantic information \<open>m_Imi\<close> is a quoted string of items separated by spaces; one of them,
  the representative notation, has the form \<open>kanji/kana\<close>. The strings of a morpheme live in
  buffers: a function that would write behind one of them has no result.
\<close>

section \<open>The model\<close>

text \<open>The tables of JUMAN that morphemes refer to; \<open>Form_gobi\<close> is the ending of a conjugated form.\<close>

record JUMAN = GRAMMAR +
  get_form_id :: "string \<Rightarrow> int \<Rightarrow> int"
  Form_gobi :: "int \<Rightarrow> int \<Rightarrow> string option"

definition IMI_MAX :: nat where "IMI_MAX = 1024"
definition DATA_LEN :: nat where "DATA_LEN = 5120"
definition SMALL_DATA_LEN :: nat where "SMALL_DATA_LEN = 128"

text \<open>A string that goes into an array of \<open>n\<close> bytes.\<close>

definition fits :: "nat \<Rightarrow> string \<Rightarrow> string option" where
  "fits n s = (if length s < n then Some s else None)"

text \<open>The assignment of a feature whose name is not empty, so that the old key is not used.\<close>

definition assign_name :: "FEATURE \<Rightarrow> string \<Rightarrow> bool \<Rightarrow> FEATURE option" where
  "assign_name f fname temp_assign_flag =
     (if fname = [] \<or> hd fname = CHR '':'' then None else Some (assign_cfeature [] f fname temp_assign_flag))"

text \<open>\<^verbatim>\<open>%d\<close> of \<^verbatim>\<open>sprintf\<close>; \<^verbatim>\<open>%[^...]\<close> of \<^verbatim>\<open>sscanf\<close> with several bytes.\<close>

definition print_int :: "int \<Rightarrow> string" where
  "print_int i = (if i < 0 then CHR ''-'' # decimal (nat (- i)) else decimal (nat i))"

definition scan_not :: "char list \<Rightarrow> string \<Rightarrow> (string \<times> string) option" where
  "scan_not cs s =
     (let p = takeWhile (\<lambda>x. x \<notin> set cs) s
      in if p = [] then None else Some (p, dropWhile (\<lambda>x. x \<notin> set cs) s))"

text \<open>The string up to the byte that \<^verbatim>\<open>strchr\<close> or \<^verbatim>\<open>strrchr\<close> finds and the code overwrites by NUL.\<close>

definition cut_at :: "char \<Rightarrow> string \<Rightarrow> string" where
  "cut_at c s = takeWhile (\<lambda>x. x \<noteq> c) s"

definition cut_at_last :: "char \<Rightarrow> string \<Rightarrow> string option" where
  "cut_at_last c s = (if c \<in> set s then Some (rev (tl (dropWhile (\<lambda>x. x \<noteq> c) (rev s)))) else None)"

subsection \<open>Semantic information and features\<close>

fun imi2feature_loop :: "string list \<Rightarrow> FEATURE \<Rightarrow> FEATURE option" where
  "imi2feature_loop [] f = Some f"
| "imi2feature_loop (token # ts) f = Option.bind (assign_name f token False) (imi2feature_loop ts)"

definition imi2feature :: "string \<Rightarrow> MRPH_DATA \<Rightarrow> MRPH_DATA option" where
  "imi2feature str m = map_option (\<lambda>f. m\<lparr>m_f := f\<rparr>) (imi2feature_loop (c_tokens_loop (CHR '' '') [] str) (m_f m))"

text \<open>The text inside the quotes.\<close>

definition imi_text :: "string \<Rightarrow> string" where
  "imi_text s = (if s \<noteq> [] \<and> hd s = CHR 0x22 then cut_at (CHR 0x22) (tl s) else s)"

definition selected_imi2feature :: "string \<Rightarrow> MRPH_DATA \<Rightarrow> MRPH_DATA option" where
  "selected_imi2feature str m =
     (if str = ''NIL'' then Some m
      else map_option (\<lambda>f. m\<lparr>m_f := f\<rparr>)
             (imi2feature_loop
               (filter (\<lambda>t. \<not> starts t s_daihyo \<and> \<not> starts t s_kanou_doushi \<and> \<not> starts t s_kanji_yomi \<and>
                            \<not> starts t s_category \<and> \<not> starts t s_domain)
                 (c_tokens_loop (CHR '' '') [] (imi_text str)))
               (m_f m)))"

definition feature_string2f :: "string \<Rightarrow> FEATURE \<Rightarrow> FEATURE option" where
  "feature_string2f str f =
     imi2feature_loop (c_tokens_loop (CHR ''>'') [] (map (\<lambda>c. if c = CHR ''<'' then CHR ''>'' else c) str)) f"

definition delete_existing_features :: "MRPH_DATA \<Rightarrow> MRPH_DATA" where
  "delete_existing_features m =
     m\<lparr>m_f := fold (\<lambda>name f. delete_cfeature f name)
        [s_category, s_domain, s_kanou_doushi, s_kanji_yomi, s_chuushaku, s_kenjou, s_sonkei, s_teinei, s_hyoujun, s_shouryaku]
        (m_f m)\<rparr>"

subsection \<open>Alternatives\<close>

text \<open>The description of a morpheme that a feature carries, and how it is read back.\<close>

definition print_mrph :: "MRPH_DATA \<Rightarrow> string" where
  "print_mrph m =
     m_Goi2 m @ ''-'' @ m_Yomi m @ ''-'' @ m_Goi m @ ''-'' @ print_int (m_Hinshi m) @ ''-'' @ print_int (m_Bunrui m) @ ''-'' @
     print_int (m_Katuyou_Kata m) @ ''-'' @ print_int (m_Katuyou_Kei m)"

definition assign_feature_alt_mrph :: "FEATURE \<Rightarrow> MRPH_DATA \<Rightarrow> FEATURE" where
  "assign_feature_alt_mrph f m = assign_cfeature [] f (''ALT-'' @ print_mrph m @ ''-'' @ m_Imi m) False"

definition zero_mrph :: MRPH_DATA where
  "zero_mrph =
     \<lparr>m_num = 0, m_Goi = [], m_Yomi = [], m_Goi2 = [], m_Hinshi = 0, m_Bunrui = 0, m_Katuyou_Kata = 0,
      m_Katuyou_Kei = 0, m_f = [], m_SM = None, m_Imi = [], m_tnum = 0, m_inum = 0, m_dpnd_head = 0,
      m_dpnd_type = CHR 0x00, m_out_head_flag = False\<rparr>"

definition scan_dash :: "string \<Rightarrow> string option" where
  "scan_dash s = (case s of [] \<Rightarrow> None | c # r \<Rightarrow> if c = CHR ''-'' then Some r else None)"

definition scan_word :: "string \<Rightarrow> (string \<times> string) option" where
  "scan_word s = do { (w, r) \<leftarrow> scan_until (CHR ''-'') s; w' \<leftarrow> fits (WORD_LEN_MAX + 1) w; r' \<leftarrow> scan_dash r; Some (w', r') }"

definition scan_num :: "string \<Rightarrow> (int \<times> string) option" where
  "scan_num s = do { (i, r) \<leftarrow> scan_int s; r' \<leftarrow> scan_dash r; Some (i, r') }"

text \<open>
  \<^verbatim>\<open>sscanf(cp, "%[^-]-%[^-]-%[^-]-%d-%d-%d-%d-%[^\n]", ...)\<close>: without all the items the record that it
  fills is used uninitialised.
\<close>

definition scan_alt_mrph :: "string \<Rightarrow> MRPH_DATA option" where
  "scan_alt_mrph s0 =
     do { (goi2, s1) \<leftarrow> scan_word s0; (yomi, s2) \<leftarrow> scan_word s1; (goi, s3) \<leftarrow> scan_word s2;
          (hinshi, s4) \<leftarrow> scan_num s3; (bunrui, s5) \<leftarrow> scan_num s4; (kata, s6) \<leftarrow> scan_num s5; (kei, s7) \<leftarrow> scan_num s6;
          (imi, _) \<leftarrow> scan_until (CHR 0x0A) s7; imi' \<leftarrow> fits IMI_MAX imi;
          Some (zero_mrph\<lparr>m_Goi2 := goi2, m_Yomi := yomi, m_Goi := goi, m_Hinshi := hinshi, m_Bunrui := bunrui,
                 m_Katuyou_Kata := kata, m_Katuyou_Kei := kei, m_Imi := imi'\<rparr>) }"

subsection \<open>Representative notations\<close>

definition get_mrph_rep :: "MRPH_DATA \<Rightarrow> string option" where
  "get_mrph_rep m = map_option (drop (length s_daihyo_c)) (c_strstr (m_Imi m) s_daihyo_c)"

definition get_mrph_rep_length :: "string option \<Rightarrow> nat option" where
  "get_mrph_rep_length rep_strt =
     (case rep_strt of
        None \<Rightarrow> Some 0
      | Some s \<Rightarrow>
          (case (if c_strchr s (CHR '' '') = None then c_strchr s (CHR 0x22) else c_strchr s (CHR '' '')) of
             None \<Rightarrow> None
           | Some rep_end \<Rightarrow> Some (length s - length rep_end)))"

definition get_bnst_head_canonical_rep :: "('a NODE_scheme) \<Rightarrow> bool \<Rightarrow> string option option" where
  "get_bnst_head_canonical_rep b compound_flag =
     (case (if compound_flag then check_feature (n_f b) s_shuji_dash else None) of
        Some cp \<Rightarrow> map_option Some (after cp s_shuji_dash_c)
      | None \<Rightarrow> (case check_feature (n_f b) s_shuji_daihyo of
                   Some cp \<Rightarrow> map_option Some (after cp s_shuji_daihyo_c)
                 | None \<Rightarrow> Some None))"

definition assign_rep_f_from_imi :: "MRPH_DATA \<Rightarrow> MRPH_DATA option" where
  "assign_rep_f_from_imi m =
     (case c_strstr (m_Imi m) s_daihyo_c of
        None \<Rightarrow> Some m
      | Some cp \<Rightarrow>
          do { l \<leftarrow> get_mrph_rep_length (Some cp);
               buf \<leftarrow> fits IMI_MAX (take l cp);
               Some (m\<lparr>m_f := assign_cfeature [] (m_f m) buf False\<rparr>) })"

text \<open>\<^verbatim>\<open>%.*s\<close>: a negative precision is none.\<close>

definition take_prec :: "int \<Rightarrow> string \<Rightarrow> string" where
  "take_prec n s = (if n < 0 then s else take (nat n) s)"

definition ends_with :: "string \<Rightarrow> string \<Rightarrow> bool" where
  "ends_with s p \<longleftrightarrow> length p \<le> length s \<and> drop (length s - length p) s = p"

definition katakana_long :: "ENV \<Rightarrow> MRPH_DATA \<Rightarrow> bool" where
  "katakana_long e m \<longleftrightarrow>
     ((Class_id e (m_Hinshi m) 0 = s_miteigigo \<and> Class_id e (m_Hinshi m) (m_Bunrui m) = s_katakana) \<or>
      c_strstr (m_Imi m) s_jidou_kakutoku \<noteq> None) \<and>
     4 * BYTES4CHAR \<le> length (m_Goi m) \<and> ends_with (m_Goi m) s_chouon \<and> \<not> ends_with (m_Goi m) (s_chouon @ s_chouon)"

text \<open>The ending of a conjugated form is replaced by the one of the basic form.\<close>

definition replace_ending :: "string \<Rightarrow> string \<Rightarrow> string \<Rightarrow> string option" where
  "replace_ending old new s = (if length old \<le> length s then Some (take (length s - length old) s @ new) else None)"

definition make_mrph_rn :: "ENV \<Rightarrow> JUMAN \<Rightarrow> bool \<Rightarrow> MRPH_DATA \<Rightarrow> string option" where
  "make_mrph_rn e J katakana_normalize m =
     (let buf = (if katakana_normalize \<and> katakana_long e m
                 then take_prec (int (length (m_Goi m)) - int BYTES4CHAR) (m_Goi m) @ ''/'' @
                      take_prec (int (length (m_Yomi m)) - int BYTES4CHAR) (m_Yomi m)
                 else m_Goi m @ ''/'' @ m_Yomi m);
          kata = m_Katuyou_Kata m; kei = m_Katuyou_Kei m;
          size = length (m_Goi m) + length (m_Yomi m) + SMALL_DATA_LEN
      in if 0 < kata \<and> 0 < kei \<and> kata < 128 \<and> kei < 128
         then (case Form_gobi J kata kei of
                 None \<Rightarrow> Some buf
               | Some gobi \<Rightarrow>
                   if gobi \<noteq> [] \<and> hd gobi = CHR ''-'' then fits size (m_Goi m @ ''/'' @ m_Goi m)
                   else do { base \<leftarrow> Form_gobi J kata (get_form_id J s_kihonkei kata);
                             r \<leftarrow> replace_ending gobi base buf;
                             fits size r })
         else Some buf)"

definition rn2canonical_rn :: "MRPH_DATA \<Rightarrow> MRPH_DATA option" where
  "rn2canonical_rn m =
     do { rn \<leftarrow> get_mrph_rep_from_f m False;
          Some (case rn of None \<Rightarrow> m | Some s \<Rightarrow> m\<lparr>m_f := assign_cfeature [] (m_f m) (s_seikika_c @ s) False\<rparr>) }"

text \<open>
  The notations of the parts of a unit, joined by plus signs; the first part keeps the name of the feature.
  The buffer grows with the text, as long as a feature is shorter than its initial size.
\<close>

fun join_reps :: "string \<Rightarrow> string option list \<Rightarrow> string option" where
  "join_reps buf [] = Some buf"
| "join_reps buf (None # cps) = join_reps buf cps"
| "join_reps buf (Some cp # cps) =
     do { cp' \<leftarrow> fits DATA_LEN cp;
          buf' \<leftarrow> (if buf \<noteq> [] then map_option (\<lambda>rep. buf @ ''+'' @ rep) (after cp' s_seikika_c) else Some cp');
          join_reps buf' cps }"

definition mrph_canonical :: "MRPH_DATA \<Rightarrow> string option" where
  "mrph_canonical m =
     (if (check_feature (m_f m) s_naiyougo \<noteq> None \<or> check_feature (m_f m) s_jun_naiyougo \<noteq> None) \<and>
         check_feature (m_f m) s_tokushu_himidashi = None
      then check_feature (m_f m) s_seikika else None)"

definition cc_feature_to_bp :: "nat \<Rightarrow> SENTENCE_DATA \<Rightarrow> SENTENCE_DATA option" where
  "cc_feature_to_bp i sp =
     do { t \<leftarrow> at (tag_data sp) i;
          rep \<leftarrow> join_reps [] (map mrph_canonical (take (n_mrph_num t) (drop (n_mrph_ptr t) (mrph_data sp))));
          Some (if rep \<noteq> [] then set_tag i (\<lambda>t. t\<lparr>n_f := assign_cfeature [] (n_f t) rep False\<rparr>) sp else sp) }"

definition assign_cc_feature_to_bp :: "SENTENCE_DATA \<Rightarrow> SENTENCE_DATA option" where
  "assign_cc_feature_to_bp sp = fold_option cc_feature_to_bp [0..<Tag_num sp] sp"

definition bnst_tags :: "SENTENCE_DATA \<Rightarrow> BNST_DATA \<Rightarrow> TAG_DATA list" where
  "bnst_tags sp b = take (b_tag_num b) (drop (b_tag_ptr b) (tag_data sp))"

definition assign_to_head :: "nat \<Rightarrow> string \<Rightarrow> SENTENCE_DATA \<Rightarrow> SENTENCE_DATA" where
  "assign_to_head i fname sp =
     (let b = bnst_data sp ! i
      in set_tag (b_tag_ptr b + b_tag_num b - 1) (\<lambda>t. t\<lparr>n_f := assign_cfeature [] (n_f t) fname False\<rparr>)
           (set_bnst i (\<lambda>b. b\<lparr>n_f := assign_cfeature [] (n_f b) fname False\<rparr>) sp))"

text \<open>The last two notations, both of which have to be there.\<close>

definition compound_rep :: "string option list \<Rightarrow> string option option" where
  "compound_rep cps =
     (if list_all (\<lambda>c. c \<noteq> None) cps
      then do { s \<leftarrow> join_reps [] cps; rep \<leftarrow> after s s_seikika; Some (Some (s_shuji_dash_only @ rep)) }
      else Some None)"

definition cc_feature_to_bnst :: "nat \<Rightarrow> SENTENCE_DATA \<Rightarrow> SENTENCE_DATA option" where
  "cc_feature_to_bnst i sp =
     do { b \<leftarrow> at (bnst_data sp) i;
          let cps = map (\<lambda>t. check_feature (n_f t) s_seikika) (bnst_tags sp b);
          rep \<leftarrow> join_reps [] cps;
          let sp1 = (if rep \<noteq> [] then set_bnst i (\<lambda>b. b\<lparr>n_f := assign_cfeature [] (n_f b) rep False\<rparr>) sp else sp);
          sp2 \<leftarrow> (case find (\<lambda>c. c \<noteq> None) (rev cps) of
                   Some (Some cp) \<Rightarrow> map_option (\<lambda>r. assign_to_head i (s_shuji_daihyo @ r) sp1) (after cp s_seikika)
                 | _ \<Rightarrow> Some sp1);
          let tags = bnst_tags sp2 b;
          if 1 < b_tag_num b \<and> tags \<noteq> [] \<and> check_feature (n_f (last tags)) s_ichimoji_kanji \<noteq> None
          then do { r \<leftarrow> compound_rep (map (\<lambda>t. check_feature (n_f t) s_seikika) (drop (b_tag_num b - 2) tags));
                    Some (case r of None \<Rightarrow> sp2 | Some fname \<Rightarrow> assign_to_head i fname sp2) }
          else Some sp2 }"

definition assign_cc_feature_to_bnst :: "SENTENCE_DATA \<Rightarrow> SENTENCE_DATA option" where
  "assign_cc_feature_to_bnst sp = fold_option cc_feature_to_bnst [0..<Bnst_num sp] sp"

text \<open>The notations of the alternatives that differ from the one of the morpheme are joined by question marks.\<close>

fun alt_reps :: "string \<Rightarrow> nat \<Rightarrow> string \<Rightarrow> FEATURE \<Rightarrow> string option" where
  "alt_reps rep l buf [] = Some buf"
| "alt_reps rep l buf (cp # fp) =
     (if starts cp ''ALT-''
      then do { m \<leftarrow> scan_alt_mrph (drop 4 cp);
                l2 \<leftarrow> get_mrph_rep_length (get_mrph_rep m);
                alt_reps rep l
                  (case get_mrph_rep m of
                     None \<Rightarrow> buf
                   | Some rep2 \<Rightarrow> if 0 < l2 \<and> (l \<noteq> l2 \<or> take l rep \<noteq> take l rep2) then buf @ ''?'' @ take l2 rep2 else buf) fp }
      else alt_reps rep l buf fp)"

definition canonical_rep :: "MRPH_DATA \<Rightarrow> MRPH_DATA option" where
  "canonical_rep m =
     (case get_mrph_rep m of
        None \<Rightarrow> Some m
      | Some rep \<Rightarrow>
          do { l \<leftarrow> get_mrph_rep_length (Some rep);
               if l < 1 then Some m
               else map_option (\<lambda>buf. m\<lparr>m_f := assign_cfeature [] (m_f m) buf False\<rparr>)
                      (alt_reps rep l (s_seikika_c @ take l rep) (m_f m)) })"

definition update_mrph :: "nat \<Rightarrow> (MRPH_DATA \<Rightarrow> MRPH_DATA option) \<Rightarrow> SENTENCE_DATA \<Rightarrow> SENTENCE_DATA option" where
  "update_mrph i f sp = do { m \<leftarrow> at (mrph_data sp) i; m' \<leftarrow> f m; Some (set_mrph i (\<lambda>_. m') sp) }"

definition assign_canonical_rep_to_mrph :: "SENTENCE_DATA \<Rightarrow> SENTENCE_DATA option" where
  "assign_canonical_rep_to_mrph sp = fold_option (\<lambda>i. update_mrph i canonical_rep) [0..<length (mrph_data sp)] sp"

subsection \<open>Changing a morpheme\<close>

definition change_one_mrph_imi :: "MRPH_DATA \<Rightarrow> MRPH_DATA option" where
  "change_one_mrph_imi m =
     do { org \<leftarrow> fits DATA_LEN (s_hinshi_henkou_c @ print_mrph m @ ''-'' @ m_Imi m);
          let m1 = m\<lparr>m_f := assign_cfeature [] (m_f m) org False\<rparr>;
          case cut_at_last (CHR 0x22) (m_Imi m) of
            None \<Rightarrow> Some m1
          | Some imi \<Rightarrow>
              do { imi' \<leftarrow> fits IMI_MAX (imi @ '' '' @ s_hinshi_henkou_c @ print_mrph m @ [CHR 0x22]);
                   Some (m1\<lparr>m_Imi := imi'\<rparr>) } }"

text \<open>
  The text before the representative notation, its two parts, and the text behind it. A notation without a
  stroke or with an empty part leaves a buffer of the code uninitialised.
\<close>

definition split_rep :: "string \<Rightarrow> (string \<times> string \<times> string \<times> string) option option" where
  "split_rep imi =
     (case c_strstr imi s_daihyo_c of
        None \<Rightarrow> Some None
      | Some r \<Rightarrow>
          do { let cp = drop (length s_daihyo_c) r;
               (str1, r1) \<leftarrow> scan_until (CHR ''/'') cp;
               r2 \<leftarrow> (case r1 of [] \<Rightarrow> None | _ # x \<Rightarrow> Some x);
               (str2, post) \<leftarrow> scan_not [CHR '' '', CHR 0x22] r2;
               Some (Some (take (length imi - length cp) imi, str1, str2, post)) })"

text \<open>\<^verbatim>\<open>%c\<close> of \<^verbatim>\<open>sprintf\<close>: the byte NUL ends the string.\<close>

definition char_then :: "char \<Rightarrow> string \<Rightarrow> string" where
  "char_then c s = (if c = CHR 0x00 then [] else c # s)"

text \<open>The new semantic information and features.\<close>

definition new_rep :: "JUMAN \<Rightarrow> MRPH_DATA \<Rightarrow> bool \<Rightarrow> char \<Rightarrow> (string \<times> FEATURE) option" where
  "new_rep J m modify_feature_flag suffix_char =
     do { parts \<leftarrow> split_rep (m_Imi m);
          case parts of
            None \<Rightarrow> Some (m_Imi m, m_f m)
          | Some (pre, str1, str2, post) \<Rightarrow>
              do { basic \<leftarrow> Form_gobi J (m_Katuyou_Kata m) (get_form_id J s_kihonkei (m_Katuyou_Kata m));
                   gobi \<leftarrow> Form_gobi J (m_Katuyou_Kata m) (m_Katuyou_Kei m);
                   new1 \<leftarrow> replace_ending basic gobi str1;
                   new2 \<leftarrow> replace_ending basic gobi str2;
                   orig_rep \<leftarrow> fits IMI_MAX (s_daihyo_henkou_c @ str1 @ ''/'' @ str2);
                   let imi = (if length pre + length new1 + length new2 + length orig_rep + length post + 4 \<le> IMI_MAX
                              then pre @ new1 @ ''/'' @ new2 @ char_then suffix_char ('' '' @ orig_rep @ post) else m_Imi m);
                   if modify_feature_flag
                   then do { f1 \<leftarrow> (case check_feature (m_f m) s_daihyo of
                                     None \<Rightarrow> Some (m_f m)
                                   | Some cp \<Rightarrow>
                                       do { rep \<leftarrow> after cp s_daihyo_c; buf \<leftarrow> fits IMI_MAX (s_daihyo_henkou_c @ rep);
                                            Some (assign_cfeature [] (m_f m) buf False) });
                             buf \<leftarrow> fits IMI_MAX (s_daihyo_c @ new1 @ ''/'' @ new2 @ char_then suffix_char []);
                             Some (imi, assign_cfeature [] f1 buf False) }
                   else Some (imi, m_f m) } }"

text \<open>Nothing changes for a word that is not inflected, or that has been changed before.\<close>

definition change_one_mrph_rep :: "JUMAN \<Rightarrow> MRPH_DATA \<Rightarrow> bool \<Rightarrow> char \<Rightarrow> MRPH_DATA option" where
  "change_one_mrph_rep J m modify_feature_flag suffix_char =
     (if m_Katuyou_Kata m = 0 \<or> m_Katuyou_Kei m = 0 \<or> check_feature (m_f m) s_daihyo_henkou \<noteq> None then Some m
      else map_option (\<lambda>(imi, f). m\<lparr>m_Imi := imi, m_f := f\<rparr>) (new_rep J m modify_feature_flag suffix_char))"

text \<open>\<^verbatim>\<open>sscanf\<close> with \<open>n\<close> times \<^verbatim>\<open>%[^:]\<close>, separated by colons.\<close>

fun scan_columns :: "nat \<Rightarrow> string \<Rightarrow> string list" where
  "scan_columns 0 s = []"
| "scan_columns (Suc n) s =
     (case scan_until (CHR '':'') s of
        None \<Rightarrow> []
      | Some (p, r) \<Rightarrow> p # (case r of [] \<Rightarrow> [] | _ # r' \<Rightarrow> scan_columns n r'))"

text \<open>The part of speech, the subclass, the type and the form; the form is read only with the type.\<close>

definition change_one_mrph :: "JUMAN \<Rightarrow> MRPH_DATA \<Rightarrow> string \<Rightarrow> MRPH_DATA option" where
  "change_one_mrph J m cp =
     (let cols = drop 1 (scan_columns 5 cp); num = length cols in
      if list_all (\<lambda>c. length c < 62) cols \<and> num \<noteq> 0 \<and> num \<noteq> 3
      then let hinshi = get_hinsi_id J (cols ! 0);
               bunrui = (if 2 \<le> num \<and> cols ! 1 \<noteq> ''*'' then get_bunrui_id J (cols ! 1) hinshi else 0);
               kata = (if 3 \<le> num then get_type_id J (cols ! 2) else 0);
               kei = (if 3 \<le> num then get_form_id J (cols ! 3) kata else 0)
           in Some (m\<lparr>m_Hinshi := hinshi, m_Bunrui := bunrui, m_Katuyou_Kata := kata, m_Katuyou_Kei := kei,
                m_Goi := (if kata = 0 then m_Goi2 m else m_Goi m)\<rparr>)
      else None)"

text \<open>
  The old alternatives are taken out of the list, the changed ones are collected in another one; \<open>mf\<close> is
  the feature list of the record that all of them are read into.
\<close>

fun change_alts :: "JUMAN \<Rightarrow> string \<Rightarrow> FEATURE \<Rightarrow> FEATURE \<Rightarrow> FEATURE \<Rightarrow> (FEATURE \<times> FEATURE) option" where
  "change_alts J cp mf alts [] = Some ([], alts)"
| "change_alts J cp mf alts (x # fp) =
     (if starts x ''ALT-''
      then do { m0 \<leftarrow> scan_alt_mrph (drop 4 x);
                m1 \<leftarrow> change_one_mrph_imi (m0\<lparr>m_f := mf\<rparr>);
                m2 \<leftarrow> change_one_mrph_rep J m1 False (CHR ''v'');
                m3 \<leftarrow> change_one_mrph J m2 cp;
                change_alts J cp (m_f m3) (assign_feature_alt_mrph alts m3) fp }
      else map_option (\<lambda>(keep, r). (x # keep, r)) (change_alts J cp mf alts fp))"

definition change_alt_mrph :: "JUMAN \<Rightarrow> MRPH_DATA \<Rightarrow> string \<Rightarrow> MRPH_DATA option" where
  "change_alt_mrph J m cp =
     map_option (\<lambda>(keep, alts). m\<lparr>m_f := append_feature keep alts\<rparr>) (change_alts J cp [] [] (m_f m))"

definition change_mrph :: "JUMAN \<Rightarrow> MRPH_DATA \<Rightarrow> string \<Rightarrow> MRPH_DATA option" where
  "change_mrph J m cp =
     do { m1 \<leftarrow> change_one_mrph_imi m; m2 \<leftarrow> change_one_mrph_rep J m1 True (CHR ''v'');
          m3 \<leftarrow> change_one_mrph J m2 cp; change_alt_mrph J m3 cp }"

subsection \<open>Merging morphemes\<close>

text \<open>With \<open>imi2feature_flag\<close> the tokenizer cuts the information of the source behind its first item.\<close>

definition cut_tokens :: "string \<Rightarrow> string" where
  "cut_tokens s =
     (let sp = takeWhile (\<lambda>c. c = CHR '' '') s; t = dropWhile (\<lambda>c. c = CHR '' '') s
      in sp @ cut_at (CHR '' '') t)"

definition copy_mrph :: "MRPH_DATA \<Rightarrow> MRPH_DATA \<Rightarrow> bool \<Rightarrow> (MRPH_DATA \<times> MRPH_DATA) option" where
  "copy_mrph dst src imi2feature_flag =
     (let d = dst\<lparr>m_Goi := m_Goi src, m_Yomi := m_Yomi src, m_Goi2 := m_Goi2 src, m_Hinshi := m_Hinshi src,
                m_Bunrui := m_Bunrui src, m_Katuyou_Kata := m_Katuyou_Kata src, m_Katuyou_Kei := m_Katuyou_Kei src,
                m_Imi := m_Imi src\<rparr>
      in if imi2feature_flag
         then map_option (\<lambda>d'. (d', src\<lparr>m_Imi :=
                  (if m_Imi src \<noteq> [] \<and> hd (m_Imi src) = CHR 0x22 then [CHR 0x22] else []) @ cut_tokens (imi_text (m_Imi src))\<rparr>))
                (imi2feature (imi_text (m_Imi src)) d)
         else Some (d\<lparr>m_f := m_f src\<rparr>, src\<lparr>m_f := []\<rparr>))"

text \<open>By how many places a morpheme moves to the front.\<close>

definition move_table :: "MRPH_DATA list \<Rightarrow> nat \<Rightarrow> nat" where
  "move_table ms i = (if m_Goi (ms ! i) = [] then 0 else length (filter (\<lambda>k. m_Goi (ms ! k) = []) [1..<i]))"

definition move_step :: "(nat \<Rightarrow> nat) \<Rightarrow> nat \<Rightarrow> MRPH_DATA list \<Rightarrow> MRPH_DATA list option" where
  "move_step table i ms =
     (if 0 < table i
      then map_option (\<lambda>(d, s). ms[i - table i := d, i := s]) (copy_mrph (ms ! (i - table i)) (ms ! i) False)
      else Some ms)"

definition reset_mrph :: "SENTENCE_DATA \<Rightarrow> SENTENCE_DATA option" where
  "reset_mrph sp =
     (let ms = mrph_data sp; n = length ms; delete_count = length (filter (\<lambda>k. m_Goi (ms ! k) = []) [1..<n])
      in map_option (\<lambda>ms'. sp\<lparr>mrph_data := take (n - delete_count) ms'\<rparr>) (fold_option (move_step (move_table ms)) [1..<n] ms))"

definition merge_mrph_rep :: "MRPH_DATA \<Rightarrow> MRPH_DATA \<Rightarrow> MRPH_DATA option" where
  "merge_mrph_rep dst src =
     do { s \<leftarrow> split_rep (m_Imi src);
          case s of
            None \<Rightarrow> Some dst
          | Some (_, src1, src2, _) \<Rightarrow>
              do { d \<leftarrow> split_rep (m_Imi dst);
                   case d of
                     None \<Rightarrow> Some dst
                   | Some (pre, dst1, dst2, post) \<Rightarrow>
                       Some (dst\<lparr>m_Imi :=
                         (if length dst1 + length src1 < IMI_MAX \<and> length dst2 + length src2 < IMI_MAX \<and>
                             length pre + length (dst1 @ src1) + length (dst2 @ src2) + length post + 2 \<le> IMI_MAX
                          then pre @ dst1 @ src1 @ ''/'' @ dst2 @ src2 @ post else m_Imi dst)\<rparr>) } }"

definition merge_step :: "nat \<Rightarrow> nat \<Rightarrow> MRPH_DATA list \<Rightarrow> MRPH_DATA list option" where
  "merge_step start i ms =
     (let dst = ms ! start; src = ms ! i
      in map_option (\<lambda>d. ms[start := d, i := src\<lparr>m_Goi := [], m_f := []\<rparr>])
           (merge_mrph_rep (dst\<lparr>m_Goi := m_Goi dst @ m_Goi src, m_Yomi := m_Yomi dst @ m_Yomi src, m_Goi2 := m_Goi2 dst @ m_Goi2 src\<rparr>) src))"

definition merge_mrph :: "nat \<Rightarrow> nat \<Rightarrow> SENTENCE_DATA \<Rightarrow> (bool \<times> SENTENCE_DATA) option" where
  "merge_mrph start len sp =
     (let part = take len (drop start (mrph_data sp));
          total = (\<lambda>g. sum_list (map (\<lambda>m. length (g m)) part))
      in if length (mrph_data sp) < start + len then None
         else if WORD_LEN_MAX < total m_Goi \<or> WORD_LEN_MAX < total m_Yomi \<or> WORD_LEN_MAX < total m_Goi2 then Some (False, sp)
         else do { ms \<leftarrow> fold_option (merge_step start) [Suc start..<start + len] (mrph_data sp);
                   m \<leftarrow> at ms start;
                   m' \<leftarrow> assign_rep_f_from_imi (m\<lparr>m_f := delete_alt_feature (m_f m)\<rparr>);
                   Some (True, sp\<lparr>mrph_data := ms[start := m']\<rparr>) })"

section \<open>Alternatives read back\<close>

text \<open>Decimal numbers.\<close>

lemma of_char_digit: "d < 10 \<Longrightarrow> (of_char (char_of (48 + d) :: char) :: nat) = 48 + d"
  by (simp add: of_char_of take_bit_nat_eq_self)

lemma is_digit_char: "d < (10 :: nat) \<Longrightarrow> is_digit (char_of (48 + d))"
  by (simp add: is_digit_def of_char_digit)

lemma decimal_digits: "list_all is_digit (decimal n) \<and> decimal n \<noteq> []"
proof (induction n rule: decimal.induct)
  case (1 n)
  then show ?case by (cases "n < 10") (simp_all add: decimal.simps [of n] is_digit_char)
qed

lemma digits_value_append:
  "list_all is_digit ds \<Longrightarrow> digits_value acc (ds @ s) = digits_value (digits_value acc ds) s"
  by (induction ds arbitrary: acc) auto

lemma digits_value_stop: "s = [] \<or> \<not> is_digit (hd s) \<Longrightarrow> digits_value acc s = acc"
  by (cases s) auto

lemma of_char_digit_int: "d < 10 \<Longrightarrow> (of_char (char_of (48 + d) :: char) :: int) = 48 + int d"
  using of_char_digit [of d] by (metis of_nat_add of_nat_numeral of_nat_of_char)

lemma digits_value_decimal: "digits_value 0 (decimal n) = int n"
proof (induction n rule: decimal.induct)
  case (1 n)
  show ?case
  proof (cases "n < 10")
    case True
    then show ?thesis by (simp add: decimal.simps [of n] is_digit_char of_char_digit_int)
  next
    case False
    then have "digits_value 0 (decimal n) = digits_value (int (n div 10)) [char_of (48 + n mod 10)]"
      using 1 decimal_digits [of "n div 10"] by (simp add: decimal.simps [of n] digits_value_append)
    also have "\<dots> = int (n div 10) * 10 + int (n mod 10)"
      using is_digit_char [of "n mod 10"] of_char_digit_int [of "n mod 10"] by simp
    also have "\<dots> = int n" by (metis mult.commute of_nat_add of_nat_mult of_nat_numeral div_mult_mod_eq)
    finally show ?thesis .
  qed
qed

lemma digit_not_blank: "is_digit c \<Longrightarrow> \<not> is_blank c \<and> c \<noteq> CHR ''-'' \<and> c \<noteq> CHR ''+''"
  by (auto simp: is_digit_def is_blank_def)

lemma scan_int_print: "s = [] \<or> \<not> is_digit (hd s) \<Longrightarrow> scan_int (print_int i @ s) = Some (i, s)"
proof -
  assume s: "s = [] \<or> \<not> is_digit (hd s)"
  have *: "is_digit (hd (decimal n)) \<and> digits_value 0 (decimal n @ s) = int n \<and> dropWhile is_digit (decimal n @ s) = s \<and>
      decimal n \<noteq> []" for n
    using decimal_digits [of n] s
    by (cases s) (auto simp: digits_value_append digits_value_stop digits_value_decimal list_all_iff dropWhile_append hd_in_set)
  have hd: "decimal n @ s \<noteq> [] \<and> hd (decimal n @ s) = hd (decimal n)" for n using * [of n] by simp
  have blank: "dropWhile is_blank (decimal n @ s) = decimal n @ s" for n
    using * [of n] digit_not_blank [of "hd (decimal n)"] by (cases "decimal n") auto
  have minus: "\<not> is_blank (CHR ''-'')" by (simp add: is_blank_def)
  show ?thesis
  proof (cases "i < 0")
    case True
    then show ?thesis using * [of "nat (- i)"] minus by (simp add: scan_int_def print_int_def Let_def)
  next
    case False
    then show ?thesis
      using * [of "nat i"] digit_not_blank [of "hd (decimal (nat i))"]
      by (simp add: scan_int_def print_int_def Let_def blank)
  qed
qed

lemma scan_num_print: "scan_num (print_int i @ CHR ''-'' # s) = Some (i, s)"
  by (simp add: scan_num_def scan_int_print is_digit_def scan_dash_def)

definition printable_word :: "string \<Rightarrow> bool" where
  "printable_word w \<longleftrightarrow> w \<noteq> [] \<and> CHR ''-'' \<notin> set w \<and> length w \<le> WORD_LEN_MAX"

lemma scan_word_print: "printable_word w \<Longrightarrow> scan_word (w @ CHR ''-'' # s) = Some (w, s)"
proof -
  assume w: "printable_word w"
  then have "takeWhile (\<lambda>x. x \<noteq> CHR ''-'') (w @ CHR ''-'' # s) = w" "dropWhile (\<lambda>x. x \<noteq> CHR ''-'') (w @ CHR ''-'' # s) = CHR ''-'' # s"
    by (simp_all add: takeWhile_append dropWhile_append printable_word_def)
  then show ?thesis using w by (simp add: scan_word_def scan_until_def fits_def scan_dash_def printable_word_def)
qed



section \<open>Merging\<close>

text \<open>What \<open>copy_mrph\<close> copies.\<close>

definition mrph_key :: "MRPH_DATA \<Rightarrow> (string \<times> string \<times> string \<times> string) \<times> (int \<times> int \<times> int \<times> int) \<times> FEATURE" where
  "mrph_key m = ((m_Goi m, m_Yomi m, m_Goi2 m, m_Imi m), (m_Hinshi m, m_Bunrui m, m_Katuyou_Kata m, m_Katuyou_Kei m), m_f m)"

lemma copy_mrph_key: "copy_mrph d s False = Some (d', s') \<Longrightarrow> mrph_key d' = mrph_key s"
  by (auto simp: copy_mrph_def mrph_key_def Let_def)

lemma copy_mrph_total: "copy_mrph d s False \<noteq> None"
  by (simp add: copy_mrph_def Let_def)

text \<open>The morphemes that stay: the first one and those that are not merged into another one.\<close>

definition remaining :: "MRPH_DATA list \<Rightarrow> nat \<Rightarrow> MRPH_DATA list" where
  "remaining ms i = take 1 ms @ filter (\<lambda>m. m_Goi m \<noteq> []) (drop 1 (take i ms))"

definition gone :: "MRPH_DATA list \<Rightarrow> nat \<Rightarrow> nat" where
  "gone ms i = length (filter (\<lambda>k. m_Goi (ms ! k) = []) [1..<i])"

lemma gone_Suc: "0 < i \<Longrightarrow> gone ms (Suc i) = (if m_Goi (ms ! i) = [] then Suc (gone ms i) else gone ms i)"
  by (simp add: gone_def)

lemma gone_le: "0 < i \<Longrightarrow> gone ms i < i"
  using length_filter_le [of "\<lambda>k. m_Goi (ms ! k) = []" "[1..<i]"] by (simp add: gone_def)

lemma remaining_Suc:
  "0 < i \<Longrightarrow> i < length ms \<Longrightarrow> remaining ms (Suc i) = remaining ms i @ (if m_Goi (ms ! i) = [] then [] else [ms ! i])"
  by (auto simp: remaining_def take_Suc_conv_app_nth)

lemma move_loop:
  assumes "0 < i" "i \<le> length ms"
  shows "\<exists>ms'. fold_option (move_step (move_table ms)) [1..<i] ms = Some ms' \<and> length ms' = length ms \<and>
    (\<forall>j \<ge> i. ms' ! j = ms ! j) \<and> map mrph_key (take (i - gone ms i) ms') = map mrph_key (remaining ms i)"
  using assms
proof (induction i)
  case (Suc i)
  show ?case
  proof (cases "i = 0")
    case True
    then show ?thesis using Suc.prems by (intro exI [of _ ms]) (simp add: gone_def remaining_def take_Suc)
  next
    case False
    then have i: "0 < i" "i < length ms" using Suc.prems by auto
    let ?g = "gone ms i"
    obtain ms' where ms': "fold_option (move_step (move_table ms)) [1..<i] ms = Some ms'" "length ms' = length ms"
      "\<forall>j \<ge> i. ms' ! j = ms ! j" "map mrph_key (take (i - ?g) ms') = map mrph_key (remaining ms i)"
      using Suc.IH i by auto
    have loop: "fold_option (move_step (move_table ms)) [1..<Suc i] ms = move_step (move_table ms) i ms'"
      using i ms'(1) by (cases "move_step (move_table ms) i ms'") (simp_all add: fold_option_append)
    have g: "?g < i" by (rule gone_le [OF i(1)])
    have table: "move_table ms i = (if m_Goi (ms ! i) = [] then 0 else ?g)" by (simp add: move_table_def gone_def)
    show ?thesis
    proof (cases "0 < move_table ms i")
      case True
      then have goi: "m_Goi (ms ! i) \<noteq> []" and t: "move_table ms i = ?g" using table by (auto split: if_splits)
      obtain d s where ds: "copy_mrph (ms' ! (i - ?g)) (ms' ! i) False = Some (d, s)"
        using copy_mrph_total [of "ms' ! (i - ?g)" "ms' ! i"] by auto
      have key: "mrph_key d = mrph_key (ms ! i)" using copy_mrph_key [OF ds] ms'(3) by simp
      have "take (Suc (i - ?g)) (ms'[i - ?g := d, i := s]) = take (i - ?g) ms' @ [d]"
        using g i ms'(2) True t by (simp add: take_Suc_conv_app_nth nth_list_update)
      then have "map mrph_key (take (Suc i - gone ms (Suc i)) (ms'[i - ?g := d, i := s])) = map mrph_key (remaining ms (Suc i))"
        using goi i g key ms'(4) by (simp add: gone_Suc remaining_Suc Suc_diff_le)
      moreover have "move_step (move_table ms) i ms' = Some (ms'[i - ?g := d, i := s])" using True ds t by (simp add: move_step_def)
      ultimately show ?thesis using loop ms'(2,3) g by (intro exI [of _ "ms'[i - ?g := d, i := s]"]) auto
    next
      case same: False
      have "map mrph_key (take (Suc i - gone ms (Suc i)) ms') = map mrph_key (remaining ms (Suc i))"
      proof (cases "m_Goi (ms ! i) = []")
        case True
        then show ?thesis using i ms'(4) by (simp add: gone_Suc remaining_Suc)
      next
        case goi: False
        then have "?g = 0" using same table by simp
        then show ?thesis using goi i ms'(2,3,4) by (simp add: gone_Suc remaining_Suc take_Suc_conv_app_nth)
      qed
      moreover have "move_step (move_table ms) i ms' = Some ms'" using same by (simp add: move_step_def)
      ultimately show ?thesis using loop ms'(2,3) by (intro exI [of _ ms']) (simp del: upt_Suc)
    qed
  qed
qed simp

lemma reset_mrph_keys:
  "\<exists>sp'. reset_mrph sp = Some sp' \<and> map mrph_key (mrph_data sp') = map mrph_key (remaining (mrph_data sp) (length (mrph_data sp)))"
proof (cases "mrph_data sp")
  case Nil
  then show ?thesis by (simp add: reset_mrph_def remaining_def)
next
  case (Cons m ms)
  let ?n = "length (mrph_data sp)"
  obtain ms' where "fold_option (move_step (move_table (mrph_data sp))) [1..<?n] (mrph_data sp) = Some ms'"
    "map mrph_key (take (?n - gone (mrph_data sp) ?n) ms') = map mrph_key (remaining (mrph_data sp) ?n)"
    using move_loop [of ?n "mrph_data sp"] Cons by auto
  then show ?thesis by (simp add: reset_mrph_def Let_def gone_def)
qed

text \<open>
  The removal of merged morphemes keeps the other ones in their order, with everything that identifies them.
\<close>

theorem reset_mrph_filter:
  "\<exists>sp'. reset_mrph sp = Some sp' \<and> map mrph_key (mrph_data sp') = map mrph_key (remaining (mrph_data sp) (length (mrph_data sp)))"
  by (rule reset_mrph_keys)

text \<open>The text of a sentence, without the morphemes that are merged into another one.\<close>

definition sentence_text :: "MRPH_DATA list \<Rightarrow> string" where
  "sentence_text ms = concat (map m_Goi2 (filter (\<lambda>m. m_Goi m \<noteq> []) ms))"

lemma sentence_text_append [simp]: "sentence_text (ms @ ns) = sentence_text ms @ sentence_text ns"
  by (simp add: sentence_text_def)

lemma sentence_text_Cons [simp]: "sentence_text (m # ms) = (if m_Goi m = [] then [] else m_Goi2 m) @ sentence_text ms"
  by (simp add: sentence_text_def)

lemma sentence_text_Nil [simp]: "sentence_text [] = []"
  by (simp add: sentence_text_def)

lemma sentence_text_map:
  "sentence_text ms = concat (map (\<lambda>(g, g2). if g = [] then [] else g2) (map (\<lambda>m. (m_Goi m, m_Goi2 m)) ms))"
  by (induction ms) simp_all

lemma sentence_text_cong:
  "map (\<lambda>m. (m_Goi m, m_Goi2 m)) ms = map (\<lambda>m. (m_Goi m, m_Goi2 m)) ns \<Longrightarrow> sentence_text ms = sentence_text ns"
  by (simp only: sentence_text_map)

lemma merge_mrph_rep_keeps:
  "merge_mrph_rep d s = Some d' \<Longrightarrow> m_Goi d' = m_Goi d \<and> m_Goi2 d' = m_Goi2 d \<and> m_Yomi d' = m_Yomi d \<and> m_f d' = m_f d"
  by (auto simp: merge_mrph_rep_def bind_eq_Some_conv split: option.splits simp del: split_paired_All split_paired_Ex)

lemma assign_rep_f_keeps:
  "assign_rep_f_from_imi m = Some m' \<Longrightarrow> m_Goi m' = m_Goi m \<and> m_Goi2 m' = m_Goi2 m \<and> m_Yomi m' = m_Yomi m"
  by (auto simp: assign_rep_f_from_imi_def bind_eq_Some_conv split: option.splits)

text \<open>The state of a merge: the first \<open>k\<close> morphemes of a part are in its first one.\<close>

lemma merge_loop:
  assumes "fold_option (merge_step start) [Suc start..<start + k] ms = Some ms'" and "0 < k" and "start + k \<le> length ms"
  defines "part \<equiv> take k (drop start ms)"
  shows "length ms' = length ms \<and> m_Goi (ms' ! start) = concat (map m_Goi part) \<and> m_Yomi (ms' ! start) = concat (map m_Yomi part) \<and>
    m_Goi2 (ms' ! start) = concat (map m_Goi2 part) \<and> (\<forall>j. start < j \<and> j < start + k \<longrightarrow> m_Goi (ms' ! j) = []) \<and>
    (\<forall>j. j < start \<or> start + k \<le> j \<longrightarrow> ms' ! j = ms ! j)"
  using assms(1-3) unfolding part_def
proof (induction k arbitrary: ms')
  case (Suc k)
  show ?case
  proof (cases "k = 0")
    case True
    then show ?thesis using Suc.prems by (auto simp: take_Suc_conv_app_nth)
  next
    case False
    obtain u where u: "fold_option (merge_step start) [Suc start..<start + k] ms = Some u" "merge_step start (start + k) u = Some ms'"
      using Suc.prems(1) False by (auto simp: fold_option_append bind_eq_Some_conv)
    note IH = Suc.IH [OF u(1)]
    have part: "take (Suc k) (drop start ms) = take k (drop start ms) @ [ms ! (start + k)]"
      using Suc.prems(3) by (simp add: take_Suc_conv_app_nth)
    obtain d where d: "merge_mrph_rep ((u ! start)\<lparr>m_Goi := m_Goi (u ! start) @ m_Goi (u ! (start + k)),
          m_Yomi := m_Yomi (u ! start) @ m_Yomi (u ! (start + k)), m_Goi2 := m_Goi2 (u ! start) @ m_Goi2 (u ! (start + k))\<rparr>)
          (u ! (start + k)) = Some d"
      and ms': "ms' = u[start := d, start + k := (u ! (start + k))\<lparr>m_Goi := [], m_f := []\<rparr>]"
      using u(2) by (auto simp: merge_step_def Let_def)
    note K = merge_mrph_rep_keeps [OF d]
    show ?thesis
      using IH False Suc.prems(3) K unfolding ms' part by (auto simp: nth_list_update less_Suc_eq)
  qed
qed simp

text \<open>
  Merging neighbouring morphemes keeps the text of the sentence, and gives the first one the joined words;
  when a word would become too long nothing is changed.
\<close>

lemma merge_mrph_keeps_text:
  assumes "merge_mrph start len sp = Some (ok, sp')" and "0 < len"
    and "\<forall>m \<in> set (take len (drop start (mrph_data sp))). m_Goi m \<noteq> []"
  shows "sentence_text (mrph_data sp') = sentence_text (mrph_data sp) \<and>
    (if ok then let part = take len (drop start (mrph_data sp)); m = mrph_data sp' ! start
                in m_Goi m = concat (map m_Goi part) \<and> m_Yomi m = concat (map m_Yomi part) \<and> m_Goi2 m = concat (map m_Goi2 part) \<and>
                   length (m_Goi m) \<le> WORD_LEN_MAX \<and> length (m_Yomi m) \<le> WORD_LEN_MAX \<and> length (m_Goi2 m) \<le> WORD_LEN_MAX
     else sp' = sp) \<and>
    length (mrph_data sp') = length (mrph_data sp) \<and> m_Goi (mrph_data sp' ! start) \<noteq> [] \<and>
    (\<forall>j. j < start \<or> start + len \<le> j \<longrightarrow> mrph_data sp' ! j = mrph_data sp ! j)"
proof (cases ok)
  case False
  then have *: "sp' = sp" "start + len \<le> length (mrph_data sp)"
    using assms(1) by (auto simp: merge_mrph_def Let_def bind_eq_Some_conv split: if_splits)
  then have "mrph_data sp ! start \<in> set (take len (drop start (mrph_data sp)))"
    using assms(2) by (cases len) (auto simp: take_Suc hd_drop_conv_nth)
  then show ?thesis using assms(3) * False by simp
next
  case True
  let ?ms = "mrph_data sp" and ?part = "take len (drop start (mrph_data sp))"
  obtain u m where u: "fold_option (merge_step start) [Suc start..<start + len] ?ms = Some u" "start < length u"
    "assign_rep_f_from_imi ((u ! start)\<lparr>m_f := delete_alt_feature (m_f (u ! start))\<rparr>) = Some m"
    and sp': "sp' = sp\<lparr>mrph_data := u[start := m]\<rparr>" and len: "start + len \<le> length ?ms"
    and short: "sum_list (map (\<lambda>m. length (m_Goi m)) ?part) \<le> WORD_LEN_MAX"
      "sum_list (map (\<lambda>m. length (m_Yomi m)) ?part) \<le> WORD_LEN_MAX" "sum_list (map (\<lambda>m. length (m_Goi2 m)) ?part) \<le> WORD_LEN_MAX"
    using assms(1) True by (auto simp: merge_mrph_def Let_def bind_eq_Some_conv at_def split: if_splits)
  note L = merge_loop [OF u(1) assms(2) len]
  note K = assign_rep_f_keeps [OF u(3)]
  have words: "m_Goi m = concat (map m_Goi ?part)" "m_Yomi m = concat (map m_Yomi ?part)" "m_Goi2 m = concat (map m_Goi2 ?part)"
    using L K by simp_all
  have total: "length (concat (map g ?part)) = sum_list (map (\<lambda>m. length (g m)) ?part)" for g :: "MRPH_DATA \<Rightarrow> string"
    by (simp add: length_concat comp_def)
  have "?ms ! start \<in> set ?part" using len assms(2) by (cases len) (auto simp: take_Suc hd_drop_conv_nth)
  then have "m_Goi m \<noteq> []" using words(1) assms(2,3) by auto
  have parts: "vs = take start vs @ vs ! start # take (len - 1) (drop (Suc start) vs) @ drop (start + len) vs"
    if "start + len \<le> length vs" for vs :: "MRPH_DATA list"
  proof -
    have "vs = take start vs @ vs ! start # drop (Suc start) vs" using that assms(2) by (intro id_take_nth_drop) simp
    moreover have "drop (Suc start) vs = take (len - 1) (drop (Suc start) vs) @ drop (start + len) vs"
      using assms(2) append_take_drop_id [of "len - 1" "drop (Suc start) vs"] by (simp add: add.commute)
    ultimately show ?thesis by metis
  qed
  have gone: "sentence_text (take (len - 1) (drop (Suc start) u)) = []"
  proof -
    have "m_Goi x = []" if x: "x \<in> set (take (len - 1) (drop (Suc start) u))" for x
    proof -
      obtain k where "k < length (take (len - 1) (drop (Suc start) u))" "take (len - 1) (drop (Suc start) u) ! k = x"
        using x unfolding in_set_conv_nth by blast
      then have "k < len - 1" "x = u ! (Suc start + k)" by (auto simp: nth_drop)
      then show ?thesis using L by auto
    qed
    then show ?thesis by (simp add: sentence_text_def)
  qed
  have same: "take start u = take start ?ms" "drop (start + len) u = drop (start + len) ?ms"
    using L len by (auto intro!: nth_equalityI)
  have all: "sentence_text ?part = concat (map m_Goi2 ?part)" using assms(3) by (simp add: sentence_text_def filter_True)
  have data': "mrph_data sp' = u[start := m]" by (simp add: sp')
  have "take start (u[start := m]) = take start u" "drop (start + len) (u[start := m]) = drop (start + len) u"
    "drop (Suc start) (u[start := m]) = drop (Suc start) u" using assms(2) by simp_all
  then have "u[start := m] = take start ?ms @ m # take (len - 1) (drop (Suc start) u) @ drop (start + len) ?ms"
    using parts [of "u[start := m]"] L len u(2) unfolding same by simp
  then have "sentence_text (mrph_data sp') = sentence_text (take start ?ms @ m # take (len - 1) (drop (Suc start) u) @ drop (start + len) ?ms)"
    unfolding data' by (rule arg_cong)
  also have "\<dots> = sentence_text (take start ?ms) @ m_Goi2 m @ sentence_text (drop (start + len) ?ms)"
    using \<open>m_Goi m \<noteq> []\<close> by (simp only: sentence_text_append sentence_text_Cons gone if_False append_Nil)
  also have "m_Goi2 m = sentence_text ?part"
    using words(3) all by simp
  also have "sentence_text (take start ?ms) @ sentence_text ?part @ sentence_text (drop (start + len) ?ms) = sentence_text ?ms"
    by (metis append_take_drop_id drop_drop add.commute sentence_text_append)
  finally show ?thesis
    using True words short u(2) L \<open>m_Goi m \<noteq> []\<close> assms(2) unfolding sp' by (simp add: total Let_def)
qed

end
