(* ===== verification/Knp_Tables.thy ===== *)
theory Knp_Tables
  imports Knp_Literals
begin

text \<open>
  The tables of case markers and of compound particles, from \<open>src/system/case_analysis.c\<close> and
  \<open>src/system/case_data.h\<close>. The strings are given by their Unicode code points; \<open>utf8\<close> encodes them.
\<close>

section \<open>Strings\<close>

definition utf8_char :: "nat \<Rightarrow> string" where
  "utf8_char c =
     (if c < 128 then [char_of c]
      else if c < 2048 then [char_of (192 + c div 64), char_of (128 + c mod 64)]
      else [char_of (224 + c div 4096), char_of (128 + c div 64 mod 64), char_of (128 + c mod 64)])"

definition utf8 :: "nat list \<Rightarrow> string" where
  "utf8 cs = concat (map utf8_char cs)"

text \<open>The encoding is injective on the code points of at most three bytes.\<close>

lemma char_of_eq: "m < 256 \<Longrightarrow> n < 256 \<Longrightarrow> (char_of m :: char) = char_of n \<longleftrightarrow> m = (n :: nat)"
  by (metis mod_less of_char_of)

lemma utf8_char_unique:
  assumes "c < 65536" and "d < 65536" and eq: "utf8_char c @ r = utf8_char d @ r'"
  shows "c = d \<and> r = r'"
proof -
  have high: "x div 4096 < 16" "x < 2048 \<Longrightarrow> x div 64 < 32" if "x < 65536" for x :: nat
    using that by auto
  note bounds = high [OF assms(1)] high [OF assms(2)]
  have less: "x mod 64 < 128" for x :: nat by (simp add: order_less_trans [of _ 64])
  have split3: "x div 64 = y div 64" if "x div 4096 = y div 4096" "x div 64 mod 64 = y div 64 mod 64" for x y :: nat
    using that div_mult_mod_eq [of "x div 64" 64] div_mult_mod_eq [of "y div 64" 64] by (simp add: div_mult2_eq [symmetric])
  have split2: "x = y" if "x div 64 = y div 64" "x mod 64 = y mod 64" for x y :: nat
    using that by (metis div_mult_mod_eq)
  consider "c < 128" | "\<not> c < 128" "c < 2048" | "\<not> c < 2048" by linarith
  then show ?thesis
  proof cases
    case 1
    then show ?thesis using eq bounds by (simp add: utf8_char_def char_of_eq split: if_splits)
  next
    case 2
    have "\<not> d < 128" using eq 2 bounds by (auto simp: utf8_char_def char_of_eq)
    moreover from this have "d < 2048" using eq 2 bounds by (auto simp: utf8_char_def char_of_eq split: if_splits)
    ultimately show ?thesis using eq 2 bounds less [of c] less [of d]
      by (auto simp: utf8_char_def char_of_eq intro: split2)
  next
    case 3
    have "\<not> d < 128" using eq 3 bounds by (auto simp: utf8_char_def char_of_eq)
    moreover from this have "\<not> d < 2048" using eq 3 bounds by (auto simp: utf8_char_def char_of_eq split: if_splits)
    ultimately show ?thesis using eq 3 bounds less [of c] less [of d] less [of "c div 64"] less [of "d div 64"]
      by (auto simp: utf8_char_def char_of_eq intro: split2 split3)
  qed
qed

lemma utf8_eq: "list_all (\<lambda>c. c < 65536) xs \<Longrightarrow> list_all (\<lambda>c. c < 65536) ys \<Longrightarrow> utf8 xs = utf8 ys \<longleftrightarrow> xs = ys"
proof (induction xs arbitrary: ys)
  case Nil
  then show ?case by (cases ys) (auto simp: utf8_def utf8_char_def)
next
  case (Cons x xs)
  show ?case
  proof (cases ys)
    case Nil
    then show ?thesis by (auto simp: utf8_def utf8_char_def)
  next
    case ys: (Cons y ys')
    have "utf8 (x # xs) = utf8 (y # ys') \<longleftrightarrow> x = y \<and> utf8 xs = utf8 ys'"
      using utf8_char_unique [of x y "utf8 xs" "utf8 ys'"] Cons.prems ys by (auto simp: utf8_def)
    then show ?thesis using Cons ys by simp
  qed
qed

section \<open>Case markers\<close>

text \<open>Hiragana, katakana and code of a case marker.\<close>

definition PP_code_points :: "(nat list \<times> nat list \<times> int) list" where
  "PP_code_points =
     [([0x03C6], [0x03C6], 0),
      ([0x304C], [0x30AC], 1),
      ([0x3092], [0x30F2], 2),
      ([0x306B], [0x30CB], 3),
      ([0x304B, 0x3089], [0x30AB, 0x30E9], 4),
      ([0x3078], [0x30D8], 5),
      ([0x3088, 0x308A], [0x30E8, 0x30EA], 6),
      ([0x3068], [0x30C8], 7),
      ([0x3067], [0x30C7], 8),
      ([0x306B, 0x3088, 0x3063, 0x3066], [0x30CB, 0x30E8, 0x30C3, 0x30C6], 9),
      ([0x3092, 0x3081, 0x3050, 0x308B], [0x30F2, 0x30E1, 0x30B0, 0x30EB], 10),
      ([0x3092, 0x3064, 0x3046, 0x3058, 0x308B], [0x30F2, 0x30C4, 0x30A6, 0x30B8, 0x30EB], 11),
      ([0x3092, 0x3064, 0x3046, 0x305A, 0x308B], [0x30F2, 0x30C4, 0x30A6, 0x30BA, 0x30EB], 12),
      ([0x3092, 0x3075, 0x304F, 0x3081, 0x308B], [0x30F2, 0x30D5, 0x30AF, 0x30E1, 0x30EB], 13),
      ([0x3092, 0x306F, 0x3058, 0x3081, 0x308B], [0x30F2, 0x30CF, 0x30B8, 0x30E1, 0x30EB], 14),
      ([0x306B, 0x304B, 0x3089, 0x3080], [0x30CB, 0x30AB, 0x30E9, 0x30E0], 15),
      ([0x306B, 0x305D, 0x3046], [0x30CB, 0x30BD, 0x30A6], 16),
      ([0x306B, 0x3080, 0x3051, 0x308B], [0x30CB, 0x30E0, 0x30B1, 0x30EB], 17),
      ([0x306B, 0x3068, 0x3082, 0x306A, 0x3046], [0x30CB, 0x30C8, 0x30E2, 0x30CA, 0x30A6], 18),
      ([0x306B, 0x3082, 0x3068, 0x3065, 0x304F], [0x30CB, 0x30E2, 0x30C8, 0x30C5, 0x30AF], 19),
      ([0x3092, 0x306E, 0x305E, 0x304F], [0x30F2, 0x30CE, 0x30BE, 0x30AF], 20),
      ([0x306B, 0x3088, 0x308B], [0x30CB, 0x30E8, 0x30EB], 21),
      ([0x306B, 0x305F, 0x3044, 0x3059, 0x308B], [0x30CB, 0x30BF, 0x30A4, 0x30B9, 0x30EB], 22),
      ([0x306B, 0x304B, 0x3093, 0x3059, 0x308B], [0x30CB, 0x30AB, 0x30F3, 0x30B9, 0x30EB], 23),
      ([0x306B, 0x304B, 0x308F, 0x308B], [0x30CB, 0x30AB, 0x30EF, 0x30EB], 24),
      ([0x306B, 0x304A, 0x304F], [0x30CB, 0x30AA, 0x30AF], 25),
      ([0x306B, 0x3064, 0x304F], [0x30CB, 0x30C4, 0x30AF], 26),
      ([0x306B, 0x3068, 0x308B], [0x30CB, 0x30C8, 0x30EB], 27),
      ([0x306B, 0x304F, 0x308F, 0x3048, 0x308B], [0x30CB, 0x30AF, 0x30EF, 0x30A8, 0x30EB], 28),
      ([0x306B, 0x304B, 0x304E, 0x308B], [0x30CB, 0x30AB, 0x30AE, 0x30EB], 29),
      ([0x306B, 0x3064, 0x3065, 0x304F], [0x30CB, 0x30C4, 0x30C5, 0x30AF], 30),
      ([0x306B, 0x3042, 0x308F, 0x305B, 0x308B], [0x30CB, 0x30A2, 0x30EF, 0x30BB, 0x30EB], 31),
      ([0x306B, 0x304F, 0x3089, 0x3079, 0x308B], [0x30CB, 0x30AF, 0x30E9, 0x30D9, 0x30EB], 32),
      ([0x306B, 0x306A, 0x3089, 0x3076], [0x30CB, 0x30CA, 0x30E9, 0x30D6], 33),
      ([0x3068, 0x3059, 0x308B], [0x30C8, 0x30B9, 0x30EB], 34),
      ([0x306B, 0x3088, 0x308B, 0x306C], [0x30CB, 0x30E8, 0x30EB, 0x30CC], 35),
      ([0x306B, 0x304B, 0x304E, 0x308B, 0x306C], [0x30CB, 0x30AB, 0x30AE, 0x30EB, 0x30CC], 36),
      ([0x3068, 0x3044, 0x3046], [0x30C8, 0x30A4, 0x30A6], 37),
      ([0x6642, 0x9593], [0x6642, 0x9593], 38),
      ([0x307E, 0x3067], [0x30DE, 0x30C7], 39),
      ([0x4FEE, 0x98FE], [0x4FEE, 0x98FE], 40),
      ([0x306E], [0x30CE], 41),
      ([0x304C, 0xFF12], [0x30AC, 0xFF12], 42),
      ([0x5916, 0x306E, 0x95A2, 0x4FC2], [0x5916, 0x306E, 0x95A2, 0x4FC2], 43),
      ([0x304C, 0x304C], [0x30AC, 0x30AC], 42),
      ([0x5916, 0x306E, 0x95A2, 0x4FC2], [0x5916, 0x30CE, 0x95A2, 0x4FC2], 43),
      ([0x306F], [0x30CF], 1),
      ([0x672A], [0x672A], -3),
      ([0xFF0A], [0xFF0A], -2)]"

definition PP_str_to_code :: "(string \<times> string \<times> int) list" where
  "PP_str_to_code = map (\<lambda>(h, k, c). (utf8 h, utf8 k, c)) PP_code_points"

definition END_M :: int where "END_M = -10"

definition pp_hstr_to_code :: "string \<Rightarrow> int" where
  "pp_hstr_to_code cp = (case find (\<lambda>(h, k, c). h = cp) PP_str_to_code of None \<Rightarrow> END_M | Some (h, k, c) \<Rightarrow> c)"

text \<open>The code is used as the index of the table; the entry behind the last one is null.\<close>

definition pp_code_to_kstr :: "int \<Rightarrow> string option" where
  "pp_code_to_kstr num =
     (if 0 \<le> num \<and> num < int (length PP_str_to_code) then Some (fst (snd (PP_str_to_code ! nat num))) else None)"

definition pp_code_to_hstr :: "int \<Rightarrow> string option" where
  "pp_code_to_hstr num =
     (if 0 \<le> num \<and> num < int (length PP_str_to_code) then Some (fst (PP_str_to_code ! nat num)) else None)"

definition find_kstr :: "string \<Rightarrow> int option" where
  "find_kstr cp = map_option (\<lambda>(h, k, c). c) (find (\<lambda>(h, k, c). k = cp) PP_str_to_code)"

definition pp_kstr_to_code :: "string \<Rightarrow> int" where
  "pp_kstr_to_code cp =
     (if cp = ''NIL'' then END_M
      else case find_kstr cp of
             Some c \<Rightarrow> c
           | None \<Rightarrow> (if cp = s_kk_nitotte then (case find_kstr s_kk_niyotte of Some c \<Rightarrow> c | None \<Rightarrow> END_M) else END_M))"

text \<open>The tables are searched by strings; with the encoding injective this is a search by code points.\<close>

lemma PP_code_points_range:
  "list_all (\<lambda>(h, k, c). list_all (\<lambda>x. x < 65536) h \<and> list_all (\<lambda>x. x < 65536) k) PP_code_points"
  by (simp add: PP_code_points_def)

lemma find_map_key:
  "(\<And>x. x \<in> set xs \<Longrightarrow> P (f x) = Q x) \<Longrightarrow> find P (map f xs) = map_option f (find Q xs)"
  by (induction xs) auto

lemma find_kstr_utf8:
  assumes "list_all (\<lambda>x. x < 65536) w"
  shows "find_kstr (utf8 w) = map_option (\<lambda>(h, k, c). c) (find (\<lambda>(h, k, c). k = w) PP_code_points)"
proof -
  have "find (\<lambda>(h, k, c). k = utf8 w) PP_str_to_code =
      map_option (\<lambda>(h, k, c). (utf8 h, utf8 k, c)) (find (\<lambda>(h, k, c). k = w) PP_code_points)"
    unfolding PP_str_to_code_def by (rule find_map_key) (use PP_code_points_range utf8_eq assms in \<open>auto simp: list_all_iff\<close>)
  then show ?thesis by (simp add: find_kstr_def option.map_comp comp_def case_prod_unfold)
qed

lemma find_hstr_utf8:
  assumes "list_all (\<lambda>x. x < 65536) w"
  shows "pp_hstr_to_code (utf8 w) = (case find (\<lambda>(h, k, c). h = w) PP_code_points of None \<Rightarrow> END_M | Some (h, k, c) \<Rightarrow> c)"
proof -
  have "find (\<lambda>(h, k, c). h = utf8 w) PP_str_to_code =
      map_option (\<lambda>(h, k, c). (utf8 h, utf8 k, c)) (find (\<lambda>(h, k, c). h = w) PP_code_points)"
    unfolding PP_str_to_code_def by (rule find_map_key) (use PP_code_points_range utf8_eq assms in \<open>auto simp: list_all_iff\<close>)
  then show ?thesis by (simp add: pp_hstr_to_code_def split: option.split)
qed

lemma utf8_NIL: "''NIL'' = utf8 [78, 73, 76]"
  by (simp add: utf8_def utf8_char_def char_of_def bit_iff_odd)

definition known_code :: "int \<Rightarrow> bool" where
  "known_code n \<longleftrightarrow> 0 \<le> n \<and> n \<le> 43"

text \<open>The first 44 entries are numbered and have different names; the others are only found if these do not apply.\<close>

lemma known_entries:
  "map (\<lambda>(h, k, c). c) (take 44 PP_code_points) = map int [0..<44]"
  "distinct (map fst (take 44 PP_code_points))"
  "distinct (map (\<lambda>x. fst (snd x)) (take 44 PP_code_points))"
  "[78, 73, 76] \<notin> set (map (\<lambda>x. fst (snd x)) PP_code_points)"
  "length PP_code_points = 49"
  by (simp_all add: PP_code_points_def upt_rec)

lemma PP_length: "length PP_str_to_code = 49"
  by (simp add: PP_str_to_code_def known_entries)

lemma find_distinct:
  assumes "distinct (map f (take m xs))" and "i < m" and "i < length xs"
  shows "find (\<lambda>x. f x = f (xs ! i)) xs = Some (xs ! i)"
  unfolding find_Some_iff
proof (intro exI [of _ i] conjI allI impI)
  fix j assume "j < i"
  then show "f (xs ! j) \<noteq> f (xs ! i)" using assms by (auto simp: distinct_conv_nth)
qed (use assms in auto)

text \<open>
  The code of a case and its name determine each other: for the 44 codes of cases the table is searched from
  either name to the code that the name was read at, although later entries repeat some codes.
\<close>

theorem pp_code_roundtrip:
  assumes "known_code n"
  shows "\<exists>k h. pp_code_to_kstr n = Some k \<and> pp_kstr_to_code k = n \<and> pp_code_to_hstr n = Some h \<and> pp_hstr_to_code h = n"
proof -
  have n: "nat n < 44" "nat n < length PP_code_points" "0 \<le> n" using assms known_entries(5) by (auto simp: known_code_def)
  obtain h k c where e: "PP_code_points ! nat n = (h, k, c)" by (metis prod.exhaust)
  have "map (\<lambda>(h, k, c). c) (take 44 PP_code_points) ! nat n = n" using n by (simp only: known_entries(1)) simp
  then have c: "c = n" using n by (simp add: e)
  have found: "find (\<lambda>(h', k', c'). h' = h) PP_code_points = Some (h, k, n)" "find (\<lambda>(h', k', c'). k' = k) PP_code_points = Some (h, k, n)"
    using find_distinct [OF known_entries(2) n(1,2)] find_distinct [OF known_entries(3) n(1,2)] by (simp_all add: e c case_prod_unfold)
  have "(h, k, n) \<in> set PP_code_points" using nth_mem [OF n(2)] by (simp add: e c)
  then have range: "list_all (\<lambda>x. x < 65536) h" "list_all (\<lambda>x. x < 65536) k" and "k \<noteq> [78, 73, 76]"
    using PP_code_points_range known_entries(4) by (force simp: list_all_iff)+
  then have "utf8 k \<noteq> ''NIL''" using utf8_eq [of k "[78, 73, 76]"] by (simp add: utf8_NIL)
  moreover have "PP_str_to_code ! nat n = (utf8 h, utf8 k, n)" "length PP_str_to_code = 49"
    using n(2) known_entries(5) by (simp_all add: PP_str_to_code_def e c)
  ultimately show ?thesis using assms
    by (simp add: pp_code_to_kstr_def pp_code_to_hstr_def pp_kstr_to_code_def known_code_def
        find_kstr_utf8 [OF range(2)] find_hstr_utf8 [OF range(1)] found)
qed

theorem pp_code_roundtrip_witness:
  "\<exists>k h. pp_code_to_kstr 43 = Some k \<and> pp_kstr_to_code k = 43 \<and> pp_code_to_hstr 43 = Some h \<and> pp_hstr_to_code h = 43"
  by (rule pp_code_roundtrip) (simp add: known_code_def)

text \<open>The names that the programs use.\<close>

lemma kstr_literals:
  "s_soto = utf8 [0x5916, 0x306E, 0x95A2, 0x4FC2]"
  "s_ga2 = utf8 [0x30AC, 0xFF12]"
  "s_kk_no = utf8 [0x30CE]"
  "s_kk_mi = utf8 [0x672A]"
  "s_kk_phi = utf8 [0x03C6]"
  "s_kk_ga = utf8 [0x30AC]"
  "s_kk_wo = utf8 [0x30F2]"
  "s_kk_to = utf8 [0x30C8]"
  "s_kk_shuushoku = utf8 [0x4FEE, 0x98FE]"
  by (simp_all add: lit utf8_def utf8_char_def char_of_def bit_iff_odd)

lemma kstr_codes:
  "pp_kstr_to_code s_soto = 43" "pp_kstr_to_code s_ga2 = 42" "pp_kstr_to_code s_kk_no = 41" "pp_kstr_to_code s_kk_mi = -3"
  unfolding pp_kstr_to_code_def kstr_literals utf8_NIL by (simp_all add: find_kstr_utf8 utf8_eq, simp_all add: PP_code_points_def)

lemma kstr_names:
  "pp_code_to_kstr 0 = Some s_kk_phi" "pp_code_to_kstr 1 = Some s_kk_ga" "pp_code_to_kstr 2 = Some s_kk_wo"
  "pp_code_to_kstr 7 = Some s_kk_to" "pp_code_to_kstr 40 = Some s_kk_shuushoku" "pp_code_to_kstr 43 = Some s_soto"
  unfolding pp_code_to_kstr_def kstr_literals by (simp_all add: PP_length PP_str_to_code_def PP_code_points_def)

section \<open>Compound particles\<close>

definition FukugojiYomiTable :: "(string \<times> string) list" where
  "FukugojiYomiTable = map (\<lambda>(a, b). (utf8 a, utf8 b))
     [([0x3092, 0x9664, 0x304F], [0x3092, 0x306E, 0x305E, 0x304F]),
      ([0x3092, 0x901A, 0x3058, 0x308B], [0x3092, 0x3064, 0x3046, 0x3058, 0x308B]),
      ([0x3092, 0x901A, 0x305A, 0x308B], [0x3092, 0x3064, 0x3046, 0x3058, 0x308B]),
      ([0x3092, 0x901A, 0x3059], [0x3092, 0x3064, 0x3046, 0x3058, 0x308B]),
      ([0x3092, 0x542B, 0x3081, 0x308B], [0x3092, 0x3075, 0x304F, 0x3081, 0x308B]),
      ([0x3092, 0x59CB, 0x3081, 0x308B], [0x3092, 0x306F, 0x3058, 0x3081, 0x308B]),
      ([0x306B, 0x7D61, 0x3080], [0x306B, 0x304B, 0x3089, 0x3080]),
      ([0x306B, 0x6CBF, 0x3046], [0x306B, 0x305D, 0x3046]),
      ([0x306B, 0x5411, 0x3051, 0x308B], [0x306B, 0x3080, 0x3051, 0x308B]),
      ([0x306B, 0x4F34, 0x3046], [0x306B, 0x3068, 0x3082, 0x306A, 0x3046]),
      ([0x306B, 0x57FA, 0x3065, 0x304F], [0x306B, 0x3082, 0x3068, 0x3065, 0x304F]),
      ([0x306B, 0x5BFE, 0x3059, 0x308B], [0x306B, 0x305F, 0x3044, 0x3059, 0x308B]),
      ([0x306B, 0x95A2, 0x3059, 0x308B], [0x306B, 0x304B, 0x3093, 0x3059, 0x308B]),
      ([0x306B, 0x4EE3, 0x308F, 0x308B], [0x306B, 0x304B, 0x308F, 0x308B]),
      ([0x306B, 0x52A0, 0x3048, 0x308B], [0x306B, 0x304F, 0x308F, 0x3048, 0x308B]),
      ([0x306B, 0x9650, 0x308B], [0x306B, 0x304B, 0x304E, 0x308B]),
      ([0x306B, 0x7D9A, 0x304F], [0x306B, 0x3064, 0x3065, 0x304F]),
      ([0x306B, 0x5408, 0x308F, 0x305B, 0x308B], [0x306B, 0x3042, 0x308F, 0x305B, 0x308B]),
      ([0x306B, 0x6BD4, 0x3079, 0x308B], [0x306B, 0x304F, 0x3089, 0x3079, 0x308B]),
      ([0x306B, 0x4E26, 0x3076], [0x306B, 0x306A, 0x3089, 0x3076]),
      ([0x306B, 0x9650, 0x308B, 0x306C], [0x306B, 0x304B, 0x304E, 0x308B, 0x306C])]"

definition FukugojiCanonicalTable :: "(string \<times> string) list" where
  "FukugojiCanonicalTable = map (\<lambda>(a, b). (utf8 a, utf8 b))
     [([0x306B, 0x3088, 0x308B], [0x306B, 0x3088, 0x3063, 0x3066]),
      ([0x3092, 0x3081, 0x3050, 0x308B], [0x3092, 0x5DE1, 0x3063, 0x3066]),
      ([0x3092, 0x306E, 0x305E, 0x304F], [0x3092, 0x9664, 0x3044, 0x3066]),
      ([0x3092, 0x3064, 0x3046, 0x3058, 0x308B], [0x3092, 0x901A, 0x3058, 0x3066]),
      ([0x3092, 0x3064, 0x3046, 0x305A, 0x308B], [0x3092, 0x901A, 0x3058, 0x3066]),
      ([0x3092, 0x3075, 0x304F, 0x3081, 0x308B], [0x3092, 0x542B, 0x3081, 0x3066]),
      ([0x3092, 0x306F, 0x3058, 0x3081, 0x308B], [0x3092, 0x59CB, 0x3081, 0x3066]),
      ([0x306B, 0x304B, 0x3089, 0x3080], [0x306B, 0x7D61, 0x3093, 0x3067]),
      ([0x306B, 0x305D, 0x3046], [0x306B, 0x6CBF, 0x3063, 0x3066]),
      ([0x306B, 0x3080, 0x3051, 0x308B], [0x306B, 0x5411, 0x3051, 0x3066]),
      ([0x306B, 0x3068, 0x3082, 0x306A, 0x3046], [0x306B, 0x4F34, 0x3063, 0x3066]),
      ([0x306B, 0x3082, 0x3068, 0x3065, 0x304F], [0x306B, 0x57FA, 0x3065, 0x3044, 0x3066]),
      ([0x306B, 0x305F, 0x3044, 0x3059, 0x308B], [0x306B, 0x5BFE, 0x3057, 0x3066]),
      ([0x306B, 0x304B, 0x3093, 0x3059, 0x308B], [0x306B, 0x95A2, 0x3057, 0x3066]),
      ([0x306B, 0x304B, 0x308F, 0x308B], [0x306B, 0x4EE3, 0x308F, 0x3063, 0x3066]),
      ([0x306B, 0x304A, 0x304F], [0x306B, 0x304A, 0x3044, 0x3066]),
      ([0x306B, 0x3064, 0x304F], [0x306B, 0x3064, 0x3044, 0x3066]),
      ([0x306B, 0x3068, 0x308B], [0x306B, 0x3068, 0x3063, 0x3066]),
      ([0x306B, 0x304F, 0x308F, 0x3048, 0x308B], [0x306B, 0x52A0, 0x3048, 0x3066]),
      ([0x306B, 0x304B, 0x304E, 0x308B], [0x306B, 0x9650, 0x3063, 0x3066]),
      ([0x306B, 0x3064, 0x3065, 0x304F], [0x306B, 0x7D9A, 0x3044, 0x3066]),
      ([0x306B, 0x3042, 0x308F, 0x305B, 0x308B], [0x306B, 0x5408, 0x308F, 0x305B, 0x3066]),
      ([0x306B, 0x304F, 0x3089, 0x3079, 0x308B], [0x306B, 0x6BD4, 0x3079, 0x3066]),
      ([0x306B, 0x306A, 0x3089, 0x3076], [0x306B, 0x4E26, 0x3093, 0x3067]),
      ([0x3068, 0x3059, 0x308B], [0x3068, 0x3057, 0x3066]),
      ([0x306B, 0x3088, 0x308B, 0x306C], [0x306B, 0x3088, 0x3089, 0x305A]),
      ([0x306B, 0x304B, 0x304E, 0x308B, 0x306C], [0x306B, 0x9650, 0x3089, 0x305A])]"

end
