(* ===== verification/Knp_Assign.thy ===== *)
theory Knp_Assign
  imports Knp_Mrph Knp_Tables
begin

text \<open>
  What a rule does to the unit that it matches (\<open>assign_feature\<close> of \<open>src/system/feature.c\<close>): features
  are added and deleted, and features that begin with an ampersand call functions: the surface cases
  of a predicate (\<open>lib_scase.c\<close>, \<open>case_ipal.c\<close>, \<open>case_data.c\<close>), compound particles, semantic codes
  (\<open>lib_sm.c\<close>), the change of a part of speech, and the automatically acquired dictionary (\<open>dic.c\<close>).

  The code casts the pointer to the first matched unit to the kind of unit that the function is for
  and adds the offset of the current one. A morpheme is no bunsetsu; a base phrase and a bunsetsu
  have a common part, but they differ in size, so that the cast is right for the first unit only.
\<close>

section \<open>Parameters and state\<close>

record RULE_ENV =
  env :: ENV
  juman :: JUMAN
  OptKatakanaNormalize :: bool
  OptPosModification :: bool
  OptInputParsed :: bool
  OptAnaphora :: bool
  OptUseCPNCF :: bool
  OptDebug :: bool
  UseRepCF :: bool
  ScaseDicExist :: bool
  scase_db :: "string \<Rightarrow> string option"
  AutoDicExist :: bool
  auto_dic_db :: "string \<Rightarrow> string option"
  used_auto_dic_features :: "string list"

text \<open>The sentence, the globals of the checking functions, and the memo of the rules.\<close>

record ASG =
  a_sp :: SENTENCE_DATA
  a_st :: chk_state
  PM_Memo :: string

definition VOICE_MORAU :: int where "VOICE_MORAU = 8"
definition VOICE_HOSHII :: int where "VOICE_HOSHII = 16"
definition CF_PRED :: int where "CF_PRED = 1"
definition CF_NOUN :: int where "CF_NOUN = 2"
definition SM_ELEMENT_MAX :: nat where "SM_ELEMENT_MAX = 256"
definition EX_ELEMENT_MAX :: nat where "EX_ELEMENT_MAX = 256"

section \<open>Units and casts\<close>

definition f_at :: "SENTENCE_DATA \<Rightarrow> ptr \<Rightarrow> FEATURE option" where
  "f_at sp p =
     (case p of
        MrphP i \<Rightarrow> map_option m_f (at (mrph_data sp) i)
      | BnstP i \<Rightarrow> map_option n_f (at (bnst_data sp) i)
      | TagP i \<Rightarrow> map_option n_f (at (tag_data sp) i))"

definition set_f :: "ptr \<Rightarrow> FEATURE \<Rightarrow> SENTENCE_DATA \<Rightarrow> SENTENCE_DATA" where
  "set_f p f sp =
     (case p of
        MrphP i \<Rightarrow> set_mrph i (\<lambda>m. m\<lparr>m_f := f\<rparr>) sp
      | BnstP i \<Rightarrow> set_bnst i (\<lambda>b. b\<lparr>n_f := f\<rparr>) sp
      | TagP i \<Rightarrow> set_tag i (\<lambda>t. t\<lparr>n_f := f\<rparr>) sp)"

definition update_f :: "ptr \<Rightarrow> (FEATURE \<Rightarrow> FEATURE option) \<Rightarrow> SENTENCE_DATA \<Rightarrow> SENTENCE_DATA option" where
  "update_f p g sp = do { f \<leftarrow> f_at sp p; f' \<leftarrow> g f; Some (set_f p f' sp) }"

text \<open>A change to the common part of a bunsetsu and a base phrase.\<close>

definition set_voice :: "ptr \<Rightarrow> int \<Rightarrow> SENTENCE_DATA \<Rightarrow> SENTENCE_DATA" where
  "set_voice p v sp =
     (case p of MrphP i \<Rightarrow> sp | BnstP i \<Rightarrow> set_bnst i (\<lambda>b. b\<lparr>n_voice := v\<rparr>) sp | TagP i \<Rightarrow> set_tag i (\<lambda>t. t\<lparr>n_voice := v\<rparr>) sp)"

definition set_scase :: "ptr \<Rightarrow> int list \<Rightarrow> SENTENCE_DATA \<Rightarrow> SENTENCE_DATA" where
  "set_scase p c sp =
     (case p of MrphP i \<Rightarrow> sp | BnstP i \<Rightarrow> set_bnst i (\<lambda>b. b\<lparr>n_SCASE_code := c\<rparr>) sp
      | TagP i \<Rightarrow> set_tag i (\<lambda>t. t\<lparr>n_SCASE_code := c\<rparr>) sp)"

definition set_codes :: "ptr \<Rightarrow> thesaurus \<Rightarrow> string \<Rightarrow> SENTENCE_DATA \<Rightarrow> SENTENCE_DATA" where
  "set_codes p th code sp =
     (case p of
        MrphP i \<Rightarrow> sp
      | BnstP i \<Rightarrow> set_bnst i (\<lambda>b. if th = USE_BGH then b\<lparr>n_BGH_code := code\<rparr> else b\<lparr>n_SM_code := code\<rparr>) sp
      | TagP i \<Rightarrow> set_tag i (\<lambda>t. if th = USE_BGH then t\<lparr>n_BGH_code := code\<rparr> else t\<lparr>n_SM_code := code\<rparr>) sp)"

definition cast_bnst :: "ptr \<Rightarrow> nat \<Rightarrow> ptr option" where
  "cast_bnst p k = (case p of BnstP i \<Rightarrow> Some (BnstP (i + k)) | TagP i \<Rightarrow> if k = 0 then Some p else None | MrphP i \<Rightarrow> None)"

definition cast_tag :: "ptr \<Rightarrow> int \<Rightarrow> ptr option" where
  "cast_tag p k =
     (case p of
        TagP i \<Rightarrow> if 0 \<le> int i + k then Some (TagP (nat (int i + k))) else None
      | BnstP i \<Rightarrow> if k = 0 then Some p else None
      | MrphP i \<Rightarrow> None)"

definition cast_mrph :: "ptr \<Rightarrow> nat \<Rightarrow> nat option" where
  "cast_mrph p k = (case p of MrphP i \<Rightarrow> Some (i + k) | _ \<Rightarrow> None)"

definition mrph_of :: "SENTENCE_DATA \<Rightarrow> int \<Rightarrow> MRPH_DATA option" where
  "mrph_of sp i = (if 0 \<le> i then at (mrph_data sp) (nat i) else None)"

section \<open>Surface cases\<close>

definition voice_bit :: "string \<Rightarrow> int" where
  "voice_bit token =
     (if token = s_judou then VOICE_UKEMI
      else if token = s_shieki then VOICE_SHIEKI
      else if token = s_morau then VOICE_MORAU
      else if token = s_hoshii then VOICE_HOSHII
      else if token = s_shieki_judou then VOICE_SHIEKI_UKEMI
      else 0)"

definition set_pred_voice :: "ptr \<Rightarrow> SENTENCE_DATA \<Rightarrow> SENTENCE_DATA option" where
  "set_pred_voice p sp =
     do { n \<leftarrow> node_at sp p;
          v \<leftarrow> (case check_feature (n_f n) s_tai of
                 None \<Rightarrow> Some 0
               | Some cp \<Rightarrow> map_option (\<lambda>str. fold (\<lambda>t v. v OR voice_bit t) (c_tokens_loop (CHR ''|'') [] str) 0) (after cp s_tai_c));
          Some (set_voice p v sp) }"

text \<open>The notation of the head of a predicate and whether it is a compound (\<open>cpncf_flag\<close>).\<close>

definition rep_or_make :: "RULE_ENV \<Rightarrow> MRPH_DATA \<Rightarrow> bool \<Rightarrow> string option" where
  "rep_or_make R m flag =
     do { r \<leftarrow> get_mrph_rep_from_f m flag;
          case r of Some s \<Rightarrow> Some s | None \<Rightarrow> make_mrph_rn (env R) (juman R) (OptKatakanaNormalize R) m }"

definition cut_rep :: "string option \<Rightarrow> string option option" where
  "cut_rep rep = do { l \<leftarrow> get_mrph_rep_length rep; Some (if l \<noteq> 0 then map_option (take l) rep else None) }"

definition main_pred ::
  "RULE_ENV \<Rightarrow> SENTENCE_DATA \<Rightarrow> ptr \<Rightarrow> NODE \<Rightarrow> nat \<Rightarrow> MRPH_DATA \<Rightarrow> MRPH_DATA option \<Rightarrow> int \<Rightarrow> bool \<Rightarrow> (string option \<times> bool) option"
where
  "main_pred R sp p t h hm m_ptr cf_type cpncf_flag =
     (case m_ptr of
        Some m \<Rightarrow> map_option (\<lambda>r. (r, cpncf_flag)) (cut_rep (get_mrph_rep m))
      | None \<Rightarrow>
          do { canon \<leftarrow> (if cf_type = CF_NOUN \<and> OptAnaphora R
                        then (case p of TagP i \<Rightarrow>
                                do { tg \<leftarrow> at (tag_data sp) i; b \<leftarrow> at (bnst_data sp) (t_b_ptr tg); Some (check_feature (n_f b) s_seikika) }
                              | _ \<Rightarrow> None)
                        else Some None);
               case canon of
                 Some cp \<Rightarrow> map_option (\<lambda>r. (Some r, True)) (after cp s_seikika_c)
               | None \<Rightarrow>
                   (case (if cf_type = CF_NOUN \<and> OptUseCPNCF R \<and> check_feature (m_f hm) s_tokushu_himidashi = None
                          then (case check_feature (n_f t) ''BGH'' of
                                  Some cp \<Rightarrow> if c_strstr cp ''|'' = None then Some cp else None | None \<Rightarrow> None)
                          else None) of
                      Some cp \<Rightarrow>
                        (if check_feature (n_f t) s_keiyou_gokan \<noteq> None
                         then map_option (\<lambda>r. (r, cpncf_flag)) (cut_rep (get_mrph_rep hm))
                         else map_option (\<lambda>r. (if r \<noteq> [] then Some r else None, True)) (after cp ''BGH:''))
                    | None \<Rightarrow>
                        (if cf_type AND CF_PRED \<noteq> 0 \<and> Class_id (env R) (m_Hinshi hm) (m_Bunrui hm) = s_meishisei_setsubi
                         then do { pm \<leftarrow> mrph_of sp (int h - 1);
                                   r \<leftarrow> rep_or_make R pm (check_feature (m_f pm) s_T_henkoumae \<noteq> None); Some (Some r, cpncf_flag) }
                         else do { r \<leftarrow> rep_or_make R hm (cf_type AND CF_PRED \<noteq> 0 \<and> check_feature (m_f hm) s_T_henkoumae \<noteq> None);
                                   Some (Some r, cpncf_flag) })) })"

text \<open>The string and how many bytes its buffer has room for.\<close>

definition pred_string ::
  "SENTENCE_DATA \<Rightarrow> NODE \<Rightarrow> nat \<Rightarrow> MRPH_DATA \<Rightarrow> string \<Rightarrow> string option \<Rightarrow> bool \<Rightarrow> int \<Rightarrow> bool \<Rightarrow> (string \<times> nat) option"
where
  "pred_string sp t h hm pred orig_form use_rep_flag cf_type cpncf_flag =
     (if check_feature (n_f t) s_id_wo_ni \<noteq> None \<and> \<not> cpncf_flag
      then Some (if use_rep_flag then s_suru_suru else s_suru, length s_suru_suru + 8)
      else do {
        right \<leftarrow> (if check_feature (n_f t) s_T_midashi_r \<noteq> None \<and> \<not> cpncf_flag
                  then if check_feature (m_f hm) s_sahen = None then Some True
                       else do { nm \<leftarrow> at (mrph_data sp) (h + 1); r \<leftarrow> get_mrph_rep_from_f nm (cf_type \<noteq> 0);
                                 Some (r \<noteq> None \<and> r \<noteq> Some s_suru_suru) }
                  else Some False);
        if right
        then do { nm \<leftarrow> at (mrph_data sp) (h + 1);
                  if use_rep_flag
                  then do { r \<leftarrow> get_mrph_rep_from_f nm (cf_type \<noteq> 0);
                            let s = (case r of Some cp \<Rightarrow> cp | None \<Rightarrow> m_Goi nm);
                            Some (pred @ ''+'' @ s, length pred + length s + 9) }
                  else Some (m_Goi2 hm @ m_Goi nm, length (m_Goi2 hm) + length (m_Goi nm) + 8) }
        else do {
          left \<leftarrow> (if check_feature (n_f t) s_T_midashi_l \<noteq> None \<and> \<not> cpncf_flag
                   then map_option (\<lambda>pm. if check_feature (m_f pm) s_fuzoku = None then Some pm else None) (mrph_of sp (int h - 1))
                   else Some None);
          case left of
            Some pm \<Rightarrow>
              do { r \<leftarrow> (if use_rep_flag then get_mrph_rep_from_f pm False else Some None);
                   Some (case r of Some cp \<Rightarrow> (cp @ ''+'' @ pred, length cp + length pred + 9)
                         | None \<Rightarrow> (m_Goi2 pm @ pred, length (m_Goi2 pm) + length pred + 8)) }
          | None \<Rightarrow> Some (case orig_form of Some s \<Rightarrow> (s, length s + 8) | None \<Rightarrow> (pred, length pred + 8)) } })"

definition make_pred_string ::
  "RULE_ENV \<Rightarrow> SENTENCE_DATA \<Rightarrow> ptr \<Rightarrow> MRPH_DATA option \<Rightarrow> string option \<Rightarrow> bool \<Rightarrow> int \<Rightarrow> bool \<Rightarrow> (string \<times> nat) option"
where
  "make_pred_string R sp p m_ptr orig_form use_rep_flag cf_type cpncf_flag =
     do { t \<leftarrow> node_at sp p; h \<leftarrow> n_head_ptr t; hm \<leftarrow> at (mrph_data sp) h;
          (mp, cp) \<leftarrow> (if use_rep_flag then main_pred R sp p t h hm m_ptr cf_type cpncf_flag else Some (None, cpncf_flag));
          let pred = (case mp of Some s \<Rightarrow> s | None \<Rightarrow> (case m_ptr of Some m \<Rightarrow> m_Goi m | None \<Rightarrow> m_Goi hm));
          pred_string sp t h hm pred orig_form use_rep_flag cf_type cp }"

text \<open>The codes of the dictionary, digits, as numbers; \<^verbatim>\<open>char\<close> is signed.\<close>

definition get_scase :: "RULE_ENV \<Rightarrow> string \<Rightarrow> int list option" where
  "get_scase R cp =
     (if \<not> ScaseDicExist R then None
      else map_option (map (\<lambda>c. (of_char c - 48 + 128) mod 256 - 128)) (scase_db R cp))"

text \<open>The loop ends at the first code zero of \<open>dst\<close>; where it goes on, \<open>src\<close> has to have an entry.\<close>

fun or_codes :: "int list \<Rightarrow> int list \<Rightarrow> int list option" where
  "or_codes [] src = Some []"
| "or_codes (d # ds) src =
     (if d = 0 then Some (d # ds)
      else case src of [] \<Rightarrow> None | s # ss \<Rightarrow> map_option (Cons (d OR s)) (or_codes ds ss))"

definition or_scase_code :: "int list option \<Rightarrow> int list option \<Rightarrow> int list option option" where
  "or_scase_code dst src =
     (case dst of
        None \<Rightarrow> Some src
      | Some d \<Rightarrow> (case src of None \<Rightarrow> Some dst | Some s \<Rightarrow> map_option Some (or_codes d (s @ [0]))))"

definition scase_voice :: "int \<Rightarrow> string" where
  "scase_voice v =
     (if v AND VOICE_UKEMI \<noteq> 0 then '':P'' else if v AND VOICE_SHIEKI \<noteq> 0 then '':C''
      else if v AND VOICE_SHIEKI_UKEMI \<noteq> 0 then '':PC'' else [])"

definition scase_key :: "RULE_ENV \<Rightarrow> SENTENCE_DATA \<Rightarrow> ptr \<Rightarrow> MRPH_DATA option \<Rightarrow> string \<Rightarrow> int \<Rightarrow> string option" where
  "scase_key R sp p m vtype voice =
     do { (str, size) \<leftarrow> make_pred_string R sp p m None (UseRepCF R) 0 False; fits size (str @ '':'' @ vtype @ scase_voice voice) }"

fun scase_alts ::
  "RULE_ENV \<Rightarrow> SENTENCE_DATA \<Rightarrow> ptr \<Rightarrow> string \<Rightarrow> int \<Rightarrow> FEATURE \<Rightarrow> string \<times> int list option \<Rightarrow> (string \<times> int list option) option" where
  "scase_alts R sp p vtype voice [] x = Some x"
| "scase_alts R sp p vtype voice (cp # fp) (key, ans) =
     (if starts cp ''ALT-''
      then do { m \<leftarrow> scan_alt_mrph (drop 4 cp); key' \<leftarrow> scase_key R sp p (Some m) vtype voice;
                ans' \<leftarrow> or_scase_code ans (get_scase R key');
                scase_alts R sp p vtype voice fp (key', ans') }
      else scase_alts R sp p vtype voice fp (key, ans))"

definition lookup_scase :: "RULE_ENV \<Rightarrow> SENTENCE_DATA \<Rightarrow> ptr \<Rightarrow> NODE \<Rightarrow> (string \<times> int list option) option" where
  "lookup_scase R sp p n =
     (case (if ScaseDicExist R then check_feature (n_f n) s_yougen else None) of
        None \<Rightarrow> Some ([], None)
      | Some cp \<Rightarrow>
          if cp = s_yougen_han then Some ([], None)
          else do { vtype \<leftarrow> after cp s_yougen_c;
                    key \<leftarrow> scase_key R sp p None vtype (n_voice n);
                    h \<leftarrow> n_head_ptr n; hm \<leftarrow> at (mrph_data sp) h;
                    if check_feature (m_f hm) s_genkei_aimai \<noteq> None
                    then scase_alts R sp p vtype (n_voice n) (m_f hm) (key, get_scase R key)
                    else Some (key, get_scase R key) })"

definition set_cases :: "string list \<Rightarrow> int list \<Rightarrow> int list" where
  "set_cases cs code = fold (\<lambda>c code. code[nat (case2num c) := 1]) cs code"

text \<open>The cases of a predicate that the dictionary does not have.\<close>

definition default_cases :: "FEATURE \<Rightarrow> string list" where
  "default_cases f =
     (if check_feature f s_yougen_han \<noteq> None then [s_ga]
      else if check_feature f s_yougen_kei \<noteq> None then [s_ga, s_ni]
      else if check_feature f s_yougen_dou \<noteq> None then [s_ga, s_wo, s_ni, s_he, s_to]
      else [])"

definition voice_cases :: "int \<Rightarrow> string list" where
  "voice_cases v =
     (if v AND VOICE_SHIEKI \<noteq> 0 then [s_wo, s_ni]
      else if v AND VOICE_UKEMI \<noteq> 0 \<or> v AND VOICE_SHIEKI_UKEMI \<noteq> 0 then [s_ni]
      else if v AND VOICE_MORAU \<noteq> 0 \<or> v AND VOICE_HOSHII \<noteq> 0 then [s_wo, s_ni]
      else [])"

definition get_scase_code :: "RULE_ENV \<Rightarrow> ptr \<Rightarrow> SENTENCE_DATA \<Rightarrow> SENTENCE_DATA option" where
  "get_scase_code R p sp =
     do { n \<leftarrow> node_at sp p;
          (key, ans) \<leftarrow> lookup_scase R sp p n;
          let zero = replicate SCASE_CODE_SIZE 0;
          (sp1, code) \<leftarrow>
            (case ans of
               Some a \<Rightarrow>
                 do { sp1 \<leftarrow> (if OptDebug R then update_f p (\<lambda>f. Some (assign_cfeature [] f (''SCASEUSE:'' @ key) False)) sp else Some sp);
                      if SCASE_CODE_SIZE \<le> length a + 1 then Some (sp1, take SCASE_CODE_SIZE (a @ [0])) else None }
             | None \<Rightarrow> Some (sp, set_cases (default_cases (n_f n)) zero));
          Some (set_scase p (set_cases (voice_cases (n_voice n)) code) sp1) }"

section \<open>Compound particles\<close>

text \<open>The particle before the unit and its first independent word, as they are read.\<close>

fun fukugoji_word :: "ENV \<Rightarrow> MRPH_DATA list \<Rightarrow> string" where
  "fukugoji_word e [] = []"
| "fukugoji_word e (m # ms) =
     (if check_feature (m_f m) s_jiritsu \<noteq> None \<and> Class_id e (m_Hinshi m) 0 \<noteq> s_tokushu
      then m_Goi m @ (case ms of [] \<Rightarrow> [] | m2 # _ \<Rightarrow> if m_Goi m2 = s_nu \<and> Class_id e (m_Hinshi m2) 0 = s_jodoushi then m_Goi m2 else [])
      else fukugoji_word e ms)"

definition extract_fukugoji_string :: "ENV \<Rightarrow> SENTENCE_DATA \<Rightarrow> NODE \<Rightarrow> NODE option \<Rightarrow> string option option" where
  "extract_fukugoji_string e sp b pre =
     (if n_num b < 1 then Some None
      else do { q \<leftarrow> pre;
                if n_mrph_num q = 0 then Some None
                else do { m \<leftarrow> at (mrph_data sp) (n_mrph_ptr q + n_mrph_num q - 1);
                          str \<leftarrow> fits SMALL_DATA_LEN (m_Goi m @ fukugoji_word e (take (n_mrph_num b) (drop (n_mrph_ptr b) (mrph_data sp))));
                          Some (Some (case find (\<lambda>(a, _). a = str) FukugojiYomiTable of Some (_, y) \<Rightarrow> y | None \<Rightarrow> str)) } })"

definition canonicalize_fukugoji :: "string \<Rightarrow> string option" where
  "canonicalize_fukugoji str = map_option snd (find (\<lambda>(a, _). a = str) FukugojiCanonicalTable)"

text \<open>The unit before one that is addressed as a bunsetsu: there is none before a base phrase.\<close>

definition make_fukugoji_id :: "ENV \<Rightarrow> SENTENCE_DATA \<Rightarrow> ptr \<Rightarrow> string option option" where
  "make_fukugoji_id e sp p =
     do { b \<leftarrow> node_at sp p;
          s \<leftarrow> extract_fukugoji_string e sp b (case p of BnstP j \<Rightarrow> if j = 0 then None else node_at sp (BnstP (j - 1)) | _ \<Rightarrow> None);
          Some (map_option (\<lambda>c. s_id_nami @ c) (Option.bind s canonicalize_fukugoji)) }"

definition make_fukugoji_case_string :: "ENV \<Rightarrow> SENTENCE_DATA \<Rightarrow> ptr \<Rightarrow> string option option" where
  "make_fukugoji_case_string e sp p =
     do { b \<leftarrow> node_at sp p;
          s \<leftarrow> extract_fukugoji_string e sp b (Option.bind (cast_tag p (-1)) (node_at sp));
          case s of
            None \<Rightarrow> Some None
          | Some str \<Rightarrow>
              if pp_hstr_to_code str = END_M then Some None
              else map_option (\<lambda>k. Some (s_T_kaiseki_kaku @ k)) (pp_code_to_kstr (pp_hstr_to_code str)) }"

section \<open>Semantic codes and the acquired dictionary\<close>

definition assign_sm :: "RULE_ENV \<Rightarrow> ptr \<Rightarrow> string \<Rightarrow> ASG \<Rightarrow> ASG option" where
  "assign_sm R p cp a =
     do { n \<leftarrow> node_at (a_sp a) p;
          let e = env R;
          let target = sm2code e (cont_str (a_st a)) cp;
          let a' = a\<lparr>a_st := (a_st a)\<lparr>cont_str := target\<rparr>\<rparr>;
          if Thesaurus e = USE_NONE then Some a'
          else do { let code = (if Thesaurus e = USE_BGH then n_BGH_code n else n_SM_code n);
                    b \<leftarrow> sms_match e target code SM_NO_EXPAND_NE;
                    if b then Some a'
                    else do { code' \<leftarrow> fits (if Thesaurus e = USE_BGH then EX_ELEMENT_MAX * BGH_CODE_SIZE + 1 else SM_ELEMENT_MAX * SM_CODE_SIZE + 1)
                                         (code @ target);
                              Some (a'\<lparr>a_sp := set_codes p (Thesaurus e) code' (a_sp a)\<rparr>) } } }"

text \<open>The key of a sequence of morphemes; the outer \<open>None\<close> is an overflow, the inner one that it is too long.\<close>

fun auto_dic_key :: "string \<Rightarrow> bool \<Rightarrow> MRPH_DATA list \<Rightarrow> string option option" where
  "auto_dic_key key first [] = Some (Some key)"
| "auto_dic_key key first (m # ms) =
     (let k = (if first then key else key @ ''+'')
      in do { r \<leftarrow> get_mrph_rep_from_f m False;
              case r of
                Some rep \<Rightarrow> if DATA_LEN < length k + length rep + 2 then Some None else auto_dic_key (k @ rep) False ms
              | None \<Rightarrow> do { k' \<leftarrow> fits DATA_LEN (k @ m_Goi2 m); auto_dic_key k' False ms } })"

text \<open>The longest prefix of the matched morphemes that the dictionary has an entry of the kind for.\<close>

primrec auto_dic_loop :: "RULE_ENV \<Rightarrow> string \<Rightarrow> bool \<Rightarrow> nat \<Rightarrow> nat \<Rightarrow> nat \<Rightarrow> SENTENCE_DATA \<Rightarrow> (bool \<times> SENTENCE_DATA) option" where
  "auto_dic_loop R rule_value temp m assign_pos 0 sp = Some (False, sp)"
| "auto_dic_loop R rule_value temp m assign_pos (Suc l) sp =
     (if length (mrph_data sp) < m + Suc l then None
      else do {
        key \<leftarrow> auto_dic_key [] True (take (Suc l) (drop m (mrph_data sp)));
        case key of
          None \<Rightarrow> Some (False, sp)
        | Some k \<Rightarrow>
            (case Option.bind (auto_dic_db R k) (\<lambda>d. find (\<lambda>t. starts t rule_value) (c_tokens_loop (CHR ''|'') [] d)) of
               Some token \<Rightarrow>
                 do { fname \<leftarrow> fits (length token + 9) (token @ '':'' @ decimal (m_num (mrph_data sp ! m)) @ ''-'' @
                                   decimal (m_num (mrph_data sp ! (m + l))));
                      sp' \<leftarrow> update_f (MrphP (m + assign_pos)) (\<lambda>f. assign_name f fname temp) sp;
                      Some (True, sp') }
             | None \<Rightarrow> auto_dic_loop R rule_value temp m (assign_pos - 1) l sp) })"

definition check_auto_dic :: "RULE_ENV \<Rightarrow> nat \<Rightarrow> nat \<Rightarrow> nat \<Rightarrow> string \<Rightarrow> bool \<Rightarrow> SENTENCE_DATA \<Rightarrow> (bool \<times> SENTENCE_DATA) option" where
  "check_auto_dic R m assign_pos m_length rule_value temp sp =
     (if \<not> AutoDicExist R \<or> (used_auto_dic_features R \<noteq> [] \<and> rule_value \<notin> set (used_auto_dic_features R))
      then Some (False, sp) else auto_dic_loop R rule_value temp m assign_pos m_length sp)"

section \<open>The features of a rule\<close>

definition on_sp :: "(SENTENCE_DATA \<Rightarrow> SENTENCE_DATA option) \<Rightarrow> ASG \<Rightarrow> ASG option" where
  "on_sp g a = map_option (\<lambda>sp. a\<lparr>a_sp := sp\<rparr>) (g (a_sp a))"

definition set_scase_of :: "string \<Rightarrow> int \<Rightarrow> ptr \<Rightarrow> SENTENCE_DATA \<Rightarrow> SENTENCE_DATA option" where
  "set_scase_of c v p sp =
     do { n \<leftarrow> node_at sp p;
          if case2num c < 0 \<or> length (n_SCASE_code n) \<le> nat (case2num c) then None
          else Some (set_scase p ((n_SCASE_code n)[nat (case2num c) := v]) sp) }"

definition scase_function :: "RULE_ENV \<Rightarrow> string \<Rightarrow> ptr \<Rightarrow> SENTENCE_DATA \<Rightarrow> SENTENCE_DATA option" where
  "scase_function R cp p sp =
     (if cp = s_f_hyousou_fuyo then Option.bind (set_pred_voice p sp) (get_scase_code R p)
      else if cp = s_f_hyousou_sakujo then map_option (\<lambda>_. set_scase p (replicate SCASE_CODE_SIZE 0) sp) (node_at sp p)
      else if starts cp s_f_hyousou_not then set_scase_of (drop (length s_f_hyousou_not) cp) 0 p sp
      else set_scase_of (drop (length s_f_hyousou) cp) 1 p sp)"

definition assign_computed :: "bool \<Rightarrow> ptr \<Rightarrow> string option \<Rightarrow> SENTENCE_DATA \<Rightarrow> SENTENCE_DATA option" where
  "assign_computed temp p cp sp = (case cp of None \<Rightarrow> Some sp | Some c \<Rightarrow> update_f p (\<lambda>f. assign_name f c temp) sp)"

text \<open>A feature is passed on to another unit, or taken from it.\<close>

definition pass_on :: "bool \<Rightarrow> string \<Rightarrow> ptr \<Rightarrow> ptr \<Rightarrow> SENTENCE_DATA \<Rightarrow> SENTENCE_DATA option" where
  "pass_on temp pat src dst sp =
     do { f \<leftarrow> f_at sp src;
          case check_feature f pat of
            Some cp \<Rightarrow> update_f dst (\<lambda>f. assign_name f cp temp) sp
          | None \<Rightarrow> update_f dst (\<lambda>f. Some (delete_cfeature f pat)) sp }"

definition propagate :: "bool \<Rightarrow> string \<Rightarrow> ptr \<Rightarrow> nat \<Rightarrow> SENTENCE_DATA \<Rightarrow> SENTENCE_DATA option" where
  "propagate temp arg base offset sp =
     do { (i, _) \<leftarrow> scan_int arg; pat0 \<leftarrow> c_strchr arg (CHR '':'');
          let pat = tl pat0;
          src \<leftarrow> cast_tag base (int offset); dst \<leftarrow> cast_tag base (int offset + i);
          sp1 \<leftarrow> pass_on temp pat src dst sp;
          t \<leftarrow> (case src of TagP k \<Rightarrow> at (tag_data sp1) k | _ \<Rightarrow> None);
          if 0 \<le> t_bnum t
          then if 0 \<le> int (t_b_ptr t) + i then pass_on temp pat (BnstP (t_b_ptr t)) (BnstP (nat (int (t_b_ptr t) + i))) sp1 else None
          else Some sp1 }"

definition attach_mrphs :: "bool \<Rightarrow> ptr \<Rightarrow> SENTENCE_DATA \<Rightarrow> SENTENCE_DATA option" where
  "attach_mrphs temp p sp =
     do { n \<leftarrow> node_at sp p;
          fold_option (\<lambda>i. update_f (MrphP (n_mrph_ptr n + i)) (\<lambda>f.
              Some (assign_cfeature [] (delete_cfeature (delete_cfeature (delete_cfeature f s_jiritsu) s_naiyougo) s_jun_naiyougo) s_fuzoku temp)))
            [0..<n_mrph_num n] sp }"

definition auto_dic_function :: "RULE_ENV \<Rightarrow> string \<Rightarrow> bool \<Rightarrow> ptr \<Rightarrow> nat \<Rightarrow> SENTENCE_DATA \<Rightarrow> SENTENCE_DATA option" where
  "auto_dic_function R cp temp base len sp =
     (let arg = drop (length s_f_jidou_jisho) cp in
      do { assign_pos \<leftarrow> (if starts arg s_sentou_c then Some 0 else if starts arg s_matsubi_c then Some (len - 1) else None);
           m \<leftarrow> cast_mrph base 0;
           map_option snd (check_auto_dic R m assign_pos len (drop (length s_f_jidou_sentou) cp) temp sp) })"

text \<open>The morpheme that the matching has stored.\<close>

definition stored_mrph :: "ASG \<Rightarrow> MRPH_DATA option" where
  "stored_mrph a = Option.bind (matched_ptr (a_st a)) (mrph_at (a_sp a))"

definition call_function :: "RULE_ENV \<Rightarrow> ptr \<Rightarrow> nat \<Rightarrow> nat \<Rightarrow> bool \<Rightarrow> string \<Rightarrow> ASG \<Rightarrow> ASG option" where
  "call_function R base offset len temp cp a =
     (let bnst = cast_bnst base offset; tag = cast_tag base (int offset); mrph = cast_mrph base offset in
      if starts cp s_f_hyousou then Option.bind bnst (\<lambda>p. on_sp (scase_function R cp p) a)
      else if starts cp s_f_memo then map_option (\<lambda>memo. a\<lparr>PM_Memo := memo\<rparr>) (fits DATA_LEN (PM_Memo a @ '' '' @ drop (length s_f_memo) cp))
      else if starts cp s_f_hinshi_henkou then
        (if OptPosModification R \<and> \<not> OptInputParsed R
         then Option.bind mrph (\<lambda>i. on_sp (update_mrph i (\<lambda>m. change_mrph (juman R) m cp)) a) else Some a)
      else if starts cp s_f_daihyo_henkou then
        do { i \<leftarrow> mrph; c \<leftarrow> char_at cp (length s_f_daihyo_henkou);
             on_sp (update_mrph i (\<lambda>m. change_one_mrph_rep (juman R) m True c)) a }
      else if starts cp s_f_imiso_fuyo then Option.bind bnst (\<lambda>p. assign_sm R p (drop (length s_f_imiso_fuyo) cp) a)
      else if starts cp s_f_fukugoji then
        do { t \<leftarrow> tag; t1 \<leftarrow> cast_tag base (int offset + 1); c \<leftarrow> make_fukugoji_case_string (env R) (a_sp a) t1;
             on_sp (assign_computed temp t c) a }
      else if starts cp s_f_fukugoji_id then
        do { b \<leftarrow> bnst; c \<leftarrow> make_fukugoji_id (env R) (a_sp a) b; on_sp (assign_computed temp b c) a }
      else if starts cp s_f_kioku_goi then
        do { b \<leftarrow> bnst; m \<leftarrow> stored_mrph a; fname \<leftarrow> fits DATA_LEN (drop (length s_f_kioku_goi) cp @ '':'' @ m_Goi m);
             on_sp (assign_computed temp b (Some fname)) a }
      else if starts cp s_f_kioku_shoukaku then
        do { t \<leftarrow> tag; m \<leftarrow> stored_mrph a;
             on_sp (assign_computed temp t (str_delete_last_column (check_feature (m_f m) (drop (length s_f_kioku_fuyo) cp)))) a }
      else if starts cp s_f_denpan then on_sp (propagate temp (drop (length s_f_denpan) cp) base offset) a
      else if starts cp s_f_fuzokuka then Option.bind tag (\<lambda>t. on_sp (attach_mrphs temp t) a)
      else if starts cp s_f_jidou_jisho then
        (if offset = 0 then on_sp (auto_dic_function R cp temp base len) a else Some a)
      else Some a)"

definition assign_one :: "RULE_ENV \<Rightarrow> ptr \<Rightarrow> ptr \<Rightarrow> nat \<Rightarrow> nat \<Rightarrow> bool \<Rightarrow> string \<Rightarrow> ASG \<Rightarrow> ASG option" where
  "assign_one R target base offset len temp cp a =
     (if starts cp ''^'' then on_sp (update_f target (\<lambda>f. Some (filter (\<lambda>x. \<not> comp_feature x (tl cp)) f))) a
      else if starts cp ''&'' then call_function R base offset len temp cp a
      else on_sp (update_f target (\<lambda>f. assign_name f cp temp)) a)"

text \<open>
  \<open>target\<close> is the unit whose list the features go to, \<open>base\<close> the first matched unit, \<open>offset\<close> the current
  one in the match and \<open>len\<close> the number of units from it to the end of the match.
\<close>

definition assign_feature :: "RULE_ENV \<Rightarrow> ptr \<Rightarrow> FEATURE \<Rightarrow> ptr \<Rightarrow> nat \<Rightarrow> nat \<Rightarrow> bool \<Rightarrow> ASG \<Rightarrow> ASG option" where
  "assign_feature R target rf base offset len temp = fold_option (assign_one R target base offset len temp) rf"

end
