(* ===== verification/Knp_Apply.thy ===== *)
theory Knp_Apply
  imports Knp_Assign
begin

text \<open>
  The application of the rules to the units of a sentence (\<open>src/system/read_data.c\<close>): rules are tried
  at every position, or every rule is tried at all positions, from either end; a match may end the
  trial of rules at the position, or move the position behind the match.
\<close>

section \<open>Rule sets\<close>

datatype loop_mode = RLOOP_MRM | RLOOP_RMM | RLOOP_OTHER
datatype break_mode = RLOOP_BREAK_NONE | RLOOP_BREAK_NORMAL | RLOOP_BREAK_JUMP
datatype direction = LtoR | RtoL

datatype rules = MrphRules "MrphRule list" | BnstRules "BnstRule list"

record GeneralRuleType =
  RuleArray :: rules
  gr_type :: int
  gr_mode :: loop_mode
  gr_breakmode :: break_mode
  gr_direction :: direction

fun break_feature :: "FEATURE \<Rightarrow> break_mode" where
  "break_feature [] = RLOOP_BREAK_NONE"
| "break_feature (cp # fp) =
     (if cp = ''&break:normal'' then RLOOP_BREAK_NORMAL
      else if cp = ''&break:jump'' then RLOOP_BREAK_JUMP
      else if starts cp ''&break'' then RLOOP_BREAK_NORMAL
      else break_feature fp)"

section \<open>The loops\<close>

text \<open>
  The rules at one position: \<open>mt\<close> matches a rule, \<open>ap\<close> applies it to the units of a match. The result has
  the position where the loop goes on.
\<close>

fun mrm_rules ::
  "('r \<Rightarrow> 's \<Rightarrow> (int \<times> 'r \<times> 's) option) \<Rightarrow> ('r \<Rightarrow> nat \<Rightarrow> 's \<Rightarrow> 's option) \<Rightarrow> ('r \<Rightarrow> FEATURE) \<Rightarrow> break_mode \<Rightarrow>
   nat \<Rightarrow> 'r list \<Rightarrow> 's \<Rightarrow> ('r list \<times> 's \<times> nat) option" where
  "mrm_rules mt ap rf bm i [] a = Some ([], a, Suc i)"
| "mrm_rules mt ap rf bm i (r # rs) a =
     do { (n, r', a1) \<leftarrow> mt r a;
          if n = -1 then map_option (\<lambda>(rs', a', k). (r' # rs', a', k)) (mrm_rules mt ap rf bm i rs a1)
          else do {
            a2 \<leftarrow> ap r' (nat n) a1;
            let fb = break_feature (rf r');
            if bm = RLOOP_BREAK_NORMAL \<or> fb = RLOOP_BREAK_NORMAL then Some (r' # rs, a2, Suc i)
            else if bm = RLOOP_BREAK_JUMP \<or> fb = RLOOP_BREAK_JUMP then Some (r' # rs, a2, i + nat n)
            else map_option (\<lambda>(rs', a', k). (r' # rs', a', k)) (mrm_rules mt ap rf bm i rs a2) } }"

text \<open>A jump over an empty match does not move the position; no result means that the loop does not end.\<close>

partial_function (option) mrm_loop ::
  "(nat \<Rightarrow> 'r list \<Rightarrow> 's \<Rightarrow> ('r list \<times> 's \<times> nat) option) \<Rightarrow> nat \<Rightarrow> nat \<Rightarrow> 'r list \<Rightarrow> 's \<Rightarrow> ('r list \<times> 's) option" where
  "mrm_loop body len i rs a =
     (if i < len then do { (rs', a', k) \<leftarrow> body i rs a; mrm_loop body len k rs' a' } else Some (rs, a))"

declare mrm_loop.simps [code]

fun rmm_positions ::
  "(nat \<Rightarrow> 'r \<Rightarrow> 's \<Rightarrow> (int \<times> 'r \<times> 's) option) \<Rightarrow> (nat \<Rightarrow> 'r \<Rightarrow> nat \<Rightarrow> 's \<Rightarrow> 's option) \<Rightarrow> bool \<Rightarrow>
   nat list \<Rightarrow> 'r \<Rightarrow> 's \<Rightarrow> ('r \<times> 's) option" where
  "rmm_positions mt ap stop [] r a = Some (r, a)"
| "rmm_positions mt ap stop (i # ps) r a =
     do { (n, r', a1) \<leftarrow> mt i r a;
          if n = -1 then rmm_positions mt ap stop ps r' a1
          else do { a2 \<leftarrow> ap i r' (nat n) a1; if stop then Some (r', a2) else rmm_positions mt ap stop ps r' a2 } }"

fun rmm_rules ::
  "(nat \<Rightarrow> 'r \<Rightarrow> 's \<Rightarrow> (int \<times> 'r \<times> 's) option) \<Rightarrow> (nat \<Rightarrow> 'r \<Rightarrow> nat \<Rightarrow> 's \<Rightarrow> 's option) \<Rightarrow> ('r \<Rightarrow> FEATURE) \<Rightarrow> break_mode \<Rightarrow>
   nat \<Rightarrow> 'r list \<Rightarrow> 's \<Rightarrow> ('r list \<times> 's) option" where
  "rmm_rules mt ap rf bm len [] a = Some ([], a)"
| "rmm_rules mt ap rf bm len (r # rs) a =
     do { (r', a1) \<leftarrow> rmm_positions mt ap (bm \<noteq> RLOOP_BREAK_NONE \<or> break_feature (rf r) \<noteq> RLOOP_BREAK_NONE) [0..<len] r a;
          map_option (\<lambda>(rs', a'). (r' # rs', a')) (rmm_rules mt ap rf bm len rs a1) }"

text \<open>The unit at position \<open>i\<close> of the \<open>len\<close> units from \<open>s\<close> on, and how many units are before and from it.\<close>

definition unit_pos :: "direction \<Rightarrow> nat \<Rightarrow> nat \<Rightarrow> nat \<Rightarrow> nat" where
  "unit_pos dir s len i = (case dir of LtoR \<Rightarrow> s + i | RtoL \<Rightarrow> s + len - 1 - i)"

definition bw_len :: "direction \<Rightarrow> nat \<Rightarrow> nat \<Rightarrow> nat" where
  "bw_len dir len i = (case dir of LtoR \<Rightarrow> i | RtoL \<Rightarrow> len - i - 1)"

definition fw_len :: "direction \<Rightarrow> nat \<Rightarrow> nat \<Rightarrow> nat" where
  "fw_len dir len i = (case dir of LtoR \<Rightarrow> len - i | RtoL \<Rightarrow> i + 1)"

text \<open>The control that the three functions for morphemes, base phrases and bunsetsu have in common.\<close>

definition assign_units ::
  "('r \<Rightarrow> nat \<Rightarrow> nat \<Rightarrow> nat \<Rightarrow> 's \<Rightarrow> (int \<times> 'r \<times> 's) option) \<Rightarrow> (nat \<Rightarrow> FEATURE \<Rightarrow> nat \<Rightarrow> 's \<Rightarrow> 's option) \<Rightarrow> ('r \<Rightarrow> FEATURE) \<Rightarrow>
   nat \<Rightarrow> nat \<Rightarrow> loop_mode \<Rightarrow> break_mode \<Rightarrow> direction \<Rightarrow> 'r list \<Rightarrow> 's \<Rightarrow> ('r list \<times> 's) option" where
  "assign_units match_at ap rf s len mode bm dir rs a =
     (let mt = (\<lambda>i r. match_at r (unit_pos dir s len i) (bw_len dir len i) (fw_len dir len i));
          app = (\<lambda>i r. ap (unit_pos dir s len i) (rf r))
      in case mode of
           RLOOP_MRM \<Rightarrow> mrm_loop (\<lambda>i. mrm_rules (mt i) (app i) rf bm i) len 0 rs a
         | RLOOP_RMM \<Rightarrow> rmm_rules mt app rf bm len rs a
         | RLOOP_OTHER \<Rightarrow> Some (rs, a))"

section \<open>Morphemes, base phrases, bunsetsu\<close>

definition match_mrph :: "RULE_ENV \<Rightarrow> MrphRule \<Rightarrow> nat \<Rightarrow> nat \<Rightarrow> nat \<Rightarrow> ASG \<Rightarrow> (int \<times> MrphRule \<times> ASG) option" where
  "match_mrph R r pos bw fw a =
     map_option (\<lambda>(n, r', st). (n, r', a\<lparr>a_st := st\<rparr>)) (regexpmrphrule_match (env R) (a_sp a) r pos bw fw (a_st a))"

definition match_tag :: "RULE_ENV \<Rightarrow> BnstRule \<Rightarrow> nat \<Rightarrow> nat \<Rightarrow> nat \<Rightarrow> ASG \<Rightarrow> (int \<times> BnstRule \<times> ASG) option" where
  "match_tag R r pos bw fw a =
     map_option (\<lambda>(n, r', st). (n, r', a\<lparr>a_st := st\<rparr>)) (regexptagrule_match (env R) (a_sp a) r pos bw fw (a_st a))"

definition match_bnst :: "RULE_ENV \<Rightarrow> BnstRule \<Rightarrow> nat \<Rightarrow> nat \<Rightarrow> nat \<Rightarrow> ASG \<Rightarrow> (int \<times> BnstRule \<times> ASG) option" where
  "match_bnst R r pos bw fw a =
     map_option (\<lambda>(n, r', st). (n, r', a\<lparr>a_st := st\<rparr>)) (regexpbnstrule_match (env R) (a_sp a) r pos bw fw (a_st a))"

definition assign_to_mrphs :: "RULE_ENV \<Rightarrow> bool \<Rightarrow> nat \<Rightarrow> FEATURE \<Rightarrow> nat \<Rightarrow> ASG \<Rightarrow> ASG option" where
  "assign_to_mrphs R temp pos rf n =
     fold_option (\<lambda>k. assign_feature R (MrphP (pos + k)) rf (MrphP pos) k (n - k) temp) [0..<n]"

text \<open>The bunsetsu of a base phrase and the last base phrase of a bunsetsu can get the features too.\<close>

definition assign_to_tags :: "RULE_ENV \<Rightarrow> bool \<Rightarrow> bool \<Rightarrow> nat \<Rightarrow> FEATURE \<Rightarrow> nat \<Rightarrow> ASG \<Rightarrow> ASG option" where
  "assign_to_tags R also temp pos rf n =
     fold_option (\<lambda>k a. do { a1 \<leftarrow> assign_feature R (TagP (pos + k)) rf (TagP pos) k (n - k) temp a;
                          if also then do { t \<leftarrow> at (tag_data (a_sp a1)) (pos + k);
                                            assign_feature R (BnstP (t_b_ptr t)) rf (TagP pos) k (n - k) temp a1 }
                          else Some a1 }) [0..<n]"

definition assign_to_bnsts :: "RULE_ENV \<Rightarrow> bool \<Rightarrow> bool \<Rightarrow> nat \<Rightarrow> FEATURE \<Rightarrow> nat \<Rightarrow> ASG \<Rightarrow> ASG option" where
  "assign_to_bnsts R also temp pos rf n =
     fold_option (\<lambda>k a. do { a1 \<leftarrow> assign_feature R (BnstP (pos + k)) rf (BnstP pos) k (n - k) temp a;
                          if also then do { b \<leftarrow> at (bnst_data (a_sp a1)) (pos + k);
                                            if b_tag_ptr b + b_tag_num b = 0 then None
                                            else assign_feature R (TagP (b_tag_ptr b + b_tag_num b - 1)) rf (BnstP pos) k (n - k) temp a1 }
                          else Some a1 }) [0..<n]"

definition assign_mrph_feature ::
  "RULE_ENV \<Rightarrow> nat \<Rightarrow> nat \<Rightarrow> loop_mode \<Rightarrow> break_mode \<Rightarrow> direction \<Rightarrow> bool \<Rightarrow> MrphRule list \<Rightarrow> ASG \<Rightarrow> (MrphRule list \<times> ASG) option" where
  "assign_mrph_feature R s len mode bm dir temp = assign_units (match_mrph R) (assign_to_mrphs R temp) mr_f s len mode bm dir"

definition assign_tag_feature ::
  "RULE_ENV \<Rightarrow> nat \<Rightarrow> nat \<Rightarrow> loop_mode \<Rightarrow> break_mode \<Rightarrow> direction \<Rightarrow> bool \<Rightarrow> bool \<Rightarrow> BnstRule list \<Rightarrow> ASG \<Rightarrow> (BnstRule list \<times> ASG) option" where
  "assign_tag_feature R s len mode bm dir also temp = assign_units (match_tag R) (assign_to_tags R also temp) br_f s len mode bm dir"

definition assign_bnst_feature ::
  "RULE_ENV \<Rightarrow> nat \<Rightarrow> nat \<Rightarrow> loop_mode \<Rightarrow> break_mode \<Rightarrow> direction \<Rightarrow> bool \<Rightarrow> bool \<Rightarrow> BnstRule list \<Rightarrow> ASG \<Rightarrow> (BnstRule list \<times> ASG) option" where
  "assign_bnst_feature R s len mode bm dir also temp = assign_units (match_bnst R) (assign_to_bnsts R also temp) br_f s len mode bm dir"

section \<open>All rules of a kind\<close>

definition MorphRuleType :: int where "MorphRuleType = 1"
definition BnstRuleType :: int where "BnstRuleType = 2"
definition NeMorphRuleType :: int where "NeMorphRuleType = 6"
definition TagRuleType :: int where "TagRuleType = 11"
definition AfterDpndBnstRuleType :: int where "AfterDpndBnstRuleType = 12"
definition AfterDpndTagRuleType :: int where "AfterDpndTagRuleType = 13"
definition PostProcessTagRuleType :: int where "PostProcessTagRuleType = 14"
definition PreProcessMorphRuleType :: int where "PreProcessMorphRuleType = 16"

definition apply_rules ::
  "RULE_ENV \<Rightarrow> nat \<Rightarrow> nat \<Rightarrow> int \<Rightarrow> bool \<Rightarrow> bool \<Rightarrow> GeneralRuleType \<Rightarrow> ASG \<Rightarrow> (GeneralRuleType \<times> ASG) option" where
  "apply_rules R s len flag also temp g a =
     (let ret_g = map_option (\<lambda>(rs, a'). (g\<lparr>RuleArray := BnstRules rs\<rparr>, a')) in
      if flag \<in> {MorphRuleType, PreProcessMorphRuleType, NeMorphRuleType}
      then (case RuleArray g of
              MrphRules rs \<Rightarrow> map_option (\<lambda>(rs, a'). (g\<lparr>RuleArray := MrphRules rs\<rparr>, a'))
                (assign_mrph_feature R s len (gr_mode g) (gr_breakmode g) (gr_direction g) temp rs a)
            | BnstRules rs \<Rightarrow> None)
      else (case RuleArray g of
              MrphRules rs \<Rightarrow> None
            | BnstRules rs \<Rightarrow>
                if flag \<in> {TagRuleType, AfterDpndTagRuleType, PostProcessTagRuleType}
                then ret_g (assign_tag_feature R s len (gr_mode g) (gr_breakmode g) (gr_direction g) also temp rs a)
                else if flag \<in> {BnstRuleType, AfterDpndBnstRuleType}
                then ret_g (assign_bnst_feature R s len (gr_mode g) (gr_breakmode g) (gr_direction g) also temp rs a)
                else None))"

fun assign_general_feature ::
  "RULE_ENV \<Rightarrow> nat \<Rightarrow> nat \<Rightarrow> int \<Rightarrow> bool \<Rightarrow> bool \<Rightarrow> GeneralRuleType list \<Rightarrow> ASG \<Rightarrow> (GeneralRuleType list \<times> ASG) option" where
  "assign_general_feature R s len flag also temp [] a = Some ([], a)"
| "assign_general_feature R s len flag also temp (g # gs) a =
     do { (g', a1) \<leftarrow> (if gr_type g = flag then apply_rules R s len flag also temp g a else Some (g, a));
          map_option (\<lambda>(gs', a'). (g' # gs', a')) (assign_general_feature R s len flag also temp gs a1) }"

section \<open>Loops that end and loops that do not\<close>

lemma mrm_loop_for:
  assumes "\<And>i rs a rs' a' k. P rs \<Longrightarrow> body i rs a = Some (rs', a', k) \<Longrightarrow> P rs' \<and> k = Suc i" and "P rs"
  shows "mrm_loop body len i rs a = fold_option (\<lambda>i (rs, a). map_option (\<lambda>(rs', a', k). (rs', a')) (body i rs a)) [i..<len] (rs, a)"
  using assms(2)
proof (induction "len - i" arbitrary: i rs a)
  case (Suc n)
  then have i: "i < len" by simp
  show ?case
  proof (cases "body i rs a")
    case None
    then show ?thesis using i by (simp add: mrm_loop.simps [of body len i] upt_conv_Cons)
  next
    case (Some x)
    obtain rs' a' k where x: "x = (rs', a', k)" by (cases x)
    then have "P rs'" "k = Suc i" using assms(1) [OF Suc.prems] Some by auto
    then show ?thesis
      using Suc.hyps(1) [of "Suc i" rs' a'] Suc.hyps(2) Some x i
      by (simp add: mrm_loop.simps [of body len i] upt_conv_Cons)
  qed
qed (simp add: mrm_loop.simps)

text \<open>Matching does not change the features that a rule assigns.\<close>

definition no_jump :: "break_mode \<Rightarrow> FEATURE \<Rightarrow> bool" where
  "no_jump bm f \<longleftrightarrow> bm \<noteq> RLOOP_BREAK_JUMP \<and> break_feature f \<noteq> RLOOP_BREAK_JUMP"

lemma mrm_rules_no_jump:
  assumes "\<And>r a n r' a'. mt r a = Some (n, r', a') \<Longrightarrow> rf r' = rf r"
    and "mrm_rules mt ap rf bm i rs a = Some (rs', a', k)" and "list_all (\<lambda>r. no_jump bm (rf r)) rs"
  shows "list_all (\<lambda>r. no_jump bm (rf r)) rs' \<and> k = Suc i"
  using assms(2,3)
proof (induction rs arbitrary: a rs' a')
  case (Cons r rs)
  obtain n r1 a1 where m: "mt r a = Some (n, r1, a1)" using Cons.prems(1) by (auto simp: bind_eq_Some_conv)
  have r1: "no_jump bm (rf r1)" using assms(1) [OF m] Cons.prems(2) by simp
  have rs: "list_all (\<lambda>r. no_jump bm (rf r)) rs" using Cons.prems(2) by simp
  have nj: "bm \<noteq> RLOOP_BREAK_JUMP" "break_feature (rf r1) \<noteq> RLOOP_BREAK_JUMP" using r1 by (simp_all add: no_jump_def)
  consider (go) a2 rs2 where "mrm_rules mt ap rf bm i rs a2 = Some (rs2, a', k)" "rs' = r1 # rs2"
    | (stop) "rs' = r1 # rs" "k = Suc i"
  proof (cases "n = -1")
    case True
    then show ?thesis using Cons.prems(1) m that(1) by (auto simp: bind_eq_Some_conv)
  next
    case False
    then obtain a2 where "ap r1 (nat n) a1 = Some a2" using Cons.prems(1) m by (auto simp: bind_eq_Some_conv)
    then show ?thesis using False Cons.prems(1) m nj that by (auto simp: bind_eq_Some_conv Let_def split: if_splits)
  qed
  then show ?case
  proof cases
    case go
    then show ?thesis using Cons.IH [OF go(1) rs] r1 by simp
  next
    case stop
    then show ?thesis using r1 rs by simp
  qed
qed simp

lemma match_mrph_f: "match_mrph R r pos bw fw a = Some (n, r', a') \<Longrightarrow> mr_f r' = mr_f r"
  by (auto simp: match_mrph_def regexpmrphrule_match_def)

text \<open>
  C28. Without jumps the application of morpheme rules ends: it tries the rules once at each position, from one
  end to the other.
\<close>

theorem mrph_rules_without_jump:
  assumes "list_all (\<lambda>r. no_jump bm (mr_f r)) rs"
  shows "assign_mrph_feature R s len RLOOP_MRM bm dir temp rs a =
    fold_option (\<lambda>i (rs, a). map_option (\<lambda>(rs', a', k). (rs', a'))
        (mrm_rules (\<lambda>r. match_mrph R r (unit_pos dir s len i) (bw_len dir len i) (fw_len dir len i))
          (\<lambda>r. assign_to_mrphs R temp (unit_pos dir s len i) (mr_f r)) mr_f bm i rs a)) [0..<len] (rs, a)"
  unfolding assign_mrph_feature_def assign_units_def Let_def loop_mode.case
proof (rule mrm_loop_for [where P = "list_all (\<lambda>r. no_jump bm (mr_f r))", OF _ assms])
  fix i rs a rs' a' k
  assume "list_all (\<lambda>r. no_jump bm (mr_f r)) rs"
    and "mrm_rules (\<lambda>r. match_mrph R r (unit_pos dir s len i) (bw_len dir len i) (fw_len dir len i))
          (\<lambda>r. assign_to_mrphs R temp (unit_pos dir s len i) (mr_f r)) mr_f bm i rs a = Some (rs', a', k)"
  then show "list_all (\<lambda>r. no_jump bm (mr_f r)) rs' \<and> k = Suc i"
    by (intro mrm_rules_no_jump) (auto dest: match_mrph_f)
qed

lemma mrm_loop_stuck:
  assumes "i < len" "body i rs a = Some (rs, a, i)"
  shows "mrm_loop body len i rs a = None"
proof (cases "mrm_loop body len i rs a")
  case (Some y)
  have "i < len \<longrightarrow> body i rs a \<noteq> Some (rs, a, i)"
  proof (rule mrm_loop.raw_induct [where P = "\<lambda>body len i rs a y. i < len \<longrightarrow> body i rs a \<noteq> Some (rs, a, i)", OF _ Some])
    fix f :: "(nat \<Rightarrow> 'a list \<Rightarrow> 'b \<Rightarrow> ('a list \<times> 'b \<times> nat) option) \<Rightarrow> nat \<Rightarrow> nat \<Rightarrow> 'a list \<Rightarrow> 'b \<Rightarrow> ('a list \<times> 'b) option"
      and body :: "nat \<Rightarrow> 'a list \<Rightarrow> 'b \<Rightarrow> ('a list \<times> 'b \<times> nat) option" and len i rs a y
    assume IH: "\<And>body len i rs a y. f body len i rs a = Some y \<Longrightarrow> i < len \<longrightarrow> body i rs a \<noteq> Some (rs, a, i)"
      and run: "(if i < len then body i rs a \<bind> (\<lambda>(rs', a', k). f body len k rs' a') else Some (rs, a)) = Some y"
    show "i < len \<longrightarrow> body i rs a \<noteq> Some (rs, a, i)"
    proof (intro impI notI)
      assume i: "i < len" and stuck: "body i rs a = Some (rs, a, i)"
      then have "f body len i rs a = Some y" using run by simp
      then show False using IH i stuck by blast
    qed
  qed
  then show ?thesis using assms by blast
qed simp

text \<open>
  C35. A rule that jumps behind its match is applied for ever where it matches no unit at all, as a self pattern
  does whose elements may all be missing.
\<close>

theorem jump_on_empty_match:
  assumes "match_mrph R r (unit_pos dir s len 0) (bw_len dir len 0) (fw_len dir len 0) a = Some (0, r, a)"
    and "break_feature (mr_f r) = RLOOP_BREAK_JUMP" and "0 < len"
  shows "assign_mrph_feature R s len RLOOP_MRM RLOOP_BREAK_NONE dir temp (r # rs) a = None"
proof -
  have "mrm_rules (\<lambda>r. match_mrph R r (unit_pos dir s len 0) (bw_len dir len 0) (fw_len dir len 0))
      (\<lambda>r. assign_to_mrphs R temp (unit_pos dir s len 0) (mr_f r)) mr_f RLOOP_BREAK_NONE 0 (r # rs) a = Some (r # rs, a, 0)"
    using assms(1,2) by (simp add: assign_to_mrphs_def)
  then show ?thesis
    using assms(3) unfolding assign_mrph_feature_def assign_units_def Let_def loop_mode.case by (intro mrm_loop_stuck)
qed

text \<open>What every match and every application keeps, the loops keep.\<close>

lemma mrm_rules_keep:
  assumes "\<And>r a n r' a'. mt r a = Some (n, r', a') \<Longrightarrow> P a \<Longrightarrow> P a'" "\<And>r n a a'. ap r n a = Some a' \<Longrightarrow> P a \<Longrightarrow> P a'"
  shows "mrm_rules mt ap rf bm i rs a = Some (rs', a', k) \<Longrightarrow> P a \<Longrightarrow> P a'"
proof (induction rs arbitrary: a rs')
  case (Cons r rs)
  obtain n r1 a1 where m: "mt r a = Some (n, r1, a1)" using Cons.prems(1) by (auto simp: bind_eq_Some_conv)
  have a1: "P a1" by (rule assms(1) [OF m Cons.prems(2)])
  show ?case
  proof (cases "n = -1")
    case True
    then show ?thesis using Cons.prems(1) m Cons.IH a1 by auto
  next
    case False
    then obtain a2 where a2: "ap r1 (nat n) a1 = Some a2" using Cons.prems(1) m by (auto simp: bind_eq_Some_conv)
    have "P a2" by (rule assms(2) [OF a2 a1])
    then show ?thesis using Cons.prems(1) m False a2 Cons.IH by (auto simp: Let_def split: if_split_asm)
  qed
qed simp

lemma mrm_loop_keep:
  fixes P :: "'s \<Rightarrow> bool" and body :: "nat \<Rightarrow> 'r list \<Rightarrow> 's \<Rightarrow> ('r list \<times> 's \<times> nat) option"
  assumes "\<And>i rs a rs' a' k. body i rs a = Some (rs', a', k) \<Longrightarrow> P a \<Longrightarrow> P a'" and "mrm_loop body len i rs a = Some (rs', a')" and "P a"
  shows "P a'"
proof -
  have "(\<forall>i rs a rs' a' k. body i rs a = Some (rs', a', k) \<longrightarrow> P a \<longrightarrow> P a') \<longrightarrow> P a \<longrightarrow> P (snd (rs', a'))"
  proof (rule mrm_loop.raw_induct [where P = "\<lambda>body len i rs a y.
        (\<forall>i rs a rs' a' k. body i rs a = Some (rs', a', k) \<longrightarrow> P a \<longrightarrow> P a') \<longrightarrow> P a \<longrightarrow> P (snd y)", OF _ assms(2)])
    fix f :: "(nat \<Rightarrow> 'r list \<Rightarrow> 's \<Rightarrow> ('r list \<times> 's \<times> nat) option) \<Rightarrow> nat \<Rightarrow> nat \<Rightarrow> 'r list \<Rightarrow> 's \<Rightarrow> ('r list \<times> 's) option"
      and body :: "nat \<Rightarrow> 'r list \<Rightarrow> 's \<Rightarrow> ('r list \<times> 's \<times> nat) option" and len i rs a y
    assume IH: "\<And>body len i rs a y. f body len i rs a = Some y \<Longrightarrow>
        (\<forall>i rs a rs' a' k. body i rs a = Some (rs', a', k) \<longrightarrow> P a \<longrightarrow> P a') \<longrightarrow> P a \<longrightarrow> P (snd y)"
      and run: "(if i < len then body i rs a \<bind> (\<lambda>(rs', a', k). f body len k rs' a') else Some (rs, a)) = Some y"
    show "(\<forall>i rs a rs' a' k. body i rs a = Some (rs', a', k) \<longrightarrow> P a \<longrightarrow> P a') \<longrightarrow> P a \<longrightarrow> P (snd y)"
    proof (intro impI)
      assume step: "\<forall>i rs a rs' a' k. body i rs a = Some (rs', a', k) \<longrightarrow> P a \<longrightarrow> P a'" and "P a"
      show "P (snd y)"
      proof (cases "i < len")
        case True
        then obtain rs1 a1 k where "body i rs a = Some (rs1, a1, k)" "f body len k rs1 a1 = Some y"
          using run by (auto simp: bind_eq_Some_conv)
        then show ?thesis using IH step \<open>P a\<close> by blast
      qed (use run \<open>P a\<close> in auto)
    qed
  qed
  then show ?thesis using assms(1,3) by simp
qed

lemma rmm_positions_keep:
  assumes "\<And>i r a n r' a'. mt i r a = Some (n, r', a') \<Longrightarrow> P a \<Longrightarrow> P a'" "\<And>i r n a a'. ap i r n a = Some a' \<Longrightarrow> P a \<Longrightarrow> P a'"
  shows "rmm_positions mt ap stop ps r a = Some (r', a') \<Longrightarrow> P a \<Longrightarrow> P a'"
proof (induction ps arbitrary: r a)
  case (Cons i ps)
  obtain n r1 a1 where m: "mt i r a = Some (n, r1, a1)" using Cons.prems(1) by (auto simp: bind_eq_Some_conv)
  have a1: "P a1" by (rule assms(1) [OF m Cons.prems(2)])
  show ?case
  proof (cases "n = -1")
    case True
    then show ?thesis using Cons.prems(1) m Cons.IH a1 by auto
  next
    case False
    then obtain a2 where a2: "ap i r1 (nat n) a1 = Some a2" using Cons.prems(1) m by (auto simp: bind_eq_Some_conv)
    have "P a2" by (rule assms(2) [OF a2 a1])
    then show ?thesis using Cons.prems(1) m False a2 Cons.IH by (auto split: if_split_asm)
  qed
qed simp

lemma rmm_rules_keep:
  assumes "\<And>i r a n r' a'. mt i r a = Some (n, r', a') \<Longrightarrow> P a \<Longrightarrow> P a'" "\<And>i r n a a'. ap i r n a = Some a' \<Longrightarrow> P a \<Longrightarrow> P a'"
  shows "rmm_rules mt ap rf bm len rs a = Some (rs', a') \<Longrightarrow> P a \<Longrightarrow> P a'"
proof (induction rs arbitrary: a rs')
  case (Cons r rs)
  then show ?case
    using rmm_positions_keep [of mt P ap, OF assms] by (auto simp: bind_eq_Some_conv)
qed simp

lemma assign_units_keep:
  assumes "\<And>r i j k a n r' a'. mt r i j k a = Some (n, r', a') \<Longrightarrow> P a \<Longrightarrow> P a'" "\<And>i f n a a'. ap i f n a = Some a' \<Longrightarrow> P a \<Longrightarrow> P a'"
    and "assign_units mt ap rf s len mode bm dir rs a = Some (rs', a')" and "P a"
  shows "P a'"
proof -
  define mt' where "mt' = (\<lambda>i r. mt r (unit_pos dir s len i) (bw_len dir len i) (fw_len dir len i))"
  define ap' where "ap' = (\<lambda>i r. ap (unit_pos dir s len i) (rf r))"
  have mt': "P a'" if "mt' i r a = Some (n, r', a')" "P a" for i r a n r' a'
    using that unfolding mt'_def by (rule assms(1))
  have ap': "P a'" if "ap' i r n a = Some a'" "P a" for i r n a a'
    using that unfolding ap'_def by (rule assms(2))
  note run = assms(3) [unfolded assign_units_def Let_def, folded mt'_def ap'_def]
  show ?thesis
  proof (cases mode)
    case RLOOP_MRM
    have "mrm_loop (\<lambda>i. mrm_rules (mt' i) (ap' i) rf bm i) len 0 rs a = Some (rs', a')"
      using run RLOOP_MRM by (simp add: mt'_def ap'_def)
    from mrm_loop_keep [where P = P, OF mrm_rules_keep [where P = P, OF mt' ap'] this assms(4)] show ?thesis .
  next
    case RLOOP_RMM
    then have "rmm_rules mt' ap' rf bm len rs a = Some (rs', a')"
      using run by (simp add: mt'_def ap'_def)
    from rmm_rules_keep [where P = P, OF mt' ap' this assms(4)] show ?thesis .
  next
    case RLOOP_OTHER
    then show ?thesis using assms(3,4) by (simp add: assign_units_def)
  qed
qed

section \<open>Examples\<close>

definition sample_rule_env :: RULE_ENV where
  "sample_rule_env =
     \<lparr>env = sample_env, juman = \<lparr>get_hinsi_id = \<lambda>_. 0, get_bunrui_id = \<lambda>_ _. 0, get_type_id = \<lambda>_. 0,
        get_form_id = \<lambda>_ _. 0, Form_gobi = \<lambda>_ _. None\<rparr>, OptKatakanaNormalize = True, OptPosModification = True,
      OptInputParsed = False, OptAnaphora = False, OptUseCPNCF = True, OptDebug = False, UseRepCF = False,
      ScaseDicExist = False, scase_db = \<lambda>_. None, AutoDicExist = False, auto_dic_db = \<lambda>_. None,
      used_auto_dic_features = []\<rparr>"

definition sample_asg :: "MRPH_DATA list \<Rightarrow> ASG" where
  "sample_asg ms = \<lparr>a_sp = (sample_sentence [])\<lparr>mrph_data := ms\<rparr>, a_st = \<lparr>matched_ptr = None, cont_str = []\<rparr>, PM_Memo = []\<rparr>"

text \<open>Rules for one and for any number of morphemes with the spelling \<open>ab\<close>, behind anything.\<close>

definition sample_rule :: "char \<Rightarrow> FEATURE \<Rightarrow> MrphRule" where
  "sample_rule ast f =
     \<lparr>mr_pre_pattern = Some \<lparr>r_mrph = [RegexpMrphInitValue\<lparr>r_type_flag := QST_FLG, r_ast_flag := AST_FLG\<rparr>], r_mrphsize = 1\<rparr>,
      mr_self_pattern = Some \<lparr>r_mrph = [RegexpMrphInitValue\<lparr>r_Goi := [Some ''ab'', None], r_ast_flag := ast\<rparr>], r_mrphsize = 1\<rparr>,
      mr_post_pattern = None, mr_f = f\<rparr>"

theorem mrph_rules_without_jump_witness:
  "map_option (\<lambda>(rs, a). map m_f (mrph_data (a_sp a)))
     (assign_mrph_feature sample_rule_env 0 2 RLOOP_MRM RLOOP_BREAK_NONE LtoR False [sample_rule MAT_FLG [''new'']]
       (sample_asg [sample_mrph ''x'' [], sample_mrph ''ab'' [''old'']])) = Some [[], [''old'', ''new'']]"
  by (subst mrph_rules_without_jump, code_simp, code_simp)

theorem jump_on_empty_match_witness:
  "assign_mrph_feature sample_rule_env 0 1 RLOOP_MRM RLOOP_BREAK_NONE LtoR False [sample_rule AST_FLG [''&break:jump'']]
     (sample_asg [sample_mrph ''x'' []]) = None"
  by (rule jump_on_empty_match) code_simp+

end
