(* ===== verification/Knp_Frame.thy ===== *)
theory Knp_Frame
  imports Knp_Apply
begin

text \<open>
  What rules cannot change. The functions of rules reach a sentence through four setters (features, voice,
  surface cases, semantic codes) and through changes of single morphemes that keep the spelling in the text.
  The locale \<open>rule_invariant\<close> states this for a predicate on sentences; whatever satisfies it is kept by the
  application of any rules. Two invariants are instances: the grouping of the sentence into bunsetsu and base
  phrases here, and the words of the sentence in \<open>Knp_Preprocess\<close>.
\<close>

section \<open>Changes of morphemes\<close>

text \<open>A change of the part of speech may replace the basic form by the spelling in the text.\<close>

definition respelled :: "MRPH_DATA \<Rightarrow> MRPH_DATA \<Rightarrow> bool" where
  "respelled m m' \<longleftrightarrow> m_Goi2 m' = m_Goi2 m \<and> (m_Goi m' = m_Goi m \<or> m_Goi m' = m_Goi2 m)"

lemma respelled_trans: "respelled a b \<Longrightarrow> respelled b c \<Longrightarrow> respelled a c"
  by (auto simp: respelled_def)

lemma respelled_imi: "change_one_mrph_imi m = Some m' \<Longrightarrow> respelled m m'"
  by (auto simp: change_one_mrph_imi_def bind_eq_Some_conv respelled_def Let_def split: option.splits)

lemma respelled_rep: "change_one_mrph_rep J m flag c = Some m' \<Longrightarrow> respelled m m'"
  by (auto simp: change_one_mrph_rep_def respelled_def split: if_split_asm)

lemma respelled_one: "change_one_mrph J m cp = Some m' \<Longrightarrow> respelled m m'"
  by (auto simp: change_one_mrph_def respelled_def Let_def split: if_split_asm)

lemma respelled_change: "change_mrph J m cp = Some m' \<Longrightarrow> respelled m m'"
  unfolding change_mrph_def bind_eq_Some_conv
  by (elim exE conjE, rule respelled_trans [OF respelled_imi], assumption, rule respelled_trans [OF respelled_rep], assumption,
      rule respelled_trans [OF respelled_one], assumption) (auto simp: change_alt_mrph_def respelled_def)

section \<open>Invariants of rules\<close>

locale rule_invariant =
  fixes P :: "SENTENCE_DATA \<Rightarrow> bool"
  assumes set_f: "P sp \<Longrightarrow> P (set_f p f sp)"
    and set_voice: "P sp \<Longrightarrow> P (set_voice p v sp)"
    and set_scase: "P sp \<Longrightarrow> P (set_scase p c sp)"
    and set_codes: "P sp \<Longrightarrow> P (set_codes p th code sp)"
    and change: "P sp \<Longrightarrow> update_mrph i g sp = Some sp' \<Longrightarrow> (\<And>m m'. g m = Some m' \<Longrightarrow> respelled m m') \<Longrightarrow> P sp'"
begin

lemma update_f: "update_f p g sp = Some sp' \<Longrightarrow> P sp \<Longrightarrow> P sp'"
  by (auto simp: update_f_def bind_eq_Some_conv intro: set_f)

lemma set_pred_voice: "set_pred_voice p sp = Some sp' \<Longrightarrow> P sp \<Longrightarrow> P sp'"
  by (auto simp: set_pred_voice_def bind_eq_Some_conv intro: set_voice)

lemma get_scase_code: "get_scase_code R p sp = Some sp' \<Longrightarrow> P sp \<Longrightarrow> P sp'"
  by (auto simp: get_scase_code_def bind_eq_Some_conv Let_def split: option.splits if_split_asm dest!: update_f intro: set_scase)

lemma scase_function: "scase_function R cp p sp = Some sp' \<Longrightarrow> P sp \<Longrightarrow> P sp'"
  by (auto simp: scase_function_def set_scase_of_def bind_eq_Some_conv split: if_split_asm
      intro: set_scase get_scase_code set_pred_voice)

lemma assign_computed: "assign_computed temp p cp sp = Some sp' \<Longrightarrow> P sp \<Longrightarrow> P sp'"
  by (auto simp: assign_computed_def split: option.splits intro: update_f)

lemma pass_on: "pass_on temp pat src dst sp = Some sp' \<Longrightarrow> P sp \<Longrightarrow> P sp'"
  by (auto simp: pass_on_def bind_eq_Some_conv split: option.splits intro: update_f)

lemma propagate: "propagate temp arg base offset sp = Some sp' \<Longrightarrow> P sp \<Longrightarrow> P sp'"
  by (auto simp: propagate_def bind_eq_Some_conv Let_def split: if_split_asm intro: pass_on)

lemma attach_mrphs: "attach_mrphs temp p sp = Some sp' \<Longrightarrow> P sp \<Longrightarrow> P sp'"
  unfolding attach_mrphs_def bind_eq_Some_conv
  by (elim exE conjE fold_option_invariant [where P = P]) (auto intro: update_f)

lemma auto_dic_loop: "auto_dic_loop R rv temp m pos l sp = Some (b, sp') \<Longrightarrow> P sp \<Longrightarrow> P sp'"
  by (induction l arbitrary: pos) (auto simp: bind_eq_Some_conv split: if_split_asm option.split_asm dest: update_f)

lemma auto_dic: "auto_dic_function R cp temp base len sp = Some sp' \<Longrightarrow> P sp \<Longrightarrow> P sp'"
  by (auto simp: auto_dic_function_def check_auto_dic_def Let_def bind_eq_Some_conv split: if_split_asm intro: auto_dic_loop)

lemma assign_sm: "assign_sm R p cp a = Some a' \<Longrightarrow> P (a_sp a) \<Longrightarrow> P (a_sp a')"
  by (auto simp: assign_sm_def bind_eq_Some_conv Let_def split: if_split_asm intro: set_codes)

lemma on_sp: "on_sp g a = Some a' \<Longrightarrow> (\<And>sp sp'. g sp = Some sp' \<Longrightarrow> P sp \<Longrightarrow> P sp') \<Longrightarrow> P (a_sp a) \<Longrightarrow> P (a_sp a')"
  by (auto simp: on_sp_def)

lemma call_function:
  assumes "call_function R base offset len temp cp a = Some a'" and "P (a_sp a)"
  shows "P (a_sp a')"
proof -
  note keep = on_sp [OF _ _ assms(2)]
  have alter: "P (a_sp a')" if "on_sp (update_mrph i f) a = Some a'" "\<And>m m'. f m = Some m' \<Longrightarrow> respelled m m'" for i f
    using that change [OF assms(2)] by (auto simp: on_sp_def)
  from assms show ?thesis
    by (auto simp: call_function_def Let_def bind_eq_Some_conv split: if_split_asm
        intro: assign_sm elim!: keep alter dest: respelled_change respelled_rep
        intro: scase_function assign_computed propagate attach_mrphs auto_dic)
qed

lemma assign_one:
  assumes "assign_one R target base offset len temp cp a = Some a'" and "P (a_sp a)"
  shows "P (a_sp a')"
  using assms unfolding assign_one_def
  by (auto split: if_split_asm elim!: on_sp call_function intro: update_f)

lemma assign_feature: "assign_feature R target rf base offset len temp a = Some a' \<Longrightarrow> P (a_sp a) \<Longrightarrow> P (a_sp a')"
  unfolding assign_feature_def by (erule fold_option_invariant) (auto intro: assign_one)

lemma assign_to_mrphs: "assign_to_mrphs R temp pos rf n a = Some a' \<Longrightarrow> P (a_sp a) \<Longrightarrow> P (a_sp a')"
  unfolding assign_to_mrphs_def by (erule fold_option_invariant) (auto intro: assign_feature)

lemma assign_to_tags: "assign_to_tags R also temp pos rf n a = Some a' \<Longrightarrow> P (a_sp a) \<Longrightarrow> P (a_sp a')"
  unfolding assign_to_tags_def
  by (erule fold_option_invariant) (auto simp: bind_eq_Some_conv split: if_split_asm intro: assign_feature)

lemma assign_to_bnsts: "assign_to_bnsts R also temp pos rf n a = Some a' \<Longrightarrow> P (a_sp a) \<Longrightarrow> P (a_sp a')"
  unfolding assign_to_bnsts_def
  by (erule fold_option_invariant) (auto simp: bind_eq_Some_conv split: if_split_asm intro: assign_feature)

lemmas units_keep = assign_units_keep [where P = "\<lambda>a. P (a_sp a)"]

lemma assign_mrph_feature: "assign_mrph_feature R s len mode bm dir temp rs a = Some (rs', a') \<Longrightarrow> P (a_sp a) \<Longrightarrow> P (a_sp a')"
  unfolding assign_mrph_feature_def by (erule units_keep [rotated 2]) (auto simp: match_mrph_def intro: assign_to_mrphs)

lemma assign_tag_feature: "assign_tag_feature R s len mode bm dir also temp rs a = Some (rs', a') \<Longrightarrow> P (a_sp a) \<Longrightarrow> P (a_sp a')"
  unfolding assign_tag_feature_def by (erule units_keep [rotated 2]) (auto simp: match_tag_def intro: assign_to_tags)

lemma assign_bnst_feature: "assign_bnst_feature R s len mode bm dir also temp rs a = Some (rs', a') \<Longrightarrow> P (a_sp a) \<Longrightarrow> P (a_sp a')"
  unfolding assign_bnst_feature_def by (erule units_keep [rotated 2]) (auto simp: match_bnst_def intro: assign_to_bnsts)

lemma apply_rules: "apply_rules R s len flag also temp g a = Some (g', a') \<Longrightarrow> P (a_sp a) \<Longrightarrow> P (a_sp a')"
  by (auto simp: apply_rules_def Let_def split: if_split_asm rules.splits
      intro: assign_mrph_feature assign_tag_feature assign_bnst_feature)

lemma assign_general_feature:
  "assign_general_feature R s len flag also temp gs a = Some (gs', a') \<Longrightarrow> P (a_sp a) \<Longrightarrow> P (a_sp a')"
proof (induction gs arbitrary: a gs')
  case (Cons g gs)
  obtain g' a1 gs1 where step: "(if gr_type g = flag then apply_rules R s len flag also temp g a else Some (g, a)) = Some (g', a1)"
    and rest: "assign_general_feature R s len flag also temp gs a1 = Some (gs1, a')"
    using Cons.prems(1) by (auto simp: bind_eq_Some_conv)
  have "P (a_sp a1)" using step Cons.prems(2) by (auto split: if_split_asm intro: apply_rules)
  then show ?case by (rule Cons.IH [OF rest])
qed simp

end

section \<open>The grouping of a sentence\<close>

text \<open>What groups the units of a sentence and links them, apart from their features and scores.\<close>

definition tag_shape :: "TAG_DATA \<Rightarrow> (int \<times> nat \<times> nat \<times> nat) \<times> (int \<times> int \<times> nat) \<times> int \<times> char \<times> nat" where
  "tag_shape t = ((n_num t, n_mrph_ptr t, n_mrph_num t, n_preserve_mrph_num t), (t_bnum t, t_inum t, t_b_ptr t), n_dpnd_head t, n_dpnd_type t, n_length t)"

definition bnst_shape :: "BNST_DATA \<Rightarrow> (int \<times> nat \<times> nat \<times> nat) \<times> (nat \<times> nat) \<times> int \<times> char \<times> nat" where
  "bnst_shape b = ((n_num b, n_mrph_ptr b, n_mrph_num b, n_preserve_mrph_num b), (b_tag_ptr b, b_tag_num b), n_dpnd_head b, n_dpnd_type b, n_length b)"

definition shape :: "SENTENCE_DATA \<Rightarrow> _" where
  "shape sp = (map tag_shape (tag_data sp), map bnst_shape (bnst_data sp), Tag_num sp, Bnst_num sp, map m_Goi2 (mrph_data sp))"

lemma shape_set_mrph: "(\<And>m. m_Goi2 (f m) = m_Goi2 m) \<Longrightarrow> shape (set_mrph i f sp) = shape sp"
  by (cases "i < length (mrph_data sp)") (simp_all add: shape_def set_mrph_def map_update list_update_same_conv list_update_beyond)

lemma shape_set_tag: "(\<And>t. tag_shape (f t) = tag_shape t) \<Longrightarrow> shape (set_tag i f sp) = shape sp"
  by (cases "i < length (tag_data sp)") (simp_all add: shape_def set_tag_def map_update list_update_same_conv list_update_beyond)

lemma shape_set_bnst: "(\<And>b. bnst_shape (f b) = bnst_shape b) \<Longrightarrow> shape (set_bnst i f sp) = shape sp"
  by (cases "i < length (bnst_data sp)") (simp_all add: shape_def set_bnst_def map_update list_update_same_conv list_update_beyond)

lemma shape_setters:
  "shape (set_f p f sp) = shape sp" "shape (set_voice p v sp) = shape sp"
  "shape (set_scase p c sp) = shape sp" "shape (set_codes p th code sp) = shape sp"
  by (simp_all add: set_f_def set_voice_def set_scase_def set_codes_def shape_set_mrph shape_set_tag shape_set_bnst
      tag_shape_def bnst_shape_def split: ptr.split)

lemma shape_update_mrph:
  "update_mrph i g sp = Some sp' \<Longrightarrow> (\<And>m m'. g m = Some m' \<Longrightarrow> respelled m m') \<Longrightarrow> shape sp' = shape sp"
proof -
  assume u: "update_mrph i g sp = Some sp'" and g: "\<And>m m'. g m = Some m' \<Longrightarrow> respelled m m'"
  then obtain m' where m': "i < length (mrph_data sp)" "g (mrph_data sp ! i) = Some m'" "sp' = set_mrph i (\<lambda>_. m') sp"
    by (auto simp: update_mrph_def at_def bind_eq_Some_conv split: if_split_asm)
  then have "m_Goi2 m' = m_Goi2 (mrph_data sp ! i)" using g by (auto simp: respelled_def)
  then show ?thesis using m'(1,3) by (simp add: shape_def set_mrph_def map_update list_update_same_conv)
qed

interpretation grouping: rule_invariant "\<lambda>sp. shape sp = s" for s
  by unfold_locales (simp_all add: shape_setters shape_update_mrph)

end
