(* ===== verification/Knp_Preprocess.thy ===== *)
theory Knp_Preprocess
  imports Knp_Frame
begin

text \<open>
  The joining of morphemes before the analysis (\<open>src/system/read_data.c\<close>, \<open>preprocess_mrph\<close>), which
  rules direct, and the proof that it keeps the text of the sentence.
\<close>

section \<open>Joining morphemes\<close>

definition merge_mark :: "FEATURE \<Rightarrow> string option" where
  "merge_mark f = find (\<lambda>cp. starts cp s_keitaiso_renketsu) f"

definition close_merge :: "nat \<Rightarrow> nat \<Rightarrow> string \<Rightarrow> SENTENCE_DATA \<Rightarrow> SENTENCE_DATA option" where
  "close_merge start i merge_type sp =
     do { (ok, sp') \<leftarrow> merge_mrph start (i - start) sp;
          Some (if ok then sp'
                else sp'\<lparr>mrph_data := take start (mrph_data sp') @
                       delete_cfeature_from_mrphs (drop start (mrph_data sp')) (i - start) merge_type\<rparr>) }"

definition merge_scan :: "nat \<Rightarrow> nat \<times> string \<times> SENTENCE_DATA \<Rightarrow> (nat \<times> string \<times> SENTENCE_DATA) option" where
  "merge_scan i = (\<lambda>(start, merge_type, sp).
     (case merge_mark (mrph_f sp i) of
        Some cp \<Rightarrow>
          (if merge_type = [] then map_option (\<lambda>mt. (i, mt, sp)) (fits SMALL_DATA_LEN cp)
           else if merge_type \<noteq> cp
           then do { sp' \<leftarrow> close_merge start i merge_type sp; mt \<leftarrow> fits SMALL_DATA_LEN cp; Some (i, mt, sp') }
           else Some (start, merge_type, sp))
      | None \<Rightarrow>
          (if merge_type \<noteq> [] then map_option (\<lambda>sp'. (start, [], sp')) (close_merge start i merge_type sp)
           else Some (start, merge_type, sp))))"

definition merge_all :: "SENTENCE_DATA \<Rightarrow> SENTENCE_DATA option" where
  "merge_all sp =
     do { (start, merge_type, sp1) \<leftarrow> fold_option merge_scan [0..<length (mrph_data sp)] (0, [], sp);
          if merge_type \<noteq> [] then close_merge start (length (mrph_data sp)) merge_type sp1 else Some sp1 }"

definition preprocess_mrph :: "RULE_ENV \<Rightarrow> GeneralRuleType list \<Rightarrow> ASG \<Rightarrow> (GeneralRuleType list \<times> ASG) option" where
  "preprocess_mrph R gs a =
     do { (gs', a1) \<leftarrow> assign_general_feature R 0 (length (mrph_data (a_sp a))) PreProcessMorphRuleType False False gs a;
          if OptInputParsed R then Some (gs', a1)
          else do { sp1 \<leftarrow> merge_all (a_sp a1); sp2 \<leftarrow> reset_mrph sp1; Some (gs', a1\<lparr>a_sp := sp2\<rparr>) } }"

section \<open>The text of a sentence\<close>

text \<open>Rules change features, codes and parts of speech, but no spelling.\<close>

abbreviation spellings :: "SENTENCE_DATA \<Rightarrow> (string \<times> string) list" where
  "spellings sp \<equiv> map (\<lambda>m. (m_Goi m, m_Goi2 m)) (mrph_data sp)"

lemma spellings_set_mrph:
  "(\<And>m. m_Goi (f m) = m_Goi m \<and> m_Goi2 (f m) = m_Goi2 m) \<Longrightarrow> spellings (set_mrph i f sp) = spellings sp"
  by (cases "i < length (mrph_data sp)") (simp_all add: set_mrph_def map_update list_update_same_conv list_update_beyond)

lemma spellings_set [simp]:
  "spellings (set_f p f sp) = spellings sp" "spellings (set_voice p v sp) = spellings sp"
  "spellings (set_scase p c sp) = spellings sp" "spellings (set_codes p th code sp) = spellings sp"
  by (simp_all add: set_f_def set_voice_def set_scase_def set_codes_def spellings_set_mrph split: ptr.split)

text \<open>The sentence has the words \<open>ws\<close>, none of them empty, and every morpheme has a basic form.\<close>

definition words_ok :: "string list \<Rightarrow> SENTENCE_DATA \<Rightarrow> bool" where
  "words_ok ws sp \<longleftrightarrow> map m_Goi2 (mrph_data sp) = ws \<and> [] \<notin> set ws \<and> (\<forall>m \<in> set (mrph_data sp). m_Goi m \<noteq> [])"

lemma words_ok_spellings: "spellings sp' = spellings sp \<Longrightarrow> words_ok ws sp \<Longrightarrow> words_ok ws sp'"
proof -
  assume *: "spellings sp' = spellings sp"
  then have "map fst (spellings sp') = map fst (spellings sp)" "map snd (spellings sp') = map snd (spellings sp)" by simp_all
  then have "map m_Goi (mrph_data sp') = map m_Goi (mrph_data sp)" "map m_Goi2 (mrph_data sp') = map m_Goi2 (mrph_data sp)"
    by (simp_all add: comp_def)
  moreover from this(1) have "m_Goi ` set (mrph_data sp') = m_Goi ` set (mrph_data sp)" by (metis set_map)
  ultimately show "words_ok ws sp \<Longrightarrow> words_ok ws sp'" unfolding words_ok_def by (metis imageE imageI)
qed

lemma words_ok_change:
  assumes "update_mrph i f sp = Some sp'" and "\<And>m m'. f m = Some m' \<Longrightarrow> respelled m m'" and "words_ok ws sp"
  shows "words_ok ws sp'"
proof -
  obtain m' where m': "i < length (mrph_data sp)" "f (mrph_data sp ! i) = Some m'" "sp' = set_mrph i (\<lambda>_. m') sp"
    using assms(1) by (auto simp: update_mrph_def at_def bind_eq_Some_conv split: if_split_asm)
  let ?m = "mrph_data sp ! i"
  have r: "respelled ?m m'" by (rule assms(2) [OF m'(2)])
  have "?m \<in> set (mrph_data sp)" using m'(1) by simp
  then have "m_Goi ?m \<noteq> []" "m_Goi2 ?m \<noteq> []" using assms(3) by (force simp: words_ok_def)+
  then have "m_Goi m' \<noteq> []" using r by (auto simp: respelled_def)
  moreover have "map m_Goi2 (mrph_data sp') = map m_Goi2 (mrph_data sp)"
    using r m'(1) by (simp add: m'(3) set_mrph_def map_update respelled_def list_update_same_conv)
  ultimately show ?thesis
    using assms(3) m'(3) by (auto simp: words_ok_def set_mrph_def dest!: set_update_subset_insert [THEN subsetD])
qed

interpretation words: rule_invariant "words_ok ws" for ws
  by unfold_locales (auto intro: words_ok_spellings [OF spellings_set(1)] words_ok_spellings [OF spellings_set(2)]
      words_ok_spellings [OF spellings_set(3)] words_ok_spellings [OF spellings_set(4)] words_ok_change)

text \<open>The first morpheme and those from position \<open>k\<close> on are not merged into another one.\<close>

definition unmerged :: "nat \<Rightarrow> MRPH_DATA list \<Rightarrow> bool" where
  "unmerged k ms \<longleftrightarrow> (\<forall>j < length ms. j = 0 \<or> k \<le> j \<longrightarrow> m_Goi (ms ! j) \<noteq> [])"

lemma unmerged_mono: "unmerged k ms \<Longrightarrow> k \<le> l \<Longrightarrow> unmerged l ms"
  by (auto simp: unmerged_def)

lemma unmerged_cong: "map (\<lambda>m. (m_Goi m, m_Goi2 m)) ms = map (\<lambda>m. (m_Goi m, m_Goi2 m)) ns \<Longrightarrow> unmerged k ms = unmerged k ns"
  unfolding unmerged_def by (metis (no_types, lifting) length_map nth_map prod.inject)

lemma deleted_spelling:
  "map (\<lambda>m. (m_Goi m, m_Goi2 m)) (delete_cfeature_from_mrphs ms n type) = map (\<lambda>m. (m_Goi m, m_Goi2 m)) ms"
  by (rule nth_equalityI) (simp_all add: delete_cfeature_from_mrphs_def nth_enumerate_eq)

lemma close_merge_keeps:
  assumes "close_merge start i type sp = Some sp'" and "start < i" and "unmerged start (mrph_data sp)"
  shows "sentence_text (mrph_data sp') = sentence_text (mrph_data sp) \<and> length (mrph_data sp') = length (mrph_data sp) \<and>
    unmerged i (mrph_data sp')"
proof -
  obtain ok sp1 where m: "merge_mrph start (i - start) sp = Some (ok, sp1)"
    and sp': "sp' = (if ok then sp1 else sp1\<lparr>mrph_data := take start (mrph_data sp1) @
        delete_cfeature_from_mrphs (drop start (mrph_data sp1)) (i - start) type\<rparr>)"
    using assms(1) by (auto simp: close_merge_def bind_eq_Some_conv)
  have "\<forall>m \<in> set (take (i - start) (drop start (mrph_data sp))). m_Goi m \<noteq> []"
    using assms(3) by (auto simp: unmerged_def in_set_conv_nth)
  note K = merge_mrph_keeps_text [OF m _ this]
  have txt1: "sentence_text (mrph_data sp1) = sentence_text (mrph_data sp)" and len: "length (mrph_data sp1) = length (mrph_data sp)"
    and un: "unmerged i (mrph_data sp1)"
  proof -
    show "sentence_text (mrph_data sp1) = sentence_text (mrph_data sp)" "length (mrph_data sp1) = length (mrph_data sp)"
      using K assms(2) by simp_all
    show "unmerged i (mrph_data sp1)"
      unfolding unmerged_def
    proof (intro allI impI)
      fix j
      assume j: "j < length (mrph_data sp1)" "j = 0 \<or> i \<le> j"
      show "m_Goi (mrph_data sp1 ! j) \<noteq> []"
      proof (cases "j = start")
        case False
        then have "mrph_data sp1 ! j = mrph_data sp ! j" using K j assms(2) by auto
        then show ?thesis using j assms(2,3) K by (auto simp: unmerged_def)
      qed (use K assms(2) in simp)
    qed
  qed
  show ?thesis
  proof (cases ok)
    case True
    then show ?thesis using txt1 len un sp' by simp
  next
    case False
    have "map (\<lambda>m. (m_Goi m, m_Goi2 m)) (mrph_data sp') = map (\<lambda>m. (m_Goi m, m_Goi2 m)) (mrph_data sp1)"
      using False by (simp add: sp' deleted_spelling) (simp flip: map_append)
    then show ?thesis
      using txt1 len un sentence_text_cong unmerged_cong by (metis (no_types, lifting) length_map)
  qed
qed

text \<open>Between the steps of the scan: the open part starts at \<open>start\<close> when there is a mark.\<close>

definition scan_ok :: "string \<Rightarrow> nat \<Rightarrow> nat \<Rightarrow> nat \<times> string \<times> SENTENCE_DATA \<Rightarrow> bool" where
  "scan_ok txt n i = (\<lambda>(start, merge_type, sp).
     sentence_text (mrph_data sp) = txt \<and> length (mrph_data sp) = n \<and>
     (if merge_type = [] then unmerged i (mrph_data sp) else start < i \<and> unmerged start (mrph_data sp)))"

lemma merge_scan_ok:
  assumes "merge_scan i st = Some st'" and "scan_ok txt n i st"
  shows "scan_ok txt n (Suc i) st'"
proof -
  obtain start mt sp where st: "st = (start, mt, sp)" by (cases st)
  have mark: "c \<noteq> []" if "merge_mark (mrph_f sp i) = Some c" for c
    using that by (auto simp: merge_mark_def find_Some_iff starts_def s_keitaiso_renketsu_def)
  have fit: "c' = c" if "fits SMALL_DATA_LEN c = Some c'" for c c'
    using that by (auto simp: fits_def split: if_splits)
  show ?thesis
    using assms mark unfolding st
    by (auto simp: merge_scan_def scan_ok_def bind_eq_Some_conv split: option.splits if_split_asm
        dest!: fit close_merge_keeps intro: unmerged_mono)
qed

lemma merge_scans_ok:
  "fold_option merge_scan [0..<k] (0, [], sp) = Some st \<Longrightarrow> unmerged 0 (mrph_data sp) \<Longrightarrow>
    scan_ok (sentence_text (mrph_data sp)) (length (mrph_data sp)) k st"
proof (induction k arbitrary: st)
  case (Suc k)
  then obtain st1 where "fold_option merge_scan [0..<k] (0, [], sp) = Some st1" "merge_scan k st1 = Some st"
    by (auto simp: fold_option_append bind_eq_Some_conv split: option.splits)
  then show ?case using Suc.IH Suc.prems(2) merge_scan_ok by blast
qed (simp add: scan_ok_def)

lemma merge_all_keeps:
  assumes "merge_all sp = Some sp'" and "unmerged 0 (mrph_data sp)"
  shows "sentence_text (mrph_data sp') = sentence_text (mrph_data sp) \<and> unmerged (length (mrph_data sp')) (mrph_data sp')"
proof -
  let ?n = "length (mrph_data sp)"
  obtain start mt sp1 where st: "fold_option merge_scan [0..<?n] (0, [], sp) = Some (start, mt, sp1)"
    and last: "(if mt \<noteq> [] then close_merge start ?n mt sp1 else Some sp1) = Some sp'"
    using assms(1) by (auto simp: merge_all_def bind_eq_Some_conv)
  have ok: "scan_ok (sentence_text (mrph_data sp)) ?n ?n (start, mt, sp1)" by (rule merge_scans_ok [OF st assms(2)])
  show ?thesis
  proof (cases "mt = []")
    case True
    then show ?thesis using ok last by (simp add: scan_ok_def)
  next
    case False
    then have "close_merge start ?n mt sp1 = Some sp'" "start < ?n" "unmerged start (mrph_data sp1)"
      using ok last by (simp_all add: scan_ok_def)
    from close_merge_keeps [OF this] show ?thesis using ok by (simp add: scan_ok_def)
  qed
qed

lemma reset_mrph_keeps_text:
  assumes "reset_mrph sp = Some sp'" and "unmerged k (mrph_data sp)"
  shows "sentence_text (mrph_data sp') = sentence_text (mrph_data sp) \<and> list_all (\<lambda>m. m_Goi m \<noteq> []) (mrph_data sp')"
proof -
  let ?ms = "mrph_data sp" and ?r = "remaining (mrph_data sp) (length (mrph_data sp))"
  have key: "map mrph_key (mrph_data sp') = map mrph_key ?r" using reset_mrph_keys [of sp] assms(1) by auto
  have hd: "?ms = [] \<or> m_Goi (hd ?ms) \<noteq> []" using assms(2) by (cases ?ms) (auto simp: unmerged_def)
  then have r: "?r = filter (\<lambda>m. m_Goi m \<noteq> []) ?ms" by (cases ?ms) (simp_all add: remaining_def)
  have "map (\<lambda>m. (m_Goi m, m_Goi2 m)) ms = map ((\<lambda>((g, y, g2, i), _). (g, g2)) \<circ> mrph_key) ms" for ms
    by (simp add: mrph_key_def comp_def)
  then have sp: "map (\<lambda>m. (m_Goi m, m_Goi2 m)) (mrph_data sp') = map (\<lambda>m. (m_Goi m, m_Goi2 m)) ?r"
    using key by (metis (no_types, lifting) map_map)
  then have "map fst (spellings sp') = map fst (map (\<lambda>m. (m_Goi m, m_Goi2 m)) ?r)" by (rule arg_cong)
  then have "map m_Goi (mrph_data sp') = map m_Goi ?r" by (simp only: map_map comp_def fst_conv)
  then have "m_Goi ` set (mrph_data sp') = m_Goi ` set ?r" by (metis set_map)
  moreover have "[] \<notin> m_Goi ` set ?r" by (auto simp: r)
  ultimately have "list_all (\<lambda>m. m_Goi m \<noteq> []) (mrph_data sp')" unfolding list_all_iff by (metis imageI)
  moreover have "sentence_text ?r = sentence_text ?ms" by (simp add: r sentence_text_def)
  ultimately show ?thesis using sentence_text_cong [OF sp] by simp
qed

lemma words_ok_text: "words_ok ws sp \<Longrightarrow> sentence_text (mrph_data sp) = concat ws \<and> unmerged 0 (mrph_data sp)"
  by (auto simp: words_ok_def sentence_text_def unmerged_def filter_True)

text \<open>
  C5. The preparation of the morphemes keeps the text of a sentence: whatever the rules join, the words of the
  morphemes follow each other as before, and no morpheme is left empty.
\<close>

theorem preprocess_mrph_keeps_text:
  assumes "preprocess_mrph R gs a = Some (gs', a')" and "list_all (\<lambda>m. m_Goi m \<noteq> [] \<and> m_Goi2 m \<noteq> []) (mrph_data (a_sp a))"
  shows "concat (map m_Goi2 (mrph_data (a_sp a'))) = concat (map m_Goi2 (mrph_data (a_sp a))) \<and>
    list_all (\<lambda>m. m_Goi m \<noteq> []) (mrph_data (a_sp a'))"
proof -
  let ?ws = "map m_Goi2 (mrph_data (a_sp a))"
  have "words_ok ?ws (a_sp a)" using assms(2) by (auto simp: words_ok_def list_all_iff)
  moreover obtain a1 where a1: "assign_general_feature R 0 (length (mrph_data (a_sp a))) PreProcessMorphRuleType False False gs a = Some (gs', a1)"
    and rest: "(if OptInputParsed R then Some (gs', a1)
      else do { sp1 \<leftarrow> merge_all (a_sp a1); sp2 \<leftarrow> reset_mrph sp1; Some (gs', a1\<lparr>a_sp := sp2\<rparr>) }) = Some (gs', a')"
    using assms(1) by (auto simp: preprocess_mrph_def bind_eq_Some_conv split: if_splits)
  ultimately have ok: "words_ok ?ws (a_sp a1)" using words.assign_general_feature by blast
  note T = words_ok_text [OF ok]
  show ?thesis
  proof (cases "OptInputParsed R")
    case True
    then show ?thesis using rest ok by (simp add: words_ok_def list_all_iff)
  next
    case False
    then obtain sp1 sp2 where m: "merge_all (a_sp a1) = Some sp1" and r: "reset_mrph sp1 = Some sp2" and a': "a' = a1\<lparr>a_sp := sp2\<rparr>"
      using rest by (auto simp: bind_eq_Some_conv)
    have M: "sentence_text (mrph_data sp1) = concat ?ws" "unmerged (length (mrph_data sp1)) (mrph_data sp1)"
      using merge_all_keeps [OF m] T by simp_all
    have "sentence_text (mrph_data sp2) = concat ?ws" "list_all (\<lambda>m. m_Goi m \<noteq> []) (mrph_data sp2)"
      using reset_mrph_keeps_text [OF r M(2)] M(1) by simp_all
    then show ?thesis by (simp add: a' sentence_text_def list_all_iff filter_True)
  qed
qed

section \<open>An example\<close>

text \<open>Three morphemes, of which a rule joins the first two.\<close>

definition join_rules :: "GeneralRuleType list" where
  "join_rules = [\<lparr>RuleArray = MrphRules [sample_rule MAT_FLG [s_keitaiso_renketsu @ ''x'']], gr_type = PreProcessMorphRuleType,
     gr_mode = RLOOP_MRM, gr_breakmode = RLOOP_BREAK_NONE, gr_direction = LtoR\<rparr>]"

definition join_input :: ASG where
  "join_input = sample_asg (map (\<lambda>w. sample_mrph w []) [''ab'', ''ab'', ''c''])"

theorem preprocess_mrph_keeps_text_witness:
  "\<exists>gs' a'. preprocess_mrph sample_rule_env join_rules join_input = Some (gs', a') \<and>
     concat (map m_Goi2 (mrph_data (a_sp a'))) = ''ababc'' \<and> length (mrph_data (a_sp a')) = 2"
proof -
  have "map_option (\<lambda>(gs, a). length (mrph_data (a_sp a))) (preprocess_mrph sample_rule_env join_rules join_input) = Some 2"
    by code_simp
  then obtain gs' a' where p: "preprocess_mrph sample_rule_env join_rules join_input = Some (gs', a')" "length (mrph_data (a_sp a')) = 2"
    by auto
  have words: "list_all (\<lambda>m. m_Goi m \<noteq> [] \<and> m_Goi2 m \<noteq> []) (mrph_data (a_sp join_input))" by code_simp
  have "concat (map m_Goi2 (mrph_data (a_sp join_input))) = ''ababc''" by code_simp
  then show ?thesis using p preprocess_mrph_keeps_text [OF p(1) words] by metis
qed

end
