(* ===== verification/Knp_Homo.thy ===== *)
theory Knp_Homo
  imports Knp_Preprocess
begin

text \<open>
  The choice between homographs (\<open>src/system/read_data.c\<close>, with the reader of its rules in \<open>read_rule.c\<close>). The
  readings of a word that JUMAN cannot tell apart are consecutive morphemes of the sentence; a rule chooses one of
  them, which keeps the others as features and takes the place of the first one.
\<close>

section \<open>The model\<close>

record HomoRule =
  hr_pre_pattern :: "REGEXPMRPHS option"
  hr_pattern :: "REGEXPMRPHS option"
  hr_f :: FEATURE

definition HOMO_MAX :: nat where "HOMO_MAX = 30"
definition HOMO_MRPH_MAX :: nat where "HOMO_MRPH_MAX = 10"
definition SMALL_DATA_LEN2 :: nat where "SMALL_DATA_LEN2 = 256"

definition read_homo_rule :: "GRAMMAR \<Rightarrow> nat \<Rightarrow> CELL list \<Rightarrow> HomoRule list option" where
  "read_homo_rule g mx cells =
     read_rules (\<lambda>body.
       do { c0 \<leftarrow> car body; pre \<leftarrow> store_regexpmrphs g c0;
            d1 \<leftarrow> cdr body; c1 \<leftarrow> car d1; pat \<leftarrow> store_regexpmrphs g c1;
            d2 \<leftarrow> cdr d1; f \<leftarrow> list2feature d2;
            Some \<lparr>hr_pre_pattern = pre, hr_pattern = pat, hr_f = f\<rparr> })
     mx cells"

subsection \<open>Matching\<close>

text \<open>The first element for a reading; one without an asterisk is used once. A match may rewrite the elements.\<close>

fun find_element ::
  "ENV \<Rightarrow> SENTENCE_DATA \<Rightarrow> ptr \<Rightarrow> bool list \<Rightarrow> nat list \<Rightarrow> REGEXPMRPH list \<Rightarrow> chk_state \<Rightarrow> (nat option \<times> REGEXPMRPH list \<times> chk_state) option" where
  "find_element e sp m used [] ps st = Some (None, ps, st)"
| "find_element e sp m used (k # ks) ps st =
     (if used ! k \<and> r_ast_flag (ps ! k) \<noteq> AST_FLG then find_element e sp m used ks ps st
      else do { (b, r, st') \<leftarrow> regexpmrph_match e sp (ps ! k) m st;
                if b then Some (Some k, ps[k := r], st') else find_element e sp m used ks (ps[k := r]) st' })"

text \<open>All readings from the one at \<open>p\<close> on; the reading for the first element is preferred.\<close>

fun match_readings ::
  "ENV \<Rightarrow> SENTENCE_DATA \<Rightarrow> nat \<Rightarrow> nat list \<Rightarrow> bool list \<Rightarrow> nat \<Rightarrow> REGEXPMRPH list \<Rightarrow> chk_state \<Rightarrow>
   (bool \<times> bool list \<times> nat \<times> REGEXPMRPH list \<times> chk_state) option" where
  "match_readings e sp p [] used pref ps st = Some (True, used, pref, ps, st)"
| "match_readings e sp p (j # js) used pref ps st =
     do { (k, ps', st') \<leftarrow> find_element e sp (MrphP (p + j)) used [0..<length used] ps st;
          case k of
            None \<Rightarrow> Some (False, used, pref, ps', st')
          | Some i \<Rightarrow> match_readings e sp p js (used[i := True]) (if i = 0 then j else pref) ps' st' }"

definition homo_context ::
  "ENV \<Rightarrow> SENTENCE_DATA \<Rightarrow> nat \<Rightarrow> REGEXPMRPHS option \<Rightarrow> chk_state \<Rightarrow> (bool \<times> REGEXPMRPHS option \<times> chk_state) option" where
  "homo_context e sp p pre st =
     (case pre of
        None \<Rightarrow> Some (p = 0, None, st)
      | Some r \<Rightarrow> map_option (\<lambda>(n, r', st'). (n \<noteq> -1, Some r', st'))
          (regexpmrphs_match e sp True False False r (rev (map MrphP [0..<p])) st))"

text \<open>A rule: whether it matches, and the preferred reading, which a failed rule changes as well.\<close>

definition homo_rule ::
  "ENV \<Rightarrow> SENTENCE_DATA \<Rightarrow> nat \<Rightarrow> nat \<Rightarrow> HomoRule \<Rightarrow> nat \<Rightarrow> chk_state \<Rightarrow> (bool \<times> HomoRule \<times> nat \<times> chk_state) option" where
  "homo_rule e sp p n r pref st =
     do { pat \<leftarrow> hr_pattern r;
          if int HOMO_MRPH_MAX < r_mrphsize pat then None
          else do {
            (ok, pre, st1) \<leftarrow> homo_context e sp p (hr_pre_pattern r) st;
            if \<not> ok then Some (False, r\<lparr>hr_pre_pattern := pre\<rparr>, pref, st1)
            else if length (r_mrph pat) < nat (r_mrphsize pat) then None
            else do {
              (flag, used, pref', ps, st2) \<leftarrow> match_readings e sp p [0..<n] (replicate (nat (r_mrphsize pat)) False) 0 (r_mrph pat) st1;
              Some (flag \<and> list_all id used, r\<lparr>hr_pre_pattern := pre, hr_pattern := Some (pat\<lparr>r_mrph := ps\<rparr>)\<rparr>, pref', st2) } } }"

fun homo_rules ::
  "ENV \<Rightarrow> SENTENCE_DATA \<Rightarrow> nat \<Rightarrow> nat \<Rightarrow> HomoRule list \<Rightarrow> nat \<Rightarrow> chk_state \<Rightarrow>
   (FEATURE option \<times> HomoRule list \<times> nat \<times> chk_state) option" where
  "homo_rules e sp p n [] pref st = Some (None, [], pref, st)"
| "homo_rules e sp p n (r # rs) pref st =
     do { (hit, r', pref', st') \<leftarrow> homo_rule e sp p n r pref st;
          if hit then Some (Some (hr_f r'), r' # rs, pref', st')
          else map_option (\<lambda>(f, rs', k, st''). (f, r' # rs', k, st'')) (homo_rules e sp p n rs pref' st') }"

subsection \<open>The other readings\<close>

definition other_rep :: "string option \<Rightarrow> nat \<Rightarrow> MRPH_DATA \<Rightarrow> bool option" where
  "other_rep rep len m =
     map_option (\<lambda>len2. 0 < len \<and> (len \<noteq> len2 \<or> map_option (take len) rep \<noteq> map_option (take len) (get_mrph_rep m)))
       (get_mrph_rep_length (get_mrph_rep m))"

text \<open>The reading \<open>m\<close> is kept as a feature of the preferred one; the flag tells of another representative form.\<close>

definition keep_reading :: "string option \<Rightarrow> nat \<Rightarrow> MRPH_DATA \<Rightarrow> bool \<times> MRPH_DATA \<Rightarrow> (bool \<times> MRPH_DATA) option" where
  "keep_reading rep len m = (\<lambda>(amb, best).
     do { o' \<leftarrow> other_rep rep len m;
          best' \<leftarrow> selected_imi2feature (m_Imi m) (best\<lparr>m_f := assign_feature_alt_mrph (m_f best) m\<rparr>);
          Some (amb \<or> o', best') })"

definition keep_class :: "ENV \<Rightarrow> MRPH_DATA \<Rightarrow> MRPH_DATA \<Rightarrow> MRPH_DATA option" where
  "keep_class e m best =
     map_option (\<lambda>fname. best\<lparr>m_f := assign_cfeature [] (m_f best) fname False\<rparr>)
       (fits SMALL_DATA_LEN2 (s_hin_ai @ Class_id e (m_Hinshi m) (m_Bunrui m)))"

definition keep_readings :: "ENV \<Rightarrow> MRPH_DATA list \<Rightarrow> nat \<Rightarrow> MRPH_DATA \<Rightarrow> MRPH_DATA option" where
  "keep_readings e ms pref best =
     (if check_feature (m_f best) s_hin_ai_f = None then Some best
      else do {
        len \<leftarrow> get_mrph_rep_length (get_mrph_rep best);
        (amb, b1) \<leftarrow> fold_option (\<lambda>i. keep_reading (get_mrph_rep best) len (ms ! i)) (filter (\<lambda>i. i \<noteq> pref) [0..<length ms]) (False, best);
        b2 \<leftarrow> fold_option (keep_class e) ms b1;
        Some (if amb then b2\<lparr>m_f := assign_cfeature [] (m_f b2) s_genkei_aimai False\<rparr> else b2) })"

text \<open>
  The preferred reading replaces the first one and loses its features (\<open>take_place\<close> copies what the record has of a
  morpheme, which is without the derived \<open>length\<close>).
\<close>

definition take_place :: "MRPH_DATA \<Rightarrow> MRPH_DATA \<Rightarrow> MRPH_DATA" where
  "take_place m best =
     m\<lparr>m_Goi2 := m_Goi2 best, m_Yomi := m_Yomi best, m_Goi := m_Goi best, m_Hinshi := m_Hinshi best, m_Bunrui := m_Bunrui best,
       m_Katuyou_Kata := m_Katuyou_Kata best, m_Katuyou_Kei := m_Katuyou_Kei best, m_Imi := m_Imi best, m_f := m_f best\<rparr>"

definition replace_first :: "nat \<Rightarrow> nat \<Rightarrow> MRPH_DATA \<Rightarrow> SENTENCE_DATA \<Rightarrow> SENTENCE_DATA" where
  "replace_first p pref best sp =
     (if pref = 0 then set_mrph p (\<lambda>_. best) sp
      else set_mrph (p + pref) (\<lambda>_. best\<lparr>m_f := []\<rparr>) (set_mrph p (\<lambda>m. take_place m best) sp))"

definition lexical_disambiguation ::
  "RULE_ENV \<Rightarrow> HomoRule list \<Rightarrow> nat \<Rightarrow> nat \<Rightarrow> ASG \<Rightarrow> (HomoRule list \<times> ASG) option" where
  "lexical_disambiguation R rules p homo_num a =
     (let n = min homo_num HOMO_MAX in
      if n \<le> 1 then Some (rules, a)
      else if length (mrph_data (a_sp a)) < p + n then None
      else do {
        (rule, rules', pref, st) \<leftarrow> homo_rules (env R) (a_sp a) p n rules 0 (a_st a);
        let a1 = a\<lparr>a_st := st, a_sp := set_f (MrphP (p + pref)) (assign_cfeature [] (mrph_f (a_sp a) (p + pref)) s_hin_ai_f False) (a_sp a)\<rparr>;
        a2 \<leftarrow> (case rule of None \<Rightarrow> Some a1 | Some f \<Rightarrow> assign_feature R (MrphP (p + pref)) f (MrphP p) 0 1 False a1);
        best \<leftarrow> at (mrph_data (a_sp a2)) (p + pref);
        best' \<leftarrow> keep_readings (env R) (take n (drop p (mrph_data (a_sp a2)))) pref best;
        Some (rules', a2\<lparr>a_sp := replace_first p pref best' (a_sp a2)\<rparr>) })"

section \<open>The chosen reading\<close>

lemma match_readings_pref:
  "match_readings e sp p js used pref ps st = Some (flag, used', pref', ps', st') \<Longrightarrow> pref' = pref \<or> pref' \<in> set js"
proof (induction js arbitrary: used pref ps st)
  case (Cons j js)
  then obtain k ps1 st1 where k: "find_element e sp (MrphP (p + j)) used [0..<length used] ps st = Some (k, ps1, st1)"
    by (auto simp: bind_eq_Some_conv)
  show ?case
  proof (cases k)
    case (Some i)
    then have "match_readings e sp p js (used[i := True]) (if i = 0 then j else pref) ps1 st1 = Some (flag, used', pref', ps', st')"
      using Cons.prems k by simp
    from Cons.IH [OF this] show ?thesis by (auto split: if_splits)
  qed (use Cons.prems k in simp)
qed simp

lemma homo_rules_pref:
  "homo_rules e sp p n rules pref st = Some (f, rules', pref', st') \<Longrightarrow> pref < n \<Longrightarrow> pref' < n"
proof (induction rules arbitrary: pref st rules')
  case (Cons r rs)
  then obtain hit r1 k st1 where r: "homo_rule e sp p n r pref st = Some (hit, r1, k, st1)" by (auto simp: bind_eq_Some_conv)
  have "k < n" using r Cons.prems(2) by (auto simp: homo_rule_def bind_eq_Some_conv split: if_splits dest!: match_readings_pref)
  then show ?case using Cons r by (auto simp: bind_eq_Some_conv split: if_splits)
qed simp

lemma imi2feature_spelling: "selected_imi2feature s m = Some m' \<Longrightarrow> m_Goi2 m' = m_Goi2 m"
  by (auto simp: selected_imi2feature_def split: if_splits)

lemma keep_readings_spelling: "keep_readings e ms pref best = Some best' \<Longrightarrow> m_Goi2 best' = m_Goi2 best"
proof -
  assume run: "keep_readings e ms pref best = Some best'"
  show ?thesis
  proof (cases "check_feature (m_f best) s_hin_ai_f = None")
    case False
    then obtain len amb b1 b2 where
      r1: "fold_option (\<lambda>i. keep_reading (get_mrph_rep best) len (ms ! i)) (filter (\<lambda>i. i \<noteq> pref) [0..<length ms]) (False, best) = Some (amb, b1)"
      and r2: "fold_option (keep_class e) ms b1 = Some b2" and b: "m_Goi2 best' = m_Goi2 b2"
      using run by (auto simp: keep_readings_def bind_eq_Some_conv split: if_splits)
    have "m_Goi2 (snd (amb, b1)) = m_Goi2 best"
      by (rule fold_option_invariant [OF r1, where P = "\<lambda>s. m_Goi2 (snd s) = m_Goi2 best"])
        (auto simp: keep_reading_def bind_eq_Some_conv dest!: imi2feature_spelling)
    moreover have "m_Goi2 b2 = m_Goi2 b1"
      by (rule fold_option_invariant [OF r2, where P = "\<lambda>s. m_Goi2 s = m_Goi2 b1"]) (auto simp: keep_class_def)
    ultimately show ?thesis using b by simp
  qed (use run in \<open>simp add: keep_readings_def\<close>)
qed


text \<open>A rule that prefers the reading \<open>ab\<close>; the other one may be anything.\<close>

definition sample_homo_rule :: HomoRule where
  "sample_homo_rule =
     \<lparr>hr_pre_pattern = None,
      hr_pattern = Some \<lparr>r_mrph = [RegexpMrphInitValue\<lparr>r_Goi := [Some ''ab'', None]\<rparr>, RegexpMrphInitValue\<lparr>r_type_flag := QST_FLG\<rparr>], r_mrphsize = 2\<rparr>,
      hr_f = [''chosen'']\<rparr>"

definition sample_readings :: "MRPH_DATA list" where
  "sample_readings = [sample_mrph ''x'' [], sample_mrph ''ab'' []]"

definition sample_choice :: "HomoRule list \<Rightarrow> (HomoRule list \<times> ASG) option" where
  "sample_choice rs = lexical_disambiguation sample_rule_env rs 0 2 (sample_asg sample_readings)"

text \<open>Without a rule the first reading is preferred; a rule with one element too many fails, and yet prefers the second.\<close>

definition failing_rule :: HomoRule where
  "failing_rule = sample_homo_rule\<lparr>hr_pattern := map_option (\<lambda>p. p\<lparr>r_mrph := r_mrph p @ [RegexpMrphInitValue], r_mrphsize := 3\<rparr>)
     (hr_pattern sample_homo_rule)\<rparr>"

definition spellings :: "(HomoRule list \<times> ASG) option \<Rightarrow> string list option" where
  "spellings = map_option (\<lambda>(rs, a). map m_Goi2 (mrph_data (a_sp a)))"

lemma failed_rule_prefers:
  "spellings (sample_choice []) = Some [''x'', ''ab'']" "spellings (sample_choice [failing_rule]) = Some [''ab'', ''ab'']"
  "map_option (\<lambda>(b, _). b) (homo_rule sample_env (a_sp (sample_asg sample_readings)) 0 2 failing_rule 0 (a_st (sample_asg []))) = Some False"
  by code_simp+


end
