(* ===== verification/Knp_Dpnd_Spec.thy ===== *)
theory Knp_Dpnd_Spec
  imports Knp_Dpnd
begin

text \<open>
  What the dependency search promises: every structure it hands to the evaluation has each bunsetsu
  depend on a later one, without crossing when no head is fixed in advance; the evaluation keeps the
  best of all structures; the fallback is a structure of the same kind. The contract of a handler that
  keeps the best structure is the locale \<open>best_handler\<close>.
\<close>

section \<open>The choices of the search\<close>

lemma candidates_sound:
  assumes "candidates e sp M dp r p all_d oc js acc dpos st = Some (ps, st')"
  shows "set ps \<subseteq> set acc \<union> {i \<in> set js. oc i \<and> Dpnd_matrix M p i \<noteq> 0}"
  using assms
proof (induction js arbitrary: acc dpos st)
  case (Cons i js)
  define acc' where "acc' =
    (if (all_d \<or> dpos) \<and> Dpnd_matrix M p i = of_char (CHR ''d'')
     then (if all_d \<or> check_uncertain_d_condition sp M dp i then acc @ [i] else acc)
     else if Dpnd_matrix M p i \<noteq> 0 \<and> Dpnd_matrix M p i \<noteq> of_char (CHR ''d'') then acc @ [i] else acc)"
  have acc': "oc i \<Longrightarrow> set acc' \<subseteq> set acc \<union> {j \<in> {i}. oc j \<and> Dpnd_matrix M p j \<noteq> 0}"
    by (auto simp: acc'_def split: if_splits)
  show ?case
  proof (cases "oc i")
    case True
    note step = Cons.prems [unfolded candidates.simps Let_def if_P [OF True], folded acc'_def]
    from step consider "ps = acc'" | d s where "candidates e sp M dp r p all_d oc js acc' d s = Some (ps, st')"
      by (auto split: if_splits option.splits prod.splits)
    then show ?thesis
    proof cases
      case 1
      then show ?thesis using acc' [OF True] by auto
    next
      case 2
      then show ?thesis using Cons.IH [OF 2] acc' [OF True] by auto
    qed
  next
    case False
    then show ?thesis using Cons.prems Cons.IH [of acc dpos st] by auto
  qed
qed simp

text \<open>The heads that the search may give to bunsetsu \<open>p\<close>.\<close>

definition choice :: "SENTENCE_DATA \<Rightarrow> MATRICES \<Rightarrow> nat \<Rightarrow> DPND \<Rightarrow> int \<Rightarrow> bool" where
  "choice sp M p dp h \<longleftrightarrow>
     (\<exists>i t. para_mark sp M p = Some (i, t) \<and> h = int i) \<or>
     para_mark sp M p = None \<and>
     ((\<exists>cp. check_feature (bnst_f sp p) s_k_mukaku_juuzoku = Some cp \<and> h = follow_head cp (d_head dp p)) \<or>
      (\<exists>i. h = int i \<and> p < i \<and> i < Bnst_num sp \<and> d_mask dp i \<and> Mask_matrix M p i \<noteq> 0 \<and>
         Quote_mask M p i \<noteq> 0 \<and> Dpnd_matrix M p i \<noteq> 0) \<or>
      (h = int (Bnst_num sp - 1) \<and> Mask_matrix M p (Bnst_num sp - 1) \<noteq> 0))"

definition successor :: "SENTENCE_DATA \<Rightarrow> MATRICES \<Rightarrow> nat \<Rightarrow> DPND \<Rightarrow> DPND \<Rightarrow> bool" where
  "successor sp M p dp dp' \<longleftrightarrow>
     (let dp1 = close_mask sp p (dp\<lparr>d_pos := p\<rparr>) in
      d_mask dp' = d_mask dp1 \<and>
      (\<exists>h. choice sp M p dp1 h \<and> d_head dp' = (d_head dp)(p := h)))"

lemma close_mask_head [simp]: "d_head (close_mask sp p dp) = d_head dp"
  by (simp add: close_mask_def)

lemma set_sel [simp]:
  "d_head (set_head p h t dp) = (d_head dp)(p := h)" "d_mask (set_head p h t dp) = d_mask dp"
  "d_head (set_dflt p v dp) = d_head dp" "d_mask (set_dflt p v dp) = d_mask dp"
  "d_head (set_check p c dp) = d_head dp" "d_mask (set_check p c dp) = d_mask dp"
  "d_head (one_candidate p i dp) = d_head dp" "d_mask (one_candidate p i dp) = d_mask dp"
  by (simp_all add: set_head_def set_dflt_def set_check_def one_candidate_def)

text \<open>
  Rule induction for the search: a property \<open>J\<close> of partial structures that every choice keeps holds
  of the structures that reach the handler, so the handler may rely on it.
\<close>

lemma decide_dpnd_invariant:
  assumes step: "\<And>p dp dp'. p < Bnst_num sp - 1 \<Longrightarrow> J (Suc p) dp \<Longrightarrow> successor sp M p dp dp' \<Longrightarrow> J p dp'"
    and final: "\<And>dp d s s'. J 0 dp \<Longrightarrow> resolve_heads [0..<Bnst_num sp - 1] dp = Some (Some d) \<Longrightarrow>
      ev d s = Some s' \<Longrightarrow> R s \<Longrightarrow> R s'"
  shows "k \<le> Bnst_num sp - 1 \<Longrightarrow> J k dp \<Longrightarrow> R (snd s) \<Longrightarrow> decide_dpnd e sp M ev k dp s = Some s' \<Longrightarrow> R (snd s')"
proof (induction k arbitrary: dp s s')
  case 0
  then show ?case using final by (fastforce split: option.splits)
next
  case (Suc p)
  let ?dp = "close_mask sp p (dp\<lparr>d_pos := p\<rparr>)"
  have p: "p < Bnst_num sp - 1" using Suc.prems(1) by simp
  have go: "decide_dpnd e sp M ev p dp' t = Some t' \<Longrightarrow> R (snd t) \<Longrightarrow>
      d_mask dp' = d_mask ?dp \<Longrightarrow> d_head dp' = (d_head dp)(p := h) \<Longrightarrow> choice sp M p ?dp h \<Longrightarrow> R (snd t')"
    for dp' t t' h
    using Suc.IH [of dp' t t'] step [OF p Suc.prems(2), of dp'] p by (auto simp: successor_def Let_def)
  consider (mark) i t where "para_mark sp M p = Some (i, t)"
    | (follow) cp where "para_mark sp M p = None" "check_feature (bnst_f sp p) s_k_mukaku_juuzoku = Some cp"
    | (free) "para_mark sp M p = None" "check_feature (bnst_f sp p) s_k_mukaku_juuzoku = None"
    by (metis option.exhaust prod.exhaust)
  then show ?case
  proof cases
    case mark
    then have call: "decide_dpnd e sp M ev p (one_candidate p i (set_head p (int i) t ?dp)) s = Some s'"
      using Suc.prems(4) by (simp add: Let_def)
    show ?thesis by (rule go [OF call Suc.prems(3), of "int i"]) (simp_all add: choice_def mark)
  next
    case follow
    let ?h = "follow_head cp (d_head dp p)"
    have call: "decide_dpnd e sp M ev p (set_check p ((d_check ?dp p)\<lparr>ck_num := 1\<rparr>)
        (set_dflt p 0 (set_head p ?h (CHR ''D'') ?dp))) s = Some s'"
      using Suc.prems(4) follow by (simp add: Let_def)
    show ?thesis by (rule go [OF call Suc.prems(3), of ?h]) (simp_all add: choice_def follow)
  next
    case free
    define oc where "oc = (\<lambda>i. Mask_matrix M p i \<noteq> 0 \<and> Quote_mask M p i \<noteq> 0 \<and> d_mask ?dp i)"
    obtain r ps st where r: "b_dpnd_rule (bnst_data sp ! p) = Some r"
      and c: "candidates e sp M ?dp r p False oc [p + 1..<Bnst_num sp] [] True (fst s) = Some (ps, st)"
      using Suc.prems(4) free by (auto simp: Let_def bind_eq_Some_conv oc_def split: prod.splits)
    have ok: "i \<in> set ps \<Longrightarrow> choice sp M p ?dp (int i)" for i
      using candidates_sound [OF c] free(1) by (auto simp: choice_def oc_def)
    show ?thesis
    proof (cases "ps = []")
      case True
      let ?h = "int (Bnst_num sp - 1)"
      show ?thesis
      proof (cases "Mask_matrix M p (Bnst_num sp - 1) = 0")
        case 0: True
        then show ?thesis using Suc.prems(3,4) free r c True by (auto simp: Let_def oc_def [symmetric])
      next
        case m: False
        have call: "decide_dpnd e sp M ev p (one_candidate p (Bnst_num sp - 1)
            (set_dflt p 10 (set_head p ?h (CHR ''D'') ?dp))) (st, snd s) = Some s'"
          using Suc.prems(4) free r c True m by (simp add: Let_def oc_def [symmetric])
        show ?thesis by (rule go [OF call _, of ?h]) (use m free(1) in \<open>simp_all add: choice_def Suc.prems(3)\<close>)
      qed
    next
      case False
      define def where "def = default_position r (length ps)"
      let ?dp1 = "set_check p \<lparr>ck_num = int (length ps), ck_def = def, ck_pos = ps\<rparr> ?dp"
      show ?thesis
      proof (cases "\<not> barrier_set r \<or> dr_decide r")
        case True
        let ?h = "if def \<le> int (length ps) then ps ! nat (def - 1) else ps ! (length ps - 1)"
        have d: "def \<ge> 1" and call: "decide_dpnd e sp M ev p
            (set_dflt p 0 (set_head p (int ?h) (type_of_cell (Dpnd_matrix M p ?h)) ?dp1)) (st, snd s) = Some s'"
          using Suc.prems(4) free r c False True
          by (auto simp: Let_def oc_def [symmetric] def_def [symmetric] split: if_splits)
        have "?h \<in> set ps" using d False by (auto intro!: nth_mem)
        then show ?thesis using go [OF call _ _ _ ok] Suc.prems(3) by simp
      next
        case fork: False
        let ?f = "\<lambda>i. decide_dpnd e sp M ev p (set_dflt p \<bar>def - 1 - int i\<bar>
            (set_head p (int (ps ! i)) (type_of_cell (Dpnd_matrix M p (ps ! i))) ?dp1))"
        have "fold_option ?f [0..<length ps] (st, snd s) = Some s'"
          using Suc.prems(4) free r c False fork
          by (auto simp: Let_def oc_def [symmetric] def_def [symmetric])
        then show ?thesis
          by (rule fold_option_invariant [where P = "\<lambda>t. R (snd t)"])
            (use Suc.prems(3) go ok in \<open>auto intro: nth_mem\<close>)
      qed
    qed
  qed
qed

section \<open>Projective structures\<close>

text \<open>The structures that the search hands to its handler, in order.\<close>

definition structures :: "ENV \<Rightarrow> SENTENCE_DATA \<Rightarrow> MATRICES \<Rightarrow> chk_state \<Rightarrow> DPND list option" where
  "structures e sp M st =
     map_option snd (decide_dpnd e sp M collect (Bnst_num sp - 1) (init_dpnd sp) (st, []))"

text \<open>A tree whose root is the last bunsetsu and whose heads are later; such a tree without crossing.\<close>

definition rooted :: "nat \<Rightarrow> (nat \<Rightarrow> int) \<Rightarrow> bool" where
  "rooted n h \<longleftrightarrow> h (n - 1) = -1 \<and> (\<forall>i<n - 1. int i < h i \<and> h i < int n)"

definition projective :: "nat \<Rightarrow> (nat \<Rightarrow> int) \<Rightarrow> bool" where
  "projective n h \<longleftrightarrow> rooted n h \<and> (\<forall>i j. i < j \<and> j < n \<and> int j < h i \<longrightarrow> h j \<le> h i)"

lemma structures_invariant:
  assumes "structures e sp M st = Some ds" and "d \<in> set ds" and "J (Bnst_num sp - 1) (init_dpnd sp)"
    and "\<And>p dp dp'. p < Bnst_num sp - 1 \<Longrightarrow> J (Suc p) dp \<Longrightarrow> successor sp M p dp dp' \<Longrightarrow> J p dp'"
    and "\<And>dp d. J 0 dp \<Longrightarrow> resolve_heads [0..<Bnst_num sp - 1] dp = Some (Some d) \<Longrightarrow> P d"
  shows "P d"
proof -
  obtain s where s: "decide_dpnd e sp M collect (Bnst_num sp - 1) (init_dpnd sp) (st, []) = Some s" "ds = snd s"
    using assms(1) by (auto simp: structures_def)
  have "\<forall>d \<in> set (snd s). P d"
    by (rule decide_dpnd_invariant [where J = J and R = "\<lambda>ds. \<forall>d \<in> set ds. P d", OF _ _ _ _ _ s(1)])
      (use assms in \<open>auto simp: collect_def\<close>)
  then show ?thesis using assms(2) s(2) by simp
qed

text \<open>The invariant of the search when no head is fixed in advance.\<close>

definition open_arcs :: "nat \<Rightarrow> nat \<Rightarrow> DPND \<Rightarrow> bool" where
  "open_arcs n k dp \<longleftrightarrow>
     d_head dp (n - 1) = -1 \<and> (\<forall>i. k \<le> i \<and> i < n - 1 \<longrightarrow> int i < d_head dp i \<and> d_head dp i < int n) \<and>
     (\<forall>i j. k \<le> i \<and> i < j \<and> int j < d_head dp i \<longrightarrow> d_head dp j \<le> d_head dp i) \<and>
     (\<forall>c b. k < b \<and> b < c \<and> int c < d_head dp b \<longrightarrow> \<not> d_mask dp c)"

lemma open_arcs_step:
  assumes J: "open_arcs n (Suc p) dp" and p: "p < n - 1" and n: "n = Bnst_num sp"
    and m: "d_mask dp' = d_mask (close_mask sp p (dp\<lparr>d_pos := p\<rparr>))"
    and h: "d_head dp' = (d_head dp)(p := int c)"
    and c: "p < c" "c < n" "d_mask dp' c \<or> c = n - 1"
  shows "open_arcs n p dp'"
proof -
  have mask: "\<not> d_mask dp' c" if "p < b" "b < c" "int c < d_head dp b" for b c
  proof (cases "b = Suc p")
    case True
    then have "Suc p \<noteq> n - 1" using J that by (auto simp: open_arcs_def)
    then show ?thesis using True that p by (auto simp: m close_mask_def n)
  next
    case False
    then have "Suc p < b" using that by simp
    then have "\<not> d_mask dp c" using that J by (auto simp: open_arcs_def)
    then show ?thesis by (auto simp: m close_mask_def)
  qed
  have lt: "d_head dp j < int n" if "p < j" "j < n" for j
    using that J by (cases "j = n - 1") (auto simp: open_arcs_def)
  have "d_head dp j \<le> int c" if "p < j" "j < c" for j
  proof (rule ccontr)
    assume "\<not> d_head dp j \<le> int c"
    with mask [of j c] that c lt [of j] show False by auto
  qed
  then show ?thesis
    using J p c mask by (auto simp: open_arcs_def h)
qed

lemma resolve_heads_none: "\<forall>i \<in> set js. 0 \<le> d_head dp i \<Longrightarrow> resolve_heads js dp = Some (Some dp)"
  by (induction js) auto

lemma para_mark_None:
  "\<forall>i. p < i \<and> i < Bnst_num sp \<longrightarrow> Mask_matrix M p i \<noteq> 2 \<and> Mask_matrix M p i \<noteq> 3 \<Longrightarrow> para_mark sp M p = None"
  by (auto simp: para_mark_def find_None_iff split: option.splits)

lemma para_mark_Some: "para_mark sp M p = Some (i, t) \<Longrightarrow> p < i \<and> i < Bnst_num sp"
  by (auto simp: para_mark_def find_Some_iff split: option.splits)

lemma choice_arc:
  assumes "choice sp M p dp h" and "p < Bnst_num sp - 1"
  obtains (arc) c where "h = int c" "p < c" "c < Bnst_num sp"
    "para_mark sp M p = None \<longrightarrow> d_mask dp c \<or> c = Bnst_num sp - 1"
  | (follow) cp where "check_feature (bnst_f sp p) s_k_mukaku_juuzoku = Some cp" "h = follow_head cp (d_head dp p)"
  using assms(1) unfolding choice_def
proof (elim disjE exE conjE)
  fix i t assume "para_mark sp M p = Some (i, t)" "h = int i"
  then show thesis using para_mark_Some arc [of i] by auto
next
  assume "h = int (Bnst_num sp - 1)"
  then show thesis using assms(2) arc [of "Bnst_num sp - 1"] by auto
qed (use arc follow in auto)

subsection \<open>Heads fixed in advance\<close>

lemma resolve_heads_rooted:
  assumes "resolve_heads [k..<m] dp = Some (Some d)" and "k \<le> m" and "m \<le> n - 1"
    and "d_head dp (n - 1) = -1"
    and "\<forall>i<k. int i < d_head dp i \<and> d_head dp i < int n"
    and "\<forall>i<m. d_head dp i < 0 \<or> int i < d_head dp i \<and> d_head dp i < int n"
  shows "d_head d (n - 1) = -1 \<and> (\<forall>i<m. int i < d_head d i \<and> d_head d i < int n)"
  using assms
proof (induction "m - k" arbitrary: k dp)
  case (Suc l)
  then have k: "[k..<m] = k # [Suc k..<m]" "k < m" by (simp_all add: upt_rec)
  show ?case
  proof (cases "d_head dp k < 0")
    case True
    let ?h = "d_head dp (nat (int k + d_head dp k))"
    from Suc.prems(1) True k obtain "int k + d_head dp k \<ge> 0" "int k < ?h"
      and r: "resolve_heads [Suc k..<m] (set_check k ((d_check dp k)\<lparr>ck_pos := [nat ?h]\<rparr>)
        (dp\<lparr>d_head := (d_head dp)(k := ?h)\<rparr>)) = Some (Some d)"
      by (auto simp: Let_def split: if_splits)
    moreover from this True Suc.prems(5) have "?h < int n" by auto
    ultimately show ?thesis using Suc.hyps Suc.prems k
      by (intro Suc.hyps(1) [OF _ r]) (auto simp: less_Suc_eq)
  next
    case False
    then show ?thesis using Suc.hyps Suc.prems k
      by (intro Suc.hyps(1) [of "Suc k" dp]) (auto simp: less_Suc_eq)
  qed
qed auto

definition forward_arcs :: "nat \<Rightarrow> nat \<Rightarrow> DPND \<Rightarrow> bool" where
  "forward_arcs n k dp \<longleftrightarrow>
     d_head dp (n - 1) = -1 \<and> (\<forall>i<k. d_head dp i = -1) \<and>
     (\<forall>i<n - 1. d_head dp i < 0 \<or> int i < d_head dp i \<and> d_head dp i < int n)"

lemma init_dpnd_sel [simp]: "d_head (init_dpnd sp) i = -1" "d_mask (init_dpnd sp) i"
  by (simp_all add: init_dpnd_def)

section \<open>The handler sees every structure\<close>

lemma decide_enumerates_Suc:
  assumes "\<And>dp. enumerates collect (decide_dpnd e sp M collect p dp) (\<lambda>st. decide_dpnd e sp M collect p dp (st, []))"
    and "\<And>dp. enumerates ev (decide_dpnd e sp M ev p dp) (\<lambda>st. decide_dpnd e sp M collect p dp (st, []))"
  shows "enumerates ev (decide_dpnd e sp M ev (Suc p) dp) (\<lambda>st. decide_dpnd e sp M collect (Suc p) dp (st, []))"
  unfolding enumerates_def
proof
  fix t
  note E = enumeratesD [OF assms(2)]
  note F = enumeratesD [OF enumerates_fold(1) [where F = "\<lambda>i. decide_dpnd e sp M ev p (D i)"
    and G = "\<lambda>i. decide_dpnd e sp M collect p (D i)" for D, OF assms(2,1)]]
  show "decide_dpnd e sp M ev (Suc p) dp t = Option.bind (decide_dpnd e sp M collect (Suc p) dp (fst t, []))
      (\<lambda>(st, ds). map_option (Pair st) (fold_option ev ds (snd t)))"
  proof (cases "para_mark sp M p")
    case (Some m)
    then show ?thesis by (cases m) (simp add: Let_def E)
  next
    case mark: None
    show ?thesis
    proof (cases "check_feature (bnst_f sp p) s_k_mukaku_juuzoku")
      case (Some cp)
      then show ?thesis using mark by (simp add: Let_def E)
    next
      case None
      then show ?thesis using mark
        by (auto simp: Let_def E F split: bind_splits)
    qed
  qed
qed

lemma decide_dpnd_0_enumerates:
  "enumerates ev (decide_dpnd e sp M ev 0 dp) (\<lambda>st. decide_dpnd e sp M collect 0 dp (st, []))"
  by (auto simp: enumerates_def collect_def split: option.splits bind_splits)

lemma decide_collect_enumerates:
  "enumerates collect (decide_dpnd e sp M collect k dp) (\<lambda>st. decide_dpnd e sp M collect k dp (st, []))"
  by (induction k arbitrary: dp) (use decide_dpnd_0_enumerates decide_enumerates_Suc in blast)+

lemma decide_dpnd_enumerates:
  "enumerates ev (decide_dpnd e sp M ev k dp) (\<lambda>st. decide_dpnd e sp M collect k dp (st, []))"
  by (induction k arbitrary: dp) (use decide_dpnd_0_enumerates decide_enumerates_Suc decide_collect_enumerates in blast)+

section \<open>Handlers that keep the best structure\<close>

text \<open>
  The contract of the evaluation functions: a structure replaces the best one only if its score is
  strictly greater, every structure is numbered, and the replacements are counted.
\<close>

locale best_handler =
  fixes score :: "'d \<Rightarrow> int option" and ev :: "'d \<Rightarrow> 's \<Rightarrow> 's option"
    and best :: "'s \<Rightarrow> 'd" and top :: "'s \<Rightarrow> int" and ident :: "'s \<Rightarrow> int"
    and seen :: "'s \<Rightarrow> int" and count :: "'s \<Rightarrow> nat"
  assumes scored: "ev d s = Some t \<Longrightarrow> \<exists>v. score d = Some v"
    and better: "ev d s = Some t \<Longrightarrow> score d = Some v \<Longrightarrow> top s < v \<Longrightarrow>
      best t = d \<and> top t = v \<and> ident t = seen s \<and> count t = Suc (count s)"
    and worse: "ev d s = Some t \<Longrightarrow> score d = Some v \<Longrightarrow> v \<le> top s \<Longrightarrow>
      best t = best s \<and> top t = top s \<and> ident t = ident s \<and> count t = count s"
    and numbered: "ev d s = Some t \<Longrightarrow> seen t = seen s + 1"
begin

definition value_of :: "'d \<Rightarrow> int" where "value_of d = the (score d)"

definition summary :: "'d list \<Rightarrow> 's \<Rightarrow> 's \<Rightarrow> bool" where
  "summary ds s t \<longleftrightarrow>
     seen t = seen s + int (length ds) \<and> (\<forall>d \<in> set ds. score d \<noteq> None \<and> value_of d \<le> top t) \<and> count s \<le> count t \<and>
     (if count t = count s then best t = best s \<and> top t = top s \<and> ident t = ident s
      else top s < top t \<and>
           (\<exists>k<length ds. best t = ds ! k \<and> score (ds ! k) = Some (top t) \<and> ident t = seen s + int k \<and>
              (\<forall>j<k. value_of (ds ! j) < top t)))"

lemma summary_step:
  assumes "ev d s = Some u" and "summary ds u t"
  shows "summary (d # ds) s t"
proof -
  obtain v where v: "score d = Some v" using scored [OF assms(1)] by blast
  note n = numbered [OF assms(1)]
  show ?thesis
  proof (cases "top s < v")
    case hi: True
    note b = better [OF assms(1) v hi]
    show ?thesis
    proof (cases "count t = count u")
      case True
      then show ?thesis using assms(2) b n v hi
        by (auto simp: summary_def value_of_def intro!: exI [of _ 0])
    next
      case False
      then obtain k where k: "k < length ds" "best t = ds ! k" "score (ds ! k) = Some (top t)"
          "ident t = seen u + int k" "\<forall>j<k. value_of (ds ! j) < top t" "top u < top t"
        using assms(2) by (auto simp: summary_def)
      have "\<forall>j<Suc k. value_of ((d # ds) ! j) < top t"
        using k b v by (auto simp: less_Suc_eq_0_disj value_of_def)
      with k b n v hi False assms(2) show ?thesis
        by (auto simp: summary_def value_of_def intro!: exI [of _ "Suc k"])
    qed
  next
    case False
    then have w: "best u = best s \<and> top u = top s \<and> ident u = ident s \<and> count u = count s"
      using worse [OF assms(1) v] by simp
    show ?thesis
    proof (cases "count t = count u")
      case True
      then show ?thesis using assms(2) w n v False by (auto simp: summary_def value_of_def)
    next
      case c: False
      then obtain k where k: "k < length ds" "best t = ds ! k" "score (ds ! k) = Some (top t)"
          "ident t = seen u + int k" "\<forall>j<k. value_of (ds ! j) < top t" "top u < top t"
        using assms(2) by (auto simp: summary_def)
      have "\<forall>j<Suc k. value_of ((d # ds) ! j) < top t"
        using k w v False by (auto simp: less_Suc_eq_0_disj value_of_def)
      with k w n v c False assms(2) show ?thesis
        by (auto simp: summary_def value_of_def intro!: exI [of _ "Suc k"])
    qed
  qed
qed

lemma fold_keeps_best: "fold_option ev ds s = Some t \<Longrightarrow> summary ds s t"
  by (induction ds arbitrary: s) (auto simp: bind_eq_Some_conv summary_def [of "[]"] intro: summary_step)

end

interpretation de: best_handler "dpnd_score sp" "dpnd_evaluation sp" tm_dpnd tm_score tm_ID dpndID Possibility
  for sp
  by unfold_locales (auto simp: dpnd_evaluation_def Let_def bind_eq_Some_conv)

section \<open>The chain of bunsetsu\<close>

lemma d_type_set:
  "d_type (set_head p h t d) = (d_type d)(p := t)" "d_type (one_candidate p i d) = d_type d"
  by (simp_all add: set_head_def one_candidate_def set_check_def)

lemma chain_fold:
  fixes js d
  defines "D \<equiv> fold (\<lambda>i d. one_candidate i (i + 1) (set_head i (int (i + 1)) (CHR ''D'') d)) js d"
  shows "d_head D i = (if i \<in> set js then int (i + 1) else d_head d i)"
    and "d_type D i = (if i \<in> set js then CHR ''D'' else d_type d i)"
  unfolding D_def by (induction js arbitrary: d) (simp_all add: d_type_set)

subsection \<open>Sample data\<close>

text \<open>
  Three bunsetsu whose rule tries every later bunsetsu up to one with the feature \<open>x\<close>, and matrices
  that allow every dependency.
\<close>

definition sample_rule :: DpndRule where
  "sample_rule = \<lparr>dr_dependant = [], dr_governor = [([], CHR ''D'')], dr_barrier = [[''x'']],
     dr_preference = 1, dr_decide = False\<rparr>"

definition sample_clauses :: "FEATURE list \<Rightarrow> SENTENCE_DATA" where
  "sample_clauses fs = (sample_sentence fs)\<lparr>bnst_data :=
     map (\<lambda>f. (sample_bnst f)\<lparr>b_dpnd_rule := Some sample_rule, n_SCASE_code := replicate 11 0\<rparr>) fs\<rparr>"

definition sample_matrices :: MATRICES where
  "sample_matrices = \<lparr>Dpnd_matrix = \<lambda>_ _. of_char (CHR ''D''), Mask_matrix = \<lambda>_ _. 1, Quote_mask = \<lambda>_ _. 1\<rparr>"

definition sample_heads :: "DPND list option \<Rightarrow> int list list option" where
  "sample_heads = map_option (map (\<lambda>d. map (d_head d) [0..<3]))"

lemma sample_structures:
  "sample_heads (structures sample_env (sample_clauses [[], [], []]) sample_matrices clear_state) =
     Some [[1, 2, -1], [2, 2, -1]]"
  by code_simp

lemma sample_clauses_sel [simp]:
  "Bnst_num (sample_clauses fs) = length fs"
  "i < length fs \<Longrightarrow> bnst_f (sample_clauses fs) i = fs ! i"
  by (simp_all add: sample_clauses_def bnst_f_def)

lemma sample_no_feature: "p < Suc (Suc 0) \<Longrightarrow> check_feature ([[], [], []] ! p) f = None"
  by (auto simp: less_Suc_eq)

section \<open>The search finds a structure\<close>

text \<open>Every bunsetsu has a rule that can be evaluated, and may depend on the last one; no feature fixes its head.\<close>

definition searchable :: "ENV \<Rightarrow> SENTENCE_DATA \<Rightarrow> MATRICES \<Rightarrow> bool" where
  "searchable e sp M \<longleftrightarrow>
     (\<forall>p < Bnst_num sp - 1. Mask_matrix M p (Bnst_num sp - 1) \<noteq> 0 \<and> check_feature (bnst_f sp p) s_k_mukaku_juuzoku = None \<and>
        (\<exists>r. b_dpnd_rule (bnst_data sp ! p) = Some r \<and> (dr_preference r = -1 \<or> 1 \<le> dr_preference r) \<and>
           (\<forall>i st. bnst_pattern_match e sp (dr_barrier r) (Some p) i st \<noteq> None)))"

lemma candidates_total:
  assumes "\<And>i st. bnst_pattern_match e sp (dr_barrier r) (Some p) i st \<noteq> None"
  shows "\<exists>ps st'. candidates e sp M dp r p all_d oc js acc dpos st = Some (ps, st')"
proof (induction js arbitrary: acc dpos st)
  case (Cons i js)
  then show ?case using assms [of i st] by (auto simp: Let_def)
qed simp

lemma decide_dpnd_finds:
  assumes "searchable e sp M" and "k \<le> Bnst_num sp - 1" and "\<forall>i. k \<le> i \<and> i < Bnst_num sp - 1 \<longrightarrow> 0 \<le> d_head dp i"
  shows "\<exists>st' d ds. decide_dpnd e sp M collect k dp (st, acc) = Some (st', acc @ d # ds)"
  using assms(2,3)
proof (induction k arbitrary: dp st acc)
  case 0
  then show ?case by (simp add: resolve_heads_none collect_def)
next
  case (Suc p)
  let ?dp = "close_mask sp p (dp\<lparr>d_pos := p\<rparr>)"
  have p: "p < Bnst_num sp - 1" using Suc.prems(1) by simp
  have go: "\<exists>st' d ds. decide_dpnd e sp M collect p dp' (st, acc) = Some (st', acc @ d # ds)"
    if "d_head dp' = (d_head dp)(p := h)" "0 \<le> h" for dp' h st acc
    using Suc.IH [of dp' st acc] Suc.prems(2) p that by auto
  obtain r where r: "b_dpnd_rule (bnst_data sp ! p) = Some r" "dr_preference r = -1 \<or> 1 \<le> dr_preference r"
    and b: "\<And>i st. bnst_pattern_match e sp (dr_barrier r) (Some p) i st \<noteq> None"
    and free: "check_feature (bnst_f sp p) s_k_mukaku_juuzoku = None" and last: "Mask_matrix M p (Bnst_num sp - 1) \<noteq> 0"
    using assms(1) p by (auto simp: searchable_def)
  show ?case
  proof (cases "para_mark sp M p")
    case (Some m)
    then show ?thesis by (cases m) (simp add: Let_def go)
  next
    case None
    define oc where "oc = (\<lambda>i. Mask_matrix M p i \<noteq> 0 \<and> Quote_mask M p i \<noteq> 0 \<and> d_mask ?dp i)"
    obtain ps st1 where c: "candidates e sp M ?dp r p False oc [p + 1..<Bnst_num sp] [] True st = Some (ps, st1)"
      using candidates_total [OF b] by blast
    show ?thesis
    proof (cases "ps = []")
      case True
      then show ?thesis using None free r(1) c last by (simp add: Let_def oc_def [symmetric] go)
    next
      case False
      define def where "def = default_position r (length ps)"
      have d: "1 \<le> def" using r(2) False by (auto simp: def_def default_position_def Suc_le_eq)
      let ?dp1 = "set_check p \<lparr>ck_num = int (length ps), ck_def = def, ck_pos = ps\<rparr> ?dp"
      show ?thesis
      proof (cases "\<not> barrier_set r \<or> dr_decide r")
        case True
        then show ?thesis using None free r(1) c False d by (simp add: Let_def oc_def [symmetric] def_def [symmetric] go)
      next
        case fork: False
        let ?f = "\<lambda>i. decide_dpnd e sp M collect p (set_dflt p \<bar>def - 1 - int i\<bar>
            (set_head p (int (ps ! i)) (type_of_cell (Dpnd_matrix M p (ps ! i))) ?dp1))"
        have each: "\<exists>st' d ds. ?f i (st, acc) = Some (st', acc @ d # ds)" for i st acc
          by (rule go [where h = "int (ps ! i)"]) simp_all
        have "\<exists>st' ds. fold_option ?f js (st1, acc) = Some (st', acc @ ds) \<and> (js \<noteq> [] \<longrightarrow> ds \<noteq> [])" for js st1 acc
        proof (induction js arbitrary: st1 acc)
          case (Cons i js)
          obtain st' d ds where i: "?f i (st1, acc) = Some (st', acc @ d # ds)" using each by blast
          obtain st'' ds' where "fold_option ?f js (st', acc @ d # ds) = Some (st'', (acc @ d # ds) @ ds')" using Cons.IH by blast
          then show ?case using i by simp
        qed simp
        from this [of "[0..<length ps]" st1 acc] obtain st' ds where
          f: "fold_option ?f [0..<length ps] (st1, acc) = Some (st', acc @ ds)" "ds \<noteq> []" using False by auto
        then show ?thesis
          using None free r(1) c False fork by (cases ds) (simp_all add: Let_def oc_def [symmetric] def_def [symmetric])
      qed
    qed
  qed
qed

section \<open>Properties\<close>

text \<open>
  C25. Every structure that the search hands to the evaluation is a tree on the bunsetsu: the last one
  has no head and every other one has a later head in the sentence, also where a coordination fixes
  heads in advance and where a bunsetsu takes the head of an earlier one; the numbers in the features
  that ask for the latter have to be negative, as in the rules.
\<close>

theorem search_structures_rooted:
  assumes "structures e sp M st = Some ds" and "d \<in> set ds" and "0 < Bnst_num sp"
    and "\<And>p cp. p < Bnst_num sp - 1 \<Longrightarrow> check_feature (bnst_f sp p) s_k_mukaku_juuzoku = Some cp \<Longrightarrow>
      follow_head cp (-1) < 0"
  shows "rooted (Bnst_num sp) (d_head d)"
proof (rule structures_invariant [OF assms(1,2), where J = "forward_arcs (Bnst_num sp)"])
  show "forward_arcs (Bnst_num sp) (Bnst_num sp - 1) (init_dpnd sp)" by (simp add: forward_arcs_def)
next
  fix p dp dp' assume p: "p < Bnst_num sp - 1" "forward_arcs (Bnst_num sp) (Suc p) dp" "successor sp M p dp dp'"
  from p(3) obtain h where h: "d_head dp' = (d_head dp)(p := h)"
    "choice sp M p (close_mask sp p (dp\<lparr>d_pos := p\<rparr>)) h"
    by (auto simp: successor_def Let_def)
  have "h < 0 \<or> int p < h \<and> h < int (Bnst_num sp)"
    using h(2) p(1)
  proof (cases rule: choice_arc)
    case (follow cp)
    then show ?thesis using assms(4) [OF p(1), of cp] p(2) by (simp add: forward_arcs_def)
  qed simp
  then show "forward_arcs (Bnst_num sp) p dp'"
    using p(1,2) by (simp add: forward_arcs_def h(1))
next
  fix dp d assume "forward_arcs (Bnst_num sp) 0 dp" "resolve_heads [0..<Bnst_num sp - 1] dp = Some (Some d)"
  then show "rooted (Bnst_num sp) (d_head d)"
    using resolve_heads_rooted [of 0 "Bnst_num sp - 1" dp d "Bnst_num sp"] by (auto simp: forward_arcs_def rooted_def)
qed

theorem search_structures_rooted_witness:
  "\<exists>d ds. structures sample_env (sample_clauses [[], [], []]) sample_matrices clear_state = Some (d # ds) \<and>
     rooted 3 (d_head d)"
proof -
  obtain d ds where s: "structures sample_env (sample_clauses [[], [], []]) sample_matrices clear_state = Some (d # ds)"
    using sample_structures by (auto simp: sample_heads_def)
  have "rooted (Bnst_num (sample_clauses [[], [], []])) (d_head d)"
    by (rule search_structures_rooted [OF s]) (simp_all add: sample_no_feature)
  then show ?thesis using s by (auto simp: numeral_3_eq_3)
qed



text \<open>
  C4. When no head is fixed in advance, the structures are moreover projective: no dependency crosses
  another one.
\<close>

theorem search_structures_projective:
  assumes "structures e sp M st = Some ds" and "d \<in> set ds" and "0 < Bnst_num sp"
    and "\<And>p i. p < i \<Longrightarrow> i < Bnst_num sp \<Longrightarrow> Mask_matrix M p i \<noteq> 2 \<and> Mask_matrix M p i \<noteq> 3"
    and "\<And>p. p < Bnst_num sp - 1 \<Longrightarrow> check_feature (bnst_f sp p) s_k_mukaku_juuzoku = None"
  shows "projective (Bnst_num sp) (d_head d)"
proof (rule structures_invariant [OF assms(1,2), where J = "open_arcs (Bnst_num sp)"])
  show "open_arcs (Bnst_num sp) (Bnst_num sp - 1) (init_dpnd sp)" by (simp add: open_arcs_def)
next
  fix p dp dp' assume p: "p < Bnst_num sp - 1" "open_arcs (Bnst_num sp) (Suc p) dp" "successor sp M p dp dp'"
  from p(3) obtain h where h: "d_head dp' = (d_head dp)(p := h)"
    "d_mask dp' = d_mask (close_mask sp p (dp\<lparr>d_pos := p\<rparr>))"
    "choice sp M p (close_mask sp p (dp\<lparr>d_pos := p\<rparr>)) h"
    by (auto simp: successor_def Let_def)
  show "open_arcs (Bnst_num sp) p dp'"
    using h(3) p(1)
  proof (cases rule: choice_arc)
    case (arc c)
    moreover have "para_mark sp M p = None" using para_mark_None [of p sp M] assms(4) by simp
    ultimately show ?thesis using open_arcs_step [OF p(2,1) refl h(2), of c] h(1,2) by simp
  next
    case follow
    then show ?thesis using assms(5) [OF p(1)] by simp
  qed
next
  fix dp d assume *: "open_arcs (Bnst_num sp) 0 dp" "resolve_heads [0..<Bnst_num sp - 1] dp = Some (Some d)"
  then have "\<forall>i \<in> set [0..<Bnst_num sp - 1]. 0 \<le> d_head dp i" by (force simp: open_arcs_def)
  then show "projective (Bnst_num sp) (d_head d)"
    using * by (auto simp: resolve_heads_none open_arcs_def rooted_def projective_def)
qed

theorem search_structures_projective_witness:
  "\<exists>d ds. structures sample_env (sample_clauses [[], [], []]) sample_matrices clear_state = Some (d # ds) \<and>
     projective 3 (d_head d)"
proof -
  obtain d ds where s: "structures sample_env (sample_clauses [[], [], []]) sample_matrices clear_state = Some (d # ds)"
    using sample_structures by (auto simp: sample_heads_def)
  have "projective (Bnst_num (sample_clauses [[], [], []])) (d_head d)"
    by (rule search_structures_projective [OF s]) (simp_all add: sample_no_feature sample_matrices_def)
  then show ?thesis using s by (auto simp: numeral_3_eq_3)
qed

text \<open>
  C7. The search with the evaluation of dependencies returns the first best structure of all the
  structures: it succeeds exactly when some structure scores more than the initial value -10000, and
  then the result is the earliest structure with the maximal score, with that score and with its
  number in the order of the search.
\<close>

theorem search_finds_first_best:
  assumes "search_dpnd_struct e sp M best st = Some (found, b, st')"
  shows "\<exists>ds. structures e sp M st = Some ds \<and> (\<forall>d \<in> set ds. dpnd_score sp d \<noteq> None) \<and>
    (found \<longleftrightarrow> (\<exists>d \<in> set ds. the (dpnd_score sp d) > -10000)) \<and>
    (if found
     then \<exists>k<length ds. tm_dpnd b = ds ! k \<and> dpnd_score sp (ds ! k) = Some (tm_score b) \<and> tm_ID b = int k \<and>
            (\<forall>d \<in> set ds. the (dpnd_score sp d) \<le> tm_score b) \<and>
            (\<forall>j<k. the (dpnd_score sp (ds ! j)) < tm_score b)
     else tm_dpnd b = tm_dpnd best)"
proof -
  define s where "s = best\<lparr>tm_score := -10000, tm_ID := -1, Possibility := 0, dpndID := 0\<rparr>"
  let ?run = "\<lambda>ev. decide_dpnd e sp M ev (Bnst_num sp - 1) (init_dpnd sp)"
  from assms have run: "?run (dpnd_evaluation sp) (st, s) = Some (st', b)" and found: "found \<longleftrightarrow> Possibility b \<noteq> 0"
    by (auto simp: search_dpnd_struct_def s_def bind_eq_Some_conv)
  from run enumeratesD [OF decide_dpnd_enumerates, of e sp M "dpnd_evaluation sp" _ _ "(st, s)"]
  obtain ds where ds: "structures e sp M st = Some ds" "fold_option (dpnd_evaluation sp) ds s = Some b"
    by (auto simp: structures_def bind_eq_Some_conv)
  note S = de.fold_keeps_best [OF ds(2), unfolded de.summary_def de.value_of_def]
  have all: "\<forall>d \<in> set ds. dpnd_score sp d \<noteq> None \<and> the (dpnd_score sp d) \<le> tm_score b" using S by blast
  show ?thesis
  proof (cases "Possibility b = 0")
    case True
    then have "tm_score b = -10000" "tm_dpnd b = tm_dpnd best" using S by (simp_all add: s_def)
    then show ?thesis using True found ds(1) all by (auto simp: not_less)
  next
    case False
    then obtain k where k: "k < length ds" "tm_dpnd b = ds ! k" "dpnd_score sp (ds ! k) = Some (tm_score b)"
        "tm_ID b = int k" "\<forall>j<k. the (dpnd_score sp (ds ! j)) < tm_score b" "-10000 < tm_score b"
      using S by (auto simp: s_def)
    then have "\<exists>d \<in> set ds. the (dpnd_score sp d) > -10000" by (intro bexI [of _ "ds ! k"]) simp_all
    then show ?thesis using False found ds(1) all k by auto
  qed
qed

definition sample_mgr :: TOTAL_MGR where
  "sample_mgr = \<lparr>tm_dpnd = init_dpnd (sample_clauses []), tm_score = 0, tm_ID = 0, Possibility = 0, dpndID = 0\<rparr>"

theorem search_finds_first_best_witness:
  "\<exists>ds. structures sample_env (sample_clauses [[], [], []]) sample_matrices clear_state = Some ds \<and>
     (\<forall>d \<in> set ds. dpnd_score (sample_clauses [[], [], []]) d \<noteq> None \<and>
        the (dpnd_score (sample_clauses [[], [], []]) d) \<le> 0)"
proof -
  let ?r = "search_dpnd_struct sample_env (sample_clauses [[], [], []]) sample_matrices sample_mgr clear_state"
  have "map_option (\<lambda>(found, b, _). (found, tm_score b)) ?r = Some (True, 0)" by code_simp
  then obtain b st' where b: "?r = Some (True, b, st')" "tm_score b = 0" by auto
  show ?thesis using search_finds_first_best [OF b(1)] b(2) by auto
qed

text \<open>
  The structure used when the search finds none is projective: every bunsetsu depends on the next
  one, with a normal dependency, and the score is 0.
\<close>

theorem when_no_dpnd_struct_chain:
  assumes "0 < Bnst_num sp"
  shows "projective (Bnst_num sp) (d_head (tm_dpnd (when_no_dpnd_struct sp best))) \<and>
    (\<forall>i<Bnst_num sp - 1. d_head (tm_dpnd (when_no_dpnd_struct sp best)) i = int i + 1) \<and>
    (\<forall>i<Bnst_num sp. d_type (tm_dpnd (when_no_dpnd_struct sp best)) i = CHR ''D'') \<and>
    tm_score (when_no_dpnd_struct sp best) = 0"
proof -
  define D where "D = tm_dpnd (when_no_dpnd_struct sp best)"
  have D: "d_head D i = (if i < Bnst_num sp - 1 then int i + 1 else -1) \<and> d_type D i = CHR ''D''"
    if "i < Bnst_num sp" for i
    using that by (auto simp: D_def when_no_dpnd_struct_def Let_def chain_fold [simplified] d_type_set)
  have "projective (Bnst_num sp) (d_head D)"
    using D assms by (auto simp: projective_def rooted_def)
  moreover have "tm_score (when_no_dpnd_struct sp best) = 0" by (simp add: when_no_dpnd_struct_def Let_def)
  ultimately show ?thesis using D by (simp add: D_def)
qed

theorem when_no_dpnd_struct_chain_witness:
  "projective 3 (d_head (tm_dpnd (when_no_dpnd_struct (sample_clauses [[], [], []]) sample_mgr)))"
  using when_no_dpnd_struct_chain [of "sample_clauses [[], [], []]" sample_mgr] by (simp add: numeral_3_eq_3)

lemma case2num_loop_absent: "cp \<notin> set cs \<Longrightarrow> case2num_loop cp i cs = -1"
  by (induction cs arbitrary: i) auto

text \<open>
  A case element other than the three that are named scores nothing: the number of its case is
  looked up three bytes after the begin of its feature, which in UTF-8 is the colon and not the name.
\<close>

theorem eval_case_other:
  assumes "check_feature df s_kakari = Some cp" and "cp \<notin> {s_k_mikaku, s_k_nokaku, s_k_gakaku}"
  shows "eval_case g df cp s = Some (False, s)"
proof -
  have l: "length s_kakari = 3" by code_simp
  have "comp_feature cp s_kakari" using assms(1) by (induction df rule: list.induct) (auto split: if_splits)
  then have "drop 3 cp = [] \<or> (\<exists>r. drop 3 cp = CHR '':'' # r)"
    by (auto simp: comp_feature_iff l [symmetric])
  moreover have "\<forall>c \<in> set Case_name. c \<noteq> [] \<and> hd c \<noteq> CHR '':''" by code_simp
  then have "[] \<notin> set Case_name" "CHR '':'' # r \<notin> set Case_name" for r by auto
  then have "case2num [] = -1" "case2num (CHR '':'' # r) = -1" for r
    unfolding case2num_def by (simp_all only: case2num_loop_absent not_False_eq_True)
  ultimately have "case2num (drop 3 cp) = -1" by auto
  then show ?thesis using assms(2) by (simp add: eval_case_def Let_def)
qed

definition sample_eval :: eval_state where
  "sample_eval = \<lparr>ev_score = 0, ev_scase = replicate 11 0, ev_ha = False, ev_un = 0, ev_topic = None\<rparr>"

theorem eval_case_other_witness:
  "eval_case sample_node [s_kakari @ CHR '':'' # s_wo] (s_kakari @ CHR '':'' # s_wo) sample_eval =
     Some (False, sample_eval)"
proof -
  have "check_feature [s_kakari @ CHR '':'' # s_wo] s_kakari = Some (s_kakari @ CHR '':'' # s_wo)" by code_simp
  moreover have "s_kakari @ CHR '':'' # s_wo \<notin> {s_k_mikaku, s_k_nokaku, s_k_gakaku}" by code_simp
  ultimately show ?thesis by (rule eval_case_other)
qed

end
