(* ===== verification/Knp_Heads.thy ===== *)
theory Knp_Heads
  imports Knp_Frame Knp_Dpnd_Spec
begin

text \<open>
  The transfer of the dependency structure of the bunsetsu to base phrases and morphemes
  (\<open>src/system/dpnd_analysis.c\<close>, with functions of \<open>tree_conv.c\<close> and \<open>case_ipal.c\<close>), the
  joining of base phrases that rules ask for before the output, and its reversal.

  The examples of the first case of the case frame of a base phrase, if it has one, come from a database;
  they are a parameter, as is the table of word numbers.
\<close>

section \<open>The model\<close>

record HEAD_ENV =
  r_env :: RULE_ENV
  Mrph2idExist :: bool
  mrph2id_db :: "string \<Rightarrow> string option"
  cf_examples :: "nat \<Rightarrow> string list option"
  OptSemanticHead :: bool

subsection \<open>Examples of case frames\<close>

text \<open>\<^verbatim>\<open>strtok\<close> with the delimiters plus and question mark: the pieces with their positions.\<close>

fun rep_tokens :: "nat \<Rightarrow> (nat \<times> string) option \<Rightarrow> string \<Rightarrow> (nat \<times> string) list" where
  "rep_tokens i tok [] = (case tok of None \<Rightarrow> [] | Some t \<Rightarrow> [t])"
| "rep_tokens i tok (c # cs) =
     (if c = CHR ''+'' \<or> c = CHR ''?''
      then (case tok of None \<Rightarrow> [] | Some t \<Rightarrow> [t]) @ rep_tokens (Suc i) None cs
      else rep_tokens (Suc i) (Some (case tok of None \<Rightarrow> (i, [c]) | Some (k, t) \<Rightarrow> (k, t @ [c]))) cs)"

text \<open>The separator before a piece is looked up relative to the start of the first one.\<close>

fun join_ids :: "(string \<Rightarrow> string option) \<Rightarrow> string \<Rightarrow> nat \<Rightarrow> string \<Rightarrow> (nat \<times> string) list \<Rightarrow> string option" where
  "join_ids db rep first buf [] = Some buf"
| "join_ids db rep first buf ((k, t) # ts) =
     (case db t of
        None \<Rightarrow> join_ids db rep first buf ts
      | Some v \<Rightarrow>
          do { sep \<leftarrow> (if buf = [] then Some [] else map_option (\<lambda>c. [c]) (char_at rep (k - 1 - first)));
               buf' \<leftarrow> fits DATA_LEN (buf @ sep @ v);
               join_ids db rep first buf' ts })"

definition rep2id :: "HEAD_ENV \<Rightarrow> string option \<Rightarrow> nat \<Rightarrow> string option" where
  "rep2id H rep rep_len =
     (case rep of
        None \<Rightarrow> Some []
      | Some r \<Rightarrow>
          if 0 < rep_len \<and> Mrph2idExist H
          then (case rep_tokens 0 None (take rep_len r) of
                  [] \<Rightarrow> Some []
                | (k, t) # ts \<Rightarrow> join_ids (mrph2id_db H) r k [] ((k, t) # ts))
          else Some [])"

text \<open>Whether one of the examples of a base phrase has the number of the word.\<close>

definition check_examples :: "HEAD_ENV \<Rightarrow> string option \<Rightarrow> nat \<Rightarrow> nat \<Rightarrow> bool option" where
  "check_examples H rep len t =
     (case cf_examples H t of
        None \<Rightarrow> Some False
      | Some ex \<Rightarrow> map_option (\<lambda>rep_id. rep_id \<noteq> [] \<and> rep_id \<in> set ex) (rep2id H rep len))"

definition example_word :: "HEAD_ENV \<Rightarrow> SENTENCE_DATA \<Rightarrow> TAG_DATA \<Rightarrow> (string option \<times> nat) option" where
  "example_word H sp t =
     do { h \<leftarrow> n_head_ptr t; m \<leftarrow> at (mrph_data sp) h;
          if UseRepCF (r_env H) then map_option (Pair (get_mrph_rep m)) (get_mrph_rep_length (get_mrph_rep m))
          else Some (Some (m_Goi2 m), length (m_Goi2 m)) }"

subsection \<open>Heads of base phrases\<close>

definition bnst_of :: "SENTENCE_DATA \<Rightarrow> int \<Rightarrow> BNST_DATA option" where
  "bnst_of sp h = (if 0 \<le> h then at (bnst_data sp) (nat h) else None)"

text \<open>The offset that the head bunsetsu asks for, from its last base phrase.\<close>

definition uke_offset :: "BNST_DATA \<Rightarrow> int option" where
  "uke_offset g =
     (case check_feature (n_f g) s_tag_uke of
        None \<Rightarrow> Some 0
      | Some cp \<Rightarrow> map_option (\<lambda>s. let k = c_atoi s in if 0 < k \<or> int (b_tag_num g) \<le> - k then 0 else k) (after cp s_tag_uke_c))"

definition tag_index :: "BNST_DATA \<Rightarrow> int \<Rightarrow> nat option" where
  "tag_index g offset =
     (let k = int (b_tag_ptr g + b_tag_num g) - 1 + offset in if k < 0 then None else Some (nat k))"

text \<open>
  A phrase with \<^verbatim>\<open>no\<close> right before its head: when the last base phrase has no example for it, the first
  other one that has.
\<close>

fun find_example :: "HEAD_ENV \<Rightarrow> string option \<Rightarrow> nat \<Rightarrow> nat \<Rightarrow> nat list \<Rightarrow> nat option option" where
  "find_example H rep len ptr [] = Some None"
| "find_example H rep len ptr (j # js) =
     do { ok \<leftarrow> check_examples H rep len (ptr + j); if ok then Some (Some j) else find_example H rep len ptr js }"

definition near_tag :: "HEAD_ENV \<Rightarrow> SENTENCE_DATA \<Rightarrow> TAG_DATA \<Rightarrow> BNST_DATA \<Rightarrow> int \<Rightarrow> nat option option" where
  "near_tag H sp t g offset =
     do { (rep, len) \<leftarrow> example_word H sp t;
          i \<leftarrow> tag_index g offset;
          ac \<leftarrow> check_examples H rep len i;
          if ac then Some None else find_example H rep len (b_tag_ptr g) [0..<nat (int (b_tag_num g) - 1 + offset)] }"

definition mark_near :: "nat \<Rightarrow> nat \<Rightarrow> int \<Rightarrow> SENTENCE_DATA \<Rightarrow> SENTENCE_DATA" where
  "mark_near b t offset sp =
     (let buf = s_chokuzen_tag_uke_c @ print_int offset
      in set_tag t (\<lambda>t. t\<lparr>n_f := assign_cfeature [] (n_f t) buf False\<rparr>)
           (set_bnst b (\<lambda>b. b\<lparr>n_f := assign_cfeature [] (n_f b) buf False\<rparr>) sp))"

text \<open>The offset of the head for the last base phrase \<open>t\<close> of the bunsetsu \<open>b\<close> with head \<open>h\<close>.\<close>

definition head_offset :: "HEAD_ENV \<Rightarrow> TAG_DATA \<Rightarrow> nat \<Rightarrow> int \<Rightarrow> SENTENCE_DATA \<Rightarrow> (int \<times> SENTENCE_DATA) option" where
  "head_offset H t b h sp =
     do { own \<leftarrow> at (bnst_data sp) b;
          if check_feature (n_f own) s_tag_uke_mushi \<noteq> None then Some (0, sp)
          else do {
            g \<leftarrow> bnst_of sp h;
            offset \<leftarrow> uke_offset g;
            if check_feature (n_f t) s_k_nokaku \<noteq> None \<and> h - int b = 1
            then do { near \<leftarrow> near_tag H sp t g offset;
                      Some (case near of
                              None \<Rightarrow> (offset, sp)
                            | Some j \<Rightarrow> (let k = int j - (int (b_tag_num g) - 1) in (k, mark_near (nat h) (b_tag_ptr g + j) k sp))) }
            else Some (offset, sp) } }"

definition set_tag_head :: "nat \<Rightarrow> int \<Rightarrow> char \<Rightarrow> SENTENCE_DATA \<Rightarrow> SENTENCE_DATA" where
  "set_tag_head i h ty = set_tag i (\<lambda>t. t\<lparr>n_dpnd_head := h, n_dpnd_type := ty\<rparr>)"

definition shown_type :: "language \<Rightarrow> char \<Rightarrow> char" where
  "shown_type Language ty = (if Language \<noteq> CHINESE \<and> (ty = CHR ''d'' \<or> ty = CHR ''R'') then CHR ''D'' else ty)"

definition tag_head_step :: "HEAD_ENV \<Rightarrow> language \<Rightarrow> DPND \<Rightarrow> nat \<Rightarrow> nat option \<times> SENTENCE_DATA \<Rightarrow> (nat option \<times> SENTENCE_DATA) option" where
  "tag_head_step H Language dp i = (\<lambda>(last_b, sp).
     do { t \<leftarrow> at (tag_data sp) i;
          let last_b' = (if 0 \<le> t_bnum t then Some (nat (t_bnum t)) else last_b);
          if i = Tag_num sp - 1 then Some (last_b', set_tag_head i (-1) (CHR ''D'') sp)
          else if t_inum t \<noteq> 0 then Some (last_b', set_tag_head i (n_num t + 1) (CHR ''D'') sp)
          else do {
            b \<leftarrow> last_b';
            (offset, sp1) \<leftarrow> head_offset H t b (d_head dp b) sp;
            h \<leftarrow> (if d_head dp b = -1 then Some (-1)
                 else do { g \<leftarrow> bnst_of sp1 (d_head dp b);
                           k \<leftarrow> tag_index g offset;
                           ht \<leftarrow> at (tag_data sp1) k;
                           Some (n_num ht) });
            Some (last_b', set_tag_head i h (shown_type Language (d_type dp b)) sp1) } })"

definition dpnd_info_to_tag_raw :: "HEAD_ENV \<Rightarrow> language \<Rightarrow> DPND \<Rightarrow> SENTENCE_DATA \<Rightarrow> SENTENCE_DATA option" where
  "dpnd_info_to_tag_raw H Language dp sp =
     map_option snd (fold_option (tag_head_step H Language dp) [0..<Tag_num sp] (None, sp))"

definition dpnd_info_to_tag_pm :: "(nat \<Rightarrow> int) \<Rightarrow> (nat \<Rightarrow> char) \<Rightarrow> SENTENCE_DATA \<Rightarrow> SENTENCE_DATA" where
  "dpnd_info_to_tag_pm Tag_dpnd Tag_type sp =
     for_upt 0 (Tag_num sp) (\<lambda>i. set_tag_head i (Tag_dpnd i) (Tag_type i)) sp"

text \<open>\<open>raw\<close>: the input is not analysed, or is grouped into bunsetsu or base phrases only.\<close>

definition dpnd_info_to_tag ::
  "HEAD_ENV \<Rightarrow> language \<Rightarrow> bool \<Rightarrow> (nat \<Rightarrow> int) \<Rightarrow> (nat \<Rightarrow> char) \<Rightarrow> DPND \<Rightarrow> SENTENCE_DATA \<Rightarrow> SENTENCE_DATA option" where
  "dpnd_info_to_tag H Language raw Tag_dpnd Tag_type dp sp =
     (if raw then dpnd_info_to_tag_raw H Language dp sp else Some (dpnd_info_to_tag_pm Tag_dpnd Tag_type sp))"

subsection \<open>Heads of morphemes\<close>

text \<open>
  The morpheme of a head that a dependant depends on: the copula behind it, the number before a counter, or
  the content word.
\<close>

definition copula_head :: "ENV \<Rightarrow> SENTENCE_DATA \<Rightarrow> NODE \<Rightarrow> NODE \<Rightarrow> nat \<Rightarrow> bool option" where
  "copula_head e sp dep gov h =
     (if h + 1 < n_mrph_ptr gov + n_mrph_num gov \<and> check_feature (n_f gov) s_yougen_han \<noteq> None
      then do { m \<leftarrow> at (mrph_data sp) (h + 1);
                Some (Class_id e (m_Hinshi m) 0 = s_hanteishi \<and>
                  \<not> (check_feature (n_f dep) s_rentai_shuushoku \<noteq> None \<or> check_feature (n_f dep) s_k_tonari \<noteq> None \<or>
                     check_feature (n_f dep) s_k_bunsetsunai \<noteq> None \<or>
                     (n_dpnd_type dep = CHR ''P'' \<and> check_feature (n_f dep) s_heiki_mei \<noteq> None))) }
      else Some False)"

definition number_head :: "SENTENCE_DATA \<Rightarrow> NODE \<Rightarrow> NODE \<Rightarrow> nat \<Rightarrow> bool option" where
  "number_head sp dep gov h =
     (if n_mrph_ptr gov + 1 \<le> h \<and> check_feature (n_f dep) s_k_bunsetsunai \<noteq> None \<and> check_feature (n_f dep) s_suuryou \<noteq> None \<and>
         check_feature (n_f dep) s_counter = None \<and> check_feature (n_f gov) s_counter \<noteq> None
      then map_option (\<lambda>m. check_feature (m_f m) s_suuji \<noteq> None) (at (mrph_data sp) (h - 1))
      else Some False)"

definition find_head_mrph_from_dpnd_bnst :: "ENV \<Rightarrow> SENTENCE_DATA \<Rightarrow> NODE option \<Rightarrow> NODE \<Rightarrow> nat option" where
  "find_head_mrph_from_dpnd_bnst e sp dep gov =
     do { h \<leftarrow> n_head_ptr gov;
          case dep of
            None \<Rightarrow> Some h
          | Some d \<Rightarrow>
              do { copula \<leftarrow> copula_head e sp d gov h;
                   if copula then Some (h + 1)
                   else do { number \<leftarrow> number_head sp d gov h; Some (if number then h - 1 else h) } } }"

definition check_semantic_head :: "ENV \<Rightarrow> SENTENCE_DATA \<Rightarrow> MRPH_DATA \<Rightarrow> TAG_DATA \<Rightarrow> bool option" where
  "check_semantic_head e sp m t =
     (case check_feature (n_f t) s_yougen of
        None \<Rightarrow> Some (m_inum m = 0)
      | Some cp \<Rightarrow>
          do { h \<leftarrow> n_head_ptr t; hm \<leftarrow> at (mrph_data sp) h;
               Some ((if cp = s_yougen_han \<and> check_feature (n_f t) s_hanteishi \<noteq> None
                      then m_num hm < m_num m \<and> Class_id e (m_Hinshi m) 0 = s_hanteishi
                      else m_num m = m_num hm) \<or> m_inum m = 0) })"

definition check_syntactic_head :: "ENV \<Rightarrow> SENTENCE_DATA \<Rightarrow> nat \<Rightarrow> bool option" where
  "check_syntactic_head e sp i =
     do { m \<leftarrow> at (mrph_data sp) i;
          if m_inum m = 1
          then map_option (\<lambda>n. Class_id e (m_Hinshi n) 0 = s_tokushu \<and>
                 (Class_id e (m_Hinshi n) (m_Bunrui n) = s_touten \<or> Class_id e (m_Hinshi n) (m_Bunrui n) = s_kuten))
               (at (mrph_data sp) (i + 1))
          else Some (m_inum m = 0) }"

text \<open>
  The local variables of the loop over the morphemes. The head of a bunsetsu that a later morpheme may still
  take over is \<open>last_content_m_ptr\<close>; \<open>proj_table\<close> holds the nearest end of the dependencies
  that pass over a morpheme, 0 for none.
\<close>

record HEAD_STATE =
  h_sp :: SENTENCE_DATA
  last_t :: "nat option"
  seen_semantic :: bool
  seen_syntactic :: bool
  seen_outer :: bool
  last_content_m :: "nat option"
  last_content_m_ptr :: "nat option"
  root_m :: "nat option"
  proj_table :: "nat \<Rightarrow> nat"

definition set_mrph_head :: "nat \<Rightarrow> int \<Rightarrow> char \<Rightarrow> HEAD_STATE \<Rightarrow> HEAD_STATE" where
  "set_mrph_head i h ty s = s\<lparr>h_sp := set_mrph i (\<lambda>m. m\<lparr>m_dpnd_head := h, m_dpnd_type := ty\<rparr>) (h_sp s)\<rparr>"

definition set_out :: "nat \<Rightarrow> bool \<Rightarrow> HEAD_STATE \<Rightarrow> HEAD_STATE" where
  "set_out i b s = s\<lparr>h_sp := set_mrph i (\<lambda>m. m\<lparr>m_out_head_flag := b\<rparr>) (h_sp s)\<rparr>"

text \<open>The root of the sentence: later candidates depend on the first one.\<close>

definition take_root :: "nat \<Rightarrow> nat \<Rightarrow> char \<Rightarrow> HEAD_STATE \<Rightarrow> HEAD_STATE" where
  "take_root i num ty s =
     (case root_m s of
        Some r \<Rightarrow> set_mrph_head i (int r) ty s
      | None \<Rightarrow> (set_mrph_head i (-1) ty s)\<lparr>root_m := Some num\<rparr>)"

definition leave_phrase :: "HEAD_ENV \<Rightarrow> nat \<Rightarrow> nat \<Rightarrow> TAG_DATA \<Rightarrow> HEAD_STATE \<Rightarrow> HEAD_STATE option" where
  "leave_phrase H i num t s =
     (if i = length (mrph_data (h_sp s)) - 1 then Some (take_root i num (CHR ''D'') s)
      else if n_dpnd_head t = -1 then Some (take_root i num (n_dpnd_type t) s)
      else if n_dpnd_head t < 0 then None
      else do {
        g \<leftarrow> at (tag_data (h_sp s)) (nat (n_dpnd_head t));
        h \<leftarrow> find_head_mrph_from_dpnd_bnst (env (r_env H)) (h_sp s) (Some (NODE.truncate t)) (NODE.truncate g);
        hm \<leftarrow> at (mrph_data (h_sp s)) h;
        let far = m_num hm in
        Some (if proj_table s i \<noteq> 0 \<and> proj_table s i < far then set_mrph_head i (int (proj_table s i)) (n_dpnd_type t) s
              else (set_mrph_head i (int far) (n_dpnd_type t) s)
                     \<lparr>proj_table := (\<lambda>j. if i < j \<and> j < far \<and> (proj_table s j = 0 \<or> far < proj_table s j) then far else proj_table s j)\<rparr>) })"

definition enter_mrph :: "nat \<Rightarrow> HEAD_STATE \<Rightarrow> HEAD_STATE option" where
  "enter_mrph i s =
     do { m \<leftarrow> at (mrph_data (h_sp s)) i;
          Some (if 0 \<le> m_tnum m
                then s\<lparr>last_t := Some (nat (m_tnum m)), seen_semantic := False, seen_syntactic := False, seen_outer := False,
                       last_content_m_ptr := None\<rparr>
                else s) }"

definition mrph_head_step :: "HEAD_ENV \<Rightarrow> nat \<Rightarrow> HEAD_STATE \<Rightarrow> HEAD_STATE option" where
  "mrph_head_step H i s0 =
     do { s1 \<leftarrow> enter_mrph i s0;
          m \<leftarrow> at (mrph_data (h_sp s1)) i;
          tp \<leftarrow> last_t s1;
          t \<leftarrow> at (tag_data (h_sp s1)) tp;
          this_semantic \<leftarrow> (if OptSemanticHead H \<and> \<not> seen_semantic s1
                            then check_semantic_head (env (r_env H)) (h_sp s1) m t else Some False);
          let s2 = s1\<lparr>seen_semantic := (seen_semantic s1 \<or> this_semantic),
                      last_content_m := (if this_semantic then Some (m_num m) else last_content_m s1),
                      last_content_m_ptr := (if this_semantic then Some i else last_content_m_ptr s1)\<rparr>;
          this_syntactic \<leftarrow> (if seen_syntactic s2 then Some False else check_syntactic_head (env (r_env H)) (h_sp s2) i);
          let s3 = s2\<lparr>seen_syntactic := (seen_syntactic s2 \<or> this_syntactic),
                      last_content_m := (if this_syntactic \<and> \<not> OptSemanticHead H then Some (m_num m) else last_content_m s2),
                      seen_outer := (seen_outer s2 \<or> (n_dpnd_head t \<noteq> -1 \<and> check_feature (m_f m) s_t_kukan \<noteq> None))\<rparr>;
          let behind = seen_syntactic s3 \<and> \<not> this_syntactic;
          let inner = check_feature (m_f m) s_t_kunai \<noteq> None;
          if \<not> seen_syntactic s3 \<and> \<not> this_semantic \<and>
             (if OptSemanticHead H then \<not> seen_semantic s3 \<or> seen_outer s3 else \<not> inner)
          then
            (let s4 = set_mrph_head i (int (m_num m) + 1) (CHR ''D'') (set_out i False s3)
             in Some (case last_content_m_ptr s4 of
                        None \<Rightarrow> s4
                      | Some p \<Rightarrow> (set_mrph_head p (int (m_num m)) (CHR ''D'') s4)\<lparr>last_content_m_ptr := None\<rparr>))
          else if \<not> seen_outer s3 \<and> \<not> this_semantic \<and>
             (OptSemanticHead H \<and> seen_semantic s3 \<and> \<not> behind \<or> inner \<or> n_dpnd_head t = -1 \<and> behind)
          then map_option (\<lambda>c. set_mrph_head i (int c) (CHR ''D'') (set_out i False s3)) (last_content_m s3)
          else
            (let s4 = set_out i True s3;
                 s5 = (case (if this_semantic \<or> behind then None else last_content_m_ptr s4) of
                         None \<Rightarrow> s4
                       | Some p \<Rightarrow> (set_out p False (set_mrph_head p (int (m_num m)) (CHR ''D'') s4))\<lparr>last_content_m_ptr := None\<rparr>)
             in leave_phrase H i (m_num m) t s5) }"

definition dpnd_info_to_mrph :: "HEAD_ENV \<Rightarrow> SENTENCE_DATA \<Rightarrow> SENTENCE_DATA option" where
  "dpnd_info_to_mrph H sp =
     map_option h_sp (fold_option (mrph_head_step H) [0..<length (mrph_data sp)]
       \<lparr>h_sp = sp, last_t = None, seen_semantic = False, seen_syntactic = False, seen_outer = False, last_content_m = None,
        last_content_m_ptr = None, root_m = None, proj_table = (\<lambda>_. 0)\<rparr>)"

subsection \<open>Joining base phrases\<close>

definition copy_para_info :: "'a NODE_scheme \<Rightarrow> 'a NODE_scheme \<Rightarrow> 'a NODE_scheme" where
  "copy_para_info dst src =
     dst\<lparr>n_para_num := n_para_num src, n_para_key_type := n_para_key_type src, n_para_top_p := n_para_top_p src,
         n_para_type := n_para_type src, n_to_para_p := n_to_para_p src\<rparr>"

definition bytes_of :: "SENTENCE_DATA \<Rightarrow> nat \<Rightarrow> nat \<Rightarrow> nat option" where
  "bytes_of sp start n =
     (if start + n \<le> length (mrph_data sp)
      then Some (sum_list (map (\<lambda>m. length (m_Goi2 m)) (take n (drop start (mrph_data sp))))) else None)"

definition preserve_num :: "nat \<Rightarrow> SENTENCE_DATA \<Rightarrow> SENTENCE_DATA option" where
  "preserve_num i sp =
     do { t \<leftarrow> at (tag_data sp) i;
          let sp1 = set_tag i (\<lambda>t. t\<lparr>n_preserve_mrph_num := n_mrph_num t\<rparr>) sp;
          if 0 \<le> t_bnum t
          then map_option (\<lambda>_. set_bnst (t_b_ptr t) (\<lambda>b. b\<lparr>n_preserve_mrph_num := n_mrph_num b\<rparr>) sp1) (at (bnst_data sp) (t_b_ptr t))
          else Some sp1 }"

text \<open>A base phrase is joined with the nearest one before it that is not joined itself.\<close>

definition take_over :: "nat \<Rightarrow> 'a NODE_scheme \<Rightarrow> 'a NODE_scheme \<Rightarrow> 'a NODE_scheme" where
  "take_over bytes src dst =
     dst\<lparr>n_mrph_num := n_mrph_num dst + n_mrph_num src, n_dpnd_head := n_dpnd_head src, n_dpnd_type := n_dpnd_type src,
         n_length := n_length dst + bytes\<rparr>"

definition merge_tag :: "nat \<Rightarrow> SENTENCE_DATA \<Rightarrow> SENTENCE_DATA option" where
  "merge_tag i sp =
     do { t \<leftarrow> at (tag_data sp) i;
          to \<leftarrow> find (\<lambda>k. 0 \<le> n_num (tag_data sp ! k)) (rev [0..<i]);
          bytes \<leftarrow> bytes_of sp (n_mrph_ptr t) (n_mrph_num t);
          Some (set_tag to (\<lambda>d. (take_over bytes t d)\<lparr>n_f := assign_cfeature [] (n_f d) s_merged_tag False\<rparr>)
                 (set_tag i (\<lambda>t. t\<lparr>n_num := -1\<rparr>) sp)) }"

text \<open>
  The same for a bunsetsu that begins with the base phrase. The length grows by as many morphemes as
  the base phrase has.
\<close>

definition merge_target :: "SENTENCE_DATA \<Rightarrow> nat \<Rightarrow> nat option" where
  "merge_target sp b =
     (let n = nat (n_num (bnst_data sp ! b)) + 1;
          m = (case find (\<lambda>m. m \<le> b \<and> 0 \<le> n_num (bnst_data sp ! (b - m))) [1..<n] of Some m \<Rightarrow> m | None \<Rightarrow> n)
      in if m \<le> b then Some (b - m) else None)"

definition merge_bnst :: "nat \<Rightarrow> nat \<Rightarrow> SENTENCE_DATA \<Rightarrow> SENTENCE_DATA option" where
  "merge_bnst b mrphs sp =
     do { src \<leftarrow> at (bnst_data sp) b;
          to \<leftarrow> merge_target sp b;
          bytes \<leftarrow> bytes_of sp (n_mrph_ptr src) mrphs;
          Some (set_bnst to (\<lambda>d. take_over bytes src (copy_para_info d src)) (set_bnst b (\<lambda>s. s\<lparr>n_num := -1\<rparr>) sp)) }"

definition join_step :: "nat \<Rightarrow> int \<times> int list \<times> SENTENCE_DATA \<Rightarrow> (int \<times> int list \<times> SENTENCE_DATA) option" where
  "join_step i = (\<lambda>(count, t_table, sp).
     do { sp1 \<leftarrow> preserve_num i sp;
          t \<leftarrow> at (tag_data sp1) i;
          if check_feature (n_f t) s_t_merge \<noteq> None
          then do { sp2 \<leftarrow> merge_tag i sp1;
                    sp3 \<leftarrow> (if 0 \<le> t_bnum t then merge_bnst (t_b_ptr t) (n_mrph_num t) sp2 else Some sp2);
                    Some (count, t_table @ [count], sp3) }
          else Some (count + 1, t_table @ [count + 1], sp1) })"

text \<open>The numbers of the units that are left.\<close>

definition b_table :: "SENTENCE_DATA \<Rightarrow> nat \<Rightarrow> int" where
  "b_table sp i = int (length (filter (\<lambda>k. n_num (bnst_data sp ! k) \<noteq> -1) [0..<Suc i])) - 1"

definition new_number :: "nat \<Rightarrow> (nat \<Rightarrow> int) \<Rightarrow> int \<Rightarrow> int option" where
  "new_number n table h = (if h = -1 then Some (-1) else if 0 \<le> h \<and> h < int n then Some (table (nat h)) else None)"

definition renumber_tag :: "(nat \<Rightarrow> int) \<Rightarrow> (nat \<Rightarrow> int) \<Rightarrow> nat \<Rightarrow> SENTENCE_DATA \<Rightarrow> SENTENCE_DATA option" where
  "renumber_tag tt bt i sp =
     do { t \<leftarrow> at (tag_data sp) i;
          h \<leftarrow> (if n_num t = -1 then Some (n_dpnd_head t) else new_number (Tag_num sp) tt (n_dpnd_head t));
          bn \<leftarrow> (if 0 \<le> t_bnum t then new_number (Bnst_num sp) bt (t_bnum t) else Some (t_bnum t));
          Some (set_tag i (\<lambda>t. t\<lparr>n_num := (if n_num t = -1 then -1 else tt i), n_dpnd_head := h, t_bnum := bn\<rparr>) sp) }"

definition renumber_bnst :: "(nat \<Rightarrow> int) \<Rightarrow> nat \<Rightarrow> SENTENCE_DATA \<Rightarrow> SENTENCE_DATA option" where
  "renumber_bnst bt i sp =
     do { b \<leftarrow> at (bnst_data sp) i;
          if n_num b = -1 then Some sp
          else map_option (\<lambda>h. set_bnst i (\<lambda>b. b\<lparr>n_num := bt i, n_dpnd_head := h\<rparr>) sp) (new_number (Bnst_num sp) bt (n_dpnd_head b)) }"

definition join_units :: "bool \<Rightarrow> SENTENCE_DATA \<Rightarrow> SENTENCE_DATA option" where
  "join_units flag sp =
     do { (_, t_table, sp1) \<leftarrow> fold_option join_step [0..<Tag_num sp] (-1, [], sp);
          if flag
          then do { let bt = b_table sp1;
                    sp2 \<leftarrow> fold_option (renumber_tag (\<lambda>i. t_table ! i) bt) [0..<Tag_num sp] sp1;
                    fold_option (renumber_bnst bt) [0..<Bnst_num sp] sp2 }
          else Some sp1 }"

definition tag_bnst_postprocess :: "RULE_ENV \<Rightarrow> bool \<Rightarrow> GeneralRuleType list \<Rightarrow> ASG \<Rightarrow> (GeneralRuleType list \<times> ASG) option" where
  "tag_bnst_postprocess R flag gs a =
     do { (gs', a1) \<leftarrow> assign_general_feature R 0 (Tag_num (a_sp a)) PostProcessTagRuleType False False gs a;
          sp \<leftarrow> join_units flag (a_sp a1);
          Some (gs', a1\<lparr>a_sp := sp\<rparr>) }"

definition undo_step :: "nat \<Rightarrow> nat \<times> SENTENCE_DATA \<Rightarrow> (nat \<times> SENTENCE_DATA) option" where
  "undo_step i = (\<lambda>(b_count, sp).
     do { t \<leftarrow> at (tag_data sp) i;
          let sp1 = set_tag i (\<lambda>t. t\<lparr>n_num := int i, n_mrph_num := n_preserve_mrph_num t\<rparr>) sp;
          l \<leftarrow> calc_bnst_length sp1 (tag_data sp1 ! i);
          let sp2 = set_tag i (\<lambda>t. t\<lparr>n_length := l\<rparr>) sp1;
          if 0 \<le> t_bnum t
          then do { b \<leftarrow> at (bnst_data sp2) (t_b_ptr t);
                    let b1 = b\<lparr>n_num := int b_count, n_mrph_num := n_preserve_mrph_num b\<rparr>;
                    bl \<leftarrow> calc_bnst_length sp2 b1;
                    Some (b_count + 1, set_tag i (\<lambda>t. t\<lparr>t_bnum := int b_count\<rparr>) (set_bnst (t_b_ptr t) (\<lambda>_. b1\<lparr>n_length := bl\<rparr>) sp2)) }
          else Some (b_count, sp2) })"

definition undo_tag_bnst_postprocess :: "SENTENCE_DATA \<Rightarrow> SENTENCE_DATA option" where
  "undo_tag_bnst_postprocess sp = map_option snd (fold_option undo_step [0..<Tag_num sp] (0, sp))"

section \<open>Bunsetsu and their base phrases\<close>

abbreviation first_of :: "SENTENCE_DATA \<Rightarrow> nat \<Rightarrow> nat" where
  "first_of sp b \<equiv> b_tag_ptr (bnst_data sp ! b)"

abbreviation count_of :: "SENTENCE_DATA \<Rightarrow> nat \<Rightarrow> nat" where
  "count_of sp b \<equiv> b_tag_num (bnst_data sp ! b)"

abbreviation tag_head :: "SENTENCE_DATA \<Rightarrow> nat \<Rightarrow> int" where
  "tag_head sp t \<equiv> n_dpnd_head (tag_data sp ! t)"

text \<open>
  The bunsetsu divide the base phrases among themselves, in order and with at least one for each; a base phrase
  knows its number, its bunsetsu if it is the first one there, and its position from the end.
\<close>

definition tag_fits :: "SENTENCE_DATA \<Rightarrow> nat \<Rightarrow> nat \<Rightarrow> bool" where
  "tag_fits sp b k \<longleftrightarrow>
     (let t = tag_data sp ! (first_of sp b + k)
      in n_num t = int (first_of sp b + k) \<and> t_bnum t = (if k = 0 then int b else -1) \<and>
         t_inum t = int (count_of sp b - 1 - k) \<and> t_b_ptr t = b)"

definition phrased :: "SENTENCE_DATA \<Rightarrow> bool" where
  "phrased sp \<longleftrightarrow>
     0 < Bnst_num sp \<and> Bnst_num sp \<le> length (bnst_data sp) \<and> Tag_num sp \<le> length (tag_data sp) \<and> first_of sp 0 = 0 \<and>
     (\<forall>b < Bnst_num sp. 0 < count_of sp b \<and>
        first_of sp b + count_of sp b = (if Suc b < Bnst_num sp then first_of sp (Suc b) else Tag_num sp) \<and>
        (\<forall>k < count_of sp b. tag_fits sp b k))"

lemma phrasedD:
  assumes "phrased sp" and "b < Bnst_num sp"
  shows "0 < count_of sp b" "k < count_of sp b \<Longrightarrow> tag_fits sp b k" "Suc b < Bnst_num sp \<Longrightarrow> first_of sp (Suc b) = first_of sp b + count_of sp b"
    "Suc b = Bnst_num sp \<Longrightarrow> Tag_num sp = first_of sp b + count_of sp b"
  using assms by (auto simp: phrased_def)

lemma end_le_first:
  assumes "phrased sp" and "b < c" "c < Bnst_num sp"
  shows "first_of sp b + count_of sp b \<le> first_of sp c"
  using assms(2,3)
proof (induction c)
  case (Suc c)
  then have c: "first_of sp (Suc c) = first_of sp c + count_of sp c" using phrasedD(3) [OF assms(1), of c] by simp
  show ?case
  proof (cases "b = c")
    case False
    then have "first_of sp b + count_of sp b \<le> first_of sp c" using Suc by simp
    then show ?thesis using c by simp
  qed (use c in simp)
qed simp

lemma first_mono: "phrased sp \<Longrightarrow> b < c \<Longrightarrow> c < Bnst_num sp \<Longrightarrow> first_of sp b < first_of sp c"
  using end_le_first [of sp b c] phrasedD(1) [of sp b] by simp

lemma end_le_Tag_num: "phrased sp \<Longrightarrow> b < Bnst_num sp \<Longrightarrow> first_of sp b + count_of sp b \<le> Tag_num sp"
proof -
  assume p: "phrased sp" and b: "b < Bnst_num sp"
  then have e: "Tag_num sp = first_of sp (Bnst_num sp - 1) + count_of sp (Bnst_num sp - 1)"
    using phrasedD(4) [of sp "Bnst_num sp - 1"] by simp
  show ?thesis
  proof (cases "b = Bnst_num sp - 1")
    case False
    then have "first_of sp b + count_of sp b \<le> first_of sp (Bnst_num sp - 1)" using end_le_first [OF p, of b "Bnst_num sp - 1"] b by simp
    then show ?thesis using e by simp
  qed (use e in simp)
qed

lemma tag_in_bnst:
  assumes "phrased sp" and "i < Tag_num sp"
  obtains b k where "b < Bnst_num sp" "k < count_of sp b" "i = first_of sp b + k"
proof -
  let ?B = "{b. b < Bnst_num sp \<and> first_of sp b \<le> i}"
  have fin: "finite ?B" by simp
  have ne: "0 \<in> ?B" using assms by (auto simp: phrased_def)
  define b where "b = Max ?B"
  have "b \<in> ?B" unfolding b_def by (rule Max_in [OF fin]) (use ne in blast)
  then have b: "b < Bnst_num sp" "first_of sp b \<le> i" by simp_all
  have "i < first_of sp b + count_of sp b"
  proof (cases "Suc b < Bnst_num sp")
    case True
    have "c \<le> b" if "c \<in> ?B" for c unfolding b_def by (rule Max_ge [OF fin that])
    from this [of "Suc b"] True have "\<not> first_of sp (Suc b) \<le> i" by auto
    then show ?thesis using phrasedD(3) [OF assms(1) b(1) True] by simp
  next
    case False
    then show ?thesis using phrasedD(4) [OF assms(1) b(1)] b(1) assms(2) by simp
  qed
  then show ?thesis using that [of b "i - first_of sp b"] b by simp
qed

lemma same_bnst:
  assumes "phrased sp" and "b < Bnst_num sp" "c < Bnst_num sp" and "k < count_of sp b" "l < count_of sp c"
  shows "first_of sp b + k = first_of sp c + l \<longleftrightarrow> b = c \<and> k = l"
    and "first_of sp b + k < first_of sp c + l \<longleftrightarrow> b < c \<or> (b = c \<and> k < l)"
  using end_le_first [OF assms(1), of b c] end_le_first [OF assms(1), of c b] assms(2-5)
  by (cases b c rule: linorder_cases; simp)+

text \<open>What \<open>phrased\<close> speaks about.\<close>

definition frame :: "SENTENCE_DATA \<Rightarrow> (int \<times> int \<times> int \<times> nat) list \<times> (nat \<times> nat) list \<times> nat \<times> nat" where
  "frame sp = (map (\<lambda>t. (n_num t, t_bnum t, t_inum t, t_b_ptr t)) (tag_data sp), map (\<lambda>b. (b_tag_ptr b, b_tag_num b)) (bnst_data sp),
     Tag_num sp, Bnst_num sp)"

lemma frameD:
  assumes "frame sp' = frame sp"
  shows "Tag_num sp' = Tag_num sp" "Bnst_num sp' = Bnst_num sp" "length (tag_data sp') = length (tag_data sp)"
    "length (bnst_data sp') = length (bnst_data sp)"
    "i < length (tag_data sp) \<Longrightarrow> n_num (tag_data sp' ! i) = n_num (tag_data sp ! i) \<and> t_bnum (tag_data sp' ! i) = t_bnum (tag_data sp ! i) \<and>
       t_inum (tag_data sp' ! i) = t_inum (tag_data sp ! i) \<and> t_b_ptr (tag_data sp' ! i) = t_b_ptr (tag_data sp ! i)"
    "b < length (bnst_data sp) \<Longrightarrow> first_of sp' b = first_of sp b \<and> count_of sp' b = count_of sp b"
proof -
  from assms have f: "map (\<lambda>t. (n_num t, t_bnum t, t_inum t, t_b_ptr t)) (tag_data sp') = map (\<lambda>t. (n_num t, t_bnum t, t_inum t, t_b_ptr t)) (tag_data sp)"
    "map (\<lambda>b. (b_tag_ptr b, b_tag_num b)) (bnst_data sp') = map (\<lambda>b. (b_tag_ptr b, b_tag_num b)) (bnst_data sp)"
    by (simp_all add: frame_def)
  show "Tag_num sp' = Tag_num sp" "Bnst_num sp' = Bnst_num sp" using assms by (simp_all add: frame_def)
  show l: "length (tag_data sp') = length (tag_data sp)" "length (bnst_data sp') = length (bnst_data sp)"
    using arg_cong [OF f(1), of length] arg_cong [OF f(2), of length] by simp_all
  show "i < length (tag_data sp) \<Longrightarrow> n_num (tag_data sp' ! i) = n_num (tag_data sp ! i) \<and> t_bnum (tag_data sp' ! i) = t_bnum (tag_data sp ! i) \<and>
       t_inum (tag_data sp' ! i) = t_inum (tag_data sp ! i) \<and> t_b_ptr (tag_data sp' ! i) = t_b_ptr (tag_data sp ! i)"
    using arg_cong [OF f(1), of "\<lambda>l. l ! i"] l by simp
  show "b < length (bnst_data sp) \<Longrightarrow> first_of sp' b = first_of sp b \<and> count_of sp' b = count_of sp b"
    using arg_cong [OF f(2), of "\<lambda>l. l ! b"] l by simp
qed

lemma frame_phrased: "frame sp' = frame sp \<Longrightarrow> phrased sp \<Longrightarrow> phrased sp'"
proof -
  assume f: "frame sp' = frame sp" and p: "phrased sp"
  note F = frameD [OF f]
  have b: "first_of sp' b = first_of sp b \<and> count_of sp' b = count_of sp b" if "b < Bnst_num sp" for b
    using F(6) [of b] p that by (simp add: phrased_def)
  have "tag_fits sp' b k" if k: "b < Bnst_num sp" "k < count_of sp b" for b k
  proof -
    have "first_of sp b + k < length (tag_data sp)" using end_le_Tag_num [OF p k(1)] k(2) p by (simp add: phrased_def)
    then show ?thesis using phrasedD(2) [OF p k] F(5) [of "first_of sp b + k"] b [OF k(1)] by (simp add: tag_fits_def Let_def)
  qed
  moreover have "0 < Bnst_num sp" using p by (simp add: phrased_def)
  ultimately show ?thesis
    using p b unfolding phrased_def F(1-4) by simp
qed

section \<open>The tree of the base phrases\<close>

lemma near_name: "plain (s_chokuzen_tag_uke_c @ s) \<and> fname_of (s_chokuzen_tag_uke_c @ s) = s_chokuzen_tag_uke"
proof -
  have E: "s_chokuzen_tag_uke_c @ s = s_chokuzen_tag_uke @ CHR '':'' # s" by (simp add: lit)
  have "is_name s_chokuzen_tag_uke" by (simp add: lit is_name_def)
  then have N: "fname_of (s_chokuzen_tag_uke_c @ s) = s_chokuzen_tag_uke" unfolding E by (rule fname_of_append)
  show ?thesis unfolding plain_def N by (simp add: lit)
qed

lemma near_feature:
  "check_feature (assign_cfeature [] f (s_chokuzen_tag_uke_c @ s) False) s_tag_uke_mushi = check_feature f s_tag_uke_mushi"
  "check_feature (assign_cfeature [] f (s_chokuzen_tag_uke_c @ s) False) s_tag_uke = check_feature f s_tag_uke"
proof -
  have n: "plain (s_chokuzen_tag_uke_c @ s)" "fname_of (s_chokuzen_tag_uke_c @ s) = s_chokuzen_tag_uke" using near_name by simp_all
  have "is_name s_tag_uke_mushi" "is_name s_tag_uke" "s_tag_uke_mushi \<noteq> s_chokuzen_tag_uke" "s_tag_uke \<noteq> s_chokuzen_tag_uke"
    by (simp_all add: lit is_name_def)
  then show "check_feature (assign_cfeature [] f (s_chokuzen_tag_uke_c @ s) False) s_tag_uke_mushi = check_feature f s_tag_uke_mushi"
    "check_feature (assign_cfeature [] f (s_chokuzen_tag_uke_c @ s) False) s_tag_uke = check_feature f s_tag_uke"
    using check_assign [OF n(1), of _ "[]" f] n(2) by simp_all
qed

text \<open>What the bunsetsu say about the base phrases they depend on and that others depend on.\<close>

definition asks :: "SENTENCE_DATA \<Rightarrow> nat \<Rightarrow> string option \<times> string option" where
  "asks sp b = (check_feature (bnst_f sp b) s_tag_uke_mushi, check_feature (bnst_f sp b) s_tag_uke)"

lemma keeps_head: "frame (set_tag_head i h ty sp) = frame sp" "asks (set_tag_head i h ty sp) = asks sp"
  "tag_head (set_tag_head i h ty sp) j = (if j = i \<and> i < length (tag_data sp) then h else tag_head sp j)"
  by (cases "i < length (tag_data sp)";
      simp add: fun_eq_iff frame_def asks_def bnst_f_def set_tag_head_def set_tag_def map_update list_update_same_conv list_update_beyond nth_list_update)+

lemma keeps_near: "frame (mark_near b t k sp) = frame sp" "asks (mark_near b t k sp) = asks sp"
  "tag_head (mark_near b t k sp) j = tag_head sp j"
proof -
  show "frame (mark_near b t k sp) = frame sp"
    by (cases "b < length (bnst_data sp)"; cases "t < length (tag_data sp)";
        simp add: frame_def mark_near_def set_tag_def set_bnst_def map_update list_update_same_conv list_update_beyond Let_def)
  show "asks (mark_near b t k sp) = asks sp"
    by (cases "b < length (bnst_data sp)"; auto simp: fun_eq_iff asks_def bnst_f_def mark_near_def set_tag_def set_bnst_def
        list_update_beyond Let_def nth_list_update near_feature)
  show "tag_head (mark_near b t k sp) j = tag_head sp j"
    by (cases "t < length (tag_data sp)"; simp add: mark_near_def set_tag_def set_bnst_def list_update_beyond nth_list_update Let_def)
qed

lemma uke_offset_bounds: "uke_offset g = Some k \<Longrightarrow> 0 < b_tag_num g \<Longrightarrow> k \<le> 0 \<and> - int (b_tag_num g) < k"
  by (auto simp: uke_offset_def Let_def split: option.splits if_split_asm)

text \<open>The offset that a bunsetsu asks for; without an entry the last base phrase is meant.\<close>

definition wanted :: "SENTENCE_DATA \<Rightarrow> nat \<Rightarrow> int" where
  "wanted sp b = (case uke_offset (bnst_data sp ! b) of None \<Rightarrow> 0 | Some k \<Rightarrow> k)"

lemma uke_offset_cong: "asks s c = asks sp c \<Longrightarrow> count_of s c = count_of sp c \<Longrightarrow> uke_offset (bnst_data s ! c) = uke_offset (bnst_data sp ! c)"
  by (simp add: uke_offset_def asks_def bnst_f_def split: option.split)

lemma find_example_less: "find_example H rep len ptr js = Some (Some j) \<Longrightarrow> j \<in> set js"
  by (induction js) (auto simp: bind_eq_Some_conv split: if_split_asm)

lemma head_offset_spec:
  assumes run: "head_offset H t b h s = Some (k, s1)" and h: "0 \<le> h" "0 < count_of s (nat h)"
  shows "frame s1 = frame s \<and> asks s1 = asks s \<and> (\<forall>j. tag_head s1 j = tag_head s j) \<and>
    k \<le> 0 \<and> - int (count_of s (nat h)) < k \<and>
    (fst (asks s b) = None \<longrightarrow> k \<le> wanted s (nat h) \<and> (h \<noteq> int b + 1 \<longrightarrow> k = wanted s (nat h)))"
proof (cases "fst (asks s b) = None")
  case False
  then have "check_feature (n_f (bnst_data s ! b)) s_tag_uke_mushi \<noteq> None" by (simp add: asks_def bnst_f_def)
  then have "k = 0" "s1 = s" using run by (simp_all add: head_offset_def bind_eq_Some_conv)
  then show ?thesis using h(2) False by auto
next
  case True
  then have no: "check_feature (n_f (bnst_data s ! b)) s_tag_uke_mushi = None" by (simp add: asks_def bnst_f_def)
  let ?g = "bnst_data s ! nat h"
  obtain w where w: "uke_offset ?g = Some w"
    using run no h(1) by (cases "uke_offset ?g") (simp_all add: head_offset_def bnst_of_def bind_eq_Some_conv)
  have rest: "(if check_feature (n_f t) s_k_nokaku \<noteq> None \<and> h - int b = 1
      then do { near \<leftarrow> near_tag H s t ?g w;
                Some (case near of None \<Rightarrow> (w, s)
                      | Some j \<Rightarrow> (let k = int j - (int (b_tag_num ?g) - 1) in (k, mark_near (nat h) (b_tag_ptr ?g + j) k s))) }
      else Some (w, s)) = Some (k, s1)"
  proof -
    have own: "at (bnst_data s) b = Some (bnst_data s ! b)" "bnst_of s h = Some ?g"
      using run no h(1) by (auto simp: head_offset_def bnst_of_def bind_eq_Some_conv)
    show ?thesis
      using run by (simp only: head_offset_def own w no bind.bind_lunit simp_thms if_False)
  qed
  have W: "w \<le> 0" "- int (b_tag_num ?g) < w" "wanted s (nat h) = w"
    using uke_offset_bounds [OF w h(2)] w by (simp_all add: wanted_def)
  consider "k = w" "s1 = s" | j where "near_tag H s t ?g w = Some (Some j)" "h - int b = 1" "k = int j - (int (b_tag_num ?g) - 1)"
      "s1 = mark_near (nat h) (b_tag_ptr ?g + j) k s"
  proof (cases "check_feature (n_f t) s_k_nokaku \<noteq> None \<and> h - int b = 1")
    case near: True
    then obtain x where x: "near_tag H s t ?g w = Some x" using rest by (cases "near_tag H s t ?g w") simp_all
    note rest' = rest [unfolded x if_P [OF near] bind.bind_lunit]
    show thesis
    proof (cases x)
      case None
      then show thesis using rest' that(1) by simp
    next
      case (Some j)
      then have "k = int j - (int (b_tag_num ?g) - 1)" "s1 = mark_near (nat h) (b_tag_ptr ?g + j) (int j - (int (b_tag_num ?g) - 1)) s"
        using rest' Some by (auto simp add: Let_def)
      then show thesis using that(2) [of j] x Some near by simp
    qed
  next
    case no_near: False
    show thesis using rest [unfolded if_not_P [OF no_near]] that(1) by simp
  qed
  then show ?thesis
  proof cases
    case 1
    then show ?thesis using W by simp
  next
    case 2
    have "j < nat (int (b_tag_num ?g) - 1 + w)"
      using 2(1) by (auto simp: near_tag_def bind_eq_Some_conv Let_def split: if_split_asm dest!: find_example_less)
    then have "int j < int (b_tag_num ?g) - 1 + w" by (simp add: zless_nat_eq_int_zless)
    then have "k < w \<and> - int (b_tag_num ?g) < k" using 2(3) by linarith
    then show ?thesis using 2(2,4) W by (simp add: keeps_near)
  qed
qed

text \<open>The base phrase that the last one of the bunsetsu \<open>b\<close> depends on.\<close>

definition lands :: "SENTENCE_DATA \<Rightarrow> DPND \<Rightarrow> nat \<Rightarrow> nat \<Rightarrow> bool" where
  "lands sp dp b t \<longleftrightarrow>
     (let h = nat (d_head dp b); far = int (first_of sp h + count_of sp h) - 1 + wanted sp h
      in first_of sp h \<le> t \<and> t < first_of sp h + count_of sp h \<and>
         (check_feature (bnst_f sp b) s_tag_uke_mushi = None \<longrightarrow> int t \<le> far \<and> (h \<noteq> Suc b \<longrightarrow> int t = far)))"

definition head_spec :: "SENTENCE_DATA \<Rightarrow> DPND \<Rightarrow> nat \<Rightarrow> int \<Rightarrow> bool" where
  "head_spec sp dp j h \<longleftrightarrow>
     (if j = Tag_num sp - 1 then h = -1
      else \<forall>b k. b < Bnst_num sp \<and> k < count_of sp b \<and> j = first_of sp b + k \<longrightarrow>
        (if Suc k < count_of sp b then h = int j + 1 else \<exists>t. h = int t \<and> lands sp dp b t))"

definition heads_inv :: "SENTENCE_DATA \<Rightarrow> DPND \<Rightarrow> nat \<Rightarrow> nat option \<times> SENTENCE_DATA \<Rightarrow> bool" where
  "heads_inv sp dp i = (\<lambda>(last_b, s).
     frame s = frame sp \<and> asks s = asks sp \<and>
     (0 < i \<longrightarrow> (\<exists>b k. b < Bnst_num sp \<and> k < count_of sp b \<and> i - 1 = first_of sp b + k \<and> last_b = Some b)) \<and>
     (\<forall>j < i. head_spec sp dp j (tag_head s j)))"

lemma heads_inv_start:
  assumes p: "phrased sp" and inv: "heads_inv sp dp i (last_b, s)" and i: "i < Tag_num sp"
  obtains b k where "b < Bnst_num sp" "k < count_of sp b" "i = first_of sp b + k" "i < length (tag_data s)"
    "n_num (tag_data s ! i) = int i" "t_inum (tag_data s ! i) = int (count_of sp b - 1 - k)"
    "(if 0 \<le> t_bnum (tag_data s ! i) then Some (nat (t_bnum (tag_data s ! i))) else last_b) = Some b"
proof -
  obtain b k where b: "b < Bnst_num sp" "k < count_of sp b" "i = first_of sp b + k" by (rule tag_in_bnst [OF p i])
  have f: "frame s = frame sp" using inv by (simp add: heads_inv_def)
  have l: "i < length (tag_data sp)" using i p by (simp add: phrased_def)
  note T = frameD(5) [OF f l] phrasedD(2) [OF p b(1,2)]
  have last: "last_b = Some b" if k: "0 < k"
  proof -
    obtain c j where c: "c < Bnst_num sp" "j < count_of sp c" "i - 1 = first_of sp c + j" "last_b = Some c"
      using inv b(3) k unfolding heads_inv_def by auto
    have "first_of sp c + j = first_of sp b + (k - 1)" using c(3) b(3) k by simp
    then show ?thesis using same_bnst(1) [OF p c(1) b(1) c(2), of "k - 1"] b(2) c(4) by simp
  qed
  show ?thesis
  proof (rule that [OF b])
    show "i < length (tag_data s)" using l frameD(3) [OF f] by simp
    show "n_num (tag_data s ! i) = int i" "t_inum (tag_data s ! i) = int (count_of sp b - 1 - k)"
      using T b(3) by (simp_all add: tag_fits_def Let_def)
    show "(if 0 \<le> t_bnum (tag_data s ! i) then Some (nat (t_bnum (tag_data s ! i))) else last_b) = Some b"
      using T b(3) last by (cases "k = 0") (simp_all add: tag_fits_def Let_def)
  qed
qed

lemma head_spec_at:
  assumes "phrased sp" and "b < Bnst_num sp" "k < count_of sp b" and "first_of sp b + k \<noteq> Tag_num sp - 1"
    and "if Suc k < count_of sp b then h = int (first_of sp b + k) + 1 else \<exists>t. h = int t \<and> lands sp dp b t"
  shows "head_spec sp dp (first_of sp b + k) h"
  using assms same_bnst(1) [OF assms(1)] by (auto simp: head_spec_def)

lemma tag_head_lands:
  assumes p: "phrased sp" and f: "frame s = frame sp" and q: "asks s = asks sp" and b: "b < Bnst_num sp"
    and h: "int b < d_head dp b" "d_head dp b < int (Bnst_num sp)"
    and run: "head_offset H t b (d_head dp b) s = Some (k, s1)"
    and to: "bnst_of s1 (d_head dp b) = Some g" "tag_index g k = Some x" "x < length (tag_data s1)"
  shows "frame s1 = frame sp \<and> asks s1 = asks sp \<and> (\<forall>j. tag_head s1 j = tag_head s j) \<and>
    n_num (tag_data s1 ! x) = int x \<and> lands sp dp b x"
proof -
  let ?h = "nat (d_head dp b)"
  have hb: "?h < Bnst_num sp" "b < ?h" using h by auto
  have bl: "c < length (bnst_data sp)" if "c < Bnst_num sp" for c using that p by (simp add: phrased_def)
  have c: "first_of s ?h = first_of sp ?h" "count_of s ?h = count_of sp ?h" using frameD(6) [OF f bl [OF hb(1)]] by simp_all
  have pos: "0 < count_of s ?h" using phrasedD(1) [OF p hb(1)] c by simp
  note S = head_offset_spec [OF run _ pos]
  have f1: "frame s1 = frame sp" and q1: "asks s1 = asks sp" using S f q h by simp_all
  have "wanted s ?h = wanted sp ?h" using uke_offset_cong [of s ?h sp] q c by (simp add: wanted_def)
  then have K: "k \<le> 0" "- int (count_of sp ?h) < k"
    "check_feature (bnst_f sp b) s_tag_uke_mushi = None \<Longrightarrow> k \<le> wanted sp ?h \<and> (?h \<noteq> Suc b \<longrightarrow> k = wanted sp ?h)"
    using S h c q by (auto simp: asks_def)
  have g: "g = bnst_data s1 ! ?h" using to(1) by (auto simp: bnst_of_def split: if_splits)
  have gs: "b_tag_ptr g = first_of sp ?h" "b_tag_num g = count_of sp ?h" using frameD(6) [OF f1 bl [OF hb(1)]] g by simp_all
  have x: "int x = int (first_of sp ?h + count_of sp ?h) - 1 + k" using to(2) by (auto simp: tag_index_def gs Let_def split: if_splits)
  then have x_in: "first_of sp ?h \<le> x" "x < first_of sp ?h + count_of sp ?h" using K by linarith+
  then have "lands sp dp b x" using K(3) x by (simp add: lands_def Let_def)
  moreover have "n_num (tag_data s1 ! x) = int x"
  proof -
    have "x < length (tag_data sp)" using to(3) frameD(3) [OF f1] by simp
    moreover have "tag_fits sp ?h (x - first_of sp ?h)" using phrasedD(2) [OF p hb(1)] x_in by simp
    ultimately show ?thesis using frameD(5) [OF f1] x_in by (simp add: tag_fits_def Let_def)
  qed
  ultimately show ?thesis using S f1 q1 h by simp
qed

lemma heads_step:
  assumes p: "phrased sp" and r: "rooted (Bnst_num sp) (d_head dp)" and inv: "heads_inv sp dp i st" and i: "i < Tag_num sp"
    and step: "tag_head_step H Language dp i st = Some st'"
  shows "heads_inv sp dp (Suc i) st'"
proof -
  obtain last_b s where st: "st = (last_b, s)" by (cases st)
  obtain b k where b: "b < Bnst_num sp" "k < count_of sp b" "i = first_of sp b + k" "i < length (tag_data s)"
    "n_num (tag_data s ! i) = int i" "t_inum (tag_data s ! i) = int (count_of sp b - 1 - k)"
    "(if 0 \<le> t_bnum (tag_data s ! i) then Some (nat (t_bnum (tag_data s ! i))) else last_b) = Some b"
    by (rule heads_inv_start [OF p inv [unfolded st] i])
  have f: "frame s = frame sp" and q: "asks s = asks sp" and prev: "\<forall>j < i. head_spec sp dp j (tag_head s j)"
    using inv by (simp_all add: st heads_inv_def)
  have T: "Tag_num s = Tag_num sp" by (rule frameD(1) [OF f])
  have make: "heads_inv sp dp (Suc i) (Some b, set_tag_head i h ty s1)"
    if "frame s1 = frame sp" "asks s1 = asks sp" "\<forall>j. tag_head s1 j = tag_head s j" "head_spec sp dp i h" for s1 h ty
  proof -
    have "i < length (tag_data s1)" using b(4) frameD(3) [OF that(1)] frameD(3) [OF f] by simp
    moreover have "\<exists>c l. c < Bnst_num sp \<and> l < count_of sp c \<and> i = first_of sp c + l \<and> Some b = Some c" using b by blast
    ultimately show ?thesis using that prev b by (auto simp: heads_inv_def keeps_head less_Suc_eq)
  qed
  note step' = step [unfolded st tag_head_step_def prod.case]
  consider (last) "i = Tag_num sp - 1" | (inner) "i \<noteq> Tag_num sp - 1" "Suc k < count_of sp b"
    | (final) "i \<noteq> Tag_num sp - 1" "Suc k = count_of sp b"
    using b(2) by linarith
  then show ?thesis
  proof cases
    case last
    then have "Tag_num sp - Suc 0 = i" by simp
    then have "st' = (Some b, set_tag_head i (-1) (CHR ''D'') s)" using step' b(4,7) by (simp add: bind_eq_Some_conv Let_def T)
    then show ?thesis using make [of s] f q last by (simp add: head_spec_def)
  next
    case inner
    then have "st' = (Some b, set_tag_head i (int i + 1) (CHR ''D'') s)"
      using step' b(4,5,6,7) T by (simp add: bind_eq_Some_conv Let_def)
    then show ?thesis using make [of s "int i + 1"] head_spec_at [OF p b(1,2), of "int i + 1" dp] f q inner b(3) by simp
  next
    case final
    have "Suc b < Bnst_num sp" using phrasedD(4) [OF p b(1)] final b by (cases "Suc b = Bnst_num sp") auto
    then have h12: "int b < d_head dp b" "d_head dp b < int (Bnst_num sp)" using r by (auto simp: rooted_def)
    then have h: "int b < d_head dp b" "d_head dp b < int (Bnst_num sp)" "d_head dp b \<noteq> -1" by linarith+
    have ti: "t_inum (tag_data s ! i) = 0" using b(6) final by simp
    obtain off s1 g x where run: "head_offset H (tag_data s ! i) b (d_head dp b) s = Some (off, s1)"
      and to: "bnst_of s1 (d_head dp b) = Some g" "tag_index g off = Some x" "x < length (tag_data s1)"
      and st': "st' = (Some b, set_tag_head i (n_num (tag_data s1 ! x)) (shown_type Language (d_type dp b)) s1)"
      using step' b(4,7) T final(1) ti h(3) by (auto simp: bind_eq_Some_conv Let_def)
    note L = tag_head_lands [OF p f q b(1) h(1,2) run to]
    have "head_spec sp dp i (int x)" using head_spec_at [OF p b(1,2), of "int x" dp] L final b(3) by auto
    then show ?thesis unfolding st' using make [of s1] L by simp
  qed
qed

lemma heads_result:
  assumes "dpnd_info_to_tag_raw H Language dp sp = Some sp'" and p: "phrased sp" and r: "rooted (Bnst_num sp) (d_head dp)"
  shows "frame sp' = frame sp \<and> (\<forall>j < Tag_num sp. head_spec sp dp j (tag_head sp' j))"
proof -
  obtain last_b where run: "fold_option (tag_head_step H Language dp) [0..<Tag_num sp] (None, sp) = Some (last_b, sp')"
    using assms(1) by (auto simp: dpnd_info_to_tag_raw_def)
  have "heads_inv sp dp i st" if "fold_option (tag_head_step H Language dp) [0..<i] (None, sp) = Some st" "i \<le> Tag_num sp" for i st
    using that
  proof (induction i arbitrary: st)
    case (Suc i)
    then obtain st1 where "fold_option (tag_head_step H Language dp) [0..<i] (None, sp) = Some st1" "tag_head_step H Language dp i st1 = Some st"
      by (auto simp: fold_option_append bind_eq_Some_conv split: option.splits)
    then show ?case using heads_step [OF p r] Suc.IH Suc.prems(2) by auto
  qed (simp add: heads_inv_def)
  from this [OF run] show ?thesis by (simp add: heads_inv_def)
qed

lemma head_specD:
  assumes "head_spec sp dp j h" and "j \<noteq> Tag_num sp - 1" and "b < Bnst_num sp" "k < count_of sp b" "j = first_of sp b + k"
  shows "Suc k < count_of sp b \<Longrightarrow> h = int j + 1" and "\<not> Suc k < count_of sp b \<Longrightarrow> \<exists>t. h = int t \<and> lands sp dp b t"
  using assms(1) [unfolded head_spec_def if_not_P [OF assms(2)], rule_format, of b k] assms(3-5) by auto

lemma rootedD: "rooted n h \<Longrightarrow> Suc b < n \<Longrightarrow> int b < h b \<and> h b < int n"
  by (simp add: rooted_def)

lemma lands_in:
  assumes "phrased sp" "rooted (Bnst_num sp) (d_head dp)" "Suc b < Bnst_num sp" "lands sp dp b t"
  obtains c m where "c = nat (d_head dp b)" "d_head dp b = int c" "b < c" "c < Bnst_num sp" "m < count_of sp c" "t = first_of sp c + m"
    "first_of sp b + count_of sp b \<le> t" "t < Tag_num sp"
proof -
  let ?c = "nat (d_head dp b)"
  have c: "d_head dp b = int ?c" "b < ?c" "?c < Bnst_num sp" using rootedD [OF assms(2,3)] by auto
  have t: "first_of sp ?c \<le> t" "t < first_of sp ?c + count_of sp ?c" using assms(4) by (simp_all add: lands_def Let_def)
  have "first_of sp b + count_of sp b \<le> t" using end_le_first [OF assms(1) c(2,3)] t by simp
  moreover have "t < Tag_num sp" using end_le_Tag_num [OF assms(1) c(3)] t by simp
  ultimately show ?thesis using that [of ?c "t - first_of sp ?c"] c t by simp
qed

text \<open>A base phrase with its place, and what its head is.\<close>

lemma heads_cases:
  assumes p: "phrased sp" and j: "j < Tag_num sp" and spec: "head_spec sp dp j h"
  obtains (last) "j = Tag_num sp - 1" "h = -1"
    | (inner) b k where "b < Bnst_num sp" "Suc k < count_of sp b" "j = first_of sp b + k" "h = int j + 1"
    | (final) b t where "Suc b < Bnst_num sp" "j + 1 = first_of sp b + count_of sp b" "h = int t" "lands sp dp b t"
proof (cases "j = Tag_num sp - 1")
  case True
  then show ?thesis using spec that(1) by (simp add: head_spec_def)
next
  case False
  obtain b k where b: "b < Bnst_num sp" "k < count_of sp b" "j = first_of sp b + k" by (rule tag_in_bnst [OF p j])
  show ?thesis
  proof (cases "Suc k < count_of sp b")
    case True
    then show ?thesis using head_specD(1) [OF spec False b] that(2) [of b k] b by simp
  next
    case last: False
    then have "Suc b \<noteq> Bnst_num sp" using phrasedD(4) [OF p b(1)] b False by auto
    moreover obtain t where "h = int t" "lands sp dp b t" using head_specD(2) [OF spec False b last] by blast
    ultimately show ?thesis using that(3) [of b t] b last by simp
  qed
qed

lemma heads_rooted:
  assumes p: "phrased sp" and r: "rooted (Bnst_num sp) (d_head dp)" and spec: "\<forall>j < Tag_num sp. head_spec sp dp j (H j)"
  shows "rooted (Tag_num sp) H"
proof -
  have n: "0 < Tag_num sp" using end_le_Tag_num [OF p, of 0] phrasedD(1) [OF p, of 0] p by (auto simp: phrased_def)
  have "H (Tag_num sp - 1) = -1" using spec n by (auto simp: head_spec_def)
  moreover have "int j < H j \<and> H j < int (Tag_num sp)" if j: "j < Tag_num sp - 1" for j
  proof -
    have jT: "j < Tag_num sp" using j by simp
    show ?thesis
    proof (rule heads_cases [OF p jT spec [rule_format, OF jT]])
      fix b t assume "Suc b < Bnst_num sp" "j + 1 = first_of sp b + count_of sp b" "H j = int t" "lands sp dp b t"
      then show ?thesis using lands_in [OF p r, of b t] by (metis Suc_eq_plus1 Suc_le_lessD of_nat_less_iff)
    qed (use j in auto)
  qed
  ultimately show ?thesis by (simp add: rooted_def)
qed

text \<open>
  C6. The base phrases get a tree that refines the tree of the bunsetsu: its root is the last base phrase, a base
  phrase that is not the last one of its bunsetsu depends on the next one, and the last one of a bunsetsu depends
  on a base phrase of the head of the bunsetsu.
\<close>

theorem dpnd_info_to_tag_tree:
  assumes "dpnd_info_to_tag_raw H Language dp sp = Some sp'" and "phrased sp" and "rooted (Bnst_num sp) (d_head dp)"
  shows "phrased sp' \<and> rooted (Tag_num sp) (tag_head sp') \<and>
    (\<forall>b < Bnst_num sp. \<forall>k. Suc k < count_of sp b \<longrightarrow> tag_head sp' (first_of sp b + k) = int (first_of sp b + k) + 1) \<and>
    (\<forall>b < Bnst_num sp - 1. \<exists>k < count_of sp (nat (d_head dp b)).
       tag_head sp' (first_of sp b + count_of sp b - 1) = int (first_of sp (nat (d_head dp b)) + k))"
proof -
  note p = assms(2) and r = assms(3)
  have f: "frame sp' = frame sp" and spec: "\<forall>j < Tag_num sp. head_spec sp dp j (tag_head sp' j)"
    using heads_result [OF assms] by simp_all
  have inner: "tag_head sp' (first_of sp b + k) = int (first_of sp b + k) + 1" if b: "b < Bnst_num sp" "Suc k < count_of sp b" for b k
  proof -
    have j: "first_of sp b + k < Tag_num sp - 1" using end_le_Tag_num [OF p b(1)] b(2) by simp
    show ?thesis using head_specD(1) [of sp dp "first_of sp b + k", OF _ _ b(1) _ refl b(2)] spec j b(2) by simp
  qed
  have last: "\<exists>k < count_of sp (nat (d_head dp b)). tag_head sp' (first_of sp b + count_of sp b - 1) = int (first_of sp (nat (d_head dp b)) + k)"
    if b: "b < Bnst_num sp - 1" for b
  proof -
    have b': "b < Bnst_num sp" "Suc b < Bnst_num sp" and c: "0 < count_of sp b" using b phrasedD(1) [OF p, of b] by auto
    let ?j = "first_of sp b + (count_of sp b - 1)"
    have "?j < Tag_num sp" "?j \<noteq> Tag_num sp - 1"
      using end_le_first [OF p lessI b'(2)] end_le_Tag_num [OF p b'(2)] phrasedD(1) [OF p b'(2)] c by linarith+
    then obtain t where t: "tag_head sp' ?j = int t" "lands sp dp b t"
      using head_specD(2) [of sp dp ?j "tag_head sp' ?j", OF _ _ b'(1) _ refl] spec c by auto
    obtain d m where "d = nat (d_head dp b)" "m < count_of sp d" "t = first_of sp d + m" using lands_in [OF p r b'(2) t(2)] by metis
    then show ?thesis using t(1) c by auto
  qed
  show ?thesis using frame_phrased [OF f p] heads_rooted [OF p r spec] inner last by blast
qed

text \<open>
  C16. Without a bunsetsu that ignores the wishes of its head, the tree of the base phrases has no crossing dependencies
  when the tree of the bunsetsu has none.
\<close>

theorem dpnd_info_to_tag_projective:
  assumes "dpnd_info_to_tag_raw H Language dp sp = Some sp'" and "phrased sp" and "projective (Bnst_num sp) (d_head dp)"
    and "\<forall>b < Bnst_num sp. check_feature (bnst_f sp b) s_tag_uke_mushi = None"
  shows "projective (Tag_num sp) (tag_head sp')"
proof -
  note p = assms(2)
  have r: "rooted (Bnst_num sp) (d_head dp)" using assms(3) by (simp add: projective_def)
  have spec: "\<forall>j < Tag_num sp. head_spec sp dp j (tag_head sp' j)" using heads_result [OF assms(1) p r] by simp
  have "tag_head sp' j \<le> tag_head sp' i" if ij: "i < j" "j < Tag_num sp" "int j < tag_head sp' i" for i j
  proof -
    have iT: "i < Tag_num sp" using ij by simp
    from p iT spec [rule_format, OF iT] obtain b t where b: "Suc b < Bnst_num sp" "i + 1 = first_of sp b + count_of sp b"
      "tag_head sp' i = int t" "lands sp dp b t"
      by (rule heads_cases) (use ij in auto)
    obtain h m where h: "h = nat (d_head dp b)" "d_head dp b = int h" "b < h" "h < Bnst_num sp" "m < count_of sp h" "t = first_of sp h + m"
      using lands_in [OF p r b(1,4)] by metis
    have jt: "j < t" using ij b by simp
    from p ij(2) spec [rule_format, OF ij(2)] show ?thesis
    proof (cases rule: heads_cases)
      case last
      then show ?thesis using b(3) by simp
    next
      case inner
      then show ?thesis using b(3) jt by simp
    next
      case (final c u)
      have c: "c < Bnst_num sp" "0 < count_of sp c" using final(1) phrasedD(1) [OF p, of c] by auto
      have j: "j = first_of sp c + (count_of sp c - 1)" using final(2) c(2) by simp
      have cb: "b < c"
      proof (rule ccontr)
        assume "\<not> b < c"
        then have "first_of sp c + count_of sp c \<le> first_of sp b + count_of sp b"
          using end_le_first [OF p, of c b] b(1) by (cases "b = c") auto
        then show False using final(2) b(2) ij(1) by simp
      qed
      have ch: "c < h"
        using same_bnst(2) [OF p c(1) h(4) _ h(5), of "count_of sp c - 1"] c(2) jt j h(5,6) by auto
      obtain h2 m2 where h2: "h2 = nat (d_head dp c)" "d_head dp c = int h2" "h2 < Bnst_num sp" "m2 < count_of sp h2" "u = first_of sp h2 + m2"
        using lands_in [OF p r final(1,4)] by metis
      have "d_head dp c \<le> d_head dp b" using assms(3) [unfolded projective_def, THEN conjunct2, rule_format, of b c] cb ch h(2) c(1) by simp
      then consider "h2 < h" | "h2 = h" using h(2) h2(2) by linarith
      then have "u \<le> t"
      proof cases
        case 1
        then show ?thesis using end_le_first [OF p _ h(4), of h2] h2(4,5) h(6) by simp
      next
        case 2
        have "int u \<le> int (first_of sp h + count_of sp h) - 1 + wanted sp h" "int t = int (first_of sp h + count_of sp h) - 1 + wanted sp h"
          using final(4) b(4) assms(4) c(1) b(1) 2 h(1) h2(1) cb ch by (auto simp: lands_def Let_def)
        then show ?thesis by linarith
      qed
      then show ?thesis using b(3) final(3) by simp
    qed
  qed
  then show ?thesis using heads_rooted [OF p r spec] by (auto simp: projective_def)
qed

section \<open>Where the grouping comes from\<close>

lemma run_to_mark:
  assumes "j < e" "e \<le> n" and "\<forall>x. j < x \<and> x < e \<longrightarrow> \<not> P x" and "e < n \<longrightarrow> P e"
  shows "j + Suc (run P j n) = e"
proof -
  have "[Suc j..<n] = [Suc j..<e] @ [e..<n]" using assms(1,2) upt_add_eq_append [of "Suc j" e "n - e"] by simp
  moreover have "takeWhile (\<lambda>x. \<not> P x) [e..<n] = []" using assms(4) by (cases "e < n") (simp_all add: upt_conv_Cons)
  moreover have "takeWhile (\<lambda>x. \<not> P x) ([Suc j..<e] @ [e..<n]) = [Suc j..<e] @ takeWhile (\<lambda>x. \<not> P x) [e..<n]"
    using assms(3) by (intro takeWhile_append2) auto
  ultimately show ?thesis using assms(1) by (simp add: run_def)
qed

lemma base_phrases_phrased:
  assumes G: "grouped P n sp" and B: "base_phrases P Q n sp" and PQ: "\<And>j. P j \<Longrightarrow> Q j" and n: "P 0" "0 < n"
    and len: "Tag_num sp \<le> length (tag_data sp)"
  shows "phrased sp"
proof -
  have N: "Bnst_num sp = cnt P n" "cnt P n \<le> length (bnst_data sp)" "Tag_num sp = cnt Q n"
    using G B by (simp_all add: grouped_def base_phrases_def)
  have pos: "0 < cnt P n" using cnt_less [of 0 n P] n by simp
  have first0: "first_of sp 0 = 0" using B n by (force simp: base_phrases_def)
  have "0 < count_of sp b \<and> first_of sp b + count_of sp b = (if Suc b < Bnst_num sp then first_of sp (Suc b) else Tag_num sp) \<and>
      (\<forall>k < count_of sp b. tag_fits sp b k)" if b: "b < Bnst_num sp" for b
  proof -
    obtain j where j: "j < n" "P j" "cnt P j = b" using cnt_surj [of b P n] b N by auto
    define e where "e = j + Suc (run P j n)"
    have e: "e \<le> n" "e < n \<longrightarrow> P e" "cnt P e = Suc b" "j < e" using next_mark [of j n P] j by (simp_all add: e_def)
    have first: "first_of sp b = cnt Q j" and count: "count_of sp b = cnt Q e - cnt Q j"
      using G B j by (auto simp: grouped_def base_phrases_def e_def)
    have less: "cnt Q j < cnt Q e" using cnt_less [of j e Q] e(4) PQ [OF j(2)] by blast
    have no_P: "\<not> P x" if x: "j < x" "x < e" for x
      using cnt_less [of j x P] cnt_less [of x e P] x e(3) j by auto
    have to: "cnt Q e = (if Suc b < Bnst_num sp then first_of sp (Suc b) else Tag_num sp)"
    proof (cases "e < n")
      case True
      then have "Suc b < Bnst_num sp" using cnt_less [of e n P] True e(2,3) N by simp
      moreover have "first_of sp (Suc b) = cnt Q e" using B True e by (auto simp: base_phrases_def)
      ultimately show ?thesis by simp
    next
      case False
      then show ?thesis using e N by simp
    qed
    have "tag_fits sp b k" if k: "k < count_of sp b" for k
    proof -
      have "cnt Q j + k < cnt Q e" using k count less by linarith
      then obtain i where i: "i < e" "Q i" "cnt Q i = cnt Q j + k" using cnt_surj [of "cnt Q j + k" Q e] by blast
      have ji: "j \<le> i" using cnt_less [of i j Q] i by (cases "i < j") auto
      have at: "place (tag_data sp ! cnt Q i) = tag_place P Q n i"
        using B [unfolded base_phrases_def, THEN conjunct2, THEN conjunct1, rule_format, of i] i(1,2) e(1) by simp
      have "P i \<longleftrightarrow> k = 0"
      proof
        assume "P i"
        then have "i = j" using no_P [of i] ji i(1) by (cases "j = i") auto
        then show "k = 0" using i(3) by simp
      next
        assume "k = 0"
        then have "i = j" using cnt_inj [of Q i j] i PQ [OF j(2)] by simp
        then show "P i" using j(2) by simp
      qed
      moreover have "cnt P (Suc i) = Suc b"
        using cnt_mono [of "Suc i" e P] cnt_mono [of "Suc j" "Suc i" P] i(1) ji e(3) j(2,3) by simp
      moreover have "i + Suc (run P i n) = e" by (rule run_to_mark) (use i ji e no_P in auto)
      moreover have "P i \<Longrightarrow> cnt P i = b" using calculation(2) by simp
      ultimately show ?thesis
        using at i(3) first count k by (auto simp: place_def tag_place_def tag_fits_def Let_def)
    qed
    then show ?thesis using first count less to by simp
  qed
  then show ?thesis using N pos len first0 by (simp add: phrased_def)
qed

lemma shape_frame:
  assumes "shape sp' = shape sp" shows "frame sp' = frame sp"
proof -
  have "map ((\<lambda>((n, _), (b, i, p), _). (n, b, i, p)) \<circ> tag_shape) (tag_data sp') = map ((\<lambda>((n, _), (b, i, p), _). (n, b, i, p)) \<circ> tag_shape) (tag_data sp)"
    "map ((\<lambda>(_, (p, n), _). (p, n)) \<circ> bnst_shape) (bnst_data sp') = map ((\<lambda>(_, (p, n), _). (p, n)) \<circ> bnst_shape) (bnst_data sp)"
    using assms by (simp_all only: map_map [symmetric] shape_def prod.inject)
  then show ?thesis using assms by (simp add: frame_def shape_def comp_def tag_shape_def bnst_shape_def)
qed

text \<open>
  C20. From the segmentation on every sentence is well formed: the bunsetsu divide the base phrases among
  themselves, and no rules of any kind change that.
\<close>

theorem phrases_well_formed:
  assumes "make_tag_units sp = Some (a_sp a)" and "grouped P (length (mrph_data sp)) sp" and "P 0"
    and "assign_general_feature R s len flag also temp gs a = Some (gs', a')"
  shows "phrased (a_sp a')"
proof -
  let ?n = "length (mrph_data sp)"
  define Q where "Q = (\<lambda>j. P j \<or> check_feature (mrph_f sp j) s_tag_shi \<noteq> None)"
  have units: "base_phrases P Q ?n (a_sp a)" "grouped P ?n (a_sp a)" and len: "Tag_num (a_sp a) \<le> length (tag_data (a_sp a))"
    using make_tag_units_groups [OF assms(1-3)] by (simp_all add: Q_def)
  have "0 < ?n" using assms(1) by (cases "mrph_data sp") (auto simp: make_tag_units_def)
  then have "phrased (a_sp a)"
    by (intro base_phrases_phrased [OF units(2,1) _ assms(3) _ len]) (simp_all add: Q_def)
  moreover have "shape (a_sp a') = shape (a_sp a)" by (rule grouping.assign_general_feature [OF assms(4) refl])
  ultimately show ?thesis using frame_phrased [OF shape_frame] by blast
qed

section \<open>Examples\<close>

definition sample_head_env :: HEAD_ENV where
  "sample_head_env = \<lparr>r_env = sample_rule_env, Mrph2idExist = False, mrph2id_db = (\<lambda>_. None), cf_examples = (\<lambda>_. None),
     OptSemanticHead = False\<rparr>"

text \<open>
  Three bunsetsu in a row, the second of two base phrases that wants its dependants on the first of them: the
  first two bunsetsu depend on the next one.
\<close>

definition sample_phrases :: SENTENCE_DATA where
  "sample_phrases =
     the (Option.bind
       (make_bunsetsu ((sample_sentence (replicate 3 []))
          \<lparr>mrph_data := map (\<lambda>f. sample_mrph ''ab'' f) [[s_bunsetsu_shi], [s_bunsetsu_shi], [s_tag_shi], [s_bunsetsu_shi]]\<rparr>))
       (\<lambda>sp. make_tag_units (set_f (BnstP 1) [s_tag_uke_c @ ''-1''] sp)))"

definition sample_dpnd :: DPND where
  "sample_dpnd = (init_dpnd sample_phrases)\<lparr>d_head := (\<lambda>i. if i < 2 then int i + 1 else -1), d_type := (\<lambda>_. CHR ''D'')\<rparr>"

lemma phrased_sample: "phrased sample_phrases"
proof -
  have "list_all (\<lambda>b. 0 < count_of sample_phrases b \<and>
        first_of sample_phrases b + count_of sample_phrases b = (if Suc b < 3 then first_of sample_phrases (Suc b) else Tag_num sample_phrases) \<and>
        list_all (tag_fits sample_phrases b) [0..<count_of sample_phrases b]) [0..<3]"
    "Bnst_num sample_phrases = 3" "Bnst_num sample_phrases \<le> length (bnst_data sample_phrases)"
    "Tag_num sample_phrases \<le> length (tag_data sample_phrases)" "first_of sample_phrases 0 = 0"
    by code_simp+
  then show ?thesis by (simp add: phrased_def list_all_iff)
qed

lemma rooted_sample: "projective (Bnst_num sample_phrases) (d_head sample_dpnd)"
proof -
  have "Bnst_num sample_phrases = 3" by code_simp
  then show ?thesis by (auto simp: projective_def rooted_def sample_dpnd_def)
qed

theorem dpnd_info_to_tag_tree_witness:
  "\<exists>sp'. dpnd_info_to_tag_raw sample_head_env JAPANESE sample_dpnd sample_phrases = Some sp' \<and>
     map n_dpnd_head (take 4 (tag_data sp')) = [1, 2, 3, -1] \<and> rooted 4 (tag_head sp')"
proof -
  have n: "Tag_num sample_phrases = 4" by code_simp
  have "map_option (\<lambda>sp'. map n_dpnd_head (take 4 (tag_data sp')))
      (dpnd_info_to_tag_raw sample_head_env JAPANESE sample_dpnd sample_phrases) = Some [1, 2, 3, -1]" by code_simp
  then obtain sp' where run: "dpnd_info_to_tag_raw sample_head_env JAPANESE sample_dpnd sample_phrases = Some sp'"
    and heads: "map n_dpnd_head (take 4 (tag_data sp')) = [1, 2, 3, -1]" by auto
  have "rooted (Bnst_num sample_phrases) (d_head sample_dpnd)" using rooted_sample by (simp add: projective_def)
  then show ?thesis using dpnd_info_to_tag_tree [OF run phrased_sample] run heads n by auto
qed

theorem dpnd_info_to_tag_projective_witness:
  "\<exists>sp'. dpnd_info_to_tag_raw sample_head_env JAPANESE sample_dpnd sample_phrases = Some sp' \<and> projective 4 (tag_head sp')"
proof -
  have n: "Tag_num sample_phrases = 4" "Bnst_num sample_phrases = 3" by code_simp+
  have "dpnd_info_to_tag_raw sample_head_env JAPANESE sample_dpnd sample_phrases \<noteq> None" by code_simp
  then obtain sp' where run: "dpnd_info_to_tag_raw sample_head_env JAPANESE sample_dpnd sample_phrases = Some sp'" by auto
  have "list_all (\<lambda>b. check_feature (bnst_f sample_phrases b) s_tag_uke_mushi = None) [0..<3]" by code_simp
  then have "\<forall>b < Bnst_num sample_phrases. check_feature (bnst_f sample_phrases b) s_tag_uke_mushi = None"
    unfolding n by (simp only: list_all_iff) simp
  then show ?thesis using dpnd_info_to_tag_projective [OF run phrased_sample rooted_sample] run n by auto
qed

text \<open>A rule that gives every morpheme a feature, applied to the sentence with the marks.\<close>

definition sample_grouped :: ASG where
  "sample_grouped = (sample_asg [])\<lparr>a_sp := the (Option.bind (make_bunsetsu sample_marks) make_tag_units)\<rparr>"

theorem phrases_well_formed_witness:
  "\<exists>gs' a'. assign_general_feature sample_rule_env 0 4 MorphRuleType False False
       [\<lparr>RuleArray = MrphRules [Knp_Apply.sample_rule MAT_FLG [''new'']], gr_type = MorphRuleType, gr_mode = RLOOP_MRM,
         gr_breakmode = RLOOP_BREAK_NONE, gr_direction = LtoR\<rparr>] sample_grouped = Some (gs', a') \<and>
     \<not> list_all (\<lambda>m. ''new'' \<notin> set (m_f m)) (mrph_data (a_sp a')) \<and> phrased (a_sp a')"
proof -
  let ?gs = "[\<lparr>RuleArray = MrphRules [Knp_Apply.sample_rule MAT_FLG [''new'']], gr_type = MorphRuleType, gr_mode = RLOOP_MRM,
         gr_breakmode = RLOOP_BREAK_NONE, gr_direction = LtoR\<rparr>]"
  let ?sp = "the (make_bunsetsu sample_marks)"
  have "make_tag_units ?sp \<noteq> None" "a_sp sample_grouped = the (make_tag_units ?sp)" by code_simp+
  then have units: "make_tag_units ?sp = Some (a_sp sample_grouped)" by auto
  have "map_option (\<lambda>(gs, a). list_all (\<lambda>m. ''new'' \<notin> set (m_f m)) (mrph_data (a_sp a)))
      (assign_general_feature sample_rule_env 0 4 MorphRuleType False False ?gs sample_grouped) = Some False" by code_simp
  then obtain gs' a' where run: "assign_general_feature sample_rule_env 0 4 MorphRuleType False False ?gs sample_grouped = Some (gs', a')"
    and new: "\<not> list_all (\<lambda>m. ''new'' \<notin> set (m_f m)) (mrph_data (a_sp a'))" by auto
  have "phrased (a_sp a')" by (rule phrases_well_formed [OF units grouped_sample_marks _ run]) simp
  then show ?thesis using run new by blast
qed

end
