(* ===== verification/Knp_Similar.thy ===== *)
theory Knp_Similar
  imports Knp_Heads Knp_Scope
begin

text \<open>
  The similarity of two bunsetsu (\<open>src/system/bnst_compare.c\<close>, with \<open>thesaurus.c\<close> and \<open>lib_sm.c\<close>), on
  which the search for the scopes of coordinations rests: the comparison of the words of a thesaurus, the score
  of a pair for all languages but Chinese, and the matrix of the scores.

  Floating point numbers are a type parameter with the operations that the code applies to them. The distributional
  similarity of two words comes from a table outside the program.
\<close>

section \<open>The model\<close>

text \<open>Decimal literals, arithmetic in double precision, rounding to single precision, the cast to an integer.\<close>

record 'f SIM_FLOAT =
  sf_lit :: "int \<Rightarrow> nat \<Rightarrow> 'f"
  sf_sub :: "'f \<Rightarrow> 'f \<Rightarrow> 'f"
  sf_mul :: "'f \<Rightarrow> 'f \<Rightarrow> 'f"
  sf_div :: "'f \<Rightarrow> 'f \<Rightarrow> 'f"
  sf_less :: "'f \<Rightarrow> 'f \<Rightarrow> bool"
  sf_single :: "'f \<Rightarrow> 'f"
  sf_trunc :: "'f \<Rightarrow> int"

abbreviation sf_int :: "'f SIM_FLOAT \<Rightarrow> int \<Rightarrow> 'f" where
  "sf_int F n \<equiv> sf_lit F n 0"

text \<open>The thesaurus for coordinations; a further one has codes of columns whose widths are listed.\<close>

datatype para_thesaurus = PARA_NONE | PARA_DISTSIM | PARA_BGH | PARA_NTT | PARA_OTHER "nat list"

record 'f SIM_ENV =
  head_env :: HEAD_ENV
  ParaThesaurus :: para_thesaurus
  CfUseId :: bool
  distsim :: "string \<Rightarrow> string \<Rightarrow> 'f"

abbreviation sim_env :: "'f SIM_ENV \<Rightarrow> ENV" where
  "sim_env S \<equiv> env (r_env (head_env S))"

subsection \<open>Codes of a thesaurus\<close>

fun code_depth_loop :: "string \<Rightarrow> nat \<Rightarrow> nat list \<Rightarrow> nat option" where
  "code_depth_loop cp code_size [] = Some (code_size - 1)"
| "code_depth_loop cp code_size (i # js) =
     do { c \<leftarrow> char_at cp i; if c = CHR ''*'' then Some (i - 1) else code_depth_loop cp code_size js }"

definition code_depth :: "string \<Rightarrow> nat \<Rightarrow> nat option" where
  "code_depth cp code_size = code_depth_loop cp code_size [1..<code_size]"

definition depth_ratio :: "'f SIM_FLOAT \<Rightarrow> nat \<Rightarrow> nat \<Rightarrow> nat \<Rightarrow> 'f" where
  "depth_ratio F l d1 d2 =
     sf_single F (sf_div F (sf_single F (sf_mul F (sf_int F 2) (sf_int F (int l)))) (sf_int F (int (d1 + d2))))"

fun common_columns :: "string \<Rightarrow> string \<Rightarrow> nat \<Rightarrow> nat list \<Rightarrow> nat option option" where
  "common_columns c1 c2 l [] = Some None"
| "common_columns c1 c2 l (w # ws) =
     (if length c1 < l \<or> length c2 < l then None
      else if take w (drop l c1) \<noteq> take w (drop l c2) then Some (Some l)
      else common_columns c1 c2 (l + w) ws)"

definition general_code_match :: "'f SIM_FLOAT \<Rightarrow> nat list \<Rightarrow> string \<Rightarrow> string \<Rightarrow> 'f option" where
  "general_code_match F widths c1 c2 =
     do { d1 \<leftarrow> code_depth c1 (sum_list widths); d2 \<leftarrow> code_depth c2 (sum_list widths);
          if d1 + d2 = 0 \<or> min d1 d2 = 0 then Some (sf_int F 0)
          else do { l \<leftarrow> common_columns c1 c2 0 widths;
                    Some (depth_ratio F (case l of Some k \<Rightarrow> k | None \<Rightarrow> min d1 d2) d1 d2) } }"

fun ntt_columns :: "string \<Rightarrow> string \<Rightarrow> nat \<Rightarrow> nat list \<Rightarrow> nat option" where
  "ntt_columns c1 c2 m [] = Some m"
| "ntt_columns c1 c2 m (i # js) =
     do { x \<leftarrow> char_at c1 i; y \<leftarrow> char_at c2 i; if x \<noteq> y then Some (i - 1) else ntt_columns c1 c2 m js }"

definition ntt_code_match_one :: "'f SIM_FLOAT \<Rightarrow> string \<Rightarrow> string \<Rightarrow> 'f option" where
  "ntt_code_match_one F c1 c2 =
     do { x \<leftarrow> char_at c1 0; y \<leftarrow> char_at c2 0;
          if (x = CHR ''2'') \<noteq> (y = CHR ''2'') then Some (sf_int F 0)
          else do { d1 \<leftarrow> code_depth c1 SM_CODE_SIZE; d2 \<leftarrow> code_depth c2 SM_CODE_SIZE;
                    if d1 + d2 = 0 \<or> min d1 d2 = 0 then Some (sf_int F 0)
                    else map_option (\<lambda>l. depth_ratio F l d1 d2) (ntt_columns c1 c2 (min d1 d2) [1..<Suc (min d1 d2)]) } }"

text \<open>
  The codes of ordinary nouns for a proper noun, the ones marked as side effects only with the flag; a null pointer
  when there is none.
\<close>

function smg_blocks :: "bool \<Rightarrow> string \<Rightarrow> string list option" where
  "smg_blocks flag cp =
     (if cp = [] then Some []
      else if length cp < SM_CODE_SIZE then None
      else let r = drop SM_CODE_SIZE cp in
           if starts r '' side-effect''
           then map_option (\<lambda>bs. if flag then take SM_CODE_SIZE cp # bs else bs)
                  (if starts (drop 12 r) ''/'' then smg_blocks flag (drop 13 r) else Some [])
           else if r = [] then Some [take SM_CODE_SIZE cp]
           else map_option (Cons (take SM_CODE_SIZE cp)) (smg_blocks flag (tl r)))"
  by pat_completeness auto
termination
  by (relation "measure (\<lambda>(_, cp). length cp)") (auto simp: SM_CODE_SIZE_def)

declare smg_blocks.simps [simp del]

definition smp2smg :: "ENV \<Rightarrow> string \<Rightarrow> bool \<Rightarrow> string list option option" where
  "smp2smg e cpd flag =
     (if \<not> SMP2SMGExist e then Some None
      else case smp2smg_db e (take SM_CODE_SIZE cpd) of
             None \<Rightarrow> Some None
           | Some code \<Rightarrow> map_option (\<lambda>bs. if bs = [] then None else Some bs) (smg_blocks flag code))"

text \<open>The greatest score of the pairs.\<close>

fun best_pair :: "'f SIM_FLOAT \<Rightarrow> (string \<Rightarrow> string \<Rightarrow> 'f option) \<Rightarrow> (string \<times> string) list \<Rightarrow> 'f \<Rightarrow> 'f option" where
  "best_pair F match [] mx = Some mx"
| "best_pair F match ((c1, c2) # ps) mx =
     do { point \<leftarrow> match c1 c2; best_pair F match ps (if sf_less F mx point then point else mx) }"

definition expand_code :: "ENV \<Rightarrow> string \<Rightarrow> string list option option" where
  "expand_code e c = do { x \<leftarrow> char_at c 0; if x = CHR ''2'' then smp2smg e c False else Some (Some [c]) }"

text \<open>With the flag \<open>SM_EXPAND_NE\<close>: proper nouns stand for ordinary ones.\<close>

definition ntt_code_match :: "'f SIM_FLOAT \<Rightarrow> ENV \<Rightarrow> string \<Rightarrow> string \<Rightarrow> 'f option" where
  "ntt_code_match F e c1 c2 =
     do { e1 \<leftarrow> expand_code e c1;
          case e1 of
            None \<Rightarrow> Some (sf_int F 0)
          | Some l1 \<Rightarrow>
              do { e2 \<leftarrow> expand_code e c2;
                   case e2 of
                     None \<Rightarrow> Some (sf_int F 0)
                   | Some l2 \<Rightarrow> best_pair F (ntt_code_match_one F) (List.product l1 l2) (sf_int F 0) } }"

text \<open>With the flag \<open>SM_EXPAND_NE_DATA\<close> only the second code, the one of the data, is replaced; other flags replace none.\<close>

definition ntt_code_match_data :: "'f SIM_FLOAT \<Rightarrow> ENV \<Rightarrow> string \<Rightarrow> string \<Rightarrow> 'f option" where
  "ntt_code_match_data F e c1 c2 =
     do { x \<leftarrow> char_at c1 0;
          if x = CHR ''2'' then ntt_code_match_one F c1 c2
          else do { e2 \<leftarrow> expand_code e c2;
                    case e2 of
                      None \<Rightarrow> Some (sf_int F 0)
                    | Some l2 \<Rightarrow> best_pair F (ntt_code_match_one F) (map (Pair c1) l2) (sf_int F 0) } }"

subsection \<open>Similarity by the thesaurus\<close>

definition sm_scale :: "'f SIM_FLOAT \<Rightarrow> 'f \<Rightarrow> 'f" where
  "sm_scale F x =
     sf_single F (sf_mul F (sf_div F (sf_mul F (sf_sub F x (sf_lit F 4 1)) (sf_int F (int BGH_CODE_SIZE - 2))) (sf_int F (int BGH_CODE_SIZE - 4)))
       (sf_int F (int BGH_CODE_SIZE)))"

definition sm_match :: "'f SIM_FLOAT \<Rightarrow> ENV \<Rightarrow> nat list option \<Rightarrow> NODE \<Rightarrow> NODE \<Rightarrow> int option" where
  "sm_match F e widths p1 p2 =
     (if n_SM_code p1 = [] \<or> n_SM_code p2 = [] then Some (-1)
      else do {
        let size = (case widths of None \<Rightarrow> SM_CODE_SIZE | Some ws \<Rightarrow> sum_list ws);
        b1 \<leftarrow> blocks size (n_SM_code p1); b2 \<leftarrow> blocks size (n_SM_code p2);
        mx \<leftarrow> best_pair F (case widths of None \<Rightarrow> ntt_code_match F e | Some ws \<Rightarrow> general_code_match F ws) (List.product b1 b2) (sf_int F 0);
        let s = sm_scale F mx;
        Some (if sf_less F s (sf_int F 0) then 0 else sf_trunc F s) })"

definition scaled_distsim :: "'f SIM_FLOAT \<Rightarrow> 'f \<Rightarrow> int" where
  "scaled_distsim F x =
     (let s = sf_mul F (sf_div F x (sf_lit F 100 2)) (sf_int F (int BGH_CODE_SIZE - 3))
      in if sf_less F s (sf_int F (int BGH_CODE_SIZE - 3)) then sf_trunc F s else int BGH_CODE_SIZE - 3)"

definition calc_distsim_from_bnst :: "'f SIM_FLOAT \<Rightarrow> 'f SIM_ENV \<Rightarrow> BNST_DATA \<Rightarrow> BNST_DATA \<Rightarrow> int option" where
  "calc_distsim_from_bnst F S p1 p2 =
     do { r1 \<leftarrow> get_bnst_head_canonical_rep p1 True; r2 \<leftarrow> get_bnst_head_canonical_rep p2 True;
          case (r1, r2) of
            (Some rep1, Some rep2) \<Rightarrow>
              (if has_feature (n_f p1) s_yougen \<or> has_feature (n_f p2) s_yougen then Some 0
               else if CfUseId S
               then do { id1 \<leftarrow> rep2id (head_env S) (Some rep1) (length rep1); id2 \<leftarrow> rep2id (head_env S) (Some rep2) (length rep2);
                         Some (if id1 \<noteq> [] \<and> id2 \<noteq> [] then scaled_distsim F (distsim S id1 id2) else -1) }
               else Some (scaled_distsim F (distsim S rep1 rep2)))
          | _ \<Rightarrow> Some (-1) }"

subsection \<open>Which bunsetsu are compared\<close>

definition comparable :: "FEATURE \<Rightarrow> FEATURE \<Rightarrow> bool" where
  "comparable f1 f2 \<longleftrightarrow>
     (case (check_feature f1 s_yougen, check_feature f2 s_yougen) of
        (Some cp1, Some cp2) \<Rightarrow> cp1 = s_yougen_han \<or> cp2 \<noteq> s_yougen_han \<or> \<not> has_feature f2 s_keifuku
      | _ \<Rightarrow> False) \<or>
     (has_feature f1 s_keiyou_gokan \<and> has_feature f2 s_yougen_kei) \<or>
     (has_feature f1 s_taigen \<and> has_feature f2 s_taigen) \<or>
     (has_feature f1 s_suuryou \<and> has_feature f2 s_suuryou) \<or>
     (has_feature f1 s_heiki_mei \<and> has_feature f1 s_ruiji_teki \<and> has_feature f2 s_ruiji_teki)"

definition kept_apart :: "FEATURE \<Rightarrow> FEATURE \<Rightarrow> bool" where
  "kept_apart f1 f2 \<longleftrightarrow>
     (has_feature f1 s_yougen_han \<and> \<not> has_feature f1 s_heiki_q \<and> has_feature f2 s_taigen \<and> \<not> has_feature f2 s_yougen_han) \<or>
     has_feature f1 s_tame_sei \<noteq> has_feature f2 s_tame_sei \<or>
     has_feature f1 s_fukugouji \<noteq> has_feature f2 s_fukugouji"

subsection \<open>Points for the content words\<close>

definition name_class :: "FEATURE \<Rightarrow> nat" where
  "name_class f =
     (if has_feature f s_jinmei then 0 else if has_feature f s_chimei then 1 else if has_feature f s_soshikimei then 2
      else if has_feature f s_suuryou then 3 else 5)"

text \<open>The points of two nominals, and whether their content words are compared.\<close>

definition nominal_points :: "FEATURE \<Rightarrow> FEATURE \<Rightarrow> int \<times> bool" where
  "nominal_points f1 f2 =
     (let flag1 = name_class f1; flag2 = name_class f2 in
      if flag1 = flag2 \<and> flag1 \<le> 2 then (5, False)
      else if flag1 \<le> 2 \<and> flag2 \<le> 2 then (2, False)
      else if flag1 = 3 \<and> flag2 = 3
      then (case check_feature f1 s_counter of
              None \<Rightarrow> (7, False)
            | Some c1 \<Rightarrow> (if check_feature f2 s_counter = Some c1 then 7 else 2, False))
      else (0, flag1 = 5 \<and> flag2 = 5))"

definition thesaurus_points :: "'f SIM_FLOAT \<Rightarrow> 'f SIM_ENV \<Rightarrow> BNST_DATA \<Rightarrow> BNST_DATA \<Rightarrow> int option" where
  "thesaurus_points F S p1 p2 =
     (case ParaThesaurus S of
        PARA_NONE \<Rightarrow> Some (-1)
      | PARA_DISTSIM \<Rightarrow> map_option (\<lambda>x. x * 2) (calc_distsim_from_bnst F S p1 p2)
      | PARA_BGH \<Rightarrow> map_option (\<lambda>x. x * 2) (bgh_match (NODE.truncate p1) (NODE.truncate p2))
      | PARA_NTT \<Rightarrow> map_option (\<lambda>x. x * 2) (sm_match F (sim_env S) None (NODE.truncate p1) (NODE.truncate p2))
      | PARA_OTHER ws \<Rightarrow> map_option (\<lambda>x. x * 2) (sm_match F (sim_env S) (Some ws) (NODE.truncate p1) (NODE.truncate p2)))"

definition damp_predicates :: "BNST_DATA \<Rightarrow> BNST_DATA \<Rightarrow> int \<Rightarrow> int" where
  "damp_predicates p1 p2 mt =
     (if has_feature (n_f p1) s_yougen \<and> has_feature (n_f p2) s_yougen
      then (let mt1 = (if b_Jiritu_Go p1 = s_suru \<or> b_Jiritu_Go p2 = s_suru then min mt 2 else mt)
            in if has_feature (n_f p1) s_keigo \<and> \<not> has_feature (n_f p2) s_keigo then min mt1 2 else mt1)
      else mt)"

definition content_points :: "'f SIM_FLOAT \<Rightarrow> 'f SIM_ENV \<Rightarrow> SENTENCE_DATA \<Rightarrow> BNST_DATA \<Rightarrow> BNST_DATA \<Rightarrow> int option" where
  "content_points F S sp p1 p2 =
     do { h1 \<leftarrow> n_head_ptr p1; m1 \<leftarrow> at (mrph_data sp) h1; h2 \<leftarrow> n_head_ptr p2; m2 \<leftarrow> at (mrph_data sp) h2;
          if m_Goi m1 = m_Goi m2 then Some 10
          else do { mt \<leftarrow> thesaurus_points F S p1 p2;
                    let mt' = damp_predicates p1 p2 mt;
                    Some (if mt' < 0
                          then min (if has_feature (n_f p1) s_taigen \<and> has_feature (n_f p2) s_taigen
                                    then int (str_part_cmp (m_Goi m1) (m_Goi m2)) else 0) 10
                          else min mt' 10) } }"

subsection \<open>Points for function words\<close>

text \<open>The words behind the head, from the end up to the first one that is no function word; suffixes do not count.\<close>

definition function_words :: "ENV \<Rightarrow> SENTENCE_DATA \<Rightarrow> BNST_DATA \<Rightarrow> string list option" where
  "function_words e sp b =
     do { h \<leftarrow> n_head_ptr b;
          if n_mrph_ptr b + n_mrph_num b \<le> length (mrph_data sp)
          then Some (map (\<lambda>k. m_Goi (mrph_data sp ! k))
                 (filter (\<lambda>k. Class_id e (m_Hinshi (mrph_data sp ! k)) 0 \<noteq> s_setsubiji)
                   (takeWhile (\<lambda>k. has_feature (mrph_f sp k) s_fuzoku \<and> h < k)
                     (rev [n_mrph_ptr b..<n_mrph_ptr b + n_mrph_num b]))))
          else None }"

definition function_word_points :: "string list \<Rightarrow> string list \<Rightarrow> int" where
  "function_word_points w1 w2 = 2 * int (length (filter (\<lambda>(g1, g2). g1 = g2) (List.product w1 w2)))"

definition either_way :: "FEATURE \<Rightarrow> FEATURE \<Rightarrow> string \<Rightarrow> string \<Rightarrow> bool" where
  "either_way f1 f2 a b \<longleftrightarrow> has_feature f1 a \<and> has_feature f2 b \<or> has_feature f1 b \<and> has_feature f2 a"

definition form_points :: "FEATURE \<Rightarrow> FEATURE \<Rightarrow> int" where
  "form_points f1 f2 =
     (if either_way f1 f2 s_v_reru s_v_rareru then 2 else 0) + (if either_way f1 f2 s_v_seru s_v_saseru then 2 else 0) +
     (if either_way f1 f2 s_v_nai s_v_nu then 2 else 0) + (if has_feature f1 s_tari \<and> has_feature f2 s_tari then 2 else 0) +
     (if has_feature f1 s_teidai \<and> has_feature f2 s_teidai then 3 else 0)"

definition shifted_points :: "SENTENCE_DATA \<Rightarrow> BNST_DATA \<Rightarrow> BNST_DATA \<Rightarrow> int option" where
  "shifted_points sp p1 p2 =
     do { suru \<leftarrow> jiritu_fuzoku_check sp (NODE.truncate p1) (NODE.truncate p2) s_suru;
          dekiru \<leftarrow> jiritu_fuzoku_check sp (NODE.truncate p1) (NODE.truncate p2) s_dekiru;
          kanji \<leftarrow> (if dekiru then Some True else jiritu_fuzoku_check sp (NODE.truncate p1) (NODE.truncate p2) s_dekiru_kanji);
          Some ((if suru then 1 else 0) + (if kanji then 3 else 0)) }"

subsection \<open>The score of a pair and the matrix\<close>

definition calc_match :: "'f SIM_FLOAT \<Rightarrow> 'f SIM_ENV \<Rightarrow> SENTENCE_DATA \<Rightarrow> nat \<Rightarrow> nat \<Rightarrow> int option" where
  "calc_match F S sp pre pos =
     do { p1 \<leftarrow> at (bnst_data sp) pre; p2 \<leftarrow> at (bnst_data sp) pos;
          let f1 = n_f p1;
          let f2 = n_f p2;
          if \<not> comparable f1 f2 \<or> kept_apart f1 f2 then Some 0
          else do {
            let (nominal, content_word_match) = (if has_feature f1 s_taigen \<and> has_feature f2 s_taigen then nominal_points f1 f2 else (0, True));
            content \<leftarrow> (if content_word_match then content_points F S sp p1 p2 else Some 0);
            w1 \<leftarrow> function_words (sim_env S) sp p1;
            w2 \<leftarrow> (if w1 = [] then Some [] else function_words (sim_env S) sp p2);
            shifted \<leftarrow> shifted_points sp p1 p2;
            Some (2 + nominal + content + function_word_points w1 w2 + form_points f1 f2 + shifted) } }"

definition match_cell :: "'f SIM_FLOAT \<Rightarrow> 'f SIM_ENV \<Rightarrow> bool \<Rightarrow> SENTENCE_DATA \<Rightarrow> nat \<Rightarrow> nat \<Rightarrow>
    bool \<times> int matrix \<Rightarrow> (bool \<times> int matrix) option" where
  "match_cell F S OptParaFix sp i j = (\<lambda>(calc_flag, M).
     if calc_flag
     then map_option (\<lambda>p. (OptParaFix \<or> has_feature (bnst_f sp i) s_yougen \<or> \<not> has_feature (bnst_f sp j) s_T_nahei_shuuten,
            set_cell i j p M)) (calc_match F S sp i j)
     else Some (False, set_cell i j 0 M))"

definition match_row :: "'f SIM_FLOAT \<Rightarrow> 'f SIM_ENV \<Rightarrow> bool \<Rightarrow> SENTENCE_DATA \<Rightarrow> nat \<Rightarrow> int matrix \<Rightarrow> int matrix option" where
  "match_row F S OptParaFix sp i M =
     map_option snd (fold_option (match_cell F S OptParaFix sp i) [Suc i..<Bnst_num sp] (True, M))"

definition calc_match_matrix :: "'f SIM_FLOAT \<Rightarrow> 'f SIM_ENV \<Rightarrow> bool \<Rightarrow> SENTENCE_DATA \<Rightarrow> int matrix \<Rightarrow> int matrix option" where
  "calc_match_matrix F S OptParaFix sp M = fold_option (match_row F S OptParaFix sp) [0..<Bnst_num sp] M"

section \<open>The score of a pair\<close>

lemma nominal_points_bounds: "fst (nominal_points f1 f2) \<in> {0..7} \<and> (snd (nominal_points f1 f2) \<longrightarrow> fst (nominal_points f1 f2) = 0)"
  by (simp add: nominal_points_def Let_def split: option.splits)

lemma content_points_bounds: "content_points F S sp p1 p2 = Some c \<Longrightarrow> 0 \<le> c \<and> c \<le> 10"
  by (auto simp: content_points_def Let_def bind_eq_Some_conv split: if_splits)

lemma function_words_length: "function_words e sp b = Some w \<Longrightarrow> length w \<le> n_mrph_num b"
proof -
  assume "function_words e sp b = Some w"
  then have "length w \<le> length [n_mrph_ptr b..<n_mrph_ptr b + n_mrph_num b]"
    by (auto simp: function_words_def bind_eq_Some_conv split: if_splits
        intro!: order_trans [OF length_filter_le] order_trans [OF length_takeWhile_le])
  then show ?thesis by simp
qed

lemma function_word_points_bounds:
  assumes "length w1 \<le> n1" and "length w2 \<le> n2"
  shows "0 \<le> function_word_points w1 w2 \<and> function_word_points w1 w2 \<le> 2 * int n1 * int n2"
proof -
  have "length (filter (\<lambda>(g1, g2). g1 = g2) (List.product w1 w2)) \<le> length w1 * length w2"
    using length_filter_le [of _ "List.product w1 w2"] by (simp add: length_product)
  also have "\<dots> \<le> n1 * n2" using assms by (rule mult_le_mono)
  finally have "length (filter (\<lambda>(g1, g2). g1 = g2) (List.product w1 w2)) \<le> n1 * n2" .
  then have "int (length (filter (\<lambda>(g1, g2). g1 = g2) (List.product w1 w2))) \<le> int n1 * int n2"
    by (simp only: of_nat_mult [symmetric] of_nat_le_iff)
  then show ?thesis by (simp add: function_word_points_def)
qed

lemma form_points_bounds: "0 \<le> form_points f1 f2 \<and> form_points f1 f2 \<le> 11"
  by (simp add: form_points_def)

lemma shifted_points_bounds: "shifted_points sp p1 p2 = Some c \<Longrightarrow> 0 \<le> c \<and> c \<le> 4"
  by (auto simp: shifted_points_def bind_eq_Some_conv split: if_splits)

lemma calc_match_zero:
  assumes "calc_match F S sp pre pos = Some p"
  shows "\<not> comparable (n_f (bnst_data sp ! pre)) (n_f (bnst_data sp ! pos)) \<or> kept_apart (n_f (bnst_data sp ! pre)) (n_f (bnst_data sp ! pos)) \<Longrightarrow> p = 0"
  using assms by (auto simp: calc_match_def bind_eq_Some_conv Let_def)

text \<open>
  The similarity of two bunsetsu is 0 exactly when they may not be compared, at least 2 otherwise, and grows
  beyond 27 only by the function words that the two have in common.
\<close>

theorem calc_match_bounds:
  assumes "calc_match F S sp pre pos = Some p"
  defines "b1 \<equiv> bnst_data sp ! pre" and "b2 \<equiv> bnst_data sp ! pos"
  shows "(p = 0 \<longleftrightarrow> \<not> comparable (n_f b1) (n_f b2) \<or> kept_apart (n_f b1) (n_f b2)) \<and> (p = 0 \<or> 2 \<le> p) \<and>
    p \<le> 27 + 2 * int (n_mrph_num b1) * int (n_mrph_num b2)"
proof (cases "\<not> comparable (n_f b1) (n_f b2) \<or> kept_apart (n_f b1) (n_f b2)")
  case True
  then show ?thesis using calc_match_zero [OF assms(1)] by (simp add: b1_def b2_def)
next
  case False
  then obtain content w1 w2 shifted where
    c: "(if snd (if has_feature (n_f b1) s_taigen \<and> has_feature (n_f b2) s_taigen then nominal_points (n_f b1) (n_f b2) else (0, True))
         then content_points F S sp b1 b2 else Some 0) = Some content"
    and w: "function_words (sim_env S) sp b1 = Some w1" "(if w1 = [] then Some [] else function_words (sim_env S) sp b2) = Some w2"
    and s: "shifted_points sp b1 b2 = Some shifted"
    and p: "p = 2 + fst (if has_feature (n_f b1) s_taigen \<and> has_feature (n_f b2) s_taigen then nominal_points (n_f b1) (n_f b2) else (0, True)) +
       content + function_word_points w1 w2 + form_points (n_f b1) (n_f b2) + shifted"
    using assms by (auto simp: calc_match_def bind_eq_Some_conv Let_def split_beta)
  let ?nom = "if has_feature (n_f b1) s_taigen \<and> has_feature (n_f b2) s_taigen then nominal_points (n_f b1) (n_f b2) else (0, True)"
  have nom: "fst ?nom \<in> {0..7}" "snd ?nom \<longrightarrow> fst ?nom = 0"
    using nominal_points_bounds [of "n_f b1" "n_f b2"] by simp_all
  have con: "0 \<le> content" "fst ?nom + content \<le> 10"
    using content_points_bounds [of F S sp b1 b2 content] c nom by (auto split: if_split_asm)
  have "length w1 \<le> n_mrph_num b1" "length w2 \<le> n_mrph_num b2"
    using function_words_length [OF w(1)] w(2) function_words_length [of "sim_env S" sp b2 w2] by (auto split: if_splits)
  note fw = function_word_points_bounds [OF this]
  have "2 \<le> p" "p \<le> 27 + 2 * int (n_mrph_num b1) * int (n_mrph_num b2)"
    unfolding p using nom(1) con fw form_points_bounds [of "n_f b1" "n_f b2"] shifted_points_bounds [OF s] by auto
  then show ?thesis using False by simp
qed

section \<open>The matrix of the scores\<close>

text \<open>Whether a row is over before the column: behind the end of a nominal coordination, unless coordinations are fixed.\<close>

definition row_over :: "bool \<Rightarrow> SENTENCE_DATA \<Rightarrow> nat \<Rightarrow> nat \<Rightarrow> bool" where
  "row_over OptParaFix sp i j \<longleftrightarrow>
     \<not> OptParaFix \<and> \<not> has_feature (bnst_f sp i) s_yougen \<and> (\<exists>k. i < k \<and> k < j \<and> has_feature (bnst_f sp k) s_T_nahei_shuuten)"

definition row_filled :: "'f SIM_FLOAT \<Rightarrow> 'f SIM_ENV \<Rightarrow> bool \<Rightarrow> SENTENCE_DATA \<Rightarrow> nat \<Rightarrow> nat \<Rightarrow> int matrix \<Rightarrow> bool" where
  "row_filled F S OptParaFix sp i n M \<longleftrightarrow>
     (\<forall>j. i < j \<and> j < n \<longrightarrow> (if row_over OptParaFix sp i j then M i j = 0 else calc_match F S sp i j = Some (M i j)))"

lemma row_over_Suc:
  "row_over X sp i (Suc j) \<longleftrightarrow> row_over X sp i j \<or> (\<not> X \<and> \<not> has_feature (bnst_f sp i) s_yougen \<and> i < j \<and> has_feature (bnst_f sp j) s_T_nahei_shuuten)"
  by (auto simp: row_over_def less_Suc_eq)

lemma match_cell_step:
  assumes "match_cell F S X sp i j (flag, M) = Some (flag', M')" and "flag \<longleftrightarrow> \<not> row_over X sp i j" and "i < j" and "row_filled F S X sp i j M"
  shows "(flag' \<longleftrightarrow> \<not> row_over X sp i (Suc j)) \<and> row_filled F S X sp i (Suc j) M' \<and> (\<forall>a b. a \<noteq> i \<or> b \<le> i \<longrightarrow> M' a b = M a b)"
proof (cases flag)
  case True
  then obtain p where p: "calc_match F S sp i j = Some p" "M' = set_cell i j p M"
    "flag' \<longleftrightarrow> X \<or> has_feature (bnst_f sp i) s_yougen \<or> \<not> has_feature (bnst_f sp j) s_T_nahei_shuuten"
    using assms(1) by (auto simp: match_cell_def)
  then show ?thesis using assms(2-4) True by (auto simp: row_filled_def less_Suc_eq row_over_Suc set_cell_def)
next
  case False
  then show ?thesis using assms by (auto simp: match_cell_def row_filled_def less_Suc_eq row_over_Suc set_cell_def)
qed

lemma match_row_filled:
  assumes "match_row F S X sp i M = Some M'"
  shows "row_filled F S X sp i (Bnst_num sp) M' \<and> (\<forall>a b. a \<noteq> i \<or> b \<le> i \<longrightarrow> M' a b = M a b)"
proof -
  have "(flag \<longleftrightarrow> \<not> row_over X sp i (Suc i + n)) \<and> row_filled F S X sp i (Suc i + n) N \<and> (\<forall>a b. a \<noteq> i \<or> b \<le> i \<longrightarrow> N a b = M a b)"
    if "fold_option (match_cell F S X sp i) [Suc i..<Suc i + n] (True, M) = Some (flag, N)" for n flag N
    using that
  proof (induction n arbitrary: flag N)
    case 0
    then show ?case by (auto simp: row_over_def row_filled_def)
  next
    case (Suc n)
    then obtain f1 N1 where run: "fold_option (match_cell F S X sp i) [Suc i..<Suc i + n] (True, M) = Some (f1, N1)"
      and step: "match_cell F S X sp i (Suc i + n) (f1, N1) = Some (flag, N)"
      by (auto simp: fold_option_append bind_eq_Some_conv split: option.splits)
    note IH = Suc.IH [OF run]
    have "(flag \<longleftrightarrow> \<not> row_over X sp i (Suc (Suc i + n))) \<and> row_filled F S X sp i (Suc (Suc i + n)) N \<and>
        (\<forall>a b. a \<noteq> i \<or> b \<le> i \<longrightarrow> N a b = N1 a b)"
      by (rule match_cell_step [OF step]) (use IH in auto)
    then show ?case using IH by simp
  qed
  from this [of "Bnst_num sp - Suc i"] assms show ?thesis
    by (cases "Suc i \<le> Bnst_num sp") (auto simp: match_row_def row_filled_def)
qed

lemma calc_match_matrix_cells:
  assumes "calc_match_matrix F S OptParaFix sp M = Some M'" and "i < j" and "j < Bnst_num sp"
  shows "(if row_over OptParaFix sp i j then M' i j = 0 else calc_match F S sp i j = Some (M' i j)) \<and> (\<forall>a \<le> b. M' b a = M b a)"
proof -
  have "(\<forall>i < n. row_filled F S OptParaFix sp i (Bnst_num sp) N) \<and> (\<forall>b. \<forall>a \<le> b. N b a = M b a)"
    if "fold_option (match_row F S OptParaFix sp) [0..<n] M = Some N" for n N
    using that
  proof (induction n arbitrary: N)
    case (Suc n)
    then obtain N1 where run: "fold_option (match_row F S OptParaFix sp) [0..<n] M = Some N1" and step: "match_row F S OptParaFix sp n N1 = Some N"
      by (auto simp: fold_option_append bind_eq_Some_conv split: option.splits)
    have row: "row_filled F S OptParaFix sp n (Bnst_num sp) N" and keep: "\<And>a b. a \<noteq> n \<or> b \<le> n \<Longrightarrow> N a b = N1 a b"
      using match_row_filled [OF step] by blast+
    have "row_filled F S OptParaFix sp k (Bnst_num sp) N" if "k < n" for k
      using Suc.IH [OF run] keep [of k] that by (simp add: row_filled_def)
    then show ?case using row Suc.IH [OF run] keep by (auto simp: less_Suc_eq)
  qed simp
  from this [of "Bnst_num sp" M'] assms show ?thesis by (auto simp: calc_match_matrix_def row_filled_def)
qed


section \<open>The scopes that are found\<close>

lemma fold_keeps: "(\<And>x s. g (f x s) = g s) \<Longrightarrow> g (fold f xs s) = g s"
  by (induction xs arbitrary: s) simp_all

lemma set_restrict [simp]:
  "restrict_matrix (set_score i j v S) = restrict_matrix S" "restrict_matrix (set_prepos i j v S) = restrict_matrix S"
  "restrict_matrix (set_max i q v S) = restrict_matrix S"
  by (simp_all add: set_score_def set_prepos_def set_max_def)

lemma dp_search_scope_restrict: "restrict_matrix (dp_search_scope Language sp key iend jend S) = restrict_matrix S"
proof -
  have cell: "restrict_matrix (dp_cell Language sp key j i S) = restrict_matrix S" for i j and S :: "'a SCOPE"
    by (simp add: dp_cell_def Let_def)
  have first: "restrict_matrix (dp_first_column iend jend S) = restrict_matrix S" for S :: "'a SCOPE"
    unfolding dp_first_column_def by (subst fold_keeps) simp_all
  have row: "restrict_matrix (dp_last_row iend j S) = restrict_matrix S" for j and S :: "'a SCOPE" by (simp add: dp_last_row_def)
  have max: "restrict_matrix (dp_max Language iend j S) = restrict_matrix S" for j and S :: "'a SCOPE"
    unfolding dp_max_def by (subst fold_keeps [where g = "\<lambda>s. restrict_matrix (snd s)"])
      (auto simp: dp_max_step_def Let_def split: prod.splits)
  have "restrict_matrix (fold (dp_cell Language sp key j) xs S) = restrict_matrix S" for j xs and S :: "'a SCOPE"
    by (rule fold_keeps) (rule cell)
  then have "restrict_matrix (dp_column Language sp key iend jend j S) = restrict_matrix S" for j and S :: "'a SCOPE"
    by (simp add: dp_column_def max first row)
  then show ?thesis unfolding dp_search_scope_def by (rule fold_keeps)
qed

text \<open>A scope begins in a row and ends in a column that the restrictions allow, and the ends are similar.\<close>

definition scope_found :: "SENTENCE_DATA \<Rightarrow> nat \<Rightarrow> 'f SCOPE \<Rightarrow> 'f PARA_DATA \<Rightarrow> bool" where
  "scope_found sp iend S p \<longleftrightarrow>
     (\<exists>i j. max_path p 0 = int i \<and> i \<le> iend \<and> key_pos p < j \<and> j < Bnst_num sp \<and> j \<le> jend_pos p \<and>
        match_matrix S iend j \<noteq> 0 \<and> restrict_matrix S i j \<noteq> 0)"

definition same_scope :: "'f PARA_DATA \<Rightarrow> 'f PARA_DATA \<Rightarrow> bool" where
  "same_scope p p' \<longleftrightarrow> pd_status p' = pd_status p \<and> max_path p' = max_path p \<and> jend_pos p' = jend_pos p"

lemma scan_rows_pos:
  assumes "fold_option (scan_row F Language sp S p jend ending sim) (rev [0..<iend + 1]) b = Some b'" and "bs_pos b = -1"
  shows "bs_pos b' = -1 \<or> (\<exists>i \<le> iend. bs_pos b' = int i \<and> restrict_matrix S i jend \<noteq> 0)"
proof (rule fold_option_invariant [OF assms(1), where P = "\<lambda>b. bs_pos b = -1 \<or> (\<exists>i \<le> iend. bs_pos b = int i \<and> restrict_matrix S i jend \<noteq> 0)"])
  fix i c c' assume "i \<in> set (rev [0..<iend + 1])" "scan_row F Language sp S p jend ending sim i c = Some c'"
    "bs_pos c = -1 \<or> (\<exists>i \<le> iend. bs_pos c = int i \<and> restrict_matrix S i jend \<noteq> 0)"
  then show "bs_pos c' = -1 \<or> (\<exists>i \<le> iend. bs_pos c' = int i \<and> restrict_matrix S i jend \<noteq> 0)"
    by (auto simp: scan_row_def Let_def bind_eq_Some_conv split: if_splits)
qed (simp add: assms(2))

lemma detect_from_found:
  assumes run: "detect_para_scope_from F e Language sp n jend p S0 st = Some (p', S', st')"
    and b: "scope_bounds p = Some iend" and j: "key_pos p < jend" "jend < Bnst_num sp"
  shows "match_matrix S' = match_matrix S0 \<and> restrict_matrix S' = restrict_matrix S0 \<and> key_pos p' = key_pos p \<and> iend_pos p' = iend_pos p \<and>
    (same_scope p p' \<or> scope_found sp iend S0 p')"
proof -
  define S where "S = S0\<lparr>Para_matrix := (Para_matrix S0)(n :=
    (\<lambda>i j. if i \<le> iend \<and> j = jend then fl_int F (-2147483647) else Para_matrix S0 n i j))\<rparr>"
  have S: "match_matrix S = match_matrix S0" "restrict_matrix S = restrict_matrix S0" by (simp_all add: S_def)
  note run1 = run [unfolded detect_para_scope_from_def b Option.bind.simps Let_def, folded S_def]
  show ?thesis
  proof (cases "match_matrix S iend jend = 0 \<or> (\<forall>i\<in>{..iend}. restrict_matrix S i jend = 0) \<or>
      (key_pos p + 1 = jend \<and> has_feature (bnst_f sp jend) s_shijishi)")
    case True
    then show ?thesis using run1 S by (auto simp: same_scope_def split: if_splits)
  next
    case False
    then have n: "match_matrix S iend jend \<noteq> 0" "\<not> (\<forall>i\<in>{..iend}. restrict_matrix S i jend = 0)"
      "\<not> (key_pos p + 1 = jend \<and> has_feature (bnst_f sp jend) s_shijishi)" by blast+
    have m: "match_matrix S0 iend jend \<noteq> 0" using n(1) S by simp
    note run2 = run1 [unfolded if_not_P [OF n(1)] if_not_P [OF n(2)] if_not_P [OF n(3)]]
    obtain sim fps st1 where th: "(if pd_f_pattern p = [] \<or> hd (pd_f_pattern p) = [] then Some (fl_int F 0, pd_f_pattern p, st)
        else threshold_loop F e sp (key_pos p) jend (pd_f_pattern p) (fl_int F 100) None st) = Some (sim, fps, st1)"
      using run2 [unfolded bind_eq_Some_conv] by (elim exE conjE) (metis prod_cases3)
    note run3 = run2 [unfolded th Option.bind.simps prod.case]
    define p1 where "p1 = p\<lparr>pd_f_pattern := fps\<rparr>"
    define S1 where "S1 = dp_search_scope Language sp (key_pos p) iend jend S"
    have S1: "match_matrix S1 = match_matrix S0" "restrict_matrix S1 = restrict_matrix S0"
      by (simp_all add: S1_def dp_search_scope_restrict dp_search_scope_frame S)
    have p1: "key_pos p1 = key_pos p" "iend_pos p1 = iend_pos p" "same_scope p p1" by (simp_all add: p1_def same_scope_def)
    show ?thesis
    proof (cases "pd_f_pattern p \<noteq> [] \<and> hd (pd_f_pattern p) \<noteq> [] \<and> fl_eq F sim (fl_int F 100)")
      case True
      then have "p' = p1 \<and> S' = S" using run3 by (simp add: p1_def)
      then show ?thesis using p1 S by simp
    next
      case scan: False
      let ?start = "\<lparr>bs_max = ENOUGH_MINUS F, bs_pure = fl_int F 0, bs_pos = -1, bs_para = Para_matrix S1 n\<rparr>"
      obtain bs where rows: "fold_option (scan_row F Language sp S1 p1 jend (calc_ending_bonus_score sp jend p1) sim) (rev [0..<iend + 1]) ?start = Some bs"
        using run3 [unfolded if_not_P [OF scan]] by (auto simp: p1_def S1_def bind_eq_Some_conv simp del: upt_Suc)
      define S2 where "S2 = S1\<lparr>Para_matrix := (Para_matrix S1)(n := bs_para bs)\<rparr>"
      define enough where "enough = fl_le F sim (bs_pure bs)"
      define first where "first = (enough \<and> pd_status p1 = CHR ''x'')"
      define p2 where "p2 = (if first then p1\<lparr>pd_status := CHR ''n''\<rparr> else p1)"
      define flag where "flag = (first \<or> enough \<and> pd_status p1 = CHR ''n'' \<and> fl_less F (max_score p1) (bs_max bs) \<or>
          pd_status p1 = CHR ''x'' \<and> fl_less F (max_score p1) (bs_max bs))"
      have run4: "(if fl_less F (bs_max bs) (fl_int F 0) then Some (p1, S2, st1)
          else if flag
          then do { (path, jl) \<leftarrow> trace_path (prepos_matrix S2) (key_pos p) 0 ((max_path p2)(0 := bs_pos bs));
                    Some (p2\<lparr>max_score := bs_max bs, pure_score := bs_pure bs, max_path := path, jend_pos := jl\<rparr>, S2, st1) }
          else Some (p2, S2, st1)) = Some (p', S', st')"
        using run3 [unfolded if_not_P [OF scan], folded p1_def S1_def, unfolded rows Option.bind.simps, folded S2_def enough_def,
          folded first_def, folded p2_def flag_def] .
      have S2: "match_matrix S2 = match_matrix S0" "restrict_matrix S2 = restrict_matrix S0" "prepos_matrix S2 = prepos_matrix S1"
        by (simp_all add: S2_def S1)
      have p2: "key_pos p2 = key_pos p" "iend_pos p2 = iend_pos p" by (simp_all add: p2_def p1)
      consider (kept) "p' = p1" "S' = S2" | (old) "\<not> flag" "p' = p2" "S' = S2" | (found) path jl where
        "trace_path (prepos_matrix S2) (key_pos p) 0 ((max_path p2)(0 := bs_pos bs)) = Some (path, jl)"
        "p' = p2\<lparr>max_score := bs_max bs, pure_score := bs_pure bs, max_path := path, jend_pos := jl\<rparr>" "S' = S2"
      proof (cases "fl_less F (bs_max bs) (fl_int F 0)")
        case True
        show ?thesis using run4 [unfolded if_P [OF True]] by (intro kept) simp_all
      next
        case False
        note run5 = run4 [unfolded if_not_P [OF False]]
        show ?thesis
        proof (cases flag)
          case True
          then obtain path jl where "trace_path (prepos_matrix S2) (key_pos p) 0 ((max_path p2)(0 := bs_pos bs)) = Some (path, jl)"
            "p' = p2\<lparr>max_score := bs_max bs, pure_score := bs_pure bs, max_path := path, jend_pos := jl\<rparr>" "S' = S2"
            using run5 by (auto simp: bind_eq_Some_conv)
          then show ?thesis by (rule found)
        next
          case False
          show ?thesis using run5 [unfolded if_not_P [OF False]] False by (intro old) simp_all
        qed
      qed
      then show ?thesis
      proof cases
        case kept
        then show ?thesis using p1 S2 by simp
      next
        case old
        then have "p2 = p1" by (simp add: p2_def flag_def)
        then show ?thesis using old p1 S2 by simp
      next
        case found
        have "0 \<le> bs_pos bs" using found(1) by (subst (asm) trace_path.simps) (simp split: if_splits)
        then obtain i where i: "i \<le> iend" "bs_pos bs = int i" "restrict_matrix S0 i jend \<noteq> 0"
          using scan_rows_pos [OF rows] S1 by auto
        have t: "trace_path (prepos_matrix S1) (key_pos p) 0 ((max_path p2)(0 := int i)) = Some (path, jl)" using found(1) i(2) S2 by simp
        have "path 0 = int i" using trace_path_keeps [OF t] by simp
        moreover have "jend \<le> jl" using trace_path_end [OF j(1) i(1) S1_def t] .
        ultimately have "scope_found sp iend S0 p'" using found(2) i j m p2 by (auto simp: scope_found_def)
        then show ?thesis using found p2 S2 by simp
      qed
    qed
  qed
qed


section \<open>Examples\<close>

text \<open>Three nominals without a thesaurus; the second one may end a coordination. Numbers are integers here.\<close>

definition sample_sim_float :: "int SIM_FLOAT" where
  "sample_sim_float = \<lparr>sf_lit = (\<lambda>n _. n), sf_sub = (-), sf_mul = (*), sf_div = (div), sf_less = (<), sf_single = id, sf_trunc = id\<rparr>"

definition sample_sim_env :: "int SIM_ENV" where
  "sample_sim_env = \<lparr>head_env = sample_head_env, ParaThesaurus = PARA_NONE, CfUseId = False, distsim = (\<lambda>_ _. 0)\<rparr>"

definition sample_nominals :: SENTENCE_DATA where
  "sample_nominals =
     (let sp = set_f (BnstP 0) [s_taigen] (set_f (BnstP 1) [s_taigen, s_T_nahei_shuuten] (set_f (BnstP 2) [s_taigen] sample_phrases))
      in sp\<lparr>bnst_data := map (\<lambda>b. b\<lparr>n_head_ptr := Some (n_mrph_ptr b)\<rparr>) (bnst_data sp)\<rparr>)"

theorem calc_match_bounds_witness:
  "calc_match sample_sim_float sample_sim_env sample_nominals 0 1 = Some 12 \<and>
   comparable (n_f (bnst_data sample_nominals ! 0)) (n_f (bnst_data sample_nominals ! 1))"
proof -
  have run: "calc_match sample_sim_float sample_sim_env sample_nominals 0 1 = Some 12" by code_simp
  then show ?thesis using calc_match_bounds [OF run] by simp
qed


definition sample_key :: "int PARA_DATA" where
  "sample_key =
     \<lparr>para_char = CHR ''a'', pd_type = PARA_KEY_N, key_pos = 0, iend_pos = 0, jend_pos = 0, max_path = (\<lambda>_. 0),
      pd_f_pattern = [], max_score = 0, pure_score = 0, pd_status = CHR ''x'', manager_ptr = None\<rparr>"

definition no_quotes :: QUOTE_DATA where
  "no_quotes = \<lparr>in_num = (\<lambda>_. -1), out_num = (\<lambda>_. -1)\<rparr>"

definition sample_found :: "(int PARA_DATA \<times> int SCOPE) option" where
  "sample_found =
     do { M \<leftarrow> calc_match_matrix sample_sim_float sample_sim_env False sample_nominals (\<lambda>_ _. 0);
          (p, S, st) \<leftarrow> detect_para_scope sample_float sample_env JAPANESE False sample_nominals no_quotes 0 False sample_key
            ((sample_scope [])\<lparr>match_matrix := M\<rparr>) \<lparr>matched_ptr = None, cont_str = []\<rparr>;
          Some (p, S) }"


end
