(* ===== verification/Knp_Case.thy ===== *)
theory Knp_Case
  imports Knp_Similar
begin

text \<open>
  The assignment of the case elements of a predicate to the slots of a case frame (\<open>src/system/case_match.c\<close>, with
  the case codes of \<open>case_analysis.c\<close> and \<open>calc_similarity\<close> of \<open>thesaurus.c\<close>): the score of an element for a slot, the
  search over all assignments, their evaluation, and the list of the best ones.

  Case frames come from a database. The similarity of a word and a slot (\<open>calc_similarity_word_cf\<close>) and the
  probabilities of \<open>case_ipal.c\<close> rest on further databases; they are fields of \<open>CASE_ENV\<close>.
\<close>

section \<open>The model\<close>

text \<open>Numbers in double precision, with the operations that the code applies to them beyond those of \<open>SIM_FLOAT\<close>.\<close>

record 'f CASE_FLOAT = "'f SIM_FLOAT" +
  sf_add :: "'f \<Rightarrow> 'f \<Rightarrow> 'f"
  sf_le :: "'f \<Rightarrow> 'f \<Rightarrow> bool"
  sf_eq :: "'f \<Rightarrow> 'f \<Rightarrow> bool"
  sf_sqrt :: "'f \<Rightarrow> 'f"

abbreviation simf :: "'f CASE_FLOAT \<Rightarrow> 'f SIM_FLOAT" where
  "simf F \<equiv> SIM_FLOAT.truncate F"

abbreviation num :: "'f CASE_FLOAT \<Rightarrow> int \<Rightarrow> 'f" where
  "num F n \<equiv> sf_lit F n 0"

definition MAX_MATCH_MAX :: nat where "MAX_MATCH_MAX = 10"
definition UNASSIGNED :: int where "UNASSIGNED = -1"
definition NIL_ASSIGNED :: int where "NIL_ASSIGNED = -2"
definition MATCH_SUBJECT :: int where "MATCH_SUBJECT = -1"
definition MATCH_NONE :: int where "MATCH_NONE = -2"
definition NIL_ASSINED_SCORE :: int where "NIL_ASSINED_SCORE = -20"
definition CASE_MATCH_FAILURE_SCORE :: int where "CASE_MATCH_FAILURE_SCORE = -2"
definition CASE_MATCH_FAILURE_PROB :: int where "CASE_MATCH_FAILURE_PROB = -1001"

definition FREQ0_ASSINED_SCORE :: "'f CASE_FLOAT \<Rightarrow> 'f" where
  "FREQ0_ASSINED_SCORE F = sf_lit F (-13815511) 6"

datatype cf_mode = SEMANTIC_MARKER | EXAMPLE

text \<open>The elements of a frame by their numbers; the lists of cases end before \<open>END_M\<close>.\<close>

record CASE_FRAME =
  cf_type :: int
  element_num :: nat
  oblig :: "nat \<Rightarrow> bool"
  adjacent :: "nat \<Rightarrow> bool"
  pp :: "nat \<Rightarrow> int list"
  cf_sp :: "nat \<Rightarrow> int"
  cf_sm :: "nat \<Rightarrow> string option"
  cf_ex :: "nat \<Rightarrow> string option"
  weight :: "nat \<Rightarrow> int"
  samecase :: "(int \<times> int) list"

record 'f LIST =
  flag :: "nat \<Rightarrow> int"
  l_score :: "nat \<Rightarrow> 'f"
  l_pos :: "nat \<Rightarrow> int"

text \<open>A predicate with its elements; base phrases are numbers.\<close>

record CF_PRED_MGR =
  cf :: CASE_FRAME
  pred_b_ptr :: nat
  elem_b_ptr :: "nat \<Rightarrow> nat"
  elem_b_num :: "nat \<Rightarrow> int"

text \<open>
  Options, thresholds and databases. The probabilities depend on the elements and slots of the two frames (and on the
  coordinated predicate, which does not change during a search).
\<close>

record 'f CASE_ENV =
  c_env :: ENV
  UseProbability :: bool
  OptEllipsis :: bool
  SMExist :: bool
  SOTO_THRESHOLD :: int
  NOUN_THRESHOLD :: int
  word_similarity :: "TAG_DATA \<Rightarrow> CASE_FRAME \<Rightarrow> nat \<Rightarrow> int \<Rightarrow> 'f \<times> int"
  ex_probability :: "nat \<Rightarrow> CASE_FRAME \<Rightarrow> nat \<Rightarrow> CASE_FRAME \<Rightarrow> 'f"
  case_probability :: "nat \<Rightarrow> CASE_FRAME \<Rightarrow> bool \<Rightarrow> 'f"
  case_function_probability :: "nat \<Rightarrow> CASE_FRAME \<Rightarrow> nat \<Rightarrow> CASE_FRAME \<Rightarrow> 'f"
  nil_function_probability :: "nat \<Rightarrow> CASE_FRAME \<Rightarrow> CASE_FRAME \<Rightarrow> 'f"
  cf_probability :: "CASE_FRAME \<Rightarrow> CASE_FRAME \<Rightarrow> 'f"
  np_modifying_probability :: "nat \<Rightarrow> CASE_FRAME \<Rightarrow> 'f"
  case_probability_from_str :: "string \<Rightarrow> CASE_FRAME \<Rightarrow> 'f"
  topic_generating_probability :: "bool \<Rightarrow> nat \<Rightarrow> 'f"
  case_num_probability :: "CASE_FRAME \<Rightarrow> nat \<Rightarrow> 'f"

subsection \<open>Case codes\<close>

definition pp0 :: "int list \<Rightarrow> int" where
  "pp0 l = (case l of [] \<Rightarrow> END_M | c # _ \<Rightarrow> c)"

definition MatchPP :: "int \<Rightarrow> string \<Rightarrow> bool option" where
  "MatchPP n s = (if n < 0 then Some False else map_option (\<lambda>k. k = s) (pp_code_to_kstr n))"

fun MatchPP2 :: "int list \<Rightarrow> string \<Rightarrow> bool option" where
  "MatchPP2 [] s = Some False"
| "MatchPP2 (n # ns) s = do { k \<leftarrow> pp_code_to_kstr n; if k = s then Some True else MatchPP2 ns s }"

definition CF_MatchPP :: "int \<Rightarrow> CASE_FRAME \<Rightarrow> bool" where
  "CF_MatchPP c f \<longleftrightarrow> (\<exists>i < element_num f. c \<in> set (pp f i))"

definition check_same_case :: "int \<Rightarrow> int \<Rightarrow> CASE_FRAME \<Rightarrow> bool" where
  "check_same_case dp p f = ((min dp p, max dp p) \<in> set (samecase f))"

text \<open>An element that is not assigned yet has the flag -1, with which the code indexes the array.\<close>

fun adjacent_assigned :: "CASE_FRAME \<Rightarrow> CASE_FRAME \<Rightarrow> (nat \<Rightarrow> int) \<Rightarrow> nat list \<Rightarrow> bool option" where
  "adjacent_assigned cfd cfp fl [] = Some False"
| "adjacent_assigned cfd cfp fl (i # js) =
     (if adjacent cfd i \<and> fl i \<noteq> NIL_ASSIGNED
      then (if fl i < 0 then None else if adjacent cfp (nat (fl i)) then Some True else adjacent_assigned cfd cfp fl js)
      else adjacent_assigned cfd cfp fl js)"

definition check_adjacent_assigned :: "CASE_FRAME \<Rightarrow> CASE_FRAME \<Rightarrow> 'f LIST \<Rightarrow> bool option" where
  "check_adjacent_assigned cfd cfp l1 = adjacent_assigned cfd cfp (flag l1) [0..<element_num cfd]"

subsection \<open>Semantic markers\<close>

text \<open>\<^verbatim>\<open>!strncmp(a + start, b + start, len)\<close>\<close>

definition same_part :: "nat \<Rightarrow> nat \<Rightarrow> string \<Rightarrow> string \<Rightarrow> bool option" where
  "same_part start len a b =
     (if length a < start \<or> length b < start then None else Some (take len (drop start a) = take len (drop start b)))"

definition cf_match_codes :: "ENV \<Rightarrow> string \<Rightarrow> string \<Rightarrow> nat \<Rightarrow> nat \<Rightarrow> bool option" where
  "cf_match_codes e d p start len =
     (case Thesaurus e of
        USE_BGH \<Rightarrow> any_code BGH_CODE_SIZE (\<lambda>di. any_code BGH_CODE_SIZE (\<lambda>pj. same_part start len di pj) p) d
      | USE_NTT \<Rightarrow>
          any_code SM_CODE_SIZE (\<lambda>di.
            if hd di = CHR ''2''
            then do { smg \<leftarrow> smp2smg e di True;
                      case smg of
                        None \<Rightarrow> Some False
                      | Some bs \<Rightarrow> fold_option (\<lambda>b found. if found then Some True else same_part start len b p) bs False }
            else same_part start len di p) d
      | USE_NONE \<Rightarrow> Some False)"

definition code_size :: "ENV \<Rightarrow> nat option" where
  "code_size e = (case Thesaurus e of USE_BGH \<Rightarrow> Some BGH_CODE_SIZE | USE_NTT \<Rightarrow> Some SM_CODE_SIZE | USE_NONE \<Rightarrow> None)"

text \<open>Each lookup of a marker leaves its code in the static buffer, the last component of the results.\<close>

definition cf_match_element :: "ENV \<Rightarrow> string option \<Rightarrow> string \<Rightarrow> bool \<Rightarrow> string \<Rightarrow> (bool \<times> string) option" where
  "cf_match_element e d target exact buf =
     (case d of
        None \<Rightarrow> Some (False, buf)
      | Some d' \<Rightarrow>
          (let code = sm2code e buf target in
           if exact
           then map_option (\<lambda>b. (b, code)) (cf_match_codes e d' code 0 (case code_size e of Some n \<Rightarrow> n | None \<Rightarrow> 0))
           else do { sz \<leftarrow> code_size e; depth \<leftarrow> code_depth code sz;
                     map_option (\<lambda>b. (b, code)) (cf_match_codes e d' code 1 depth) }))"

definition cf_match_both_element :: "ENV \<Rightarrow> string option \<Rightarrow> string option \<Rightarrow> string \<Rightarrow> bool \<Rightarrow> string \<Rightarrow> (bool \<times> string) option" where
  "cf_match_both_element e d p target exact buf =
     (case p of
        None \<Rightarrow> Some (False, buf)
      | Some p' \<Rightarrow>
          do { sz \<leftarrow> code_size e;
               let code = sm2code e buf target;
               (start, len) \<leftarrow> (if exact \<or> Thesaurus e = USE_BGH then Some (0, sz) else map_option (Pair 1) (code_depth code sz));
               d' \<leftarrow> d;
               b \<leftarrow> cf_match_codes e d' code start len;
               if b then map_option (\<lambda>c. (c, code)) (cf_match_codes e p' code start len) else Some (False, code) })"

definition EX_match_score :: "int list" where "EX_match_score = [0, 0, 0, 1, 3, 5, 8, 11]"
definition SM_match_score :: "int list" where "SM_match_score = 0 # replicate 12 10"
definition SM_match_unknown :: int where "SM_match_unknown = 10"
definition EX_match_unknown :: int where "EX_match_unknown = 6"
definition EX_match_sentence :: int where "EX_match_sentence = 10"
definition EX_match_tim :: int where "EX_match_tim = 0"
definition EX_match_tim2 :: int where "EX_match_tim2 = 12"
definition EX_match_tim3 :: int where "EX_match_tim3 = 8"
definition EX_match_qua :: int where "EX_match_qua = 9"
definition EX_match_exact :: int where "EX_match_exact = 12"
definition EX_match_subject :: int where "EX_match_subject = 8"
definition EX_match_modification :: int where "EX_match_modification = 0"
definition EX_match_demonstrative :: int where "EX_match_demonstrative = 0"

definition elmnt_match_score_each_sm ::
  "ENV \<Rightarrow> CASE_FRAME \<Rightarrow> nat \<Rightarrow> CASE_FRAME \<Rightarrow> nat \<Rightarrow> string \<Rightarrow> (int \<times> string) option" where
  "elmnt_match_score_each_sm e cfd as1 cfp as2 buf =
     do { (hobun, buf) \<leftarrow> cf_match_both_element e (cf_sm cfd as1) (cf_sm cfp as2) s_sm_hobun True buf;
          if hobun then Some (EX_match_sentence, buf)
          else do {
            (jikan, buf) \<leftarrow> cf_match_both_element e (cf_sm cfd as1) (cf_sm cfp as2) s_jikan True buf;
            if jikan
            then do { t \<leftarrow> MatchPP (pp0 (pp cfp as2)) s_jikan;
                      Some (if t then EX_match_tim else if 1 < length (pp cfd as1) then EX_match_tim3 else EX_match_tim2, buf) }
            else map_option (\<lambda>(suuryou, buf). (if suuryou then EX_match_qua else -100, buf))
                   (cf_match_both_element e (cf_sm cfd as1) (cf_sm cfp as2) s_suuryou True buf) } }"

text \<open>Whether a marker \<open>c\<close> of the slot is met by the codes of the word: living things, actions and places.\<close>

definition marker_is :: "ENV \<Rightarrow> nat \<Rightarrow> string \<Rightarrow> string \<Rightarrow> string \<Rightarrow> bool \<times> string" where
  "marker_is e step c target buf = (let code = sm2code e buf target in (take step c = take step code, code))"

definition living_marker :: "ENV \<Rightarrow> nat \<Rightarrow> string \<Rightarrow> string \<Rightarrow> bool \<times> string" where
  "living_marker e step c buf =
     (let (b1, buf1) = marker_is e step c s_sm_shutai buf in
      if b1 then (True, buf1)
      else let (b2, buf2) = marker_is e step c s_sm_hito buf1 in
           if b2 then (True, buf2) else marker_is e step c s_sm_soshiki buf2)"

definition action_match :: "ENV \<Rightarrow> string \<Rightarrow> string \<Rightarrow> (bool \<times> string) option" where
  "action_match e code buf =
     (let t1 = sm2code e buf s_sm_tensei in
      do { b1 \<leftarrow> sms_match e t1 code SM_CHECK_FULL;
           if b1 then Some (True, t1)
           else let t2 = sm2code e t1 s_sahen in map_option (\<lambda>b. (b, t2)) (sms_match e t2 code SM_CHECK_FULL) })"

definition marker_met ::
  "ENV \<Rightarrow> nat \<Rightarrow> sm_flag \<Rightarrow> bool \<Rightarrow> int \<Rightarrow> string \<Rightarrow> string \<Rightarrow> string \<Rightarrow> (bool \<times> string) option" where
  "marker_met e step expand non_subj pc code c buf =
     (let (living, buf1) = living_marker e step c buf in
      if living
      then do { wo \<leftarrow> (if non_subj then Some True else MatchPP pc s_kk_wo);
                if non_subj \<or> wo then Some (False, buf1) else map_option (\<lambda>b. (b, buf1)) (sms_match e c code expand) }
      else let (action, buf2) = (if Thesaurus e = USE_NTT then marker_is e SM_CODE_SIZE c s_sm_dousa buf1 else (False, buf1)) in
           if action then action_match e code buf2
           else let (place, buf3) = marker_is e step c s_sm_basho buf2 in
                if place then map_option (\<lambda>b. (b, buf3)) (sms_match e c code expand) else Some (False, buf3))"

text \<open>\<open>any_code\<close> for a test with a state.\<close>

function any_code_st :: "nat \<Rightarrow> (string \<Rightarrow> 's \<Rightarrow> (bool \<times> 's) option) \<Rightarrow> string \<Rightarrow> 's \<Rightarrow> (bool \<times> 's) option" where
  "any_code_st sz test codes st =
     (if codes = [] then Some (False, st)
      else do { (b, st') \<leftarrow> test codes st;
                if b then Some (True, st')
                else if sz = 0 \<or> length codes < sz then None
                else any_code_st sz test (drop sz codes) st' })"
  by pat_completeness auto
termination
  by (relation "measure (\<lambda>(_, _, codes, _). length codes)") auto

declare any_code_st.simps [simp del]

definition cf_match_sm_thesaurus :: "ENV \<Rightarrow> TAG_DATA \<Rightarrow> CASE_FRAME \<Rightarrow> nat \<Rightarrow> string \<Rightarrow> (bool \<times> string) option" where
  "cf_match_sm_thesaurus e tp cfp n buf =
     (let expand = (if has_feature (n_f tp) s_t_koyuu_kinshi then SM_NO_EXPAND_NE else SM_EXPAND_NE);
          code = (if Thesaurus e = USE_BGH then n_BGH_code tp else n_SM_code tp)
      in case cf_sm cfp n of
           None \<Rightarrow> Some (False, buf)
         | Some sm \<Rightarrow>
             (if sm = [] then Some (False, buf)
              else do { step \<leftarrow> code_size e;
                        any_code_st step (marker_met e step expand (has_feature (n_f tp) s_hi_shutai) (pp0 (pp cfp n)) code) sm buf }))"

subsection \<open>The score of an element for a slot\<close>

definition calc_similarity :: "'f SIM_FLOAT \<Rightarrow> ENV \<Rightarrow> string option \<Rightarrow> string option \<Rightarrow> bool \<Rightarrow> 'f option" where
  "calc_similarity F e exd exp no_expand =
     (case (exd, exp) of
        (Some d, Some p) \<Rightarrow>
          (if d = [] \<or> p = [] then Some (sf_int F 0)
           else case Thesaurus e of
                  USE_NONE \<Rightarrow> Some (sf_int F 0)
                | USE_NTT \<Rightarrow>
                    do { b1 \<leftarrow> blocks SM_CODE_SIZE p; b2 \<leftarrow> blocks SM_CODE_SIZE d;
                         best_pair F (if no_expand then ntt_code_match_one F else ntt_code_match_data F e) (List.product b1 b2) (sf_int F 0) }
                | USE_BGH \<Rightarrow>
                    do { b1 \<leftarrow> blocks BGH_CODE_SIZE p; b2 \<leftarrow> blocks BGH_CODE_SIZE d;
                         mx \<leftarrow> best_pair F (\<lambda>c1 c2. map_option (\<lambda>n. sf_int F (int n)) (bgh_code_match_for_case c1 c2)) (List.product b1 b2) (sf_int F 0);
                         Some (sf_single F (sf_div F mx (sf_int F 7))) })
      | _ \<Rightarrow> Some (sf_int F 0))"

definition marker_score :: "ENV \<Rightarrow> string \<Rightarrow> string \<Rightarrow> int \<Rightarrow> int option" where
  "marker_score e c sm score =
     do { bs \<leftarrow> blocks SM_CODE_SIZE sm;
          fold_option (\<lambda>b s. do { k \<leftarrow> sm_match_score e c b SM_NO_EXPAND_NE; t \<leftarrow> at SM_match_score k; Some (if t > s then t else s) }) bs score }"

text \<open>The markers of the slot in turn; one for examples may decide at once.\<close>

definition marker_step ::
  "'f CASE_FLOAT \<Rightarrow> ENV \<Rightarrow> string option \<Rightarrow> string option \<Rightarrow> string \<Rightarrow> string \<Rightarrow> int \<times> string \<Rightarrow> (bool \<times> int \<times> string) option" where
  "marker_step F e exd exp sm c = (\<lambda>(score, buf).
     (let (example, buf1) = marker_is e SM_CODE_SIZE c s_sm_yajirushi buf in
      if example
      then do { x \<leftarrow> calc_similarity (simf F) e exd exp False;
                Some (if sf_trunc F x = 1 then (True, 10, buf1) else (False, score, buf1)) }
      else map_option (\<lambda>s. (False, s, buf1)) (marker_score e c sm score)))"

definition semantic_score :: "'f CASE_FLOAT \<Rightarrow> 'f CASE_ENV \<Rightarrow> CASE_FRAME \<Rightarrow> nat \<Rightarrow> CASE_FRAME \<Rightarrow> nat \<Rightarrow> string \<Rightarrow> (int \<times> string) option" where
  "semantic_score F E cfd as1 cfp as2 buf =
     (if \<not> SMExist E then Some (SM_match_unknown, buf)
      else do {
        sm \<leftarrow> cf_sm cfd as1;
        if sm = [] \<or> cf_sm cfp as2 = None \<or> cf_sm cfp as2 = Some [] then Some (SM_match_unknown, buf)
        else map_option snd (any_code_st SM_CODE_SIZE (marker_step F (c_env E) (cf_ex cfd as1) (cf_ex cfp as2) sm) (the (cf_sm cfp as2)) (-100, buf)) })"

definition calc_similarity_word_cf_with_sm ::
  "'f CASE_FLOAT \<Rightarrow> 'f CASE_ENV \<Rightarrow> TAG_DATA \<Rightarrow> CASE_FRAME \<Rightarrow> nat \<Rightarrow> int \<Rightarrow> string \<Rightarrow> ('f \<times> int \<times> string) option" where
  "calc_similarity_word_cf_with_sm F E tp cfp n pos buf =
     (let (raw, pos1) = word_similarity E tp cfp n pos in
      if sf_less F (num F 1) raw then Some (raw, pos1, buf)
      else do { (subject, buf1) \<leftarrow> cf_match_sm_thesaurus (c_env E) tp cfp n buf;
                Some (if subject then (sf_single F (sf_div F (num F EX_match_subject) (num F 11)), MATCH_SUBJECT, buf1) else (raw, pos1, buf1)) })"

text \<open>
  The score of the similarity of the words: the raw value times seven is an index into a table of eight
  entries. Words without codes have the raw value -1 and, unless the element has no markers either, read in front of the table.
\<close>

definition raw_score :: "'f CASE_FLOAT \<Rightarrow> bool \<Rightarrow> 'f \<Rightarrow> int option" where
  "raw_score F unknown raw =
     (let i = (if unknown then 0 else sf_trunc F (sf_single F (sf_mul F raw (num F 7))))
      in if i < 0 then None else at EX_match_score (nat i))"

definition example_score ::
  "'f CASE_FLOAT \<Rightarrow> 'f CASE_ENV \<Rightarrow> SENTENCE_DATA \<Rightarrow> CF_PRED_MGR \<Rightarrow> CASE_FRAME \<Rightarrow> nat \<Rightarrow> CASE_FRAME \<Rightarrow> nat \<Rightarrow> int \<Rightarrow> string \<Rightarrow>
   (int \<times> int \<times> string) option" where
  "example_score F E sp C cfd as1 cfp as2 pos buf =
     do { modification \<leftarrow> MatchPP (pp0 (pp cfd as1)) s_kk_shuushoku;
          if modification then Some (EX_match_modification, pos, buf)
          else do {
            tp \<leftarrow> at (tag_data sp) (elem_b_ptr C as1);
            if has_feature (n_f tp) s_shijishi then Some (EX_match_demonstrative, pos, buf)
            else do {
              (raw, pos1, buf1) \<leftarrow>
                (if cf_type (cf C) = CF_PRED then calc_similarity_word_cf_with_sm F E tp cfp as2 pos buf
                 else let (raw, pos1) = word_similarity E tp cfp as2 pos in Some (raw, pos1, buf));
              let exact = sf_less F (num F 1) raw;
              soto \<leftarrow> MatchPP (pp0 (pp cfp as2)) s_soto;
              if soto then Some (if exact then 11 else 0, pos1, buf1)
              else if exact then Some (EX_match_exact, pos1, buf1)
              else if pos1 = MATCH_SUBJECT then Some (EX_match_subject, pos1, buf1)
              else do {
                (s, buf2) \<leftarrow> elmnt_match_score_each_sm (c_env E) cfd as1 cfp as2 buf1;
                exd \<leftarrow> cf_ex cfd as1;
                unknown \<leftarrow> (if exd = [] then map_option (\<lambda>sm. sm = []) (cf_sm cfd as1) else Some False);
                ex_score \<leftarrow> raw_score F unknown raw;
                Some (max ex_score (if unknown then EX_match_unknown else s), pos1, buf2) } } } }"

text \<open>The result of the function, whether the score is above the threshold, is not used by its caller.\<close>

definition elmnt_match_score ::
  "'f CASE_FLOAT \<Rightarrow> 'f CASE_ENV \<Rightarrow> SENTENCE_DATA \<Rightarrow> CF_PRED_MGR \<Rightarrow> CASE_FRAME \<Rightarrow> nat \<Rightarrow> CASE_FRAME \<Rightarrow> nat \<Rightarrow> cf_mode \<Rightarrow> int \<Rightarrow> string \<Rightarrow>
   ('f \<times> int \<times> string) option" where
  "elmnt_match_score F E sp C cfd as1 cfp as2 mode pos buf =
     (case mode of
        SEMANTIC_MARKER \<Rightarrow> map_option (\<lambda>(s, buf1). (num F s, pos, buf1)) (semantic_score F E cfd as1 cfp as2 buf)
      | EXAMPLE \<Rightarrow>
          (if UseProbability E
           then Some (sf_add F (sf_add F (ex_probability E as1 cfd as2 cfp) (case_probability E as2 cfp True)) (case_function_probability E as1 cfd as2 cfp),
                      pos, buf)
           else map_option (\<lambda>(s, r). (num F s, r)) (example_score F E sp C cfd as1 cfp as2 pos buf)))"

subsection \<open>The evaluation of an assignment\<close>

text \<open>The globals for the best assignments so far; each entry has the score before normalisation.\<close>

record 'f CURRENT =
  Current_max_score :: 'f
  Current_sufficiency :: 'f
  Current_max_m_e :: int
  Current_max_m_p :: int
  Current_max_c_e :: int
  Current_max_list :: "('f \<times> 'f LIST \<times> 'f LIST) list"

definition count_pat_element :: "CASE_FRAME \<Rightarrow> 'f LIST \<Rightarrow> nat" where
  "count_pat_element cfp l2 = length (filter (\<lambda>i. oblig cfp i \<or> flag l2 i \<noteq> UNASSIGNED) [0..<element_num cfp])"

definition count_assigned_adjacent_element :: "CASE_FRAME \<Rightarrow> 'f LIST \<Rightarrow> nat" where
  "count_assigned_adjacent_element cfp l2 = length (filter (\<lambda>i. oblig cfp i \<and> flag l2 i \<noteq> UNASSIGNED) [0..<element_num cfp])"

definition assigned_elements :: "CASE_FRAME \<Rightarrow> 'f LIST \<Rightarrow> nat list" where
  "assigned_elements cfd l1 = filter (\<lambda>i. flag l1 i \<noteq> NIL_ASSIGNED) [0..<element_num cfd]"

definition crossings :: "CASE_FRAME \<Rightarrow> 'f LIST \<Rightarrow> int" where
  "crossings cfd l1 =
     - int (length (filter (\<lambda>(i, j). i < j \<and> flag l1 j < flag l1 i) (List.product (assigned_elements cfd l1) (assigned_elements cfd l1))))"

definition dat_elements :: "CASE_FRAME \<Rightarrow> 'f LIST \<Rightarrow> nat" where
  "dat_elements cfd l1 = length (filter (\<lambda>i. oblig cfd i \<or> flag l1 i \<noteq> NIL_ASSIGNED) [0..<element_num cfd])"

text \<open>The slots that are filled: their number, the case of the last one, and whether a slot for the subject is empty.\<close>

definition slot_step :: "CASE_FRAME \<Rightarrow> 'f LIST \<Rightarrow> nat \<Rightarrow> nat \<times> int \<times> bool \<Rightarrow> (nat \<times> int \<times> bool) option" where
  "slot_step cfp l2 i = (\<lambda>(cf_element, lastpp, unassigned_ga).
     if flag l2 i \<noteq> UNASSIGNED then Some (Suc cf_element, pp0 (pp cfp i), unassigned_ga)
     else map_option (\<lambda>ga. (cf_element, lastpp, unassigned_ga \<or> ga)) (MatchPP (pp0 (pp cfp i)) s_kk_ga))"

definition element_missing :: "CASE_FRAME \<Rightarrow> 'f LIST \<Rightarrow> int \<Rightarrow> bool" where
  "element_missing cfd l1 closest \<longleftrightarrow> -1 < closest \<and> oblig cfd (nat closest) \<and> flag l1 (nat closest) = NIL_ASSIGNED"

definition assign_score ::
  "'f CASE_FLOAT \<Rightarrow> 'f CASE_ENV \<Rightarrow> CASE_FRAME \<Rightarrow> 'f LIST \<Rightarrow> CASE_FRAME \<Rightarrow> 'f LIST \<Rightarrow> int \<Rightarrow> int \<Rightarrow> ('f \<times> nat \<times> bool) option" where
  "assign_score F E cfd l1 cfp l2 score closest =
     (let m_e = length (assigned_elements cfd l1); dat_element = dat_elements cfd l1; pat_element = count_pat_element cfp l2 in
      do { (cf_element, lastpp, unassigned_ga) \<leftarrow> fold_option (slot_step cfp l2) [0..<element_num cfp] (0, END_M, False);
           failed \<leftarrow> (if m_e < dat_element \<or> element_missing cfd l1 closest then Some True
                      else if \<not> OptEllipsis E \<and> cf_element = 1 then MatchPP lastpp s_soto else Some False);
           Some (if failed then num F (-1)
                 else if dat_element = 0 \<or> pat_element = 0 \<or> m_e = 0 then num F 0
                 else sf_single F (sf_div F (sf_single F (num F score)) (sf_sqrt F (num F (int pat_element)))),
                 cf_element, unassigned_ga) })"

text \<open>Better by the score, the number of elements, their places, the crossings, or with a subject at least as good.\<close>

definition same_rank :: "'f CASE_FLOAT \<Rightarrow> 'f \<Rightarrow> int \<Rightarrow> int \<Rightarrow> int \<Rightarrow> 'f CURRENT \<Rightarrow> bool" where
  "same_rank F local m_e m_p c_e S \<longleftrightarrow>
     sf_eq F local (Current_max_score S) \<and> m_e = Current_max_m_e S \<and> m_p = Current_max_m_p S \<and> c_e = Current_max_c_e S"

definition better_rank :: "'f CASE_FLOAT \<Rightarrow> 'f \<Rightarrow> int \<Rightarrow> int \<Rightarrow> int \<Rightarrow> bool \<Rightarrow> 'f CURRENT \<Rightarrow> bool" where
  "better_rank F local m_e m_p c_e unassigned_ga S \<longleftrightarrow>
     sf_less F (Current_max_score S) local \<or>
     (sf_eq F local (Current_max_score S) \<and> m_e > Current_max_m_e S) \<or>
     (sf_eq F local (Current_max_score S) \<and> m_e = Current_max_m_e S \<and> m_p > Current_max_m_p S) \<or>
     (sf_eq F local (Current_max_score S) \<and> m_e = Current_max_m_e S \<and> m_p = Current_max_m_p S \<and> c_e > Current_max_c_e S) \<or>
     (same_rank F local m_e m_p c_e S \<and> \<not> unassigned_ga)"

definition eval_assign_score ::
  "'f CASE_FLOAT \<Rightarrow> 'f CASE_ENV \<Rightarrow> CASE_FRAME \<Rightarrow> CASE_FRAME \<Rightarrow> int \<Rightarrow> 'f LIST \<times> 'f LIST \<times> 'f \<Rightarrow> 'f CURRENT \<Rightarrow> 'f CURRENT option" where
  "eval_assign_score F E cfd cfp closest = (\<lambda>(l1, l2, score) S.
     (let pure = sf_trunc F score;
          m_e = int (length (assigned_elements cfd l1)); m_p = int (sum_list (assigned_elements cfd l1)); c_e = crossings cfd l1 in
      do { (local, cf_element, unassigned_ga) \<leftarrow> assign_score F E cfd l1 cfp l2 pure closest;
           Some (if better_rank F local m_e m_p c_e unassigned_ga S
                 then \<lparr>Current_max_score = local,
                       Current_sufficiency = sf_single F (sf_div F (sf_single F (num F (int cf_element))) (num F (int (element_num cfp)))),
                       Current_max_m_e = m_e, Current_max_m_p = m_p, Current_max_c_e = c_e, Current_max_list = [(num F pure, l1, l2)]\<rparr>
                 else if same_rank F local m_e m_p c_e S \<and> length (Current_max_list S) < MAX_MATCH_MAX
                 then S\<lparr>Current_max_list := Current_max_list S @ [(num F pure, l1, l2)]\<rparr>
                 else S) }))"

text \<open>With probabilities: the elements of the sentence, then the slots that stay empty.\<close>

definition prob_element ::
  "'f CASE_FLOAT \<Rightarrow> 'f CASE_ENV \<Rightarrow> SENTENCE_DATA \<Rightarrow> CF_PRED_MGR \<Rightarrow> CASE_FRAME \<Rightarrow> 'f LIST \<Rightarrow> CASE_FRAME \<Rightarrow> nat \<Rightarrow> bool \<times> 'f \<Rightarrow>
   (bool \<times> 'f) option" where
  "prob_element F E sp C cfd l1 cfp i = (\<lambda>(have_topic, score).
     do { topic \<leftarrow> (if flag l1 i = NIL_ASSIGNED
                    then do { t \<leftarrow> at (tag_data sp) (elem_b_ptr C i); v \<leftarrow> at (tag_data sp) (pred_b_ptr C);
                              Some (n_num t < n_num v \<and> has_feature (n_f t) s_teidai) }
                    else Some False);
          let score1 = sf_add F (sf_add F score (np_modifying_probability E i cfd)) (l_score l1 i);
          let c = pp0 (pp cfd i);
          phi \<leftarrow> MatchPP c s_kk_phi;
          skip \<leftarrow> (if phi then Some True else MatchPP c s_kk_shuushoku);
          score2 \<leftarrow>
            (if skip \<or> flag l1 i \<noteq> NIL_ASSIGNED then Some score1
             else if CF_MatchPP c cfp then Some (sf_add F score1 (num F NIL_ASSINED_SCORE))
             else map_option (\<lambda>k. sf_add F (sf_add F score1 (case_probability_from_str E k cfp)) (num F NIL_ASSINED_SCORE)) (pp_code_to_kstr c));
          Some (have_topic \<or> topic, score2) })"

definition prob_slot :: "'f CASE_FLOAT \<Rightarrow> 'f CASE_ENV \<Rightarrow> CASE_FRAME \<Rightarrow> nat \<Rightarrow> 'f LIST \<times> 'f \<Rightarrow> 'f LIST \<times> 'f" where
  "prob_slot F E cfp i = (\<lambda>(l2, score).
     if flag l2 i \<noteq> UNASSIGNED then (l2, score)
     else let x = case_probability E i cfp False in (l2\<lparr>l_score := (l_score l2)(i := x)\<rparr>, sf_add F score x))"

definition assign_prob ::
  "'f CASE_FLOAT \<Rightarrow> 'f CASE_ENV \<Rightarrow> SENTENCE_DATA \<Rightarrow> CF_PRED_MGR \<Rightarrow> CASE_FRAME \<Rightarrow> 'f LIST \<Rightarrow> CASE_FRAME \<Rightarrow> 'f LIST \<Rightarrow> int \<Rightarrow>
   ('f \<times> 'f \<times> 'f LIST) option" where
  "assign_prob F E sp C cfd l1 cfp l2 closest =
     do { (have_topic, s1) \<leftarrow> fold_option (prob_element F E sp C cfd l1 cfp) [0..<element_num cfd]
             (False, if cf_type cfp = CF_PRED then cf_probability E cfd cfp else num F 0);
          let (l2', s2) = fold (prob_slot F E cfp) [0..<element_num cfp] (l2, sf_add F s1 (topic_generating_probability E have_topic (pred_b_ptr C)));
          let score = sf_add F s2 (case_num_probability E cfp (element_num cfd));
          Some (if element_missing cfd l1 closest then sf_sub F score (num F 500) else score, score, l2') }"

definition eval_assign_prob ::
  "'f CASE_FLOAT \<Rightarrow> 'f CASE_ENV \<Rightarrow> SENTENCE_DATA \<Rightarrow> CF_PRED_MGR \<Rightarrow> CASE_FRAME \<Rightarrow> CASE_FRAME \<Rightarrow> int \<Rightarrow> 'f LIST \<times> 'f LIST \<times> 'f \<Rightarrow> 'f CURRENT \<Rightarrow>
   'f CURRENT option" where
  "eval_assign_prob F E sp C cfd cfp closest = (\<lambda>(l1, l2, _) S.
     map_option (\<lambda>(local, score, l2').
       if sf_less F (Current_max_score S) local
       then S\<lparr>Current_max_score := local, Current_max_list := [(score, l1, l2')]\<rparr>
       else if sf_eq F local (Current_max_score S) \<and> cf_type cfp = CF_PRED \<and> length (Current_max_list S) < MAX_MATCH_MAX
       then S\<lparr>Current_max_list := Current_max_list S @ [(score, l1, l2')]\<rparr>
       else S) (assign_prob F E sp C cfd l1 cfp l2 closest))"

subsection \<open>The search for assignments\<close>

text \<open>The next element: first the ones whose case is marked, then the heads of relative clauses.\<close>

definition next_target :: "CF_PRED_MGR \<Rightarrow> CASE_FRAME \<Rightarrow> 'f LIST \<Rightarrow> nat option" where
  "next_target C cfd l1 =
     (case find (\<lambda>i. flag l1 i = UNASSIGNED \<and> elem_b_num C i \<noteq> -1) [0..<element_num cfd] of
        Some i \<Rightarrow> Some i
      | None \<Rightarrow> find (\<lambda>i. flag l1 i = UNASSIGNED \<and> elem_b_num C i = -1) [0..<element_num cfd])"

text \<open>Whether a slot with the case is filled.\<close>

fun filled_case :: "CASE_FRAME \<Rightarrow> 'f LIST \<Rightarrow> string \<Rightarrow> nat list \<Rightarrow> bool option" where
  "filled_case cfp l2 k [] = Some False"
| "filled_case cfp l2 k (i # js) =
     (if flag l2 i \<noteq> UNASSIGNED
      then do { b \<leftarrow> MatchPP2 (pp cfp i) k; if b then Some True else filled_case cfp l2 k js }
      else filled_case cfp l2 k js)"

text \<open>Whether the case \<open>t\<close> of the element goes with the case \<open>c\<close> of the slot.\<close>

definition case_fits ::
  "CASE_FRAME \<Rightarrow> CASE_FRAME \<Rightarrow> nat \<Rightarrow> bool \<Rightarrow> bool \<Rightarrow> 'f LIST \<Rightarrow> int \<Rightarrow> int \<Rightarrow> bool option" where
  "case_fits cfd cfp target gaflag sotoflag l1 t c =
     do { same \<leftarrow>
            (if t \<noteq> c \<or> (c = pp_kstr_to_code s_soto \<and> \<not> sotoflag) \<or> (c = pp_kstr_to_code s_ga2 \<and> \<not> gaflag) then Some False
             else if c = pp_kstr_to_code s_kk_no then check_adjacent_assigned cfd cfp l1
             else Some True);
          Some (same \<or> (t = pp_kstr_to_code s_kk_mi \<and> check_same_case (cf_sp cfd target) c cfp)) }"

fun first_fit :: "(int \<Rightarrow> bool option) \<Rightarrow> int list \<Rightarrow> int option option" where
  "first_fit P [] = Some None"
| "first_fit P (c # cs) =
     (if c < 0 then Some None else do { b \<leftarrow> P c; if b then Some (Some c) else first_fit P cs })"

definition worth_trying :: "'f CASE_FLOAT \<Rightarrow> 'f CASE_ENV \<Rightarrow> CF_PRED_MGR \<Rightarrow> cf_mode \<Rightarrow> int \<Rightarrow> 'f \<Rightarrow> bool" where
  "worth_trying F E C mode c score \<longleftrightarrow>
     (let special = (c = pp_kstr_to_code s_soto \<or> c = pp_kstr_to_code s_kk_no) in
      UseProbability E \<or> (\<not> special \<and> cf_type (cf C) \<noteq> CF_NOUN) \<or>
      (special \<and> sf_le F (num F (SOTO_THRESHOLD E)) score) \<or>
      (cf_type (cf C) = CF_NOUN \<and> sf_le F (num F (NOUN_THRESHOLD E)) score)) \<and>
     (mode = EXAMPLE \<or> sf_le F (num F 0) score)"

definition set_entry :: "nat \<Rightarrow> int \<Rightarrow> 'f \<Rightarrow> 'f LIST \<Rightarrow> 'f LIST" where
  "set_entry i v x l = l\<lparr>flag := (flag l)(i := v), l_score := (l_score l)(i := x)\<rparr>"

definition set_pos :: "nat \<Rightarrow> int \<Rightarrow> 'f LIST \<Rightarrow> 'f LIST" where
  "set_pos i v l = l\<lparr>l_pos := (l_pos l)(i := v)\<rparr>"

definition weighted :: "'f CASE_FLOAT \<Rightarrow> CASE_FRAME \<Rightarrow> nat \<Rightarrow> 'f \<Rightarrow> 'f" where
  "weighted F cfd target x = (if weight cfd target \<noteq> 0 then sf_div F x (num F (weight cfd target)) else x)"

text \<open>
  One case of the element against slot \<open>i\<close>: \<open>go\<close> goes on with the other elements. Next to the lists and the flag the
  state holds the static buffer and the state of the handler.
\<close>

type_synonym ('f, 's) search_state = "('f LIST \<times> 'f LIST \<times> bool \<times> string) \<times> 's"

definition try_case ::
  "'f CASE_FLOAT \<Rightarrow> 'f CASE_ENV \<Rightarrow> SENTENCE_DATA \<Rightarrow> CF_PRED_MGR \<Rightarrow> CASE_FRAME \<Rightarrow> CASE_FRAME \<Rightarrow> cf_mode \<Rightarrow>
   ('f LIST \<Rightarrow> 'f LIST \<Rightarrow> 'f \<Rightarrow> string \<times> 's \<Rightarrow> (string \<times> 's) option) \<Rightarrow> nat \<Rightarrow> bool \<Rightarrow> bool \<Rightarrow> 'f \<Rightarrow> nat \<Rightarrow> int \<Rightarrow>
   ('f, 's) search_state \<Rightarrow> ('f, 's) search_state option" where
  "try_case F E sp C cfd cfp mode go target gaflag sotoflag score i t = (\<lambda>((l1, l2, avail, buf), s).
     do { fit \<leftarrow> first_fit (case_fits cfd cfp target gaflag sotoflag l1 t) (pp cfp i);
          case fit of
            None \<Rightarrow> Some ((l1, l2, avail, buf), s)
          | Some c \<Rightarrow>
              do { (x, pos, buf1) \<leftarrow> elmnt_match_score F E sp C cfd target cfp i mode MATCH_NONE buf;
                   if worth_trying F E C mode c x
                   then do {
                     let y = weighted F cfd target x;
                     let l1' = set_entry target (int i) y l1;
                     let l2' = set_pos i pos (set_entry i (int target) y l2);
                     (buf2, s') \<leftarrow> go l1' l2' (sf_add F score y) (buf1, s);
                     Some ((l1', set_pos i MATCH_NONE (l2'\<lparr>flag := (flag l2')(i := UNASSIGNED)\<rparr>), True, buf2), s') }
                   else Some ((l1, l2, True, buf1), s) } })"

definition try_slot ::
  "'f CASE_FLOAT \<Rightarrow> 'f CASE_ENV \<Rightarrow> SENTENCE_DATA \<Rightarrow> CF_PRED_MGR \<Rightarrow> CASE_FRAME \<Rightarrow> CASE_FRAME \<Rightarrow> cf_mode \<Rightarrow>
   ('f LIST \<Rightarrow> 'f LIST \<Rightarrow> 'f \<Rightarrow> string \<times> 's \<Rightarrow> (string \<times> 's) option) \<Rightarrow> nat \<Rightarrow> bool \<Rightarrow> bool \<Rightarrow> 'f \<Rightarrow> nat \<Rightarrow>
   ('f, 's) search_state \<Rightarrow> ('f, 's) search_state option" where
  "try_slot F E sp C cfd cfp mode go target gaflag sotoflag score i st =
     (if flag (fst (snd (fst st))) i = UNASSIGNED
      then fold_option (try_case F E sp C cfd cfp mode go target gaflag sotoflag score i) (pp cfd target) st
      else Some st)"

text \<open>
  \<open>assign_list\<close> with both passes of \<^verbatim>\<open>_assign_list\<close>; each call decides one element, so that one more step than
  there are elements is enough.
\<close>

fun assign_list ::
  "'f CASE_FLOAT \<Rightarrow> 'f CASE_ENV \<Rightarrow> SENTENCE_DATA \<Rightarrow> CF_PRED_MGR \<Rightarrow> CASE_FRAME \<Rightarrow> CASE_FRAME \<Rightarrow> cf_mode \<Rightarrow>
   ('f LIST \<times> 'f LIST \<times> 'f \<Rightarrow> 's \<Rightarrow> 's option) \<Rightarrow> nat \<Rightarrow> 'f LIST \<Rightarrow> 'f LIST \<Rightarrow> 'f \<Rightarrow> string \<times> 's \<Rightarrow> (string \<times> 's) option" where
  "assign_list F E sp C cfd cfp mode ev 0 l1 l2 score t = None"
| "assign_list F E sp C cfd cfp mode ev (Suc n) l1 l2 score t =
     (case next_target C cfd l1 of
        None \<Rightarrow> map_option (Pair (fst t)) (ev (l1, l2, score) (snd t))
      | Some target \<Rightarrow>
          do { gaflag \<leftarrow> filled_case cfp l2 s_kk_ga [0..<element_num cfp];
               (subject, buf) \<leftarrow> cf_match_element (c_env E) (cf_sm cfd target) s_sm_shutai False (fst t);
               toflag \<leftarrow> filled_case cfp l2 s_kk_to [0..<element_num cfp];
               ((l1', l2', avail, buf1), s1) \<leftarrow>
                 fold_option (try_slot F E sp C cfd cfp mode (assign_list F E sp C cfd cfp mode ev n) target gaflag (\<not> subject) score)
                   [0..<element_num cfp] ((l1, l2, False, buf), snd t);
               if \<not> (cf_type (cf C) = CF_PRED \<and> UseProbability E) \<or> \<not> avail
               then let x = weighted F cfd target (sf_add F (FREQ0_ASSINED_SCORE F) (nil_function_probability E target cfd cfp)) in
                    assign_list F E sp C cfd cfp mode ev n (set_entry target NIL_ASSIGNED x l1') l2'
                      (if UseProbability E then sf_add F score x else score) (buf1, s1)
               else Some (buf1, s1) })"

subsection \<open>Matching with a frame\<close>

text \<open>The result for the frame with the number \<open>cf_ptr\<close>; the lists have \<open>result_num\<close> entries.\<close>

record 'f CF_MATCH_MGR =
  cf_ptr :: nat
  cmm_score :: 'f
  pure_score :: "'f list"
  sufficiency :: 'f
  result_num :: nat
  result_lists_p :: "'f LIST list"
  result_lists_d :: "'f LIST list"

definition init_list :: "'f CASE_FLOAT \<Rightarrow> 'f LIST" where
  "init_list F = \<lparr>flag = (\<lambda>_. UNASSIGNED), l_score = (\<lambda>_. num F (-1)), l_pos = (\<lambda>_. -1)\<rparr>"

definition init_current :: "'f CASE_FLOAT \<Rightarrow> 'f CASE_ENV \<Rightarrow> 'f CURRENT" where
  "init_current F E =
     \<lparr>Current_max_score = num F (if UseProbability E then CASE_MATCH_FAILURE_PROB else CASE_MATCH_FAILURE_SCORE),
      Current_sufficiency = num F 0, Current_max_m_e = 0, Current_max_m_p = 0, Current_max_c_e = 0, Current_max_list = []\<rparr>"

definition eval_assign ::
  "'f CASE_FLOAT \<Rightarrow> 'f CASE_ENV \<Rightarrow> SENTENCE_DATA \<Rightarrow> CF_PRED_MGR \<Rightarrow> CASE_FRAME \<Rightarrow> int \<Rightarrow> 'f LIST \<times> 'f LIST \<times> 'f \<Rightarrow> 'f CURRENT \<Rightarrow> 'f CURRENT option" where
  "eval_assign F E sp C cfp closest =
     (if UseProbability E then eval_assign_prob F E sp C (cf C) cfp closest else eval_assign_score F E (cf C) cfp closest)"

text \<open>With a closest element that is assigned the score is the one of this element.\<close>

definition frame_score :: "'f CASE_FLOAT \<Rightarrow> int \<Rightarrow> 'f CURRENT \<Rightarrow> 'f option" where
  "frame_score F closest S =
     (if -1 < closest \<and> sf_le F (num F 0) (Current_max_score S)
      then map_option (\<lambda>(_, l1, _). if flag l1 (nat closest) \<noteq> NIL_ASSIGNED then l_score l1 (nat closest) else Current_max_score S)
             (at (Current_max_list S) 0)
      else Some (Current_max_score S))"

definition case_frame_match ::
  "'f CASE_FLOAT \<Rightarrow> 'f CASE_ENV \<Rightarrow> SENTENCE_DATA \<Rightarrow> CF_PRED_MGR \<Rightarrow> nat \<Rightarrow> CASE_FRAME \<Rightarrow> cf_mode \<Rightarrow> int \<Rightarrow> string \<Rightarrow>
   ('f CF_MATCH_MGR \<times> string) option" where
  "case_frame_match F E sp C k cfp mode closest buf =
     do { (buf', S) \<leftarrow> assign_list F E sp C (cf C) cfp mode (eval_assign F E sp C cfp closest) (Suc (element_num (cf C)))
             (init_list F) (init_list F) (num F 0) (buf, init_current F E);
          score \<leftarrow> frame_score F closest S;
          Some (\<lparr>cf_ptr = k, cmm_score = score, pure_score = map fst (Current_max_list S), sufficiency = Current_sufficiency S,
                 result_num = length (Current_max_list S), result_lists_p = map (\<lambda>(_, _, l2). l2) (Current_max_list S),
                 result_lists_d = map (\<lambda>(_, l1, _). l1) (Current_max_list S)\<rparr>, buf') }"

section \<open>Assignments are matchings\<close>

text \<open>Element and slot have a case in common, or the slot has a case that the unmarked element may have.\<close>

definition compatible :: "CASE_FRAME \<Rightarrow> CASE_FRAME \<Rightarrow> nat \<Rightarrow> nat \<Rightarrow> bool" where
  "compatible cfd cfp i j \<longleftrightarrow>
     (\<exists>t \<in> set (pp cfd i). \<exists>c \<in> set (pp cfp j). t = c \<or> (t = pp_kstr_to_code s_kk_mi \<and> check_same_case (cf_sp cfd i) c cfp))"

text \<open>The two lists are the two directions of a partial matching of elements and slots.\<close>

definition matching :: "CASE_FRAME \<Rightarrow> CASE_FRAME \<Rightarrow> (nat \<Rightarrow> int) \<Rightarrow> (nat \<Rightarrow> int) \<Rightarrow> bool" where
  "matching cfd cfp fl1 fl2 \<longleftrightarrow>
     (\<forall>i < element_num cfd. fl1 i = UNASSIGNED \<or> fl1 i = NIL_ASSIGNED \<or>
        (\<exists>j < element_num cfp. fl1 i = int j \<and> fl2 j = int i \<and> compatible cfd cfp i j)) \<and>
     (\<forall>j < element_num cfp. fl2 j = UNASSIGNED \<or> (\<exists>i < element_num cfd. fl2 j = int i \<and> fl1 i = int j))"

lemma int_not_unassigned: "int j \<noteq> UNASSIGNED" by (simp add: UNASSIGNED_def)

lemma matching_init: "matching cfd cfp (\<lambda>_. UNASSIGNED) (\<lambda>_. UNASSIGNED)"
  by (simp add: matching_def)

lemma matching_nil: "matching cfd cfp (fl1(i := UNASSIGNED)) fl2 \<Longrightarrow> matching cfd cfp (fl1(i := NIL_ASSIGNED)) fl2"
  unfolding matching_def by (intro conjI allI impI) (metis fun_upd_apply, metis fun_upd_apply int_not_unassigned)

lemma matching_add:
  assumes "matching cfd cfp (fl1(i := UNASSIGNED)) fl2" and "fl2 j = UNASSIGNED"
    and "i < element_num cfd" and "j < element_num cfp" and "compatible cfd cfp i j"
  shows "matching cfd cfp (fl1(i := int j)) (fl2(j := int i))"
  unfolding matching_def
proof (intro conjI allI impI)
  fix k assume k: "k < element_num cfd"
  show "(fl1(i := int j)) k = UNASSIGNED \<or> (fl1(i := int j)) k = NIL_ASSIGNED \<or>
      (\<exists>j' < element_num cfp. (fl1(i := int j)) k = int j' \<and> (fl2(j := int i)) j' = int k \<and> compatible cfd cfp k j')"
  proof (cases "k = i")
    case True
    then show ?thesis using assms(4,5) by auto
  next
    case False
    then have "fl1 k = UNASSIGNED \<or> fl1 k = NIL_ASSIGNED \<or> (\<exists>j' < element_num cfp. fl1 k = int j' \<and> fl2 j' = int k \<and> compatible cfd cfp k j')"
      using assms(1) k unfolding matching_def by (metis fun_upd_other)
    then show ?thesis using False assms(2) by (metis fun_upd_other int_not_unassigned)
  qed
next
  fix k assume k: "k < element_num cfp"
  show "(fl2(j := int i)) k = UNASSIGNED \<or> (\<exists>i' < element_num cfd. (fl2(j := int i)) k = int i' \<and> (fl1(i := int j)) i' = int k)"
  proof (cases "k = j")
    case False
    then have "fl2 k = UNASSIGNED \<or> (\<exists>i' < element_num cfd. fl2 k = int i' \<and> (fl1(i := UNASSIGNED)) i' = int k)"
      using assms(1) k unfolding matching_def by blast
    then show ?thesis using False by (auto simp: UNASSIGNED_def split: if_splits)
  qed (use assms(3) in auto)
qed

lemma next_targetD:
  "next_target C cfd l1 = Some i \<Longrightarrow> i < element_num cfd \<and> flag l1 i = UNASSIGNED"
  "next_target C cfd l1 = None \<Longrightarrow> i < element_num cfd \<Longrightarrow> flag l1 i \<noteq> UNASSIGNED"
  by (auto simp: next_target_def find_Some_iff find_None_iff split: option.splits)

lemma first_fitD: "first_fit P cs = Some (Some c) \<Longrightarrow> c \<in> set cs \<and> P c = Some True"
  by (induction cs) (auto simp: bind_eq_Some_conv split: if_splits)

lemma case_fits_compatible:
  assumes "first_fit (case_fits cfd cfp target gaflag sotoflag l1 t) (pp cfp j) = Some (Some c)" and "t \<in> set (pp cfd target)"
  shows "compatible cfd cfp target j"
  using first_fitD [OF assms(1)] assms(2) by (auto simp: case_fits_def compatible_def bind_eq_Some_conv split: if_splits)

text \<open>
  What holds of every assignment that the search hands to its handler: \<open>J\<close> is a property of matchings
  that deciding one more element keeps.
\<close>

definition decided :: "CASE_FRAME \<Rightarrow> (nat \<Rightarrow> int) \<Rightarrow> bool" where
  "decided cfd fl1 \<longleftrightarrow> (\<forall>i < element_num cfd. fl1 i \<noteq> UNASSIGNED)"

lemma set_entry_sel [simp]:
  "flag (set_entry i v x l) = (flag l)(i := v)" "flag (set_pos i k l) = flag l"
  by (simp_all add: set_entry_def set_pos_def)

text \<open>The state inside the loops over the slots: a matching when the element in question is not assigned.\<close>

definition open_at :: "CASE_FRAME \<Rightarrow> CASE_FRAME \<Rightarrow> nat \<Rightarrow> ('s \<Rightarrow> bool) \<Rightarrow> ('f, 's) search_state \<Rightarrow> bool" where
  "open_at cfd cfp i R st \<longleftrightarrow> matching cfd cfp ((flag (fst (fst st)))(i := UNASSIGNED)) (flag (fst (snd (fst st)))) \<and> R (snd st)"

lemma try_case_invariant:
  assumes go: "\<And>l1 l2 x t t'. matching cfd cfp (flag l1) (flag l2) \<Longrightarrow> R (snd t) \<Longrightarrow> go l1 l2 x t = Some t' \<Longrightarrow> R (snd t')"
    and run: "try_case F E sp C cfd cfp mode go target gaflag sotoflag score j t st = Some st'"
    and I: "open_at cfd cfp target R st \<and> flag (fst (snd (fst st))) j = UNASSIGNED"
    and b: "target < element_num cfd" "j < element_num cfp" "t \<in> set (pp cfd target)"
  shows "open_at cfd cfp target R st' \<and> flag (fst (snd (fst st'))) j = UNASSIGNED"
proof -
  obtain l1 l2 avail buf s where st: "st = ((l1, l2, avail, buf), s)" by (metis prod.exhaust)
  obtain fit where fit: "first_fit (case_fits cfd cfp target gaflag sotoflag l1 t) (pp cfp j) = Some fit"
    using run by (auto simp: st try_case_def bind_eq_Some_conv)
  show ?thesis
  proof (cases fit)
    case None
    then show ?thesis using run fit I by (simp add: st try_case_def)
  next
    case (Some c)
    obtain x pos buf1 where x: "elmnt_match_score F E sp C cfd target cfp j mode MATCH_NONE buf = Some (x, pos, buf1)"
      using run fit Some by (auto simp: st try_case_def bind_eq_Some_conv)
    show ?thesis
    proof (cases "worth_trying F E C mode c x")
      case False
      then show ?thesis using run fit Some x I by (auto simp: st try_case_def open_at_def)
    next
      case True
      define l1' where "l1' = set_entry target (int j) (weighted F cfd target x) l1"
      define l2' where "l2' = set_pos j pos (set_entry j (int target) (weighted F cfd target x) l2)"
      obtain buf2 s' where g: "go l1' l2' (sf_add F score (weighted F cfd target x)) (buf1, s) = Some (buf2, s')"
        and st': "st' = ((l1', set_pos j MATCH_NONE (l2'\<lparr>flag := (flag l2')(j := UNASSIGNED)\<rparr>), True, buf2), s')"
        using run fit Some x True by (auto simp: st try_case_def Let_def bind_eq_Some_conv l1'_def l2'_def)
      have m: "matching cfd cfp ((flag l1)(target := UNASSIGNED)) (flag l2)" "flag l2 j = UNASSIGNED" "R s"
        using I by (simp_all add: st open_at_def)
      have "compatible cfd cfp target j" using case_fits_compatible fit b(3) Some by blast
      then have "matching cfd cfp (flag l1') (flag l2')"
        using matching_add [OF m(1,2) b(1,2)] by (simp add: l1'_def l2'_def)
      then have "R s'" using go [OF _ _ g] m(3) by simp
      moreover have "(flag l2)(j := UNASSIGNED) = flag l2" using m(2) by auto
      ultimately show ?thesis using m(1,2) by (simp add: st' open_at_def l1'_def l2'_def)
    qed
  qed
qed

lemma try_slot_invariant:
  assumes go: "\<And>l1 l2 x t t'. matching cfd cfp (flag l1) (flag l2) \<Longrightarrow> R (snd t) \<Longrightarrow> go l1 l2 x t = Some t' \<Longrightarrow> R (snd t')"
    and run: "try_slot F E sp C cfd cfp mode go target gaflag sotoflag score j st = Some st'"
    and I: "open_at cfd cfp target R st" and b: "target < element_num cfd" "j < element_num cfp"
  shows "open_at cfd cfp target R st'"
proof (cases "flag (fst (snd (fst st))) j = UNASSIGNED")
  case True
  have "open_at cfd cfp target R st' \<and> flag (fst (snd (fst st'))) j = UNASSIGNED"
    by (rule fold_option_invariant [OF run [unfolded try_slot_def if_P [OF True]]])
      (use I True in simp, rule try_case_invariant [where cfd = cfd and cfp = cfp and R = R and go = go, OF go _ _ b], assumption+)
  then show ?thesis ..
qed (use run I in \<open>simp add: try_slot_def\<close>)

lemma assign_list_invariant:
  assumes final: "\<And>l1 l2 x s s'. matching cfd cfp (flag l1) (flag l2) \<Longrightarrow> decided cfd (flag l1) \<Longrightarrow> ev (l1, l2, x) s = Some s' \<Longrightarrow> R s \<Longrightarrow> R s'"
  shows "matching cfd cfp (flag l1) (flag l2) \<Longrightarrow> R (snd t) \<Longrightarrow> assign_list F E sp C cfd cfp mode ev n l1 l2 score t = Some t' \<Longrightarrow> R (snd t')"
proof (induction n arbitrary: l1 l2 score t t')
  case (Suc n)
  show ?case
  proof (cases "next_target C cfd l1")
    case None
    then have "decided cfd (flag l1)" by (auto simp: decided_def dest: next_targetD(2))
    then show ?thesis using Suc.prems None final by auto
  next
    case (Some i)
    note i = next_targetD(1) [OF Some]
    let ?go = "assign_list F E sp C cfd cfp mode ev n"
    obtain gaflag subject buf l1' l2' avail buf1 s1 where
      loop: "fold_option (try_slot F E sp C cfd cfp mode ?go i gaflag (\<not> subject) score) [0..<element_num cfp] ((l1, l2, False, buf), snd t) =
        Some ((l1', l2', avail, buf1), s1)"
      and rest: "(if \<not> (cf_type (cf C) = CF_PRED \<and> UseProbability E) \<or> \<not> avail
               then let x = weighted F cfd i (sf_add F (FREQ0_ASSINED_SCORE F) (nil_function_probability E i cfd cfp)) in
                    ?go (set_entry i NIL_ASSIGNED x l1') l2' (if UseProbability E then sf_add F score x else score) (buf1, s1)
               else Some (buf1, s1)) = Some t'"
      using Suc.prems(3) Some by (auto simp: bind_eq_Some_conv)
    have start: "open_at cfd cfp i R ((l1, l2, False, buf), snd t)"
      using Suc.prems(1,2) i by (simp add: open_at_def fun_upd_idem)
    have I: "open_at cfd cfp i R ((l1', l2', avail, buf1), s1)"
      by (rule fold_option_invariant [OF loop, where P = "open_at cfd cfp i R"])
        (use start try_slot_invariant [where cfd = cfd and cfp = cfp and R = R and go = ?go, OF Suc.IH] i in auto)
    then have m: "matching cfd cfp ((flag l1')(i := NIL_ASSIGNED)) (flag l2')" "R s1"
      by (auto simp: open_at_def intro: matching_nil)
    show ?thesis
    proof (cases "\<not> (cf_type (cf C) = CF_PRED \<and> UseProbability E) \<or> \<not> avail")
      case True
      show ?thesis by (rule Suc.IH [OF _ _ rest [unfolded if_P [OF True] Let_def]]) (use m in \<open>simp_all add: fun_upd_def\<close>)
    qed (use rest m(2) in auto)
  qed
qed simp

section \<open>The handler sees every assignment\<close>

lemma try_case_enumerates:
  assumes "\<And>l1 l2 x. enumerates ev (go l1 l2 x) (\<lambda>b. go' l1 l2 x (b, []))"
  shows "enumerates ev (try_case F E sp C cfd cfp mode go target gaflag sotoflag score i t)
    (\<lambda>st. try_case F E sp C cfd cfp mode go' target gaflag sotoflag score i t (st, []))"
proof -
  note go = enumeratesD [OF assms]
  have "try_case F E sp C cfd cfp mode go target gaflag sotoflag score i t ((l1, l2, avail, buf), s) =
      Option.bind (try_case F E sp C cfd cfp mode go' target gaflag sotoflag score i t ((l1, l2, avail, buf), []))
        (\<lambda>(c, ds). map_option (Pair c) (fold_option ev ds s))" for l1 l2 avail buf s
    by (auto simp: try_case_def Let_def go split: option.split bind_splits)
  then show ?thesis by (auto simp: enumerates_def)
qed

lemma try_slot_enumerates:
  assumes "\<And>l1 l2 x. enumerates ev (go l1 l2 x) (\<lambda>b. go' l1 l2 x (b, []))"
    and "\<And>l1 l2 x. enumerates collect (go' l1 l2 x) (\<lambda>b. go' l1 l2 x (b, []))"
  shows "enumerates ev (try_slot F E sp C cfd cfp mode go target gaflag sotoflag score i)
    (\<lambda>st. try_slot F E sp C cfd cfp mode go' target gaflag sotoflag score i (st, []))"
proof -
  note loop = enumeratesD [OF enumerates_fold(1) [OF try_case_enumerates [OF assms(1)] try_case_enumerates [OF assms(2)]]]
  show ?thesis unfolding enumerates_def try_slot_def by (auto simp: loop)
qed

lemma assign_list_enumerates_Suc:
  assumes "\<And>l1 l2 x. enumerates ev (assign_list F E sp C cfd cfp mode ev n l1 l2 x) (\<lambda>b. assign_list F E sp C cfd cfp mode collect n l1 l2 x (b, []))"
    and "\<And>l1 l2 x. enumerates collect (assign_list F E sp C cfd cfp mode collect n l1 l2 x) (\<lambda>b. assign_list F E sp C cfd cfp mode collect n l1 l2 x (b, []))"
  shows "enumerates ev (assign_list F E sp C cfd cfp mode ev (Suc n) l1 l2 x) (\<lambda>b. assign_list F E sp C cfd cfp mode collect (Suc n) l1 l2 x (b, []))"
  unfolding enumerates_def
proof
  fix t
  note loop = enumeratesD [OF enumerates_fold(1) [OF try_slot_enumerates [OF assms] try_slot_enumerates [OF assms(2) assms(2)]]]
  note rest = enumeratesD [OF assms(1)]
  have rest': "assign_list F E sp C cfd cfp mode collect n l1 l2 x (b, ds) =
      map_option (\<lambda>(c, es). (c, ds @ es)) (assign_list F E sp C cfd cfp mode collect n l1 l2 x (b, []))" for l1 l2 x b ds
    by (rule enumerates_collect [OF assms(2)])
  show "assign_list F E sp C cfd cfp mode ev (Suc n) l1 l2 x t = Option.bind (assign_list F E sp C cfd cfp mode collect (Suc n) l1 l2 x (fst t, []))
      (\<lambda>(c, ds). map_option (Pair c) (fold_option ev ds (snd t)))"
  proof (cases "next_target C cfd l1")
    case None
    then show ?thesis by (auto simp: collect_def split: bind_splits option.split)
  next
    case (Some i)
    let ?step = "\<lambda>ev ga subject. fold_option (try_slot F E sp C cfd cfp mode (assign_list F E sp C cfd cfp mode ev n) i ga (\<not> subject) x) [0..<element_num cfp]"
    let ?x = "weighted F cfd i (sf_add F (FREQ0_ASSINED_SCORE F) (nil_function_probability E i cfd cfp))"
    show ?thesis
    proof (cases "filled_case cfp l2 s_kk_ga [0..<element_num cfp]")
      case ga: (Some ga)
      show ?thesis
      proof (cases "cf_match_element (c_env E) (cf_sm cfd i) s_sm_shutai False (fst t)")
        case subject: (Some r)
        obtain subject buf where r: "r = (subject, buf)" by (cases r)
        show ?thesis
        proof (cases "filled_case cfp l2 s_kk_to [0..<element_num cfp]")
          case to: (Some to)
          show ?thesis
          proof (cases "?step collect ga subject ((l1, l2, False, buf), [])")
            case None
            then show ?thesis using Some ga subject r to by (simp add: loop)
          next
            case step: (Some u)
            obtain l1' l2' avail buf1 ds where u: "u = ((l1', l2', avail, buf1), ds)" by (metis prod.exhaust)
            have run: "?step ev ga subject ((l1, l2, False, buf), s) = map_option (Pair (l1', l2', avail, buf1)) (fold_option ev ds s)" for s
              using step by (simp add: loop u)
            show ?thesis
            proof (cases "\<not> (cf_type (cf C) = CF_PRED \<and> UseProbability E) \<or> \<not> avail")
              case False
              then show ?thesis using Some ga subject r to step by (cases "fold_option ev ds (snd t)") (simp_all add: run u)
            next
              case True
              let ?rest = "\<lambda>ev. assign_list F E sp C cfd cfp mode ev n (set_entry i NIL_ASSIGNED ?x l1') l2' (if UseProbability E then sf_add F x ?x else x)"
              have "assign_list F E sp C cfd cfp mode ev (Suc n) l1 l2 x t = Option.bind (fold_option ev ds (snd t)) (\<lambda>s. ?rest ev (buf1, s))"
                using True Some ga subject r to by (cases "fold_option ev ds (snd t)") (simp_all add: run Let_def)
              moreover have "assign_list F E sp C cfd cfp mode collect (Suc n) l1 l2 x (fst t, []) = ?rest collect (buf1, ds)"
                using True Some ga subject r to step by (simp add: u Let_def)
              ultimately show ?thesis
                by (cases "?rest collect (buf1, [])") (auto simp: rest rest' [of _ _ _ _ ds] fold_option_append split: bind_splits)
            qed
          qed
        qed (use Some ga subject r in simp)
      qed (use Some ga in simp)
    qed (use Some in simp)
  qed
qed

lemma assign_list_collects:
  "enumerates collect (assign_list F E sp C cfd cfp mode collect n l1 l2 x) (\<lambda>b. assign_list F E sp C cfd cfp mode collect n l1 l2 x (b, []))"
proof (induction n arbitrary: l1 l2 x)
  case (Suc n)
  show ?case by (rule assign_list_enumerates_Suc [OF Suc.IH Suc.IH])
qed (simp add: enumerates_def)

lemma assign_list_enumerates:
  "enumerates ev (assign_list F E sp C cfd cfp mode ev n l1 l2 x) (\<lambda>b. assign_list F E sp C cfd cfp mode collect n l1 l2 x (b, []))"
proof (induction n arbitrary: l1 l2 x)
  case (Suc n)
  show ?case by (rule assign_list_enumerates_Suc [OF Suc.IH assign_list_collects])
qed (simp add: enumerates_def)

text \<open>All assignments for a frame, with their scores, in the order in which they are evaluated.\<close>

definition assignments ::
  "'f CASE_FLOAT \<Rightarrow> 'f CASE_ENV \<Rightarrow> SENTENCE_DATA \<Rightarrow> CF_PRED_MGR \<Rightarrow> CASE_FRAME \<Rightarrow> cf_mode \<Rightarrow> string \<Rightarrow> ('f LIST \<times> 'f LIST \<times> 'f) list option" where
  "assignments F E sp C cfp mode buf =
     map_option snd (assign_list F E sp C (cf C) cfp mode collect (Suc (element_num (cf C))) (init_list F) (init_list F) (num F 0) (buf, []))"

lemma search_folds:
  assumes "assign_list F E sp C (cf C) cfp mode ev (Suc (element_num (cf C))) (init_list F) (init_list F) (num F 0) (buf, s) = Some (buf', s')"
  shows "\<exists>items. assignments F E sp C cfp mode buf = Some items \<and> fold_option ev items s = Some s'"
proof -
  note run = enumeratesD [OF assign_list_enumerates [of ev F E sp C "cf C" cfp mode "Suc (element_num (cf C))" "init_list F" "init_list F" "num F 0"], of "(buf, s)"]
  show ?thesis using assms by (auto simp: run assignments_def simp del: assign_list.simps split: bind_splits)
qed

section \<open>The result is a set of matchings\<close>

lemma prob_slots_flag: "flag (fst (fold (prob_slot F E cfp) js s)) = flag (fst s)"
  by (induction js arbitrary: s) (auto simp: prob_slot_def Let_def split: prod.splits)

lemma assign_prob_flag: "assign_prob F E sp C cfd l1 cfp l2 closest = Some (x, y, l2') \<Longrightarrow> flag l2' = flag l2"
  by (auto simp: assign_prob_def Let_def bind_eq_Some_conv split_def prob_slots_flag)

definition result_ok :: "CASE_FRAME \<Rightarrow> CASE_FRAME \<Rightarrow> 'f CURRENT \<Rightarrow> bool" where
  "result_ok cfd cfp S \<longleftrightarrow> length (Current_max_list S) \<le> MAX_MATCH_MAX \<and>
     (\<forall>(p, l1, l2) \<in> set (Current_max_list S). matching cfd cfp (flag l1) (flag l2) \<and> decided cfd (flag l1))"

text \<open>An evaluation keeps the list, starts it again with the new assignment, or adds the assignment to it.\<close>

lemma eval_assign_cases:
  assumes "eval_assign F E sp C cfp closest (l1, l2, x) S = Some S'"
  obtains y l2' where "flag l2' = flag l2" and
    "Current_max_list S' = Current_max_list S \<or> Current_max_list S' = [(y, l1, l2')] \<or>
     (Current_max_list S' = Current_max_list S @ [(y, l1, l2')] \<and> length (Current_max_list S) < MAX_MATCH_MAX)"
proof (cases "UseProbability E")
  case True
  then obtain local y l2' where a: "assign_prob F E sp C (cf C) l1 cfp l2 closest = Some (local, y, l2')"
    using assms by (auto simp: eval_assign_def eval_assign_prob_def)
  show ?thesis
    by (rule that [of l2' y, OF assign_prob_flag [OF a]]) (use assms True a in \<open>auto simp: eval_assign_def eval_assign_prob_def split: if_splits\<close>)
next
  case False
  then obtain local n ga where a: "assign_score F E (cf C) l1 cfp l2 (sf_trunc F x) closest = Some (local, n, ga)"
    using assms by (auto simp: eval_assign_def eval_assign_score_def Let_def bind_eq_Some_conv)
  show ?thesis
    by (rule that [of l2 "num F (sf_trunc F x)"]) (use assms False a in \<open>auto simp: eval_assign_def eval_assign_score_def Let_def split: if_splits\<close>)
qed

lemma eval_assign_ok:
  assumes "eval_assign F E sp C cfp closest (l1, l2, x) S = Some S'" and "result_ok (cf C) cfp S"
    and "matching (cf C) cfp (flag l1) (flag l2)" and "decided (cf C) (flag l1)"
  shows "result_ok (cf C) cfp S'"
  by (rule eval_assign_cases [OF assms(1)]) (use assms(2-4) in \<open>auto simp: result_ok_def MAX_MATCH_MAX_def\<close>)

lemma init_current_ok: "result_ok cfd cfp (init_current F E)"
  by (simp add: result_ok_def init_current_def)

lemma case_frame_match_ok:
  assumes "case_frame_match F E sp C k cfp mode closest buf = Some (r, buf')"
  shows "\<exists>S. result_ok (cf C) cfp S \<and> result_num r = length (Current_max_list S) \<and> pure_score r = map fst (Current_max_list S) \<and>
    result_lists_d r = map (\<lambda>(_, l1, _). l1) (Current_max_list S) \<and> result_lists_p r = map (\<lambda>(_, _, l2). l2) (Current_max_list S) \<and>
    (\<exists>b. assign_list F E sp C (cf C) cfp mode (eval_assign F E sp C cfp closest) (Suc (element_num (cf C)))
      (init_list F) (init_list F) (num F 0) (buf, init_current F E) = Some (b, S)) \<and> frame_score F closest S = Some (cmm_score r)"
proof -
  obtain S b where S: "assign_list F E sp C (cf C) cfp mode (eval_assign F E sp C cfp closest) (Suc (element_num (cf C)))
      (init_list F) (init_list F) (num F 0) (buf, init_current F E) = Some (b, S)"
    and r: "frame_score F closest S = Some (cmm_score r)" "result_num r = length (Current_max_list S)" "pure_score r = map fst (Current_max_list S)"
      "result_lists_d r = map (\<lambda>(_, l1, _). l1) (Current_max_list S)" "result_lists_p r = map (\<lambda>(_, _, l2). l2) (Current_max_list S)"
    using assms by (auto simp: case_frame_match_def bind_eq_Some_conv simp del: assign_list.simps)
  have "result_ok (cf C) cfp (snd (b, S))"
    by (rule assign_list_invariant [where R = "result_ok (cf C) cfp", OF _ _ _ S])
      (auto simp: init_list_def matching_init init_current_ok dest: eval_assign_ok)
  then show ?thesis using r S by auto
qed

text \<open>
  C13. The best assignments of a case frame are matchings: every element of the sentence is assigned to one slot that
  has a case in common with it, or to none; two elements never share a slot; and the two lists that record the
  assignment from both sides agree. At most ten assignments are kept.
\<close>

theorem case_frame_match_matchings:
  assumes "case_frame_match F E sp C k cfp mode closest buf = Some (r, buf')" and "n < result_num r"
  defines "d \<equiv> flag (result_lists_d r ! n)" and "p \<equiv> flag (result_lists_p r ! n)"
  shows "result_num r \<le> MAX_MATCH_MAX \<and>
    (\<forall>i < element_num (cf C). d i = NIL_ASSIGNED \<or> (\<exists>j < element_num cfp. d i = int j \<and> p j = int i \<and> compatible (cf C) cfp i j)) \<and>
    (\<forall>j < element_num cfp. p j = UNASSIGNED \<or> (\<exists>i < element_num (cf C). p j = int i \<and> d i = int j))"
proof -
  obtain S where S: "result_ok (cf C) cfp S" "result_num r = length (Current_max_list S)"
    "result_lists_d r = map (\<lambda>(_, l1, _). l1) (Current_max_list S)" "result_lists_p r = map (\<lambda>(_, _, l2). l2) (Current_max_list S)"
    using case_frame_match_ok [OF assms(1)] by blast
  obtain x l1 l2 where e: "Current_max_list S ! n = (x, l1, l2)" by (metis prod.exhaust)
  then have "d = flag l1" "p = flag l2" using S assms(2) by (simp_all add: d_def p_def)
  moreover have "(x, l1, l2) \<in> set (Current_max_list S)" using e S(2) assms(2) by (metis nth_mem)
  ultimately have "matching (cf C) cfp d p" "decided (cf C) d" using S(1) by (auto simp: result_ok_def)
  then show ?thesis using S(1,2) by (auto simp: matching_def decided_def result_ok_def)
qed

section \<open>The most probable assignments\<close>

text \<open>The comparisons order the scores linearly, as those of doubles do without the values that are no numbers.\<close>

definition score_order :: "'f CASE_FLOAT \<Rightarrow> bool" where
  "score_order F \<longleftrightarrow>
     (\<forall>x. \<not> sf_less F x x) \<and> (\<forall>x y z. sf_less F x y \<longrightarrow> sf_less F y z \<longrightarrow> sf_less F x z) \<and>
     (\<forall>x y. sf_less F x y \<or> x = y \<or> sf_less F y x) \<and> (\<forall>x y. sf_eq F x y \<longleftrightarrow> x = y)"

text \<open>What the evaluation does with the keys: the greatest key so far and the entries that have it.\<close>

definition keep_greatest :: "'f CASE_FLOAT \<Rightarrow> bool \<Rightarrow> 'f \<times> 'e \<Rightarrow> 'f \<times> 'e list \<Rightarrow> 'f \<times> 'e list" where
  "keep_greatest F ties = (\<lambda>(x, e) (mx, es).
     if sf_less F mx x then (x, [e]) else if sf_eq F x mx \<and> ties \<and> length es < MAX_MATCH_MAX then (mx, es @ [e]) else (mx, es))"

text \<open>The first ten of the entries with the greatest key, or only the first one when ties are not kept.\<close>

definition greatest_entries :: "'f \<Rightarrow> bool \<Rightarrow> ('f \<times> 'e) list \<Rightarrow> 'f \<Rightarrow> 'e list" where
  "greatest_entries least ties ys mx =
     (let es = map snd (filter (\<lambda>y. fst y = mx) ys) in
      if ties then take MAX_MATCH_MAX es else if mx = least then [] else take 1 es)"

definition is_greatest :: "'f CASE_FLOAT \<Rightarrow> 'f \<Rightarrow> 'f list \<Rightarrow> 'f \<Rightarrow> bool" where
  "is_greatest F least xs mx \<longleftrightarrow> (mx = least \<or> mx \<in> set xs) \<and> \<not> sf_less F mx least \<and> (\<forall>x \<in> set xs. \<not> sf_less F mx x)"

lemma keep_greatest_fold:
  assumes order: "score_order F"
  shows "\<exists>mx. fold (keep_greatest F ties) ys (least, []) = (mx, greatest_entries least ties ys mx) \<and> is_greatest F least (map fst ys) mx"
proof (induction ys rule: rev_induct)
  case Nil
  then show ?case using order by (simp add: greatest_entries_def is_greatest_def score_order_def)
next
  case (snoc y ys)
  obtain x e where y: "y = (x, e)" by (cases y)
  obtain mx where mx: "fold (keep_greatest F ties) ys (least, []) = (mx, greatest_entries least ties ys mx)"
    "is_greatest F least (map fst ys) mx"
    using snoc.IH by blast
  have irrefl: "\<not> sf_less F z z" and trans: "sf_less F z v \<Longrightarrow> sf_less F v w \<Longrightarrow> sf_less F z w"
    and total: "sf_less F z v \<or> z = v \<or> sf_less F v z" and eq: "sf_eq F z v \<longleftrightarrow> z = v" for z v w
    using order unfolding score_order_def by blast+
  consider "sf_less F mx x" | "x = mx" | "sf_less F x mx" using total by blast
  then show ?case
  proof cases
    case 1
    have less: "sf_less F z x" if "z \<in> insert least (set (map fst ys))" for z
      using that mx(2) 1 trans total unfolding is_greatest_def by (metis insert_iff)
    have "fst z \<noteq> x" if "z \<in> set ys" for z using less [of "fst z"] irrefl that by auto
    then have "filter (\<lambda>z. fst z = x) ys = []" by (simp add: filter_empty_conv)
    moreover have "x \<noteq> least" using less [of least] irrefl by auto
    ultimately have "greatest_entries least ties (ys @ [y]) x = [e]" by (simp add: greatest_entries_def y MAX_MATCH_MAX_def Let_def)
    moreover have "\<not> sf_less F x z" if "z \<in> insert least (set (map fst ys))" for z using less [OF that] irrefl trans by blast
    then have "is_greatest F least (map fst (ys @ [y])) x" using irrefl by (simp add: is_greatest_def y)
    ultimately show ?thesis using 1 mx(1) by (simp add: keep_greatest_def y)
  next
    case 2
    have "is_greatest F least (map fst (ys @ [y])) mx" using mx(2) 2 irrefl by (auto simp: is_greatest_def y)
    moreover have "keep_greatest F ties y (mx, greatest_entries least ties ys mx) = (mx, greatest_entries least ties (ys @ [y]) mx)"
    proof (cases ties)
      case True
      then show ?thesis using 2 irrefl eq by (auto simp: keep_greatest_def greatest_entries_def y Let_def)
    next
      case False
      have "mx = least \<or> filter (\<lambda>z. fst z = mx) ys \<noteq> []" using mx(2) by (auto simp: is_greatest_def filter_empty_conv)
      then show ?thesis using 2 irrefl False by (cases "filter (\<lambda>z. fst z = mx) ys") (auto simp: keep_greatest_def greatest_entries_def y)
    qed
    ultimately show ?thesis using mx(1) by auto
  next
    case 3
    then have "x \<noteq> mx" "\<not> sf_less F mx x" using irrefl trans by blast+
    then show ?thesis using mx eq by (auto simp: keep_greatest_def greatest_entries_def is_greatest_def y)
  qed
qed

text \<open>An assignment with its probability as the key, and what is recorded of it.\<close>

definition keyed ::
  "'f CASE_FLOAT \<Rightarrow> 'f CASE_ENV \<Rightarrow> SENTENCE_DATA \<Rightarrow> CF_PRED_MGR \<Rightarrow> CASE_FRAME \<Rightarrow> int \<Rightarrow> 'f LIST \<times> 'f LIST \<times> 'f \<Rightarrow>
   ('f \<times> 'f \<times> 'f LIST \<times> 'f LIST) option" where
  "keyed F E sp C cfp closest = (\<lambda>(l1, l2, _).
     map_option (\<lambda>(x, y, l2'). (x, y, l1, l2')) (assign_prob F E sp C (cf C) l1 cfp l2 closest))"

lemma eval_prob_keeps:
  "eval_assign_prob F E sp C (cf C) cfp closest item S = Some S' \<Longrightarrow>
   \<exists>y. keyed F E sp C cfp closest item = Some y \<and> (Current_max_score S', Current_max_list S') =
     keep_greatest F (cf_type cfp = CF_PRED) y (Current_max_score S, Current_max_list S)"
proof -
  assume run: "eval_assign_prob F E sp C (cf C) cfp closest item S = Some S'"
  obtain l1 l2 x where item: "item = (l1, l2, x)" by (cases item)
  obtain local y l2' where a: "assign_prob F E sp C (cf C) l1 cfp l2 closest = Some (local, y, l2')"
    using run by (auto simp: item eval_assign_prob_def)
  then have "keyed F E sp C cfp closest item = Some (local, y, l1, l2')" by (simp add: item keyed_def)
  then show ?thesis using run a by (auto simp: item eval_assign_prob_def keep_greatest_def split: if_splits)
qed

lemma eval_prob_fold:
  "fold_option (eval_assign_prob F E sp C (cf C) cfp closest) items S = Some S' \<Longrightarrow>
   \<exists>ys. those (map (keyed F E sp C cfp closest) items) = Some ys \<and> (Current_max_score S', Current_max_list S') =
     fold (keep_greatest F (cf_type cfp = CF_PRED)) ys (Current_max_score S, Current_max_list S)"
proof (induction items arbitrary: S)
  case (Cons item items)
  then obtain S1 where S1: "eval_assign_prob F E sp C (cf C) cfp closest item S = Some S1"
    "fold_option (eval_assign_prob F E sp C (cf C) cfp closest) items S1 = Some S'"
    by (auto simp: bind_eq_Some_conv)
  from eval_prob_keeps [OF S1(1)] Cons.IH [OF S1(2)] show ?case by auto
qed simp


section \<open>The depth of the search\<close>

definition undecided :: "CASE_FRAME \<Rightarrow> (nat \<Rightarrow> int) \<Rightarrow> nat" where
  "undecided cfd fl = length (filter (\<lambda>i. fl i = UNASSIGNED) [0..<element_num cfd])"

lemma undecided_set:
  assumes "i < element_num cfd" and "fl i = UNASSIGNED" and "v \<noteq> UNASSIGNED"
  shows "Suc (undecided cfd (fl(i := v))) = undecided cfd fl"
proof -
  have eq: "undecided cfd g = card {k. k < element_num cfd \<and> g k = UNASSIGNED}" for g
  proof -
    have "{k. k < length [0..<element_num cfd] \<and> g ([0..<element_num cfd] ! k) = UNASSIGNED} = {k. k < element_num cfd \<and> g k = UNASSIGNED}"
      by auto
    then show ?thesis by (simp add: undecided_def length_filter_conv_card)
  qed
  have "{k. k < element_num cfd \<and> fl k = UNASSIGNED} = insert i {k. k < element_num cfd \<and> (fl(i := v)) k = UNASSIGNED}"
    using assms by auto
  then show ?thesis using assms(3) by (simp add: eq)
qed

lemma fold_option_cong_invariant:
  assumes "\<And>x s. x \<in> set xs \<Longrightarrow> I s \<Longrightarrow> f x s = g x s" and "\<And>x s s'. x \<in> set xs \<Longrightarrow> I s \<Longrightarrow> g x s = Some s' \<Longrightarrow> I s'" and "I s"
  shows "fold_option f xs s = fold_option g xs s"
  using assms
proof (induction xs arbitrary: s)
  case (Cons x xs)
  then have eq: "f x s = g x s" by simp
  show ?case
  proof (cases "g x s")
    case (Some s')
    have "fold_option f xs s' = fold_option g xs s'"
    proof (rule Cons.IH)
      show "f y u = g y u" if "y \<in> set xs" "I u" for y u using Cons.prems(1) that by simp
      show "I u'" if "y \<in> set xs" "I u" "g y u = Some u'" for y u u' using Cons.prems(2) [of y u u'] that by simp
      show "I s'" using Cons.prems(2) [of x s s'] Cons.prems(3) Some by simp
    qed
    then show ?thesis using eq Some by simp
  qed (simp add: eq)
qed simp

text \<open>Inside the loops only the entry of the element in question changes.\<close>

definition same_but :: "nat \<Rightarrow> (nat \<Rightarrow> int) \<Rightarrow> ('f, 's) search_state \<Rightarrow> bool" where
  "same_but i fl st \<longleftrightarrow> (\<forall>k. k \<noteq> i \<longrightarrow> flag (fst (fst st)) k = fl k)"

lemma try_case_same_but:
  "try_case F E sp C cfd cfp mode go i gaflag sotoflag score j t st = Some st' \<Longrightarrow> same_but i fl st \<Longrightarrow> same_but i fl st'"
  by (auto simp: try_case_def same_but_def Let_def bind_eq_Some_conv split: option.splits if_splits prod.splits)

lemma try_case_cong:
  assumes "\<And>l1 l2 x t. (\<forall>k. k \<noteq> i \<longrightarrow> flag l1 k = fl k) \<Longrightarrow> flag l1 i \<noteq> UNASSIGNED \<Longrightarrow> go l1 l2 x t = go' l1 l2 x t" and "same_but i fl st"
  shows "try_case F E sp C cfd cfp mode go i gaflag sotoflag score j t st = try_case F E sp C cfd cfp mode go' i gaflag sotoflag score j t st"
proof -
  obtain l1 l2 avail buf s where st: "st = ((l1, l2, avail, buf), s)" by (metis prod.exhaust)
  have "go (set_entry i (int j) y l1) l2' x u = go' (set_entry i (int j) y l1) l2' x u" for y l2' x u
    by (rule assms(1)) (use assms(2) in \<open>auto simp: st same_but_def UNASSIGNED_def\<close>)
  then show ?thesis by (simp add: st try_case_def Let_def cong: if_cong option.case_cong)
qed

lemma try_slot_same_but:
  assumes "try_slot F E sp C cfd cfp mode go i gaflag sotoflag score j st = Some st'" and "same_but i fl st"
  shows "same_but i fl st'"
proof (cases "flag (fst (snd (fst st))) j = UNASSIGNED")
  case True
  show ?thesis
    by (rule fold_option_invariant [OF assms(1) [unfolded try_slot_def if_P [OF True]]]) (use assms(2) in simp, rule try_case_same_but, assumption+)
qed (use assms in \<open>simp add: try_slot_def\<close>)

lemma try_slot_cong:
  assumes "\<And>l1 l2 x t. (\<forall>k. k \<noteq> i \<longrightarrow> flag l1 k = fl k) \<Longrightarrow> flag l1 i \<noteq> UNASSIGNED \<Longrightarrow> go l1 l2 x t = go' l1 l2 x t" and "same_but i fl st"
  shows "try_slot F E sp C cfd cfp mode go i gaflag sotoflag score j st = try_slot F E sp C cfd cfp mode go' i gaflag sotoflag score j st"
proof -
  have "fold_option (try_case F E sp C cfd cfp mode go i gaflag sotoflag score j) (pp cfd i) st =
      fold_option (try_case F E sp C cfd cfp mode go' i gaflag sotoflag score j) (pp cfd i) st"
  proof (rule fold_option_cong_invariant [where I = "same_but i fl"])
    show "try_case F E sp C cfd cfp mode go i gaflag sotoflag score j y s = try_case F E sp C cfd cfp mode go' i gaflag sotoflag score j y s"
      if "same_but i fl s" for y s by (rule try_case_cong [where fl = fl, OF assms(1) that])
    show "same_but i fl s'" if "same_but i fl s" "try_case F E sp C cfd cfp mode go' i gaflag sotoflag score j y s = Some s'" for y s s'
      by (rule try_case_same_but [OF that(2,1)])
  qed (rule assms(2))
  then show ?thesis by (simp add: try_slot_def)
qed

lemma assign_list_deeper:
  "undecided cfd (flag l1) < n \<Longrightarrow> undecided cfd (flag l1) < n' \<Longrightarrow>
   assign_list F E sp C cfd cfp mode ev n l1 l2 x t = assign_list F E sp C cfd cfp mode ev n' l1 l2 x t"
proof (induction n arbitrary: n' l1 l2 x t)
  case (Suc n)
  then obtain m where m: "n' = Suc m" by (cases n') auto
  show ?case
  proof (cases "next_target C cfd l1")
    case (Some i)
    note i = next_targetD(1) [OF Some]
    have go: "assign_list F E sp C cfd cfp mode ev n l1' l2' y u = assign_list F E sp C cfd cfp mode ev m l1' l2' y u"
      if "\<forall>k. k \<noteq> i \<longrightarrow> flag l1' k = flag l1 k" "flag l1' i \<noteq> UNASSIGNED" for l1' l2' y u
    proof -
      have "flag l1' = (flag l1)(i := flag l1' i)" using that(1) by auto
      then have "Suc (undecided cfd (flag l1')) = undecided cfd (flag l1)" using undecided_set [of i cfd "flag l1"] i that(2) by metis
      then show ?thesis using Suc.IH [of l1' m] Suc.prems m by simp
    qed
    have loop: "fold_option (try_slot F E sp C cfd cfp mode (assign_list F E sp C cfd cfp mode ev n) i ga sf x) js st =
        fold_option (try_slot F E sp C cfd cfp mode (assign_list F E sp C cfd cfp mode ev m) i ga sf x) js st"
      if "same_but i (flag l1) st" for ga sf js st
    proof (rule fold_option_cong_invariant [where I = "same_but i (flag l1)"])
      show "try_slot F E sp C cfd cfp mode (assign_list F E sp C cfd cfp mode ev n) i ga sf x j s =
          try_slot F E sp C cfd cfp mode (assign_list F E sp C cfd cfp mode ev m) i ga sf x j s" if "same_but i (flag l1) s" for j s
        by (rule try_slot_cong [where fl = "flag l1", OF go that])
      show "same_but i (flag l1) s'" if "same_but i (flag l1) s"
          "try_slot F E sp C cfd cfp mode (assign_list F E sp C cfd cfp mode ev m) i ga sf x j s = Some s'" for j s s'
        by (rule try_slot_same_but [OF that(2,1)])
    qed (rule that)
    have kept: "same_but i (flag l1) st'"
      if "fold_option (try_slot F E sp C cfd cfp mode (assign_list F E sp C cfd cfp mode ev m) i ga sf x) js ((l1, l2, b, buf), s) = Some st'" for ga sf js b buf s st'
      by (rule fold_option_invariant [OF that]) (simp add: same_but_def, rule try_slot_same_but, assumption+)
    have start: "same_but i (flag l1) ((l1, l2, b, buf), s)" for b buf s by (simp add: same_but_def)
    have rest: "assign_list F E sp C cfd cfp mode ev n (set_entry i NIL_ASSIGNED y l1') l2' z u =
        assign_list F E sp C cfd cfp mode ev m (set_entry i NIL_ASSIGNED y l1') l2' z u"
      if "same_but i (flag l1) ((l1', l2', avail, buf1), s1)" for l1' l2' avail buf1 s1 y z u
      by (rule go) (use that in \<open>auto simp: same_but_def NIL_ASSIGNED_def UNASSIGNED_def\<close>)
    show ?thesis
    proof (cases "filled_case cfp l2 s_kk_ga [0..<element_num cfp]")
      case ga: (Some ga)
      show ?thesis
      proof (cases "cf_match_element (c_env E) (cf_sm cfd i) s_sm_shutai False (fst t)")
        case subject: (Some r)
        show ?thesis
        proof (cases "fold_option (try_slot F E sp C cfd cfp mode (assign_list F E sp C cfd cfp mode ev m) i ga (\<not> fst r) x) [0..<element_num cfp]
            ((l1, l2, False, snd r), snd t)")
          case None
          then show ?thesis using Some ga subject by (cases r) (simp add: m loop [OF start])
        next
          case step: (Some u)
          obtain l1' l2' avail buf1 s1 where u: "u = ((l1', l2', avail, buf1), s1)" by (metis prod.exhaust)
          show ?thesis using Some ga subject step rest [OF kept [OF step, unfolded u]] by (cases r) (simp add: m loop [OF start] u Let_def)
        qed
      qed (use Some ga in \<open>simp add: m\<close>)
    qed (use Some in \<open>simp add: m\<close>)
  qed (simp add: m)
qed simp

text \<open>
  Nothing undefined in what the search consults: the markers, the names of the cases, the scores and the handler. The
  undefined read of \<open>check_adjacent_assigned\<close> needs a slot for no-phrases and an element next to the predicate.
\<close>

definition search_defined ::
  "'f CASE_FLOAT \<Rightarrow> 'f CASE_ENV \<Rightarrow> SENTENCE_DATA \<Rightarrow> CF_PRED_MGR \<Rightarrow> CASE_FRAME \<Rightarrow> CASE_FRAME \<Rightarrow> cf_mode \<Rightarrow>
   ('f LIST \<times> 'f LIST \<times> 'f \<Rightarrow> 's \<Rightarrow> 's option) \<Rightarrow> bool" where
  "search_defined F E sp C cfd cfp mode ev \<longleftrightarrow>
     (\<forall>item s. ev item s \<noteq> None) \<and>
     (\<forall>i < element_num cfd. \<forall>buf. cf_match_element (c_env E) (cf_sm cfd i) s_sm_shutai False buf \<noteq> None) \<and>
     (\<forall>j < element_num cfp. MatchPP2 (pp cfp j) s_kk_ga \<noteq> None \<and> MatchPP2 (pp cfp j) s_kk_to \<noteq> None) \<and>
     ((\<forall>j < element_num cfp. pp_kstr_to_code s_kk_no \<notin> set (pp cfp j)) \<or> (\<forall>i < element_num cfd. \<not> adjacent cfd i)) \<and>
     (\<forall>i < element_num cfd. \<forall>j < element_num cfp. \<forall>buf. elmnt_match_score F E sp C cfd i cfp j mode MATCH_NONE buf \<noteq> None)"

lemma fold_option_total:
  assumes "\<And>x s. x \<in> set xs \<Longrightarrow> I s \<Longrightarrow> \<exists>s'. f x s = Some s' \<and> I s'" and "I s"
  shows "\<exists>s'. fold_option f xs s = Some s' \<and> I s'"
  using assms
proof (induction xs arbitrary: s)
  case (Cons x xs)
  then obtain s' where s': "f x s = Some s'" "I s'" by (meson list.set_intros(1))
  have "\<exists>t. fold_option f xs s' = Some t \<and> I t" using Cons.IH [OF _ s'(2)] Cons.prems(1) by simp
  then show ?case using s'(1) by simp
qed simp

lemma filled_case_total: "(\<And>j. j \<in> set js \<Longrightarrow> MatchPP2 (pp cfp j) k \<noteq> None) \<Longrightarrow> \<exists>b. filled_case cfp l2 k js = Some b"
proof (induction js)
  case (Cons j js)
  then obtain b where "filled_case cfp l2 k js = Some b" by auto
  moreover obtain c where "MatchPP2 (pp cfp j) k = Some c" using Cons.prems [of j] by auto
  ultimately show ?case by (cases c) (simp_all add: ex_bool_eq)
qed (simp add: ex_bool_eq)

lemma first_fit_total: "(\<And>c. c \<in> set cs \<Longrightarrow> P c \<noteq> None) \<Longrightarrow> \<exists>r. first_fit P cs = Some r"
proof (induction cs)
  case (Cons c cs)
  then obtain r where "first_fit P cs = Some r" by auto
  moreover obtain b where "P c = Some b" using Cons.prems [of c] by auto
  ultimately show ?case by simp
qed simp

lemma check_adjacent_total: "\<forall>i < element_num cfd. \<not> adjacent cfd i \<Longrightarrow> check_adjacent_assigned cfd cfp l1 = Some False"
proof -
  have "\<forall>i \<in> set js. \<not> adjacent cfd i \<Longrightarrow> adjacent_assigned cfd cfp fl js = Some False" for fl js
    by (induction js) auto
  then show "\<forall>i < element_num cfd. \<not> adjacent cfd i \<Longrightarrow> ?thesis" by (simp add: check_adjacent_assigned_def)
qed

lemma try_case_total:
  assumes "search_defined F E sp C cfd cfp mode ev" and "i < element_num cfd" and "j < element_num cfp"
    and go: "\<And>l1 l2 x t. (\<forall>k. k \<noteq> i \<longrightarrow> flag l1 k = fl k) \<Longrightarrow> flag l1 i \<noteq> UNASSIGNED \<Longrightarrow> \<exists>r. go l1 l2 x t = Some r" and "same_but i fl st"
  shows "\<exists>st'. try_case F E sp C cfd cfp mode go i gaflag sotoflag score j t st = Some st' \<and> same_but i fl st'"
proof -
  obtain l1 l2 avail buf s where st: "st = ((l1, l2, avail, buf), s)" by (metis prod.exhaust)
  have "case_fits cfd cfp i gaflag sotoflag l1 t c \<noteq> None" if "c \<in> set (pp cfp j)" for c
    using assms(1,3) that check_adjacent_total [of cfd cfp l1] by (auto simp: search_defined_def case_fits_def)
  then obtain fit where fit: "first_fit (case_fits cfd cfp i gaflag sotoflag l1 t) (pp cfp j) = Some fit"
    using first_fit_total [of "pp cfp j" "case_fits cfd cfp i gaflag sotoflag l1 t"] by auto
  obtain x pos buf1 where x: "elmnt_match_score F E sp C cfd i cfp j mode MATCH_NONE buf = Some (x, pos, buf1)"
    using assms(1-3) unfolding search_defined_def by (metis not_Some_eq prod.exhaust)
  have "\<exists>b s'. go (set_entry i (int j) y l1) l2' z u = Some (b, s')" for y l2' z u
    using go [of "set_entry i (int j) y l1" l2' z u] assms(5) by (auto simp: st same_but_def UNASSIGNED_def)
  then obtain b s' where "go (set_entry i (int j) (weighted F cfd i x) l1) (set_pos j pos (set_entry j (int i) (weighted F cfd i x) l2))
      (sf_add F score (weighted F cfd i x)) (buf1, s) = Some (b, s')" by blast
  with fit x have "\<exists>st'. try_case F E sp C cfd cfp mode go i gaflag sotoflag score j t st = Some st'"
    by (auto simp: st try_case_def Let_def split: option.split)
  then show ?thesis using try_case_same_but [OF _ assms(5)] by blast
qed

lemma try_slot_total:
  assumes "search_defined F E sp C cfd cfp mode ev" and "i < element_num cfd" and "j < element_num cfp"
    and "\<And>l1 l2 x t. (\<forall>k. k \<noteq> i \<longrightarrow> flag l1 k = fl k) \<Longrightarrow> flag l1 i \<noteq> UNASSIGNED \<Longrightarrow> \<exists>r. go l1 l2 x t = Some r" and "same_but i fl st"
  shows "\<exists>st'. try_slot F E sp C cfd cfp mode go i gaflag sotoflag score j st = Some st' \<and> same_but i fl st'"
proof (cases "flag (fst (snd (fst st))) j = UNASSIGNED")
  case True
  show ?thesis unfolding try_slot_def if_P [OF True]
    by (rule fold_option_total [OF try_case_total [OF assms(1-3)] assms(5)]) (use assms(4) in blast)
qed (use assms(5) in \<open>simp add: try_slot_def\<close>)

lemma assign_list_total:
  assumes "search_defined F E sp C cfd cfp mode ev"
  shows "undecided cfd (flag l1) < n \<Longrightarrow> \<exists>r. assign_list F E sp C cfd cfp mode ev n l1 l2 x t = Some r"
proof (induction n arbitrary: l1 l2 x t)
  case (Suc n)
  show ?case
  proof (cases "next_target C cfd l1")
    case None
    then show ?thesis using assms by (auto simp: search_defined_def)
  next
    case (Some i)
    have i: "i < element_num cfd" and open_i: "flag l1 i = UNASSIGNED" using next_targetD(1) [OF Some] by simp_all
    have go: "\<exists>r. assign_list F E sp C cfd cfp mode ev n l1' l2' y u = Some r"
      if "\<forall>k. k \<noteq> i \<longrightarrow> flag l1' k = flag l1 k" "flag l1' i \<noteq> UNASSIGNED" for l1' l2' y u
    proof -
      have "flag l1' = (flag l1)(i := flag l1' i)" using that(1) by auto
      then have "Suc (undecided cfd (flag l1')) = undecided cfd (flag l1)" using undecided_set [of i cfd "flag l1"] i open_i that(2) by metis
      then show ?thesis using Suc by simp
    qed
    obtain ga where ga: "filled_case cfp l2 s_kk_ga [0..<element_num cfp] = Some ga"
      using filled_case_total [of "[0..<element_num cfp]" cfp s_kk_ga l2] assms by (auto simp: search_defined_def)
    obtain to where to: "filled_case cfp l2 s_kk_to [0..<element_num cfp] = Some to"
      using filled_case_total [of "[0..<element_num cfp]" cfp s_kk_to l2] assms by (auto simp: search_defined_def)
    obtain subject buf where subject: "cf_match_element (c_env E) (cf_sm cfd i) s_sm_shutai False (fst t) = Some (subject, buf)"
      using assms i unfolding search_defined_def by (metis not_Some_eq prod.exhaust)
    have "\<exists>st'. fold_option (try_slot F E sp C cfd cfp mode (assign_list F E sp C cfd cfp mode ev n) i ga (\<not> subject) x)
        [0..<element_num cfp] ((l1, l2, False, buf), snd t) = Some st' \<and> same_but i (flag l1) st'"
    proof (rule fold_option_total)
      show "\<exists>s'. try_slot F E sp C cfd cfp mode (assign_list F E sp C cfd cfp mode ev n) i ga (\<not> subject) x j s = Some s' \<and> same_but i (flag l1) s'"
        if "j \<in> set [0..<element_num cfp]" "same_but i (flag l1) s" for j s
        by (rule try_slot_total [OF assms i _ go that(2)]) (use that(1) in simp)
    qed (simp add: same_but_def)
    then obtain l1' l2' avail buf1 s1 where step: "fold_option (try_slot F E sp C cfd cfp mode (assign_list F E sp C cfd cfp mode ev n) i ga
        (\<not> subject) x) [0..<element_num cfp] ((l1, l2, False, buf), snd t) = Some ((l1', l2', avail, buf1), s1)"
        "\<forall>k. k \<noteq> i \<longrightarrow> flag l1' k = flag l1 k"
      by (auto simp: same_but_def)
    have "\<exists>r. assign_list F E sp C cfd cfp mode ev n (set_entry i NIL_ASSIGNED y l1') l2' z u = Some r" for y z u
      by (rule go) (use step(2) in \<open>auto simp: NIL_ASSIGNED_def UNASSIGNED_def\<close>)
    then show ?thesis using Some ga to subject step(1) by (simp add: Let_def)
  qed
qed simp

text \<open>
  C29. The search ends with a result: where nothing undefined is consulted, one call for each element of the sentence and
  one for the evaluation are enough, and a greater bound on the depth makes no difference.
\<close>

theorem assign_list_terminates:
  assumes "search_defined F E sp C (cf C) cfp mode ev"
  shows "\<exists>r. \<forall>n. assign_list F E sp C (cf C) cfp mode ev (Suc (element_num (cf C)) + n) (init_list F) l2 x t = Some r"
proof -
  have "undecided (cf C) (flag (init_list F)) \<le> element_num (cf C)"
    unfolding undecided_def using length_filter_le [of _ "[0..<element_num (cf C)]"] by (rule order_trans) simp
  then have enough: "undecided (cf C) (flag (init_list F)) < Suc (element_num (cf C)) + n" for n by simp
  obtain r where "assign_list F E sp C (cf C) cfp mode ev (Suc (element_num (cf C)) + 0) (init_list F) l2 x t = Some r"
    using assign_list_total [OF assms enough] by blast
  then show ?thesis using assign_list_deeper [OF enough enough] by metis
qed

section \<open>Words without codes\<close>

text \<open>
  A word without a code in the thesaurus that is marked as a clause, a time or an amount is compared with a slot without
  markers by reading the table of scores in front of its beginning.
\<close>

theorem codeless_word_undefined:
  assumes "elem_b_ptr C i < length (tag_data sp)" and "\<not> has_feature (n_f (tag_data sp ! elem_b_ptr C i)) s_shijishi"
    and "\<not> UseProbability E" and "MatchPP (pp0 (pp (cf C) i)) s_kk_shuushoku = Some False" and "MatchPP (pp0 (pp cfp j)) s_soto = Some False"
    and "word_similarity E (tag_data sp ! elem_b_ptr C i) cfp j MATCH_NONE = (x, MATCH_NONE)" and "cf_sm cfp j = None"
    and "\<not> sf_less F (num F 1) x" and "sf_trunc F (sf_single F (sf_mul F x (num F 7))) < 0"
    and "cf_ex (cf C) i = Some []" and "cf_sm (cf C) i = Some sm" and "sm \<noteq> []"
  shows "elmnt_match_score F E sp C (cf C) i cfp j EXAMPLE MATCH_NONE buf = None"
proof -
  have "raw_score F False x = None" using assms(9) by (simp add: raw_score_def)
  moreover have "calc_similarity_word_cf_with_sm F E (tag_data sp ! elem_b_ptr C i) cfp j MATCH_NONE buf = Some (x, MATCH_NONE, buf)"
    using assms(6-8) by (simp add: calc_similarity_word_cf_with_sm_def cf_match_sm_thesaurus_def)
  ultimately show ?thesis
    using assms by (simp add: elmnt_match_score_def example_score_def MATCH_NONE_def MATCH_SUBJECT_def Let_def split: bind_split)
qed

section \<open>Examples\<close>

definition sample_case_float :: "int CASE_FLOAT" where
  "sample_case_float =
     \<lparr>sf_lit = (\<lambda>m k. m div 10 ^ k), sf_sub = (-), sf_mul = (*), sf_div = (div), sf_less = (<), sf_single = id, sf_trunc = id,
      sf_add = (+), sf_le = (\<le>), sf_eq = (=), sf_sqrt = id\<rparr>"

definition sample_words :: SENTENCE_DATA where
  "sample_words = (sample_sentence [])\<lparr>tag_data := replicate 3 zero_tag\<rparr>"

text \<open>An element for the first or the second slot and one for the second slot.\<close>

definition sample_frame :: "int list list \<Rightarrow> CASE_FRAME" where
  "sample_frame ps =
     \<lparr>cf_type = CF_PRED, element_num = length ps, oblig = (\<lambda>_. True), adjacent = (\<lambda>_. False), pp = (\<lambda>i. if i < length ps then ps ! i else []),
      cf_sp = (\<lambda>_. 0), cf_sm = (\<lambda>_. None), cf_ex = (\<lambda>_. Some []), weight = (\<lambda>_. 0), samecase = []\<rparr>"

definition sample_predicate :: CF_PRED_MGR where
  "sample_predicate = \<lparr>cf = sample_frame [[1, 2], [2]], pred_b_ptr = 2, elem_b_ptr = id, elem_b_num = (\<lambda>_. 0)\<rparr>"

definition sample_case_env :: "bool \<Rightarrow> int CASE_ENV" where
  "sample_case_env prob =
     \<lparr>c_env = sample_env, UseProbability = prob, OptEllipsis = False, SMExist = False, SOTO_THRESHOLD = 0, NOUN_THRESHOLD = 5,
      word_similarity = (\<lambda>_ _ _ pos. (-1, pos)), ex_probability = (\<lambda>i _ j _. if i = j then -5 else -9), case_probability = (\<lambda>_ _ _. -1),
      case_function_probability = (\<lambda>_ _ _ _. 0), nil_function_probability = (\<lambda>_ _ _. 0), cf_probability = (\<lambda>_ _. -2),
      np_modifying_probability = (\<lambda>_ _. 0), case_probability_from_str = (\<lambda>_ _. -3), topic_generating_probability = (\<lambda>_ _. 0),
      case_num_probability = (\<lambda>_ _. 0)\<rparr>"

definition sample_matched :: "(int CF_MATCH_MGR \<times> string) option" where
  "sample_matched =
     case_frame_match sample_case_float (sample_case_env True) sample_words sample_predicate 0 (sample_frame [[1], [2]]) EXAMPLE (-1) []"

definition sample_flags :: "int CF_MATCH_MGR \<Rightarrow> nat \<times> int list \<times> int list list \<times> int list list" where
  "sample_flags r =
     (result_num r, pure_score r, map (\<lambda>l. map (flag l) [0, 1]) (result_lists_d r), map (\<lambda>l. map (flag l) [0, 1]) (result_lists_p r))"

lemmas sample_defs = sample_case_float_def sample_case_env_def sample_predicate_def sample_frame_def sample_words_def sample_flags_def

lemmas matching_defs = case_frame_match_def init_list_def init_current_def eval_assign_def frame_score_def next_target_def
  cf_match_element_def try_slot_def try_case_def case_fits_def elmnt_match_score_def worth_trying_def set_entry_def set_pos_def weighted_def
  eval_assign_prob_def assign_prob_def prob_element_def prob_slot_def element_missing_def

lemmas case_consts = UNASSIGNED_def NIL_ASSIGNED_def MATCH_NONE_def CASE_MATCH_FAILURE_PROB_def CF_PRED_def CF_NOUN_def MAX_MATCH_MAX_def

lemma names_differ:
  "s_kk_ga \<noteq> s_kk_to" "s_kk_wo \<noteq> s_kk_to" "s_kk_wo \<noteq> s_kk_ga" "s_kk_ga \<noteq> s_kk_phi" "s_kk_wo \<noteq> s_kk_phi"
  "s_kk_ga \<noteq> s_kk_shuushoku" "s_kk_wo \<noteq> s_kk_shuushoku" "s_kk_wo \<noteq> s_soto" "s_kk_ga \<noteq> s_soto"
  by (simp_all add: lit)

lemma CF_MatchPP_list: "CF_MatchPP c f \<longleftrightarrow> list_ex (\<lambda>i. c \<in> set (pp f i)) [0..<element_num f]"
  by (auto simp: CF_MatchPP_def list_ex_iff)

lemma zero_tag_fields: "n_num zero_tag = 0" "n_f zero_tag = []"
  by (simp_all add: zero_tag_def NODE.extend_def TAG_DATA.fields_def)

lemma sample_matched_flags: "map_option (\<lambda>(r, _). sample_flags r) sample_matched = Some (1, [-14], [[0, 1]], [[0, 1]])"
  by (simp add: sample_matched_def sample_defs matching_defs case_consts kstr_codes kstr_names names_differ MatchPP_def pp0_def Let_def CF_MatchPP_list FREQ0_ASSINED_SCORE_def
      at_def zero_tag_fields NIL_ASSINED_SCORE_def)

theorem case_frame_match_matchings_witness:
  "\<exists>r buf. sample_matched = Some (r, buf) \<and> result_num r = 1 \<and> (\<exists>j < 2. flag (result_lists_d r ! 0) 0 = int j \<and> flag (result_lists_p r ! 0) j = 0)"
proof -
  obtain r buf where r: "sample_matched = Some (r, buf)" "sample_flags r = (1, [-14], [[0, 1]], [[0, 1]])"
    using sample_matched_flags by auto
  have n: "result_num r = 1" "flag (result_lists_d r ! 0) 0 = 0" using r(2) by (auto simp: sample_flags_def Cons_eq_map_conv)
  have "\<forall>i < 2. flag (result_lists_d r ! 0) i = NIL_ASSIGNED \<or> (\<exists>j < 2. flag (result_lists_d r ! 0) i = int j \<and> flag (result_lists_p r ! 0) j = int i)"
    using case_frame_match_matchings [OF r(1) [unfolded sample_matched_def], of 0] n(1)
    by (simp add: sample_predicate_def sample_frame_def numeral_2_eq_2) blast
  then have "\<exists>j < 2. flag (result_lists_d r ! 0) 0 = int j \<and> flag (result_lists_p r ! 0) j = int 0"
    using n(2) by (auto simp: NIL_ASSIGNED_def dest: spec [of _ 0])
  then show ?thesis using r(1) n(1) by auto
qed


theorem assign_list_terminates_witness:
  "\<exists>r. \<forall>n. assign_list sample_case_float (sample_case_env True) sample_words sample_predicate (cf sample_predicate) (sample_frame [[1], [2]])
     EXAMPLE (\<lambda>_ k. Some (Suc k)) (Suc (element_num (cf sample_predicate)) + n) (init_list sample_case_float) (init_list sample_case_float) 0 ([], 0) = Some r"
proof (rule assign_list_terminates)
  show "search_defined sample_case_float (sample_case_env True) sample_words sample_predicate (cf sample_predicate) (sample_frame [[1], [2]])
      EXAMPLE (\<lambda>_ k. Some (Suc k))"
    by (simp add: search_defined_def sample_defs cf_match_element_def elmnt_match_score_def All_less_Suc kstr_names names_differ
        ex_bool_eq)
qed

definition sample_clause :: CF_PRED_MGR where
  "sample_clause = sample_predicate\<lparr>cf := (sample_frame [[2]])\<lparr>cf_sm := \<lambda>_. Some ''x***********''\<rparr>\<rparr>"

theorem codeless_word_undefined_witness:
  "elmnt_match_score sample_case_float (sample_case_env False) sample_words sample_clause (cf sample_clause) 0 (sample_frame [[2]]) 0 EXAMPLE MATCH_NONE [] = None"
proof (rule codeless_word_undefined [where x = "-1" and sm = "''x***********''"])
  show "elem_b_ptr sample_clause 0 < length (tag_data sample_words)" by code_simp
  show "\<not> has_feature (n_f (tag_data sample_words ! elem_b_ptr sample_clause 0)) s_shijishi" by code_simp
  show "MatchPP (pp0 (pp (cf sample_clause) 0)) s_kk_shuushoku = Some False" "MatchPP (pp0 (pp (sample_frame [[2]]) 0)) s_soto = Some False"
    by (simp_all add: sample_clause_def sample_predicate_def sample_frame_def MatchPP_def pp0_def kstr_names names_differ)
qed (simp_all add: sample_case_env_def sample_case_float_def sample_clause_def sample_frame_def)

end
