(* ===== verification/Knp_Post.thy ===== *)
theory Knp_Post
  imports Knp_Heads Knp_Scope
begin

text \<open>
  After the analysis (\<open>src/system/dpnd_analysis.c\<close>): features for coordinated predicates and for the
  candidates of dependencies, and the proof that the joining of base phrases for the output is reversed for the
  next output.
\<close>

section \<open>The model\<close>

text \<open>A coordinated predicate takes a topic; the status of the coordinations is read only.\<close>

definition para_postprocess_step :: "'f PARA_DATA list \<Rightarrow> nat \<Rightarrow> SENTENCE_DATA \<Rightarrow> SENTENCE_DATA option" where
  "para_postprocess_step ps i sp =
     do { b \<leftarrow> at (bnst_data sp) i;
          if check_feature (n_f b) s_yougen \<noteq> None \<and> check_feature (n_f b) s_to_mirareru = None \<and> n_para_num b \<noteq> -1
          then do { p \<leftarrow> (if 0 \<le> n_para_num b then at ps (nat (n_para_num b)) else None);
                    if pd_status p = CHR ''x'' then Some sp
                    else do { k \<leftarrow> tag_index b 0;
                              _ \<leftarrow> at (tag_data sp) k;
                              Some (set_tag k (\<lambda>t. t\<lparr>n_f := assign_cfeature [] (n_f t) s_teidai_uke_30 False\<rparr>)
                                     (set_bnst i (\<lambda>b. b\<lparr>n_f := assign_cfeature [] (n_f b) s_teidai_uke_30 False\<rparr>) sp)) } }
          else Some sp }"

definition para_postprocess :: "'f PARA_DATA list \<Rightarrow> SENTENCE_DATA \<Rightarrow> SENTENCE_DATA option" where
  "para_postprocess ps sp = fold_option (para_postprocess_step ps) [0..<Bnst_num sp] sp"

text \<open>The numbers of the last base phrases, by the number of the bunsetsu.\<close>

definition b2t_step :: "SENTENCE_DATA \<Rightarrow> nat \<Rightarrow> (nat \<Rightarrow> int option) \<Rightarrow> (nat \<Rightarrow> int option) option" where
  "b2t_step sp i table =
     do { b \<leftarrow> at (bnst_data sp) i; k \<leftarrow> tag_index b 0; t \<leftarrow> at (tag_data sp) k;
          if 0 \<le> n_num b then Some (table(nat (n_num b) := Some (n_num t))) else None }"

text \<open>The texts for the bunsetsu and the base phrase, or none where they get too long.\<close>

fun candidate_texts :: "(nat \<Rightarrow> int option) \<Rightarrow> nat list \<Rightarrow> string \<times> string \<Rightarrow> (string \<times> string) option option" where
  "candidate_texts table [] (b, t) = Some (Some (b, t))"
| "candidate_texts table (j # js) (b, t) =
     do { n \<leftarrow> table j;
          let tmp_b = CHR '':'' # print_int (int j);
          let tmp_t = CHR '':'' # print_int n;
          if DATA_LEN \<le> length t + length tmp_t then Some None
          else do { b' \<leftarrow> Knp_Mrph.fits DATA_LEN (b @ tmp_b); candidate_texts table js (b', t @ tmp_t) } }"

fun candidate_loop :: "(nat \<Rightarrow> int option) \<Rightarrow> DPND \<Rightarrow> nat list \<Rightarrow> SENTENCE_DATA \<Rightarrow> SENTENCE_DATA option" where
  "candidate_loop table dp [] sp = Some sp"
| "candidate_loop table dp (i # js) sp =
     (if ck_num (d_check dp i) = -1 then candidate_loop table dp js sp
      else do { texts \<leftarrow> candidate_texts table (take (nat (ck_num (d_check dp i))) (ck_pos (d_check dp i))) (s_kouho, s_kouho);
                case texts of
                  None \<Rightarrow> Some sp
                | Some (b_buffer, t_buffer) \<Rightarrow>
                    do { b \<leftarrow> at (bnst_data sp) i; k \<leftarrow> tag_index b 0; _ \<leftarrow> at (tag_data sp) k;
                         candidate_loop table dp js
                           (set_tag k (\<lambda>t. t\<lparr>n_f := assign_cfeature [] (n_f t) t_buffer False\<rparr>)
                             (set_bnst i (\<lambda>b. b\<lparr>n_f := assign_cfeature [] (n_f b) b_buffer False\<rparr>) sp)) } })"

definition check_candidates :: "DPND \<Rightarrow> SENTENCE_DATA \<Rightarrow> SENTENCE_DATA option" where
  "check_candidates dp sp =
     do { table \<leftarrow> fold_option (b2t_step sp) [0..<Bnst_num sp] (\<lambda>_. None);
          candidate_loop table dp [0..<Bnst_num sp] sp }"

section \<open>What the joining keeps\<close>

text \<open>The fields that the reversal restores.\<close>

abbreviation tg :: "SENTENCE_DATA \<Rightarrow> nat \<Rightarrow> TAG_DATA" where "tg s i \<equiv> tag_data s ! i"
abbreviation bn :: "SENTENCE_DATA \<Rightarrow> nat \<Rightarrow> BNST_DATA" where "bn s b \<equiv> bnst_data s ! b"

definition sizes :: "SENTENCE_DATA \<Rightarrow> nat \<times> nat \<times> nat \<times> nat \<times> MRPH_DATA list" where
  "sizes s = (length (tag_data s), length (bnst_data s), Tag_num s, Bnst_num s, mrph_data s)"

text \<open>
  Before base phrase \<open>i\<close> is looked at: the units before it remember their number of morphemes, the others still
  have it, and the first bunsetsu is not joined.
\<close>

definition joining :: "SENTENCE_DATA \<Rightarrow> nat \<Rightarrow> SENTENCE_DATA \<Rightarrow> bool" where
  "joining sp i s \<longleftrightarrow> sizes s = sizes sp \<and>
     (\<forall>k < Tag_num sp. t_bnum (tg s k) = t_bnum (tg sp k) \<and> t_b_ptr (tg s k) = t_b_ptr (tg sp k) \<and> n_mrph_ptr (tg s k) = n_mrph_ptr (tg sp k) \<and>
        (if k < i then n_preserve_mrph_num (tg s k) else n_mrph_num (tg s k)) = n_mrph_num (tg sp k)) \<and>
     (\<forall>b < Bnst_num sp. n_mrph_ptr (bn s b) = n_mrph_ptr (bn sp b) \<and>
        (if first_of sp b < i then n_preserve_mrph_num (bn s b) else n_mrph_num (bn s b)) = n_mrph_num (bn sp b)) \<and>
     n_num (bn s 0) \<noteq> -1"

lemma set_bnst_at: "b < length (bnst_data s) \<Longrightarrow> bn (set_bnst b f s) c = (if c = b then f (bn s b) else bn s c)"
  by (simp add: set_bnst_def)

lemma set_tag_at: "i < length (tag_data s) \<Longrightarrow> tg (set_tag i f s) k = (if k = i then f (tg s i) else tg s k)"
  by (simp add: set_tag_def)

lemma sizes_set [simp]: "sizes (set_tag i f s) = sizes s" "sizes (set_bnst b g s) = sizes s"
  by (simp_all add: sizes_def set_tag_def set_bnst_def)

lemma sizesD:
  "sizes s = sizes sp \<Longrightarrow> length (tag_data s) = length (tag_data sp)"
  "sizes s = sizes sp \<Longrightarrow> length (bnst_data s) = length (bnst_data sp)"
  "sizes s = sizes sp \<Longrightarrow> Tag_num s = Tag_num sp" "sizes s = sizes sp \<Longrightarrow> Bnst_num s = Bnst_num sp"
  "sizes s = sizes sp \<Longrightarrow> mrph_data s = mrph_data sp"
  by (simp_all add: sizes_def)

text \<open>The base phrase and its place.\<close>

lemma tag_place:
  assumes p: "phrased sp" and i: "i < Tag_num sp"
  obtains b k where "b < Bnst_num sp" "k < count_of sp b" "i = first_of sp b + k" "t_b_ptr (tg sp i) = b"
    "t_bnum (tg sp i) = (if k = 0 then int b else -1)" "n_num (tg sp i) = int i"
proof -
  obtain b k where b: "b < Bnst_num sp" "k < count_of sp b" "i = first_of sp b + k" by (rule tag_in_bnst [OF p i])
  then show ?thesis using phrasedD(2) [OF p b(1,2)] by (intro that [of b k]) (auto simp: tag_fits_def Let_def)
qed

lemma preserve_num_joining:
  assumes p: "phrased sp" and i: "i < Tag_num sp" and J: "joining sp i s" and run: "preserve_num i s = Some s'"
  shows "joining sp (Suc i) s'"
proof -
  obtain b k where b: "b < Bnst_num sp" "k < count_of sp b" "i = first_of sp b + k" "t_b_ptr (tg sp i) = b"
    "t_bnum (tg sp i) = (if k = 0 then int b else -1)"
    by (rule tag_place [OF p i])
  have sz: "sizes s = sizes sp" using J by (simp add: joining_def)
  note L = sizesD [OF sz]
  have il: "i < length (tag_data s)" and bl: "b < length (bnst_data s)" using p i b(1) L by (auto simp: phrased_def)
  have ti: "t_bnum (tg s i) = t_bnum (tg sp i)" "t_b_ptr (tg s i) = b" using J i b(4) by (simp_all add: joining_def)
  have less: "first_of sp c < Suc i \<longleftrightarrow> first_of sp c < i \<or> (k = 0 \<and> c = b)" if c: "c < Bnst_num sp" for c
    using same_bnst(1) [OF p b(1) c b(2), of 0] phrasedD(1) [OF p c] b(3) by (auto simp: less_Suc_eq)
  show ?thesis
  proof (cases "k = 0")
    case True
    then have s': "s' = set_bnst b (\<lambda>b. b\<lparr>n_preserve_mrph_num := n_mrph_num b\<rparr>) (set_tag i (\<lambda>t. t\<lparr>n_preserve_mrph_num := n_mrph_num t\<rparr>) s)"
      using run ti b(5) il bl by (auto simp: preserve_num_def bind_eq_Some_conv)
    have nb: "n_mrph_num (bn s b) = n_mrph_num (bn sp b)" "n_mrph_num (tg s i) = n_mrph_num (tg sp i)"
      using J b(1,3) True i by (auto simp: joining_def)
    show ?thesis using J il bl nb less by (auto simp: s' joining_def set_tag_at set_bnst_at less_Suc_eq)
  next
    case False
    then have s': "s' = set_tag i (\<lambda>t. t\<lparr>n_preserve_mrph_num := n_mrph_num t\<rparr>) s"
      using run ti b(5) il by (auto simp: preserve_num_def bind_eq_Some_conv)
    have "n_mrph_num (tg s i) = n_mrph_num (tg sp i)"
      using J [unfolded joining_def, THEN conjunct2, THEN conjunct1, rule_format, OF i] by simp
    then show ?thesis using J il less False by (auto simp: s' joining_def set_tag_at less_Suc_eq)
  qed
qed

text \<open>Changes of units that are remembered already.\<close>

lemma joining_set_tag:
  assumes "joining sp i s" and "k < i \<and> k < length (tag_data s)"
    and "\<And>t. t_bnum (f t) = t_bnum t \<and> t_b_ptr (f t) = t_b_ptr t \<and> n_mrph_ptr (f t) = n_mrph_ptr t \<and> n_preserve_mrph_num (f t) = n_preserve_mrph_num t"
  shows "joining sp i (set_tag k f s)"
  using assms by (auto simp: joining_def set_tag_at)

lemma joining_set_bnst:
  assumes "joining sp i s" and "b < length (bnst_data s)" "first_of sp b < i" "0 < b \<or> (\<forall>x. n_num (g x) = n_num x)"
    and "\<And>x. n_mrph_ptr (g x) = n_mrph_ptr x \<and> n_preserve_mrph_num (g x) = n_preserve_mrph_num x"
  shows "joining sp i (set_bnst b g s)"
  using assms by (auto simp: joining_def set_bnst_at)

lemma merge_tag_joining:
  assumes J: "joining sp (Suc i) s" and run: "merge_tag i s = Some s'"
  shows "joining sp (Suc i) s'"
proof -
  obtain to bytes where to: "find (\<lambda>k. 0 \<le> n_num (tg s k)) (rev [0..<i]) = Some to" and il: "i < length (tag_data s)"
    and s': "s' = set_tag to (\<lambda>d. (take_over bytes (tg s i) d)\<lparr>n_f := assign_cfeature [] (n_f d) s_merged_tag False\<rparr>)
                 (set_tag i (\<lambda>t. t\<lparr>n_num := -1\<rparr>) s)"
    using run by (auto simp: merge_tag_def bind_eq_Some_conv)
  have lt: "to < i" using to by (auto simp: find_Some_iff rev_nth)
  have J1: "joining sp (Suc i) (set_tag i (\<lambda>t. t\<lparr>n_num := -1\<rparr>) s)" by (rule joining_set_tag [OF J]) (use il in auto)
  show ?thesis unfolding s' by (rule joining_set_tag [OF J1]) (use lt il in \<open>auto simp: take_over_def\<close>)
qed

lemma find_in_set: "find P xs = Some x \<Longrightarrow> x \<in> set xs"
  by (auto simp: find_Some_iff)

lemma merge_bnst_joining:
  assumes p: "phrased sp" and J: "joining sp (Suc i) s" and b: "b < Bnst_num sp" "first_of sp b = i" and run: "merge_bnst b n s = Some s'"
  shows "joining sp (Suc i) s'"
proof -
  obtain to bytes where to: "merge_target s b = Some to" and bl: "b < length (bnst_data s)"
    and s': "s' = set_bnst to (\<lambda>d. take_over bytes (bn s b) (copy_para_info d (bn s b))) (set_bnst b (\<lambda>s. s\<lparr>n_num := -1\<rparr>) s)"
    using run by (auto simp: merge_bnst_def bind_eq_Some_conv)
  have "to < b"
  proof -
    define n where "n = nat (n_num (bn s b)) + 1"
    define m where "m = (case find (\<lambda>m. m \<le> b \<and> 0 \<le> n_num (bn s (b - m))) [1..<n] of Some m \<Rightarrow> m | None \<Rightarrow> n)"
    have "1 \<le> m"
    proof (cases "find (\<lambda>m. m \<le> b \<and> 0 \<le> n_num (bn s (b - m))) [1..<n]")
      case (Some x)
      then have "x \<in> set [1..<n]" by (rule find_in_set)
      then show ?thesis unfolding m_def Some by simp
    next
      case None
      show ?thesis unfolding m_def None by (simp add: n_def)
    qed
    moreover have "m \<le> b \<and> to = b - m" using to [unfolded merge_target_def Let_def, folded n_def, folded m_def] by (simp split: if_split_asm)
    ultimately show ?thesis by linarith
  qed
  then have lt: "first_of sp to < Suc i" using first_mono [OF p _ b(1)] b(2) less_SucI by blast
  have J1: "joining sp (Suc i) (set_bnst b (\<lambda>s. s\<lparr>n_num := -1\<rparr>) s)"
    by (rule joining_set_bnst [OF J bl]) (use b \<open>to < b\<close> in auto)
  show ?thesis unfolding s'
    by (rule joining_set_bnst [OF J1]) (use bl lt \<open>to < b\<close> in \<open>auto simp: take_over_def copy_para_info_def\<close>)
qed

lemma join_step_joining:
  assumes p: "phrased sp" and i: "i < Tag_num sp" and J: "joining sp i s" and run: "join_step i (c, tt, s) = Some (c', tt', s')"
  shows "joining sp (Suc i) s' \<and> length tt' = Suc (length tt)"
proof -
  obtain s1 where s1: "preserve_num i s = Some s1" using run by (auto simp: join_step_def bind_eq_Some_conv)
  note J1 = preserve_num_joining [OF p i J s1]
  note L = sizesD [of s1 sp]
  have sz: "sizes s1 = sizes sp" using J1 by (simp add: joining_def)
  have il: "i < length (tag_data s1)" using p i L [OF sz] by (auto simp: phrased_def)
  obtain b k where b: "b < Bnst_num sp" "k < count_of sp b" "i = first_of sp b + k" "t_b_ptr (tg sp i) = b"
    "t_bnum (tg sp i) = (if k = 0 then int b else -1)"
    by (rule tag_place [OF p i])
  have ti: "t_bnum (tg s1 i) = t_bnum (tg sp i)" "t_b_ptr (tg s1 i) = b" using J1 i b(4) by (simp_all add: joining_def)
  show ?thesis
  proof (cases "check_feature (n_f (tg s1 i)) s_t_merge \<noteq> None")
    case True
    then obtain s2 where s2: "merge_tag i s1 = Some s2"
      and s': "(if 0 \<le> t_bnum (tg s1 i) then merge_bnst b (n_mrph_num (tg s1 i)) s2 else Some s2) = Some s'" and tt: "tt' = tt @ [c]"
      using run s1 il ti by (auto simp: join_step_def bind_eq_Some_conv)
    note J2 = merge_tag_joining [OF J1 s2]
    show ?thesis
    proof (cases "k = 0")
      case True
      then show ?thesis using s' ti b tt merge_bnst_joining [OF p J2 b(1)] by auto
    next
      case False
      then show ?thesis using s' ti b(5) tt J2 by auto
    qed
  next
    case False
    then show ?thesis using run s1 il J1 by (auto simp: join_step_def bind_eq_Some_conv)
  qed
qed

lemma join_fold_joining:
  assumes p: "phrased sp" and first: "n_num (bn sp 0) \<noteq> -1" and "i \<le> Tag_num sp"
    and "fold_option join_step [0..<i] (-1, [], sp) = Some (c, tt, s)"
  shows "joining sp i s \<and> length tt = i"
  using assms(3,4)
proof (induction i arbitrary: c tt s)
  case 0
  then show ?case using first by (auto simp: joining_def)
next
  case (Suc i)
  then obtain c1 tt1 s1 where run: "fold_option join_step [0..<i] (-1, [], sp) = Some (c1, tt1, s1)"
    and step: "join_step i (c1, tt1, s1) = Some (c, tt, s)"
    by (auto simp: fold_option_append bind_eq_Some_conv split: option.splits)
  then show ?case using join_step_joining [OF p _ _ step] Suc.IH [OF _ run] Suc.prems(1) by auto
qed

text \<open>After the joining, with or without new numbers.\<close>

definition joined :: "SENTENCE_DATA \<Rightarrow> SENTENCE_DATA \<Rightarrow> bool" where
  "joined sp s \<longleftrightarrow> sizes s = sizes sp \<and>
     (\<forall>k < Tag_num sp. (0 \<le> t_bnum (tg s k) \<longleftrightarrow> 0 \<le> t_bnum (tg sp k)) \<and> (t_bnum (tg sp k) < 0 \<longrightarrow> t_bnum (tg s k) = t_bnum (tg sp k)) \<and>
        t_b_ptr (tg s k) = t_b_ptr (tg sp k) \<and> n_mrph_ptr (tg s k) = n_mrph_ptr (tg sp k) \<and> n_preserve_mrph_num (tg s k) = n_mrph_num (tg sp k)) \<and>
     (\<forall>b < Bnst_num sp. n_mrph_ptr (bn s b) = n_mrph_ptr (bn sp b) \<and> n_preserve_mrph_num (bn s b) = n_mrph_num (bn sp b))"

lemma joining_joined: "phrased sp \<Longrightarrow> joining sp (Tag_num sp) s \<Longrightarrow> joined sp s"
proof -
  assume p: "phrased sp" and J: "joining sp (Tag_num sp) s"
  have "first_of sp b < Tag_num sp" if "b < Bnst_num sp" for b
    using end_le_Tag_num [OF p that] phrasedD(1) [OF p that] by simp
  then show "joined sp s" using J by (auto simp: joining_def joined_def)
qed

lemma b_table_nonneg: "n_num (bn s 0) \<noteq> -1 \<Longrightarrow> 0 \<le> b_table s i"
proof -
  assume "n_num (bn s 0) \<noteq> -1"
  then have "0 \<in> set (filter (\<lambda>k. n_num (bn s k) \<noteq> -1) [0..<Suc i])" by (simp del: upt_Suc)
  then have "filter (\<lambda>k. n_num (bn s k) \<noteq> -1) [0..<Suc i] \<noteq> []" by (metis empty_iff list.set(1))
  then have "0 < length (filter (\<lambda>k. n_num (bn s k) \<noteq> -1) [0..<Suc i])" by (rule length_greater_0_conv [THEN iffD2])
  then show "0 \<le> b_table s i" unfolding b_table_def by linarith
qed

lemma renumber_tag_joined:
  assumes J: "joined sp s" and i: "i < Tag_num sp" and bt: "\<And>b. 0 \<le> bt b" and run: "renumber_tag tt bt i s = Some s'"
  shows "joined sp s'"
proof -
  obtain h x where il: "i < length (tag_data s)"
    and x: "(if 0 \<le> t_bnum (tg s i) then new_number (Bnst_num s) bt (t_bnum (tg s i)) else Some (t_bnum (tg s i))) = Some x"
    and s': "s' = set_tag i (\<lambda>t. t\<lparr>n_num := (if n_num t = -1 then -1 else tt i), n_dpnd_head := h, t_bnum := x\<rparr>) s"
    using run by (auto simp: renumber_tag_def bind_eq_Some_conv)
  have "0 \<le> x \<longleftrightarrow> 0 \<le> t_bnum (tg s i)" "t_bnum (tg s i) < 0 \<longrightarrow> x = t_bnum (tg s i)"
    using x bt by (auto simp: new_number_def split: if_splits)
  then show ?thesis using J il i by (auto simp: s' joined_def set_tag_at)
qed

lemma renumber_bnst_joined:
  assumes "joined sp s" and "renumber_bnst bt i s = Some s'"
  shows "joined sp s'"
proof -
  have il: "i < length (bnst_data s)" using assms(2) by (auto simp: renumber_bnst_def bind_eq_Some_conv)
  obtain h where "s' = s \<or> s' = set_bnst i (\<lambda>b. b\<lparr>n_num := bt i, n_dpnd_head := h\<rparr>) s"
    using assms(2) by (auto simp: renumber_bnst_def bind_eq_Some_conv split: if_splits)
  then show ?thesis using assms(1) il by (auto simp: joined_def set_bnst_at)
qed

lemma join_units_joined:
  assumes p: "phrased sp" and first: "n_num (bn sp 0) \<noteq> -1" and run: "join_units flag sp = Some s"
  shows "joined sp s"
proof -
  obtain c tt s1 where f: "fold_option join_step [0..<Tag_num sp] (-1, [], sp) = Some (c, tt, s1)"
    and rest: "(if flag then do { sp2 \<leftarrow> fold_option (renumber_tag (\<lambda>i. tt ! i) (b_table s1)) [0..<Tag_num sp] s1;
                    fold_option (renumber_bnst (b_table s1)) [0..<Bnst_num sp] sp2 } else Some s1) = Some s"
    using run [unfolded join_units_def Let_def] by (auto simp: bind_eq_Some_conv)
  have J: "joining sp (Tag_num sp) s1" using join_fold_joining [OF p first le_refl f] by simp
  then have bt: "0 \<le> b_table s1 b" for b by (intro b_table_nonneg) (simp add: joining_def)
  note J1 = joining_joined [OF p J]
  show ?thesis
  proof (cases flag)
    case True
    then obtain s2 where s2: "fold_option (renumber_tag (\<lambda>i. tt ! i) (b_table s1)) [0..<Tag_num sp] s1 = Some s2"
      and s: "fold_option (renumber_bnst (b_table s1)) [0..<Bnst_num sp] s2 = Some s"
      using rest by (auto simp: bind_eq_Some_conv)
    have "joined sp s2"
    proof (rule fold_option_invariant [OF s2, where P = "joined sp"])
      fix i x y assume i: "i \<in> set [0..<Tag_num sp]" and step: "renumber_tag (\<lambda>i. tt ! i) (b_table s1) i x = Some y" and x: "joined sp x"
      have "i < Tag_num sp" using i by simp
      then show "joined sp y" by (rule renumber_tag_joined [OF x _ bt step])
    qed (rule J1)
    then show ?thesis
      by (rule fold_option_invariant [where P = "joined sp", OF s]) (rule renumber_bnst_joined)
  next
    case False
    then show ?thesis using rest J1 by simp
  qed
qed

section \<open>The reversal\<close>

definition unit_of :: "'a NODE_scheme \<Rightarrow> int \<times> nat \<times> nat \<times> nat" where
  "unit_of n = (n_num n, n_mrph_ptr n, n_mrph_num n, n_length n)"

lemma calc_length_cong:
  "mrph_data s = mrph_data sp \<Longrightarrow> n_mrph_ptr n = n_mrph_ptr m \<Longrightarrow> n_mrph_num n = n_mrph_num m \<Longrightarrow> calc_bnst_length s n = calc_bnst_length sp m"
  by (simp add: calc_bnst_length_def)

text \<open>A sentence whose units are numbered and measured, as the segmentation leaves them.\<close>

definition measured :: "SENTENCE_DATA \<Rightarrow> bool" where
  "measured sp \<longleftrightarrow> (\<forall>i < Tag_num sp. calc_bnst_length sp (tg sp i) = Some (n_length (tg sp i))) \<and>
     (\<forall>b < Bnst_num sp. n_num (bn sp b) = int b \<and> calc_bnst_length sp (bn sp b) = Some (n_length (bn sp b)))"

definition undone :: "SENTENCE_DATA \<Rightarrow> nat \<Rightarrow> nat \<times> SENTENCE_DATA \<Rightarrow> bool" where
  "undone sp i = (\<lambda>(c, s). joined sp s \<and>
     (\<forall>b k. b < Bnst_num sp \<and> k < count_of sp b \<and> i = first_of sp b + k \<longrightarrow> c = (if k = 0 then b else Suc b)) \<and>
     (\<forall>j < i. unit_of (tg s j) = unit_of (tg sp j) \<and> t_bnum (tg s j) = t_bnum (tg sp j)) \<and>
     (\<forall>b < Bnst_num sp. first_of sp b < i \<longrightarrow> unit_of (bn s b) = unit_of (bn sp b)))"

lemma undoneI:
  assumes "joined sp s" and "\<And>d l. d < Bnst_num sp \<Longrightarrow> l < count_of sp d \<Longrightarrow> i = first_of sp d + l \<Longrightarrow> c = (if l = 0 then d else Suc d)"
    and "\<And>j. j < i \<Longrightarrow> unit_of (tg s j) = unit_of (tg sp j) \<and> t_bnum (tg s j) = t_bnum (tg sp j)"
    and "\<And>b. b < Bnst_num sp \<Longrightarrow> first_of sp b < i \<Longrightarrow> unit_of (bn s b) = unit_of (bn sp b)"
  shows "undone sp i (c, s)"
  using assms unfolding undone_def by blast

lemma undoneD:
  assumes "undone sp i (c, s)"
  shows "joined sp s" "j < i \<Longrightarrow> unit_of (tg s j) = unit_of (tg sp j) \<and> t_bnum (tg s j) = t_bnum (tg sp j)"
    "b < Bnst_num sp \<Longrightarrow> first_of sp b < i \<Longrightarrow> unit_of (bn s b) = unit_of (bn sp b)"
  using assms unfolding undone_def by blast+

lemma undo_step_undone:
  assumes p: "phrased sp" and m: "measured sp" and i: "i < Tag_num sp" and U: "undone sp i (c, s)"
  shows "\<exists>st. undo_step i (c, s) = Some st \<and> undone sp (Suc i) st"
proof -
  obtain b k where b: "b < Bnst_num sp" "k < count_of sp b" "i = first_of sp b + k" "t_b_ptr (tg sp i) = b"
    "t_bnum (tg sp i) = (if k = 0 then int b else -1)" "n_num (tg sp i) = int i"
    by (rule tag_place [OF p i])
  have J: "joined sp s" and c: "c = (if k = 0 then b else Suc b)" using U b(1-3) by (auto simp: undone_def)
  have sz: "sizes s = sizes sp" using J by (simp add: joined_def)
  note L = sizesD [OF sz]
  have il: "i < length (tag_data s)" and bl: "b < length (bnst_data s)" using p i b(1) L by (auto simp: phrased_def)
  have t: "0 \<le> t_bnum (tg s i) \<longleftrightarrow> k = 0" "k \<noteq> 0 \<longrightarrow> t_bnum (tg s i) = -1" "t_b_ptr (tg s i) = b" "n_mrph_ptr (tg s i) = n_mrph_ptr (tg sp i)"
    "n_preserve_mrph_num (tg s i) = n_mrph_num (tg sp i)"
    using J i b(4,5) by (auto simp: joined_def)
  have bb: "n_mrph_ptr (bn s b) = n_mrph_ptr (bn sp b)" "n_preserve_mrph_num (bn s b) = n_mrph_num (bn sp b)"
    using J b(1) by (auto simp: joined_def)
  let ?t = "(tg s i)\<lparr>n_num := int i, n_mrph_num := n_preserve_mrph_num (tg s i)\<rparr>"
  let ?l = "n_length (tg sp i)"
  have len: "calc_bnst_length s' ?t = Some ?l" if "mrph_data s' = mrph_data sp" for s'
    using m i t calc_length_cong [OF that, of ?t "tg sp i"] by (simp add: measured_def)
  define s2 where "s2 = set_tag i (\<lambda>_. ?t\<lparr>n_length := ?l\<rparr>) s"
  let ?b = "(bn s b)\<lparr>n_num := int b, n_mrph_num := n_preserve_mrph_num (bn s b)\<rparr>"
  have blen: "calc_bnst_length s' ?b = Some (n_length (bn sp b))" if "mrph_data s' = mrph_data sp" for s'
    using m b(1) bb calc_length_cong [OF that, of ?b "bn sp b"] by (simp add: measured_def)
  have s2: "set_tag i (\<lambda>t. t\<lparr>n_length := ?l\<rparr>) (set_tag i (\<lambda>t. t\<lparr>n_num := int i, n_mrph_num := n_preserve_mrph_num t\<rparr>) s) = s2"
    using il by (simp add: s2_def set_tag_def)
  have a: "at (tag_data s) i = Some (tg s i)" "tg (set_tag i (\<lambda>t. t\<lparr>n_num := int i, n_mrph_num := n_preserve_mrph_num t\<rparr>) s) i = ?t"
    "calc_bnst_length (set_tag i (\<lambda>t. t\<lparr>n_num := int i, n_mrph_num := n_preserve_mrph_num t\<rparr>) s) ?t = Some ?l"
    "at (bnst_data s2) b = Some (bn s b)" "calc_bnst_length s2 ?b = Some (n_length (bn sp b))"
    using il bl L(5) by (simp_all add: set_tag_at len blen s2_def)
  have next_c: "\<And>d l. d < Bnst_num sp \<Longrightarrow> l < count_of sp d \<Longrightarrow> Suc i = first_of sp d + l \<Longrightarrow> Suc b = (if l = 0 then d else Suc d)"
  proof -
    fix d l assume d: "d < Bnst_num sp" "l < count_of sp d" "Suc i = first_of sp d + l"
    show "Suc b = (if l = 0 then d else Suc d)"
    proof (cases "Suc k < count_of sp b")
      case True
      then have "b = d \<and> Suc k = l" using same_bnst(1) [OF p b(1) d(1) True d(2)] d(3) b(3) by simp
      then show ?thesis by auto
    next
      case False
      then have i': "Suc i = first_of sp b + count_of sp b" using b(2,3) by simp
      have "Suc i < Tag_num sp" using end_le_Tag_num [OF p d(1)] d by simp
      then have sb: "Suc b < Bnst_num sp" using phrasedD(4) [OF p b(1)] b(1) i' by (cases "Suc b = Bnst_num sp") auto
      have "first_of sp (Suc b) + 0 = first_of sp d + l" using phrasedD(3) [OF p b(1) sb] i' d(3) by simp
      then show ?thesis using same_bnst(1) [OF p sb d(1) phrasedD(1) [OF p sb] d(2)] by auto
    qed
  qed
  have less: "first_of sp d < Suc i \<longleftrightarrow> first_of sp d < i \<or> (k = 0 \<and> d = b)" if d: "d < Bnst_num sp" for d
    using same_bnst(1) [OF p b(1) d b(2), of 0] phrasedD(1) [OF p d] b(3) by (auto simp: less_Suc_eq)
  show ?thesis
  proof (cases "k = 0")
    case True
    define s3 where "s3 = set_tag i (\<lambda>t. t\<lparr>t_bnum := int b\<rparr>) (set_bnst b (\<lambda>_. ?b\<lparr>n_length := n_length (bn sp b)\<rparr>) s2)"
    let ?st = "(Suc b, s3)"
    have "undo_step i (c, s) = Some ?st"
      using True t(1) c by (simp only: undo_step_def prod.case Let_def a Option.bind.simps s2 t(3) if_True refl simp_thms s3_def) simp
    moreover have "undone sp (Suc i) ?st"
    proof (rule undoneI)
      have tags: "tg s3 j = (if j = i then ?t\<lparr>n_length := ?l, t_bnum := int b\<rparr> else tg s j)" for j
        using il by (simp add: s3_def s2_def set_tag_at set_bnst_def)
      have bnsts: "bn s3 d = (if d = b then ?b\<lparr>n_length := n_length (bn sp b)\<rparr> else bn s d)" for d
        using bl by (simp add: s3_def s2_def set_bnst_at set_tag_def set_bnst_def)
      have "sizes s3 = sizes sp" by (simp add: s3_def s2_def sz)
      then show "joined sp s3" using J b(1,4,5) True by (simp add: joined_def tags bnsts)
      show "unit_of (tg s3 j) = unit_of (tg sp j) \<and> t_bnum (tg s3 j) = t_bnum (tg sp j)" if "j < Suc i" for j
        using undoneD(2) [OF U, of j] that t b(5,6) True by (cases "j = i") (simp_all add: tags unit_of_def)
      show "unit_of (bn s3 d) = unit_of (bn sp d)" if "d < Bnst_num sp" "first_of sp d < Suc i" for d
        using undoneD(3) [OF U, of d] that less [OF that(1)] bb m b(1) by (cases "d = b") (simp_all add: bnsts unit_of_def measured_def)
    qed (rule next_c)
    ultimately show ?thesis by blast
  next
    case False
    have "undo_step i (c, s) = Some (c, s2)"
      using False t(1) by (simp only: undo_step_def prod.case Let_def a Option.bind.simps s2 if_False simp_thms)
    moreover have "undone sp (Suc i) (c, s2)"
    proof (rule undoneI)
      have tags: "tg s2 j = (if j = i then ?t\<lparr>n_length := ?l\<rparr> else tg s j)" for j
        using il by (simp add: s2_def set_tag_at)
      have bnsts: "bn s2 = bn s" by (simp add: s2_def)
      have "sizes s2 = sizes sp" by (simp add: s2_def sz)
      then show "joined sp s2" using J b(4,5) False by (simp add: joined_def tags bnsts)
      show "unit_of (tg s2 j) = unit_of (tg sp j) \<and> t_bnum (tg s2 j) = t_bnum (tg sp j)" if "j < Suc i" for j
        using undoneD(2) [OF U, of j] that t b(5,6) False by (cases "j = i") (simp_all add: tags unit_of_def)
      show "unit_of (bn s2 d) = unit_of (bn sp d)" if "d < Bnst_num sp" "first_of sp d < Suc i" for d
        using undoneD(3) [OF U, of d] that less [OF that(1)] False by (simp add: bnsts)
      show "c = (if l = 0 then d else Suc d)" if "d < Bnst_num sp" "l < count_of sp d" "Suc i = first_of sp d + l" for d l
        using next_c [OF that] c False by simp
    qed
    ultimately show ?thesis by blast
  qed
qed

text \<open>
  C19. Before the next output the joining of base phrases is undone: whatever was joined, the reversal succeeds and
  every base phrase and bunsetsu has its number, its morphemes and its length again.
\<close>

theorem undo_postprocess_roundtrip:
  assumes "join_units flag sp = Some s" and p: "phrased sp" and m: "measured sp"
  shows "\<exists>s'. undo_tag_bnst_postprocess s = Some s' \<and>
    (\<forall>i < Tag_num sp. unit_of (tg s' i) = unit_of (tg sp i) \<and> t_bnum (tg s' i) = t_bnum (tg sp i)) \<and>
    (\<forall>b < Bnst_num sp. unit_of (bn s' b) = unit_of (bn sp b))"
proof -
  have pos: "0 < Bnst_num sp" using p by (simp add: phrased_def)
  then have "n_num (bn sp 0) \<noteq> -1" using m by (simp add: measured_def)
  then have J: "joined sp s" by (rule join_units_joined [OF p _ assms(1)])
  have start: "undone sp 0 (0, s)"
    using J p same_bnst(1) [OF p _ pos, of _ _ 0] phrasedD(1) [OF p pos] by (auto simp: undone_def phrased_def)
  have all: "\<exists>c t. fold_option undo_step [0..<i] (0, s) = Some (c, t) \<and> undone sp i (c, t)" if "i \<le> Tag_num sp" for i
    using that
  proof (induction i)
    case (Suc i)
    then obtain c t where run: "fold_option undo_step [0..<i] (0, s) = Some (c, t)" and U: "undone sp i (c, t)" by (metis Suc_leD)
    have i: "i < Tag_num sp" using Suc.prems by simp
    obtain st where st: "undo_step i (c, t) = Some st" "undone sp (Suc i) st" using undo_step_undone [OF p m i U] by blast
    have "fold_option undo_step [0..<Suc i] (0, s) = Some st" using run st(1) by (simp add: fold_option_append)
    then show ?case using st(2) by (cases st) blast
  next
    case 0
    show ?case using start by simp
  qed
  obtain c s' where run: "fold_option undo_step [0..<Tag_num sp] (0, s) = Some (c, s')" and U: "undone sp (Tag_num sp) (c, s')"
    using all [OF le_refl] by blast
  have "sizes s = sizes sp" using J by (simp add: joined_def)
  then have "Tag_num s = Tag_num sp" by (rule sizesD(3))
  then have "undo_tag_bnst_postprocess s = Some s'" using run by (simp add: undo_tag_bnst_postprocess_def)
  moreover have "first_of sp b < Tag_num sp" if "b < Bnst_num sp" for b
    using end_le_Tag_num [OF p that] phrasedD(1) [OF p that] by simp
  ultimately show ?thesis using undoneD(2,3) [OF U] by blast
qed

section \<open>An example\<close>

text \<open>Four base phrases in three bunsetsu; the last two base phrases are to be joined with the ones before them.\<close>

definition sample_to_join :: SENTENCE_DATA where
  "sample_to_join =
     (let sp = set_tag 2 (\<lambda>t. t\<lparr>n_f := [s_t_merge]\<rparr>) (set_tag 3 (\<lambda>t. t\<lparr>n_f := [s_t_merge]\<rparr>) sample_phrases)
      in sp\<lparr>tag_data := map (\<lambda>t. t\<lparr>n_length := the (calc_bnst_length sp t)\<rparr>) (tag_data sp)\<rparr>)"

theorem undo_postprocess_roundtrip_witness:
  "\<exists>s s'. join_units True sample_to_join = Some s \<and> map n_num (take 4 (tag_data s)) = [0, 1, -1, -1] \<and>
     undo_tag_bnst_postprocess s = Some s' \<and> (\<forall>i < 4. n_num (tag_data s' ! i) = int i)"
proof -
  have "map_option (\<lambda>s. map n_num (take 4 (tag_data s))) (join_units True sample_to_join) = Some [0, 1, -1, -1]" by code_simp
  then obtain s where run: "join_units True sample_to_join = Some s" "map n_num (take 4 (tag_data s)) = [0, 1, -1, -1]" by auto
  have "list_all (\<lambda>i. calc_bnst_length sample_to_join (tg sample_to_join i) = Some (n_length (tg sample_to_join i)) \<and>
        n_num (tg sample_to_join i) = int i) [0..<4]"
    "list_all (\<lambda>b. n_num (bn sample_to_join b) = int b \<and>
        calc_bnst_length sample_to_join (bn sample_to_join b) = Some (n_length (bn sample_to_join b))) [0..<3]"
    "Tag_num sample_to_join = 4" "Bnst_num sample_to_join = 3" "frame sample_to_join = frame sample_phrases"
    by code_simp+
  then have m: "measured sample_to_join" and n: "Tag_num sample_to_join = 4" "\<forall>i < 4. n_num (tg sample_to_join i) = int i"
    and p: "phrased sample_to_join"
    using frame_phrased [OF _ phrased_sample] by (simp_all add: measured_def list_all_iff)
  show ?thesis using undo_postprocess_roundtrip [OF run(1) p m] run n by (auto simp: unit_of_def)
qed

end
