(* ===== verification/Spec2Isabelle.thy ===== *)
theory Spec2Isabelle
  imports Knp_Homo Knp_Case Knp_Post
begin

text \<open>
  A verification development for KNP, the Japanese dependency and case structure analyser of
  \<^verbatim>\<open>src/system\<close>.

  The program. A sentence is a list of morphemes from JUMAN, grouped into base phrases and bunsetsu.
  Every such unit carries a list of features, strings of the form name or name:value. Rules read from
  S-expression files add features: a rule matches regular expressions over units against the text, and
  feature patterns against single units. Then quotations, correlations and coordinations restrict a
  matrix of possible dependencies, a search enumerates the dependency structures that the matrices
  allow, and an evaluation keeps the best one.

  The parts, in the order in which a theory uses another one:
  \<^item> \<open>Knp_Prelude\<close>: C strings as byte lists, loops, matrices, the option monad; \<open>Knp_Literals\<close>: the
    Japanese string literals of the code as UTF-8 bytes.
  \<^item> \<open>Knp_Tools\<close> (\<open>tools.c\<close>): the table hash, string length in characters, kana conversion.
  \<^item> \<open>Knp_Data\<close> (\<open>const.h\<close>): the records of rules, morphemes, bunsetsu, sentences, dependency structures.
  \<^item> \<open>Knp_Feature\<close> (\<open>feature.c\<close>): feature lists, parsing and printing of feature patterns. The locale
    \<open>feature_map\<close> states that a feature list is a map from names, with its interpretation.
  \<^item> \<open>Knp_Sem\<close> (\<open>case_match.c\<close>, \<open>lib_sm.c\<close>, \<open>lib_bgh.c\<close>, \<open>bnst_compare.c\<close>, \<open>nv_mi.c\<close>): semantic codes,
    subordinate levels, suffix comparisons.
  \<^item> \<open>Knp_Check\<close> (\<open>feature.c\<close>): the functions of feature patterns and the matching of patterns.
  \<^item> \<open>Knp_Regexp\<close>, \<open>Knp_Regexp_Spec\<close> (\<open>regexp.c\<close>): matching of regular expressions and of rules, and
    the language it decides; the locales \<open>element_test\<close> and \<open>sequence_matcher\<close> are interpreted on the
    morpheme and the bunsetsu matchers.
  \<^item> \<open>Knp_Rules\<close> (\<open>regexp.c\<close>, \<open>read_rule.c\<close>): S-expressions to rules.
  \<^item> \<open>Knp_Quote\<close> (\<open>quote.c\<close>): quotations, their matrix, the splitting of parenthesised text.
  \<^item> \<open>Knp_Koou\<close> (\<open>koou.c\<close>): correlations between an adverb and its predicate.
  \<^item> \<open>Knp_Dpnd\<close>, \<open>Knp_Dpnd_Spec\<close> (\<open>dpnd_analysis.c\<close>): the dependency matrix, its relaxation, the search
    for structures and their evaluation; the locale \<open>best_handler\<close> states what keeping the best
    structure means, with its interpretation on \<open>dpnd_evaluation\<close>.
  \<^item> \<open>Knp_Scope\<close> (\<open>para_analysis.c\<close>): keys of coordinations and the search for the scope of a key,
    a dynamic program over a matrix of similarities; it is shown to compute the best path.
  \<^item> \<open>Knp_Relation\<close> (\<open>para_relation.c\<close>, \<open>para_revision.c\<close>): the relations between the scopes of a
    sentence, the revision of bad pairs, and the forest of managers that groups the scopes.
  \<^item> \<open>Knp_Para\<close> (\<open>para_dpnd.c\<close>, \<open>para_revision.c\<close>, \<open>main.c\<close>): the dependencies inside a part of a
    coordination, the mask that each coordination puts on the dependency matrix, and the loop that
    detects and revises coordinations until all of them are consistent.
  \<^item> \<open>Knp_Tree\<close> (\<open>tree_conv.c\<close>): the tree of the bunsetsu, the nodes that stand for coordinations, and
    the distribution of modifiers over conjuncts; it is shown to be a forest. The locale
    \<open>bounded_recursion\<close> states that a recursion over managers uses its children only, with two
    interpretations.
  \<^item> \<open>Knp_Segment\<close> (\<open>read_data.c\<close>): bunsetsu and base phrases from the marks that rules have set, heads
    and lengths; the base phrases are shown to refine the bunsetsu without a gap.
  \<^item> \<open>Knp_Tables\<close> (\<open>case_analysis.c\<close>, \<open>case_data.h\<close>): the tables of case particles and of compound
    particles, with the codes of cases; \<open>Knp_Mrph\<close> (\<open>read_data.c\<close>): representative forms of morphemes, alternatives, changes of
    the part of speech, joining of morphemes.
  \<^item> \<open>Knp_Assign\<close> (\<open>feature.c\<close>, \<open>lib_scase.c\<close>, \<open>case_ipal.c\<close>, \<open>case_data.c\<close>, \<open>lib_sm.c\<close>, \<open>dic.c\<close>):
    what a matching rule does to a unit; \<open>Knp_Apply\<close> (\<open>read_data.c\<close>): the loops that apply rules, when
    they end and when they do not.
  \<^item> \<open>Knp_Preprocess\<close> (\<open>read_data.c\<close>): the morphemes before the analysis; rules and joining keep the
    text of the sentence.
  \<^item> \<open>Knp_Homo\<close> (\<open>read_data.c\<close>, \<open>read_rule.c\<close>): the choice between the readings of a word.
  \<^item> \<open>Knp_Frame\<close>: the shape of a sentence and what keeps it, with the locale \<open>rule_invariant\<close>, whose
    interpretations give that the application of rules keeps the words and the phrases;
    \<open>Knp_Heads\<close> (\<open>dpnd_analysis.c\<close>): the heads of base phrases and morphemes, the joining of base phrases.
  \<^item> \<open>Knp_Similar\<close> (\<open>bnst_compare.c\<close>, \<open>thesaurus.c\<close>, \<open>lib_sm.c\<close>): the similarity of bunsetsu; what it means
    for the scopes that are found with it.
  \<^item> \<open>Knp_Case\<close> (\<open>case_match.c\<close>, \<open>case_analysis.c\<close>, \<open>thesaurus.c\<close>): the assignment of the case elements of a
    predicate to the slots of a case frame: the score of an element for a slot, the search over all
    assignments, their evaluation, the best ones. They are shown to be matchings and, with
    probabilities, the most probable ones of all that the search enumerates.
  \<^item> \<open>Knp_Post\<close> (\<open>dpnd_analysis.c\<close>): the features of coordinated predicates and of other candidates for a
    head; the joining of base phrases can be undone.
  \<^item> \<open>Spec2Isabelle\<close>: what the masks mean for the structures that the search enumerates.

  Conventions. Strings are lists of bytes in UTF-8, the encoding for which the constants are compiled
  (\<open>BYTES4CHAR\<close> is 3). Undefined behaviour (a null pointer, an index outside an array or a string, an
  uninitialised variable) and \<^verbatim>\<open>exit\<close> are \<open>None\<close>; \<open>malloc\<close> does not fail. Arrays that the code indexes
  by bunsetsu numbers are functions from \<open>nat\<close>; loops over them run over \<open>[0..<n]\<close>. Where the code sends
  a pointer to two structures with a common prefix, the model uses the record they extend. Globals that
  a function changes are arguments and results; options, databases and the tables of JUMAN are fields
  of \<open>ENV\<close> and \<open>GRAMMAR\<close>, or arguments. Debug output is not modelled.

  The loop of \<open>assign_mrph_feature\<close> that tries all rules at each position need not end, so \<open>mrm_loop\<close> is a
  partial function with no result then.

  Bounds. The matchers and the string scans terminate by the length of their lists, the searches by
  bunsetsu numbers. The recursions over the forest of managers (\<open>para_revise_scope\<close>,
  \<open>check_para_d_struct\<close>, \<open>strong_para_expand\<close>, \<open>para_top_expand\<close>) and over the tree
  (\<open>para_modifier_expand\<close>) follow pointers and take fuel, one more than the number of managers or nodes;
  without a cycle the depth is smaller (\<open>manager_depth_enough\<close>), and running out of fuel is \<open>None\<close>, not a
  result. The search for case assignments decides one element with each call; its fuel, one more than the
  number of elements, is enough (\<open>assign_list_terminates\<close>).
  Numbers that the code keeps in an \<^verbatim>\<open>int\<close> and that are bounded by the sentence (at most 200
  bunsetsu) are \<open>int\<close> or \<open>nat\<close>; the hash is a 32-bit word and the size of a pattern, a
  \<^verbatim>\<open>char\<close>, wraps. Floating point numbers are a type parameter with the operations and
  comparisons of the record \<open>FLOAT\<close> and its extensions; no law of arithmetic is assumed of them, and
  where a property needs that the comparisons order the values, its statement says so.

  Not modelled: reading and printing sentences and the main program (\<open>main.c\<close> except the loop over
  coordinations, \<open>lib_print.c\<close>, the readers of \<open>read_data.c\<close>), the similarity of Chinese words,
  the recovery of coordinations from a given analysis (\<open>para_recovery\<close>), the choice of a case frame and
  the frame of the input (\<open>case_analysis.c\<close>), the databases of case frames and probabilities
  (\<open>case_ipal.c\<close>), ellipsis and anaphora analysis (\<open>context.c\<close>, \<open>anaphora.c\<close>, \<open>corefer.c\<close>),
  the CKY parser, named entities, and the Chinese tables, with the
  Chinese branch of \<open>check_para_d_struct\<close>; the libraries (\<open>cdb\<close>, CRF++, SVM, JUMAN) are outside the
  program.
\<close>

section \<open>Masks and dependency structures\<close>

lemma resolve_heads_keeps:
  "resolve_heads js dp = Some (Some d) \<Longrightarrow> 0 \<le> d_head dp p \<Longrightarrow> d_head d p = d_head dp p"
proof (induction js arbitrary: dp)
  case (Cons i js)
  show ?case
  proof (cases "d_head dp i < 0")
    case True
    then have "p \<noteq> i" using Cons.prems(2) by auto
    then show ?thesis using Cons.prems True by (auto simp: Let_def split: if_splits dest!: Cons.IH)
  qed (use Cons in auto)
qed simp

text \<open>Every head of a structure that is not fixed in advance is one that the search may choose.\<close>

lemma structures_choice:
  assumes "structures e sp M st = Some ds" and "d \<in> set ds" and p: "p < Bnst_num sp - 1"
    and P: "\<And>dp h. choice sp M p dp h \<Longrightarrow> 0 \<le> h \<and> P h"
  shows "P (d_head d p)"
proof (rule structures_invariant [OF assms(1,2), where J = "\<lambda>k dp. k \<le> p \<longrightarrow> 0 \<le> d_head dp p \<and> P (d_head dp p)"])
  show "Bnst_num sp - 1 \<le> p \<longrightarrow> 0 \<le> d_head (init_dpnd sp) p \<and> P (d_head (init_dpnd sp) p)" using p by simp
next
  fix k dp dp'
  assume "Suc k \<le> p \<longrightarrow> 0 \<le> d_head dp p \<and> P (d_head dp p)" "successor sp M k dp dp'"
  then show "k \<le> p \<longrightarrow> 0 \<le> d_head dp' p \<and> P (d_head dp' p)"
    using P by (cases "k = p") (auto simp: successor_def Let_def)
next
  fix dp d
  assume "0 \<le> p \<longrightarrow> 0 \<le> d_head dp p \<and> P (d_head dp p)" "resolve_heads [0..<Bnst_num sp - 1] dp = Some (Some d)"
  then show "P (d_head d p)" using resolve_heads_keeps [of _ dp d p] by simp
qed

section \<open>Properties\<close>


text \<open>
  C1. When the matrix is masked by a complete coordination, every dependency structure of the search links
  the last bunsetsu of each part to the last bunsetsu of the next part.
\<close>

theorem search_links_conjuncts:
  assumes "structures e sp M st = Some ds" and "d \<in> set ds"
    and "Mask_matrix M = mask_para (Bnst_num sp) m start_pos strong False found old"
    and "parts_ordered (Bnst_num sp) m" and "Suc k < length (pm_start m)"
  shows "d_head d (pm_end m ! k) = int (pm_end m ! Suc k)"
proof -
  let ?p = "pm_end m ! k" and ?h = "pm_end m ! Suc k" and ?n = "Bnst_num sp"
  have lt: "?p < ?h" using part_end_less [OF assms(4), of k "Suc k"] parts_orderedD(4) [OF assms(4), of "Suc k"] assms(5) by simp
  have h: "?h < ?n" by (rule part_end_bound [OF assms(4,5)])
  have row: "Mask_matrix M ?p j = (if j = ?h then 2 else 0)" if "?p < j" "j < ?n" for j
  proof -
    have "pm_start m ! k \<le> ?p" using parts_orderedD(4) [OF assms(4), of k] assms(5) by simp
    then show ?thesis
      unfolding assms(3) mask_para_cell
      using link_cell_in_part [OF assms(4,5), of ?p j] masked_part_rows [OF assms(4,5) _ _ that] by simp
  qed
  have "para_mark sp M ?p = Some (?h, CHR ''P'')"
  proof (cases "para_mark sp M ?p")
    case None
    then have "Mask_matrix M ?p ?h \<noteq> 2"
      using lt h by (auto simp: para_mark_def find_None_iff split: option.splits)
    then show ?thesis using row [OF lt h] by simp
  next
    case (Some x)
    then show ?thesis using row by (auto simp: para_mark_def find_Some_iff split: option.splits if_splits)
  qed
  then have "0 \<le> x \<and> x = int ?h" if "choice sp M ?p dp x" for dp x
    using that by (simp add: choice_def)
  then show ?thesis
    using structures_choice [OF assms(1,2), of ?p "\<lambda>x. x = int ?h"] lt h by simp
qed


text \<open>Two parts of one bunsetsu each, before a third bunsetsu.\<close>

definition sample_pair :: PARA_MANAGER where
  "sample_pair =
     \<lparr>pm_para_data = [0], pm_start = [0, 1], pm_end = [0, 1], pm_parent = None, pm_child = [], pm_status = CHR ''w''\<rparr>"

definition sample_masked :: MATRICES where
  "sample_masked = sample_matrices\<lparr>Mask_matrix := mask_para 3 sample_pair 0 False False (\<lambda>_. True) (\<lambda>_ _. 1)\<rparr>"

lemma sample_masked_structures:
  "sample_heads (structures sample_env (sample_clauses [[], [], []]) sample_masked clear_state) = Some [[1, 2, -1]]"
  by code_simp

theorem search_links_conjuncts_witness:
  "\<exists>d ds. structures sample_env (sample_clauses [[], [], []]) sample_masked clear_state = Some (d # ds) \<and> d_head d 0 = 1"
proof -
  obtain d ds where s: "structures sample_env (sample_clauses [[], [], []]) sample_masked clear_state = Some (d # ds)"
    using sample_masked_structures by (auto simp: sample_heads_def)
  have "parts_ordered 3 sample_pair"
    by (simp add: parts_ordered_def parts_chain_def sample_pair_def less_Suc_eq)
  then have "d_head d (pm_end sample_pair ! 0) = int (pm_end sample_pair ! Suc 0)"
    by (intro search_links_conjuncts [OF s, where old = "\<lambda>_ _. 1" and start_pos = 0 and strong = False and found = "\<lambda>_. True"])
      (simp_all add: sample_masked_def sample_matrices_def sample_pair_def numeral_3_eq_3)
  then show ?thesis using s by (simp add: sample_pair_def)
qed

end
